(* ===== verification/Prelude.thy ===== *)
theory Prelude
  imports Main "HOL-Library.Word" "HOL-Library.Monad_Syntax"
begin

text \<open>
  What every component shares: the machine integers of the C code, checked signed arithmetic,
  words read as numbers, masks by powers of two, and the collections of rewrite rules the
  component theories feed.
\<close>

unbundle bit_operations_syntax

type_synonym u8 = "8 word"
type_synonym u16 = "16 word"
type_synonym u32 = "32 word"
type_synonym u64 = "64 word"
type_synonym addr = "64 word"

named_theorems ring_simps \<open>descriptor ring arithmetic\<close>
named_theorems trace_simps \<open>what an operation appends to the effect trace\<close>

section \<open>Signed arithmetic whose overflow is undefined\<close>

text \<open>
  C's signed overflow is undefined behaviour. A value of type \<open>long\<close> (64 bits on the
  targets of this code) is an \<open>int\<close> that went through \<open>chk_long\<close>; \<open>None\<close> is the overflow.
\<close>

definition LONG_MAX :: int where
  "LONG_MAX = 9223372036854775807"

definition LONG_MIN :: int where
  "LONG_MIN = - 9223372036854775808"

definition in_long :: "int \<Rightarrow> bool" where
  "in_long x \<longleftrightarrow> LONG_MIN \<le> x \<and> x \<le> LONG_MAX"

definition chk_long :: "int \<Rightarrow> int option" where
  "chk_long x = (if in_long x then Some x else None)"

lemma chk_long_Some [simp]: "chk_long x = Some y \<longleftrightarrow> in_long x \<and> y = x"
  by (auto simp: chk_long_def)

lemma chk_long_in [simp]: "in_long x \<Longrightarrow> chk_long x = Some x"
  by (simp add: chk_long_def)

lemma chk_long_out [simp]: "\<not> in_long x \<Longrightarrow> chk_long x = None"
  by (simp add: chk_long_def)

lemmas long_bounds = in_long_def LONG_MAX_def LONG_MIN_def

text \<open>C's \<open>/\<close> and \<open>%\<close> truncate towards zero.\<close>

definition tdiv :: "int \<Rightarrow> int \<Rightarrow> int" where
  "tdiv a b = sgn a * sgn b * (\<bar>a\<bar> div \<bar>b\<bar>)"

definition tmod :: "int \<Rightarrow> int \<Rightarrow> int" where
  "tmod a b = a - b * tdiv a b"

lemma tdiv_nonneg: "0 \<le> a \<Longrightarrow> 0 < b \<Longrightarrow> tdiv a b = a div b"
  by (cases "a = 0") (auto simp: tdiv_def)

lemma tdiv_neg: "a < 0 \<Longrightarrow> 0 < b \<Longrightarrow> tdiv a b = - ((- a) div b)"
  by (simp add: tdiv_def)

lemma tmod_nonneg: "0 \<le> a \<Longrightarrow> 0 < b \<Longrightarrow> tmod a b = a mod b"
  by (simp add: tmod_def tdiv_nonneg minus_mult_div_eq_mod)

lemma tmod_neg: "a < 0 \<Longrightarrow> 0 < b \<Longrightarrow> tmod a b = - ((- a) mod b)"
  using minus_mult_div_eq_mod [of "- a" b] by (simp add: tmod_def tdiv_neg)

lemma tdiv_tmod: "b * tdiv a b + tmod a b = a"
  by (simp add: tmod_def)

section \<open>Words\<close>

lemma unat_sub_le: "unat (b::'a::len word) \<le> unat a \<Longrightarrow> unat (a - b) = unat a - unat b"
  by (simp add: unat_sub word_le_nat_alt)

lemma word_add_diff_cancel: "(b::'a::len word) + (a - b) = a"
  by simp

text \<open>A mask of \<open>n\<close> low bits is the remainder by \<open>2 ^ n\<close>.\<close>

lemma mask_mod: "unat ((x::'a::len word) AND mask n) = unat x mod 2 ^ n"
proof -
  have "unat (x AND mask n) = take_bit n (unat x)"
    by (simp only: unsigned_take_bit_eq flip: take_bit_eq_mask)
  then show ?thesis
    by (simp only: take_bit_eq_mod)
qed

lemma and_mask_word: "(x::'a::len word) AND mask n = take_bit n x"
  by (simp add: take_bit_eq_mask)

lemma pow2_minus1_mask: "(2::'a::len word) ^ n - 1 = mask n"
  by (simp add: mask_eq_exp_minus_1)

lemma word16_mask: "(0xffff :: u32) = mask 16"
  by (simp add: mask_eq_exp_minus_1)

lemma take_bit_small: "unat (x::'a::len word) < 2 ^ n \<Longrightarrow> take_bit n x = x"
  by (simp add: word_unat_eq_iff unsigned_take_bit_eq take_bit_nat_eq_self_iff)

lemma unat_2p: "n < LENGTH('a::len) \<Longrightarrow> unat ((2::'a word) ^ n) = 2 ^ n"
proof -
  assume n: "n < LENGTH('a)"
  have "(2::'a word) ^ n = of_nat (2 ^ n)" by simp
  then have "unat ((2::'a word) ^ n) = 2 ^ n mod 2 ^ LENGTH('a)" by (simp only: unat_of_nat)
  with n show ?thesis by simp
qed

lemma unat_ucast_up: "LENGTH('a::len) \<le> LENGTH('b::len) \<Longrightarrow> unat (ucast (x::'a word) :: 'b word) = unat x"
proof -
  assume l: "LENGTH('a) \<le> LENGTH('b)"
  have "unat x < 2 ^ LENGTH('a)" by simp
  also have "\<dots> \<le> (2::nat) ^ LENGTH('b)" using l by simp
  finally show ?thesis by (simp add: unsigned_ucast_eq take_bit_nat_eq_self)
qed

lemma unat_ucast16 [simp]: "unat (ucast (x::u16) :: u32) = unat x"
  by (rule unat_ucast_up) simp


section \<open>Loops that may fault\<close>

text \<open>Run a fallible step for each element in order.\<close>

primrec ofold :: "('i \<Rightarrow> 's \<Rightarrow> 's option) \<Rightarrow> 'i list \<Rightarrow> 's \<Rightarrow> 's option" where
  "ofold f [] s = Some s"
| "ofold f (i # xs) s = (case f i s of None \<Rightarrow> None | Some s \<Rightarrow> ofold f xs s)"

lemma ofold_append [simp]:
  "ofold f (xs @ ys) s = (case ofold f xs s of None \<Rightarrow> None | Some s \<Rightarrow> ofold f ys s)"
  by (induction xs arbitrary: s) (auto split: option.splits)

definition prefix_of :: "'i list \<Rightarrow> 'i list \<Rightarrow> bool" where
  "prefix_of ys xs \<longleftrightarrow> (\<exists>zs. xs = ys @ zs)"

text \<open>An invariant indexed by the part of the list already done.\<close>

lemma ofold_inv:
  assumes "ofold f xs s = Some s'" "P [] s"
    and "\<And>ys y s t. f y s = Some t \<Longrightarrow> prefix_of (ys @ [y]) xs \<Longrightarrow> P ys s \<Longrightarrow> P (ys @ [y]) t"
  shows "P xs s'"
  using assms
proof (induction xs arbitrary: s' rule: rev_induct)
  case (snoc x xs)
  from snoc.prems(1) obtain t where t: "ofold f xs s = Some t" "f x t = Some s'" by (auto split: option.splits)
  have "P xs t"
    using t(1) snoc.prems(2)
  proof (rule snoc.IH)
    fix ys y s1 t1
    assume "f y s1 = Some t1" "prefix_of (ys @ [y]) xs" "P ys s1"
    moreover have "prefix_of (ys @ [y]) (xs @ [x])"
      using \<open>prefix_of (ys @ [y]) xs\<close> by (auto simp: prefix_of_def)
    ultimately show "P (ys @ [y]) t1" using snoc.prems(3) by blast
  qed
  then show ?case using snoc.prems(3) [OF t(2)] by (simp add: prefix_of_def)
qed simp


text \<open>Total runs: each step succeeds and establishes its own part without spoiling the others.\<close>

lemma ofold_upt_total:
  assumes "\<And>k s. k < n \<Longrightarrow> I s \<Longrightarrow> R k s \<Longrightarrow> \<exists>t. f k s = Some t \<and> I t \<and> U k t \<and>
      (\<forall>j. j \<noteq> k \<longrightarrow> (R j s \<longrightarrow> R j t) \<and> (U j s \<longrightarrow> U j t))"
    and "I s" "\<forall>k<n. R k s"
  shows "\<exists>t. ofold f [0..<n] s = Some t \<and> I t \<and> (\<forall>k<n. U k t)"
proof -
  have "\<exists>t. ofold f [0..<m] s = Some t \<and> I t \<and> (\<forall>k<m. U k t) \<and> (\<forall>k. m \<le> k \<and> k < n \<longrightarrow> R k t)" if "m \<le> n" for m
    using that
  proof (induction m)
    case (Suc m)
    then obtain t where t: "ofold f [0..<m] s = Some t" "I t" "\<forall>k<m. U k t" "\<forall>k. m \<le> k \<and> k < n \<longrightarrow> R k t" by auto
    with assms(1) [of m t] Suc.prems obtain u where
      u: "f m t = Some u" "I u" "U m u" "\<forall>j. j \<noteq> m \<longrightarrow> (R j t \<longrightarrow> R j u) \<and> (U j t \<longrightarrow> U j u)" by auto
    have "\<forall>k<Suc m. U k u" "\<forall>k. Suc m \<le> k \<and> k < n \<longrightarrow> R k u"
      using t(3,4) u(3,4) by (auto simp: less_Suc_eq)
    with t(1) u(1,2) show ?case by simp
  qed (use assms(2,3) in auto)
  from this [of n] show ?thesis by auto
qed

text \<open>Steps that also return an error code: the first one that is not zero ends the run.\<close>

primrec efold :: "('i \<Rightarrow> 's \<Rightarrow> (int \<times> 's) option) \<Rightarrow> 'i list \<Rightarrow> 's \<Rightarrow> (int \<times> 's) option" where
  "efold f [] s = Some (0, s)"
| "efold f (i # xs) s = (case f i s of None \<Rightarrow> None | Some (e, s) \<Rightarrow> if e \<noteq> 0 then Some (e, s) else efold f xs s)"

text \<open>An invariant by position, and what an early end leaves.\<close>

lemma efold_inv:
  assumes "efold f [0..<n] w = Some (e, w')" "P 0 w"
    and "\<And>k v e v'. k < n \<Longrightarrow> f k v = Some (e, v') \<Longrightarrow> P k v \<Longrightarrow> if e = 0 then P (Suc k) v' else Q v'"
  shows "if e = 0 then P n w' else Q w'"
proof -
  have "efold f [m..<n] w = Some (e, w') \<Longrightarrow> P m w \<Longrightarrow> m \<le> n \<Longrightarrow> if e = 0 then P n w' else Q w'" for m
  proof (induction "n - m" arbitrary: m w)
    case 0
    then show ?case by simp
  next
    case (Suc d)
    then have m: "[m..<n] = m # [Suc m..<n]" "m < n" by (simp_all add: upt_conv_Cons)
    with Suc.prems(1) obtain e1 v where v: "f m w = Some (e1, v)" by (auto split: option.splits)
    note s = assms(3) [OF m(2) v Suc.prems(2)]
    show ?case
    proof (cases "e1 = 0")
      case True
      with s Suc.prems m v show ?thesis using Suc.hyps(1) [of "Suc m" v] Suc.hyps(2) by auto
    next
      case False
      with s Suc.prems m v show ?thesis by auto
    qed
  qed
  from this [of 0] assms(1,2) show ?thesis by simp
qed

definition eseq :: "(int \<times> 's) option \<Rightarrow> ('s \<Rightarrow> (int \<times> 's) option) \<Rightarrow> (int \<times> 's) option" where
  "eseq r f = (case r of None \<Rightarrow> None | Some (e, s) \<Rightarrow> if e \<noteq> 0 then Some (e, s) else f s)"

end
