(* ===== verification/Timespec.thy ===== *)
theory Timespec
  imports Prelude
begin

text \<open>
  \<open>utils/timespec.c\<close>: arithmetic on \<open>struct timespec\<close>. Both fields are \<open>long\<close>; every signed
  operation that may overflow goes through \<open>chk_long\<close>, so \<open>None\<close> is undefined behaviour
  (or, for the doubling loop of \<open>timespec_mod\<close>, a run that does not return).
  The abstraction is the number of nanoseconds, \<open>ns\<close>; \<open>canon\<close> is the unique normalised
  structure of a number of nanoseconds.
\<close>

section \<open>The structure and its normal form\<close>

definition NSEC_PER_SEC :: int where
  "NSEC_PER_SEC = 1000000000"

record timespec =
  tv_sec :: int
  tv_nsec :: int

record timeval =
  tvl_sec :: int
  tvl_usec :: int

text \<open>The two carry loops and the sign adjustment of \<open>timespec_normalise\<close>.\<close>

function norm_carry :: "timespec \<Rightarrow> timespec option" where
  "norm_carry ts =
     (if NSEC_PER_SEC \<le> tv_nsec ts
      then do { s \<leftarrow> chk_long (tv_sec ts + 1);
                norm_carry \<lparr>tv_sec = s, tv_nsec = tv_nsec ts - NSEC_PER_SEC\<rparr> }
      else Some ts)"
  by pat_completeness auto
termination
  by (relation "measure (\<lambda>ts. nat (tv_nsec ts))") (auto simp: NSEC_PER_SEC_def)

function norm_borrow :: "timespec \<Rightarrow> timespec option" where
  "norm_borrow ts =
     (if tv_nsec ts \<le> - NSEC_PER_SEC
      then do { s \<leftarrow> chk_long (tv_sec ts - 1);
                norm_borrow \<lparr>tv_sec = s, tv_nsec = tv_nsec ts + NSEC_PER_SEC\<rparr> }
      else Some ts)"
  by pat_completeness auto
termination
  by (relation "measure (\<lambda>ts. nat (- tv_nsec ts))") (auto simp: NSEC_PER_SEC_def)

declare norm_carry.simps [simp del] norm_borrow.simps [simp del]

definition norm_sign :: "timespec \<Rightarrow> timespec option" where
  "norm_sign ts =
     (if tv_nsec ts < 0 \<and> tv_sec ts > 0
      then do { s \<leftarrow> chk_long (tv_sec ts - 1);
                Some \<lparr>tv_sec = s, tv_nsec = NSEC_PER_SEC - (-1 * tv_nsec ts)\<rparr> }
      else if tv_nsec ts > 0 \<and> tv_sec ts < 0
      then do { s \<leftarrow> chk_long (tv_sec ts + 1);
                Some \<lparr>tv_sec = s, tv_nsec = - NSEC_PER_SEC - (-1 * tv_nsec ts)\<rparr> }
      else Some ts)"

definition timespec_normalise :: "timespec \<Rightarrow> timespec option" where
  "timespec_normalise ts = do { a \<leftarrow> norm_carry ts; b \<leftarrow> norm_borrow a; norm_sign b }"

section \<open>Arithmetic\<close>

definition timespec_add :: "timespec \<Rightarrow> timespec \<Rightarrow> timespec option" where
  "timespec_add ts1 ts2 = do {
     a \<leftarrow> timespec_normalise ts1;
     b \<leftarrow> timespec_normalise ts2;
     s \<leftarrow> chk_long (tv_sec a + tv_sec b);
     n \<leftarrow> chk_long (tv_nsec a + tv_nsec b);
     timespec_normalise \<lparr>tv_sec = s, tv_nsec = n\<rparr> }"

definition timespec_sub :: "timespec \<Rightarrow> timespec \<Rightarrow> timespec option" where
  "timespec_sub ts1 ts2 = do {
     a \<leftarrow> timespec_normalise ts1;
     b \<leftarrow> timespec_normalise ts2;
     s \<leftarrow> chk_long (tv_sec a - tv_sec b);
     n \<leftarrow> chk_long (tv_nsec a - tv_nsec b);
     timespec_normalise \<lparr>tv_sec = s, tv_nsec = n\<rparr> }"

definition timespec_eq :: "timespec \<Rightarrow> timespec \<Rightarrow> bool" where
  "timespec_eq ts1 ts2 \<longleftrightarrow> tv_sec ts1 = tv_sec ts2 \<and> tv_nsec ts1 = tv_nsec ts2"

definition timespec_gt :: "timespec \<Rightarrow> timespec \<Rightarrow> bool" where
  "timespec_gt ts1 ts2 \<longleftrightarrow>
     tv_sec ts1 > tv_sec ts2 \<or> (tv_sec ts1 = tv_sec ts2 \<and> tv_nsec ts1 > tv_nsec ts2)"

definition timespec_ge :: "timespec \<Rightarrow> timespec \<Rightarrow> bool" where
  "timespec_ge ts1 ts2 \<longleftrightarrow>
     tv_sec ts1 > tv_sec ts2 \<or> (tv_sec ts1 = tv_sec ts2 \<and> tv_nsec ts1 \<ge> tv_nsec ts2)"

definition timespec_lt :: "timespec \<Rightarrow> timespec \<Rightarrow> bool" where
  "timespec_lt ts1 ts2 \<longleftrightarrow>
     tv_sec ts1 < tv_sec ts2 \<or> (tv_sec ts1 = tv_sec ts2 \<and> tv_nsec ts1 < tv_nsec ts2)"

definition timespec_le :: "timespec \<Rightarrow> timespec \<Rightarrow> bool" where
  "timespec_le ts1 ts2 \<longleftrightarrow>
     tv_sec ts1 < tv_sec ts2 \<or> (tv_sec ts1 = tv_sec ts2 \<and> tv_nsec ts1 \<le> tv_nsec ts2)"

text \<open>
  \<open>timespec_mod\<close>: negate negative inputs, double the divisor until it passes the dividend (or
  its seconds reach half of \<open>LONG_MAX\<close>), then subtract and halve back.
\<close>

definition ts_negate :: "timespec \<Rightarrow> timespec option" where
  "ts_negate ts = do {
     s \<leftarrow> chk_long (- tv_sec ts); n \<leftarrow> chk_long (- tv_nsec ts);
     Some \<lparr>tv_sec = s, tv_nsec = n\<rparr> }"

definition ts_double :: "timespec \<Rightarrow> timespec option" where
  "ts_double ts = do {
     n \<leftarrow> chk_long (2 * tv_nsec ts);
     s \<leftarrow> chk_long (2 * tv_sec ts);
     (if n > NSEC_PER_SEC
      then do { s' \<leftarrow> chk_long (s + 1); Some \<lparr>tv_sec = s', tv_nsec = n - NSEC_PER_SEC\<rparr> }
      else Some \<lparr>tv_sec = s, tv_nsec = n\<rparr>) }"

definition ts_halve :: "timespec \<Rightarrow> timespec option" where
  "ts_halve ts = do {
     n \<leftarrow> (if odd (tv_sec ts) then chk_long (tv_nsec ts + NSEC_PER_SEC) else Some (tv_nsec ts));
     Some \<lparr>tv_sec = tv_sec ts div 2, tv_nsec = n div 2\<rparr> }"

partial_function (option) mod_shift :: "timespec \<Rightarrow> timespec \<Rightarrow> nat \<Rightarrow> (timespec \<times> nat) option" where
  "mod_shift ts1 ts2 i =
     (if tv_sec ts2 < LONG_MAX div 2 \<and> timespec_ge ts1 ts2
      then Option.bind (ts_double ts2) (\<lambda>ts2'. mod_shift ts1 ts2' (Suc i))
      else Some (ts2, i))"

fun mod_reduce :: "nat \<Rightarrow> timespec \<Rightarrow> timespec \<Rightarrow> (timespec \<times> timespec) option" where
  "mod_reduce i ts1 ts2 = do {
     r \<leftarrow> (if timespec_ge ts1 ts2 then timespec_sub ts1 ts2 else Some ts1);
     (case i of
        0 \<Rightarrow> Some (r, ts2)
      | Suc j \<Rightarrow> do { ts2' \<leftarrow> ts_halve ts2; mod_reduce j r ts2' }) }"

declare mod_reduce.simps [simp del]

definition timespec_mod :: "timespec \<Rightarrow> timespec \<Rightarrow> timespec option" where
  "timespec_mod ts1 ts2 = do {
     a \<leftarrow> timespec_normalise ts1;
     b \<leftarrow> timespec_normalise ts2;
     (if tv_sec b = 0 \<and> tv_nsec b = 0 then Some a
      else do {
        let neg1 = (tv_sec a < 0 \<or> tv_nsec a < 0);
        let neg2 = (tv_sec b < 0 \<or> tv_nsec b < 0);
        a1 \<leftarrow> (if neg1 then ts_negate a else Some a);
        b1 \<leftarrow> (if neg2 then ts_negate b else Some b);
        (b2, i) \<leftarrow> mod_shift a1 b1 0;
        (a2, b3) \<leftarrow> mod_reduce i a1 b2;
        a3 \<leftarrow> (if neg1 \<noteq> neg2 \<and> (tv_sec a2 \<noteq> 0 \<or> tv_nsec a2 \<noteq> 0)
               then timespec_sub a2 b3 else Some a2);
        (if neg1 then ts_negate a3 else Some a3) }) }"

section \<open>Conversions\<close>

definition timespec_from_timeval :: "timeval \<Rightarrow> timespec option" where
  "timespec_from_timeval tv = do {
     n \<leftarrow> chk_long (tvl_usec tv * 1000);
     timespec_normalise \<lparr>tv_sec = tvl_sec tv, tv_nsec = n\<rparr> }"

definition timespec_to_timeval :: "timespec \<Rightarrow> timeval option" where
  "timespec_to_timeval ts = do {
     a \<leftarrow> timespec_normalise ts;
     Some \<lparr>tvl_sec = tv_sec a, tvl_usec = tdiv (tv_nsec a) 1000\<rparr> }"

definition timespec_from_ms :: "int \<Rightarrow> timespec option" where
  "timespec_from_ms milliseconds = do {
     n \<leftarrow> chk_long (tmod milliseconds 1000 * 1000000);
     timespec_normalise \<lparr>tv_sec = tdiv milliseconds 1000, tv_nsec = n\<rparr> }"

definition timespec_to_ms :: "timespec \<Rightarrow> int option" where
  "timespec_to_ms ts = do {
     m \<leftarrow> chk_long (tv_sec ts * 1000);
     chk_long (m + tdiv (tv_nsec ts) 1000000) }"

text \<open>
  The tools that program a periodic output (\<open>utils/perout.c\<close>, \<open>utils/mqnic-config.c\<close>) split a
  number of nanoseconds and move a start time that has passed next to the current time.
\<close>

definition split_nsec :: "int \<Rightarrow> timespec" where
  "split_nsec n = (let s = tdiv n NSEC_PER_SEC in \<lparr>tv_sec = s, tv_nsec = n - s * NSEC_PER_SEC\<rparr>)"

definition align_start :: "timespec \<Rightarrow> timespec \<Rightarrow> timespec \<Rightarrow> timespec option" where
  "align_start ts_now ts_start ts_period =
     (if timespec_lt ts_start ts_now
      then do {
        ts_start \<leftarrow> timespec_mod ts_start ts_period;
        m \<leftarrow> timespec_mod ts_now ts_period;
        ts_aligned \<leftarrow> timespec_sub ts_now m;
        timespec_add ts_start ts_aligned }
      else Some ts_start)"

section \<open>The value of a structure\<close>

definition ns :: "timespec \<Rightarrow> int" where
  "ns ts = tv_sec ts * NSEC_PER_SEC + tv_nsec ts"

definition normalised :: "timespec \<Rightarrow> bool" where
  "normalised ts \<longleftrightarrow> \<bar>tv_nsec ts\<bar> < NSEC_PER_SEC \<and>
     (0 < tv_sec ts \<longrightarrow> 0 \<le> tv_nsec ts) \<and> (tv_sec ts < 0 \<longrightarrow> tv_nsec ts \<le> 0)"

definition canon :: "int \<Rightarrow> timespec" where
  "canon v = \<lparr>tv_sec = tdiv v NSEC_PER_SEC, tv_nsec = tmod v NSEC_PER_SEC\<rparr>"

definition wf_ts :: "timespec \<Rightarrow> bool" where
  "wf_ts ts \<longleftrightarrow> in_long (tv_sec ts) \<and> in_long (tv_nsec ts)"

text \<open>The carried seconds: what must fit in a \<open>long\<close> for normalisation to be defined.\<close>

definition carried :: "timespec \<Rightarrow> int" where
  "carried ts = tv_sec ts + tdiv (tv_nsec ts) NSEC_PER_SEC"

lemma NSEC_pos [simp]: "0 < NSEC_PER_SEC"
  by (simp add: NSEC_PER_SEC_def)

lemma ns_canon [simp]: "ns (canon v) = v"
  using tdiv_tmod [of NSEC_PER_SEC v] by (simp add: ns_def canon_def mult.commute)

lemma canon_nonneg: "0 \<le> v \<Longrightarrow> canon v = \<lparr>tv_sec = v div NSEC_PER_SEC, tv_nsec = v mod NSEC_PER_SEC\<rparr>"
  by (simp add: canon_def tdiv_nonneg tmod_nonneg)

lemma canon_neg: "v < 0 \<Longrightarrow>
    canon v = \<lparr>tv_sec = - ((- v) div NSEC_PER_SEC), tv_nsec = - ((- v) mod NSEC_PER_SEC)\<rparr>"
  by (simp add: canon_def tdiv_neg tmod_neg)

lemma normalised_canon: "normalised (canon v)"
proof (cases "0 \<le> v")
  case True
  then show ?thesis by (auto simp: normalised_def canon_nonneg pos_imp_zdiv_neg_iff NSEC_PER_SEC_def)
next
  case False
  then show ?thesis by (auto simp: normalised_def canon_neg NSEC_PER_SEC_def)
qed

text \<open>A normalised structure is determined by its value.\<close>

lemma normalised_eq_canon:
  assumes "normalised ts"
  shows "ts = canon (ns ts)"
proof -
  let ?s = "tv_sec ts" and ?n = "tv_nsec ts" and ?N = NSEC_PER_SEC
  have ts: "ts = \<lparr>tv_sec = ?s, tv_nsec = ?n\<rparr>" by simp
  from assms have bound: "\<bar>?n\<bar> < ?N" and pos: "0 < ?s \<Longrightarrow> 0 \<le> ?n" and neg: "?s < 0 \<Longrightarrow> ?n \<le> 0"
    by (auto simp: normalised_def)
  show ?thesis
  proof (cases "0 \<le> ns ts")
    case True
    then have "0 \<le> ?n"
      using bound pos neg unfolding ns_def NSEC_PER_SEC_def by linarith
    moreover from this bound have "?n < ?N" by simp
    ultimately have "ns ts div ?N = ?s" and "ns ts mod ?N = ?n"
      by (simp_all add: ns_def)
    with True show ?thesis by (simp add: canon_nonneg)
  next
    case False
    then have "?n \<le> 0"
      using bound pos neg unfolding ns_def NSEC_PER_SEC_def by linarith
    moreover from this bound have "- ?n < ?N" by simp
    moreover have "- ns ts = - ?s * ?N + - ?n" by (simp add: ns_def)
    ultimately have "(- ns ts) div ?N = - ?s" and "(- ns ts) mod ?N = - ?n"
      by (simp_all only: div_mult_self3 mod_mult_self3) simp_all
    with False show ?thesis by (simp add: canon_neg)
  qed
qed

lemma normalised_unique: "normalised a \<Longrightarrow> normalised b \<Longrightarrow> ns a = ns b \<Longrightarrow> a = b"
  using normalised_eq_canon [of a] normalised_eq_canon [of b] by simp

section \<open>Normalisation\<close>

lemma norm_carry_eq:
  "in_long (tv_sec ts) \<Longrightarrow> norm_carry ts =
    (let q = max 0 (tv_nsec ts div NSEC_PER_SEC) in
     if in_long (tv_sec ts + q)
     then Some \<lparr>tv_sec = tv_sec ts + q, tv_nsec = tv_nsec ts - q * NSEC_PER_SEC\<rparr> else None)"
proof (induction ts rule: norm_carry.induct)
  case (1 ts)
  show ?case
  proof (cases "NSEC_PER_SEC \<le> tv_nsec ts")
    case False
    then have "tv_nsec ts div NSEC_PER_SEC \<le> 0"
      by (simp add: NSEC_PER_SEC_def)
    with False "1.prems" show ?thesis
      by (subst norm_carry.simps) (simp add: max_def Let_def)
  next
    case True
    let ?q = "(tv_nsec ts - NSEC_PER_SEC) div NSEC_PER_SEC"
    have q: "?q = tv_nsec ts div NSEC_PER_SEC - 1" and q0: "0 \<le> ?q"
      using True by (simp_all add: NSEC_PER_SEC_def)
    show ?thesis
    proof (cases "in_long (tv_sec ts + 1)")
      case in_l: True
      then show ?thesis
        using True q0 "1.IH" [OF True]
        by (subst norm_carry.simps) (simp add: Let_def q max_def algebra_simps)
    next
      case False
      moreover have "\<not> in_long (tv_sec ts + tv_nsec ts div NSEC_PER_SEC)"
        using False "1.prems" q q0 unfolding long_bounds by linarith
      ultimately show ?thesis
        using True q q0 by (subst norm_carry.simps) (simp add: Let_def max_def)
    qed
  qed
qed

lemma norm_borrow_eq:
  "in_long (tv_sec ts) \<Longrightarrow> norm_borrow ts =
    (let q = max 0 ((- tv_nsec ts) div NSEC_PER_SEC) in
     if in_long (tv_sec ts - q)
     then Some \<lparr>tv_sec = tv_sec ts - q, tv_nsec = tv_nsec ts + q * NSEC_PER_SEC\<rparr> else None)"
proof (induction ts rule: norm_borrow.induct)
  case (1 ts)
  show ?case
  proof (cases "tv_nsec ts \<le> - NSEC_PER_SEC")
    case False
    then have "(- tv_nsec ts) div NSEC_PER_SEC \<le> 0"
      by (simp add: NSEC_PER_SEC_def)
    with False "1.prems" show ?thesis
      by (subst norm_borrow.simps) (simp add: max_def Let_def)
  next
    case True
    define q where "q = (- (tv_nsec ts + NSEC_PER_SEC)) div NSEC_PER_SEC"
    have q: "(- tv_nsec ts) div NSEC_PER_SEC = q + 1" and q0: "0 \<le> q"
      using True by (simp_all add: q_def NSEC_PER_SEC_def)
    show ?thesis
    proof (cases "in_long (tv_sec ts - 1)")
      case in_l: True
      have "norm_borrow \<lparr>tv_sec = tv_sec ts - 1, tv_nsec = tv_nsec ts + NSEC_PER_SEC\<rparr> =
          (if in_long (tv_sec ts - 1 - q)
           then Some \<lparr>tv_sec = tv_sec ts - 1 - q,
                      tv_nsec = tv_nsec ts + NSEC_PER_SEC + q * NSEC_PER_SEC\<rparr> else None)"
        using "1.IH" [OF True, of "tv_sec ts - 1"] in_l q0
        by (simp only: timespec.simps Let_def q_def [symmetric]) (simp add: max_def)
      with True in_l q0 show ?thesis
        by (subst norm_borrow.simps) (simp add: Let_def q max_def algebra_simps)
    next
      case False
      moreover have "\<not> in_long (tv_sec ts - (q + 1))"
        using False "1.prems" q0 unfolding long_bounds by linarith
      ultimately show ?thesis
        using True q q0 by (subst norm_borrow.simps) (simp add: Let_def max_def)
    qed
  qed
qed

lemma norm_sign_canon:
  assumes "in_long (tv_sec ts)" "\<bar>tv_nsec ts\<bar> < NSEC_PER_SEC"
  shows "norm_sign ts = Some (canon (ns ts))"
proof -
  have "\<exists>t. norm_sign ts = Some t \<and> normalised t \<and> ns t = ns ts"
    using assms by (auto simp: norm_sign_def normalised_def ns_def long_bounds NSEC_PER_SEC_def algebra_simps)
  then show ?thesis using normalised_eq_canon by fastforce
qed

lemma timespec_normalise_spec:
  assumes "wf_ts ts"
  shows "timespec_normalise ts = (if in_long (carried ts) then Some (canon (ns ts)) else None)"
proof (cases "0 \<le> tv_nsec ts")
  case True
  let ?q = "tv_nsec ts div NSEC_PER_SEC"
  have q: "0 \<le> ?q" "tdiv (tv_nsec ts) NSEC_PER_SEC = ?q"
    using True by (simp_all add: pos_imp_zdiv_nonneg_iff tdiv_nonneg)
  let ?t = "\<lparr>tv_sec = tv_sec ts + ?q, tv_nsec = tv_nsec ts - ?q * NSEC_PER_SEC\<rparr>"
  have n: "0 \<le> tv_nsec ?t" "tv_nsec ?t < NSEC_PER_SEC"
    by (simp_all add: minus_div_mult_eq_mod)
  have b: "in_long (tv_sec ?t) \<Longrightarrow> norm_borrow ?t = Some ?t"
    using n by (subst norm_borrow.simps) simp
  show ?thesis
    using assms q n b norm_sign_canon [of ?t]
    by (simp add: timespec_normalise_def norm_carry_eq wf_ts_def carried_def Let_def ns_def algebra_simps)
next
  case False
  let ?q = "(- tv_nsec ts) div NSEC_PER_SEC"
  have q: "0 \<le> ?q" "tdiv (tv_nsec ts) NSEC_PER_SEC = - ?q"
    using False by (simp_all add: pos_imp_zdiv_nonneg_iff tdiv_neg)
  let ?t = "\<lparr>tv_sec = tv_sec ts - ?q, tv_nsec = tv_nsec ts + ?q * NSEC_PER_SEC\<rparr>"
  have "- tv_nsec ?t = (- tv_nsec ts) mod NSEC_PER_SEC"
    by (simp add: minus_div_mult_eq_mod [symmetric])
  then have n: "\<bar>tv_nsec ?t\<bar> < NSEC_PER_SEC"
    by (metis NSEC_pos abs_minus_cancel abs_of_nonneg pos_mod_bound pos_mod_sign)
  have c: "norm_carry ts = Some ts"
    using False by (subst norm_carry.simps) (simp add: NSEC_PER_SEC_def)
  show ?thesis
    using assms q n c norm_sign_canon [of ?t]
    by (simp add: timespec_normalise_def norm_borrow_eq wf_ts_def carried_def Let_def ns_def algebra_simps)
qed
section \<open>Addition and subtraction\<close>

lemma canon_sec_in_long:
  assumes "wf_ts ts" "in_long (carried ts)"
  shows "in_long (tv_sec (canon (ns ts)))" "\<bar>tv_nsec (canon (ns ts))\<bar> < NSEC_PER_SEC"
proof -
  have v: "ns ts = carried ts * NSEC_PER_SEC + tmod (tv_nsec ts) NSEC_PER_SEC"
    using tdiv_tmod [of NSEC_PER_SEC "tv_nsec ts"] by (simp add: ns_def carried_def algebra_simps)
  have m: "\<bar>tmod (tv_nsec ts) NSEC_PER_SEC\<bar> < NSEC_PER_SEC"
    using normalised_canon [of "tv_nsec ts"] by (simp add: normalised_def canon_def)
  let ?c = "canon (ns ts)"
  have c: "tv_sec ?c * NSEC_PER_SEC + tv_nsec ?c = ns ts"
    using ns_canon [of "ns ts"] by (simp add: ns_def)
  show b: "\<bar>tv_nsec ?c\<bar> < NSEC_PER_SEC"
    using normalised_canon [of "ns ts"] by (simp add: normalised_def)
  have "\<bar>tv_sec ?c\<bar> \<le> \<bar>carried ts\<bar> \<and> (tv_sec ?c \<noteq> 0 \<longrightarrow> sgn (tv_sec ?c) = sgn (carried ts))"
    using normalised_canon [of "ns ts"] v m c b
    unfolding normalised_def NSEC_PER_SEC_def sgn_if by (auto split: if_splits)
  with assms(2) show "in_long (tv_sec ?c)"
    unfolding long_bounds by (auto simp: sgn_if split: if_splits)
qed

text \<open>The common shape of \<open>timespec_add\<close> and \<open>timespec_sub\<close>: combine, then normalise.\<close>

lemma normalise_Some:
  "wf_ts ts \<Longrightarrow> in_long (carried ts) \<Longrightarrow> timespec_normalise ts = Some (canon (ns ts))"
  by (simp add: timespec_normalise_spec)

lemma canon_pair_nsec:
  assumes "wf_ts a" "in_long (carried a)" "wf_ts b" "in_long (carried b)"
  shows "in_long (tv_nsec (canon (ns a)) + tv_nsec (canon (ns b)))"
    "in_long (tv_nsec (canon (ns a)) - tv_nsec (canon (ns b)))"
    "\<bar>tdiv (tv_nsec (canon (ns a)) + tv_nsec (canon (ns b))) NSEC_PER_SEC\<bar> \<le> 1"
    "\<bar>tdiv (tv_nsec (canon (ns a)) - tv_nsec (canon (ns b))) NSEC_PER_SEC\<bar> \<le> 1"
proof -
  have tdiv1: "\<bar>n\<bar> < 2 * NSEC_PER_SEC \<Longrightarrow> \<bar>tdiv n NSEC_PER_SEC\<bar> \<le> 1" for n
    by (cases "0 \<le> n") (auto simp: tdiv_nonneg tdiv_neg NSEC_PER_SEC_def)
  show "in_long (tv_nsec (canon (ns a)) + tv_nsec (canon (ns b)))"
    "in_long (tv_nsec (canon (ns a)) - tv_nsec (canon (ns b)))"
    using canon_sec_in_long(2) [OF assms(1,2)] canon_sec_in_long(2) [OF assms(3,4)]
    unfolding long_bounds NSEC_PER_SEC_def by linarith+
  show "\<bar>tdiv (tv_nsec (canon (ns a)) + tv_nsec (canon (ns b))) NSEC_PER_SEC\<bar> \<le> 1"
    "\<bar>tdiv (tv_nsec (canon (ns a)) - tv_nsec (canon (ns b))) NSEC_PER_SEC\<bar> \<le> 1"
    using canon_sec_in_long(2) [OF assms(1,2)] canon_sec_in_long(2) [OF assms(3,4)]
    by (intro tdiv1; linarith)+
qed

lemma timespec_sub_exact:
  assumes "wf_ts a" "in_long (carried a)" "wf_ts b" "in_long (carried b)"
    and "in_long (tv_sec (canon (ns a)) - tv_sec (canon (ns b)))"
    and "in_long (tv_sec (canon (ns a)) - tv_sec (canon (ns b)) +
      tdiv (tv_nsec (canon (ns a)) - tv_nsec (canon (ns b))) NSEC_PER_SEC)"
  shows "timespec_sub a b = Some (canon (ns a - ns b))"
proof -
  let ?a = "canon (ns a)" and ?b = "canon (ns b)"
  let ?t = "\<lparr>tv_sec = tv_sec ?a - tv_sec ?b, tv_nsec = tv_nsec ?a - tv_nsec ?b\<rparr>"
  have "ns ?t = ns a - ns b"
    using ns_canon [of "ns a"] ns_canon [of "ns b"] unfolding ns_def by (simp add: algebra_simps)
  moreover have "wf_ts ?t" "in_long (carried ?t)"
    using assms(5,6) canon_pair_nsec(2) [OF assms(1-4)] by (simp_all add: wf_ts_def carried_def)
  ultimately have "timespec_normalise ?t = Some (canon (ns a - ns b))"
    using normalise_Some [of ?t] by simp
  then show ?thesis
    using assms(1-5) canon_pair_nsec(2) [OF assms(1-4)] by (simp add: timespec_sub_def normalise_Some)
qed

lemma timespec_add_exact:
  assumes "wf_ts a" "in_long (carried a)" "wf_ts b" "in_long (carried b)"
    and "in_long (tv_sec (canon (ns a)) + tv_sec (canon (ns b)))"
    and "in_long (tv_sec (canon (ns a)) + tv_sec (canon (ns b)) +
      tdiv (tv_nsec (canon (ns a)) + tv_nsec (canon (ns b))) NSEC_PER_SEC)"
  shows "timespec_add a b = Some (canon (ns a + ns b))"
proof -
  let ?a = "canon (ns a)" and ?b = "canon (ns b)"
  let ?t = "\<lparr>tv_sec = tv_sec ?a + tv_sec ?b, tv_nsec = tv_nsec ?a + tv_nsec ?b\<rparr>"
  have "ns ?t = ns a + ns b"
    using ns_canon [of "ns a"] ns_canon [of "ns b"] unfolding ns_def by (simp add: algebra_simps)
  moreover have "wf_ts ?t" "in_long (carried ?t)"
    using assms(5,6) canon_pair_nsec(1) [OF assms(1-4)] by (simp_all add: wf_ts_def carried_def)
  ultimately have "timespec_normalise ?t = Some (canon (ns a + ns b))"
    using normalise_Some [of ?t] by simp
  then show ?thesis
    using assms(1-5) canon_pair_nsec(1) [OF assms(1-4)] by (simp add: timespec_add_def normalise_Some)
qed

section \<open>The remainder: shift and subtract\<close>

text \<open>
  While the divisor is doubled its nanoseconds may reach exactly one second (the code tests
  \<open>>\<close>, not \<open>>=\<close>): \<open>semi\<close> is normalised up to that.
\<close>

definition semi :: "timespec \<Rightarrow> bool" where
  "semi t \<longleftrightarrow> 0 \<le> tv_sec t \<and> 0 \<le> tv_nsec t \<and> tv_nsec t \<le> NSEC_PER_SEC"

definition nonneg_norm :: "timespec \<Rightarrow> bool" where
  "nonneg_norm t \<longleftrightarrow> 0 \<le> tv_sec t \<and> 0 \<le> tv_nsec t \<and> tv_nsec t < NSEC_PER_SEC"

lemma nonneg_norm_semi: "nonneg_norm t \<Longrightarrow> semi t"
  by (simp add: nonneg_norm_def semi_def)

lemma nonneg_norm_canon: "0 \<le> v \<Longrightarrow> nonneg_norm (canon v)"
  by (simp add: nonneg_norm_def canon_nonneg pos_imp_zdiv_nonneg_iff)

lemma nonneg_norm_eq: "nonneg_norm t \<Longrightarrow> t = canon (ns t)"
  by (rule normalised_eq_canon) (auto simp: nonneg_norm_def normalised_def)

lemma ns_nonneg: "semi t \<Longrightarrow> 0 \<le> ns t"
  by (simp add: semi_def ns_def NSEC_PER_SEC_def)

lemma timespec_ge_semi:
  "nonneg_norm a \<Longrightarrow> semi b \<Longrightarrow> timespec_ge a b \<longleftrightarrow> ns b \<le> ns a"
  unfolding nonneg_norm_def semi_def timespec_ge_def ns_def NSEC_PER_SEC_def by auto

definition dbl :: "timespec \<Rightarrow> timespec" where
  "dbl t = (if 2 * tv_nsec t > NSEC_PER_SEC
     then \<lparr>tv_sec = 2 * tv_sec t + 1, tv_nsec = 2 * tv_nsec t - NSEC_PER_SEC\<rparr>
     else \<lparr>tv_sec = 2 * tv_sec t, tv_nsec = 2 * tv_nsec t\<rparr>)"

lemma ts_double_dbl:
  "semi t \<Longrightarrow> tv_sec t < LONG_MAX div 2 \<Longrightarrow> ts_double t = Some (dbl t)"
  by (auto simp: ts_double_def dbl_def semi_def long_bounds NSEC_PER_SEC_def)

lemma ts_halve_dbl: "semi t \<Longrightarrow> ts_halve (dbl t) = Some t"
  by (auto simp: ts_halve_def dbl_def semi_def long_bounds NSEC_PER_SEC_def intro!: timespec.equality)

lemma semi_dbl: "semi t \<Longrightarrow> semi (dbl t)"
  by (auto simp: semi_def dbl_def)

lemma ns_dbl: "ns (dbl t) = 2 * ns t"
  by (simp add: ns_def dbl_def algebra_simps)

lemma semi_dbl_pow: "semi t \<Longrightarrow> semi ((dbl ^^ j) t)"
  by (induction j) (auto simp: semi_dbl)

lemma ns_dbl_pow: "ns ((dbl ^^ j) t) = 2 ^ j * ns t"
  by (induction j) (auto simp: ns_dbl)

lemma sec_dbl_bound: "semi t \<Longrightarrow> tv_sec t < LONG_MAX div 2 \<Longrightarrow> tv_sec (dbl t) < LONG_MAX - 1"
  by (auto simp: dbl_def LONG_MAX_def)

lemma sec_dbl_ge: "semi t \<Longrightarrow> tv_sec t \<le> tv_sec (dbl t)"
  by (auto simp: dbl_def semi_def)

lemma ns_le_imp_sec_le: "nonneg_norm a \<Longrightarrow> semi b \<Longrightarrow> ns b \<le> ns a \<Longrightarrow> tv_sec b \<le> tv_sec a"
  unfolding nonneg_norm_def semi_def ns_def NSEC_PER_SEC_def by linarith

text \<open>
  The doubling loop returns: \<open>j\<close> doublings, after which the divisor is larger than the dividend,
  or its seconds have reached half of \<open>LONG_MAX\<close>.
\<close>

lemma mod_shift_spec:
  assumes "nonneg_norm a" "semi b" "0 < ns b"
  shows "\<exists>j. mod_shift a b i = Some ((dbl ^^ j) b, i + j) \<and>
    (ns a < ns ((dbl ^^ j) b) \<or> LONG_MAX div 2 \<le> tv_sec ((dbl ^^ j) b)) \<and>
    (j = 0 \<or> tv_sec ((dbl ^^ j) b) < LONG_MAX - 1)"
  using assms(2,3)
proof (induction "nat (ns a - ns b + 1)" arbitrary: b i rule: less_induct)
  case less
  show ?case
  proof (cases "tv_sec b < LONG_MAX div 2 \<and> timespec_ge a b")
    case False
    then have "mod_shift a b i = Some (b, i)"
      by (subst mod_shift.simps) auto
    moreover have "ns a < ns b \<or> LONG_MAX div 2 \<le> tv_sec b"
      using False timespec_ge_semi [OF assms(1) less.prems(1)] by auto
    ultimately show ?thesis by (intro exI [of _ 0]) simp
  next
    case True
    then have le: "ns b \<le> ns a"
      using timespec_ge_semi [OF assms(1) less.prems(1)] by simp
    have lt: "nat (ns a - ns (dbl b) + 1) < nat (ns a - ns b + 1)"
      using less.prems(2) le by (simp add: ns_dbl)
    have s: "semi (dbl b)" "0 < ns (dbl b)"
      using less.prems by (simp_all add: semi_dbl ns_dbl)
    from less.hyps [OF lt s, of "Suc i"] obtain j where
      j: "mod_shift a (dbl b) (Suc i) = Some ((dbl ^^ j) (dbl b), Suc i + j)"
        "ns a < ns ((dbl ^^ j) (dbl b)) \<or> LONG_MAX div 2 \<le> tv_sec ((dbl ^^ j) (dbl b))"
        "j = 0 \<or> tv_sec ((dbl ^^ j) (dbl b)) < LONG_MAX - 1" by blast
    have "mod_shift a b i = mod_shift a (dbl b) (Suc i)"
      using True ts_double_dbl [OF less.prems(1)] by (subst mod_shift.simps) simp
    with j True sec_dbl_bound [OF less.prems(1)] show ?thesis
      by (intro exI [of _ "Suc j"]) (auto simp: funpow_swap1)
  qed
qed

lemma timespec_sub_semi:
  assumes "nonneg_norm a" "in_long (tv_sec a)" "semi b" "tv_sec b < LONG_MAX" "ns b \<le> ns a"
  shows "timespec_sub a b = Some (canon (ns a - ns b))"
proof -
  have tb: "0 \<le> tdiv (tv_nsec b) NSEC_PER_SEC" "tdiv (tv_nsec b) NSEC_PER_SEC \<le> 1"
    using assms(3) by (auto simp: semi_def tdiv_nonneg NSEC_PER_SEC_def)
  have b: "wf_ts b" "in_long (carried b)"
    using assms(3,4) tb by (auto simp: semi_def wf_ts_def carried_def long_bounds NSEC_PER_SEC_def)
  have ta: "tdiv (tv_nsec a) NSEC_PER_SEC = 0"
    using assms(1) by (simp add: nonneg_norm_def tdiv_nonneg)
  have a: "wf_ts a" "in_long (carried a)"
    using assms(1,2) ta by (auto simp: nonneg_norm_def wf_ts_def carried_def long_bounds NSEC_PER_SEC_def)
  have an: "canon (ns a) = a"
    using nonneg_norm_eq [OF assms(1)] by simp
  have bn: "nonneg_norm (canon (ns b))"
    using assms(3) by (simp add: nonneg_norm_canon ns_nonneg)
  have "tv_sec (canon (ns b)) \<le> tv_sec a"
    using ns_le_imp_sec_le [OF assms(1) nonneg_norm_semi [OF bn]] assms(5) by simp
  moreover have "0 \<le> tv_sec (canon (ns b))" using bn by (simp add: nonneg_norm_def)
  ultimately have s: "in_long (tv_sec a - tv_sec (canon (ns b)))"
    using assms(2) by (simp add: long_bounds)
  have "\<bar>tv_nsec a - tv_nsec (canon (ns b))\<bar> < NSEC_PER_SEC"
    using assms(1) bn by (auto simp: nonneg_norm_def)
  then have "tdiv (tv_nsec a - tv_nsec (canon (ns b))) NSEC_PER_SEC = 0"
    by (simp add: tdiv_def)
  with s show ?thesis
    using timespec_sub_exact [OF a b] by (simp add: an)
qed

text \<open>The reducing loop subtracts each doubled divisor at most once.\<close>

lemma mod_reduce_spec:
  assumes "semi b" "0 < ns b"
  shows "nonneg_norm a \<Longrightarrow> in_long (tv_sec a) \<Longrightarrow> ns a < 2 * ns ((dbl ^^ i) b) \<Longrightarrow>
    tv_sec ((dbl ^^ i) b) < LONG_MAX \<Longrightarrow>
    mod_reduce i a ((dbl ^^ i) b) = Some (canon (ns a mod ns b), b)"
proof (induction i arbitrary: a)
  case 0
  show ?case
  proof (cases "ns b \<le> ns a")
    case True
    have "(ns a - ns b) mod ns b = ns a - ns b"
      using 0 True by (intro mod_pos_pos_trivial) simp_all
    then have "ns a - ns b = ns a mod ns b"
      by simp
    with 0 True assms show ?thesis
      by (subst mod_reduce.simps) (simp add: timespec_ge_semi timespec_sub_semi)
  next
    case False
    then have "ns a mod ns b = ns a"
      using 0 by (simp add: ns_nonneg nonneg_norm_semi)
    with 0 False assms show ?thesis
      by (subst mod_reduce.simps) (simp add: timespec_ge_semi nonneg_norm_eq [symmetric])
  qed
next
  case (Suc i)
  let ?t = "(dbl ^^ Suc i) b" and ?h = "(dbl ^^ i) b"
  have t: "semi ?t" "semi ?h" "ns ?t = 2 * ns ?h" "ns ?t = 2 ^ Suc i * ns b"
    using assms(1) by (simp_all add: semi_dbl_pow semi_dbl ns_dbl ns_dbl_pow)
  define r where "r = (if ns ?t \<le> ns a then canon (ns a - ns ?t) else a)"
  have r: "nonneg_norm r" "ns r < ns ?t" "ns r mod ns b = ns a mod ns b" "tv_sec r \<le> tv_sec a"
  proof -
    have d: "ns b dvd ns ?t" using t(4) by simp
    show "nonneg_norm r"
      using Suc.prems(1) by (simp add: r_def nonneg_norm_canon del: funpow.simps)
    then show "ns r < ns ?t" and "ns r mod ns b = ns a mod ns b"
      using Suc.prems(3) d by (auto simp: r_def mod_diff_eq mod_diff_right_eq [symmetric] simp del: funpow.simps)
    have "ns r \<le> ns a"
      using ns_nonneg [OF t(1)] by (simp add: r_def del: funpow.simps)
    then show "tv_sec r \<le> tv_sec a"
      using ns_le_imp_sec_le [OF Suc.prems(1) nonneg_norm_semi [OF \<open>nonneg_norm r\<close>]] by simp
  qed
  have h: "tv_sec ?h < LONG_MAX"
    using Suc.prems(4) sec_dbl_ge [OF t(2)] by simp
  have halve: "ts_halve ?t = Some ?h" using ts_halve_dbl [OF t(2)] by simp
  have step: "(if timespec_ge a ?t then timespec_sub a ?t else Some a) = Some r"
    using Suc.prems t(1) by (simp add: r_def timespec_ge_semi timespec_sub_semi del: funpow.simps)
  have "in_long (tv_sec r)"
    using r(1,4) Suc.prems(2) by (simp add: nonneg_norm_def long_bounds)
  then have "mod_reduce i r ?h = Some (canon (ns r mod ns b), b)"
    using Suc.IH [OF r(1)] r(2) t(3) h by simp
  then show ?case
    using step halve r(3) by (subst mod_reduce.simps) (simp del: funpow.simps)
qed

definition bounded_ts :: "timespec \<Rightarrow> bool" where
  "bounded_ts t \<longleftrightarrow> normalised t \<and> \<bar>tv_sec t\<bar> < LONG_MAX - 1"

lemma bounded_carried: "bounded_ts t \<Longrightarrow> wf_ts t \<and> in_long (carried t) \<and> canon (ns t) = t"
proof -
  assume b: "bounded_ts t"
  then have "\<bar>tv_nsec t\<bar> div \<bar>NSEC_PER_SEC\<bar> = 0"
    by (intro div_pos_pos_trivial) (simp_all add: bounded_ts_def normalised_def NSEC_PER_SEC_def)
  then have "tdiv (tv_nsec t) NSEC_PER_SEC = 0"
    by (simp add: tdiv_def)
  with b normalised_eq_canon [of t] show ?thesis
    by (auto simp: bounded_ts_def normalised_def wf_ts_def carried_def long_bounds NSEC_PER_SEC_def)
qed

lemma ns_sign:
  "normalised t \<Longrightarrow> ns t < 0 \<longleftrightarrow> tv_sec t < 0 \<or> tv_nsec t < 0"
  "normalised t \<Longrightarrow> ns t = 0 \<longleftrightarrow> tv_sec t = 0 \<and> tv_nsec t = 0"
  unfolding normalised_def ns_def NSEC_PER_SEC_def by auto

lemma ts_negate_canon: "wf_ts t \<Longrightarrow> normalised t \<Longrightarrow> tv_sec t \<noteq> LONG_MIN \<Longrightarrow> ts_negate t = Some (canon (- ns t))"
proof -
  assume a: "wf_ts t" "normalised t" "tv_sec t \<noteq> LONG_MIN"
  let ?t = "\<lparr>tv_sec = - tv_sec t, tv_nsec = - tv_nsec t\<rparr>"
  have "normalised ?t" "ns ?t = - ns t"
    using a(2) by (auto simp: normalised_def ns_def)
  then have "?t = canon (- ns t)" using normalised_eq_canon [of ?t] by simp
  moreover have "ts_negate t = Some ?t"
    using a by (auto simp: ts_negate_def wf_ts_def normalised_def long_bounds NSEC_PER_SEC_def)
  ultimately show ?thesis by simp
qed

text \<open>The absolute value the code works on.\<close>

lemma ts_abs:
  assumes "bounded_ts t"
  shows "(if tv_sec t < 0 \<or> tv_nsec t < 0 then ts_negate t else Some t) = Some (canon \<bar>ns t\<bar>)"
    and "nonneg_norm (canon \<bar>ns t\<bar>)" "tv_sec (canon \<bar>ns t\<bar>) = \<bar>tv_sec t\<bar>"
proof -
  have n: "normalised t" using assms by (simp add: bounded_ts_def)
  have m: "tv_sec t \<noteq> LONG_MIN" using assms by (auto simp: bounded_ts_def long_bounds)
  show "(if tv_sec t < 0 \<or> tv_nsec t < 0 then ts_negate t else Some t) = Some (canon \<bar>ns t\<bar>)"
    using bounded_carried [OF assms] ns_sign(1) [OF n] ts_negate_canon [OF _ n m] by (auto simp: abs_if)
  show "nonneg_norm (canon \<bar>ns t\<bar>)" by (simp add: nonneg_norm_canon)
  let ?u = "\<lparr>tv_sec = \<bar>tv_sec t\<bar>, tv_nsec = \<bar>tv_nsec t\<bar>\<rparr>"
  have "ns ?u = \<bar>ns t\<bar>" "normalised ?u"
    using n unfolding normalised_def ns_def NSEC_PER_SEC_def by auto
  then have "canon \<bar>ns t\<bar> = ?u"
    using normalised_eq_canon [of ?u] by simp
  then show "tv_sec (canon \<bar>ns t\<bar>) = \<bar>tv_sec t\<bar>" by simp
qed

lemma mod_core:
  assumes "bounded_ts a" "bounded_ts b" "ns b \<noteq> 0"
  shows "\<exists>c i. mod_shift (canon \<bar>ns a\<bar>) (canon \<bar>ns b\<bar>) 0 = Some (c, i) \<and>
    mod_reduce i (canon \<bar>ns a\<bar>) c = Some (canon (\<bar>ns a\<bar> mod \<bar>ns b\<bar>), canon \<bar>ns b\<bar>)"
proof -
  let ?a = "canon \<bar>ns a\<bar>" and ?b = "canon \<bar>ns b\<bar>"
  have a: "nonneg_norm ?a" "tv_sec ?a < LONG_MAX - 1" and b: "semi ?b" "tv_sec ?b < LONG_MAX - 1"
    using ts_abs(2,3) [OF assms(1)] ts_abs(2,3) [OF assms(2)] assms(1,2)
    by (auto simp: bounded_ts_def nonneg_norm_semi)
  have "0 < ns ?b" using assms(3) by simp
  from mod_shift_spec [OF a(1) b(1) this, of 0] obtain j where
    j: "mod_shift ?a ?b 0 = Some ((dbl ^^ j) ?b, j)"
      "ns ?a < ns ((dbl ^^ j) ?b) \<or> LONG_MAX div 2 \<le> tv_sec ((dbl ^^ j) ?b)"
      "j = 0 \<or> tv_sec ((dbl ^^ j) ?b) < LONG_MAX - 1" by auto
  have lt: "tv_sec ((dbl ^^ j) ?b) < LONG_MAX"
    using j(3) b(2) by auto
  have s: "semi ((dbl ^^ j) ?b)" using b(1) by (rule semi_dbl_pow)
  have "ns ?a < 2 * ns ((dbl ^^ j) ?b)"
    using j(2)
  proof
    assume "ns ?a < ns ((dbl ^^ j) ?b)"
    then show ?thesis using ns_nonneg [OF s] by simp
  next
    assume "LONG_MAX div 2 \<le> tv_sec ((dbl ^^ j) ?b)"
    then show ?thesis using a s
      by (auto simp: ns_def [of "canon _"] ns_def [of "(dbl ^^ _) _"] semi_def nonneg_norm_def
          LONG_MAX_def NSEC_PER_SEC_def simp del: ns_canon)
  qed
  then have "mod_reduce j ?a ((dbl ^^ j) ?b) = Some (canon (\<bar>ns a\<bar> mod \<bar>ns b\<bar>), ?b)"
    using mod_reduce_spec [OF b(1) \<open>0 < ns ?b\<close> a(1) _ _ lt] a by (simp add: nonneg_norm_def long_bounds)
  with j(1) show ?thesis by blast
qed


lemma canon_sec_mono: "0 \<le> v \<Longrightarrow> v \<le> w \<Longrightarrow> tv_sec (canon v) \<le> tv_sec (canon w)"
  by (simp add: canon_nonneg zdiv_mono1)

lemma canon_sec_0: "0 \<le> v \<Longrightarrow> 0 \<le> tv_sec (canon v)"
  by (simp add: canon_nonneg pos_imp_zdiv_nonneg_iff)

lemma bounded_canon: "0 \<le> v \<Longrightarrow> v \<le> \<bar>ns b\<bar> \<Longrightarrow> bounded_ts b \<Longrightarrow> bounded_ts (canon v)"
  using canon_sec_mono [of v "\<bar>ns b\<bar>"] canon_sec_0 [of v] ts_abs(3) [of b]
  by (simp add: bounded_ts_def normalised_canon)

lemma canon_minus: "canon (- v) = \<lparr>tv_sec = - tv_sec (canon v), tv_nsec = - tv_nsec (canon v)\<rparr>"
  by (cases v "0 :: int" rule: linorder_cases) (simp_all add: canon_neg canon_nonneg)

lemma bounded_canon_abs: "\<bar>v\<bar> \<le> \<bar>ns b\<bar> \<Longrightarrow> bounded_ts b \<Longrightarrow> bounded_ts (canon v)"
  using bounded_canon [of "\<bar>v\<bar>" b] canon_minus [of v]
  by (cases "0 \<le> v") (simp_all add: bounded_ts_def normalised_canon)

lemma ts_negate_bounded:
  "bounded_ts b \<Longrightarrow> \<bar>v\<bar> \<le> \<bar>ns b\<bar> \<Longrightarrow> ts_negate (canon v) = Some (canon (- v))"
  using bounded_canon_abs [of v b] ts_negate_canon [of "canon v"] bounded_carried [of "canon v"]
  by (auto simp: bounded_ts_def long_bounds)

lemma timespec_sub_below:
  assumes "0 \<le> v" "v \<le> w" "tv_sec (canon w) < LONG_MAX - 1"
  shows "timespec_sub (canon v) (canon w) = Some (canon (v - w))"
proof -
  let ?v = "canon v" and ?w = "canon w"
  have b: "bounded_ts ?v" "bounded_ts ?w"
    using assms canon_sec_mono [OF assms(1,2)] canon_sec_0 [of v] canon_sec_0 [of w]
    by (auto simp: bounded_ts_def normalised_canon)
  have "nonneg_norm ?v" "nonneg_norm ?w"
    using assms by (simp_all add: nonneg_norm_canon)
  then have "\<bar>tv_nsec ?v - tv_nsec ?w\<bar> div \<bar>NSEC_PER_SEC\<bar> = 0"
    by (intro div_pos_pos_trivial) (auto simp: nonneg_norm_def)
  then have t: "tdiv (tv_nsec ?v - tv_nsec ?w) NSEC_PER_SEC = 0" by (simp add: tdiv_def)
  have "in_long (tv_sec ?v - tv_sec ?w)"
    using assms canon_sec_mono [OF assms(1,2)] canon_sec_0 [of v] canon_sec_0 [of w] by (simp add: long_bounds)
  with t timespec_sub_exact [of ?v ?w] bounded_carried [OF b(1)] bounded_carried [OF b(2)]
  show ?thesis by simp
qed

lemma floored_mod:
  fixes a b :: int
  assumes "b \<noteq> 0"
  shows "a mod b = (let m = \<bar>a\<bar> mod \<bar>b\<bar>; r = if (a < 0) \<noteq> (b < 0) \<and> m \<noteq> 0 then m - \<bar>b\<bar> else m
    in if a < 0 then - r else r)"
proof -
  have "a mod b \<noteq> b" using assms by (metis mod_mod_trivial mod_self)
  with assms show ?thesis
    by (cases "a < 0"; cases "b < 0") (auto simp: Let_def zmod_zminus1_eq_if zmod_zminus2_eq_if abs_if split: if_splits)
qed

lemma timespec_mod_spec:
  assumes "bounded_ts a" "bounded_ts b"
  shows "timespec_mod a b = Some (canon (ns a mod ns b))"
proof (cases "ns b = 0")
  case True
  then have "tv_sec b = 0 \<and> tv_nsec b = 0"
    using ns_sign(2) [of b] assms(2) by (simp add: bounded_ts_def)
  with True show ?thesis
    using bounded_carried [OF assms(1)] bounded_carried [OF assms(2)]
    by (simp add: timespec_mod_def normalise_Some)
next
  case False
  have nz: "\<not> (tv_sec b = 0 \<and> tv_nsec b = 0)"
    using False ns_sign(2) [of b] assms(2) by (simp add: bounded_ts_def)
  have sa: "tv_sec a < 0 \<or> tv_nsec a < 0 \<longleftrightarrow> ns a < 0" and sb: "tv_sec b < 0 \<or> tv_nsec b < 0 \<longleftrightarrow> ns b < 0"
    using ns_sign(1) [of a] ns_sign(1) [of b] assms by (simp_all add: bounded_ts_def)
  have ca: "canon (ns a) = a" and cb: "canon (ns b) = b"
    using bounded_carried assms by blast+
  have na: "timespec_normalise a = Some a" "timespec_normalise b = Some b"
    using bounded_carried [OF assms(1)] bounded_carried [OF assms(2)] by (simp_all add: normalise_Some)
  let ?m = "\<bar>ns a\<bar> mod \<bar>ns b\<bar>"
  from mod_core [OF assms False] obtain c i where
    core: "mod_shift (canon \<bar>ns a\<bar>) (canon \<bar>ns b\<bar>) 0 = Some (c, i)"
      "mod_reduce i (canon \<bar>ns a\<bar>) c = Some (canon ?m, canon \<bar>ns b\<bar>)" by blast
  have mb: "0 \<le> ?m" "?m < \<bar>ns b\<bar>" using False by simp_all
  have zero: "tv_sec (canon v) = 0 \<and> tv_nsec (canon v) = 0 \<longleftrightarrow> v = 0" for v
    using ns_sign(2) [OF normalised_canon, of v] by simp
  define d where "d = ?m - \<bar>ns b\<bar>"
  have sub: "timespec_sub (canon ?m) (canon \<bar>ns b\<bar>) = Some (canon d)"
    unfolding d_def by (rule timespec_sub_below) (use mb assms(2) in \<open>simp_all add: ts_abs bounded_ts_def\<close>)
  have neg: "ts_negate (canon v) = Some (canon (- v))" if "\<bar>v\<bar> \<le> \<bar>ns b\<bar>" for v
    by (rule ts_negate_bounded [OF assms(2) that])
  have nd: "ts_negate (canon d) = Some (canon (- d))" and nm: "ts_negate (canon ?m) = Some (canon (- ?m))"
    using mb by (auto intro!: neg simp only: d_def abs_le_iff)
  have "timespec_mod a b = Some (canon (let r = if (ns a < 0) \<noteq> (ns b < 0) \<and> ?m \<noteq> 0 then d else ?m
      in if ns a < 0 then - r else r))"
  proof -
    define A B m where "A = canon \<bar>ns a\<bar>" and "B = canon \<bar>ns b\<bar>" and "m = ?m"
    note fold = A_def [symmetric] B_def [symmetric] m_def [symmetric]
    have opaque: "(if ns a < 0 then ts_negate a else Some a) = Some A"
      "(if ns b < 0 then ts_negate b else Some b) = Some B"
      using ts_abs(1) [OF assms(1)] ts_abs(1) [OF assms(2)] by (simp_all add: sa sb A_def B_def)
    have e: "timespec_mod a b = do {
        (b2, i) \<leftarrow> mod_shift A B 0;
        (a2, b3) \<leftarrow> mod_reduce i A b2;
        a3 \<leftarrow> (if (ns a < 0) \<noteq> (ns b < 0) \<and> (tv_sec a2 \<noteq> 0 \<or> tv_nsec a2 \<noteq> 0)
               then timespec_sub a2 b3 else Some a2);
        (if ns a < 0 then ts_negate a3 else Some a3) }"
      by (simp only: timespec_mod_def na nz sa sb Let_def opaque Option.bind.simps if_False)
    note facts = core [unfolded fold] sub [unfolded fold] nd nm [unfolded fold]
    have z: "tv_sec (canon m) \<noteq> 0 \<or> tv_nsec (canon m) \<noteq> 0 \<longleftrightarrow> m \<noteq> 0"
      using zero [of m] by blast
    have e2: "timespec_mod a b = do {
        a3 \<leftarrow> (if (ns a < 0) \<noteq> (ns b < 0) \<and> m \<noteq> 0 then Some (canon d) else Some (canon m));
        (if ns a < 0 then ts_negate a3 else Some a3) }"
      by (simp only: e facts(1,2,3) z Option.bind.simps prod.case)
    show ?thesis
      unfolding fold e2 using facts(4,5) by (simp only: Let_def Option.bind.simps if_True if_False split: if_split) simp
  qed
  moreover have "ns a mod ns b = (let r = if (ns a < 0) \<noteq> (ns b < 0) \<and> ?m \<noteq> 0 then d else ?m
      in if ns a < 0 then - r else r)"
    unfolding d_def using floored_mod [OF False, of "ns a"] unfolding Let_def .
  ultimately show ?thesis
    by (simp only:)
qed
section \<open>Comparison, schedule alignment, conversions\<close>

lemma split_nsec_canon: "split_nsec n = canon n"
  by (simp add: split_nsec_def canon_def Let_def tmod_def mult.commute)

text \<open>On normalised structures the comparisons are those of the values.\<close>

lemma timespec_lt_ns: "normalised a \<Longrightarrow> normalised b \<Longrightarrow> timespec_lt a b \<longleftrightarrow> ns a < ns b"
  unfolding normalised_def timespec_lt_def ns_def NSEC_PER_SEC_def by auto

lemma timespec_eq_ns: "normalised a \<Longrightarrow> normalised b \<Longrightarrow> timespec_eq a b \<longleftrightarrow> ns a = ns b"
  using normalised_unique [of a b] by (auto simp: timespec_eq_def ns_def)

lemma timespec_compare:
  assumes "normalised a" "normalised b"
  shows "timespec_eq a b \<longleftrightarrow> ns a = ns b" "timespec_gt a b \<longleftrightarrow> ns b < ns a"
    "timespec_ge a b \<longleftrightarrow> ns b \<le> ns a" "timespec_lt a b \<longleftrightarrow> ns a < ns b"
    "timespec_le a b \<longleftrightarrow> ns a \<le> ns b"
proof -
  show e: "timespec_eq a b \<longleftrightarrow> ns a = ns b" and l: "timespec_lt a b \<longleftrightarrow> ns a < ns b"
    using assms by (simp_all add: timespec_lt_ns timespec_eq_ns)
  have g: "timespec_gt a b \<longleftrightarrow> timespec_lt b a"
    by (auto simp: timespec_gt_def timespec_lt_def)
  then show "timespec_gt a b \<longleftrightarrow> ns b < ns a"
    using assms by (simp add: timespec_lt_ns)
  have "timespec_ge a b \<longleftrightarrow> \<not> timespec_lt a b" "timespec_le a b \<longleftrightarrow> \<not> timespec_lt b a"
    by (auto simp: timespec_ge_def timespec_le_def timespec_lt_def)
  then show "timespec_ge a b \<longleftrightarrow> ns b \<le> ns a" "timespec_le a b \<longleftrightarrow> ns a \<le> ns b"
    using assms by (auto simp: timespec_lt_ns)
qed

text \<open>Sums and differences of structures with fewer than \<open>2 ^ 62 - 1\<close> seconds do not overflow.\<close>

definition small_ts :: "timespec \<Rightarrow> bool" where
  "small_ts t \<longleftrightarrow> normalised t \<and> \<bar>tv_sec t\<bar> < 2 ^ 61"

lemma small_bounded: "small_ts t \<Longrightarrow> bounded_ts t"
  by (simp add: small_ts_def bounded_ts_def LONG_MAX_def)

lemma small_canon: "\<bar>v\<bar> \<le> \<bar>ns b\<bar> \<Longrightarrow> small_ts b \<Longrightarrow> small_ts (canon v)"
proof -
  assume v: "\<bar>v\<bar> \<le> \<bar>ns b\<bar>" and b: "small_ts b"
  have "tv_sec (canon \<bar>v\<bar>) \<le> \<bar>tv_sec b\<bar>" "0 \<le> tv_sec (canon \<bar>v\<bar>)"
    using canon_sec_mono [of "\<bar>v\<bar>" "\<bar>ns b\<bar>"] v canon_sec_0 [of "\<bar>v\<bar>"] ts_abs(3) [OF small_bounded [OF b]] by simp_all
  with b show ?thesis
    using canon_minus [of v] by (cases "0 \<le> v") (auto simp: small_ts_def normalised_canon)
qed

lemma add_sub_half:
  assumes "normalised a" "normalised b" "\<bar>tv_sec a\<bar> < 2 ^ 62" "\<bar>tv_sec b\<bar> < 2 ^ 62 - 1"
  shows "timespec_add a b = Some (canon (ns a + ns b))" "timespec_sub a b = Some (canon (ns a - ns b))"
proof -
  have b: "bounded_ts a" "bounded_ts b" using assms by (auto simp: bounded_ts_def LONG_MAX_def)
  note c = bounded_carried [OF b(1)] bounded_carried [OF b(2)]
  have t: "\<bar>tdiv (tv_nsec a + tv_nsec b) NSEC_PER_SEC\<bar> \<le> 1" "\<bar>tdiv (tv_nsec a - tv_nsec b) NSEC_PER_SEC\<bar> \<le> 1"
    using canon_pair_nsec [of a b] c by auto
  show "timespec_add a b = Some (canon (ns a + ns b))"
    by (rule timespec_add_exact) (use assms c t in \<open>auto simp: long_bounds abs_le_iff abs_less_iff\<close>)
  show "timespec_sub a b = Some (canon (ns a - ns b))"
    by (rule timespec_sub_exact) (use assms c t in \<open>auto simp: long_bounds abs_le_iff abs_less_iff\<close>)
qed

lemma small_add_sub:
  "small_ts a \<Longrightarrow> small_ts b \<Longrightarrow> timespec_add a b = Some (canon (ns a + ns b))"
  "small_ts a \<Longrightarrow> small_ts b \<Longrightarrow> timespec_sub a b = Some (canon (ns a - ns b))"
  by (rule add_sub_half; simp add: small_ts_def)+

lemma align_start_past:
  assumes "small_ts now" "small_ts start" "small_ts period" "0 \<le> ns now" "0 \<le> ns start" "0 < ns period"
    "ns start < ns now"
  shows "align_start now start period =
    Some (canon (ns start mod ns period + (ns now - ns now mod ns period)))"
proof -
  have n: "normalised now" "normalised start" using assms by (auto simp: small_ts_def)
  have m: "ns start mod ns period \<le> ns start" "0 \<le> ns start mod ns period"
    "ns now mod ns period \<le> ns now" "0 \<le> ns now mod ns period"
    using assms by (simp_all add: zmod_le_nonneg_dividend)
  have s1: "small_ts (canon (ns start mod ns period))" by (rule small_canon [OF _ assms(2)]) (use m in simp)
  have s2: "small_ts (canon (ns now mod ns period))" by (rule small_canon [OF _ assms(1)]) (use m in simp)
  have s3: "small_ts (canon (ns now - ns now mod ns period))" by (rule small_canon [OF _ assms(1)]) (use m in simp)
  show ?thesis
    using assms n s1 s2 s3 small_add_sub
    by (simp add: align_start_def timespec_lt_ns timespec_mod_spec small_bounded)
qed

lemma from_ms_canon: "in_long m \<Longrightarrow> timespec_from_ms m = Some (canon (m * 1000000))"
proof -
  assume m: "in_long m"
  have t: "\<bar>tmod m 1000\<bar> < 1000" "\<bar>tdiv m 1000\<bar> \<le> \<bar>m\<bar>" "in_long (tdiv m 1000)"
    using m by (cases "0 \<le> m"; auto simp: tmod_nonneg tmod_neg tdiv_nonneg tdiv_neg long_bounds)+
  let ?t = "\<lparr>tv_sec = tdiv m 1000, tv_nsec = tmod m 1000 * 1000000\<rparr>"
  have l: "in_long (tmod m 1000 * 1000000)" using t(1) unfolding long_bounds abs_less_iff by linarith
  have "tdiv (tmod m 1000 * 1000000) NSEC_PER_SEC = 0"
    using t(1) by (auto simp: tdiv_def NSEC_PER_SEC_def abs_mult intro: div_pos_pos_trivial)
  then have "in_long (carried ?t)" "wf_ts ?t" using t l by (simp_all add: carried_def wf_ts_def)
  moreover have "ns ?t = m * 1000000"
    using tdiv_tmod [of 1000 m] by (simp add: ns_def NSEC_PER_SEC_def)
  ultimately show ?thesis
    using normalise_Some [of ?t] l by (simp add: timespec_from_ms_def)
qed

lemma ms_roundtrip_core: "in_long m \<Longrightarrow> Option.bind (timespec_from_ms m) timespec_to_ms = Some m"
proof -
  assume m: "in_long m"
  have "tv_sec (canon (m * 1000000)) = tdiv m 1000" "tv_nsec (canon (m * 1000000)) = tmod m 1000 * 1000000"
  proof -
    have d: "tdiv (m * 1000000) NSEC_PER_SEC = tdiv m 1000"
      by (cases "0 \<le> m") (simp_all add: tdiv_nonneg tdiv_neg NSEC_PER_SEC_def)
    then show "tv_sec (canon (m * 1000000)) = tdiv m 1000" by (simp add: canon_def)
    show "tv_nsec (canon (m * 1000000)) = tmod m 1000 * 1000000"
      by (simp add: canon_def tmod_def d) (simp add: NSEC_PER_SEC_def algebra_simps)
  qed
  moreover have "in_long (tdiv m 1000 * 1000)" "tdiv (tmod m 1000 * 1000000) 1000000 = tmod m 1000"
    using m by (cases "0 \<le> m"; auto simp: tmod_nonneg tmod_neg tdiv_nonneg tdiv_neg long_bounds tdiv_def sgn_if abs_mult)+
  moreover have "tdiv m 1000 * 1000 + tmod m 1000 = m" using tdiv_tmod [of 1000 m] by simp
  ultimately show ?thesis
    using m by (simp add: from_ms_canon timespec_to_ms_def)
qed

lemma timeval_roundtrip_core:
  assumes "in_long s" "0 \<le> s" "0 \<le> u" "u < 1000000"
  shows "Option.bind (timespec_from_timeval \<lparr>tvl_sec = s, tvl_usec = u\<rparr>) timespec_to_timeval =
    Some \<lparr>tvl_sec = s, tvl_usec = u\<rparr>"
proof -
  let ?t = "\<lparr>tv_sec = s, tv_nsec = u * 1000\<rparr>"
  have n: "normalised ?t" using assms by (simp add: normalised_def NSEC_PER_SEC_def)
  have "u * 1000 div NSEC_PER_SEC = 0" using assms by (simp add: NSEC_PER_SEC_def)
  then have c: "wf_ts ?t" "in_long (carried ?t)"
    using assms by (simp_all add: wf_ts_def carried_def tdiv_nonneg long_bounds)
  have "timespec_normalise ?t = Some ?t"
    using normalise_Some [OF c] normalised_eq_canon [OF n] by simp
  moreover have "tdiv (u * 1000) 1000 = u" using assms by (simp add: tdiv_nonneg)
  ultimately show ?thesis
    using assms by (simp add: timespec_from_timeval_def timespec_to_timeval_def long_bounds)
qed

section \<open>Properties\<close>

text \<open>C23: \<open>timespec_normalise\<close> returns the one normalised structure with the same number of
  nanoseconds exactly when the carried seconds fit in a \<open>long\<close>, and overflows otherwise.\<close>

theorem normalise_exact:
  assumes "wf_ts ts"
  shows "case timespec_normalise ts of
      None \<Rightarrow> \<not> in_long (carried ts)
    | Some t \<Rightarrow> in_long (carried ts) \<and> normalised t \<and> ns t = ns ts"
  using timespec_normalise_spec [OF assms] by (simp add: normalised_canon)

theorem normalise_exact_witness:
  "\<exists>t. timespec_normalise \<lparr>tv_sec = -1, tv_nsec = 2500000000\<rparr> = Some t \<and> normalised t \<and> ns t = 1500000000"
proof -
  have "wf_ts \<lparr>tv_sec = -1, tv_nsec = 2500000000\<rparr>" "in_long (carried \<lparr>tv_sec = -1, tv_nsec = 2500000000\<rparr>)"
    by (simp_all add: wf_ts_def carried_def tdiv_def long_bounds NSEC_PER_SEC_def)
  with normalise_exact [of "\<lparr>tv_sec = -1, tv_nsec = 2500000000\<rparr>"] show ?thesis
    by (simp add: ns_def NSEC_PER_SEC_def split: option.splits)
qed



text \<open>Near the end of \<open>long\<close> the remainder is wrong: the doubling loop gives up while the
  divisor still fits more than twice, and \<open>LONG_MAX\<close> seconds modulo \<open>LONG_MAX >> 1\<close> seconds is
  \<open>2 ^ 62\<close> seconds instead of one.\<close>

theorem timespec_mod_gives_up:
  "timespec_mod \<lparr>tv_sec = LONG_MAX, tv_nsec = 0\<rparr> \<lparr>tv_sec = LONG_MAX div 2, tv_nsec = 0\<rparr> =
     Some \<lparr>tv_sec = 2 ^ 62, tv_nsec = 0\<rparr> \<and>
   ns \<lparr>tv_sec = LONG_MAX, tv_nsec = 0\<rparr> mod ns \<lparr>tv_sec = LONG_MAX div 2, tv_nsec = 0\<rparr> = 1 * NSEC_PER_SEC"
proof
  have n: "timespec_normalise \<lparr>tv_sec = s, tv_nsec = 0\<rparr> = Some \<lparr>tv_sec = s, tv_nsec = 0\<rparr>" for s
    by (simp add: timespec_normalise_def norm_sign_def norm_carry.simps norm_borrow.simps NSEC_PER_SEC_def)
  show "timespec_mod \<lparr>tv_sec = LONG_MAX, tv_nsec = 0\<rparr> \<lparr>tv_sec = LONG_MAX div 2, tv_nsec = 0\<rparr> =
     Some \<lparr>tv_sec = 2 ^ 62, tv_nsec = 0\<rparr>"
    by (simp add: timespec_mod_def n mod_shift.simps mod_reduce.simps timespec_sub_def timespec_ge_def long_bounds)
qed (simp add: ns_def NSEC_PER_SEC_def LONG_MAX_def)

text \<open>When the requested start has passed, the tools' alignment gives a normalised start that
  keeps its phase relative to the period and lies within one period of the current time (possibly
  still before it); otherwise the start is unchanged.\<close>

theorem align_start_phase:
  assumes "small_ts now" "small_ts start" "small_ts period" "0 \<le> ns now" "0 \<le> ns start" "0 < ns period"
  shows "\<exists>t. align_start now start period = Some t \<and> normalised t \<and>
    ns t mod ns period = ns start mod ns period \<and>
    (if ns now \<le> ns start then t = start else ns now - ns period < ns t \<and> ns t < ns now + ns period)"
proof (cases "ns now \<le> ns start")
  case True
  with assms show ?thesis by (auto simp: align_start_def small_ts_def timespec_lt_ns)
next
  case False
  let ?v = "ns start mod ns period + (ns now - ns now mod ns period)"
  have "?v mod ns period = ns start mod ns period"
    by (simp add: minus_mod_eq_mult_div)
  moreover have "ns now - ns period < ?v" "?v < ns now + ns period"
    using assms(6) pos_mod_bound [of "ns period" "ns now"] pos_mod_sign [of "ns period" "ns now"]
      pos_mod_bound [of "ns period" "ns start"] pos_mod_sign [of "ns period" "ns start"] by linarith+
  ultimately show ?thesis
    using align_start_past [of now start period] assms False by (simp add: normalised_canon)
qed

theorem align_start_phase_witness:
  "\<exists>t. align_start \<lparr>tv_sec = 100, tv_nsec = 7\<rparr> \<lparr>tv_sec = 3, tv_nsec = 5\<rparr> \<lparr>tv_sec = 2, tv_nsec = 0\<rparr> = Some t \<and>
     normalised t \<and> ns t mod 2000000000 = 1000000005"
  using align_start_phase [of "\<lparr>tv_sec = 100, tv_nsec = 7\<rparr>" "\<lparr>tv_sec = 3, tv_nsec = 5\<rparr>" "\<lparr>tv_sec = 2, tv_nsec = 0\<rparr>"]
  by (auto simp: small_ts_def normalised_def ns_def NSEC_PER_SEC_def)

text \<open>A number of milliseconds survives the conversion to a \<open>timespec\<close> and back, over the whole
  range of \<open>long\<close>; a non-negative \<open>timeval\<close> with its microseconds in range does as well.\<close>

theorem conversions_roundtrip:
  "(in_long m \<longrightarrow> Option.bind (timespec_from_ms m) timespec_to_ms = Some m) \<and>
   (in_long s \<and> 0 \<le> s \<and> 0 \<le> u \<and> u < 1000000 \<longrightarrow>
     Option.bind (timespec_from_timeval \<lparr>tvl_sec = s, tvl_usec = u\<rparr>) timespec_to_timeval =
       Some \<lparr>tvl_sec = s, tvl_usec = u\<rparr>)"
  by (simp add: ms_roundtrip_core timeval_roundtrip_core)

theorem conversions_roundtrip_witness:
  "Option.bind (timespec_from_ms (-1234567)) timespec_to_ms = Some (-1234567) \<and>
   Option.bind (timespec_from_timeval \<lparr>tvl_sec = 5, tvl_usec = 999999\<rparr>) timespec_to_timeval =
     Some \<lparr>tvl_sec = 5, tvl_usec = 999999\<rparr>"
  using conversions_roundtrip [of "-1234567" 5 999999] by (simp add: long_bounds)

end
