(* ===== verification/Kernel.thy ===== *)
theory Kernel
  imports Prelude
begin

text \<open>
  What the driver sees of the machine and of the Linux kernel. Code that is not in the repository
  (register reads, memory the device writes, allocators, DMA mapping, the notifier and NAPI layers,
  \<open>roundup_pow_of_two\<close>, \<open>ilog2\<close>) is a field of \<open>sys\<close> that answers from the history of effects;
  every effect is appended to that history, newest first. A model function takes a \<open>sys\<close> and
  returns the updated one.
\<close>

section \<open>Effects\<close>

text \<open>A received packet as the driver hands it to the stack: the fields it fills in.\<close>

datatype rx_skb = Rx_skb (rs_id: nat) (rs_hwtstamp: "(u64 \<times> u32) option") (rs_queue: int)
  (rs_csum: "u16 option") (rs_page: nat) (rs_offset: u32) (rs_len: u32) (rs_truesize: u32)

text \<open>What the driver takes from the kernel and has to give back, beside memory.\<close>

datatype kres = IrqVectors | IrqLine int | I2cAdapter nat | MiscDev | PciEnabled | PciRegions | IoMap int | PciMaster | OpenFile int

datatype event =
    Iowrite32 addr u32
  | Ioread32 addr u32
  | Kalloc nat
  | Kfree nat
  | DmaAlloc u64 u64
  | DmaFree u64 u64
  | DmaMapSingle u64 u32
  | DmaUnmapSingle u64 u32
  | DmaMapPage u64 u32
  | DmaUnmapPage u64 u32
  | DmaSync u64 u32 u32
  | PageAlloc nat u32
  | PageFree nat u32
  | Store16 addr u16
  | Store32 addr u32
  | Store64 addr u64
  | NotifierRegister int int
  | NotifierUnregister int int
  | NapiSchedule int
  | NapiComplete int
  | SkbConsume "nat option" int
  | SkbFree nat
  | SkbTstamp "nat option" u64 u32
  | SkbTxInProgress nat
  | SkbTxTimestamp nat
  | SkbGro rx_skb
  | TxQueueStop int
  | TxQueueWake int
  | KCall string "int list"
  | KGet kres
  | KPut kres

section \<open>The world\<close>

record sys =
  trace :: "event list"
  w_ioread :: "event list \<Rightarrow> addr \<Rightarrow> u32"
  w_mem8 :: "event list \<Rightarrow> addr \<Rightarrow> u8"
  w_kalloc :: "event list \<Rightarrow> nat option"
  w_dma_alloc :: "event list \<Rightarrow> u64 \<Rightarrow> (addr \<times> u64) option"
  w_dma_map :: "event list \<Rightarrow> u64 option"
  w_page_alloc :: "event list \<Rightarrow> u32 \<Rightarrow> nat option"
  w_skb_alloc :: "event list \<Rightarrow> nat option"
  w_notifier_register :: "event list \<Rightarrow> int"
  w_queue_stopped :: "event list \<Rightarrow> int \<Rightarrow> bool"
  w_roundup_pow_of_two :: "u64 \<Rightarrow> u64"
  w_ilog2 :: "u32 \<Rightarrow> u32"
  w_page_size :: u32
  w_kcall :: "event list \<Rightarrow> string \<Rightarrow> int list \<Rightarrow> int"

text \<open>Negative error numbers the code returns.\<close>

abbreviation (input) EPERM :: int where "EPERM \<equiv> 1"
abbreviation (input) EIO :: int where "EIO \<equiv> 5"
abbreviation (input) ENOMEM :: int where "ENOMEM \<equiv> 12"
abbreviation (input) EFAULT :: int where "EFAULT \<equiv> 14"
abbreviation (input) EINVAL :: int where "EINVAL \<equiv> 22"
abbreviation (input) ENOSPC :: int where "ENOSPC \<equiv> 28"
abbreviation (input) ERANGE :: int where "ERANGE \<equiv> 34"
abbreviation (input) ETIMEDOUT :: int where "ETIMEDOUT \<equiv> 110"
abbreviation (input) EOPNOTSUPP :: int where "EOPNOTSUPP \<equiv> 95"
abbreviation (input) ENOTTY :: int where "ENOTTY \<equiv> 25"

definition emit :: "event \<Rightarrow> sys \<Rightarrow> sys" where
  "emit e s = s\<lparr>trace := e # trace s\<rparr>"

definition iowrite32 :: "u32 \<Rightarrow> addr \<Rightarrow> sys \<Rightarrow> sys" where
  "iowrite32 v a s = emit (Iowrite32 a v) s"

definition ioread32 :: "addr \<Rightarrow> sys \<Rightarrow> u32 \<times> sys" where
  "ioread32 a s = (let v = w_ioread s (trace s) a in (v, emit (Ioread32 a v) s))"

text \<open>A sequence of register writes, in program order.\<close>

definition iowrites :: "(u32 \<times> addr) list \<Rightarrow> sys \<Rightarrow> sys" where
  "iowrites ws s = fold (\<lambda>(v, a). iowrite32 v a) ws s"

definition kzalloc :: "sys \<Rightarrow> nat option \<times> sys" where
  "kzalloc s = (case w_kalloc s (trace s) of
      None \<Rightarrow> (None, s)
    | Some h \<Rightarrow> (Some h, emit (Kalloc h) s))"

definition dma_alloc_coherent :: "u64 \<Rightarrow> sys \<Rightarrow> (addr \<times> u64) option \<times> sys" where
  "dma_alloc_coherent n s = (case w_dma_alloc s (trace s) n of
      None \<Rightarrow> (None, s)
    | Some (buf, dma) \<Rightarrow> (Some (buf, dma), emit (DmaAlloc dma n) s))"

text \<open>
  Any other kernel function, by name: \<open>kcall\<close> for one whose result the code uses, \<open>kvoid\<close> for one
  that only has an effect.
\<close>

definition kcall :: "string \<Rightarrow> int list \<Rightarrow> sys \<Rightarrow> int \<times> sys" where
  "kcall f args s = (w_kcall s (trace s) f args, emit (KCall f args) s)"

definition kvoid :: "string \<Rightarrow> int list \<Rightarrow> sys \<Rightarrow> sys" where
  "kvoid f args s = emit (KCall f args) s"

text \<open>
  A kernel function that hands over a resource when its result says so, and one that takes it back:
  the history records the call, and the resource when it changes hands.
\<close>

definition kget :: "string \<Rightarrow> int list \<Rightarrow> (int \<Rightarrow> bool) \<Rightarrow> (int \<Rightarrow> kres) \<Rightarrow> sys \<Rightarrow> int \<times> sys" where
  "kget f args ok r s = (let v = w_kcall s (trace s) f args; s = emit (KCall f args) s
     in (v, if ok v then emit (KGet (r v)) s else s))"

definition kput :: "string \<Rightarrow> int list \<Rightarrow> kres \<Rightarrow> sys \<Rightarrow> sys" where
  "kput f args r s = emit (KPut r) (kvoid f args s)"

text \<open>Reading registers one after the other.\<close>

primrec ioreads :: "addr list \<Rightarrow> sys \<Rightarrow> u32 list \<times> sys" where
  "ioreads [] s = ([], s)"
| "ioreads (a # as) s = (case ioread32 a s of (v, s) \<Rightarrow> case ioreads as s of (vs, s) \<Rightarrow> (v # vs, s))"

text \<open>Little-endian fields of a structure the device wrote.\<close>

definition mem16 :: "sys \<Rightarrow> addr \<Rightarrow> u16" where
  "mem16 s a = ucast (w_mem8 s (trace s) a) OR push_bit 8 (ucast (w_mem8 s (trace s) (a + 1)))"

definition mem32 :: "sys \<Rightarrow> addr \<Rightarrow> u32" where
  "mem32 s a = ucast (mem16 s a) OR push_bit 16 (ucast (mem16 s (a + 2)))"

section \<open>How the history grows\<close>

lemma trace_emit [simp]: "trace (emit e s) = e # trace s"
  by (simp add: emit_def)

lemma emit_world [simp]:
  "w_ioread (emit e s) = w_ioread s" "w_mem8 (emit e s) = w_mem8 s" "w_kalloc (emit e s) = w_kalloc s"
  "w_dma_alloc (emit e s) = w_dma_alloc s" "w_dma_map (emit e s) = w_dma_map s"
  "w_page_alloc (emit e s) = w_page_alloc s" "w_skb_alloc (emit e s) = w_skb_alloc s"
  "w_notifier_register (emit e s) = w_notifier_register s" "w_queue_stopped (emit e s) = w_queue_stopped s"
  "w_roundup_pow_of_two (emit e s) = w_roundup_pow_of_two s" "w_ilog2 (emit e s) = w_ilog2 s"
  "w_page_size (emit e s) = w_page_size s" "w_kcall (emit e s) = w_kcall s"
  by (simp_all add: emit_def)

lemma trace_iowrite32 [simp]: "trace (iowrite32 v a s) = Iowrite32 a v # trace s"
  by (simp add: iowrite32_def)

lemma trace_kvoid [simp]: "trace (kvoid f args s) = KCall f args # trace s"
  by (simp add: kvoid_def)

lemma iowrites_Nil [simp]: "iowrites [] s = s"
  by (simp add: iowrites_def)

lemma iowrites_Cons [simp]: "iowrites ((v, a) # ws) s = iowrites ws (iowrite32 v a s)"
  by (simp add: iowrites_def)

lemma trace_iowrites: "trace (iowrites ws s) = rev (map (\<lambda>(v, a). Iowrite32 a v) ws) @ trace s"
  by (induction ws arbitrary: s) auto

text \<open>The world is the same machine before and after: only the history differs.\<close>

definition same_world :: "sys \<Rightarrow> sys \<Rightarrow> bool" where
  "same_world s t \<longleftrightarrow> t = s\<lparr>trace := trace t\<rparr>"

definition extends :: "sys \<Rightarrow> sys \<Rightarrow> bool" where
  "extends s t \<longleftrightarrow> same_world s t \<and> (\<exists>es. trace t = es @ trace s)"

lemma same_world_refl [simp]: "same_world s s"
  by (simp add: same_world_def)

lemma extends_refl [simp]: "extends s s"
  by (simp add: extends_def)

lemma same_world_trans: "same_world r s \<Longrightarrow> same_world s t \<Longrightarrow> same_world r t"
  unfolding same_world_def by (cases r; cases s; cases t) simp

lemma extends_trans: "extends r s \<Longrightarrow> extends s t \<Longrightarrow> extends r t"
  unfolding extends_def by (metis append.assoc same_world_trans)

lemma extends_emit: "extends s t \<Longrightarrow> extends s (emit e t)"
  by (auto simp: extends_def same_world_def emit_def)

lemma extends_iowrite32: "extends s t \<Longrightarrow> extends s (iowrite32 v a t)"
  by (simp add: iowrite32_def extends_emit)

lemma extends_iowrites: "extends s t \<Longrightarrow> extends s (iowrites ws t)"
  by (induction ws arbitrary: t) (auto simp: extends_iowrite32)

lemma same_world_fields:
  "same_world s t \<Longrightarrow> w_ilog2 t = w_ilog2 s \<and> w_roundup_pow_of_two t = w_roundup_pow_of_two s \<and>
     w_ioread t = w_ioread s \<and> w_mem8 t = w_mem8 s"
  unfolding same_world_def by (cases s; cases t) simp

section \<open>Who holds what\<close>

text \<open>How often a resource was acquired more than released.\<close>

datatype res = Mem nat | Dma u64 u64 | Held kres

fun bal :: "event list \<Rightarrow> res \<Rightarrow> int" where
  "bal [] x = 0"
| "bal (e # es) x = bal es x + (case e of
      Kalloc m \<Rightarrow> of_bool (x = Mem m) | Kfree m \<Rightarrow> - of_bool (x = Mem m)
    | DmaAlloc d n \<Rightarrow> of_bool (x = Dma d n) | DmaFree d n \<Rightarrow> - of_bool (x = Dma d n)
    | KGet r \<Rightarrow> of_bool (x = Held r) | KPut r \<Rightarrow> - of_bool (x = Held r) | _ \<Rightarrow> 0)"

lemma bal_iowrites [simp]: "bal (trace (iowrites ws s)) x = bal (trace s) x"
  by (induction ws arbitrary: s) (auto simp del: bal.simps simp: bal.simps(2))

lemma bal_ioread32: "ioread32 a s = (v, s') \<Longrightarrow> bal (trace s') x = bal (trace s) x"
  by (auto simp: ioread32_def Let_def)

lemma bal_ioreads [simp]: "bal (trace (snd (ioreads as s))) x = bal (trace s) x"
proof (induction as arbitrary: s)
  case (Cons a as)
  obtain v t where "ioread32 a s = (v, t)" by force
  with Cons [of t] bal_ioread32 [of a s v t x] show ?case by (auto split: prod.splits)
qed simp

lemma bal_kzalloc: "kzalloc s = (p, s') \<Longrightarrow> bal (trace s') x = bal (trace s) x + (case p of None \<Rightarrow> 0 | Some m \<Rightarrow> of_bool (x = Mem m))"
  by (auto simp: kzalloc_def split: option.splits)

lemma bal_dma_alloc: "dma_alloc_coherent n s = (p, s') \<Longrightarrow>
    bal (trace s') x = bal (trace s) x + (case p of None \<Rightarrow> 0 | Some (b, d) \<Rightarrow> of_bool (x = Dma d n))"
  by (auto simp: dma_alloc_coherent_def split: option.splits)

lemma bal_kz: "bal (trace (snd (kzalloc s))) x = bal (trace s) x + (case fst (kzalloc s) of None \<Rightarrow> 0 | Some m \<Rightarrow> of_bool (x = Mem m))"
  by (rule bal_kzalloc) simp

lemma bal_dma: "bal (trace (snd (dma_alloc_coherent n s))) x =
    bal (trace s) x + (case fst (dma_alloc_coherent n s) of None \<Rightarrow> 0 | Some (b, d) \<Rightarrow> of_bool (x = Dma d n))"
  by (rule bal_dma_alloc) simp

lemma bal_kget: "kget f args ok r s = (v, s') \<Longrightarrow> bal (trace s') x = bal (trace s) x + of_bool (ok v \<and> x = Held (r v))"
  by (auto simp: kget_def Let_def)

lemma bal_kput [simp]: "bal (trace (kput f args r s)) x = bal (trace s) x - of_bool (x = Held r)"
  by (simp add: kput_def)

lemma bal_kcall: "kcall f args s = (v, s') \<Longrightarrow> bal (trace s') x = bal (trace s) x"
  by (auto simp: kcall_def)

text \<open>What the entries of an array own.\<close>

definition owns :: "('a \<Rightarrow> int) \<Rightarrow> nat \<Rightarrow> (nat \<Rightarrow> 'a option) \<Rightarrow> int" where
  "owns f n m = (\<Sum>k<n. case m k of None \<Rightarrow> 0 | Some r \<Rightarrow> f r)"

lemma owns_empty [simp]: "owns f n Map.empty = 0"
  by (simp add: owns_def)

lemma owns_upd:
  assumes "k < n"
  shows "owns f n (m(k := v)) = owns f n m - (case m k of None \<Rightarrow> 0 | Some r \<Rightarrow> f r) + (case v of None \<Rightarrow> 0 | Some r \<Rightarrow> f r)"
proof -
  have "owns f n m' = (\<Sum>j\<in>{..<n} - {k}. case m' j of None \<Rightarrow> 0 | Some r \<Rightarrow> f r) + (case m' k of None \<Rightarrow> 0 | Some r \<Rightarrow> f r)" for m'
    unfolding owns_def using assms by (subst sum.remove [of _ k]) auto
  moreover have "(\<Sum>j\<in>{..<n} - {k}. case (m(k := v)) j of None \<Rightarrow> 0 | Some r \<Rightarrow> f r) = (\<Sum>j\<in>{..<n} - {k}. case m j of None \<Rightarrow> 0 | Some r \<Rightarrow> f r)"
    by (rule sum.cong) auto
  ultimately show ?thesis by simp
qed

section \<open>Documented behaviour of the kernel's integer helpers\<close>

text \<open>
  \<open>roundup_pow_of_two\<close> is the least power of two not below its non-zero argument (up to
  \<open>2 ^ 63\<close>), and \<open>ilog2\<close> of a non-zero word is the position of its highest set bit.
\<close>

definition pow2_lib :: "sys \<Rightarrow> bool" where
  "pow2_lib s \<longleftrightarrow>
     (\<forall>n. 0 < unat n \<and> unat n \<le> 2 ^ 63 \<longrightarrow>
        (\<exists>k. unat (w_roundup_pow_of_two s n) = 2 ^ k \<and> unat n \<le> 2 ^ k \<and> 2 ^ k < 2 * unat n)) \<and>
     (\<forall>n. 0 < unat n \<longrightarrow>
        (\<exists>k<32. w_ilog2 s n = of_nat k \<and> 2 ^ k \<le> unat n \<and> unat n < 2 ^ (k + 1)))"

lemma pow2_lib_ilog2:
  "pow2_lib s \<Longrightarrow> 0 < unat n \<Longrightarrow> \<exists>k<32. w_ilog2 s n = of_nat k \<and> 2 ^ k \<le> unat n \<and> unat n < 2 ^ (k + 1)"
  by (simp add: pow2_lib_def)

lemma pow2_lib_exact: "pow2_lib s \<Longrightarrow> k < 32 \<Longrightarrow> w_ilog2 s (2 ^ k) = of_nat k"
proof -
  assume "pow2_lib s" "k < 32"
  then obtain j where j: "w_ilog2 s (2 ^ k) = of_nat j" "2 ^ j \<le> (2::nat) ^ k" "(2::nat) ^ k < 2 ^ (j + 1)"
    using pow2_lib_ilog2 [of s "2 ^ k"] by (auto simp: unat_2p)
  from j(2) have "j \<le> k" by (simp only: power_increasing_iff)
  moreover from j(3) have "k < j + 1" by (simp only: power_strict_increasing_iff)
  ultimately show ?thesis using j(1) by (metis Suc_eq_plus1 antisym less_Suc_eq_le)
qed

lemma extends_fields:
  "extends s t \<Longrightarrow> w_ilog2 t = w_ilog2 s \<and> w_roundup_pow_of_two t = w_roundup_pow_of_two s \<and>
     w_ioread t = w_ioread s \<and> w_mem8 t = w_mem8 s"
  by (simp add: extends_def same_world_fields)

lemma extends_pow2_lib: "extends s t \<Longrightarrow> pow2_lib t = pow2_lib s"
  using extends_fields [of s t] by (simp add: pow2_lib_def)

text \<open>A machine that satisfies it, for evaluating the model.\<close>

fun log2_up :: "nat \<Rightarrow> nat \<Rightarrow> nat" where
  "log2_up 0 n = 0"
| "log2_up (Suc f) n = (if n \<le> 1 then 0 else Suc (log2_up f ((n + 1) div 2)))"

lemma log2_up_le: "n \<le> 2 ^ f \<Longrightarrow> n \<le> 2 ^ log2_up f n"
proof (induction f n rule: log2_up.induct)
  case (2 f n)
  show ?case
  proof (cases "n \<le> 1")
    case False
    have "(n + 1) div 2 \<le> 2 ^ f" using "2.prems" by simp
    then have "(n + 1) div 2 \<le> 2 ^ log2_up f ((n + 1) div 2)" using "2.IH" False by simp
    moreover have "n \<le> 2 * ((n + 1) div 2)" by simp
    ultimately have "n \<le> 2 * 2 ^ log2_up f ((n + 1) div 2)" by linarith
    with False show ?thesis by simp
  qed simp
qed simp

lemma log2_up_tight: "0 < n \<Longrightarrow> 2 ^ log2_up f n < 2 * n"
proof (induction f n rule: log2_up.induct)
  case (2 f n)
  show ?case
  proof (cases "n \<le> 1")
    case False
    let ?p = "2 ^ log2_up f ((n + 1) div 2) :: nat"
    have "?p < 2 * ((n + 1) div 2)" using "2.IH" False by simp
    then have "?p < n"
    proof (cases "log2_up f ((n + 1) div 2)")
      case (Suc k)
      then have "even ?p" by simp
      with \<open>?p < 2 * ((n + 1) div 2)\<close> show ?thesis by presburger
    qed (use False in simp)
    with False show ?thesis by simp
  qed (use "2.prems" in simp)
qed simp


definition ref_roundup :: "u64 \<Rightarrow> u64" where
  "ref_roundup n = 2 ^ log2_up 63 (unat n)"

fun log2_down :: "nat \<Rightarrow> nat \<Rightarrow> nat" where
  "log2_down 0 n = 0"
| "log2_down (Suc f) n = (if n \<le> 1 then 0 else Suc (log2_down f (n div 2)))"

definition ref_ilog2 :: "u32 \<Rightarrow> u32" where
  "ref_ilog2 n = of_nat (log2_down 32 (unat n))"

lemma log2_down_spec:
  "0 < n \<Longrightarrow> n < 2 ^ f \<Longrightarrow> 2 ^ log2_down f n \<le> n \<and> n < 2 ^ (log2_down f n + 1) \<and> log2_down f n < f"
proof (induction f n rule: log2_down.induct)
  case (2 f n)
  show ?case
  proof (cases "n \<le> 1")
    case False
    let ?k = "log2_down f (n div 2)"
    have "0 < n div 2" "n div 2 < 2 ^ f" using False "2.prems" by auto
    with "2.IH" [OF False] have k: "2 ^ ?k \<le> n div 2" "n div 2 < 2 ^ (?k + 1)" "?k < f" by auto
    have "2 * 2 ^ ?k \<le> n" using k(1) by linarith
    moreover have "n < 2 * 2 ^ (?k + 1)" using k(2) by linarith
    ultimately show ?thesis using False k(3) by simp
  qed (use "2.prems" in auto)
qed simp

definition quiet_world :: sys where
  "quiet_world = \<lparr>trace = [], w_ioread = (\<lambda>_ _. 0), w_mem8 = (\<lambda>_ _. 0),
     w_kalloc = (\<lambda>h. Some (length h)), w_dma_alloc = (\<lambda>h _. Some (0x1000, 0x80001000)),
     w_dma_map = (\<lambda>h. Some (word_of_nat (4096 * Suc (length h)))), w_page_alloc = (\<lambda>h _. Some (length h)),
     w_skb_alloc = (\<lambda>h. Some (length h)), w_notifier_register = (\<lambda>_. 0), w_queue_stopped = (\<lambda>_ _. False),
     w_roundup_pow_of_two = ref_roundup, w_ilog2 = ref_ilog2, w_page_size = 4096,
     w_kcall = (\<lambda>_ _ _. 0)\<rparr>"

lemma quiet_world_pow2_lib: "pow2_lib quiet_world"
proof -
  have "\<exists>k. unat (ref_roundup n) = 2 ^ k \<and> unat n \<le> 2 ^ k \<and> 2 ^ k < 2 * unat n"
    if n: "0 < unat n" "unat n \<le> 2 ^ 63" for n
  proof -
    let ?k = "log2_up 63 (unat n)"
    have t: "2 ^ ?k < 2 * unat n" and l: "unat n \<le> 2 ^ ?k"
      using log2_up_tight n log2_up_le by blast+
    then have "(2::nat) ^ ?k < 2 ^ 64" using n by simp
    then have "?k < 64" by (simp only: power_strict_increasing_iff)
    then have "unat (ref_roundup n) = 2 ^ ?k"
      by (simp add: ref_roundup_def unat_2p)
    with t l show ?thesis by blast
  qed
  moreover have "\<exists>k<32. ref_ilog2 n = of_nat k \<and> 2 ^ k \<le> unat n \<and> unat n < 2 ^ (k + 1)" if "0 < unat n" for n
  proof -
    have "unat n < 2 ^ LENGTH(32)" by (rule unsigned_less)
    then show ?thesis
      using log2_down_spec [OF that, of 32] unfolding ref_ilog2_def
      by (intro exI [of _ "log2_down 32 (unat n)"]) simp
  qed
  ultimately show ?thesis by (simp add: pow2_lib_def quiet_world_def)
qed

end
