(* ===== verification/HwQueue.thy ===== *)
theory HwQueue
  imports Kernel
begin

text \<open>
  What the event, completion, transmit and receive queues share: the register layout of a queue
  (\<open>mqnic_hw.h\<close>), the software copy of a 16-bit pointer the hardware owns, ring indices by mask,
  and the device's view of a queue, read off the history of register writes.
\<close>

section \<open>Register layout\<close>

text \<open>The three queue kinds have the same offsets.\<close>

definition BASE_ADDR_REG :: addr where "BASE_ADDR_REG = 0x00"
definition ACTIVE_LOG_SIZE_REG :: addr where "ACTIVE_LOG_SIZE_REG = 0x08"
definition INDEX_REG :: addr where "INDEX_REG = 0x0C"
definition HEAD_PTR_REG :: addr where "HEAD_PTR_REG = 0x10"
definition TAIL_PTR_REG :: addr where "TAIL_PTR_REG = 0x18"
definition ACTIVE_MASK :: u32 where "ACTIVE_MASK = 0x80000000"
definition ARM_MASK :: u32 where "ARM_MASK = 0x80000000"

lemmas queue_regs = BASE_ADDR_REG_def ACTIVE_LOG_SIZE_REG_def INDEX_REG_def HEAD_PTR_REG_def TAIL_PTR_REG_def

lemma queue_regs_distinct [simp]:
  "ACTIVE_LOG_SIZE_REG \<noteq> INDEX_REG" "ACTIVE_LOG_SIZE_REG \<noteq> HEAD_PTR_REG" "ACTIVE_LOG_SIZE_REG \<noteq> TAIL_PTR_REG"
  "ACTIVE_LOG_SIZE_REG \<noteq> 0" "ACTIVE_LOG_SIZE_REG \<noteq> 4" "0 \<noteq> ACTIVE_LOG_SIZE_REG"
  "4 \<noteq> ACTIVE_LOG_SIZE_REG" "INDEX_REG \<noteq> ACTIVE_LOG_SIZE_REG" "INDEX_REG \<noteq> HEAD_PTR_REG"
  "INDEX_REG \<noteq> TAIL_PTR_REG" "INDEX_REG \<noteq> 0" "INDEX_REG \<noteq> 4"
  "0 \<noteq> INDEX_REG" "4 \<noteq> INDEX_REG" "HEAD_PTR_REG \<noteq> ACTIVE_LOG_SIZE_REG"
  "HEAD_PTR_REG \<noteq> INDEX_REG" "HEAD_PTR_REG \<noteq> TAIL_PTR_REG" "HEAD_PTR_REG \<noteq> 0"
  "HEAD_PTR_REG \<noteq> 4" "0 \<noteq> HEAD_PTR_REG" "4 \<noteq> HEAD_PTR_REG"
  "TAIL_PTR_REG \<noteq> ACTIVE_LOG_SIZE_REG" "TAIL_PTR_REG \<noteq> INDEX_REG" "TAIL_PTR_REG \<noteq> HEAD_PTR_REG"
  "TAIL_PTR_REG \<noteq> 0" "TAIL_PTR_REG \<noteq> 4" "0 \<noteq> TAIL_PTR_REG"
  "4 \<noteq> TAIL_PTR_REG"
  by (simp_all add: queue_regs)

lemma base_reg_0 [simp]: "BASE_ADDR_REG = 0"
  by (simp add: queue_regs)

section \<open>The device's view\<close>

fun last_write :: "event list \<Rightarrow> addr \<Rightarrow> u32 option" where
  "last_write [] x = None"
| "last_write (Iowrite32 a v # tr) x = (if a = x then Some v else last_write tr x)"
| "last_write (e # tr) x = last_write tr x"

definition q_active :: "event list \<Rightarrow> addr \<Rightarrow> bool" where
  "q_active tr a = (case last_write tr (a + ACTIVE_LOG_SIZE_REG) of None \<Rightarrow> False | Some v \<Rightarrow> bit v 31)"

definition q_base :: "event list \<Rightarrow> addr \<Rightarrow> u64 option" where
  "q_base tr a = (case (last_write tr a, last_write tr (a + 4)) of
      (Some l, Some h) \<Rightarrow> Some (ucast l OR push_bit 32 (ucast h))
    | _ \<Rightarrow> None)"

text \<open>
  The rule for the queue at \<open>a\<close>: its base address registers are written, and the buffer they point
  to is freed, only while the queue is inactive.
\<close>

fun allowed :: "addr \<Rightarrow> event \<Rightarrow> event list \<Rightarrow> bool" where
  "allowed a (Iowrite32 x v) tr = (x = a \<or> x = a + 4 \<longrightarrow> \<not> q_active tr a)"
| "allowed a (DmaFree d n) tr = (q_active tr a \<longrightarrow> q_base tr a \<noteq> Some d)"
| "allowed a e tr = True"

fun disciplined :: "addr \<Rightarrow> event list \<Rightarrow> bool" where
  "disciplined a [] = True"
| "disciplined a (e # tr) = (allowed a e tr \<and> disciplined a tr)"

lemma dma_split:
  "ucast (ucast (d::u64) :: u32) OR push_bit 32 (ucast (ucast (drop_bit 32 d) :: u32)) = d"
  by (rule bit_eqI) (auto simp: bit_simps)

text \<open>Coupling of a driver ring (its address, buffer and active flag) to the device's queue.\<close>

definition coupled :: "addr \<Rightarrow> addr option \<Rightarrow> u64 \<Rightarrow> bool \<Rightarrow> event list \<Rightarrow> bool" where
  "coupled a buf dma act tr \<longleftrightarrow> disciplined a tr \<and> q_active tr a = act \<and>
     (act \<longrightarrow> buf \<noteq> None \<and> q_base tr a = Some dma)"

text \<open>An effect on other registers, or none at all on the queue, keeps the coupling.\<close>

fun neutral :: "addr \<Rightarrow> event \<Rightarrow> bool" where
  "neutral a (Iowrite32 x v) = (x \<noteq> a \<and> x \<noteq> a + 4 \<and> x \<noteq> a + ACTIVE_LOG_SIZE_REG)"
| "neutral a (DmaFree d n) = False"
| "neutral a e = True"

lemma neutral_step:
  "neutral a e \<Longrightarrow> q_active (e # tr) a = q_active tr a \<and> q_base (e # tr) a = q_base tr a \<and> allowed a e tr"
  by (cases e) (auto simp: q_active_def q_base_def)

lemma neutral_list:
  "\<forall>e\<in>set es. neutral a e \<Longrightarrow>
    q_active (es @ tr) a = q_active tr a \<and> q_base (es @ tr) a = q_base tr a \<and>
    disciplined a (es @ tr) = disciplined a tr"
  by (induction es) (auto simp: neutral_step)

lemma coupled_neutral:
  "\<forall>e\<in>set es. neutral a e \<Longrightarrow> coupled a buf dma act (es @ tr) = coupled a buf dma act tr"
  using neutral_list [of es a tr] by (simp add: coupled_def)

lemma coupled_neutral1: "neutral a e \<Longrightarrow> coupled a buf dma act (e # tr) = coupled a buf dma act tr"
  using coupled_neutral [of "[e]" a] by simp

lemma coupled_off:
  "disciplined a tr \<Longrightarrow> \<not> bit v 31 \<Longrightarrow> coupled a buf dma False (Iowrite32 (a + ACTIVE_LOG_SIZE_REG) v # tr)"
  by (auto simp: coupled_def q_active_def)

lemma coupled_free:
  "coupled a buf dma False tr \<Longrightarrow> coupled a buf' dma' False (DmaFree d n # tr)"
  by (auto simp: coupled_def q_active_def)

text \<open>A stretch of execution all of whose effects are neutral for the queue at \<open>a\<close>.\<close>

definition adds :: "addr \<Rightarrow> sys \<Rightarrow> sys \<Rightarrow> bool" where
  "adds a s t \<longleftrightarrow> same_world s t \<and> (\<exists>es. trace t = es @ trace s \<and> (\<forall>e\<in>set es. neutral a e))"

named_theorems adds_intros \<open>effects that are neutral for a queue\<close>

lemma adds_refl [adds_intros, simp]: "adds a s s"
  by (simp add: adds_def)

lemma adds_emit [adds_intros]: "adds a s t \<Longrightarrow> neutral a e \<Longrightarrow> adds a s (emit e t)"
proof -
  assume "adds a s t" "neutral a e"
  then obtain es where es: "same_world s t" "trace t = es @ trace s" "\<forall>e\<in>set es. neutral a e"
    unfolding adds_def by blast
  then have "trace (emit e t) = (e # es) @ trace s" "\<forall>e\<in>set (e # es). neutral a e"
    using \<open>neutral a e\<close> by auto
  moreover have "same_world s (emit e t)"
    using es(1) by (cases s; cases t) (simp add: same_world_def emit_def)
  ultimately show ?thesis unfolding adds_def by blast
qed

lemma adds_trans: "adds a r s \<Longrightarrow> adds a s t \<Longrightarrow> adds a r t"
proof -
  assume "adds a r s" "adds a s t"
  then obtain es fs where w: "same_world r s" "same_world s t"
    and e: "trace s = es @ trace r" "trace t = fs @ trace s" "\<forall>e\<in>set es. neutral a e" "\<forall>e\<in>set fs. neutral a e"
    unfolding adds_def by blast
  then have "trace t = (fs @ es) @ trace r" "\<forall>e\<in>set (fs @ es). neutral a e" by auto
  with same_world_trans [OF w] show ?thesis unfolding adds_def by blast
qed

lemma adds_iowrite32 [adds_intros]:
  "adds a s t \<Longrightarrow> x \<noteq> a \<Longrightarrow> x \<noteq> a + 4 \<Longrightarrow> x \<noteq> a + ACTIVE_LOG_SIZE_REG \<Longrightarrow> adds a s (iowrite32 v x t)"
  by (simp add: iowrite32_def adds_emit)

lemma adds_fold: "(\<And>x t. adds a t (f x t)) \<Longrightarrow> adds a s (fold f xs s)"
proof (induction xs arbitrary: s)
  case (Cons x xs)
  then show ?case using adds_trans [of a s "f x s" "fold f xs (f x s)"] by simp
qed simp

lemma adds_extends: "adds a s t \<Longrightarrow> extends s t"
  by (auto simp: adds_def extends_def)

lemma adds_coupled: "adds a s t \<Longrightarrow> coupled a b d x (trace t) = coupled a b d x (trace s)"
  by (auto simp: adds_def coupled_neutral)

section \<open>Configuration of a queue\<close>

text \<open>The write sequence the \<open>alloc\<close> and \<open>activate\<close> operations of all four rings share.\<close>

definition config_writes :: "addr \<Rightarrow> u64 \<Rightarrow> u32 \<Rightarrow> u32 \<Rightarrow> u32 \<Rightarrow> u32 \<Rightarrow> (u32 \<times> addr) list" where
  "config_writes hw dma idx hp tp logsz =
    [(0, hw + ACTIVE_LOG_SIZE_REG),
     (ucast dma, hw + BASE_ADDR_REG + 0),
     (ucast (drop_bit 32 dma), hw + BASE_ADDR_REG + 4),
     (idx, hw + INDEX_REG),
     (hp, hw + HEAD_PTR_REG),
     (tp, hw + TAIL_PTR_REG),
     (logsz, hw + ACTIVE_LOG_SIZE_REG)]"

lemma config_coupled:
  assumes "disciplined a (trace s)" "bit logsz 31 \<longrightarrow> buf \<noteq> None"
  shows "coupled a buf dma (bit logsz 31) (trace (iowrites (config_writes a dma idx hp tp logsz) s))"
  using assms by (auto simp: config_writes_def coupled_def q_active_def q_base_def dma_split)

lemma config_off:
  "disciplined a (trace t) \<Longrightarrow> \<not> bit l 31 \<Longrightarrow>
    coupled a b dma False (trace (iowrites (config_writes a dma idx hp tp l) t))"
  using config_coupled [of a t l b] by simp

lemma config_on:
  "disciplined a (trace t) \<Longrightarrow> bit l 31 \<Longrightarrow> b \<noteq> None \<Longrightarrow>
    coupled a b dma True (trace (iowrites (config_writes a dma idx hp tp l) t))"
  using config_coupled [of a t l b] by simp

lemma bit_active_mask [simp]: "bit (x OR ACTIVE_MASK) 31"
  by (simp add: bit_or_iff ACTIVE_MASK_def)

lemma config_view:
  assumes "t = iowrites (config_writes a dma idx hp tp logsz) s"
  shows "last_write (trace t) (a + INDEX_REG) = Some idx" "last_write (trace t) (a + HEAD_PTR_REG) = Some hp"
    "last_write (trace t) (a + TAIL_PTR_REG) = Some tp" "last_write (trace t) (a + ACTIVE_LOG_SIZE_REG) = Some logsz"
    "q_base (trace t) a = Some dma"
  by (simp_all add: assms config_writes_def q_base_def dma_split)

section \<open>Ring sizes and indices\<close>

definition ring_dims :: "u32 \<Rightarrow> u32 \<Rightarrow> bool" where
  "ring_dims sz msk \<longleftrightarrow> (\<exists>k<32. sz = 2 ^ k) \<and> msk = sz - 1"

lemma ring_dims_mask: "ring_dims sz msk \<Longrightarrow> \<exists>k<32. unat sz = 2 ^ k \<and> msk = mask k"
  by (auto simp: ring_dims_def unat_2p pow2_minus1_mask)

lemma ring_index_mod: "ring_dims sz msk \<Longrightarrow> unat (p AND msk) = unat p mod unat sz"
  using ring_dims_mask [of sz msk] by (auto simp: mask_mod)

lemma ring_index_less: "ring_dims sz msk \<Longrightarrow> unat (p AND msk) < unat sz"
  using ring_dims_mask [of sz msk] by (auto simp: ring_index_mod)

text \<open>Two pointers less than a ring apart never share an index, across the 32-bit wrap as well.\<close>

lemma ring_index_inj:
  assumes d: "ring_dims sz msk" and i: "unat i < unat sz" "unat j < unat sz"
    and eq: "(p + i) AND msk = (p + j) AND msk"
  shows "i = j"
proof -
  from ring_dims_mask [OF d] obtain k where k: "unat sz = 2 ^ k" "msk = mask k" "k < 32" by blast
  have "(unat p + unat i) mod 2 ^ k = (unat p + unat j) mod 2 ^ k"
    using arg_cong [OF eq, of unat] k mod_mod_cancel [OF le_imp_power_dvd [of k 32 "2::nat"]]
    by (simp add: mask_mod unat_word_ariths)
  from arg_cong [OF this, of int]
  have "(int (unat p) + int (unat i)) mod 2 ^ k = (int (unat p) + int (unat j)) mod 2 ^ k"
    by (simp add: zmod_int)
  from mod_diff_cong [OF this refl [of "int (unat p) mod 2 ^ k"]]
  have "int (unat i) mod 2 ^ k = int (unat j) mod 2 ^ k" by simp
  then have "unat i mod 2 ^ k = unat j mod 2 ^ k"
    by (metis nat_int of_nat_numeral of_nat_power zmod_int)
  then show ?thesis
    using i k by (simp add: word_unat_eq_iff)
qed

lemma ilog2_no_active: "pow2_lib s \<Longrightarrow> ring_dims sz msk \<Longrightarrow> \<not> bit (w_ilog2 s sz) 31"
proof -
  assume "pow2_lib s" "ring_dims sz msk"
  then obtain k where k: "k < 32" "w_ilog2 s sz = of_nat k" 
    using pow2_lib_exact by (auto simp: ring_dims_def)
  then have "unat (w_ilog2 s sz) < 2 ^ 31" by (simp add: unat_of_nat)
  then have "take_bit 31 (w_ilog2 s sz) = w_ilog2 s sz" by (simp add: take_bit_small)
  then show ?thesis by (metis bit_take_bit_iff less_irrefl)
qed

lemma pow2_libD:
  "pow2_lib s \<Longrightarrow> 0 < unat n \<Longrightarrow> unat n \<le> 2 ^ 63 \<Longrightarrow>
    \<exists>k. unat (w_roundup_pow_of_two s n) = 2 ^ k \<and> unat n \<le> 2 ^ k \<and> 2 ^ k < 2 * unat n"
  by (simp add: pow2_lib_def)

text \<open>Walking a pointer up to another one.\<close>

lemma ptr_dist: "(t::u32) \<noteq> h \<Longrightarrow> unat (h - t) = Suc (unat (h - (t + 1)))"
proof -
  assume "t \<noteq> h"
  then have "h - t \<noteq> 0" by simp
  then have "unat (h - t) \<noteq> 0" by (simp add: unat_eq_0)
  then have "unat (h - t) = Suc (unat (h - t - 1))"
    using unat_minus_one [OF \<open>h - t \<noteq> 0\<close>] by simp
  then show ?thesis by (simp add: algebra_simps)
qed

definition ptr_range :: "u32 \<Rightarrow> u32 \<Rightarrow> u32 list" where
  "ptr_range t h = map (\<lambda>i. t + of_nat i) [0..<unat (h - t)]"

lemma ptr_range_refl [simp]: "ptr_range t t = []"
  by (simp add: ptr_range_def)

lemma ptr_range_step: "t \<noteq> h \<Longrightarrow> ptr_range t h = t # ptr_range (t + 1) h"
proof -
  assume "t \<noteq> h"
  then have "[0..<unat (h - t)] = 0 # map Suc [0..<unat (h - (t + 1))]"
    using \<open>t \<noteq> h\<close> by (simp only: ptr_dist [OF \<open>t \<noteq> h\<close>] map_Suc_upt) (simp only: upt_conv_Cons zero_less_Suc)
  then have "ptr_range t h = t # map (\<lambda>i. t + of_nat (Suc i)) [0..<unat (h - (t + 1))]"
    by (simp only: ptr_range_def) (simp add: o_def)
  moreover have "t + of_nat (Suc i) = t + 1 + of_nat i" for i :: nat
    by simp
  ultimately show ?thesis
    by (simp only: ptr_range_def)
qed

text \<open>The size an allocation gives a ring: \<open>roundup_pow_of_two\<close> of a positive \<open>int\<close>.\<close>

lemma roundup_dims:
  assumes "pow2_lib s" "0 < n" "n \<le> 2 ^ 31"
  shows "ring_dims (ucast (w_roundup_pow_of_two s (word_of_int n))) (ucast (w_roundup_pow_of_two s (word_of_int n)) - 1)"
    and "n \<le> uint (ucast (w_roundup_pow_of_two s (word_of_int n)) :: u32)"
proof -
  let ?m = "word_of_int n :: u64" and ?r = "w_roundup_pow_of_two s (word_of_int n)"
  have m: "unat ?m = nat n"
    using assms(2,3) by (simp add: unat_eq_nat_uint uint_word_of_int)
  have pos: "0 < unat ?m" and le: "unat ?m \<le> 2 ^ 63"
    using m assms(2,3) by (simp_all add: nat_le_iff)
  obtain k where k: "unat ?r = 2 ^ k" "unat ?m \<le> 2 ^ k" "2 ^ k < 2 * unat ?m"
    using pow2_libD [OF assms(1) pos le] by blast
  have "(2::nat) ^ k < 2 ^ 32" using k(3) m assms(3) by simp
  then have k32: "k < 32" by (simp only: power_strict_increasing_iff)
  then have "unat (ucast ?r :: u32) = 2 ^ k"
    using k(1) \<open>(2::nat) ^ k < 2 ^ 32\<close> by (simp add: unsigned_ucast_eq take_bit_eq_mod)
  then have "(ucast ?r :: u32) = 2 ^ k"
    using k32 by (simp add: word_unat_eq_iff unat_2p)
  with k32 show "ring_dims (ucast ?r) (ucast ?r - 1)"
    by (auto simp: ring_dims_def)
  show "n \<le> uint (ucast ?r :: u32)"
    using k(2) m \<open>unat (ucast ?r :: u32) = 2 ^ k\<close> assms(2) by (simp add: uint_nat)
qed


section \<open>The software copy of a hardware pointer\<close>

lemma word_take_bit_diff_cong:
  fixes a b c :: u32
  assumes "n \<le> 32" "take_bit n a = take_bit n b"
  shows "take_bit n (a - c) = take_bit n (b - c)"
proof -
  have e: "uint (take_bit n (x - c)) = take_bit n (uint x - uint c)" for x :: u32
    using mod_mod_cancel [OF le_imp_power_dvd [OF assms(1), of "2::int"], of "uint x - uint c"]
    by (simp only: unsigned_take_bit_eq) (simp add: uint_word_ariths take_bit_eq_mod)
  have "take_bit n (uint a) = take_bit n (uint b)"
    using arg_cong [OF assms(2), of uint] by (simp add: unsigned_take_bit_eq)
  then have "take_bit n (uint a - uint c) = take_bit n (uint b - uint c)"
    by (metis take_bit_diff)
  then show ?thesis
    by (simp add: e word_uint_eq_iff)
qed

lemma ptr_follow:
  fixes p v H :: u32
  assumes "unat (H - p) < 2 ^ 16" "v AND 0xffff = H AND 0xffff"
  shows "p + ((v - p) AND 0xffff) = H"
proof -
  have "take_bit 16 v = take_bit 16 H"
    using assms(2) by (simp add: word16_mask and_mask_word)
  then have "take_bit 16 (v - p) = take_bit 16 (H - p)"
    by (intro word_take_bit_diff_cong) simp_all
  also have "\<dots> = H - p" using assms(1) by (rule take_bit_small)
  finally show ?thesis
    by (simp add: word16_mask and_mask_word)
qed

text \<open>
  The contract of an operation that refreshes the copy from its register, and what follows: as long
  as the hardware is less than \<open>2 ^ 16\<close> entries ahead, the copy becomes the hardware's 32-bit
  position although the register shows 16 bits of it.
\<close>

locale hw_pointer =
  fixes ptr :: "'r \<Rightarrow> u32" and reg :: "'r \<Rightarrow> addr" and msk :: "'r \<Rightarrow> u32"
    and rd :: "'r \<Rightarrow> sys \<Rightarrow> 'r \<times> sys"
  assumes rd_ptr: "ptr (fst (rd r s)) = ptr r + ((w_ioread s (trace s) (reg r) - ptr r) AND msk r)"
    and rd_sys: "snd (rd r s) = emit (Ioread32 (reg r) (w_ioread s (trace s) (reg r))) s"
begin

lemma follows_hardware:
  "msk r = 0xffff \<Longrightarrow> unat (H - ptr r) < 2 ^ 16 \<Longrightarrow>
    w_ioread s (trace s) (reg r) AND 0xffff = H AND 0xffff \<Longrightarrow> ptr (fst (rd r s)) = H"
  by (simp add: rd_ptr ptr_follow)

lemma advances_less:
  "msk r = 0xffff \<Longrightarrow> unat (ptr (fst (rd r s)) - ptr r) < 2 ^ 16"
  by (simp add: rd_ptr word16_mask mask_mod)

lemma reads_only: "extends s (snd (rd r s))"
  by (simp add: rd_sys extends_emit)

end


section \<open>Life cycle of a queue\<close>

text \<open>
  A ring \<open>'r\<close> and its world \<open>'w\<close> under operations \<open>'op\<close>: every operation keeps the provider's own
  invariant and the coupling to the device. Then any sequence of operations does.
\<close>

locale hw_queue =
  fixes hwa :: "'r \<Rightarrow> addr" and buf :: "'r \<Rightarrow> addr option" and dma :: "'r \<Rightarrow> u64" and act :: "'r \<Rightarrow> bool"
    and sysof :: "'w \<Rightarrow> sys" and wf :: "'r \<Rightarrow> 'w \<Rightarrow> bool" and step :: "'op \<Rightarrow> 'r \<times> 'w \<Rightarrow> 'r \<times> 'w"
  assumes step_law: "wf r w \<Longrightarrow> coupled (hwa r) (buf r) (dma r) (act r) (trace (sysof w)) \<Longrightarrow>
    step x (r, w) = (r', w') \<Longrightarrow>
    wf r' w' \<and> hwa r' = hwa r \<and> coupled (hwa r') (buf r') (dma r') (act r') (trace (sysof w'))"
begin

lemma run_law:
  "wf r w \<Longrightarrow> coupled (hwa r) (buf r) (dma r) (act r) (trace (sysof w)) \<Longrightarrow>
    fold step xs (r, w) = (r', w') \<Longrightarrow>
    wf r' w' \<and> hwa r' = hwa r \<and> coupled (hwa r') (buf r') (dma r') (act r') (trace (sysof w'))"
proof (induction xs arbitrary: r w)
  case (Cons x xs)
  obtain r1 w1 where s: "step x (r, w) = (r1, w1)" by force
  from step_law [OF Cons.prems(1,2) s] Cons.IH [of r1 w1] Cons.prems(3) s show ?case by auto
qed simp

lemma run_disciplined:
  "wf r w \<Longrightarrow> coupled (hwa r) (buf r) (dma r) (act r) (trace (sysof w)) \<Longrightarrow>
    fold step xs (r, w) = (r', w') \<Longrightarrow> disciplined (hwa r) (trace (sysof w'))"
  using run_law [of r w xs r' w'] by (auto simp: coupled_def)

lemma run_base:
  "wf r w \<Longrightarrow> coupled (hwa r) (buf r) (dma r) (act r) (trace (sysof w)) \<Longrightarrow>
    fold step xs (r, w) = (r', w') \<Longrightarrow> q_active (trace (sysof w')) (hwa r) \<Longrightarrow>
    buf r' \<noteq> None \<and> q_base (trace (sysof w')) (hwa r) = Some (dma r')"
  using run_law [of r w xs r' w'] by (auto simp: coupled_def)

end

end
