(* ===== verification/CplQueue.thy ===== *)
theory CplQueue
  imports HwQueue
begin

text \<open>
  Completion queues (\<open>modules/mqnic/mqnic_cq.c\<close>): creation, allocation, activation, pointer
  updates and arming. A ring is a record; pointers to other objects are their indices. The
  \<open>dev\<close> and \<open>interface\<close> back pointers, which never change, are not kept.
\<close>

section \<open>The structure\<close>

datatype cq_handler = Mqnic_tx_irq | Mqnic_rx_irq

record mqnic_cq_ring =
  cq_mem :: nat
  cq_head_ptr :: u32
  cq_tail_ptr :: u32
  cq_size :: u32
  cq_size_mask :: u32
  cq_stride :: u32
  cq_buf_size :: u64
  cq_buf :: "addr option"
  cq_buf_dma_addr :: u64
  cq_index :: int
  cq_eq_ring :: "int option"
  cq_src_ring :: "int option"
  cq_eq_index :: int
  cq_active :: bool
  cq_handler :: "cq_handler option"
  cq_hw_ptr_mask :: u32
  cq_hw_addr :: addr
  cq_hw_head_ptr :: addr
  cq_hw_tail_ptr :: addr

section \<open>Operations\<close>

definition mqnic_create_cq_ring :: "int \<Rightarrow> addr \<Rightarrow> sys \<Rightarrow> int \<times> mqnic_cq_ring option \<times> sys" where
  "mqnic_create_cq_ring index hw_addr s =
    (case kzalloc s of
       (None, s) \<Rightarrow> (- ENOMEM, None, s)
     | (Some m, s) \<Rightarrow>
       let ring = \<lparr>cq_mem = m, cq_head_ptr = 0, cq_tail_ptr = 0, cq_size = 0, cq_size_mask = 0,
             cq_stride = 0, cq_buf_size = 0, cq_buf = None, cq_buf_dma_addr = 0, cq_index = index,
             cq_eq_ring = None, cq_src_ring = None, cq_eq_index = 0, cq_active = False, cq_handler = None,
             cq_hw_ptr_mask = 0xffff, cq_hw_addr = hw_addr,
             cq_hw_head_ptr = hw_addr + HEAD_PTR_REG, cq_hw_tail_ptr = hw_addr + TAIL_PTR_REG\<rparr>
       in (0, Some ring, iowrite32 0 (hw_addr + ACTIVE_LOG_SIZE_REG) s))"

definition mqnic_alloc_cq_ring :: "mqnic_cq_ring \<Rightarrow> int \<Rightarrow> int \<Rightarrow> sys \<Rightarrow> int \<times> mqnic_cq_ring \<times> sys" where
  "mqnic_alloc_cq_ring ring n stride s =
    (let sz = ucast (w_roundup_pow_of_two s (word_of_int n)) :: u32;
         st = ucast (w_roundup_pow_of_two s (word_of_int stride)) :: u32;
         ring = ring\<lparr>cq_size := sz, cq_size_mask := sz - 1, cq_stride := st, cq_buf_size := ucast (sz * st)\<rparr>
     in case dma_alloc_coherent (cq_buf_size ring) s of
       (None, s) \<Rightarrow> (- ENOMEM, ring\<lparr>cq_buf := None\<rparr>, s)
     | (Some (buf, dma), s) \<Rightarrow>
       let ring = ring\<lparr>cq_buf := Some buf, cq_buf_dma_addr := dma, cq_head_ptr := 0, cq_tail_ptr := 0\<rparr>
       in (0, ring, iowrites (config_writes (cq_hw_addr ring) dma 0
             (cq_head_ptr ring AND cq_hw_ptr_mask ring) (cq_tail_ptr ring AND cq_hw_ptr_mask ring)
             (w_ilog2 s (cq_size ring))) s))"

definition mqnic_deactivate_cq_ring :: "mqnic_cq_ring \<Rightarrow> sys \<Rightarrow> mqnic_cq_ring \<times> sys" where
  "mqnic_deactivate_cq_ring ring s =
    (ring\<lparr>cq_eq_ring := None, cq_active := False\<rparr>,
     iowrites [(w_ilog2 s (cq_size ring), cq_hw_addr ring + ACTIVE_LOG_SIZE_REG),
               (word_of_int (cq_eq_index ring), cq_hw_addr ring + INDEX_REG)] s)"

definition mqnic_free_cq_ring :: "mqnic_cq_ring \<Rightarrow> sys \<Rightarrow> mqnic_cq_ring \<times> sys" where
  "mqnic_free_cq_ring ring s =
    (case mqnic_deactivate_cq_ring ring s of (ring, s) \<Rightarrow>
       if cq_buf ring = None then (ring, s)
       else (ring\<lparr>cq_buf := None, cq_buf_dma_addr := 0\<rparr>,
             emit (DmaFree (cq_buf_dma_addr ring) (cq_buf_size ring)) s))"

definition mqnic_destroy_cq_ring :: "mqnic_cq_ring \<Rightarrow> sys \<Rightarrow> mqnic_cq_ring option \<times> sys" where
  "mqnic_destroy_cq_ring ring s =
    (case mqnic_free_cq_ring ring s of (ring, s) \<Rightarrow> (None, emit (Kfree (cq_mem ring)) s))"

text \<open>The event ring is named by its index, the field the code reads through the pointer.\<close>

definition mqnic_activate_cq_ring :: "mqnic_cq_ring \<Rightarrow> int option \<Rightarrow> sys \<Rightarrow> int \<times> mqnic_cq_ring \<times> sys" where
  "mqnic_activate_cq_ring ring eq_ring s =
    (case mqnic_deactivate_cq_ring ring s of (ring, s) \<Rightarrow>
       case (cq_buf ring, eq_ring) of
         (Some buf, Some e) \<Rightarrow>
           let ring = ring\<lparr>cq_eq_ring := Some e, cq_eq_index := e\<rparr>;
               s = iowrites (config_writes (cq_hw_addr ring) (cq_buf_dma_addr ring)
                     (word_of_int (cq_eq_index ring))
                     (cq_head_ptr ring AND cq_hw_ptr_mask ring) (cq_tail_ptr ring AND cq_hw_ptr_mask ring)
                     (w_ilog2 s (cq_size ring) OR ACTIVE_MASK)) s
           in (0, ring\<lparr>cq_active := True\<rparr>, s)
       | _ \<Rightarrow> (- EINVAL, ring, s))"

definition mqnic_is_cq_ring_empty :: "mqnic_cq_ring \<Rightarrow> bool" where
  "mqnic_is_cq_ring_empty ring \<longleftrightarrow> cq_head_ptr ring = cq_tail_ptr ring"

definition mqnic_is_cq_ring_full :: "mqnic_cq_ring \<Rightarrow> bool" where
  "mqnic_is_cq_ring_full ring \<longleftrightarrow> cq_head_ptr ring - cq_tail_ptr ring \<ge> cq_size ring"

definition mqnic_cq_read_head_ptr :: "mqnic_cq_ring \<Rightarrow> sys \<Rightarrow> mqnic_cq_ring \<times> sys" where
  "mqnic_cq_read_head_ptr ring s =
    (case ioread32 (cq_hw_head_ptr ring) s of (v, s) \<Rightarrow>
      (ring\<lparr>cq_head_ptr := cq_head_ptr ring + ((v - cq_head_ptr ring) AND cq_hw_ptr_mask ring)\<rparr>, s))"

definition mqnic_cq_write_tail_ptr :: "mqnic_cq_ring \<Rightarrow> sys \<Rightarrow> sys" where
  "mqnic_cq_write_tail_ptr ring s = iowrite32 (cq_tail_ptr ring AND cq_hw_ptr_mask ring) (cq_hw_tail_ptr ring) s"

definition mqnic_arm_cq :: "mqnic_cq_ring \<Rightarrow> sys \<Rightarrow> sys" where
  "mqnic_arm_cq ring s =
    (if \<not> cq_active ring then s
     else iowrite32 (word_of_int (cq_eq_index ring) OR ARM_MASK) (cq_hw_addr ring + INDEX_REG) s)"

text \<open>The interrupt handlers of both directions only schedule the poll routine.\<close>

definition run_cq_handler :: "mqnic_cq_ring \<Rightarrow> sys \<Rightarrow> sys" where
  "run_cq_handler cq s = (case cq_handler cq of
      Some Mqnic_tx_irq \<Rightarrow> emit (NapiSchedule (cq_index cq)) s
    | Some Mqnic_rx_irq \<Rightarrow> emit (NapiSchedule (cq_index cq)) s
    | None \<Rightarrow> s)"

section \<open>Well-formed rings and the coupling\<close>

definition cq_wf :: "mqnic_cq_ring \<Rightarrow> sys \<Rightarrow> bool" where
  "cq_wf r s \<longleftrightarrow> pow2_lib s \<and> cq_hw_ptr_mask r = 0xffff \<and>
     cq_hw_head_ptr r = cq_hw_addr r + HEAD_PTR_REG \<and> cq_hw_tail_ptr r = cq_hw_addr r + TAIL_PTR_REG \<and>
     ring_dims (cq_size r) (cq_size_mask r)"

abbreviation cq_coupled :: "mqnic_cq_ring \<Rightarrow> sys \<Rightarrow> bool" where
  "cq_coupled r s \<equiv> coupled (cq_hw_addr r) (cq_buf r) (cq_buf_dma_addr r) (cq_active r) (trace s)"

lemma cq_deactivate_sys:
  "mqnic_deactivate_cq_ring r s = (r', s') \<Longrightarrow> extends s s' \<and> cq_active r' = False \<and>
    cq_hw_addr r' = cq_hw_addr r \<and> cq_buf r' = cq_buf r \<and> cq_buf_dma_addr r' = cq_buf_dma_addr r \<and>
    (cq_wf r s' \<longrightarrow> cq_wf r' s')"
  by (auto simp: mqnic_deactivate_cq_ring_def extends_iowrite32 cq_wf_def)

lemma cq_wf_extends: "extends s t \<Longrightarrow> cq_wf r t = cq_wf r s"
  by (simp add: cq_wf_def extends_pow2_lib)

lemma cq_deactivate_coupled:
  assumes "cq_wf r s" "disciplined (cq_hw_addr r) (trace s)" "mqnic_deactivate_cq_ring r s = (r', s')"
  shows "cq_coupled r' s'" "cq_wf r' s'"
proof -
  have "\<not> bit (w_ilog2 s (cq_size r)) 31"
    using assms(1) ilog2_no_active by (auto simp: cq_wf_def)
  then have "coupled (cq_hw_addr r) (cq_buf r) (cq_buf_dma_addr r) False (trace s')"
    using assms(2,3) by (auto simp: mqnic_deactivate_cq_ring_def coupled_neutral1 coupled_off)
  then show "cq_coupled r' s'" "cq_wf r' s'"
    using cq_deactivate_sys [OF assms(3)] assms(1) by (auto simp: cq_wf_extends)
qed


section \<open>Sequences of operations\<close>

text \<open>
  How the driver uses a ring: a buffer is allocated for a ring without one (a positive size), the
  other operations may come at any time.
\<close>

datatype cq_op = CqAlloc int int | CqFree | CqActivate "int option" | CqDeactivate
  | CqReadHead | CqConsume u32 | CqArm

fun cq_step :: "cq_op \<Rightarrow> mqnic_cq_ring \<times> sys \<Rightarrow> mqnic_cq_ring \<times> sys" where
  "cq_step (CqAlloc n st) (r, s) =
     (if cq_active r \<or> cq_buf r \<noteq> None \<or> n < 1 \<or> n > 2 ^ 31 then (r, s) else snd (mqnic_alloc_cq_ring r n st s))"
| "cq_step CqFree (r, s) = mqnic_free_cq_ring r s"
| "cq_step (CqActivate e) (r, s) = snd (mqnic_activate_cq_ring r e s)"
| "cq_step CqDeactivate (r, s) = mqnic_deactivate_cq_ring r s"
| "cq_step CqReadHead (r, s) = mqnic_cq_read_head_ptr r s"
| "cq_step (CqConsume t) (r, s) = (r\<lparr>cq_tail_ptr := t\<rparr>, mqnic_cq_write_tail_ptr (r\<lparr>cq_tail_ptr := t\<rparr>) s)"
| "cq_step CqArm (r, s) = (r, mqnic_arm_cq r s)"

lemma cq_alloc_law:
  assumes "cq_wf r s" "cq_coupled r s" "\<not> cq_active r" "0 < n" "n \<le> 2 ^ 31"
    and "mqnic_alloc_cq_ring r n st s = (e, r', s')"
  shows "cq_wf r' s' \<and> cq_hw_addr r' = cq_hw_addr r \<and> cq_coupled r' s' \<and> \<not> cq_active r' \<and>
    (e = 0 \<longrightarrow> cq_buf r' \<noteq> None \<and> n \<le> uint (cq_size r'))"
proof -
  have p: "pow2_lib s" and w: "cq_hw_ptr_mask r = 0xffff" "cq_hw_head_ptr r = cq_hw_addr r + HEAD_PTR_REG"
    "cq_hw_tail_ptr r = cq_hw_addr r + TAIL_PTR_REG" using assms(1) by (auto simp: cq_wf_def)
  note dims = roundup_dims [OF p assms(4,5)]
  have l: "\<not> bit (w_ilog2 s (ucast (w_roundup_pow_of_two s (word_of_int n)))) 31"
    using ilog2_no_active [OF p dims(1)] .
  have d: "disciplined (cq_hw_addr r) (trace s)" using assms(2) by (simp add: coupled_def)
  have c: "coupled (cq_hw_addr r) b dma False
      (trace (iowrites (config_writes (cq_hw_addr r) dma i hp tp (w_ilog2 s (ucast (w_roundup_pow_of_two s (word_of_int n))))) t))"
    if "disciplined (cq_hw_addr r) (trace t)" for b dma i hp tp t
    using config_coupled [OF that, of "w_ilog2 s (ucast (w_roundup_pow_of_two s (word_of_int n)))" b] l by simp
  show ?thesis
    using assms(2,3,6) p w dims d c
    by (auto simp: mqnic_alloc_cq_ring_def dma_alloc_coherent_def Let_def cq_wf_def coupled_def
        extends_pow2_lib [OF extends_iowrites [OF extends_emit [OF extends_refl]]] split: option.splits)
qed

lemma cq_activate_law:
  assumes "cq_wf r s" "cq_coupled r s" "mqnic_activate_cq_ring r e s = (ret, r', s')"
  shows "cq_wf r' s' \<and> cq_hw_addr r' = cq_hw_addr r \<and> cq_coupled r' s' \<and>
    (ret = 0 \<longleftrightarrow> cq_active r') \<and> (ret = 0 \<longleftrightarrow> cq_buf r \<noteq> None \<and> e \<noteq> None)"
proof -
  obtain r1 s1 where d: "mqnic_deactivate_cq_ring r s = (r1, s1)" by force
  note c = cq_deactivate_coupled [OF assms(1) _ d] cq_deactivate_sys [OF d]
  have dis: "disciplined (cq_hw_addr r) (trace s)" using assms(2) by (simp add: coupled_def)
  show ?thesis
  proof (cases "cq_buf r \<noteq> None \<and> e \<noteq> None")
    case False
    with assms(3) d c dis show ?thesis
      by (auto simp: mqnic_activate_cq_ring_def split: option.splits)
  next
    case True
    then obtain b i where bi: "cq_buf r = Some b" "e = Some i" by auto
    have "disciplined (cq_hw_addr r) (trace s1)" using c dis by (auto simp: coupled_def)
    then have k: "coupled (cq_hw_addr r) (cq_buf r) (cq_buf_dma_addr r) True
       (trace (iowrites (config_writes (cq_hw_addr r) (cq_buf_dma_addr r) x hp tp (w_ilog2 s1 (cq_size r1) OR ACTIVE_MASK)) s1))" for x hp tp
      using config_coupled [of "cq_hw_addr r" s1 "w_ilog2 s1 (cq_size r1) OR ACTIVE_MASK" "cq_buf r"] bi
      by (simp add: bit_or_iff ACTIVE_MASK_def)
    have w: "cq_wf r1 s1" using c dis by simp
    have e: "ret = 0" "r' = r1\<lparr>cq_eq_ring := Some i, cq_eq_index := i, cq_active := True\<rparr>"
      "s' = iowrites (config_writes (cq_hw_addr r) (cq_buf_dma_addr r) (word_of_int i)
         (cq_head_ptr r1 AND cq_hw_ptr_mask r1) (cq_tail_ptr r1 AND cq_hw_ptr_mask r1)
         (w_ilog2 s1 (cq_size r1) OR ACTIVE_MASK)) s1"
      using assms(3) d bi c by (simp_all add: mqnic_activate_cq_ring_def Let_def)
    have "extends s1 s'" unfolding e(3) by (rule extends_iowrites [OF extends_refl])
    then have "cq_wf r' s'" using w by (simp add: e(2) cq_wf_extends cq_wf_def extends_pow2_lib)
    with e k bi c show ?thesis by auto
  qed
qed

lemma cq_free_law:
  assumes "cq_wf r s" "cq_coupled r s" "mqnic_free_cq_ring r s = (r', s')"
  shows "cq_wf r' s' \<and> cq_hw_addr r' = cq_hw_addr r \<and> cq_coupled r' s' \<and> \<not> cq_active r' \<and> cq_buf r' = None"
proof -
  obtain r1 s1 where d: "mqnic_deactivate_cq_ring r s = (r1, s1)" by force
  note c = cq_deactivate_coupled [OF assms(1) _ d] cq_deactivate_sys [OF d]
  have "disciplined (cq_hw_addr r) (trace s)" using assms(2) by (simp add: coupled_def)
  with c assms(3) d show ?thesis
    by (auto simp: mqnic_free_cq_ring_def coupled_free cq_wf_def extends_pow2_lib [OF extends_emit [OF extends_refl]]
        split: if_splits)
qed

lemma cq_pointer_law:
  "mqnic_cq_read_head_ptr r s = (r', s') \<Longrightarrow> cq_wf r s \<Longrightarrow> cq_coupled r s \<Longrightarrow>
    cq_wf r' s' \<and> cq_hw_addr r' = cq_hw_addr r \<and> cq_coupled r' s'"
  "cq_wf r s \<Longrightarrow> cq_coupled r s \<Longrightarrow> cq_wf r (mqnic_cq_write_tail_ptr r s) \<and> cq_coupled r (mqnic_cq_write_tail_ptr r s)"
  "cq_wf r s \<Longrightarrow> cq_coupled r s \<Longrightarrow> cq_wf r (mqnic_arm_cq r s) \<and> cq_coupled r (mqnic_arm_cq r s)"
  by (auto simp: mqnic_cq_read_head_ptr_def ioread32_def Let_def mqnic_cq_write_tail_ptr_def mqnic_arm_cq_def cq_wf_def
      coupled_neutral1 extends_pow2_lib [OF extends_emit [OF extends_refl]]
      extends_pow2_lib [OF extends_iowrite32 [OF extends_refl]])

lemma cq_step_law:
  assumes "cq_wf r s" "cq_coupled r s" "cq_step x (r, s) = (r', s')"
  shows "cq_wf r' s' \<and> cq_hw_addr r' = cq_hw_addr r \<and> cq_coupled r' s'"
proof (cases x)
  case (CqAlloc n st)
  then show ?thesis
    using assms cq_alloc_law [OF assms(1,2), of n st] by (auto split: if_splits) (metis prod.collapse)+
next
  case (CqActivate e)
  then show ?thesis
    using assms cq_activate_law [OF assms(1,2), of e] by simp (metis prod.collapse)
next
  case CqFree
  then show ?thesis using assms(3) cq_free_law [OF assms(1,2), of r' s'] by auto
next
  case CqDeactivate
  then show ?thesis
    using assms cq_deactivate_coupled [OF assms(1), of r' s'] cq_deactivate_sys [of r s r' s'] by (simp add: coupled_def)
next
  case CqReadHead
  then show ?thesis using assms cq_pointer_law(1) [of r s r' s'] by auto
next
  case (CqConsume t)
  have "cq_wf (r\<lparr>cq_tail_ptr := t\<rparr>) s" using assms(1) by (simp add: cq_wf_def)
  with CqConsume show ?thesis using assms(2,3) cq_pointer_law(2) [of "r\<lparr>cq_tail_ptr := t\<rparr>" s] by auto
next
  case CqArm
  then show ?thesis using assms cq_pointer_law(3) [of r s] by auto
qed

interpretation cq: hw_queue cq_hw_addr cq_buf cq_buf_dma_addr cq_active "\<lambda>s. s" cq_wf cq_step
  by unfold_locales (rule cq_step_law)

interpretation cqh: hw_pointer cq_head_ptr cq_hw_head_ptr cq_hw_ptr_mask mqnic_cq_read_head_ptr
  by unfold_locales (simp_all add: mqnic_cq_read_head_ptr_def ioread32_def Let_def)

text \<open>A queue of eight completions, for evaluating the model.\<close>

definition demo_cq :: "int \<Rightarrow> mqnic_cq_ring" where
  "demo_cq i = \<lparr>cq_mem = 0, cq_head_ptr = 0, cq_tail_ptr = 0, cq_size = 8, cq_size_mask = 7, cq_stride = 32,
     cq_buf_size = 256, cq_buf = Some 0x3000, cq_buf_dma_addr = 0x80003000, cq_index = i, cq_eq_ring = Some 0,
     cq_src_ring = Some i, cq_eq_index = 0, cq_active = True, cq_handler = Some Mqnic_rx_irq,
     cq_hw_ptr_mask = 0xffff, cq_hw_addr = 0x200000, cq_hw_head_ptr = 0x200010, cq_hw_tail_ptr = 0x200018\<rparr>"

end
