(* ===== verification/EventQueue.thy ===== *)
theory EventQueue
  imports CplQueue
begin

text \<open>
  Event queues (\<open>modules/mqnic/mqnic_eq.c\<close>): creation, allocation, activation on an interrupt, and
  the interrupt handler that walks the ring and runs the handler of the completion queue each
  event names. Reading the array of completion rings outside its bounds is \<open>None\<close>.
\<close>

section \<open>The structure\<close>

text \<open>Of an interrupt (\<open>struct mqnic_irq\<close>) the queues read the index and use its notifier chain.\<close>

record mqnic_irq =
  irq_mem :: nat
  irq_idx :: int
  irq_irqn :: int

record mqnic_eq_ring =
  eq_mem :: nat
  eq_head_ptr :: u32
  eq_tail_ptr :: u32
  eq_size :: u32
  eq_size_mask :: u32
  eq_stride :: u32
  eq_buf_size :: u64
  eq_buf :: "addr option"
  eq_buf_dma_addr :: u64
  eq_index :: int
  eq_irq :: "mqnic_irq option"
  eq_irq_index :: int
  eq_active :: bool
  eq_hw_ptr_mask :: u32
  eq_hw_addr :: addr
  eq_hw_head_ptr :: addr
  eq_hw_tail_ptr :: addr

text \<open>The part of the interface the event handler reads: counts and the arrays of rings.\<close>

record eq_interface =
  ei_tx_cpl_queue_count :: u32
  ei_tx_cpl_ring :: "mqnic_cq_ring option list"
  ei_rx_cpl_queue_count :: u32
  ei_rx_cpl_ring :: "mqnic_cq_ring option list"

definition EVENT_TYPE_TX_CPL :: u16 where "EVENT_TYPE_TX_CPL = 0x0000"
definition EVENT_TYPE_RX_CPL :: u16 where "EVENT_TYPE_RX_CPL = 0x0001"

section \<open>Operations\<close>

definition mqnic_create_eq_ring :: "int \<Rightarrow> addr \<Rightarrow> sys \<Rightarrow> int \<times> mqnic_eq_ring option \<times> sys" where
  "mqnic_create_eq_ring index hw_addr s =
    (case kzalloc s of
       (None, s) \<Rightarrow> (- ENOMEM, None, s)
     | (Some m, s) \<Rightarrow>
       let ring = \<lparr>eq_mem = m, eq_head_ptr = 0, eq_tail_ptr = 0, eq_size = 0, eq_size_mask = 0,
             eq_stride = 0, eq_buf_size = 0, eq_buf = None, eq_buf_dma_addr = 0, eq_index = index,
             eq_irq = None, eq_irq_index = 0, eq_active = False,
             eq_hw_ptr_mask = 0xffff, eq_hw_addr = hw_addr,
             eq_hw_head_ptr = hw_addr + HEAD_PTR_REG, eq_hw_tail_ptr = hw_addr + TAIL_PTR_REG\<rparr>
       in (0, Some ring, iowrite32 0 (hw_addr + ACTIVE_LOG_SIZE_REG) s))"

definition mqnic_alloc_eq_ring :: "mqnic_eq_ring \<Rightarrow> int \<Rightarrow> int \<Rightarrow> sys \<Rightarrow> int \<times> mqnic_eq_ring \<times> sys" where
  "mqnic_alloc_eq_ring ring n stride s =
    (let sz = ucast (w_roundup_pow_of_two s (word_of_int n)) :: u32;
         st = ucast (w_roundup_pow_of_two s (word_of_int stride)) :: u32;
         ring = ring\<lparr>eq_size := sz, eq_size_mask := sz - 1, eq_stride := st, eq_buf_size := ucast (sz * st)\<rparr>
     in case dma_alloc_coherent (eq_buf_size ring) s of
       (None, s) \<Rightarrow> (- ENOMEM, ring\<lparr>eq_buf := None\<rparr>, s)
     | (Some (buf, dma), s) \<Rightarrow>
       let ring = ring\<lparr>eq_buf := Some buf, eq_buf_dma_addr := dma, eq_head_ptr := 0, eq_tail_ptr := 0\<rparr>
       in (0, ring, iowrites (config_writes (eq_hw_addr ring) dma 0
             (eq_head_ptr ring AND eq_hw_ptr_mask ring) (eq_tail_ptr ring AND eq_hw_ptr_mask ring)
             (w_ilog2 s (eq_size ring))) s))"

definition mqnic_deactivate_eq_ring :: "mqnic_eq_ring \<Rightarrow> sys \<Rightarrow> mqnic_eq_ring \<times> sys" where
  "mqnic_deactivate_eq_ring ring s =
    (let s = iowrites [(w_ilog2 s (eq_size ring), eq_hw_addr ring + ACTIVE_LOG_SIZE_REG),
                       (0, eq_hw_addr ring + INDEX_REG)] s;
         s = (case eq_irq ring of None \<Rightarrow> s | Some irq \<Rightarrow> emit (NotifierUnregister (irq_idx irq) (eq_index ring)) s)
     in (ring\<lparr>eq_irq := None, eq_active := False\<rparr>, s))"

definition mqnic_free_eq_ring :: "mqnic_eq_ring \<Rightarrow> sys \<Rightarrow> mqnic_eq_ring \<times> sys" where
  "mqnic_free_eq_ring ring s =
    (case mqnic_deactivate_eq_ring ring s of (ring, s) \<Rightarrow>
       if eq_buf ring = None then (ring, s)
       else (ring\<lparr>eq_buf := None, eq_buf_dma_addr := 0\<rparr>,
             emit (DmaFree (eq_buf_dma_addr ring) (eq_buf_size ring)) s))"

definition mqnic_destroy_eq_ring :: "mqnic_eq_ring \<Rightarrow> sys \<Rightarrow> mqnic_eq_ring option \<times> sys" where
  "mqnic_destroy_eq_ring ring s =
    (case mqnic_free_eq_ring ring s of (ring, s) \<Rightarrow> (None, emit (Kfree (eq_mem ring)) s))"

definition mqnic_activate_eq_ring :: "mqnic_eq_ring \<Rightarrow> mqnic_irq option \<Rightarrow> sys \<Rightarrow> int \<times> mqnic_eq_ring \<times> sys" where
  "mqnic_activate_eq_ring ring irq s =
    (case mqnic_deactivate_eq_ring ring s of (ring, s) \<Rightarrow>
       case (eq_buf ring, irq) of
         (Some buf, Some q) \<Rightarrow>
           let ret = w_notifier_register s (trace s)
           in if ret \<noteq> 0 then (ret, ring, s)
              else
                let s = emit (NotifierRegister (irq_idx q) (eq_index ring)) s;
                    ring = ring\<lparr>eq_irq := Some q, eq_irq_index := irq_idx q\<rparr>;
                    s = iowrites (config_writes (eq_hw_addr ring) (eq_buf_dma_addr ring)
                          (word_of_int (eq_irq_index ring))
                          (eq_head_ptr ring AND eq_hw_ptr_mask ring) (eq_tail_ptr ring AND eq_hw_ptr_mask ring)
                          (w_ilog2 s (eq_size ring) OR ACTIVE_MASK)) s
                in (0, ring\<lparr>eq_active := True\<rparr>, s)
       | _ \<Rightarrow> (- EINVAL, ring, s))"

definition mqnic_is_eq_ring_empty :: "mqnic_eq_ring \<Rightarrow> bool" where
  "mqnic_is_eq_ring_empty ring \<longleftrightarrow> eq_head_ptr ring = eq_tail_ptr ring"

definition mqnic_is_eq_ring_full :: "mqnic_eq_ring \<Rightarrow> bool" where
  "mqnic_is_eq_ring_full ring \<longleftrightarrow> eq_head_ptr ring - eq_tail_ptr ring \<ge> eq_size ring"

definition mqnic_eq_read_head_ptr :: "mqnic_eq_ring \<Rightarrow> sys \<Rightarrow> mqnic_eq_ring \<times> sys" where
  "mqnic_eq_read_head_ptr ring s =
    (case ioread32 (eq_hw_head_ptr ring) s of (v, s) \<Rightarrow>
      (ring\<lparr>eq_head_ptr := eq_head_ptr ring + ((v - eq_head_ptr ring) AND eq_hw_ptr_mask ring)\<rparr>, s))"

definition mqnic_eq_write_tail_ptr :: "mqnic_eq_ring \<Rightarrow> sys \<Rightarrow> sys" where
  "mqnic_eq_write_tail_ptr ring s = iowrite32 (eq_tail_ptr ring AND eq_hw_ptr_mask ring) (eq_hw_tail_ptr ring) s"

definition mqnic_arm_eq :: "mqnic_eq_ring \<Rightarrow> sys \<Rightarrow> sys" where
  "mqnic_arm_eq ring s =
    (if \<not> eq_active ring then s
     else iowrite32 (word_of_int (eq_irq_index ring) OR ARM_MASK) (eq_hw_addr ring + INDEX_REG) s)"

section \<open>The event loop\<close>

text \<open>One event: the message of an unknown source or type is only logged.\<close>

definition eq_run_source :: "mqnic_cq_ring option list \<Rightarrow> u32 \<Rightarrow> u16 \<Rightarrow> sys \<Rightarrow> sys option" where
  "eq_run_source rings count source s =
    (if ucast source > count then Some s
     else if unat source < length rings
     then Some (case rings ! unat source of None \<Rightarrow> s | Some cq \<Rightarrow> run_cq_handler cq s)
     else None)"

definition eq_handle_event :: "eq_interface \<Rightarrow> addr \<Rightarrow> sys \<Rightarrow> sys option" where
  "eq_handle_event iface event s =
    (let type = mem16 s event; source = mem16 s (event + 2)
     in if type = EVENT_TYPE_TX_CPL then eq_run_source (ei_tx_cpl_ring iface) (ei_tx_cpl_queue_count iface) source s
        else if type = EVENT_TYPE_RX_CPL then eq_run_source (ei_rx_cpl_ring iface) (ei_rx_cpl_queue_count iface) source s
        else Some s)"

definition eq_event_addr :: "mqnic_eq_ring \<Rightarrow> addr \<Rightarrow> u32 \<Rightarrow> addr" where
  "eq_event_addr ring buf t = buf + ucast ((t AND eq_size_mask ring) * eq_stride ring)"

function eq_scan :: "mqnic_eq_ring \<Rightarrow> eq_interface \<Rightarrow> u32 \<Rightarrow> sys \<Rightarrow> (u32 \<times> sys) option" where
  "eq_scan ring iface t s =
    (if eq_head_ptr ring = t then Some (t, s)
     else do {
       buf \<leftarrow> eq_buf ring;
       s \<leftarrow> eq_handle_event iface (eq_event_addr ring buf t) s;
       eq_scan ring iface (t + 1) s })"
  by pat_completeness auto
termination
  by (relation "measure (\<lambda>(ring, _, t, _). unat (eq_head_ptr ring - t))")
    (auto simp: ptr_dist)

declare eq_scan.simps [simp del]

definition mqnic_process_eq :: "mqnic_eq_ring \<Rightarrow> eq_interface \<Rightarrow> sys \<Rightarrow> (mqnic_eq_ring \<times> sys) option" where
  "mqnic_process_eq ring iface s =
    (case mqnic_eq_read_head_ptr ring s of (ring, s) \<Rightarrow> do {
       (t, s) \<leftarrow> eq_scan ring iface (eq_tail_ptr ring) s;
       let ring = ring\<lparr>eq_tail_ptr := t\<rparr>;
       Some (ring, mqnic_eq_write_tail_ptr ring s) })"

definition mqnic_eq_int :: "mqnic_eq_ring \<Rightarrow> eq_interface \<Rightarrow> sys \<Rightarrow> (mqnic_eq_ring \<times> sys) option" where
  "mqnic_eq_int ring iface s = do {
     (ring, s) \<leftarrow> mqnic_process_eq ring iface s;
     Some (ring, mqnic_arm_eq ring s) }"


section \<open>Well-formed rings and the coupling\<close>

definition eq_wf :: "mqnic_eq_ring \<Rightarrow> sys \<Rightarrow> bool" where
  "eq_wf r s \<longleftrightarrow> pow2_lib s \<and> eq_hw_ptr_mask r = 0xffff \<and>
     eq_hw_head_ptr r = eq_hw_addr r + HEAD_PTR_REG \<and> eq_hw_tail_ptr r = eq_hw_addr r + TAIL_PTR_REG \<and>
     ring_dims (eq_size r) (eq_size_mask r)"

abbreviation eq_coupled :: "mqnic_eq_ring \<Rightarrow> sys \<Rightarrow> bool" where
  "eq_coupled r s \<equiv> coupled (eq_hw_addr r) (eq_buf r) (eq_buf_dma_addr r) (eq_active r) (trace s)"

lemma eq_wf_extends: "extends s t \<Longrightarrow> eq_wf r t = eq_wf r s"
  by (simp add: eq_wf_def extends_pow2_lib)

lemma eq_deactivate_sys:
  "mqnic_deactivate_eq_ring r s = (r', s') \<Longrightarrow> extends s s' \<and> r' = r\<lparr>eq_irq := None, eq_active := False\<rparr>"
  by (auto simp: mqnic_deactivate_eq_ring_def Let_def extends_emit extends_iowrite32 split: option.splits)

lemma eq_deactivate_coupled:
  assumes "eq_wf r s" "disciplined (eq_hw_addr r) (trace s)" "mqnic_deactivate_eq_ring r s = (r', s')"
  shows "coupled (eq_hw_addr r) (eq_buf r) (eq_buf_dma_addr r) False (trace s')" "eq_wf r s'" "eq_wf r' s'"
proof -
  have "\<not> bit (w_ilog2 s (eq_size r)) 31"
    using assms(1) ilog2_no_active by (auto simp: eq_wf_def)
  then show "coupled (eq_hw_addr r) (eq_buf r) (eq_buf_dma_addr r) False (trace s')"
    using assms(2,3)
    by (auto simp: mqnic_deactivate_eq_ring_def Let_def coupled_neutral1 coupled_off split: option.splits)
  show "eq_wf r s'" "eq_wf r' s'"
    using eq_deactivate_sys [OF assms(3)] assms(1) by (auto simp: eq_wf_extends) (simp add: eq_wf_def)
qed

lemma eq_alloc_law:
  assumes "eq_wf r s" "eq_coupled r s" "\<not> eq_active r" "0 < n" "n \<le> 2 ^ 31"
    and "mqnic_alloc_eq_ring r n st s = (e, r', s')"
  shows "eq_wf r' s' \<and> eq_hw_addr r' = eq_hw_addr r \<and> eq_coupled r' s' \<and> \<not> eq_active r' \<and>
    (e = 0 \<longrightarrow> eq_buf r' \<noteq> None \<and> n \<le> uint (eq_size r'))"
proof -
  have p: "pow2_lib s" and w: "eq_hw_ptr_mask r = 0xffff" "eq_hw_head_ptr r = eq_hw_addr r + HEAD_PTR_REG"
    "eq_hw_tail_ptr r = eq_hw_addr r + TAIL_PTR_REG" using assms(1) by (auto simp: eq_wf_def)
  note dims = roundup_dims [OF p assms(4,5)]
  have l: "\<not> bit (w_ilog2 s (ucast (w_roundup_pow_of_two s (word_of_int n)))) 31"
    using ilog2_no_active [OF p dims(1)] .
  have d: "disciplined (eq_hw_addr r) (trace s)" using assms(2) by (simp add: coupled_def)
  show ?thesis
    using assms(2,3,6) p w dims d config_off [OF _ l]
    by (auto simp: mqnic_alloc_eq_ring_def dma_alloc_coherent_def Let_def eq_wf_def coupled_def
        extends_pow2_lib [OF extends_iowrites [OF extends_emit [OF extends_refl]]] split: option.splits)
qed

lemma eq_activate_law:
  assumes "eq_wf r s" "eq_coupled r s" "mqnic_activate_eq_ring r e s = (ret, r', s')"
  shows "eq_wf r' s' \<and> eq_hw_addr r' = eq_hw_addr r \<and> eq_coupled r' s' \<and>
    (ret = 0 \<longleftrightarrow> eq_active r') \<and> (eq_active r' \<longrightarrow> eq_buf r \<noteq> None \<and> e \<noteq> None \<and> eq_irq r' = e)"
proof -
  obtain r1 s1 where d: "mqnic_deactivate_eq_ring r s = (r1, s1)" by force
  have dis: "disciplined (eq_hw_addr r) (trace s)" using assms(2) by (simp add: coupled_def)
  note c = eq_deactivate_coupled [OF assms(1) dis d] eq_deactivate_sys [OF d]
  show ?thesis
  proof (cases "eq_buf r = None \<or> e = None \<or> w_notifier_register s1 (trace s1) \<noteq> 0")
    case True
    with assms(3) d c show ?thesis
      by (auto simp: mqnic_activate_eq_ring_def Let_def split: option.splits)
  next
    case False
    then obtain b i where bi: "eq_buf r = Some b" "e = Some i" by auto
    let ?s2 = "emit (NotifierRegister (irq_idx i) (eq_index r1)) s1"
    have e: "ret = 0" "r' = r1\<lparr>eq_irq := Some i, eq_irq_index := irq_idx i, eq_active := True\<rparr>"
      "s' = iowrites (config_writes (eq_hw_addr r) (eq_buf_dma_addr r) (word_of_int (irq_idx i))
         (eq_head_ptr r1 AND eq_hw_ptr_mask r1) (eq_tail_ptr r1 AND eq_hw_ptr_mask r1)
         (w_ilog2 s1 (eq_size r1) OR ACTIVE_MASK)) ?s2"
      using assms(3) d bi c False by (simp_all add: mqnic_activate_eq_ring_def Let_def)
    have "disciplined (eq_hw_addr r) (trace ?s2)" using c by (simp add: coupled_def)
    then have k: "coupled (eq_hw_addr r) (eq_buf r) (eq_buf_dma_addr r) True (trace s')"
      unfolding e(3) by (rule config_on) (simp_all add: bi)
    have "extends s1 s'" unfolding e(3) by (intro extends_iowrites extends_emit extends_refl)
    then have "eq_wf r' s'" using c by (simp add: e(2) eq_wf_extends) (simp add: eq_wf_def extends_pow2_lib)
    with e k bi c show ?thesis by auto
  qed
qed

lemma eq_free_law:
  assumes "eq_wf r s" "eq_coupled r s" "mqnic_free_eq_ring r s = (r', s')"
  shows "eq_wf r' s' \<and> eq_hw_addr r' = eq_hw_addr r \<and> eq_coupled r' s' \<and> \<not> eq_active r' \<and> eq_buf r' = None"
proof -
  obtain r1 s1 where d: "mqnic_deactivate_eq_ring r s = (r1, s1)" by force
  have dis: "disciplined (eq_hw_addr r) (trace s)" using assms(2) by (simp add: coupled_def)
  note c = eq_deactivate_coupled [OF assms(1) dis d] eq_deactivate_sys [OF d]
  with assms(3) d show ?thesis
    by (auto simp: mqnic_free_eq_ring_def coupled_free eq_wf_def extends_pow2_lib [OF extends_emit [OF extends_refl]]
        split: if_splits)
qed

section \<open>The event loop keeps to its effects\<close>

lemma run_cq_handler_extends [simp]: "extends s (run_cq_handler cq s)"
  by (auto simp: run_cq_handler_def extends_emit split: option.splits cq_handler.splits)

text \<open>What handling an event adds to the history: at most a NAPI schedule.\<close>

definition only_schedules :: "sys \<Rightarrow> sys \<Rightarrow> bool" where
  "only_schedules s t \<longleftrightarrow> same_world s t \<and>
     (\<exists>es. trace t = es @ trace s \<and> (\<forall>e\<in>set es. \<exists>i. e = NapiSchedule i))"

lemma only_schedules_refl [simp]: "only_schedules s s"
  by (simp add: only_schedules_def)

lemma only_schedules_trans: "only_schedules r s \<Longrightarrow> only_schedules s t \<Longrightarrow> only_schedules r t"
proof -
  assume "only_schedules r s" "only_schedules s t"
  then obtain es fs where w: "same_world r s" "same_world s t" and
    e: "trace s = es @ trace r" "trace t = fs @ trace s"
      "\<forall>e\<in>set es. \<exists>i. e = NapiSchedule i" "\<forall>e\<in>set fs. \<exists>i. e = NapiSchedule i"
    unfolding only_schedules_def by blast
  then have "trace t = (fs @ es) @ trace r" "\<forall>e\<in>set (fs @ es). \<exists>i. e = NapiSchedule i" by auto
  with same_world_trans [OF w] show ?thesis unfolding only_schedules_def by blast
qed

lemma only_schedules_handler: "only_schedules s (run_cq_handler cq s)"
  by (auto simp: run_cq_handler_def only_schedules_def same_world_def emit_def split: option.splits cq_handler.splits)

lemma only_schedules_event: "eq_handle_event iface ev s = Some t \<Longrightarrow> only_schedules s t"
  by (auto simp: eq_handle_event_def eq_run_source_def Let_def only_schedules_handler
      split: if_splits option.splits)

lemma only_schedules_scan: "eq_scan r iface t s = Some (t', s') \<Longrightarrow> only_schedules s s' \<and> t' = eq_head_ptr r"
proof (induction r iface t s arbitrary: s' rule: eq_scan.induct)
  case (1 r iface t s)
  show ?case
  proof (cases "eq_head_ptr r = t")
    case True
    with "1.prems" show ?thesis by (subst (asm) eq_scan.simps) simp
  next
    case False
    with "1.prems" obtain buf s1 where
      h: "eq_buf r = Some buf" "eq_handle_event iface (eq_event_addr r buf t) s = Some s1"
         "eq_scan r iface (t + 1) s1 = Some (t', s')"
      by (subst (asm) eq_scan.simps) (auto split: bind_splits)
    from "1.IH" [OF False h(1,2,3)] only_schedules_event [OF h(2)] show ?thesis
      by (auto intro: only_schedules_trans)
  qed
qed

lemma only_schedules_extends: "only_schedules s t \<Longrightarrow> extends s t"
  by (auto simp: only_schedules_def extends_def)

lemma only_schedules_coupled: "only_schedules s t \<Longrightarrow> coupled a b d x (trace t) = coupled a b d x (trace s)"
proof -
  assume "only_schedules s t"
  then obtain es where es: "trace t = es @ trace s" "\<forall>e\<in>set es. \<exists>i. e = NapiSchedule i"
    by (auto simp: only_schedules_def)
  then have "\<forall>e\<in>set es. neutral a e" by auto
  then show ?thesis by (simp add: es(1) coupled_neutral)
qed

lemma eq_pointer_law:
  "mqnic_eq_read_head_ptr r s = (r', s') \<Longrightarrow> eq_wf r s \<Longrightarrow> eq_coupled r s \<Longrightarrow>
    eq_wf r' s' \<and> eq_hw_addr r' = eq_hw_addr r \<and> eq_coupled r' s' \<and> eq_tail_ptr r' = eq_tail_ptr r"
  "eq_wf r s \<Longrightarrow> eq_coupled r s \<Longrightarrow> eq_wf r (mqnic_eq_write_tail_ptr r s) \<and> eq_coupled r (mqnic_eq_write_tail_ptr r s)"
  "eq_wf r s \<Longrightarrow> eq_coupled r s \<Longrightarrow> eq_wf r (mqnic_arm_eq r s) \<and> eq_coupled r (mqnic_arm_eq r s)"
  by (auto simp: mqnic_eq_read_head_ptr_def ioread32_def Let_def mqnic_eq_write_tail_ptr_def mqnic_arm_eq_def eq_wf_def
      coupled_neutral1 extends_pow2_lib [OF extends_emit [OF extends_refl]]
      extends_pow2_lib [OF extends_iowrite32 [OF extends_refl]])

lemma eq_process_law:
  assumes "eq_wf r s" "eq_coupled r s" "mqnic_process_eq r iface s = Some (r', s')"
  shows "eq_wf r' s' \<and> eq_hw_addr r' = eq_hw_addr r \<and> eq_coupled r' s' \<and>
    eq_tail_ptr r' = eq_head_ptr r' \<and> r' = (fst (mqnic_eq_read_head_ptr r s))\<lparr>eq_tail_ptr := eq_tail_ptr r'\<rparr>"
proof -
  obtain r1 s1 where rd: "mqnic_eq_read_head_ptr r s = (r1, s1)" by force
  note a = eq_pointer_law(1) [OF rd assms(1,2)]
  from assms(3) rd obtain t s2 where sc: "eq_scan r1 iface (eq_tail_ptr r1) s1 = Some (t, s2)"
    and e: "r' = r1\<lparr>eq_tail_ptr := t\<rparr>" "s' = mqnic_eq_write_tail_ptr r' s2"
    by (auto simp: mqnic_process_eq_def Let_def split: bind_splits)
  note o = only_schedules_scan [OF sc]
  have "eq_wf r' s2" "eq_coupled r' s2"
    using a o e(1) by (auto simp: eq_wf_def only_schedules_coupled extends_pow2_lib [OF only_schedules_extends])
  from eq_pointer_law(2) [OF this] show ?thesis
    using a o e rd by simp
qed

datatype eq_op = EqAlloc int int | EqFree | EqActivate "mqnic_irq option" | EqDeactivate
  | EqInterrupt eq_interface

fun eq_step :: "eq_op \<Rightarrow> mqnic_eq_ring \<times> sys \<Rightarrow> mqnic_eq_ring \<times> sys" where
  "eq_step (EqAlloc n st) (r, s) =
     (if eq_active r \<or> eq_buf r \<noteq> None \<or> n < 1 \<or> n > 2 ^ 31 then (r, s) else snd (mqnic_alloc_eq_ring r n st s))"
| "eq_step EqFree (r, s) = mqnic_free_eq_ring r s"
| "eq_step (EqActivate e) (r, s) = snd (mqnic_activate_eq_ring r e s)"
| "eq_step EqDeactivate (r, s) = mqnic_deactivate_eq_ring r s"
| "eq_step (EqInterrupt iface) (r, s) = (case mqnic_eq_int r iface s of None \<Rightarrow> (r, s) | Some x \<Rightarrow> x)"

lemma eq_step_law:
  assumes "eq_wf r s" "eq_coupled r s" "eq_step x (r, s) = (r', s')"
  shows "eq_wf r' s' \<and> eq_hw_addr r' = eq_hw_addr r \<and> eq_coupled r' s'"
proof (cases x)
  case (EqAlloc n st)
  then show ?thesis
    using assms eq_alloc_law [OF assms(1,2), of n st] by (auto split: if_splits) (metis prod.collapse)+
next
  case (EqActivate e)
  then show ?thesis
    using assms eq_activate_law [OF assms(1,2), of e] by simp (metis prod.collapse)
next
  case EqFree
  then show ?thesis using assms(3) eq_free_law [OF assms(1,2), of r' s'] by auto
next
  case EqDeactivate
  then show ?thesis
    using assms eq_deactivate_coupled [OF assms(1), of r' s'] eq_deactivate_sys [of r s r' s'] by (auto simp: coupled_def)
next
  case (EqInterrupt iface)
  show ?thesis
  proof (cases "mqnic_process_eq r iface s")
    case None
    with EqInterrupt assms show ?thesis by (simp add: mqnic_eq_int_def)
  next
    case (Some x)
    then obtain r1 s1 where x: "mqnic_process_eq r iface s = Some (r1, s1)" by force
    with EqInterrupt assms eq_process_law [OF assms(1,2) x] eq_pointer_law(3) [of r1 s1] show ?thesis
      by (auto simp: mqnic_eq_int_def)
  qed
qed

interpretation eq: hw_queue eq_hw_addr eq_buf eq_buf_dma_addr eq_active "\<lambda>s. s" eq_wf eq_step
  by unfold_locales (rule eq_step_law)

interpretation eqh: hw_pointer eq_head_ptr eq_hw_head_ptr eq_hw_ptr_mask mqnic_eq_read_head_ptr
  by unfold_locales (simp_all add: mqnic_eq_read_head_ptr_def ioread32_def Let_def)


section \<open>What one pass over the ring does\<close>

text \<open>
  For a ring whose memory the device does not change during the pass, the effect of each event as a
  function of its bytes.
\<close>

definition stable_mem :: "sys \<Rightarrow> (addr \<Rightarrow> u8) \<Rightarrow> bool" where
  "stable_mem s m \<longleftrightarrow> (\<forall>tr a. w_mem8 s tr a = m a)"

definition le16 :: "(addr \<Rightarrow> u8) \<Rightarrow> addr \<Rightarrow> u16" where
  "le16 m a = ucast (m a) OR push_bit 8 (ucast (m (a + 1)))"

lemma mem16_stable: "stable_mem s m \<Longrightarrow> mem16 s a = le16 m a"
  by (simp add: mem16_def le16_def stable_mem_def)

lemma stable_mem_extends: "extends s t \<Longrightarrow> stable_mem t m = stable_mem s m"
  using extends_fields [of s t] by (simp add: stable_mem_def)

definition source_events :: "mqnic_cq_ring option list \<Rightarrow> u32 \<Rightarrow> u16 \<Rightarrow> event list" where
  "source_events rings count source =
    (if ucast source > count then []
     else case rings ! unat source of
       None \<Rightarrow> []
     | Some cq \<Rightarrow> if cq_handler cq = None then [] else [NapiSchedule (cq_index cq)])"

definition event_effects :: "eq_interface \<Rightarrow> (addr \<Rightarrow> u8) \<Rightarrow> addr \<Rightarrow> event list" where
  "event_effects iface m ev =
    (if le16 m ev = EVENT_TYPE_TX_CPL
     then source_events (ei_tx_cpl_ring iface) (ei_tx_cpl_queue_count iface) (le16 m (ev + 2))
     else if le16 m ev = EVENT_TYPE_RX_CPL
     then source_events (ei_rx_cpl_ring iface) (ei_rx_cpl_queue_count iface) (le16 m (ev + 2))
     else [])"

text \<open>The arrays are long enough for every source the code lets through.\<close>

definition iface_ok :: "eq_interface \<Rightarrow> bool" where
  "iface_ok iface \<longleftrightarrow>
     unat (ei_tx_cpl_queue_count iface) < length (ei_tx_cpl_ring iface) \<and>
     unat (ei_rx_cpl_queue_count iface) < length (ei_rx_cpl_ring iface)"

lemma source_run:
  "unat count < length rings \<Longrightarrow>
    \<exists>t. eq_run_source rings count source s = Some t \<and> trace t = source_events rings count source @ trace s \<and>
      extends s t"
  by (auto simp: eq_run_source_def source_events_def run_cq_handler_def word_less_nat_alt
      extends_emit split: option.splits cq_handler.splits)

lemma handle_run:
  assumes "iface_ok iface" "stable_mem s m"
  shows "\<exists>t. eq_handle_event iface ev s = Some t \<and> trace t = event_effects iface m ev @ trace s \<and> extends s t"
  using assms source_run
  by (auto simp: eq_handle_event_def Let_def mem16_stable event_effects_def iface_ok_def)

lemma scan_run:
  assumes "iface_ok iface" "eq_buf r = Some buf"
  shows "stable_mem s m \<Longrightarrow> \<exists>u. eq_scan r iface t s = Some (eq_head_ptr r, u) \<and> extends s u \<and>
    trace u = concat (rev (map (\<lambda>p. event_effects iface m (eq_event_addr r buf p)) (ptr_range t (eq_head_ptr r)))) @ trace s"
  using assms
proof (induction r iface t s rule: eq_scan.induct)
  case (1 r iface t s)
  show ?case
  proof (cases "eq_head_ptr r = t")
    case True
    then show ?thesis by (subst eq_scan.simps) simp
  next
    case False
    obtain v where v: "eq_handle_event iface (eq_event_addr r buf t) s = Some v"
      "trace v = event_effects iface m (eq_event_addr r buf t) @ trace s" "extends s v"
      using handle_run "1.prems" by blast
    have "stable_mem v m" using v(3) "1.prems"(1) by (simp add: stable_mem_extends)
    from "1.IH" [OF False "1.prems"(3) v(1) this "1.prems"(2,3)] obtain u where
      u: "eq_scan r iface (t + 1) v = Some (eq_head_ptr r, u)" "extends v u"
        "trace u = concat (rev (map (\<lambda>p. event_effects iface m (eq_event_addr r buf p)) (ptr_range (t + 1) (eq_head_ptr r)))) @ trace v"
      by blast
    have "eq_scan r iface t s = Some (eq_head_ptr r, u)"
      using False v(1) u(1) "1.prems"(3) by (subst eq_scan.simps) simp
    moreover have "t \<noteq> eq_head_ptr r" using False by simp
    ultimately show ?thesis
      using u v extends_trans [OF v(3) u(2)] by (auto simp: ptr_range_step)
  qed
qed

section \<open>Properties\<close>


text \<open>A freshly created ring that has been given a buffer.\<close>

definition demo_eq :: "mqnic_eq_ring" where
  "demo_eq = \<lparr>eq_mem = 0, eq_head_ptr = 0, eq_tail_ptr = 0, eq_size = 8, eq_size_mask = 7, eq_stride = 32,
     eq_buf_size = 256, eq_buf = None, eq_buf_dma_addr = 0, eq_index = 0, eq_irq = None, eq_irq_index = 0,
     eq_active = False, eq_hw_ptr_mask = 0xffff, eq_hw_addr = 0x100000, eq_hw_head_ptr = 0x100010,
     eq_hw_tail_ptr = 0x100018\<rparr>"

lemma demo_eq_wf: "eq_wf demo_eq quiet_world" "eq_coupled demo_eq quiet_world"
  using quiet_world_pow2_lib
  by (auto simp: eq_wf_def demo_eq_def ring_dims_def queue_regs coupled_def q_active_def quiet_world_def intro: exI [of _ 3])


text \<open>C16: one pass of the event handler terminates, handles exactly the events between the tail and
  the hardware's head in ring order (each schedules the completion queue it names, when that queue
  exists and has a handler), and leaves the tail at the head, telling the hardware.\<close>

theorem process_eq_in_order:
  assumes "iface_ok iface" "eq_buf r = Some buf" "stable_mem s m"
    and "mqnic_eq_read_head_ptr r s = (r1, s1)"
  shows "\<exists>u. mqnic_process_eq r iface s = Some (r1\<lparr>eq_tail_ptr := eq_head_ptr r1\<rparr>, u) \<and>
    trace u = Iowrite32 (eq_hw_tail_ptr r1) (eq_head_ptr r1 AND eq_hw_ptr_mask r1) #
      concat (rev (map (\<lambda>p. event_effects iface m (eq_event_addr r buf p)) (ptr_range (eq_tail_ptr r) (eq_head_ptr r1)))) @
      trace s1"
proof -
  have r1: "eq_buf r1 = Some buf" "eq_tail_ptr r1 = eq_tail_ptr r" "eq_event_addr r1 buf = eq_event_addr r buf"
    and st: "stable_mem s1 m"
    using assms(2-4) stable_mem_extends [of s s1]
    by (auto simp: mqnic_eq_read_head_ptr_def ioread32_def Let_def eq_event_addr_def fun_eq_iff extends_emit)
  from scan_run [OF assms(1) r1(1) st, of "eq_tail_ptr r"] obtain u where
    "eq_scan r1 iface (eq_tail_ptr r) s1 = Some (eq_head_ptr r1, u)"
    "trace u = concat (rev (map (\<lambda>p. event_effects iface m (eq_event_addr r1 buf p)) (ptr_range (eq_tail_ptr r) (eq_head_ptr r1)))) @ trace s1"
    by blast
  then show ?thesis
    using assms(4) r1 by (simp add: mqnic_process_eq_def Let_def mqnic_eq_write_tail_ptr_def)
qed

theorem process_eq_in_order_witness:
  "\<exists>u r'. mqnic_process_eq (demo_eq\<lparr>eq_buf := Some 0x1000\<rparr>)
       \<lparr>ei_tx_cpl_queue_count = 0, ei_tx_cpl_ring = [None], ei_rx_cpl_queue_count = 1,
        ei_rx_cpl_ring = [Some (demo_cq 5), None]\<rparr>
       (quiet_world\<lparr>w_ioread := (\<lambda>_ _. 2), w_mem8 := (\<lambda>_ a. if a = 0x1000 \<or> a = 0x1020 then 1 else 0)\<rparr>) = Some (r', u) \<and>
     trace u = [Iowrite32 0x100018 2, NapiSchedule 5, NapiSchedule 5, Ioread32 0x100010 2]"
proof -
  let ?s = "quiet_world\<lparr>w_ioread := (\<lambda>_ _. 2), w_mem8 := (\<lambda>_ a. if a = 0x1000 \<or> a = 0x1020 then 1 else 0)\<rparr>"
  let ?i = "\<lparr>ei_tx_cpl_queue_count = 0, ei_tx_cpl_ring = [None], ei_rx_cpl_queue_count = 1,
        ei_rx_cpl_ring = [Some (demo_cq 5), None]\<rparr>"
  let ?r = "demo_eq\<lparr>eq_buf := Some 0x1000\<rparr>"
  have rd: "mqnic_eq_read_head_ptr ?r ?s = (?r\<lparr>eq_head_ptr := 2\<rparr>, emit (Ioread32 0x100010 2) ?s)"
    by (simp add: mqnic_eq_read_head_ptr_def ioread32_def demo_eq_def)
  have p: "ptr_range 0 2 = [0, 1]" by (simp add: ptr_range_def upt_rec)
  have "iface_ok ?i" "eq_buf ?r = Some 0x1000" "stable_mem ?s (\<lambda>a. if a = 0x1000 \<or> a = 0x1020 then 1 else 0)"
    by (simp_all add: iface_ok_def stable_mem_def)
  from process_eq_in_order [OF this rd] obtain u where
    u: "mqnic_process_eq ?r ?i ?s = Some (?r\<lparr>eq_head_ptr := 2, eq_tail_ptr := 2\<rparr>, u)"
      "trace u = Iowrite32 (eq_hw_tail_ptr ?r) 2 # concat (rev (map (\<lambda>p. event_effects ?i
          (\<lambda>a. if a = 0x1000 \<or> a = 0x1020 then 1 else 0) (eq_event_addr ?r 0x1000 p)) (ptr_range (eq_tail_ptr ?r) 2))) @
        trace (emit (Ioread32 0x100010 2) ?s)"
    by (auto simp: demo_eq_def)
  have "trace u = [Iowrite32 0x100018 2, NapiSchedule 5, NapiSchedule 5, Ioread32 0x100010 2]"
    unfolding u(2) using p
    by (simp add: demo_eq_def demo_cq_def event_effects_def source_events_def
        eq_event_addr_def le16_def EVENT_TYPE_TX_CPL_def EVENT_TYPE_RX_CPL_def quiet_world_def)
  with u(1) show ?thesis by blast
qed

text \<open>The source check is off by one: when every completion ring is in use, an event whose source
  equals the count passes it and the handler reads past the end of the array (here, of 8192 rings).\<close>

theorem eq_source_check_off_by_one:
  "ei_tx_cpl_queue_count iface = 8192 \<Longrightarrow> length (ei_tx_cpl_ring iface) = 8192 \<Longrightarrow>
   mem16 s ev = EVENT_TYPE_TX_CPL \<Longrightarrow> mem16 s (ev + 2) = 8192 \<Longrightarrow> eq_handle_event iface ev s = None"
  by (simp add: eq_handle_event_def eq_run_source_def)

theorem eq_source_check_off_by_one_witness:
  "eq_handle_event \<lparr>ei_tx_cpl_queue_count = 8192, ei_tx_cpl_ring = replicate 8192 None,
      ei_rx_cpl_queue_count = 0, ei_rx_cpl_ring = []\<rparr> 0x1000
     (quiet_world\<lparr>w_mem8 := (\<lambda>_ a. if a = 0x1003 then 0x20 else 0)\<rparr>) = None"
  by (rule eq_source_check_off_by_one) (simp_all add: mem16_def EVENT_TYPE_TX_CPL_def)

end
