(* ===== verification/Ring.thy ===== *)
theory Ring
  imports CplQueue "HOL-Library.Multiset"
begin

text \<open>
  The descriptor ring both directions use (\<open>struct mqnic_ring\<close> of \<open>mqnic.h\<close>, with its transmit and
  receive bookkeeping entries), and the layout of descriptors and completions in memory
  (\<open>mqnic_hw.h\<close>). An index that does not name an entry of the bookkeeping array is \<open>None\<close> in the
  operations that use it.
\<close>

section \<open>Structures\<close>

record mqnic_tx_info =
  ti_skb :: "nat option"
  ti_dma_addr :: u64
  ti_len :: u32
  ti_frag_count :: nat
  ti_frags :: "(u64 \<times> u32) list"
  ti_ts_requested :: bool

record mqnic_rx_info =
  ri_page :: "nat option"
  ri_page_order :: u32
  ri_page_offset :: u32
  ri_dma_addr :: u64
  ri_len :: u32

record mqnic_ring =
  r_mem :: nat
  r_head_ptr :: u32
  r_bytes :: u64
  r_packets :: u64
  r_dropped_packets :: u64
  r_tx_queue :: int
  r_tail_ptr :: u32
  r_clean_tail_ptr :: u32
  r_ts_s :: u64
  r_ts_valid :: bool
  r_size :: u32
  r_full_size :: u32
  r_size_mask :: u32
  r_stride :: u32
  r_mtu :: u32
  r_page_order :: u32
  r_desc_block_size :: u32
  r_log_desc_block_size :: u32
  r_buf_size :: u64
  r_buf :: "addr option"
  r_buf_dma_addr :: u64
  r_tx_info :: "mqnic_tx_info list"
  r_rx_info :: "mqnic_rx_info list"
  r_info_mem :: "nat option"
  r_priv :: "int option"
  r_index :: int
  r_cq_ring :: "int option"
  r_active :: bool
  r_hw_ptr_mask :: u32
  r_hw_addr :: addr
  r_hw_head_ptr :: addr
  r_hw_tail_ptr :: addr

text \<open>\<open>MQNIC_MAX_FRAGS\<close>: an entry has room for one fragment less.\<close>

definition MQNIC_MAX_FRAGS :: nat where "MQNIC_MAX_FRAGS = 8"
definition MQNIC_DESC_SIZE :: u32 where "MQNIC_DESC_SIZE = 16"

definition zero_tx_info :: mqnic_tx_info where
  "zero_tx_info = \<lparr>ti_skb = None, ti_dma_addr = 0, ti_len = 0, ti_frag_count = 0,
     ti_frags = replicate (MQNIC_MAX_FRAGS - 1) (0, 0), ti_ts_requested = False\<rparr>"

definition zero_rx_info :: mqnic_rx_info where
  "zero_rx_info = \<lparr>ri_page = None, ri_page_order = 0, ri_page_offset = 0, ri_dma_addr = 0, ri_len = 0\<rparr>"

definition zero_ring :: "nat \<Rightarrow> mqnic_ring" where
  "zero_ring m = \<lparr>r_mem = m, r_head_ptr = 0, r_bytes = 0, r_packets = 0, r_dropped_packets = 0, r_tx_queue = 0,
     r_tail_ptr = 0, r_clean_tail_ptr = 0, r_ts_s = 0, r_ts_valid = False, r_size = 0, r_full_size = 0,
     r_size_mask = 0, r_stride = 0, r_mtu = 0, r_page_order = 0, r_desc_block_size = 0,
     r_log_desc_block_size = 0, r_buf_size = 0, r_buf = None, r_buf_dma_addr = 0, r_tx_info = [],
     r_rx_info = [], r_info_mem = None, r_priv = None, r_index = 0, r_cq_ring = None, r_active = False,
     r_hw_ptr_mask = 0, r_hw_addr = 0, r_hw_head_ptr = 0, r_hw_tail_ptr = 0\<rparr>"

section \<open>Descriptors and completions in memory\<close>

definition desc_tx_csum_cmd :: addr where "desc_tx_csum_cmd = 2"
definition desc_len :: addr where "desc_len = 4"
definition desc_addr :: addr where "desc_addr = 8"

definition cpl_index :: "sys \<Rightarrow> addr \<Rightarrow> u16" where "cpl_index s c = mem16 s (c + 2)"
definition cpl_len :: "sys \<Rightarrow> addr \<Rightarrow> u16" where "cpl_len s c = mem16 s (c + 4)"
definition cpl_ts_ns :: "sys \<Rightarrow> addr \<Rightarrow> u32" where "cpl_ts_ns s c = mem32 s (c + 8)"
definition cpl_ts_s :: "sys \<Rightarrow> addr \<Rightarrow> u16" where "cpl_ts_s s c = mem16 s (c + 12)"
definition cpl_rx_csum :: "sys \<Rightarrow> addr \<Rightarrow> u16" where "cpl_rx_csum s c = mem16 s (c + 14)"

text \<open>Write length and address of descriptor \<open>i\<close> of a block.\<close>

definition store_desc :: "addr \<Rightarrow> nat \<Rightarrow> u32 \<Rightarrow> u64 \<Rightarrow> sys \<Rightarrow> sys" where
  "store_desc d i len a s =
     emit (Store64 (d + of_nat (16 * i) + desc_addr) a) (emit (Store32 (d + of_nat (16 * i) + desc_len) len) s)"

section \<open>Sizing\<close>

text \<open>The block size of a stride: \<open>log_desc_block_size\<close> and the rounded \<open>desc_block_size\<close>.\<close>

definition log_block :: "sys \<Rightarrow> u32 \<Rightarrow> u32" where
  "log_block s stride =
    (let b = stride div MQNIC_DESC_SIZE in if b < 2 then 0 else w_ilog2 s (b - 1) + 1)"

definition log_size_reg :: "sys \<Rightarrow> mqnic_ring \<Rightarrow> u32" where
  "log_size_reg s ring = w_ilog2 s (r_size ring) OR push_bit 8 (r_log_desc_block_size ring)"


section \<open>Skipping finished entries\<close>

text \<open>
  The loop both completion handlers end with: the clean tail advances towards the hardware's tail
  over entries that are not \<open>busy\<close> and stops at the first that is.
\<close>

function advance_clean :: "(u32 \<Rightarrow> bool) \<Rightarrow> u32 \<Rightarrow> u32 \<Rightarrow> u32" where
  "advance_clean busy tail t =
    (if t \<noteq> tail then (if busy t then t else advance_clean busy tail (t + 1)) else t)"
  by pat_completeness auto
termination
  by (relation "measure (\<lambda>(_, tail, t). unat (tail - t))") (auto simp: ptr_dist)

declare advance_clean.simps [simp del]

lemma ptr_range_mem_last: "x \<in> set (ptr_range t h) \<Longrightarrow> unat (x - t) < unat (h - t)"
  by (auto simp: ptr_range_def unat_of_nat intro: le_less_trans [OF mod_less_eq_dividend])

lemma advance_clean_spec:
  "\<exists>k \<le> unat (tail - t). advance_clean busy tail t = t + of_nat k \<and>
    (\<forall>j<k. \<not> busy (t + of_nat j)) \<and> (k < unat (tail - t) \<longrightarrow> busy (t + of_nat k))"
proof (induction busy tail t rule: advance_clean.induct)
  case (1 busy tail t)
  show ?case
  proof (cases "t \<noteq> tail \<and> \<not> busy t")
    case False
    then have "advance_clean busy tail t = t" by (subst advance_clean.simps) auto
    with False show ?thesis by (intro exI [of _ 0]) auto
  next
    case True
    with 1 obtain k where k: "k \<le> unat (tail - (t + 1))" "advance_clean busy tail (t + 1) = t + 1 + of_nat k"
      "\<forall>j<k. \<not> busy (t + 1 + of_nat j)" "k < unat (tail - (t + 1)) \<longrightarrow> busy (t + 1 + of_nat k)" by blast
    have d: "unat (tail - t) = Suc (unat (tail - (t + 1)))" using True by (intro ptr_dist) simp
    have "\<not> busy (t + of_nat j)" if "j < Suc k" for j
      using that True k(3) by (cases j) (auto simp: add.assoc)
    moreover have "advance_clean busy tail t = advance_clean busy tail (t + 1)"
      using True by (subst advance_clean.simps) simp
    ultimately show ?thesis
      using k d by (intro exI [of _ "Suc k"]) (auto simp: add.assoc)
  qed
qed

section \<open>DMA mappings in force\<close>

text \<open>Streaming mappings the history has made and not undone (single and page mappings apart).\<close>

fun live :: "event list \<Rightarrow> (bool \<times> u64 \<times> u32) multiset" where
  "live [] = {#}"
| "live (DmaMapSingle a l # tr) = add_mset (True, a, l) (live tr)"
| "live (DmaMapPage a l # tr) = add_mset (False, a, l) (live tr)"
| "live (DmaUnmapSingle a l # tr) = live tr - {#(True, a, l)#}"
| "live (DmaUnmapPage a l # tr) = live tr - {#(False, a, l)#}"
| "live (e # tr) = live tr"

lemma live_iowrite [simp]: "live (trace (iowrite32 v a s)) = live (trace s)"
  by simp

lemma live_store_desc [simp]: "live (trace (store_desc d i len a s)) = live (trace s)"
  by (simp add: store_desc_def)

lemma extends_store_desc: "extends s t \<Longrightarrow> extends s (store_desc d i len a t)"
  by (simp add: store_desc_def extends_emit)

end
