(* ===== verification/Ptp.thy ===== *)
theory Ptp
  imports Ring
begin

text \<open>
  The PTP hardware clock (\<open>modules/mqnic/mqnic_ptp.c\<close>): completion timestamps, frequency and phase
  adjustment, reading and setting the time, periodic output. Signed 64-bit values are words; the
  kernel's \<open>timespec64\<close> arithmetic is a parameter of \<open>adjtime\<close>.
\<close>

definition PHC_REG_FEATURES :: addr where "PHC_REG_FEATURES = 0x0000"
definition PTP_CUR_SEC_L :: addr where "PTP_CUR_SEC_L = 0x0018"
definition PTP_CUR_SEC_H :: addr where "PTP_CUR_SEC_H = 0x001C"
definition PTP_GET_FNS :: addr where "PTP_GET_FNS = 0x0020"
definition PTP_GET_NS :: addr where "PTP_GET_NS = 0x0024"
definition PTP_GET_SEC_L :: addr where "PTP_GET_SEC_L = 0x0028"
definition PTP_GET_SEC_H :: addr where "PTP_GET_SEC_H = 0x002C"
definition PTP_SET_FNS :: addr where "PTP_SET_FNS = 0x0030"
definition PTP_SET_NS :: addr where "PTP_SET_NS = 0x0034"
definition PTP_SET_SEC_L :: addr where "PTP_SET_SEC_L = 0x0038"
definition PTP_SET_SEC_H :: addr where "PTP_SET_SEC_H = 0x003C"
definition PTP_PERIOD_FNS :: addr where "PTP_PERIOD_FNS = 0x0040"
definition PTP_PERIOD_NS :: addr where "PTP_PERIOD_NS = 0x0044"
definition PTP_NOM_PERIOD_FNS :: addr where "PTP_NOM_PERIOD_FNS = 0x0048"
definition PTP_NOM_PERIOD_NS :: addr where "PTP_NOM_PERIOD_NS = 0x004C"
definition PTP_ADJ_FNS :: addr where "PTP_ADJ_FNS = 0x0050"
definition PTP_ADJ_NS :: addr where "PTP_ADJ_NS = 0x0054"
definition PTP_ADJ_COUNT :: addr where "PTP_ADJ_COUNT = 0x0058"
definition PEROUT_OFFSET :: addr where "PEROUT_OFFSET = 0x80"
definition PEROUT_CTRL :: addr where "PEROUT_CTRL = 0x0000"
definition PEROUT_START_FNS :: addr where "PEROUT_START_FNS = 0x0010"
definition PEROUT_START_NS :: addr where "PEROUT_START_NS = 0x0014"
definition PEROUT_START_SEC_L :: addr where "PEROUT_START_SEC_L = 0x0018"
definition PEROUT_START_SEC_H :: addr where "PEROUT_START_SEC_H = 0x001C"
definition PEROUT_PERIOD_FNS :: addr where "PEROUT_PERIOD_FNS = 0x0020"
definition PEROUT_PERIOD_NS :: addr where "PEROUT_PERIOD_NS = 0x0024"
definition PEROUT_PERIOD_SEC_L :: addr where "PEROUT_PERIOD_SEC_L = 0x0028"
definition PEROUT_PERIOD_SEC_H :: addr where "PEROUT_PERIOD_SEC_H = 0x002C"
definition PEROUT_WIDTH_FNS :: addr where "PEROUT_WIDTH_FNS = 0x0030"
definition PEROUT_WIDTH_NS :: addr where "PEROUT_WIDTH_NS = 0x0034"
definition PEROUT_WIDTH_SEC_L :: addr where "PEROUT_WIDTH_SEC_L = 0x0038"
definition PEROUT_WIDTH_SEC_H :: addr where "PEROUT_WIDTH_SEC_H = 0x003C"

lemmas phc_regs = PHC_REG_FEATURES_def PTP_CUR_SEC_L_def PTP_CUR_SEC_H_def PTP_GET_FNS_def PTP_GET_NS_def
  PTP_GET_SEC_L_def PTP_GET_SEC_H_def PTP_SET_FNS_def PTP_SET_NS_def PTP_SET_SEC_L_def PTP_SET_SEC_H_def
  PTP_PERIOD_FNS_def PTP_PERIOD_NS_def PTP_NOM_PERIOD_FNS_def PTP_NOM_PERIOD_NS_def PTP_ADJ_FNS_def
  PTP_ADJ_NS_def PTP_ADJ_COUNT_def

lemmas perout_regs = PEROUT_OFFSET_def PEROUT_CTRL_def PEROUT_START_FNS_def PEROUT_START_NS_def
  PEROUT_START_SEC_L_def PEROUT_START_SEC_H_def PEROUT_PERIOD_FNS_def PEROUT_PERIOD_NS_def
  PEROUT_PERIOD_SEC_L_def PEROUT_PERIOD_SEC_H_def PEROUT_WIDTH_FNS_def PEROUT_WIDTH_NS_def
  PEROUT_WIDTH_SEC_L_def PEROUT_WIDTH_SEC_H_def

definition PTP_NSEC_PER_SEC :: u32 where "PTP_NSEC_PER_SEC = 1000000000"

record timespec64 =
  t64_sec :: u64
  t64_nsec :: u64

record ptp_perout_request =
  po_index :: u32
  po_start_sec :: u64
  po_start_nsec :: u32
  po_period_sec :: u64
  po_period_nsec :: u32

section \<open>Completion timestamps\<close>

text \<open>The result is the pair of seconds and nanoseconds the code passes to \<open>ktime_set\<close>.\<close>

definition mqnic_read_cpl_ts :: "addr \<Rightarrow> mqnic_ring \<Rightarrow> addr \<Rightarrow> sys \<Rightarrow> (u64 \<times> u32) \<times> mqnic_ring \<times> sys" where
  "mqnic_read_cpl_ts phc ring cpl s =
    (let ts_s = ucast (cpl_ts_s s cpl) :: u64; ts_ns = cpl_ts_ns s cpl;
         (ring, s) =
           (if \<not> r_ts_valid ring \<or> (r_ts_s ring XOR ts_s) AND 0xff00 \<noteq> 0
            then (case ioread32 (phc + PTP_CUR_SEC_L) s of (lo, s) \<Rightarrow>
                    case ioread32 (phc + PTP_CUR_SEC_H) s of (hi, s) \<Rightarrow>
                      (ring\<lparr>r_ts_s := ucast lo OR push_bit 32 (ucast hi), r_ts_valid := True\<rparr>, s))
            else (ring, s))
     in ((ts_s OR (r_ts_s ring AND 0xffffffffffffff00), ts_ns), ring, s))"

section \<open>Frequency\<close>

definition mqnic_phc_adjfine :: "addr \<Rightarrow> u64 \<Rightarrow> sys \<Rightarrow> int \<times> sys" where
  "mqnic_phc_adjfine phc scaled_ppm s =
    (let neg = (sint scaled_ppm < 0);
         scaled_ppm = (if neg then - scaled_ppm else scaled_ppm)
     in case ioread32 (phc + PTP_NOM_PERIOD_FNS) s of (fns, s) \<Rightarrow>
        case ioread32 (phc + PTP_NOM_PERIOD_NS) s of (per_ns, s) \<Rightarrow>
          let nom_per_fns = push_bit 32 (ucast per_ns) :: u64;
              nom_per_fns = (if nom_per_fns = 0 then push_bit 32 4 else nom_per_fns);
              adj = (drop_bit 16 nom_per_fns * scaled_ppm + 500000) div 1000000;
              adj = (if neg then nom_per_fns - adj else nom_per_fns + adj)
          in (0, iowrites [(ucast adj, phc + PTP_PERIOD_FNS), (ucast (drop_bit 32 adj), phc + PTP_PERIOD_NS)] s))"

section \<open>Time\<close>

definition mqnic_phc_gettime :: "addr \<Rightarrow> sys \<Rightarrow> timespec64 \<times> sys" where
  "mqnic_phc_gettime phc s =
    (case ioread32 (phc + PTP_GET_FNS) s of (_, s) \<Rightarrow>
     case ioread32 (phc + PTP_GET_NS) s of (n, s) \<Rightarrow>
     case ioread32 (phc + PTP_GET_SEC_L) s of (l, s) \<Rightarrow>
     case ioread32 (phc + PTP_GET_SEC_H) s of (h, s) \<Rightarrow>
       (\<lparr>t64_sec = ucast l OR push_bit 32 (ucast h), t64_nsec = ucast n\<rparr>, s))"

text \<open>The same with the system time taken before and after the read that latches the clock.\<close>

definition mqnic_phc_gettimex :: "addr \<Rightarrow> int \<Rightarrow> sys \<Rightarrow> timespec64 \<times> sys" where
  "mqnic_phc_gettimex phc sts s =
    (case ioread32 (phc + PTP_GET_FNS) (kvoid ''ptp_read_system_prets'' [sts] s) of (_, s) \<Rightarrow>
     case ioread32 (phc + PTP_GET_NS) (kvoid ''ptp_read_system_postts'' [sts] s) of (n, s) \<Rightarrow>
     case ioread32 (phc + PTP_GET_SEC_L) s of (l, s) \<Rightarrow>
     case ioread32 (phc + PTP_GET_SEC_H) s of (h, s) \<Rightarrow>
       (\<lparr>t64_sec = ucast l OR push_bit 32 (ucast h), t64_nsec = ucast n\<rparr>, s))"

definition mqnic_phc_settime :: "addr \<Rightarrow> timespec64 \<Rightarrow> sys \<Rightarrow> sys" where
  "mqnic_phc_settime phc ts s = iowrites
     [(0, phc + PTP_SET_FNS), (ucast (t64_nsec ts), phc + PTP_SET_NS),
      (ucast (t64_sec ts), phc + PTP_SET_SEC_L), (ucast (drop_bit 32 (t64_sec ts)), phc + PTP_SET_SEC_H)] s"

text \<open>\<open>add_ns\<close> is the kernel's \<open>timespec64_add\<close> of \<open>ns_to_timespec64\<close>.\<close>

definition mqnic_phc_adjtime :: "(timespec64 \<Rightarrow> u64 \<Rightarrow> timespec64) \<Rightarrow> addr \<Rightarrow> u64 \<Rightarrow> sys \<Rightarrow> sys" where
  "mqnic_phc_adjtime add_ns phc delta s =
    (if sint delta > 1000000000 \<or> sint delta < -1000000000
     then (case mqnic_phc_gettime phc s of (ts, s) \<Rightarrow> mqnic_phc_settime phc (add_ns ts delta) s)
     else iowrites [(0, phc + PTP_ADJ_FNS), (ucast delta, phc + PTP_ADJ_NS), (1, phc + PTP_ADJ_COUNT)] s)"

section \<open>Periodic output\<close>

text \<open>Seconds and nanoseconds of a time given with any number of nanoseconds.\<close>

definition perout_split :: "u64 \<Rightarrow> u32 \<Rightarrow> u64 \<times> u32" where
  "perout_split sec nsec =
    (let q = nsec div PTP_NSEC_PER_SEC in (ucast q + sec, nsec - q * PTP_NSEC_PER_SEC))"

definition perout_width :: "u64 \<Rightarrow> u32 \<Rightarrow> u64 \<times> u32" where
  "perout_width sec nsec =
    (drop_bit 1 sec,
     ucast (drop_bit 1 ((ucast nsec :: u64) + (if sec AND 1 \<noteq> 0 then ucast PTP_NSEC_PER_SEC else 0))))"

definition mqnic_phc_perout :: "u32 \<Rightarrow> addr \<Rightarrow> bool \<Rightarrow> ptp_perout_request \<Rightarrow> sys \<Rightarrow> int \<times> sys" where
  "mqnic_phc_perout n_per_out phc on perout s =
    (if po_index perout \<ge> n_per_out then (- EINVAL, s)
     else
       let hw = phc + PEROUT_OFFSET
       in if \<not> on then (0, iowrite32 0 (hw + PEROUT_CTRL) s)
          else
            let (start_sec, start_nsec) = perout_split (po_start_sec perout) (po_start_nsec perout);
                (period_sec, period_nsec) = perout_split (po_period_sec perout) (po_period_nsec perout);
                (width_sec, width_nsec) = perout_width period_sec period_nsec
            in (0, iowrites
                 [(0, hw + PEROUT_START_FNS), (start_nsec, hw + PEROUT_START_NS),
                  (ucast start_sec, hw + PEROUT_START_SEC_L), (ucast (drop_bit 32 start_sec), hw + PEROUT_START_SEC_H),
                  (0, hw + PEROUT_PERIOD_FNS), (period_nsec, hw + PEROUT_PERIOD_NS),
                  (ucast period_sec, hw + PEROUT_PERIOD_SEC_L), (ucast (drop_bit 32 period_sec), hw + PEROUT_PERIOD_SEC_H),
                  (0, hw + PEROUT_WIDTH_FNS), (width_nsec, hw + PEROUT_WIDTH_NS),
                  (ucast width_sec, hw + PEROUT_WIDTH_SEC_L), (ucast (drop_bit 32 width_sec), hw + PEROUT_WIDTH_SEC_H),
                  (1, hw + PEROUT_CTRL)] s))"

datatype ptp_request = Clk_req_exts | Clk_req_perout ptp_perout_request | Clk_req_pps | Clk_req_other

definition mqnic_phc_enable :: "u32 \<Rightarrow> addr \<Rightarrow> ptp_request option \<Rightarrow> bool \<Rightarrow> sys \<Rightarrow> int \<times> sys" where
  "mqnic_phc_enable n_per_out phc request on s =
    (case request of
       None \<Rightarrow> (- EINVAL, s)
     | Some Clk_req_exts \<Rightarrow> (- EINVAL, s)
     | Some (Clk_req_perout p) \<Rightarrow> mqnic_phc_perout n_per_out phc on p s
     | Some Clk_req_pps \<Rightarrow> (- EINVAL, s)
     | Some Clk_req_other \<Rightarrow> (- EINVAL, s))"

section \<open>Registration\<close>

text \<open>\<open>tai\<close> is the system clock's answer; the kernel's registration succeeds or not.\<close>

record phc_state =
  phc_registered :: bool
  phc_n_per_out :: u32

definition mqnic_register_phc :: "bool \<Rightarrow> timespec64 \<Rightarrow> addr \<Rightarrow> phc_state \<Rightarrow> sys \<Rightarrow> phc_state \<times> sys" where
  "mqnic_register_phc ok tai phc p s =
    (if phc_registered p then (p, s)
     else case ioread32 (phc + PHC_REG_FEATURES) s of (features, s) \<Rightarrow>
       let p = p\<lparr>phc_n_per_out := features AND 0xff\<rparr>
       in if \<not> ok then (p\<lparr>phc_registered := False\<rparr>, s)
          else (p\<lparr>phc_registered := True\<rparr>, mqnic_phc_settime phc tai s))"

definition mqnic_unregister_phc :: "phc_state \<Rightarrow> phc_state" where
  "mqnic_unregister_phc p = (if phc_registered p then p\<lparr>phc_registered := False\<rparr> else p)"


section \<open>Times in nanoseconds\<close>

definition time_ns :: "u64 \<times> u32 \<Rightarrow> nat" where
  "time_ns t = unat (fst t) * 1000000000 + unat (snd t)"

lemma word_even_iff: "even (x::u64) \<longleftrightarrow> even (unat x)"
  using bit_unsigned_iff [of x 0, where 'a = nat] by (simp add: bit_0)

lemma perout_split_ns:
  assumes "unat sec < 2 ^ 63"
  shows "time_ns (perout_split sec nsec) = unat sec * 1000000000 + unat nsec"
    "unat (snd (perout_split sec nsec)) < 1000000000"
    "unat (fst (perout_split sec nsec)) < 2 ^ 63 + 5"
proof -
  let ?q = "nsec div PTP_NSEC_PER_SEC"
  have n: "unat nsec < 2 ^ 32" using unsigned_less [of nsec] by simp
  have q: "unat ?q = unat nsec div 1000000000" by (simp add: PTP_NSEC_PER_SEC_def unat_div)
  have q5: "unat ?q < 5" using n by (simp add: q)
  have u: "unat (ucast ?q :: u64) = unat ?q" by (rule unat_ucast_up) simp
  have f: "unat (ucast ?q + sec :: u64) = unat ?q + unat sec"
    using q5 assms u by (subst unat_add_lem [THEN iffD1]) simp_all
  have m: "unat (?q * PTP_NSEC_PER_SEC) = unat nsec div 1000000000 * 1000000000"
  proof -
    have "unat ?q * unat PTP_NSEC_PER_SEC < 2 ^ 32"
      using n unfolding q by (simp add: PTP_NSEC_PER_SEC_def del: unat_div)
    then have "unat (?q * PTP_NSEC_PER_SEC) = unat ?q * unat PTP_NSEC_PER_SEC"
      by (subst unat_mult_lem [THEN iffD1]) simp_all
    then show ?thesis using q by (simp add: PTP_NSEC_PER_SEC_def)
  qed
  have r: "unat (nsec - ?q * PTP_NSEC_PER_SEC) = unat nsec mod 1000000000"
    using m by (subst unat_sub_le) (simp_all add: minus_div_mult_eq_mod)
  show "time_ns (perout_split sec nsec) = unat sec * 1000000000 + unat nsec"
    by (simp add: time_ns_def perout_split_def Let_def f r q)
  show "unat (snd (perout_split sec nsec)) < 1000000000" by (simp add: perout_split_def Let_def r)
  show "unat (fst (perout_split sec nsec)) < 2 ^ 63 + 5" using f q5 assms by (simp add: perout_split_def Let_def)
qed

lemma perout_width_ns:
  assumes "unat nsec < 1000000000"
  shows "time_ns (perout_width sec nsec) = (unat sec * 1000000000 + unat nsec) div 2"
    "unat (snd (perout_width sec nsec)) < 1000000000"
proof -
  let ?x = "(ucast nsec :: u64) + (if sec AND 1 \<noteq> 0 then ucast PTP_NSEC_PER_SEC else 0)"
  have u: "unat (ucast nsec :: u64) = unat nsec" "unat (ucast PTP_NSEC_PER_SEC :: u64) = 1000000000"
    by (simp_all add: unat_ucast_up PTP_NSEC_PER_SEC_def)
  have odd: "sec AND 1 \<noteq> 0 \<longleftrightarrow> odd (unat sec)"
    by (simp add: and_one_eq word_even_iff flip: odd_iff_mod_2_eq_one)
  have x: "unat ?x = unat nsec + (if odd (unat sec) then 1000000000 else 0)"
  proof -
    have "unat (ucast nsec :: u64) + unat (ucast PTP_NSEC_PER_SEC :: u64) < 2 ^ 64" using assms u by simp
    then have "unat ((ucast nsec :: u64) + ucast PTP_NSEC_PER_SEC) = unat nsec + 1000000000"
      using u by (subst unat_add_lem [THEN iffD1]) simp_all
    then show ?thesis using odd u by simp
  qed
  have d: "unat (drop_bit 1 y) = unat y div 2" for y :: u64
    using unat_div [of y 2] by (simp add: drop_bit_eq_div)
  have "unat (drop_bit 1 ?x) < 1000000000" using x assms d [of ?x] by auto
  moreover have "unat (ucast (drop_bit 1 ?x) :: u32) = unat (drop_bit 1 ?x) mod 2 ^ 32"
    by (simp add: unsigned_ucast_eq take_bit_eq_mod)
  ultimately have n: "unat (ucast (drop_bit 1 ?x) :: u32) = unat ?x div 2"
    using d [of ?x] by simp
  show "unat (snd (perout_width sec nsec)) < 1000000000"
    using n x assms by (auto simp: perout_width_def)
  have "unat sec div 2 * 1000000000 + (unat nsec + (if odd (unat sec) then 1000000000 else 0)) div 2 =
      (unat sec * 1000000000 + unat nsec) div 2"
    by (cases "odd (unat sec)") (auto elim!: oddE evenE)
  then show "time_ns (perout_width sec nsec) = (unat sec * 1000000000 + unat nsec) div 2"
    using n x d [of sec] by (simp add: time_ns_def perout_width_def)
qed

lemma word_split_join: "(ucast (ucast (x::u64) :: u32) OR push_bit 32 (ucast (ucast (drop_bit 32 x) :: u32))) = x"
  by (rule dma_split)

lemma cpl_ts_join:
  "(S::u64) AND 0xffffffffffff0000 = C AND 0xffffffffffff0000 \<Longrightarrow> (C XOR S) AND 0xff00 = 0 \<Longrightarrow>
    ((S AND 0xffff) OR (C AND 0xffffffffffffff00)) = S"
proof (rule bit_eqI)
  fix n :: nat
  assume a: "S AND 0xffffffffffff0000 = C AND 0xffffffffffff0000" "(C XOR S) AND 0xff00 = 0"
  assume "possible_bit TYPE(u64) n"
  then have n: "n < 64" by (simp add: possible_bit_word)
  have k1: "(0xffffffffffff0000 :: u64) = NOT (mask 16)" "(0xffff :: u64) = mask 16"
    "(0xffffffffffffff00 :: u64) = NOT (mask 8)" "(0xff00 :: u64) = mask 16 AND NOT (mask 8)"
    by (simp_all add: mask_eq_exp_minus_1)
  from a(1) [unfolded k1] have h: "16 \<le> n \<Longrightarrow> bit S n = bit C n"
    using n by (auto simp: bit_eq_iff bit_simps dest!: spec [of _ n])
  from a(2) [unfolded k1] have m: "8 \<le> n \<Longrightarrow> n < 16 \<Longrightarrow> bit S n = bit C n"
    using n by (auto simp: bit_eq_iff bit_simps dest!: spec [of _ n])
  show "bit ((S AND 0xffff) OR (C AND 0xffffffffffffff00)) n = bit S n"
    unfolding k1 using n h m by (auto simp: bit_simps) (metis not_le)+
qed


section \<open>Frequency adjustment in numbers\<close>

text \<open>The value written for a nominal period of \<open>p\<close> ns and a deviation of \<open>ppm\<close> (scaled by
  \<open>2 ^ 16\<close>), over the integers.\<close>

definition adj_value :: "nat \<Rightarrow> int \<Rightarrow> int" where
  "adj_value p ppm =
    (let nom = int p * 2 ^ 32; d = (int p * 2 ^ 16 * \<bar>ppm\<bar> + 500000) div 1000000
     in if ppm < 0 then nom - d else nom + d)"

lemma uint_of_int_small: "0 \<le> k \<Longrightarrow> k < 2 ^ 64 \<Longrightarrow> uint (word_of_int k :: u64) = k"
  by (simp add: uint_word_of_int)

lemma ucast_of_int: "(ucast (per::u32) :: u64) = word_of_int (uint per)"
  by (rule word_uint_eqI) (simp add: unsigned_ucast_eq uint_word_of_int take_bit_eq_mod)

lemma adj_bounds:
  fixes P A :: int
  assumes "0 < P" "P < 2 ^ 14" "0 \<le> A" "A < 2 ^ 33"
  shows "0 \<le> P * 2 ^ 16 * A + 500000" "P * 2 ^ 16 * A + 500000 < 2 ^ 64"
    "(P * 2 ^ 16 * A + 500000) div 1000000 \<le> P * 2 ^ 32"
    "P * 2 ^ 32 + (P * 2 ^ 16 * A + 500000) div 1000000 < 2 ^ 64"
proof -
  show "0 \<le> P * 2 ^ 16 * A + 500000" using assms by simp
  have "P * A \<le> P * 2 ^ 33" using assms by (intro mult_left_mono) simp_all
  then have m: "P * 2 ^ 16 * A \<le> P * 2 ^ 49" by (simp add: mult.commute mult.left_commute)
  have "P * (2::int) ^ 49 \<le> 2 ^ 14 * 2 ^ 49" using assms by (intro mult_right_mono) simp_all
  also have "\<dots> = 2 ^ 63" by simp
  finally show "P * 2 ^ 16 * A + 500000 < 2 ^ 64" using m by (simp only: power_numeral Num.pow.simps Num.sqr.simps mult_num_simps)
  have "P * 2 ^ 16 * A + 500000 \<le> P * 2 ^ 32 * 1000000"
    using m assms(1) by (simp only: power_numeral Num.pow.simps Num.sqr.simps mult_num_simps)
  then have "(P * 2 ^ 16 * A + 500000) div 1000000 \<le> P * 2 ^ 32 * 1000000 div 1000000" by (rule zdiv_mono1) simp
  then show d: "(P * 2 ^ 16 * A + 500000) div 1000000 \<le> P * 2 ^ 32" by simp
  have "P * (2::int) ^ 32 \<le> 2 ^ 14 * 2 ^ 32" using assms by (intro mult_right_mono) simp_all
  with d show "P * 2 ^ 32 + (P * 2 ^ 16 * A + 500000) div 1000000 < 2 ^ 64" by simp
qed

lemma adjfine_exact:
  fixes per :: u32 and ppm :: u64
  assumes p: "0 < uint per" "uint per < 2 ^ 14" and ppm: "\<bar>sint ppm\<bar> < 2 ^ 33"
  defines "nom \<equiv> push_bit 32 (ucast per) :: u64"
  defines "a \<equiv> (if sint ppm < 0 then - ppm else ppm)"
  defines "d \<equiv> (drop_bit 16 nom * a + 500000) div 1000000"
  shows "nom \<noteq> 0 \<and> uint (if sint ppm < 0 then nom - d else nom + d) = adj_value (nat (uint per)) (sint ppm)"
proof -
  let ?P = "uint per" and ?A = "\<bar>sint ppm\<bar>"
  have "(ucast per :: u64) = word_of_int ?P" by (rule ucast_of_int)
  then have "nom = word_of_int (?P * 2 ^ 32)" by (simp only: nom_def push_bit_eq_mult) simp
  then have nom: "uint nom = ?P * 2 ^ 32"
    using p uint_of_int_small [of "?P * 2 ^ 32"] by simp
  have nom16: "uint (drop_bit 16 nom) = ?P * 2 ^ 16"
    using nom uint_div [of nom "2 ^ 16"] by (simp add: drop_bit_eq_div)
  have "a = word_of_int ?A" by (simp add: a_def)
  then have ua: "uint a = ?A" using ppm by (simp add: uint_of_int_small)
  have B: "0 \<le> ?A" "?A < 2 ^ 33" using ppm by simp_all
  note b = adj_bounds [OF p B]
  have "word_of_int (uint (drop_bit 16 nom) * uint a + 500000) = drop_bit 16 nom * a + (500000 :: u64)"
    by (simp only: of_int_add of_int_mult word_of_int_uint of_int_numeral)
  then have "drop_bit 16 nom * a + 500000 = word_of_int (?P * 2 ^ 16 * ?A + 500000)"
    by (simp only: nom16 ua)
  then have "uint (drop_bit 16 nom * a + 500000) = ?P * 2 ^ 16 * ?A + 500000"
    using uint_of_int_small [OF b(1,2)] by simp
  then have d: "uint d = (?P * 2 ^ 16 * ?A + 500000) div 1000000"
    by (simp add: d_def uint_div)
  have n64: "uint nom + uint d < 2 ^ 64" "uint d \<le> uint nom"
    unfolding nom d using b(3,4) by simp_all
  then have "uint (nom - d) = uint nom - uint d" "uint (nom + d) = uint nom + uint d"
    using uint_sub_lem [of d nom] uint_add_lem [of nom d] by simp_all
  moreover have "nom \<noteq> 0" using nom p by auto
  ultimately show ?thesis unfolding nom d using p by (auto simp: adj_value_def Let_def)
qed


section \<open>Properties\<close>



text \<open>The channel number of a request is only compared with the number of channels: every channel
  programs, and disables, channel 0.\<close>

theorem perout_ignores_index:
  assumes "i < n" "j < n"
  shows "mqnic_phc_perout n phc on (p\<lparr>po_index := i\<rparr>) s = mqnic_phc_perout n phc on (p\<lparr>po_index := j\<rparr>) s"
proof -
  have "\<not> n \<le> i" "\<not> n \<le> j" using assms by simp_all
  then show ?thesis by (simp add: mqnic_phc_perout_def Let_def del: iowrites_Cons iowrites_Nil)
qed

theorem perout_ignores_index_witness:
  "mqnic_phc_perout 2 0x8000 False \<lparr>po_index = 0, po_start_sec = 0, po_start_nsec = 0, po_period_sec = 0, po_period_nsec = 0\<rparr> quiet_world =
   mqnic_phc_perout 2 0x8000 False \<lparr>po_index = 1, po_start_sec = 0, po_start_nsec = 0, po_period_sec = 0, po_period_nsec = 0\<rparr> quiet_world"
  using perout_ignores_index [of 0 2 1 "0x8000" False "\<lparr>po_index = 0, po_start_sec = 0, po_start_nsec = 0, po_period_sec = 0, po_period_nsec = 0\<rparr>" quiet_world]
  by simp



text \<open>C29: a completion timestamp, of which the hardware reports the low 16 bits of the seconds, is
  restored to the full 64-bit seconds whenever the cached seconds agree with it above bit 15 and the
  cache needs no refresh.\<close>

theorem read_cpl_ts_restores:
  assumes "r_ts_valid r" "r_ts_s r AND 0xffffffffffff0000 = S AND 0xffffffffffff0000"
    and "(r_ts_s r XOR S) AND 0xff00 = 0" "ucast (cpl_ts_s s c) = S AND 0xffff"
  shows "mqnic_read_cpl_ts phc r c s = ((S, cpl_ts_ns s c), r, s)"
proof -
  have "(r_ts_s r XOR (S AND 0xffff)) AND 0xff00 = (r_ts_s r XOR S) AND 0xff00"
    by (simp only: bit.conj_xor_distrib2 and.assoc) simp
  moreover have "(S AND 0xffff) OR (r_ts_s r AND 0xffffffffffffff00) = S"
    using cpl_ts_join [of S "r_ts_s r"] assms(2,3) by simp
  ultimately show ?thesis
    using assms by (simp add: mqnic_read_cpl_ts_def Let_def)
qed

theorem read_cpl_ts_restores_witness:
  "mqnic_read_cpl_ts 0x8000 ((zero_ring 0)\<lparr>r_ts_valid := True, r_ts_s := 0x1000005AB\<rparr>) 0x1000
     (quiet_world\<lparr>w_mem8 := (\<lambda>_ a. if a = 0x100C then 0x12 else if a = 0x100D then 5 else 0)\<rparr>) =
   ((0x100000512, 0), (zero_ring 0)\<lparr>r_ts_valid := True, r_ts_s := 0x1000005AB\<rparr>,
    quiet_world\<lparr>w_mem8 := (\<lambda>_ a. if a = 0x100C then 0x12 else if a = 0x100D then 5 else 0)\<rparr>)"
  using read_cpl_ts_restores [of "(zero_ring 0)\<lparr>r_ts_valid := True, r_ts_s := 0x1000005AB\<rparr>" "0x100000512"
    "quiet_world\<lparr>w_mem8 := (\<lambda>_ a. if a = 0x100C then 0x12 else if a = 0x100D then 5 else 0)\<rparr>" "0x1000" "0x8000"]
  by (simp add: cpl_ts_s_def cpl_ts_ns_def mem32_def mem16_def)

text \<open>A refresh of the cache that happens after the seconds have passed a multiple of 256 mixes the
  two: a packet stamped in second 511 and processed in second 512 is reported at second 1023.\<close>

theorem read_cpl_ts_crossing:
  "fst (fst (mqnic_read_cpl_ts 0x8000 (zero_ring 0) 0x1000
     (quiet_world\<lparr>w_ioread := (\<lambda>_ a. if a = 0x8000 + PTP_CUR_SEC_L then 512 else 0),
        w_mem8 := (\<lambda>_ a. if a = 0x100C then 0xff else if a = 0x100D then 1 else 0)\<rparr>))) = 1023"
  by (simp add: mqnic_read_cpl_ts_def Let_def zero_ring_def ioread32_def phc_regs cpl_ts_s_def mem16_def)

section \<open>Reading the clock with system times\<close>

text \<open>The device sees the accesses to its registers and nothing else.\<close>

definition reg_access :: "event \<Rightarrow> bool" where
  "reg_access e = (case e of Iowrite32 _ _ \<Rightarrow> True | Ioread32 _ _ \<Rightarrow> True | _ \<Rightarrow> False)"

definition sees_registers :: "sys \<Rightarrow> bool" where
  "sees_registers s \<longleftrightarrow> (\<forall>h a. w_ioread s h a = w_ioread s (filter reg_access h) a)"

text \<open>C37: reading the clock together with system times reads the same time with the same accesses as reading it alone,
  and the system times are taken right before and right after the access that latches it.\<close>

theorem gettimex_same_time:
  assumes "sees_registers s"
  shows "fst (mqnic_phc_gettimex phc sts s) = fst (mqnic_phc_gettime phc s) \<and>
    filter reg_access (trace (snd (mqnic_phc_gettimex phc sts s))) = filter reg_access (trace (snd (mqnic_phc_gettime phc s))) \<and>
    (\<exists>es v. trace (snd (mqnic_phc_gettimex phc sts s)) = es @ KCall ''ptp_read_system_postts'' [sts] #
      Ioread32 (phc + PTP_GET_FNS) v # KCall ''ptp_read_system_prets'' [sts] # trace s \<and> list_all reg_access es)"
proof -
  obtain f where f: "w_ioread s h a = f (filter reg_access h) a" for h a
    using assms unfolding sees_registers_def by blast
  have "reg_access (Ioread32 a v) \<and> \<not> reg_access (KCall c x)" for a v c x by (simp add: reg_access_def)
  then show ?thesis
    by (simp add: mqnic_phc_gettimex_def mqnic_phc_gettime_def ioread32_def Let_def f kvoid_def)
qed

theorem gettimex_same_time_witness:
  "fst (mqnic_phc_gettimex 0 1 quiet_world) = fst (mqnic_phc_gettime 0 quiet_world)"
proof -
  have "sees_registers quiet_world" by (simp add: sees_registers_def quiet_world_def)
  from gettimex_same_time [OF this] show ?thesis by blast
qed

end
