(* ===== verification/TxRing.thy ===== *)
theory TxRing
  imports Ptp
begin

text \<open>
  Transmission (\<open>modules/mqnic/mqnic_tx.c\<close>): life cycle of a transmit ring, mapping a packet for
  DMA, \<open>mqnic_start_xmit\<close>, freeing descriptors, completion processing and the NAPI poll routine.
  \<open>None\<close> is a null pointer or an index outside an array. The completion rings a transmit ring
  refers to live in a heap \<open>cqs\<close>, since activation and deactivation write them through the pointer.
\<close>

section \<open>Packets\<close>

record sk_buff =
  skb_id :: nat
  skb_len :: u32
  skb_data_len :: u32
  skb_frags :: "u32 list"
  skb_csum_partial :: bool
  skb_csum_start :: u32
  skb_csum_offset :: u32
  skb_queue_mapping :: u16
  skb_hw_tstamp :: bool
  skb_xmit_more :: bool

definition skb_headlen :: "sk_buff \<Rightarrow> u32" where
  "skb_headlen skb = skb_len skb - skb_data_len skb"

section \<open>Life cycle\<close>

definition mqnic_create_tx_ring :: "int \<Rightarrow> addr \<Rightarrow> sys \<Rightarrow> int \<times> mqnic_ring option \<times> sys" where
  "mqnic_create_tx_ring index hw_addr s =
    (case kzalloc s of
       (None, s) \<Rightarrow> (- ENOMEM, None, s)
     | (Some m, s) \<Rightarrow>
       let ring = (zero_ring m)\<lparr>r_index := index, r_active := False,
             r_hw_addr := hw_addr, r_hw_ptr_mask := 0xffff,
             r_hw_head_ptr := hw_addr + HEAD_PTR_REG, r_hw_tail_ptr := hw_addr + TAIL_PTR_REG,
             r_head_ptr := 0, r_tail_ptr := 0, r_clean_tail_ptr := 0\<rparr>
       in (0, Some ring, iowrite32 0 (hw_addr + ACTIVE_LOG_SIZE_REG) s))"

definition mqnic_alloc_tx_ring :: "mqnic_ring \<Rightarrow> int \<Rightarrow> int \<Rightarrow> sys \<Rightarrow> int \<times> mqnic_ring \<times> sys" where
  "mqnic_alloc_tx_ring ring n stride s =
    (if r_active ring \<or> r_buf ring \<noteq> None then (- EINVAL, ring, s)
     else
       let sz = ucast (w_roundup_pow_of_two s (word_of_int n)) :: u32;
           st = ucast (w_roundup_pow_of_two s (word_of_int stride)) :: u32;
           lb = log_block s st;
           ring = ring\<lparr>r_size := sz, r_full_size := drop_bit 1 sz, r_size_mask := sz - 1, r_stride := st,
             r_log_desc_block_size := lb, r_desc_block_size := push_bit (unat lb) 1\<rparr>
       in case kzalloc s of
         (None, s) \<Rightarrow> (- ENOMEM, ring\<lparr>r_tx_info := [], r_info_mem := None\<rparr>, s)
       | (Some m, s) \<Rightarrow>
         let ring = ring\<lparr>r_tx_info := replicate (unat sz) zero_tx_info, r_info_mem := Some m,
               r_buf_size := ucast (sz * st)\<rparr>
         in case dma_alloc_coherent (r_buf_size ring) s of
           (None, s) \<Rightarrow> (- ENOMEM, ring\<lparr>r_buf := None, r_tx_info := [], r_info_mem := None\<rparr>, emit (Kfree m) s)
         | (Some (buf, dma), s) \<Rightarrow>
           let ring = ring\<lparr>r_buf := Some buf, r_buf_dma_addr := dma, r_head_ptr := 0, r_tail_ptr := 0,
                 r_clean_tail_ptr := 0\<rparr>
           in (0, ring, iowrites (config_writes (r_hw_addr ring) dma 0
                 (r_head_ptr ring AND r_hw_ptr_mask ring) (r_tail_ptr ring AND r_hw_ptr_mask ring)
                 (log_size_reg s ring)) s))"

type_synonym cq_heap = "int \<Rightarrow> mqnic_cq_ring"

definition mqnic_deactivate_tx_ring :: "mqnic_ring \<Rightarrow> cq_heap \<Rightarrow> sys \<Rightarrow> mqnic_ring \<times> cq_heap \<times> sys" where
  "mqnic_deactivate_tx_ring ring cqs s =
    (let s = iowrite32 (log_size_reg s ring) (r_hw_addr ring + ACTIVE_LOG_SIZE_REG) s;
         cqs = (case r_cq_ring ring of
                  None \<Rightarrow> cqs
                | Some c \<Rightarrow> cqs(c := (cqs c)\<lparr>cq_src_ring := None, cq_handler := None\<rparr>))
     in (ring\<lparr>r_priv := None, r_cq_ring := None, r_active := False\<rparr>, cqs, s))"

definition mqnic_activate_tx_ring ::
    "mqnic_ring \<Rightarrow> int option \<Rightarrow> int option \<Rightarrow> cq_heap \<Rightarrow> sys \<Rightarrow> int \<times> mqnic_ring \<times> cq_heap \<times> sys" where
  "mqnic_activate_tx_ring ring priv cq cqs s =
    (case mqnic_deactivate_tx_ring ring cqs s of (ring, cqs, s) \<Rightarrow>
       case (r_buf ring, priv, cq) of
         (Some buf, Some p, Some c) \<Rightarrow>
           if cq_handler (cqs c) \<noteq> None \<or> cq_src_ring (cqs c) \<noteq> None then (- EINVAL, ring, cqs, s)
           else
             let ring = ring\<lparr>r_priv := Some p, r_cq_ring := Some c\<rparr>;
                 cqs = cqs(c := (cqs c)\<lparr>cq_src_ring := Some (r_index ring), cq_handler := Some Mqnic_tx_irq\<rparr>);
                 s = iowrites (config_writes (r_hw_addr ring) (r_buf_dma_addr ring)
                       (word_of_int (cq_index (cqs c)))
                       (r_head_ptr ring AND r_hw_ptr_mask ring) (r_tail_ptr ring AND r_hw_ptr_mask ring)
                       (log_size_reg s ring OR ACTIVE_MASK)) s
             in (0, ring\<lparr>r_active := True\<rparr>, cqs, s)
       | _ \<Rightarrow> (- EINVAL, ring, cqs, s))"

definition mqnic_is_tx_ring_empty :: "mqnic_ring \<Rightarrow> bool" where
  "mqnic_is_tx_ring_empty ring \<longleftrightarrow> r_head_ptr ring = r_clean_tail_ptr ring"

definition mqnic_is_tx_ring_full :: "mqnic_ring \<Rightarrow> bool" where
  "mqnic_is_tx_ring_full ring \<longleftrightarrow> r_head_ptr ring - r_clean_tail_ptr ring \<ge> r_full_size ring"

definition mqnic_tx_read_tail_ptr :: "mqnic_ring \<Rightarrow> sys \<Rightarrow> mqnic_ring \<times> sys" where
  "mqnic_tx_read_tail_ptr ring s =
    (case ioread32 (r_hw_tail_ptr ring) s of (v, s) \<Rightarrow>
      (ring\<lparr>r_tail_ptr := r_tail_ptr ring + ((v - r_tail_ptr ring) AND r_hw_ptr_mask ring)\<rparr>, s))"

definition mqnic_tx_write_head_ptr :: "mqnic_ring \<Rightarrow> sys \<Rightarrow> sys" where
  "mqnic_tx_write_head_ptr ring s = iowrite32 (r_head_ptr ring AND r_hw_ptr_mask ring) (r_hw_head_ptr ring) s"

section \<open>Freeing descriptors\<close>

definition unmap_frags :: "mqnic_tx_info \<Rightarrow> sys \<Rightarrow> sys" where
  "unmap_frags ti s = fold (\<lambda>(a, l). emit (DmaUnmapPage a l)) (take (ti_frag_count ti) (ti_frags ti)) s"

definition set_tx_info :: "mqnic_ring \<Rightarrow> nat \<Rightarrow> mqnic_tx_info \<Rightarrow> mqnic_ring" where
  "set_tx_info ring i ti = ring\<lparr>r_tx_info := (r_tx_info ring)[i := ti]\<rparr>"

definition mqnic_free_tx_desc :: "mqnic_ring \<Rightarrow> u32 \<Rightarrow> int \<Rightarrow> sys \<Rightarrow> (mqnic_ring \<times> sys) option" where
  "mqnic_free_tx_desc ring index napi_budget s =
    (if unat index < length (r_tx_info ring) then
       let ti = r_tx_info ring ! unat index;
           s = emit (DmaUnmapSingle (ti_dma_addr ti) (ti_len ti)) s;
           s = unmap_frags ti s;
           s = emit (SkbConsume (ti_skb ti) napi_budget) s
       in Some (set_tx_info ring (unat index) (ti\<lparr>ti_dma_addr := 0, ti_skb := None\<rparr>), s)
     else None)"

function tx_free_loop :: "mqnic_ring \<Rightarrow> int \<Rightarrow> sys \<Rightarrow> (mqnic_ring \<times> int \<times> sys) option" where
  "tx_free_loop ring cnt s =
    (if mqnic_is_tx_ring_empty ring then Some (ring, cnt, s)
     else case mqnic_free_tx_desc ring (r_clean_tail_ptr ring AND r_size_mask ring) 0 s of
       None \<Rightarrow> None
     | Some (ring', s) \<Rightarrow>
       tx_free_loop (ring\<lparr>r_tx_info := r_tx_info ring', r_clean_tail_ptr := r_clean_tail_ptr ring + 1\<rparr>) (cnt + 1) s)"
  by pat_completeness auto
termination
  by (relation "measure (\<lambda>(ring, _, _). unat (r_head_ptr ring - r_clean_tail_ptr ring))")
    (auto simp: ptr_dist mqnic_is_tx_ring_empty_def)

declare tx_free_loop.simps [simp del]

definition mqnic_free_tx_buf :: "mqnic_ring \<Rightarrow> sys \<Rightarrow> (int \<times> mqnic_ring \<times> sys) option" where
  "mqnic_free_tx_buf ring s =
    (case tx_free_loop ring 0 s of
       None \<Rightarrow> None
     | Some (ring, cnt, s) \<Rightarrow>
       Some (cnt, ring\<lparr>r_head_ptr := 0, r_tail_ptr := 0, r_clean_tail_ptr := 0\<rparr>, s))"

definition mqnic_free_tx_ring :: "mqnic_ring \<Rightarrow> cq_heap \<Rightarrow> sys \<Rightarrow> (mqnic_ring \<times> cq_heap \<times> sys) option" where
  "mqnic_free_tx_ring ring cqs s =
    (case mqnic_deactivate_tx_ring ring cqs s of (ring, cqs, s) \<Rightarrow>
       if r_buf ring = None then Some (ring, cqs, s)
       else case mqnic_free_tx_buf ring s of
         None \<Rightarrow> None
       | Some (_, ring, s) \<Rightarrow>
         let s = emit (DmaFree (r_buf_dma_addr ring) (r_buf_size ring)) s;
             s = (case r_info_mem ring of None \<Rightarrow> s | Some m \<Rightarrow> emit (Kfree m) s)
         in Some (ring\<lparr>r_buf := None, r_buf_dma_addr := 0, r_tx_info := [], r_info_mem := None\<rparr>, cqs, s))"

definition mqnic_destroy_tx_ring :: "mqnic_ring \<Rightarrow> cq_heap \<Rightarrow> sys \<Rightarrow> (cq_heap \<times> sys) option" where
  "mqnic_destroy_tx_ring ring cqs s =
    (case mqnic_free_tx_ring ring cqs s of
       None \<Rightarrow> None
     | Some (ring, cqs, s) \<Rightarrow> Some (cqs, emit (Kfree (r_mem ring)) s))"

section \<open>Mapping a packet\<close>

fun map_frags :: "u32 list \<Rightarrow> nat \<Rightarrow> addr \<Rightarrow> mqnic_tx_info \<Rightarrow> sys \<Rightarrow> (bool \<times> mqnic_tx_info \<times> sys) option" where
  "map_frags [] i d ti s = Some (True, ti, s)"
| "map_frags (len # fs) i d ti s =
    (case w_dma_map s (trace s) of
       None \<Rightarrow> Some (False, ti, s)
     | Some a \<Rightarrow>
       let s = store_desc d (i + 1) len a (emit (DmaMapPage a len) s)
       in if i < length (ti_frags ti)
          then map_frags fs (i + 1) d (ti\<lparr>ti_frag_count := i + 1, ti_frags := (ti_frags ti)[i := (a, len)]\<rparr>) s
          else None)"

definition map_error :: "mqnic_tx_info \<Rightarrow> sys \<Rightarrow> bool \<times> mqnic_tx_info \<times> sys" where
  "map_error ti s = (False, ti\<lparr>ti_skb := None, ti_frag_count := 0\<rparr>, unmap_frags ti s)"

definition zero_descs :: "addr \<Rightarrow> nat \<Rightarrow> nat \<Rightarrow> sys \<Rightarrow> sys" where
  "zero_descs d from n s = fold (\<lambda>i. store_desc d (i + 1) 0 0) [from..<n] s"

definition mqnic_map_skb :: "mqnic_ring \<Rightarrow> mqnic_tx_info \<Rightarrow> addr \<Rightarrow> sk_buff \<Rightarrow> sys \<Rightarrow> (bool \<times> mqnic_tx_info \<times> sys) option" where
  "mqnic_map_skb ring ti d skb s =
    (case map_frags (skb_frags skb) 0 d (ti\<lparr>ti_skb := Some (skb_id skb), ti_frag_count := 0\<rparr>) s of
       None \<Rightarrow> None
     | Some (False, ti, s) \<Rightarrow> Some (map_error ti s)
     | Some (True, ti, s) \<Rightarrow>
       let s = zero_descs d (ti_frag_count ti) (unat (r_desc_block_size ring - 1)) s;
           len = skb_headlen skb
       in case w_dma_map s (trace s) of
         None \<Rightarrow> Some (map_error ti s)
       | Some a \<Rightarrow>
         Some (True, ti\<lparr>ti_dma_addr := a, ti_len := len\<rparr>, store_desc d 0 len a (emit (DmaMapSingle a len) s)))"


section \<open>Sending\<close>

text \<open>
  The kernel's \<open>skb_checksum_help\<close> (does it fail) and \<open>skb_linearize\<close> (the linear packet, or
  failure) are the parameters \<open>csum_fails\<close> and \<open>linearize\<close>.
\<close>

definition IF_FEATURE_PTP_TS :: u32 where "IF_FEATURE_PTP_TS = push_bit 4 1"

definition csum_cmd :: "sk_buff \<Rightarrow> u16" where
  "csum_cmd skb = ucast ((0x8000 :: u32) OR push_bit 8 (skb_csum_offset skb) OR skb_csum_start skb)"

definition tx_drop_count :: "sk_buff \<Rightarrow> mqnic_ring \<Rightarrow> sys \<Rightarrow> mqnic_ring \<times> sys" where
  "tx_drop_count skb ring s =
    (ring\<lparr>r_dropped_packets := r_dropped_packets ring + 1\<rparr>, emit (SkbFree (skb_id skb)) s)"

text \<open>Checksum offload: \<open>None\<close> is a failed software checksum.\<close>

definition xmit_csum :: "(sk_buff \<Rightarrow> bool) \<Rightarrow> sk_buff \<Rightarrow> addr \<Rightarrow> sys \<Rightarrow> sys option" where
  "xmit_csum csum_fails skb d s =
    (if skb_csum_partial skb then
       (if skb_csum_start skb > 255 \<or> skb_csum_offset skb > 127
        then (if csum_fails skb then None else Some (emit (Store16 (d + desc_tx_csum_cmd) 0) s))
        else Some (emit (Store16 (d + desc_tx_csum_cmd) (csum_cmd skb)) s))
     else Some (emit (Store16 (d + desc_tx_csum_cmd) 0) s))"

text \<open>Too many fragments, or a very short paged part: the packet is made linear first.\<close>

definition xmit_linear :: "(sk_buff \<Rightarrow> sk_buff option) \<Rightarrow> mqnic_ring \<Rightarrow> sk_buff \<Rightarrow> sk_buff option" where
  "xmit_linear linearize ring skb =
    (if of_nat (length (skb_frags skb)) > r_desc_block_size ring - 1 \<or> (skb_data_len skb \<noteq> 0 \<and> skb_data_len skb < 32)
     then linearize skb else Some skb)"

text \<open>After a packet is mapped: count, enqueue, stop the queue when full, ring the doorbell.\<close>

definition xmit_enqueue :: "sk_buff \<Rightarrow> mqnic_ring \<Rightarrow> sys \<Rightarrow> mqnic_ring \<times> sys" where
  "xmit_enqueue skb ring s =
    (let ring = ring\<lparr>r_packets := r_packets ring + 1, r_bytes := r_bytes ring + ucast (skb_len skb),
           r_head_ptr := r_head_ptr ring + 1\<rparr>;
         s = emit (SkbTxTimestamp (skb_id skb)) s;
         stop_queue = mqnic_is_tx_ring_full ring;
         s = (if stop_queue then emit (TxQueueStop (r_tx_queue ring)) s else s);
         s = (if \<not> skb_xmit_more skb \<or> stop_queue then mqnic_tx_write_head_ptr ring s else s);
         s = (if stop_queue \<and> \<not> mqnic_is_tx_ring_full ring then emit (TxQueueWake (r_tx_queue ring)) s else s)
     in (ring, s))"

definition mqnic_xmit_ring ::
    "(sk_buff \<Rightarrow> bool) \<Rightarrow> (sk_buff \<Rightarrow> sk_buff option) \<Rightarrow> u32 \<Rightarrow> sk_buff \<Rightarrow> mqnic_ring \<Rightarrow> sys \<Rightarrow> (mqnic_ring \<times> sys) option" where
  "mqnic_xmit_ring csum_fails linearize if_features skb ring s =
    (let index = r_head_ptr ring AND r_size_mask ring in
     case r_buf ring of None \<Rightarrow> None | Some buf \<Rightarrow>
     if unat index \<ge> length (r_tx_info ring) then None
     else
       let d = buf + ucast (index * r_stride ring);
           ts = (if_features AND IF_FEATURE_PTP_TS \<noteq> 0 \<and> skb_hw_tstamp skb);
           ti = (r_tx_info ring ! unat index)\<lparr>ti_ts_requested := ts\<rparr>;
           ring = set_tx_info ring (unat index) ti;
           s = (if ts then emit (SkbTxInProgress (skb_id skb)) s else s)
       in case xmit_csum csum_fails skb d s of
            None \<Rightarrow> Some (tx_drop_count skb ring s)
          | Some s \<Rightarrow>
            (case xmit_linear linearize ring skb of
               None \<Rightarrow> Some (tx_drop_count skb ring s)
             | Some skb \<Rightarrow>
               (case mqnic_map_skb ring ti d skb s of
                  None \<Rightarrow> None
                | Some (ok, ti, s) \<Rightarrow>
                  let ring = set_tx_info ring (unat index) ti
                  in Some (if ok then xmit_enqueue skb ring s else tx_drop_count skb ring s))))"

record tx_priv =
  tp_port_up :: bool
  tp_if_features :: u32
  tp_tx_queue_count :: u32
  tp_tx_ring :: "mqnic_ring list"

definition mqnic_start_xmit ::
    "(sk_buff \<Rightarrow> bool) \<Rightarrow> (sk_buff \<Rightarrow> sk_buff option) \<Rightarrow> sk_buff \<Rightarrow> tx_priv \<Rightarrow> sys \<Rightarrow> (tx_priv \<times> sys) option" where
  "mqnic_start_xmit csum_fails linearize skb priv s =
    (if \<not> tp_port_up priv then Some (priv, emit (SkbFree (skb_id skb)) s)
     else
       let ring_index = ucast (skb_queue_mapping skb) :: u32
       in if ring_index \<ge> tp_tx_queue_count priv then Some (priv, emit (SkbFree (skb_id skb)) s)
          else if unat ring_index \<ge> length (tp_tx_ring priv) then None
          else case mqnic_xmit_ring csum_fails linearize (tp_if_features priv) skb (tp_tx_ring priv ! unat ring_index) s of
                 None \<Rightarrow> None
               | Some (ring, s) \<Rightarrow> Some (priv\<lparr>tp_tx_ring := (tp_tx_ring priv)[unat ring_index := ring]\<rparr>, s))"

section \<open>Completions\<close>

text \<open>One completion: report the hardware timestamp when one was asked for, free the descriptor.\<close>

definition tx_complete :: "addr \<Rightarrow> int \<Rightarrow> addr \<Rightarrow> mqnic_ring \<Rightarrow> sys \<Rightarrow> (mqnic_ring \<times> sys) option" where
  "tx_complete phc napi_budget cpl ring s =
    (let ring_index = ucast (cpl_index s cpl) AND r_size_mask ring in
     if unat ring_index \<ge> length (r_tx_info ring) then None
     else
       let ti = r_tx_info ring ! unat ring_index;
           (ring, s) =
             (if ti_ts_requested ti
              then (case mqnic_read_cpl_ts phc ring cpl s of
                      ((sec, nsec), ring, s) \<Rightarrow> (ring, emit (SkbTstamp (ti_skb ti) sec nsec) s))
              else (ring, s))
       in mqnic_free_tx_desc ring ring_index napi_budget s)"

definition cpl_addr :: "mqnic_cq_ring \<Rightarrow> addr \<Rightarrow> u32 \<Rightarrow> addr" where
  "cpl_addr cq buf t = buf + ucast ((t AND cq_size_mask cq) * cq_stride cq)"

function tx_cpl_loop ::
    "addr \<Rightarrow> int \<Rightarrow> mqnic_cq_ring \<Rightarrow> u32 \<Rightarrow> int \<Rightarrow> mqnic_ring \<Rightarrow> sys \<Rightarrow> (u32 \<times> int \<times> mqnic_ring \<times> sys) option" where
  "tx_cpl_loop phc budget cq t done ring s =
    (if cq_head_ptr cq \<noteq> t \<and> done < budget then do {
       buf \<leftarrow> cq_buf cq;
       (ring, s) \<leftarrow> tx_complete phc budget (cpl_addr cq buf t) ring s;
       tx_cpl_loop phc budget cq (t + 1) (done + 1) ring s }
     else Some (t, done, ring, s))"
  by pat_completeness auto
termination
  by (relation "measure (\<lambda>(_, _, cq, t, _). unat (cq_head_ptr cq - t))") (auto simp: ptr_dist)

declare tx_cpl_loop.simps [simp del]

definition tx_busy :: "mqnic_ring \<Rightarrow> u32 \<Rightarrow> bool" where
  "tx_busy ring t \<longleftrightarrow> ti_skb (r_tx_info ring ! unat (t AND r_size_mask ring)) \<noteq> None"

definition mqnic_process_tx_cq ::
    "addr \<Rightarrow> bool \<Rightarrow> mqnic_cq_ring \<Rightarrow> mqnic_ring \<Rightarrow> int \<Rightarrow> sys \<Rightarrow> (int \<times> mqnic_cq_ring \<times> mqnic_ring \<times> sys) option" where
  "mqnic_process_tx_cq phc port_up cq ring napi_budget s =
    (if r_priv ring = None \<or> \<not> port_up then Some (0, cq, ring, s)
     else case mqnic_cq_read_head_ptr cq s of (cq, s) \<Rightarrow>
       case tx_cpl_loop phc napi_budget cq (cq_tail_ptr cq) 0 ring s of
         None \<Rightarrow> None
       | Some (t, done, ring, s) \<Rightarrow>
         let cq = cq\<lparr>cq_tail_ptr := t\<rparr>;
             s = mqnic_cq_write_tail_ptr cq s
         in case mqnic_tx_read_tail_ptr ring s of (ring, s) \<Rightarrow>
           let clean = advance_clean (tx_busy ring) (r_tail_ptr ring) (r_clean_tail_ptr ring);
               ring = ring\<lparr>r_clean_tail_ptr := clean\<rparr>;
               s = (if w_queue_stopped s (trace s) (r_tx_queue ring) \<and> \<not> mqnic_is_tx_ring_full ring
                    then emit (TxQueueWake (r_tx_queue ring)) s else s)
           in Some (done, cq, ring, s))"

definition mqnic_tx_irq :: "mqnic_cq_ring \<Rightarrow> sys \<Rightarrow> sys" where
  "mqnic_tx_irq cq s = emit (NapiSchedule (cq_index cq)) s"

definition mqnic_poll_tx_cq ::
    "addr \<Rightarrow> bool \<Rightarrow> mqnic_cq_ring \<Rightarrow> mqnic_ring \<Rightarrow> int \<Rightarrow> sys \<Rightarrow> (int \<times> mqnic_cq_ring \<times> mqnic_ring \<times> sys) option" where
  "mqnic_poll_tx_cq phc port_up cq ring budget s =
    (case mqnic_process_tx_cq phc port_up cq ring budget s of
       None \<Rightarrow> None
     | Some (done, cq, ring, s) \<Rightarrow>
       if done = budget then Some (done, cq, ring, s)
       else Some (done, cq, ring, mqnic_arm_cq cq (emit (NapiComplete (cq_index cq)) s)))"


section \<open>Mapping and unmapping balance\<close>

definition page_maps :: "(u64 \<times> u32) list \<Rightarrow> (bool \<times> u64 \<times> u32) multiset" where
  "page_maps xs = mset (map (\<lambda>(a, l). (False, a, l)) xs)"

lemma page_maps_simps [simp]:
  "page_maps [] = {#}" "page_maps ((a, l) # xs) = add_mset (False, a, l) (page_maps xs)"
  "page_maps (xs @ ys) = page_maps xs + page_maps ys"
  by (simp_all add: page_maps_def)

lemma unmap_list_live:
  "live (trace (fold (\<lambda>(a, l). emit (DmaUnmapPage a l)) xs s)) = live (trace s) - page_maps xs"
proof (induction xs arbitrary: s)
  case (Cons x xs)
  obtain a l where "x = (a, l)" by force
  with Cons show ?case by simp
qed simp

lemma unmap_frags_live:
  "live (trace (unmap_frags ti s)) = live (trace s) - page_maps (take (ti_frag_count ti) (ti_frags ti))"
  by (simp add: unmap_frags_def unmap_list_live)

lemma zero_descs_live [simp]: "live (trace (zero_descs d i n s)) = live (trace s)"
proof -
  have "live (trace (fold (\<lambda>i. store_desc d (i + 1) 0 0) xs s)) = live (trace s)" for xs
    by (induction xs arbitrary: s) auto
  then show ?thesis by (simp add: zero_descs_def)
qed

text \<open>Mapping fragments from the \<open>i\<close>-th on: everything mapped is recorded in the entry.\<close>

lemma map_frags_spec:
  "map_frags fs i d ti s = Some (ok, ti', s') \<Longrightarrow> ti_frag_count ti = i \<Longrightarrow> i \<le> length (ti_frags ti) \<Longrightarrow>
    i \<le> ti_frag_count ti' \<and> ti_frag_count ti' \<le> length (ti_frags ti') \<and>
    length (ti_frags ti') = length (ti_frags ti) \<and> ti_skb ti' = ti_skb ti \<and>
    take i (ti_frags ti') = take i (ti_frags ti) \<and>
    live (trace s') = live (trace s) + page_maps (drop i (take (ti_frag_count ti') (ti_frags ti')))"
proof (induction fs i d ti s rule: map_frags.induct)
  case (2 len fs i d ti s)
  show ?case
  proof (cases "w_dma_map s (trace s)")
    case None
    with 2 show ?thesis by auto
  next
    case (Some a)
    let ?ti = "ti\<lparr>ti_frag_count := i + 1, ti_frags := (ti_frags ti)[i := (a, len)]\<rparr>"
    let ?s = "store_desc d (i + 1) len a (emit (DmaMapPage a len) s)"
    from Some "2.prems"(1) have lt: "i < length (ti_frags ti)" and
      r: "map_frags fs (i + 1) d ?ti ?s = Some (ok, ti', s')" by (auto simp: Let_def split: if_splits)
    have IH: "i + 1 \<le> ti_frag_count ti'" "ti_frag_count ti' \<le> length (ti_frags ti')"
      "length (ti_frags ti') = length (ti_frags ti)" "ti_skb ti' = ti_skb ti"
      "take (i + 1) (ti_frags ti') = take (i + 1) ((ti_frags ti)[i := (a, len)])"
      "live (trace s') = live (trace ?s) + page_maps (drop (i + 1) (take (ti_frag_count ti') (ti_frags ti')))"
      using "2.IH" [OF Some refl lt r] lt by simp_all
    have e: "ti_frags ti' ! i = (a, len)"
      using arg_cong [OF IH(5), of "\<lambda>xs. xs ! i"] lt by simp
    have "take i (take (i + 1) (ti_frags ti')) = take i (take (i + 1) ((ti_frags ti)[i := (a, len)]))"
      using IH(5) by simp
    then have t: "take i (ti_frags ti') = take i (ti_frags ti)" by simp
    have "drop i (take (ti_frag_count ti') (ti_frags ti')) =
        (a, len) # drop (i + 1) (take (ti_frag_count ti') (ti_frags ti'))"
      using IH(1,2) lt e by (subst Cons_nth_drop_Suc [symmetric]) auto
    then show ?thesis using IH t by simp
  qed
qed auto

lemma map_frags_all:
  "map_frags fs i d ti s = Some (True, ti', s') \<Longrightarrow> ti_frag_count ti = i \<Longrightarrow> ti_frag_count ti' = i + length fs"
  by (induction fs i d ti s rule: map_frags.induct) (auto simp: Let_def split: option.splits if_splits)

lemma map_frags_defined:
  "i + length fs \<le> length (ti_frags ti) \<Longrightarrow> map_frags fs i d ti s \<noteq> None"
proof (induction fs i d ti s rule: map_frags.induct)
  case (2 len fs i d ti s)
  show ?case
  proof (cases "w_dma_map s (trace s)")
    case (Some a)
    have lt: "i < length (ti_frags ti)" using "2.prems" by simp
    with "2.IH" [OF Some refl lt] "2.prems" Some show ?thesis by (simp add: Let_def)
  qed simp
qed simp

lemma map_error_live:
  "map_error ti s = (ok, ti', s') \<Longrightarrow> \<not> ok \<and> ti_skb ti' = None \<and> length (ti_frags ti') = length (ti_frags ti) \<and>
    live (trace s') = live (trace s) - page_maps (take (ti_frag_count ti) (ti_frags ti))"
  by (auto simp: map_error_def unmap_frags_live)

text \<open>A packet that could not be mapped leaves no mapping behind; one that was leaves exactly those
  its entry records.\<close>

lemma map_skb_live:
  assumes "mqnic_map_skb ring ti d skb s = Some (ok, ti', s')"
  shows "if ok then ti_skb ti' = Some (skb_id skb) \<and>
      live (trace s') = add_mset (True, ti_dma_addr ti', ti_len ti') (live (trace s) + page_maps (take (ti_frag_count ti') (ti_frags ti')))
    else ti_skb ti' = None \<and> live (trace s') = live (trace s)"
    and "length (ti_frags ti') = length (ti_frags ti)"
proof -
  let ?ti0 = "ti\<lparr>ti_skb := Some (skb_id skb), ti_frag_count := 0\<rparr>"
  from assms obtain ok1 ti1 s1 where m: "map_frags (skb_frags skb) 0 d ?ti0 s = Some (ok1, ti1, s1)"
    by (auto simp: mqnic_map_skb_def split: option.splits)
  from map_frags_spec [OF m] have f: "length (ti_frags ti1) = length (ti_frags ti)" "ti_skb ti1 = Some (skb_id skb)"
    "live (trace s1) = live (trace s) + page_maps (take (ti_frag_count ti1) (ti_frags ti1))" by simp_all
  let ?P = "(if ok then ti_skb ti' = Some (skb_id skb) \<and>
      live (trace s') = add_mset (True, ti_dma_addr ti', ti_len ti') (live (trace s) + page_maps (take (ti_frag_count ti') (ti_frags ti')))
    else ti_skb ti' = None \<and> live (trace s') = live (trace s)) \<and> length (ti_frags ti') = length (ti_frags ti)"
  have ?P
  proof (cases ok1)
    case False
    with assms m have "map_error ti1 s1 = (ok, ti', s')"
      by (simp add: mqnic_map_skb_def)
    from map_error_live [OF this] f show ?thesis by simp
  next
    case True
    let ?s2 = "zero_descs d (ti_frag_count ti1) (unat (r_desc_block_size ring - 1)) s1"
    show ?thesis
    proof (cases "w_dma_map ?s2 (trace ?s2)")
      case None
      with True assms m have "map_error ti1 ?s2 = (ok, ti', s')"
        by (simp add: mqnic_map_skb_def Let_def)
      from map_error_live [OF this] f show ?thesis by simp
    next
      case (Some a)
      with True assms m f show ?thesis by (auto simp: mqnic_map_skb_def Let_def)
    qed
  qed
  then show "if ok then ti_skb ti' = Some (skb_id skb) \<and>
      live (trace s') = add_mset (True, ti_dma_addr ti', ti_len ti') (live (trace s) + page_maps (take (ti_frag_count ti') (ti_frags ti')))
    else ti_skb ti' = None \<and> live (trace s') = live (trace s)"
    "length (ti_frags ti') = length (ti_frags ti)" by simp_all
qed

lemma free_desc_live:
  "mqnic_free_tx_desc ring i b s = Some (ring', s') \<Longrightarrow>
    live (trace s') = live (trace s) - {#(True, ti_dma_addr (r_tx_info ring ! unat i), ti_len (r_tx_info ring ! unat i))#} -
      page_maps (take (ti_frag_count (r_tx_info ring ! unat i)) (ti_frags (r_tx_info ring ! unat i)))"
  by (auto simp: mqnic_free_tx_desc_def Let_def unmap_frags_live split: if_splits)


section \<open>Effects of sending on the queue registers\<close>

lemma adds_store_desc [adds_intros]: "adds a s t \<Longrightarrow> adds a s (store_desc d i l x t)"
  by (simp add: store_desc_def adds_emit)

lemma adds_unmap_frags: "adds a s (unmap_frags ti s)"
  unfolding unmap_frags_def by (rule adds_fold) (auto intro: adds_emit)

lemma adds_zero_descs: "adds a s (zero_descs d i n s)"
  unfolding zero_descs_def by (rule adds_fold) (auto intro: adds_store_desc)

lemma adds_map_frags: "map_frags fs i d ti s = Some (ok, ti', s') \<Longrightarrow> adds a s s'"
proof (induction fs i d ti s rule: map_frags.induct)
  case (2 len fs i d ti s)
  show ?case
  proof (cases "w_dma_map s (trace s)")
    case (Some x)
    let ?s = "store_desc d (i + 1) len x (emit (DmaMapPage x len) s)"
    from Some "2.prems" have lt: "i < length (ti_frags ti)" and
      r: "map_frags fs (i + 1) d (ti\<lparr>ti_frag_count := i + 1, ti_frags := (ti_frags ti)[i := (x, len)]\<rparr>) ?s = Some (ok, ti', s')"
      by (auto simp: Let_def split: if_splits)
    have "adds a s ?s" by (intro adds_intros) simp
    with "2.IH" [OF Some refl lt r] show ?thesis by (auto intro: adds_trans)
  qed (use 2 in auto)
qed auto

lemma adds_map_skb: "mqnic_map_skb ring ti d skb s = Some (ok, ti', s') \<Longrightarrow> adds a s s'"
  by (auto simp: mqnic_map_skb_def map_error_def Let_def split: option.splits bool.splits
      dest!: adds_map_frags [of _ _ _ _ _ _ _ _ a]
      intro!: adds_store_desc adds_emit adds_trans [OF adds_trans [OF _ adds_zero_descs] adds_unmap_frags]
        adds_trans [OF _ adds_unmap_frags] adds_trans [OF _ adds_zero_descs])

lemma adds_free_tx_desc: "mqnic_free_tx_desc ring i b s = Some (ring', s') \<Longrightarrow> adds a s s'"
  by (auto simp: mqnic_free_tx_desc_def Let_def split: if_splits
      intro!: adds_emit adds_trans [OF _ adds_unmap_frags])

lemma tx_free_loop_spec:
  "tx_free_loop ring cnt s = Some (ring', cnt', s') \<Longrightarrow>
    adds a s s' \<and> cnt' = cnt + int (unat (r_head_ptr ring - r_clean_tail_ptr ring)) \<and>
    (\<exists>tis. ring' = ring\<lparr>r_tx_info := tis, r_clean_tail_ptr := r_head_ptr ring\<rparr> \<and>
      length tis = length (r_tx_info ring))"
proof (induction ring cnt s rule: tx_free_loop.induct)
  case (1 ring cnt s)
  show ?case
  proof (cases "mqnic_is_tx_ring_empty ring")
    case True
    with "1.prems" show ?thesis
      by (subst (asm) tx_free_loop.simps)
        (auto simp: mqnic_is_tx_ring_empty_def intro!: exI [of _ "r_tx_info ring"])
  next
    case False
    with "1.prems" obtain r1 s1 where
      f: "mqnic_free_tx_desc ring (r_clean_tail_ptr ring AND r_size_mask ring) 0 s = Some (r1, s1)" and
      r: "tx_free_loop (ring\<lparr>r_tx_info := r_tx_info r1, r_clean_tail_ptr := r_clean_tail_ptr ring + 1\<rparr>) (cnt + 1) s1 =
        Some (ring', cnt', s')"
      by (subst (asm) tx_free_loop.simps) (auto split: option.splits)
    have len: "length (r_tx_info r1) = length (r_tx_info ring)"
      using f by (auto simp: mqnic_free_tx_desc_def set_tx_info_def Let_def split: if_splits)
    have "unat (r_head_ptr ring - r_clean_tail_ptr ring) = Suc (unat (r_head_ptr ring - (r_clean_tail_ptr ring + 1)))"
      using False by (intro ptr_dist) (auto simp: mqnic_is_tx_ring_empty_def)
    with "1.IH" [OF False f refl r] adds_free_tx_desc [OF f] len show ?thesis
      by (auto intro: adds_trans)
  qed
qed

section \<open>Well-formed transmit rings\<close>

definition tx_wf :: "mqnic_ring \<Rightarrow> cq_heap \<times> sys \<Rightarrow> bool" where
  "tx_wf r w \<longleftrightarrow> pow2_lib (snd w) \<and> r_hw_ptr_mask r = 0xffff \<and>
     r_hw_head_ptr r = r_hw_addr r + HEAD_PTR_REG \<and> r_hw_tail_ptr r = r_hw_addr r + TAIL_PTR_REG \<and>
     ring_dims (r_size r) (r_size_mask r) \<and> unat (r_log_desc_block_size r) < 32 \<and>
     (r_buf r \<noteq> None \<longrightarrow> length (r_tx_info r) = unat (r_size r))"

abbreviation tx_coupled :: "mqnic_ring \<Rightarrow> sys \<Rightarrow> bool" where
  "tx_coupled r s \<equiv> coupled (r_hw_addr r) (r_buf r) (r_buf_dma_addr r) (r_active r) (trace s)"

lemma log_size_no_active:
  assumes "pow2_lib s" "ring_dims (r_size r) (r_size_mask r)" "unat (r_log_desc_block_size r) < 32"
  shows "\<not> bit (log_size_reg s r) 31"
proof -
  have "take_bit 5 (r_log_desc_block_size r) = r_log_desc_block_size r"
    using assms(3) by (intro take_bit_small) simp
  then have "\<not> bit (r_log_desc_block_size r) 23" by (metis bit_take_bit_iff numeral_less_iff semiring_norm)
  then show ?thesis
    using ilog2_no_active [OF assms(1,2)] by (simp add: log_size_reg_def bit_or_iff bit_push_bit_iff)
qed

lemma tx_wf_extends: "extends s t \<Longrightarrow> tx_wf r (c, t) = tx_wf r (c', s)"
  by (simp add: tx_wf_def extends_pow2_lib)

lemma tx_deactivate_law:
  assumes "tx_wf r (cqs, s)" "disciplined (r_hw_addr r) (trace s)" "mqnic_deactivate_tx_ring r cqs s = (r', cqs', s')"
  shows "coupled (r_hw_addr r) (r_buf r) (r_buf_dma_addr r) False (trace s')" "extends s s'"
    "r' = r\<lparr>r_priv := None, r_cq_ring := None, r_active := False\<rparr>" "tx_wf r' (c, s')" "tx_wf r (c, s')"
proof -
  have b: "\<not> bit (log_size_reg s r) 31"
    using assms(1) log_size_no_active by (auto simp: tx_wf_def)
  then show "coupled (r_hw_addr r) (r_buf r) (r_buf_dma_addr r) False (trace s')"
    using assms(2,3) by (auto simp: mqnic_deactivate_tx_ring_def Let_def coupled_off)
  show e: "extends s s'" and r: "r' = r\<lparr>r_priv := None, r_cq_ring := None, r_active := False\<rparr>"
    using assms(3) by (auto simp: mqnic_deactivate_tx_ring_def Let_def extends_iowrite32)
  show w: "tx_wf r (c, s')" using e assms(1) tx_wf_extends by blast
  then show "tx_wf r' (c, s')" by (simp add: r tx_wf_def)
qed


lemma log_block_bound:
  assumes "pow2_lib s"
  shows "unat (log_block s st) < 32"
proof (cases "st div MQNIC_DESC_SIZE < 2")
  case False
  let ?b = "st div MQNIC_DESC_SIZE"
  have st: "unat st < 2 ^ LENGTH(32)" by (rule unsigned_less)
  have b: "unat ?b = unat st div 16" by (simp add: MQNIC_DESC_SIZE_def unat_div)
  have b1: "unat (?b - 1) = unat ?b - 1" using False by (intro unat_minus_one) auto
  have "2 \<le> unat ?b" using False by (simp add: word_less_nat_alt)
  then obtain k where k: "k < 32" "w_ilog2 s (?b - 1) = of_nat k" "2 ^ k \<le> unat (?b - 1)"
    using pow2_lib_ilog2 [OF assms, of "?b - 1"] b1 by auto
  have "(2::nat) ^ k < 2 ^ 28" using k(3) b1 b st by simp
  then have "k < 28" by (simp only: power_strict_increasing_iff)
  then have "unat (of_nat (k + 1) :: u32) < 32" by (simp add: unat_of_nat del: of_nat_add of_nat_Suc)
  then show ?thesis
    using False k(2) by (simp add: log_block_def Let_def add.commute)
qed (simp add: log_block_def Let_def)

lemma tx_alloc_law:
  assumes "tx_wf r (cqs, s)" "tx_coupled r s" "0 < n" "n \<le> 2 ^ 31"
    and "mqnic_alloc_tx_ring r n st s = (e, r', s')"
  shows "tx_wf r' (cqs, s') \<and> r_hw_addr r' = r_hw_addr r \<and> tx_coupled r' s' \<and>
    (e = 0 \<longrightarrow> r_buf r' \<noteq> None \<and> n \<le> uint (r_size r'))"
proof (cases "r_active r \<or> r_buf r \<noteq> None")
  case True
  with assms show ?thesis by (auto simp: mqnic_alloc_tx_ring_def)
next
  case False
  let ?sz = "ucast (w_roundup_pow_of_two s (word_of_int n)) :: u32"
  let ?st = "ucast (w_roundup_pow_of_two s (word_of_int st)) :: u32"
  let ?lb = "log_block s ?st"
  let ?r1 = "r\<lparr>r_size := ?sz, r_full_size := drop_bit 1 ?sz, r_size_mask := ?sz - 1, r_stride := ?st,
             r_log_desc_block_size := ?lb, r_desc_block_size := push_bit (unat ?lb) 1\<rparr>"
  have p: "pow2_lib s" and w: "r_hw_ptr_mask r = 0xffff" "r_hw_head_ptr r = r_hw_addr r + HEAD_PTR_REG"
    "r_hw_tail_ptr r = r_hw_addr r + TAIL_PTR_REG" using assms(1) by (auto simp: tx_wf_def)
  note dims = roundup_dims [OF p assms(3,4)]
  have d: "disciplined (r_hw_addr r) (trace s)" and c: "coupled (r_hw_addr r) None x False (trace s)" for x
    using assms(2) False by (auto simp: coupled_def)
  have lb: "unat ?lb < 32" by (rule log_block_bound [OF p])
  show ?thesis
  proof (cases "w_kalloc s (trace s)")
    case None
    with assms(5) False p w dims(1) c lb show ?thesis
      by (auto simp: mqnic_alloc_tx_ring_def kzalloc_def Let_def tx_wf_def)
  next
    case (Some m)
    let ?s1 = "emit (Kalloc m) s"
    have c1: "coupled (r_hw_addr r) None x False (trace ?s1)" for x using c by (simp add: coupled_neutral1)
    have p1: "pow2_lib ?s1" using p by (simp add: extends_pow2_lib [OF extends_emit [OF extends_refl]])
    show ?thesis
    proof (cases "w_dma_alloc ?s1 (trace ?s1) (ucast (?sz * ?st))")
      case None
      with assms(5) False Some p1 w dims(1) c1 lb show ?thesis
        by (auto simp: mqnic_alloc_tx_ring_def kzalloc_def dma_alloc_coherent_def Let_def tx_wf_def coupled_neutral1
            extends_pow2_lib [OF extends_emit [OF extends_refl]])
    next
      case (Some y)
      obtain buf dma where y: "y = (buf, dma)" by force
      let ?s2 = "emit (DmaAlloc dma (ucast (?sz * ?st))) ?s1"
      let ?r2 = "?r1\<lparr>r_tx_info := replicate (unat ?sz) zero_tx_info, r_info_mem := Some m,
          r_buf_size := ucast (?sz * ?st), r_buf := Some buf, r_buf_dma_addr := dma, r_head_ptr := 0, r_tail_ptr := 0,
          r_clean_tail_ptr := 0\<rparr>"
      have "mqnic_alloc_tx_ring r n st s =
          (0, ?r2, iowrites (config_writes (r_hw_addr r) dma 0 0 0 (log_size_reg ?s2 ?r2)) ?s2)"
        using False \<open>w_kalloc s (trace s) = Some m\<close> Some y
        by (simp add: mqnic_alloc_tx_ring_def kzalloc_def dma_alloc_coherent_def Let_def)
      then have e: "e = 0" "r' = ?r2" "s' = iowrites (config_writes (r_hw_addr r) dma 0 0 0 (log_size_reg ?s2 ?r2)) ?s2"
        using assms(5) by simp_all
      have p2: "pow2_lib ?s2" using p1 by (simp add: extends_pow2_lib [OF extends_emit [OF extends_refl]])
      have "\<not> bit (log_size_reg ?s2 ?r2) 31"
        by (rule log_size_no_active [OF p2]) (simp_all add: dims(1) lb)
      then have "coupled (r_hw_addr r) (Some buf) dma False (trace s')"
        unfolding e(3) by (rule config_off [rotated]) (use d in simp)
      moreover have "pow2_lib s'"
        using p2 unfolding e(3) by (simp add: extends_pow2_lib [OF extends_iowrites [OF extends_refl]])
      ultimately show ?thesis
        using False w dims lb by (simp add: e tx_wf_def)
    qed
  qed
qed

lemma tx_activate_law:
  assumes "tx_wf r (cqs, s)" "tx_coupled r s" "mqnic_activate_tx_ring r priv cq cqs s = (ret, r', cqs', s')"
  shows "tx_wf r' (cqs', s') \<and> r_hw_addr r' = r_hw_addr r \<and> tx_coupled r' s' \<and> (ret = 0 \<longleftrightarrow> r_active r')"
proof -
  obtain r1 cqs1 s1 where d: "mqnic_deactivate_tx_ring r cqs s = (r1, cqs1, s1)" by (metis prod_cases3)
  have dis: "disciplined (r_hw_addr r) (trace s)" using assms(2) by (simp add: coupled_def)
  note c = tx_deactivate_law [OF assms(1) dis d]
  show ?thesis
  proof (cases "r_buf r = None \<or> priv = None \<or> cq = None \<or> cq_handler (cqs1 (the cq)) \<noteq> None \<or> cq_src_ring (cqs1 (the cq)) \<noteq> None")
    case True
    with assms(3) d c show ?thesis
      by (auto simp: mqnic_activate_tx_ring_def Let_def split: option.splits if_splits)
  next
    case False
    then obtain b p i where bi: "r_buf r = Some b" "priv = Some p" "cq = Some i"
      "cq_handler (cqs1 i) = None" "cq_src_ring (cqs1 i) = None" by auto
    obtain x hp tp where e: "ret = 0" "r' = r1\<lparr>r_priv := Some p, r_cq_ring := Some i, r_active := True\<rparr>"
      "s' = iowrites (config_writes (r_hw_addr r) (r_buf_dma_addr r) x hp tp (log_size_reg s1 r1 OR ACTIVE_MASK)) s1"
      using assms(3) d bi c(3) by (auto simp: mqnic_activate_tx_ring_def Let_def log_size_reg_def simp del: iowrites_Cons)
    have "disciplined (r_hw_addr r) (trace s1)" using c(1) by (simp add: coupled_def)
    then have k: "coupled (r_hw_addr r) (r_buf r) (r_buf_dma_addr r) True (trace s')"
      unfolding e(3) by (rule config_on) (simp_all add: bi)
    have "extends s1 s'" unfolding e(3) by (intro extends_iowrites extends_refl)
    then have "tx_wf r1 (cqs', s')" using c(4) tx_wf_extends by blast
    then have "tx_wf r' (cqs', s')" by (simp add: e(2) tx_wf_def)
    with e k bi c show ?thesis by auto
  qed
qed

lemma tx_free_law:
  assumes "tx_wf r (cqs, s)" "tx_coupled r s" "mqnic_free_tx_ring r cqs s = Some (r', cqs', s')"
  shows "tx_wf r' (cqs', s') \<and> r_hw_addr r' = r_hw_addr r \<and> tx_coupled r' s' \<and> \<not> r_active r' \<and> r_buf r' = None"
proof -
  obtain r1 cqs1 s1 where d: "mqnic_deactivate_tx_ring r cqs s = (r1, cqs1, s1)" by (metis prod_cases3)
  have dis: "disciplined (r_hw_addr r) (trace s)" using assms(2) by (simp add: coupled_def)
  note c = tx_deactivate_law [OF assms(1) dis d]
  show ?thesis
  proof (cases "r_buf r")
    case None
    with assms(3) d c show ?thesis by (auto simp: mqnic_free_tx_ring_def)
  next
    case (Some b)
    with assms(3) d c obtain cnt r2 s2 where f: "tx_free_loop r1 0 s1 = Some (r2, cnt, s2)"
      and e: "r' = r2\<lparr>r_head_ptr := 0, r_tail_ptr := 0, r_clean_tail_ptr := 0, r_buf := None, r_buf_dma_addr := 0,
          r_tx_info := [], r_info_mem := None\<rparr>"
        "s' = (case r_info_mem r2 of None \<Rightarrow> emit (DmaFree (r_buf_dma_addr r2) (r_buf_size r2)) s2
           | Some m \<Rightarrow> emit (Kfree m) (emit (DmaFree (r_buf_dma_addr r2) (r_buf_size r2)) s2))"
      by (auto simp: mqnic_free_tx_ring_def mqnic_free_tx_buf_def Let_def split: option.splits)
    note l = tx_free_loop_spec [OF f, where a = "r_hw_addr r"]
    have k: "coupled (r_hw_addr r) (r_buf r) (r_buf_dma_addr r) False (trace s2)"
      using c(1) adds_coupled [OF conjunct1 [OF l]] by simp
    from l c(3) obtain tis where r2: "r2 = r\<lparr>r_priv := None, r_cq_ring := None, r_active := False, r_tx_info := tis,
        r_clean_tail_ptr := r_head_ptr r\<rparr>"
      by auto
    have "coupled (r_hw_addr r) None 0 False (trace s')"
      using coupled_free [OF k] by (auto simp: e(2) coupled_neutral1 split: option.splits)
    moreover have "extends s1 s2" by (rule adds_extends [OF conjunct1 [OF l]])
    then have "extends s s2" using c(2) by (rule extends_trans [rotated])
    then have "extends s s'" by (simp add: e(2) extends_emit split: option.splits)
    then have "tx_wf r (cqs', s')" using assms(1) tx_wf_extends by blast
    ultimately show ?thesis
      using r2 by (simp add: e(1) tx_wf_def)
  qed
qed


section \<open>One packet\<close>

definition skb_frees :: "nat \<Rightarrow> event list \<Rightarrow> nat" where
  "skb_frees i tr = length (filter (\<lambda>e. e = SkbFree i) tr)"

lemma skb_frees_simps [simp]:
  "skb_frees i [] = 0" "skb_frees i (SkbFree j # tr) = (if i = j then Suc (skb_frees i tr) else skb_frees i tr)"
  by (auto simp: skb_frees_def)

lemma skb_frees_other [simp]: "(\<And>j. e \<noteq> SkbFree j) \<Longrightarrow> skb_frees i (e # tr) = skb_frees i tr"
  by (simp add: skb_frees_def)

lemma frees_store_desc [simp]: "skb_frees i (trace (store_desc d k l a s)) = skb_frees i (trace s)"
  by (simp add: store_desc_def)

lemma frees_unmap_frags [simp]: "skb_frees i (trace (unmap_frags ti s)) = skb_frees i (trace s)"
proof -
  have "skb_frees i (trace (fold (\<lambda>(a, l). emit (DmaUnmapPage a l)) xs s)) = skb_frees i (trace s)" for xs
    by (induction xs arbitrary: s) auto
  then show ?thesis by (simp add: unmap_frags_def)
qed

lemma frees_zero_descs [simp]: "skb_frees i (trace (zero_descs d k n s)) = skb_frees i (trace s)"
proof -
  have "skb_frees i (trace (fold (\<lambda>i. store_desc d (i + 1) 0 0) xs s)) = skb_frees i (trace s)" for xs
    by (induction xs arbitrary: s) auto
  then show ?thesis by (simp add: zero_descs_def)
qed

lemma frees_map_frags: "map_frags fs k d ti s = Some (ok, ti', s') \<Longrightarrow> skb_frees i (trace s') = skb_frees i (trace s)"
  by (induction fs k d ti s rule: map_frags.induct) (auto simp: Let_def split: option.splits if_splits)

lemma frees_map_skb: "mqnic_map_skb ring ti d skb s = Some (ok, ti', s') \<Longrightarrow> skb_frees i (trace s') = skb_frees i (trace s)"
  by (auto simp: mqnic_map_skb_def map_error_def Let_def frees_map_frags [where i = i] split: option.splits bool.splits)

lemma xmit_csum_live: "xmit_csum f skb d s = Some s' \<Longrightarrow>
    live (trace s') = live (trace s) \<and> skb_frees i (trace s') = skb_frees i (trace s)"
  by (auto simp: xmit_csum_def split: if_splits)

lemma xmit_enqueue_effects:
  "xmit_enqueue skb ring s = (ring', s') \<Longrightarrow>
    live (trace s') = live (trace s) \<and> skb_frees i (trace s') = skb_frees i (trace s) \<and>
    ring' = ring\<lparr>r_packets := r_packets ring + 1, r_bytes := r_bytes ring + ucast (skb_len skb),
           r_head_ptr := r_head_ptr ring + 1\<rparr>"
  by (auto simp: xmit_enqueue_def Let_def mqnic_tx_write_head_ptr_def mqnic_is_tx_ring_full_def)

text \<open>Either the packet is dropped, or it is in the entry the head named and is mapped there.\<close>

definition xmit_outcome :: "sk_buff \<Rightarrow> mqnic_ring \<Rightarrow> sys \<Rightarrow> mqnic_ring \<Rightarrow> sys \<Rightarrow> bool" where
  "xmit_outcome skb ring s ring' s' \<longleftrightarrow>
    (let ti = r_tx_info ring' ! unat (r_head_ptr ring AND r_size_mask ring) in
     (r_head_ptr ring' = r_head_ptr ring \<and> r_dropped_packets ring' = r_dropped_packets ring + 1 \<and>
       skb_frees (skb_id skb) (trace s') = Suc (skb_frees (skb_id skb) (trace s)) \<and> live (trace s') = live (trace s)) \<or>
     (r_head_ptr ring' = r_head_ptr ring + 1 \<and> r_packets ring' = r_packets ring + 1 \<and>
       ti_skb ti = Some (skb_id skb) \<and>
       skb_frees (skb_id skb) (trace s') = skb_frees (skb_id skb) (trace s) \<and>
       live (trace s') = add_mset (True, ti_dma_addr ti, ti_len ti) (live (trace s) + page_maps (take (ti_frag_count ti) (ti_frags ti)))))"


text \<open>The part of \<open>mqnic_xmit_ring\<close> after the entry has been chosen.\<close>

definition xmit_from ::
    "(sk_buff \<Rightarrow> bool) \<Rightarrow> (sk_buff \<Rightarrow> sk_buff option) \<Rightarrow> sk_buff \<Rightarrow> mqnic_ring \<Rightarrow> addr \<Rightarrow> mqnic_tx_info \<Rightarrow> nat \<Rightarrow>
      sys \<Rightarrow> (mqnic_ring \<times> sys) option" where
  "xmit_from f linearize skb ring d ti i s =
    (case xmit_csum f skb d s of
       None \<Rightarrow> Some (tx_drop_count skb (set_tx_info ring i ti) s)
     | Some s \<Rightarrow>
       (case xmit_linear linearize (set_tx_info ring i ti) skb of
          None \<Rightarrow> Some (tx_drop_count skb (set_tx_info ring i ti) s)
        | Some skb \<Rightarrow>
          (case mqnic_map_skb (set_tx_info ring i ti) ti d skb s of
             None \<Rightarrow> None
           | Some (ok, ti', s) \<Rightarrow>
             Some (if ok then xmit_enqueue skb (set_tx_info (set_tx_info ring i ti) i ti') s
                   else tx_drop_count skb (set_tx_info (set_tx_info ring i ti) i ti') s))))"

lemma xmit_ring_unfold:
  assumes x: "mqnic_xmit_ring f linearize feats skb ring s = Some (ring', s')"
  obtains d ts s1 where "unat (r_head_ptr ring AND r_size_mask ring) < length (r_tx_info ring)"
    "s1 = (if ts then emit (SkbTxInProgress (skb_id skb)) s else s)"
    "xmit_from f linearize skb ring d
      ((r_tx_info ring ! unat (r_head_ptr ring AND r_size_mask ring))\<lparr>ti_ts_requested := ts\<rparr>)
      (unat (r_head_ptr ring AND r_size_mask ring)) s1 = Some (ring', s')"
proof -
  let ?i = "unat (r_head_ptr ring AND r_size_mask ring)"
  from x obtain buf where b: "r_buf ring = Some buf" "?i < length (r_tx_info ring)"
    by (auto simp: mqnic_xmit_ring_def Let_def split: option.splits if_splits)
  let ?ts = "feats AND IF_FEATURE_PTP_TS \<noteq> 0 \<and> skb_hw_tstamp skb"
  let ?d = "buf + ucast ((r_head_ptr ring AND r_size_mask ring) * r_stride ring)"
  have "mqnic_xmit_ring f linearize feats skb ring s =
      xmit_from f linearize skb ring ?d ((r_tx_info ring ! ?i)\<lparr>ti_ts_requested := ?ts\<rparr>) ?i
        (if ?ts then emit (SkbTxInProgress (skb_id skb)) s else s)"
    using b(2)
    by (simp only: mqnic_xmit_ring_def xmit_from_def Let_def b(1) option.case not_le [symmetric] if_False)
  with that [OF b(2) refl, of ?d ?ts] x show thesis by simp
qed

lemma xmit_ring_outcome:
  assumes lin: "\<And>k k'. linearize k = Some k' \<Longrightarrow> skb_id k' = skb_id k"
    and x: "mqnic_xmit_ring f linearize feats skb ring s = Some (ring', s')"
  shows "xmit_outcome skb ring s ring' s'"
proof -
  let ?i = "unat (r_head_ptr ring AND r_size_mask ring)"
  from xmit_ring_unfold [OF x] obtain d ts s1 where b: "?i < length (r_tx_info ring)"
    and s1_def: "s1 = (if ts then emit (SkbTxInProgress (skb_id skb)) s else s)"
    and x': "xmit_from f linearize skb ring d ((r_tx_info ring ! ?i)\<lparr>ti_ts_requested := ts\<rparr>) ?i s1 = Some (ring', s')" .
  define ti where "ti = (r_tx_info ring ! ?i)\<lparr>ti_ts_requested := ts\<rparr>"
  let ?r1 = "set_tx_info ring ?i ti"
  have s1: "live (trace s1) = live (trace s)" "skb_frees (skb_id skb) (trace s1) = skb_frees (skb_id skb) (trace s)"
    by (simp_all add: s1_def)
  note x' = x' [unfolded xmit_from_def, folded ti_def]
  show ?thesis
  proof (cases "xmit_csum f skb d s1")
    case None
    with x' s1 show ?thesis
      by (auto simp: tx_drop_count_def set_tx_info_def xmit_outcome_def Let_def)
  next
    case (Some s2)
    note s2 = xmit_csum_live [OF Some, of "skb_id skb"]
    show ?thesis
    proof (cases "xmit_linear linearize ?r1 skb")
      case None
      with x' s1 s2 Some show ?thesis
        by (auto simp: tx_drop_count_def set_tx_info_def xmit_outcome_def Let_def)
    next
      case (Some k)
      have k: "skb_id k = skb_id skb"
        using Some lin by (auto simp: xmit_linear_def split: if_splits)
      from x' \<open>xmit_csum f skb d s1 = Some s2\<close> Some obtain ok ti' s3 where
        m: "mqnic_map_skb ?r1 ti d k s2 = Some (ok, ti', s3)" and
        r: "(if ok then xmit_enqueue k (set_tx_info ?r1 ?i ti') s3
             else tx_drop_count k (set_tx_info ?r1 ?i ti') s3) = (ring', s')"
        by (auto split: option.splits)
      note s3 = map_skb_live [OF m] frees_map_skb [OF m, of "skb_id skb"]
      show ?thesis
      proof (cases ok)
        case False
        with r s1 s2 s3 k show ?thesis
          by (auto simp: tx_drop_count_def set_tx_info_def xmit_outcome_def Let_def)
      next
        case True
        with r have e: "xmit_enqueue k (set_tx_info ?r1 ?i ti') s3 = (ring', s')" by simp
        from xmit_enqueue_effects [OF e, of "skb_id skb"] True s1 s2 s3 k b show ?thesis
          by (auto simp: set_tx_info_def xmit_outcome_def Let_def)
      qed
    qed
  qed
qed

text \<open>No null pointer and no index out of range on a ring of the driver's making.\<close>

lemma map_skb_defined:
  "length (skb_frags skb) \<le> length (ti_frags ti) \<Longrightarrow> mqnic_map_skb ring ti d skb s \<noteq> None"
  using map_frags_defined [of 0 "skb_frags skb" "ti\<lparr>ti_skb := Some (skb_id skb), ti_frag_count := 0\<rparr>" d s]
  by (auto simp: mqnic_map_skb_def map_error_def Let_def split: option.splits bool.splits)

lemma xmit_ring_defined:
  assumes dims: "ring_dims (r_size ring) (r_size_mask ring)" and buf: "r_buf ring \<noteq> None"
    and len: "length (r_tx_info ring) = unat (r_size ring)"
    and frags: "\<forall>ti\<in>set (r_tx_info ring). length (ti_frags ti) = MQNIC_MAX_FRAGS - 1"
    and block: "0 < unat (r_desc_block_size ring)" "unat (r_desc_block_size ring) \<le> MQNIC_MAX_FRAGS"
    and lin: "\<And>k k'. linearize k = Some k' \<Longrightarrow> skb_frags k' = []"
    and short: "length (skb_frags skb) < 2 ^ 32"
  shows "mqnic_xmit_ring f linearize feats skb ring s \<noteq> None"
proof -
  let ?i = "unat (r_head_ptr ring AND r_size_mask ring)"
  have i: "?i < length (r_tx_info ring)" using ring_index_less [OF dims] len by simp
  have fl: "length (ti_frags (r_tx_info ring ! ?i)) = MQNIC_MAX_FRAGS - 1" using frags i by simp
  have one: "unat (r_desc_block_size ring - 1) = unat (r_desc_block_size ring) - 1"
    using block(1) by (intro unat_minus_one) auto
  have k: "length (skb_frags k) \<le> MQNIC_MAX_FRAGS - 1" if "xmit_linear linearize ring' skb = Some k"
    "r_desc_block_size ring' = r_desc_block_size ring" for k ring'
  proof (cases "of_nat (length (skb_frags skb)) > r_desc_block_size ring - 1 \<or> (skb_data_len skb \<noteq> 0 \<and> skb_data_len skb < 32)")
    case True
    with that lin show ?thesis by (auto simp: xmit_linear_def)
  next
    case False
    with that have "k = skb" by (auto simp: xmit_linear_def)
    moreover have "unat (of_nat (length (skb_frags skb)) :: u32) = length (skb_frags skb)"
      using short by (simp add: unat_of_nat)
    ultimately show ?thesis
      using False one block by (auto simp: word_less_nat_alt)
  qed
  have kk: "\<exists>y. mqnic_map_skb r ((r_tx_info ring ! ?i)\<lparr>ti_ts_requested := ts\<rparr>) d k s = Some y"
    if "xmit_linear linearize (set_tx_info ring j u) skb = Some k" for r ts d k s j u
    using k [OF that] fl map_skb_defined [of k "(r_tx_info ring ! ?i)\<lparr>ti_ts_requested := ts\<rparr>" r d s]
    by (simp add: set_tx_info_def)
  show ?thesis
  proof
    assume "mqnic_xmit_ring f linearize feats skb ring s = None"
    then show False
      using i fl buf by (auto simp: mqnic_xmit_ring_def Let_def split: option.splits if_splits) (metis kk option.distinct(1))+
  qed
qed


section \<open>Completion processing\<close>

definition count_ev :: "(event \<Rightarrow> bool) \<Rightarrow> event list \<Rightarrow> nat" where
  "count_ev P tr = length (filter P tr)"

fun is_consume :: "event \<Rightarrow> bool" where
  "is_consume (SkbConsume i b) = True" | "is_consume _ = False"

fun is_napi_complete :: "event \<Rightarrow> bool" where
  "is_napi_complete (NapiComplete i) = True" | "is_napi_complete _ = False"

lemma count_ev_Cons [simp]: "count_ev P (e # tr) = (if P e then Suc (count_ev P tr) else count_ev P tr)"
  by (simp add: count_ev_def)

lemma count_unmap_frags: "(\<And>a l. \<not> P (DmaUnmapPage a l)) \<Longrightarrow>
    count_ev P (trace (unmap_frags ti s)) = count_ev P (trace s)"
proof -
  assume p: "\<And>a l. \<not> P (DmaUnmapPage a l)"
  have "count_ev P (trace (fold (\<lambda>(a, l). emit (DmaUnmapPage a l)) xs s)) = count_ev P (trace s)" for xs
    using p by (induction xs arbitrary: s) auto
  then show ?thesis by (simp add: unmap_frags_def)
qed

text \<open>Freeing a descriptor touches one entry of the ring and nothing else of it.\<close>

definition same_but_info :: "mqnic_ring \<Rightarrow> mqnic_ring \<Rightarrow> bool" where
  "same_but_info r r' \<longleftrightarrow> length (r_tx_info r') = length (r_tx_info r) \<and>
     r_head_ptr r' = r_head_ptr r \<and> r_clean_tail_ptr r' = r_clean_tail_ptr r \<and> r_tail_ptr r' = r_tail_ptr r \<and>
     r_size r' = r_size r \<and> r_size_mask r' = r_size_mask r \<and> r_full_size r' = r_full_size r \<and>
     r_tx_queue r' = r_tx_queue r \<and> r_hw_tail_ptr r' = r_hw_tail_ptr r \<and> r_hw_ptr_mask r' = r_hw_ptr_mask r"

lemma free_desc_same: "mqnic_free_tx_desc r i b s = Some (r', s') \<Longrightarrow> same_but_info r r' \<and>
    count_ev is_consume (trace s') = Suc (count_ev is_consume (trace s)) \<and>
    count_ev is_napi_complete (trace s') = count_ev is_napi_complete (trace s) \<and> extends s s'"
  by (auto simp: mqnic_free_tx_desc_def set_tx_info_def same_but_info_def Let_def count_unmap_frags
      split: if_splits intro!: extends_emit extends_trans [OF _ adds_extends [OF adds_unmap_frags]])

lemma read_cpl_ts_same:
  "mqnic_read_cpl_ts phc r c s = (v, r', s') \<Longrightarrow> same_but_info r r' \<and> r_tx_info r' = r_tx_info r \<and>
    count_ev is_consume (trace s') = count_ev is_consume (trace s) \<and>
    count_ev is_napi_complete (trace s') = count_ev is_napi_complete (trace s) \<and> extends s s'"
  by (auto simp: mqnic_read_cpl_ts_def same_but_info_def ioread32_def Let_def extends_emit split: if_splits)

lemma same_but_info_trans: "same_but_info a b \<Longrightarrow> same_but_info b c \<Longrightarrow> same_but_info a c"
  by (simp add: same_but_info_def)

lemma tx_complete_same: "tx_complete phc b c r s = Some (r', s') \<Longrightarrow> same_but_info r r' \<and>
    count_ev is_consume (trace s') = Suc (count_ev is_consume (trace s)) \<and>
    count_ev is_napi_complete (trace s') = count_ev is_napi_complete (trace s) \<and> extends s s'"
proof -
  assume t: "tx_complete phc b c r s = Some (r', s')"
  let ?i = "ucast (cpl_index s c) AND r_size_mask r"
  let ?ti = "r_tx_info r ! unat ?i"
  from t obtain r1 s1 where f: "mqnic_free_tx_desc r1 ?i b s1 = Some (r', s')"
    and s: "same_but_info r r1" "count_ev is_consume (trace s1) = count_ev is_consume (trace s)"
      "count_ev is_napi_complete (trace s1) = count_ev is_napi_complete (trace s)" "extends s s1"
  proof (cases "ti_ts_requested ?ti")
    case True
    obtain sec nsec r2 s2 where m: "mqnic_read_cpl_ts phc r c s = ((sec, nsec), r2, s2)" by (metis prod.exhaust)
    from t True m that [of r2 "emit (SkbTstamp (ti_skb ?ti) sec nsec) s2"] read_cpl_ts_same [OF m] show thesis
      by (auto simp: tx_complete_def Let_def extends_emit split: if_splits)
  next
    case False
    with t that [of r s] show thesis
      by (auto simp: tx_complete_def Let_def same_but_info_def split: if_splits)
  qed
  from free_desc_same [OF f] s show ?thesis
    by (auto intro: same_but_info_trans extends_trans)
qed

lemma tx_cpl_loop_count:
  "tx_cpl_loop phc budget cq t done r s = Some (t', done', r', s') \<Longrightarrow>
    same_but_info r r' \<and> extends s s' \<and>
    t' = t + of_nat (min (unat (cq_head_ptr cq - t)) (nat (budget - done))) \<and>
    done' = done + int (min (unat (cq_head_ptr cq - t)) (nat (budget - done))) \<and>
    count_ev is_consume (trace s') = count_ev is_consume (trace s) + min (unat (cq_head_ptr cq - t)) (nat (budget - done)) \<and>
    count_ev is_napi_complete (trace s') = count_ev is_napi_complete (trace s)"
proof (induction phc budget cq t "done" r s rule: tx_cpl_loop.induct)
  case (1 phc budget cq t "done" r s)
  show ?case
  proof (cases "cq_head_ptr cq \<noteq> t \<and> done < budget")
    case False
    with "1.prems" show ?thesis
      by (subst (asm) tx_cpl_loop.simps) (auto simp: same_but_info_def)
  next
    case True
    with "1.prems" obtain buf r1 s1 where h: "cq_buf cq = Some buf"
        "tx_complete phc budget (cpl_addr cq buf t) r s = Some (r1, s1)"
        "tx_cpl_loop phc budget cq (t + 1) (done + 1) r1 s1 = Some (t', done', r', s')"
      by (subst (asm) tx_cpl_loop.simps) (auto split: bind_splits)
    have d: "unat (cq_head_ptr cq - t) = Suc (unat (cq_head_ptr cq - (t + 1)))"
      using True by (intro ptr_dist) auto
    have b: "nat (budget - done) = Suc (nat (budget - (done + 1)))"
      using True Suc_nat_eq_nat_zadd1 [of "budget - (done + 1)"] by (simp add: algebra_simps)
    have m: "min (unat (cq_head_ptr cq - t)) (nat (budget - done)) =
        Suc (min (unat (cq_head_ptr cq - (t + 1))) (nat (budget - (done + 1))))"
      by (simp add: d b)
    from "1.IH" [OF True h(1) h(2) refl h(3)] tx_complete_same [OF h(2)] m show ?thesis
      by (auto intro: same_but_info_trans extends_trans)
  qed
qed


lemma process_tx_spec:
  assumes "mqnic_process_tx_cq phc True cq r b s = Some (n, cq', r', s')" "r_priv r \<noteq> None"
  defines "hd' \<equiv> cq_head_ptr (fst (mqnic_cq_read_head_ptr cq s))"
  defines "k \<equiv> min (unat (hd' - cq_tail_ptr cq)) (nat b)"
  shows "n = int k" "cq_tail_ptr cq' = cq_tail_ptr cq + of_nat k" "cq_head_ptr cq' = hd'"
    "cq_active cq' = cq_active cq" "cq_eq_index cq' = cq_eq_index cq" "cq_hw_addr cq' = cq_hw_addr cq"
    "cq_index cq' = cq_index cq"
    "count_ev is_consume (trace s') = count_ev is_consume (trace s) + k"
    "count_ev is_napi_complete (trace s') = count_ev is_napi_complete (trace s)"
    "r_clean_tail_ptr r' = advance_clean (tx_busy r') (r_tail_ptr r') (r_clean_tail_ptr r)"
proof -
  obtain cq1 s1 where rd: "mqnic_cq_read_head_ptr cq s = (cq1, s1)" by force
  then have cq1: "cq1 = cq\<lparr>cq_head_ptr := hd'\<rparr>" and c1: "count_ev P (trace s1) = count_ev P (trace s)"
    if "\<And>a v. \<not> P (Ioread32 a v)" for P
    using that by (auto simp: mqnic_cq_read_head_ptr_def ioread32_def Let_def hd'_def)
  note cq1 = cq1 [of "\<lambda>_. False", simplified]
  from assms(1,2) rd obtain t dn r1 s2 where
    l: "tx_cpl_loop phc b cq1 (cq_tail_ptr cq1) 0 r s1 = Some (t, dn, r1, s2)"
    by (auto simp: mqnic_process_tx_cq_def split: option.splits)
  let ?cq2 = "cq1\<lparr>cq_tail_ptr := t\<rparr>"
  let ?s3 = "mqnic_cq_write_tail_ptr ?cq2 s2"
  obtain r2 s4 where rt: "mqnic_tx_read_tail_ptr r1 ?s3 = (r2, s4)" by force
  let ?clean = "advance_clean (tx_busy r2) (r_tail_ptr r2) (r_clean_tail_ptr r2)"
  let ?r3 = "r2\<lparr>r_clean_tail_ptr := ?clean\<rparr>"
  let ?s5 = "if w_queue_stopped s4 (trace s4) (r_tx_queue ?r3) \<and> \<not> mqnic_is_tx_ring_full ?r3
             then emit (TxQueueWake (r_tx_queue ?r3)) s4 else s4"
  have e: "n = dn" "cq' = ?cq2" "r' = ?r3" "s' = ?s5"
    using assms(1,2) rd l rt by (auto simp: mqnic_process_tx_cq_def Let_def)
  note L = tx_cpl_loop_count [OF l]
  have r2: "r_clean_tail_ptr r2 = r_clean_tail_ptr r1" "r_tx_info r2 = r_tx_info r1" "r_size_mask r2 = r_size_mask r1"
    and s4: "trace s4 = Ioread32 (r_hw_tail_ptr r1) (w_ioread ?s3 (trace ?s3) (r_hw_tail_ptr r1)) #
       Iowrite32 (cq_hw_tail_ptr ?cq2) (cq_tail_ptr ?cq2 AND cq_hw_ptr_mask ?cq2) # trace s2"
    using rt by (auto simp: mqnic_tx_read_tail_ptr_def ioread32_def Let_def mqnic_cq_write_tail_ptr_def)
  show "n = int k" "cq_tail_ptr cq' = cq_tail_ptr cq + of_nat k"
    using L e cq1 by (auto simp: k_def hd'_def)
  show "cq_head_ptr cq' = hd'" "cq_active cq' = cq_active cq" "cq_eq_index cq' = cq_eq_index cq"
    "cq_hw_addr cq' = cq_hw_addr cq" "cq_index cq' = cq_index cq" using e(2) cq1 by simp_all
  have b: "tx_busy ?r3 = tx_busy r2" by (simp add: tx_busy_def fun_eq_iff)
  show "r_clean_tail_ptr r' = advance_clean (tx_busy r') (r_tail_ptr r') (r_clean_tail_ptr r)"
    using L r2(1) unfolding e(3) b same_but_info_def by auto
  show "count_ev is_consume (trace s') = count_ev is_consume (trace s) + k"
    "count_ev is_napi_complete (trace s') = count_ev is_napi_complete (trace s)"
    using L cq1 c1 by (simp_all add: e(4) s4 k_def hd'_def)
qed

datatype tx_op = TxAlloc int int | TxFree | TxActivate "int option" "int option" | TxDeactivate
  | TxXmit "sk_buff \<Rightarrow> bool" "sk_buff \<Rightarrow> sk_buff option" u32 sk_buff | TxReadTail

fun tx_step :: "tx_op \<Rightarrow> mqnic_ring \<times> cq_heap \<times> sys \<Rightarrow> mqnic_ring \<times> cq_heap \<times> sys" where
  "tx_step (TxAlloc n st) (r, cqs, s) =
     (if n < 1 \<or> n > 2 ^ 31 then (r, cqs, s)
      else case mqnic_alloc_tx_ring r n st s of (_, r, s) \<Rightarrow> (r, cqs, s))"
| "tx_step TxFree (r, cqs, s) = (case mqnic_free_tx_ring r cqs s of None \<Rightarrow> (r, cqs, s) | Some x \<Rightarrow> x)"
| "tx_step (TxActivate p c) (r, cqs, s) = snd (mqnic_activate_tx_ring r p c cqs s)"
| "tx_step TxDeactivate (r, cqs, s) = mqnic_deactivate_tx_ring r cqs s"
| "tx_step (TxXmit f lin feats skb) (r, cqs, s) =
     (case mqnic_xmit_ring f lin feats skb r s of None \<Rightarrow> (r, cqs, s) | Some (r, s) \<Rightarrow> (r, cqs, s))"
| "tx_step TxReadTail (r, cqs, s) = (case mqnic_tx_read_tail_ptr r s of (r, s) \<Rightarrow> (r, cqs, s))"

definition same_conf :: "mqnic_ring \<Rightarrow> mqnic_ring \<Rightarrow> bool" where
  "same_conf r r' \<longleftrightarrow> length (r_tx_info r') = length (r_tx_info r) \<and> r_size r' = r_size r \<and>
     r_size_mask r' = r_size_mask r \<and> r_log_desc_block_size r' = r_log_desc_block_size r \<and>
     r_hw_ptr_mask r' = r_hw_ptr_mask r \<and> r_hw_addr r' = r_hw_addr r \<and> r_hw_head_ptr r' = r_hw_head_ptr r \<and>
     r_hw_tail_ptr r' = r_hw_tail_ptr r \<and> r_buf r' = r_buf r \<and> r_buf_dma_addr r' = r_buf_dma_addr r \<and>
     r_active r' = r_active r"

lemma xmit_csum_adds: "xmit_csum f skb d s = Some s' \<Longrightarrow> adds a s s'"
  by (auto simp: xmit_csum_def split: if_splits intro!: adds_intros)

lemma xmit_enqueue_adds:
  "r_hw_head_ptr r = a + HEAD_PTR_REG \<Longrightarrow> xmit_enqueue skb r s = (r', s') \<Longrightarrow> adds a s s' \<and> same_conf r r'"
  by (auto simp: xmit_enqueue_def Let_def mqnic_tx_write_head_ptr_def same_conf_def mqnic_is_tx_ring_full_def
      intro!: adds_intros)

lemma xmit_ring_adds:
  assumes h: "r_hw_head_ptr r = a + HEAD_PTR_REG" and x: "mqnic_xmit_ring f lin feats skb r s = Some (r', s')"
  shows "adds a s s' \<and> same_conf r r'"
proof -
  let ?i = "unat (r_head_ptr r AND r_size_mask r)"
  from xmit_ring_unfold [OF x] obtain d ts s1 where
    s1: "s1 = (if ts then emit (SkbTxInProgress (skb_id skb)) s else s)" and
    x': "xmit_from f lin skb r d ((r_tx_info r ! ?i)\<lparr>ti_ts_requested := ts\<rparr>) ?i s1 = Some (r', s')" .
  let ?ti = "(r_tx_info r ! ?i)\<lparr>ti_ts_requested := ts\<rparr>"
  have a1: "adds a s s1" by (simp add: s1 adds_emit)
  have c: "same_conf r (set_tx_info r i t)" "same_conf r (set_tx_info (set_tx_info r i t) i t')" for i t t'
    by (simp_all add: same_conf_def set_tx_info_def)
  have drop: "tx_drop_count k q t = (q', t') \<Longrightarrow> adds a t t' \<and> same_conf q q'" for k q t q' t'
    by (auto simp: tx_drop_count_def same_conf_def adds_emit)
  have ct: "same_conf p q \<Longrightarrow> same_conf q t \<Longrightarrow> same_conf p t" for p q t by (simp add: same_conf_def)
  show ?thesis
  proof (cases "xmit_csum f skb d s1")
    case None
    with x' have "tx_drop_count skb (set_tx_info r ?i ?ti) s1 = (r', s')" by (simp add: xmit_from_def)
    from drop [OF this] a1 c ct show ?thesis by (blast intro: adds_trans)
  next
    case (Some s2)
    have a2: "adds a s s2" using a1 xmit_csum_adds [OF Some] by (rule adds_trans)
    show ?thesis
    proof (cases "xmit_linear lin (set_tx_info r ?i ?ti) skb")
      case None
      with x' Some have "tx_drop_count skb (set_tx_info r ?i ?ti) s2 = (r', s')" by (simp add: xmit_from_def)
      from drop [OF this] a2 c ct show ?thesis by (blast intro: adds_trans)
    next
      case (Some k)
      with x' \<open>xmit_csum f skb d s1 = Some s2\<close> obtain ok ti' s3 where
        m: "mqnic_map_skb (set_tx_info r ?i ?ti) ?ti d k s2 = Some (ok, ti', s3)" and
        e: "(if ok then xmit_enqueue k (set_tx_info (set_tx_info r ?i ?ti) ?i ti') s3
           else tx_drop_count k (set_tx_info (set_tx_info r ?i ?ti) ?i ti') s3) = (r', s')"
        by (auto simp: xmit_from_def split: option.splits)
      have a3: "adds a s s3" using a2 adds_map_skb [OF m] by (rule adds_trans)
      have "r_hw_head_ptr (set_tx_info (set_tx_info r ?i ?ti) ?i ti') = a + HEAD_PTR_REG"
        using h by (simp add: set_tx_info_def)
      from xmit_enqueue_adds [OF this] drop e have "adds a s3 s' \<and> same_conf (set_tx_info (set_tx_info r ?i ?ti) ?i ti') r'"
        by (auto split: if_splits)
      with a3 c ct show ?thesis by (blast intro: adds_trans)
    qed
  qed
qed


lemma tx_same_conf_wf:
  "same_conf r r' \<Longrightarrow> adds (r_hw_addr r) s s' \<Longrightarrow> tx_wf r (cqs, s) \<Longrightarrow> tx_coupled r s \<Longrightarrow>
    tx_wf r' (cqs', s') \<and> r_hw_addr r' = r_hw_addr r \<and> tx_coupled r' s'"
  using extends_pow2_lib [OF adds_extends, of "r_hw_addr r" s s'] adds_coupled [of "r_hw_addr r" s s']
  by (simp add: same_conf_def tx_wf_def)

lemma tx_read_tail_conf:
  "mqnic_tx_read_tail_ptr r s = (r', s') \<Longrightarrow> same_conf r r' \<and> adds a s s'"
  by (auto simp: mqnic_tx_read_tail_ptr_def ioread32_def Let_def same_conf_def intro!: adds_intros)

lemma tx_step_law:
  assumes "tx_wf r w" "coupled (r_hw_addr r) (r_buf r) (r_buf_dma_addr r) (r_active r) (trace (snd w))"
    "tx_step x (r, w) = (r', w')"
  shows "tx_wf r' w' \<and> r_hw_addr r' = r_hw_addr r \<and>
    coupled (r_hw_addr r') (r_buf r') (r_buf_dma_addr r') (r_active r') (trace (snd w'))"
proof -
  obtain cqs s where w: "w = (cqs, s)" by force
  obtain cqs' s' where w': "w' = (cqs', s')" by force
  have a: "tx_wf r (cqs, s)" "tx_coupled r s" and st: "tx_step x (r, cqs, s) = (r', cqs', s')"
    using assms w w' by simp_all
  have "tx_wf r' (cqs', s') \<and> r_hw_addr r' = r_hw_addr r \<and> tx_coupled r' s'"
  proof (cases x)
    case (TxAlloc n st)
    show ?thesis
    proof (cases "n < 1 \<or> n > 2 ^ 31")
      case False
      obtain e r1 s1 where al: "mqnic_alloc_tx_ring r n st s = (e, r1, s1)" by (metis prod_cases3)
      with False TxAlloc st tx_alloc_law [OF a _ _ al] show ?thesis by (auto simp: tx_wf_def)
    qed (use TxAlloc st a in auto)
  next
    case TxFree
    with st a tx_free_law [OF a] show ?thesis by (auto split: option.splits)
  next
    case (TxActivate p c)
    obtain e r1 c1 s1 where ac: "mqnic_activate_tx_ring r p c cqs s = (e, r1, c1, s1)" by (metis prod_cases4)
    with TxActivate st tx_activate_law [OF a ac] show ?thesis by auto
  next
    case TxDeactivate
    have dis: "disciplined (r_hw_addr r) (trace s)" using a(2) by (simp add: coupled_def)
    from TxDeactivate st tx_deactivate_law [OF a(1) dis, of r' cqs' s'] show ?thesis by auto
  next
    case (TxXmit f lin feats skb)
    have h: "r_hw_head_ptr r = r_hw_addr r + HEAD_PTR_REG" using a(1) by (simp add: tx_wf_def)
    from TxXmit st a show ?thesis
      by (auto split: option.splits dest: xmit_ring_adds [OF h] tx_same_conf_wf)
  next
    case TxReadTail
    with st a tx_read_tail_conf [of r s r' s' "r_hw_addr r"] tx_same_conf_wf [of r r' s s' cqs cqs'] show ?thesis
      by (auto split: prod.splits)
  qed
  then show ?thesis by (auto simp: w')
qed

interpretation tx: hw_queue r_hw_addr r_buf r_buf_dma_addr r_active snd tx_wf tx_step
  by unfold_locales (rule tx_step_law)

interpretation txp: hw_pointer r_tail_ptr r_hw_tail_ptr r_hw_ptr_mask mqnic_tx_read_tail_ptr
  by unfold_locales (simp_all add: mqnic_tx_read_tail_ptr_def ioread32_def Let_def)

section \<open>Properties\<close>

text \<open>A ring of eight entries.\<close>

definition demo_tx :: mqnic_ring where
  "demo_tx = (zero_ring 0)\<lparr>r_size := 8, r_full_size := 4, r_size_mask := 7, r_stride := 64,
     r_log_desc_block_size := 2, r_desc_block_size := 4, r_buf := Some 0x4000, r_buf_dma_addr := 0x80004000,
     r_tx_info := replicate 8 zero_tx_info, r_priv := Some 0, r_hw_ptr_mask := 0xffff, r_hw_addr := 0x300000,
     r_hw_head_ptr := 0x300010, r_hw_tail_ptr := 0x300018\<rparr>"

definition demo_skb :: sk_buff where
  "demo_skb = \<lparr>skb_id = 7, skb_len = 200, skb_data_len = 140, skb_frags = [100, 40], skb_csum_partial = True,
     skb_csum_start = 34, skb_csum_offset = 6, skb_queue_mapping = 0, skb_hw_tstamp = False, skb_xmit_more = False\<rparr>"

lemma demo_tx_wf: "tx_wf demo_tx ((\<lambda>_. undefined), quiet_world)"
  using quiet_world_pow2_lib
  by (auto simp: tx_wf_def demo_tx_def zero_ring_def ring_dims_def queue_regs intro: exI [of _ 3])

lemma demo_tx_coupled: "tx_coupled demo_tx quiet_world"
  by (simp add: coupled_def q_active_def quiet_world_def demo_tx_def zero_ring_def)

text \<open>C1: over any sequence of allocations, activations, transmissions, tail reads, deactivations and
  frees of a transmit ring, the device's base address is written and the ring buffer freed only while
  the queue is inactive, and an active queue points at the buffer the driver holds.\<close>

theorem tx_lifecycle_safe:
  assumes "tx_wf r (cqs, s)" "tx_coupled r s" "fold tx_step ops (r, cqs, s) = (r', cqs', s')"
  shows "disciplined (r_hw_addr r) (trace s') \<and>
    (q_active (trace s') (r_hw_addr r) \<longrightarrow>
       r_buf r' \<noteq> None \<and> q_base (trace s') (r_hw_addr r) = Some (r_buf_dma_addr r'))"
  using tx.run_disciplined [of r "(cqs, s)" ops r' "(cqs', s')"] tx.run_base [of r "(cqs, s)" ops r' "(cqs', s')"] assms
  by simp

theorem tx_lifecycle_safe_witness:
  "disciplined 0x300000 (trace (snd (snd (fold tx_step
     [TxActivate (Some 0) (Some 1), TxXmit (\<lambda>_. False) (\<lambda>_. None) 0 demo_skb, TxFree] (demo_tx, (\<lambda>_. undefined), quiet_world)))))"
proof -
  obtain r' c' s' where e: "fold tx_step [TxActivate (Some 0) (Some 1), TxXmit (\<lambda>_. False) (\<lambda>_. None) 0 demo_skb, TxFree]
      (demo_tx, (\<lambda>_. undefined), quiet_world) = (r', c', s')" by (metis prod_cases3)
  have "r_hw_addr demo_tx = 0x300000" by (simp add: demo_tx_def)
  with tx_lifecycle_safe [OF demo_tx_wf demo_tx_coupled e] show ?thesis by (simp only: e snd_conv)
qed

text \<open>C2: a packet handed to a ring is accounted for exactly once: it is either freed (the drop
  counter goes up, the head stays, and every DMA mapping made for it is undone), or it is stored in
  the entry the head named, the head advances by one, it is not freed, and the mappings left in
  force are exactly those the entry records.\<close>

theorem xmit_exactly_once:
  assumes "\<And>k k'. linearize k = Some k' \<Longrightarrow> skb_id k' = skb_id k"
    and "mqnic_xmit_ring csum_fails linearize feats skb ring s = Some (ring', s')"
  shows "(let ti = r_tx_info ring' ! unat (r_head_ptr ring AND r_size_mask ring) in
     (r_head_ptr ring' = r_head_ptr ring \<and> r_dropped_packets ring' = r_dropped_packets ring + 1 \<and>
       skb_frees (skb_id skb) (trace s') = Suc (skb_frees (skb_id skb) (trace s)) \<and> live (trace s') = live (trace s)) \<or>
     (r_head_ptr ring' = r_head_ptr ring + 1 \<and> r_packets ring' = r_packets ring + 1 \<and>
       ti_skb ti = Some (skb_id skb) \<and>
       skb_frees (skb_id skb) (trace s') = skb_frees (skb_id skb) (trace s) \<and>
       live (trace s') = add_mset (True, ti_dma_addr ti, ti_len ti) (live (trace s) + page_maps (take (ti_frag_count ti) (ti_frags ti)))))"
  using xmit_ring_outcome [OF assms] by (simp add: xmit_outcome_def)

theorem xmit_exactly_once_witness:
  "\<exists>ring' s'. mqnic_xmit_ring (\<lambda>_. False) (\<lambda>_. None) 0 demo_skb demo_tx quiet_world = Some (ring', s') \<and>
    (r_head_ptr ring' = 0 \<and> live (trace s') = {#} \<or> r_head_ptr ring' = 1 \<and> live (trace s') \<noteq> {#})"
proof -
  have "mqnic_xmit_ring (\<lambda>_. False) (\<lambda>_. None) 0 demo_skb demo_tx quiet_world \<noteq> None"
    by (rule xmit_ring_defined)
      (auto simp: demo_tx_def zero_ring_def ring_dims_def zero_tx_info_def MQNIC_MAX_FRAGS_def demo_skb_def intro: exI [of _ 3])
  then obtain ring' s' where e: "mqnic_xmit_ring (\<lambda>_. False) (\<lambda>_. None) 0 demo_skb demo_tx quiet_world = Some (ring', s')"
    by auto
  have i: "r_head_ptr demo_tx = 0" "trace quiet_world = []" by (simp_all add: demo_tx_def zero_ring_def quiet_world_def)
  have "r_head_ptr ring' = 0 \<and> live (trace s') = {#} \<or> r_head_ptr ring' = 1 \<and> live (trace s') \<noteq> {#}"
    using xmit_exactly_once [OF _ e] by (auto simp: i Let_def)
  with e show ?thesis by blast
qed

text \<open>C21: on a ring of the driver's making (a power of two entries, descriptor blocks of at most
  \<open>MQNIC_MAX_FRAGS\<close>, a working \<open>skb_linearize\<close>) sending never follows a null pointer or leaves an
  array, whatever the packet.\<close>

theorem xmit_no_fault:
  assumes "ring_dims (r_size ring) (r_size_mask ring)" "r_buf ring \<noteq> None"
    and "length (r_tx_info ring) = unat (r_size ring)"
    and "\<forall>ti\<in>set (r_tx_info ring). length (ti_frags ti) = MQNIC_MAX_FRAGS - 1"
    and "0 < unat (r_desc_block_size ring)" "unat (r_desc_block_size ring) \<le> MQNIC_MAX_FRAGS"
    and "\<And>k k'. linearize k = Some k' \<Longrightarrow> skb_frags k' = []" "length (skb_frags skb) < 2 ^ 32"
  shows "mqnic_xmit_ring csum_fails linearize feats skb ring s \<noteq> None"
  using xmit_ring_defined [OF assms] .

theorem xmit_no_fault_witness:
  "mqnic_xmit_ring (\<lambda>_. False) (\<lambda>_. None) 0 demo_skb demo_tx quiet_world \<noteq> None"
  by (rule xmit_no_fault)
    (auto simp: demo_tx_def zero_ring_def ring_dims_def zero_tx_info_def MQNIC_MAX_FRAGS_def demo_skb_def intro: exI [of _ 3])

text \<open>C18: mapping a packet and freeing its descriptor is a round trip on the DMA mappings in force:
  everything mapped is unmapped with the same address and length, and nothing else.\<close>

theorem map_then_free_balances:
  assumes "mqnic_map_skb ring ti d skb s = Some (True, ti', s')"
    and "unat i < length (r_tx_info ring')" "r_tx_info ring' ! unat i = ti'" "live (trace t) = live (trace s')"
  shows "\<exists>ring'' t'. mqnic_free_tx_desc ring' i b t = Some (ring'', t') \<and> live (trace t') = live (trace s)"
proof -
  obtain ring'' t' where f: "mqnic_free_tx_desc ring' i b t = Some (ring'', t')"
    using assms(2) by (auto simp: mqnic_free_tx_desc_def Let_def)
  from free_desc_live [OF f] map_skb_live(1) [OF assms(1)] assms(3,4) f show ?thesis by simp
qed

theorem map_then_free_balances_witness:
  "\<exists>ti' s'. mqnic_map_skb (demo_tx\<lparr>r_desc_block_size := 1\<rparr>) zero_tx_info 0x4000 (demo_skb\<lparr>skb_frags := []\<rparr>) quiet_world =
      Some (True, ti', s') \<and> live (trace s') \<noteq> {#} \<and>
    (\<exists>ring'' t'. mqnic_free_tx_desc (set_tx_info demo_tx 0 ti') 0 64 s' = Some (ring'', t') \<and> live (trace t') = {#})"
proof -
  obtain ti' s' where m: "mqnic_map_skb (demo_tx\<lparr>r_desc_block_size := 1\<rparr>) zero_tx_info 0x4000 (demo_skb\<lparr>skb_frags := []\<rparr>) quiet_world =
      Some (True, ti', s')" and n: "live (trace s') \<noteq> {#}"
    by (simp add: mqnic_map_skb_def zero_descs_def Let_def zero_tx_info_def) (simp add: quiet_world_def)
  have "length (r_tx_info demo_tx) = 8" by (simp add: demo_tx_def)
  with m n map_then_free_balances [OF m, of 0 "set_tx_info demo_tx 0 ti'" s' 64] show ?thesis
    by (simp add: set_tx_info_def) (simp add: quiet_world_def)
qed


definition cpl_world :: sys where
  "cpl_world = quiet_world\<lparr>w_ioread := (\<lambda>_ a. if a = 0x200010 then 3 else if a = 0x300018 then 2 else 0)\<rparr>"


text \<open>Flow control: when the packet just enqueued fills the ring to its limit (half its entries), the
  transmit queue is stopped and the new head is written to the doorbell even if more packets are
  announced; below the limit the queue is not stopped.\<close>

theorem xmit_stops_full_queue:
  "\<exists>es. trace (snd (xmit_enqueue skb r s)) = es @ trace s \<and>
    (TxQueueStop (r_tx_queue r) \<in> set es \<longleftrightarrow> r_full_size r \<le> r_head_ptr r + 1 - r_clean_tail_ptr r) \<and>
    (Iowrite32 (r_hw_head_ptr r) ((r_head_ptr r + 1) AND r_hw_ptr_mask r) \<notin> set es \<longleftrightarrow>
       skb_xmit_more skb \<and> r_head_ptr r + 1 - r_clean_tail_ptr r < r_full_size r)"
  by (auto simp: xmit_enqueue_def Let_def mqnic_is_tx_ring_full_def mqnic_tx_write_head_ptr_def)

end
