(* ===== verification/RxRing.thy ===== *)
theory RxRing
  imports TxRing
begin

text \<open>
  Reception (\<open>modules/mqnic/mqnic_rx.c\<close>): life cycle of a receive ring, preparing and refilling
  buffers, freeing them, and completion processing. \<open>None\<close> is a null pointer followed (freeing
  a page the entry does not have included) or an index outside an array.
\<close>

section \<open>Life cycle\<close>

definition mqnic_create_rx_ring :: "int \<Rightarrow> addr \<Rightarrow> sys \<Rightarrow> int \<times> mqnic_ring option \<times> sys" where
  "mqnic_create_rx_ring index hw_addr s =
    (case kzalloc s of
       (None, s) \<Rightarrow> (- ENOMEM, None, s)
     | (Some m, s) \<Rightarrow>
       let ring = (zero_ring m)\<lparr>r_index := index, r_active := False,
             r_hw_addr := hw_addr, r_hw_ptr_mask := 0xffff,
             r_hw_head_ptr := hw_addr + HEAD_PTR_REG, r_hw_tail_ptr := hw_addr + TAIL_PTR_REG,
             r_head_ptr := 0, r_tail_ptr := 0, r_clean_tail_ptr := 0\<rparr>
       in (0, Some ring, iowrite32 0 (hw_addr + ACTIVE_LOG_SIZE_REG) s))"

definition mqnic_alloc_rx_ring :: "mqnic_ring \<Rightarrow> int \<Rightarrow> int \<Rightarrow> sys \<Rightarrow> int \<times> mqnic_ring \<times> sys" where
  "mqnic_alloc_rx_ring ring n stride s =
    (if r_active ring \<or> r_buf ring \<noteq> None then (- EINVAL, ring, s)
     else
       let sz = ucast (w_roundup_pow_of_two s (word_of_int n)) :: u32;
           st = ucast (w_roundup_pow_of_two s (word_of_int stride)) :: u32;
           lb = log_block s st;
           ring = ring\<lparr>r_size := sz, r_size_mask := sz - 1, r_stride := st,
             r_log_desc_block_size := lb, r_desc_block_size := push_bit (unat lb) 1\<rparr>
       in case kzalloc s of
         (None, s) \<Rightarrow> (- ENOMEM, ring\<lparr>r_rx_info := [], r_info_mem := None\<rparr>, s)
       | (Some m, s) \<Rightarrow>
         let ring = ring\<lparr>r_rx_info := replicate (unat sz) zero_rx_info, r_info_mem := Some m,
               r_buf_size := ucast (sz * st)\<rparr>
         in case dma_alloc_coherent (r_buf_size ring) s of
           (None, s) \<Rightarrow> (- ENOMEM, ring\<lparr>r_buf := None, r_rx_info := [], r_info_mem := None\<rparr>, emit (Kfree m) s)
         | (Some (buf, dma), s) \<Rightarrow>
           let ring = ring\<lparr>r_buf := Some buf, r_buf_dma_addr := dma, r_head_ptr := 0, r_tail_ptr := 0,
                 r_clean_tail_ptr := 0\<rparr>
           in (0, ring, iowrites (config_writes (r_hw_addr ring) dma 0
                 (r_head_ptr ring AND r_hw_ptr_mask ring) (r_tail_ptr ring AND r_hw_ptr_mask ring)
                 (log_size_reg s ring)) s))"

definition mqnic_deactivate_rx_ring :: "mqnic_ring \<Rightarrow> cq_heap \<Rightarrow> sys \<Rightarrow> mqnic_ring \<times> cq_heap \<times> sys" where
  "mqnic_deactivate_rx_ring ring cqs s =
    (let s = iowrite32 (log_size_reg s ring) (r_hw_addr ring + ACTIVE_LOG_SIZE_REG) s;
         cqs = (case r_cq_ring ring of
                  None \<Rightarrow> cqs
                | Some c \<Rightarrow> cqs(c := (cqs c)\<lparr>cq_src_ring := None, cq_handler := None\<rparr>))
     in (ring\<lparr>r_priv := None, r_cq_ring := None, r_active := False\<rparr>, cqs, s))"

definition mqnic_is_rx_ring_empty :: "mqnic_ring \<Rightarrow> bool" where
  "mqnic_is_rx_ring_empty ring \<longleftrightarrow> r_head_ptr ring = r_clean_tail_ptr ring"

definition mqnic_is_rx_ring_full :: "mqnic_ring \<Rightarrow> bool" where
  "mqnic_is_rx_ring_full ring \<longleftrightarrow> r_head_ptr ring - r_clean_tail_ptr ring \<ge> r_size ring"

definition mqnic_rx_read_tail_ptr :: "mqnic_ring \<Rightarrow> sys \<Rightarrow> mqnic_ring \<times> sys" where
  "mqnic_rx_read_tail_ptr ring s =
    (case ioread32 (r_hw_tail_ptr ring) s of (v, s) \<Rightarrow>
      (ring\<lparr>r_tail_ptr := r_tail_ptr ring + ((v - r_tail_ptr ring) AND r_hw_ptr_mask ring)\<rparr>, s))"

definition mqnic_rx_write_head_ptr :: "mqnic_ring \<Rightarrow> sys \<Rightarrow> sys" where
  "mqnic_rx_write_head_ptr ring s = iowrite32 (r_head_ptr ring AND r_hw_ptr_mask ring) (r_hw_head_ptr ring) s"

section \<open>Buffers\<close>

definition set_rx_info :: "mqnic_ring \<Rightarrow> nat \<Rightarrow> mqnic_rx_info \<Rightarrow> mqnic_ring" where
  "set_rx_info ring i ri = ring\<lparr>r_rx_info := (r_rx_info ring)[i := ri]\<rparr>"

definition mqnic_free_rx_desc :: "mqnic_ring \<Rightarrow> u32 \<Rightarrow> sys \<Rightarrow> (mqnic_ring \<times> sys) option" where
  "mqnic_free_rx_desc ring index s =
    (if unat index < length (r_rx_info ring) then
       let ri = r_rx_info ring ! unat index;
           s = emit (DmaUnmapPage (ri_dma_addr ri) (ri_len ri)) s
       in case ri_page ri of
            None \<Rightarrow> None
          | Some page \<Rightarrow>
            Some (set_rx_info ring (unat index) (ri\<lparr>ri_dma_addr := 0, ri_page := None\<rparr>),
                  emit (PageFree page (ri_page_order ri)) s)
     else None)"

function rx_free_loop :: "mqnic_ring \<Rightarrow> int \<Rightarrow> sys \<Rightarrow> (mqnic_ring \<times> int \<times> sys) option" where
  "rx_free_loop ring cnt s =
    (if mqnic_is_rx_ring_empty ring then Some (ring, cnt, s)
     else case mqnic_free_rx_desc ring (r_clean_tail_ptr ring AND r_size_mask ring) s of
       None \<Rightarrow> None
     | Some (ring', s) \<Rightarrow>
       rx_free_loop (ring\<lparr>r_rx_info := r_rx_info ring', r_clean_tail_ptr := r_clean_tail_ptr ring + 1\<rparr>) (cnt + 1) s)"
  by pat_completeness auto
termination
  by (relation "measure (\<lambda>(ring, _, _). unat (r_head_ptr ring - r_clean_tail_ptr ring))")
    (auto simp: ptr_dist mqnic_is_rx_ring_empty_def)

declare rx_free_loop.simps [simp del]

definition mqnic_free_rx_buf :: "mqnic_ring \<Rightarrow> sys \<Rightarrow> (int \<times> mqnic_ring \<times> sys) option" where
  "mqnic_free_rx_buf ring s =
    (case rx_free_loop ring 0 s of
       None \<Rightarrow> None
     | Some (ring, cnt, s) \<Rightarrow>
       Some (cnt, ring\<lparr>r_head_ptr := 0, r_tail_ptr := 0, r_clean_tail_ptr := 0\<rparr>, s))"

definition mqnic_free_rx_ring :: "mqnic_ring \<Rightarrow> cq_heap \<Rightarrow> sys \<Rightarrow> (mqnic_ring \<times> cq_heap \<times> sys) option" where
  "mqnic_free_rx_ring ring cqs s =
    (case mqnic_deactivate_rx_ring ring cqs s of (ring, cqs, s) \<Rightarrow>
       if r_buf ring = None then Some (ring, cqs, s)
       else case mqnic_free_rx_buf ring s of
         None \<Rightarrow> None
       | Some (_, ring, s) \<Rightarrow>
         let s = emit (DmaFree (r_buf_dma_addr ring) (r_buf_size ring)) s;
             s = (case r_info_mem ring of None \<Rightarrow> s | Some m \<Rightarrow> emit (Kfree m) s)
         in Some (ring\<lparr>r_buf := None, r_buf_dma_addr := 0, r_rx_info := [], r_info_mem := None\<rparr>, cqs, s))"

definition mqnic_destroy_rx_ring :: "mqnic_ring \<Rightarrow> cq_heap \<Rightarrow> sys \<Rightarrow> (cq_heap \<times> sys) option" where
  "mqnic_destroy_rx_ring ring cqs s =
    (case mqnic_free_rx_ring ring cqs s of
       None \<Rightarrow> None
     | Some (ring, cqs, s) \<Rightarrow> Some (cqs, emit (Kfree (r_mem ring)) s))"

text \<open>Give entry \<open>index\<close> a fresh page; \<open>False\<close> is the code's \<open>-1\<close>.\<close>

definition mqnic_prepare_rx_desc :: "mqnic_ring \<Rightarrow> u32 \<Rightarrow> sys \<Rightarrow> (bool \<times> mqnic_ring \<times> sys) option" where
  "mqnic_prepare_rx_desc ring index s =
    (case r_buf ring of None \<Rightarrow> None | Some buf \<Rightarrow>
     if unat index \<ge> length (r_rx_info ring) then None
     else
       let ri = r_rx_info ring ! unat index;
           d = buf + ucast (index * r_stride ring);
           len = push_bit (unat (r_page_order ring)) (w_page_size s)
       in if ri_page ri \<noteq> None then Some (False, ring, s)
          else case w_page_alloc s (trace s) (r_page_order ring) of
            None \<Rightarrow> Some (False, ring, s)
          | Some page \<Rightarrow>
            let s = emit (PageAlloc page (r_page_order ring)) s
            in case w_dma_map s (trace s) of
              None \<Rightarrow> Some (False, ring, emit (PageFree page (r_page_order ring)) s)
            | Some a \<Rightarrow>
              let s = store_desc d 0 len a (emit (DmaMapPage a len) s)
              in Some (True,
                   set_rx_info ring (unat index)
                     \<lparr>ri_page = Some page, ri_page_order = r_page_order ring, ri_page_offset = 0,
                      ri_dma_addr = a, ri_len = len\<rparr>, s))"

fun rx_refill_loop :: "nat \<Rightarrow> mqnic_ring \<Rightarrow> sys \<Rightarrow> (mqnic_ring \<times> sys) option" where
  "rx_refill_loop 0 ring s = Some (ring, s)"
| "rx_refill_loop (Suc missing) ring s =
    (case mqnic_prepare_rx_desc ring (r_head_ptr ring AND r_size_mask ring) s of
       None \<Rightarrow> None
     | Some (ok, ring, s) \<Rightarrow>
       if \<not> ok then Some (ring, s)
       else rx_refill_loop missing (ring\<lparr>r_head_ptr := r_head_ptr ring + 1\<rparr>) s)"

definition mqnic_refill_rx_buffers :: "mqnic_ring \<Rightarrow> sys \<Rightarrow> (mqnic_ring \<times> sys) option" where
  "mqnic_refill_rx_buffers ring s =
    (let missing = r_size ring - (r_head_ptr ring - r_clean_tail_ptr ring)
     in if missing < 8 then Some (ring, s)
        else case rx_refill_loop (unat missing) ring s of
          None \<Rightarrow> None
        | Some (ring, s) \<Rightarrow> Some (ring, mqnic_rx_write_head_ptr ring s))"

definition mqnic_activate_rx_ring ::
    "mqnic_ring \<Rightarrow> int option \<Rightarrow> int option \<Rightarrow> cq_heap \<Rightarrow> sys \<Rightarrow> (int \<times> mqnic_ring \<times> cq_heap \<times> sys) option" where
  "mqnic_activate_rx_ring ring priv cq cqs s =
    (case mqnic_deactivate_rx_ring ring cqs s of (ring, cqs, s) \<Rightarrow>
       case (r_buf ring, priv, cq) of
         (Some buf, Some p, Some c) \<Rightarrow>
           if cq_handler (cqs c) \<noteq> None \<or> cq_src_ring (cqs c) \<noteq> None then Some (- EINVAL, ring, cqs, s)
           else
             let ring = ring\<lparr>r_priv := Some p, r_cq_ring := Some c\<rparr>;
                 cqs = cqs(c := (cqs c)\<lparr>cq_src_ring := Some (r_index ring), cq_handler := Some Mqnic_rx_irq\<rparr>);
                 s = iowrites (config_writes (r_hw_addr ring) (r_buf_dma_addr ring)
                       (word_of_int (cq_index (cqs c)))
                       (r_head_ptr ring AND r_hw_ptr_mask ring) (r_tail_ptr ring AND r_hw_ptr_mask ring)
                       (log_size_reg s ring OR ACTIVE_MASK)) s
             in (case mqnic_refill_rx_buffers (ring\<lparr>r_active := True\<rparr>) s of
                   None \<Rightarrow> None
                 | Some (ring, s) \<Rightarrow> Some (0, ring, cqs, s))
       | _ \<Rightarrow> Some (- EINVAL, ring, cqs, s))"

section \<open>Completions\<close>

text \<open>
  One completion: \<open>Some (False, ...)\<close> is the code's \<open>break\<close> (no page at that index, no packet
  buffer). \<open>feats\<close> are the interface features, \<open>rxcsum\<close> is \<open>NETIF_F_RXCSUM\<close> of the device.
\<close>

definition rx_complete :: "addr \<Rightarrow> u32 \<Rightarrow> bool \<Rightarrow> addr \<Rightarrow> mqnic_ring \<Rightarrow> sys \<Rightarrow> (bool \<times> mqnic_ring \<times> sys) option" where
  "rx_complete phc feats rxcsum cpl ring s =
    (let ring_index = ucast (cpl_index s cpl) AND r_size_mask ring; i = unat ring_index in
     if i \<ge> length (r_rx_info ring) then None
     else case ri_page (r_rx_info ring ! i) of
       None \<Rightarrow> Some (False, ring, s)
     | Some page \<Rightarrow>
       (case w_skb_alloc s (trace s) of
          None \<Rightarrow> Some (False, ring, s)
        | Some skb \<Rightarrow>
          let (ts, ring, s) =
                (if feats AND IF_FEATURE_PTP_TS \<noteq> 0
                 then (case mqnic_read_cpl_ts phc ring cpl s of (t, ring, s) \<Rightarrow> (Some t, ring, s))
                 else (None, ring, s));
              csum = (if rxcsum then Some (cpl_rx_csum s cpl) else None);
              ri = r_rx_info ring ! i;
              s = emit (DmaUnmapPage (ri_dma_addr ri) (ri_len ri)) s;
              ri = ri\<lparr>ri_dma_addr := 0\<rparr>;
              len = min (ucast (cpl_len s cpl)) (ri_len ri);
              s = emit (DmaSync (ri_dma_addr ri) (ri_page_offset ri) (ri_len ri)) s;
              ri' = ri\<lparr>ri_page := None\<rparr>;
              s = emit (SkbGro (Rx_skb skb ts (r_index ring) csum page (ri_page_offset ri) len (ri_len ri))) s
          in Some (True,
               (set_rx_info ring i ri')\<lparr>r_packets := r_packets ring + 1,
                  r_bytes := r_bytes ring + ucast (cpl_len s cpl)\<rparr>, s)))"

function rx_cpl_loop ::
    "addr \<Rightarrow> u32 \<Rightarrow> bool \<Rightarrow> int \<Rightarrow> mqnic_cq_ring \<Rightarrow> u32 \<Rightarrow> int \<Rightarrow> mqnic_ring \<Rightarrow> sys \<Rightarrow> (u32 \<times> int \<times> mqnic_ring \<times> sys) option" where
  "rx_cpl_loop phc feats rxcsum budget cq t done ring s =
    (if cq_head_ptr cq \<noteq> t \<and> done < budget then do {
       buf \<leftarrow> cq_buf cq;
       (ok, ring, s) \<leftarrow> rx_complete phc feats rxcsum (cpl_addr cq buf t) ring s;
       (if ok then rx_cpl_loop phc feats rxcsum budget cq (t + 1) (done + 1) ring s
        else Some (t, done, ring, s)) }
     else Some (t, done, ring, s))"
  by pat_completeness auto
termination
  by (relation "measure (\<lambda>(_, _, _, _, cq, t, _). unat (cq_head_ptr cq - t))") (auto simp: ptr_dist)

declare rx_cpl_loop.simps [simp del]

definition rx_busy :: "mqnic_ring \<Rightarrow> u32 \<Rightarrow> bool" where
  "rx_busy ring t \<longleftrightarrow> ri_page (r_rx_info ring ! unat (t AND r_size_mask ring)) \<noteq> None"

definition mqnic_process_rx_cq ::
    "addr \<Rightarrow> u32 \<Rightarrow> bool \<Rightarrow> bool \<Rightarrow> mqnic_cq_ring \<Rightarrow> mqnic_ring \<Rightarrow> int \<Rightarrow> sys \<Rightarrow>
      (int \<times> mqnic_cq_ring \<times> mqnic_ring \<times> sys) option" where
  "mqnic_process_rx_cq phc feats rxcsum port_up cq ring napi_budget s =
    (if r_priv ring = None \<or> \<not> port_up then Some (0, cq, ring, s)
     else case mqnic_cq_read_head_ptr cq s of (cq, s) \<Rightarrow>
       case rx_cpl_loop phc feats rxcsum napi_budget cq (cq_tail_ptr cq) 0 ring s of
         None \<Rightarrow> None
       | Some (t, done, ring, s) \<Rightarrow>
         let cq = cq\<lparr>cq_tail_ptr := t\<rparr>;
             s = mqnic_cq_write_tail_ptr cq s
         in case mqnic_rx_read_tail_ptr ring s of (ring, s) \<Rightarrow>
           let ring = ring\<lparr>r_clean_tail_ptr := advance_clean (rx_busy ring) (r_tail_ptr ring) (r_clean_tail_ptr ring)\<rparr>
           in case mqnic_refill_rx_buffers ring s of
                None \<Rightarrow> None
              | Some (ring, s) \<Rightarrow> Some (done, cq, ring, s))"

definition mqnic_rx_irq :: "mqnic_cq_ring \<Rightarrow> sys \<Rightarrow> sys" where
  "mqnic_rx_irq cq s = emit (NapiSchedule (cq_index cq)) s"

definition mqnic_poll_rx_cq ::
    "addr \<Rightarrow> u32 \<Rightarrow> bool \<Rightarrow> bool \<Rightarrow> mqnic_cq_ring \<Rightarrow> mqnic_ring \<Rightarrow> int \<Rightarrow> sys \<Rightarrow>
      (int \<times> mqnic_cq_ring \<times> mqnic_ring \<times> sys) option" where
  "mqnic_poll_rx_cq phc feats rxcsum port_up cq ring budget s =
    (case mqnic_process_rx_cq phc feats rxcsum port_up cq ring budget s of
       None \<Rightarrow> None
     | Some (done, cq, ring, s) \<Rightarrow>
       if done = budget then Some (done, cq, ring, s)
       else Some (done, cq, ring, mqnic_arm_cq cq (emit (NapiComplete (cq_index cq)) s)))"


section \<open>Entries, pages and mappings\<close>

lemma deactivate_rx_tx: "mqnic_deactivate_rx_ring = mqnic_deactivate_tx_ring"
  by (intro ext) (simp add: mqnic_deactivate_rx_ring_def mqnic_deactivate_tx_ring_def)

text \<open>Pages the driver holds: allocated, and neither freed nor handed to the stack.\<close>

fun held :: "event list \<Rightarrow> nat multiset" where
  "held [] = {#}"
| "held (PageAlloc p n # tr) = add_mset p (held tr)"
| "held (PageFree p n # tr) = held tr - {#p#}"
| "held (SkbGro k # tr) = held tr - {#rs_page k#}"
| "held (e # tr) = held tr"

text \<open>What the ring's entries record: one page and one mapping for each entry with a page.\<close>

definition entry_pages :: "mqnic_rx_info \<Rightarrow> nat multiset" where
  "entry_pages ri = (case ri_page ri of None \<Rightarrow> {#} | Some p \<Rightarrow> {#p#})"

definition entry_maps :: "mqnic_rx_info \<Rightarrow> (bool \<times> u64 \<times> u32) multiset" where
  "entry_maps ri = (case ri_page ri of None \<Rightarrow> {#} | Some p \<Rightarrow> {#(False, ri_dma_addr ri, ri_len ri)#})"

definition ring_pages :: "mqnic_ring \<Rightarrow> nat multiset" where
  "ring_pages r = sum_list (map entry_pages (r_rx_info r))"

definition ring_maps :: "mqnic_ring \<Rightarrow> (bool \<times> u64 \<times> u32) multiset" where
  "ring_maps r = sum_list (map entry_maps (r_rx_info r))"

lemma sum_list_update_ms:
  fixes f :: "'x \<Rightarrow> 'y multiset"
  shows "i < length xs \<Longrightarrow> sum_list (map f (xs[i := v])) + f (xs ! i) = sum_list (map f xs) + f v"
proof (induction xs arbitrary: i)
  case (Cons x xs)
  show ?case
  proof (cases i)
    case (Suc j)
    with Cons have "sum_list (map f (xs[j := v])) + f (xs ! j) = sum_list (map f xs) + f v" by simp
    with Suc show ?thesis by (simp add: add.assoc)
  qed (simp add: ac_simps)
qed simp

text \<open>The ring accounts for everything held beyond \<open>B\<close> and mapped beyond \<open>D\<close>.\<close>

definition rx_accounts :: "nat multiset \<Rightarrow> (bool \<times> u64 \<times> u32) multiset \<Rightarrow> mqnic_ring \<Rightarrow> sys \<Rightarrow> bool" where
  "rx_accounts B D r s \<longleftrightarrow> held (trace s) = B + ring_pages r \<and> live (trace s) = D + ring_maps r"

lemma held_store_desc [simp]: "held (trace (store_desc d i len a s)) = held (trace s)"
  by (simp add: store_desc_def)

lemma ring_set_info:
  assumes "i < length (r_rx_info r)"
  shows "ring_pages (set_rx_info r i v) + entry_pages (r_rx_info r ! i) = ring_pages r + entry_pages v"
    and "ring_maps (set_rx_info r i v) + entry_maps (r_rx_info r ! i) = ring_maps r + entry_maps v"
  using sum_list_update_ms [OF assms, of entry_pages v] sum_list_update_ms [OF assms, of entry_maps v]
  by (simp_all add: ring_pages_def ring_maps_def set_rx_info_def)

lemma ring_set_add:
  assumes "i < length (r_rx_info r)" "ri_page (r_rx_info r ! i) = None"
  shows "ring_pages (set_rx_info r i v) = ring_pages r + entry_pages v"
    and "ring_maps (set_rx_info r i v) = ring_maps r + entry_maps v"
  using ring_set_info [OF assms(1), of v] assms(2) by (simp_all add: entry_pages_def entry_maps_def)

lemma ring_set_remove:
  assumes "i < length (r_rx_info r)" "ri_page (r_rx_info r ! i) = Some p" "ri_page v = None"
  shows "ring_pages r = add_mset p (ring_pages (set_rx_info r i v))"
    and "ring_maps r = add_mset (False, ri_dma_addr (r_rx_info r ! i), ri_len (r_rx_info r ! i)) (ring_maps (set_rx_info r i v))"
  using ring_set_info [OF assms(1), of v] assms(2,3) by (simp_all add: entry_pages_def entry_maps_def)

text \<open>Preparing a descriptor: on success the entry holds what was allocated, on failure nothing is kept.\<close>

lemma prepare_spec:
  assumes "mqnic_prepare_rx_desc r i s = Some (ok, r', s')" "rx_accounts B D r s"
  shows "rx_accounts B D r' s'" "adds a s s'"
    "if ok then ri_page (r_rx_info r ! unat i) = None \<and>
        (\<exists>ri. r' = set_rx_info r (unat i) ri \<and> ri_page ri \<noteq> None \<and>
          ri_len ri = push_bit (unat (r_page_order r)) (w_page_size s))
      else r' = r"
proof -
  let ?i = "unat i" and ?ri = "r_rx_info r ! unat i"
  let ?len = "push_bit (unat (r_page_order r)) (w_page_size s)"
  from assms(1) obtain buf where b: "r_buf r = Some buf" and i: "?i < length (r_rx_info r)"
    by (auto simp: mqnic_prepare_rx_desc_def split: option.splits if_splits)
  let ?d = "buf + ucast (i * r_stride r)"
  have all: "rx_accounts B D r' s' \<and> adds a s s' \<and> (if ok then ri_page ?ri = None \<and>
        (\<exists>ri. r' = set_rx_info r ?i ri \<and> ri_page ri \<noteq> None \<and> ri_len ri = ?len) else r' = r)"
  proof (cases "ri_page ?ri")
    case (Some q)
    with assms b i show ?thesis by (auto simp: mqnic_prepare_rx_desc_def Let_def)
  next
    case None
    note None' = None
    show ?thesis
    proof (cases "w_page_alloc s (trace s) (r_page_order r)")
      case None
      with \<open>ri_page ?ri = None\<close> assms b i show ?thesis by (auto simp: mqnic_prepare_rx_desc_def Let_def)
    next
      case (Some page)
      let ?s1 = "emit (PageAlloc page (r_page_order r)) s"
      show ?thesis
      proof (cases "w_dma_map ?s1 (trace ?s1)")
        case None
        with Some \<open>ri_page ?ri = None\<close> assms b i show ?thesis
          by (auto simp: mqnic_prepare_rx_desc_def Let_def rx_accounts_def intro!: adds_intros)
      next
        case (Some x)
        let ?v = "\<lparr>ri_page = Some page, ri_page_order = r_page_order r, ri_page_offset = 0, ri_dma_addr = x, ri_len = ?len\<rparr>"
        have e: "ok" "r' = set_rx_info r ?i ?v" "s' = store_desc ?d 0 ?len x (emit (DmaMapPage x ?len) ?s1)"
          using Some \<open>w_page_alloc s (trace s) (r_page_order r) = Some page\<close> None' assms(1) b i
          by (auto simp: mqnic_prepare_rx_desc_def Let_def)
        have "adds a s s'" unfolding e(3) by (intro adds_intros) simp_all
        moreover have "rx_accounts B D r' s'"
          using assms(2) ring_set_add [OF i None', of ?v]
          by (simp add: rx_accounts_def e(2,3) entry_pages_def entry_maps_def)
        moreover have "\<exists>ri. r' = set_rx_info r ?i ri \<and> ri_page ri \<noteq> None \<and> ri_len ri = ?len"
          by (intro exI [of _ ?v]) (simp add: e(2))
        ultimately show ?thesis by (simp only: e(1) None' if_True simp_thms)
      qed
    qed
  qed
  from all show "rx_accounts B D r' s'" "adds a s s'" by simp_all
  from all show "if ok then ri_page ?ri = None \<and>
        (\<exists>ri. r' = set_rx_info r ?i ri \<and> ri_page ri \<noteq> None \<and> ri_len ri = ?len) else r' = r" by blast
qed

lemma prepare_defined:
  "r_buf r \<noteq> None \<Longrightarrow> unat i < length (r_rx_info r) \<Longrightarrow> mqnic_prepare_rx_desc r i s \<noteq> None"
  by (auto simp: mqnic_prepare_rx_desc_def Let_def split: option.splits)


section \<open>The window of posted entries\<close>

definition rx_slot :: "mqnic_ring \<Rightarrow> u32 \<Rightarrow> mqnic_rx_info" where
  "rx_slot r p = r_rx_info r ! unat (p AND r_size_mask r)"

definition rx_posted :: "mqnic_ring \<Rightarrow> nat" where
  "rx_posted r = unat (r_head_ptr r - r_clean_tail_ptr r)"

text \<open>The entries outside the window from the clean tail to the head are empty.\<close>

definition rx_inv :: "mqnic_ring \<Rightarrow> bool" where
  "rx_inv r \<longleftrightarrow> ring_dims (r_size r) (r_size_mask r) \<and> r_buf r \<noteq> None \<and>
     length (r_rx_info r) = unat (r_size r) \<and> rx_posted r \<le> unat (r_size r) \<and>
     (\<forall>j<unat (r_size r). rx_posted r \<le> j \<longrightarrow> ri_page (rx_slot r (r_clean_tail_ptr r + of_nat j)) = None)"

lemma rx_inv_index: "rx_inv r \<Longrightarrow> unat (p AND r_size_mask r) < length (r_rx_info r)"
  by (simp add: rx_inv_def ring_index_less)

lemma rx_inv_size: "rx_inv r \<Longrightarrow> unat (r_size r) \<le> 2 ^ 31"
proof -
  assume "rx_inv r"
  then obtain k where "k < 32" "unat (r_size r) = 2 ^ k"
    using ring_dims_mask [of "r_size r" "r_size_mask r"] by (auto simp: rx_inv_def)
  then show ?thesis using power_increasing [of k 31 "2::nat"] by simp
qed

lemma rx_head_eq: "r_head_ptr r = r_clean_tail_ptr r + of_nat (rx_posted r)"
  by (simp add: rx_posted_def)

lemma unat_of_nat_ring: "rx_inv r \<Longrightarrow> j < unat (r_size r) \<Longrightarrow> unat (of_nat j :: u32) = j"
  using rx_inv_size [of r] by (simp add: unat_of_nat)

lemma rx_slot_distinct:
  assumes "rx_inv r" "i < unat (r_size r)" "j < unat (r_size r)" "i \<noteq> j"
  shows "unat ((p + of_nat i) AND r_size_mask r) \<noteq> unat ((p + of_nat j) AND r_size_mask r)"
proof
  assume "unat ((p + of_nat i) AND r_size_mask r) = unat ((p + of_nat j) AND r_size_mask r)"
  then have "(p + of_nat i) AND r_size_mask r = (p + of_nat j) AND r_size_mask r" by (simp add: word_unat_eq_iff)
  then have "(of_nat i :: u32) = of_nat j"
    using assms unat_of_nat_ring [OF assms(1)] ring_index_inj [of "r_size r" "r_size_mask r" "of_nat i" "of_nat j" p]
    by (auto simp: rx_inv_def)
  then show False using assms unat_of_nat_ring [OF assms(1)] by metis
qed

text \<open>Filling the entry at the head and advancing the head keeps the invariant.\<close>

lemma rx_inv_push:
  assumes inv: "rx_inv r" and room: "rx_posted r < unat (r_size r)"
    and r': "r' = (set_rx_info r (unat (r_head_ptr r AND r_size_mask r)) v)\<lparr>r_head_ptr := r_head_ptr r + 1\<rparr>"
  shows "rx_inv r'" "rx_posted r' = Suc (rx_posted r)"
    "rx_slot r' (r_head_ptr r) = v"
    "p AND r_size_mask r \<noteq> r_head_ptr r AND r_size_mask r \<Longrightarrow> rx_slot r' p = rx_slot r p"
proof -
  let ?h = "unat (r_head_ptr r AND r_size_mask r)"
  have "r_head_ptr r + 1 - r_clean_tail_ptr r = of_nat (Suc (rx_posted r))"
    by (simp add: rx_posted_def algebra_simps)
  then show post: "rx_posted r' = Suc (rx_posted r)"
    using room rx_inv_size [OF inv] by (simp add: rx_posted_def r' set_rx_info_def unat_of_nat del: of_nat_Suc)
  have slot: "rx_slot r' q = (if unat (q AND r_size_mask r) = ?h then v else rx_slot r q)" for q
    using rx_inv_index [OF inv] by (auto simp: rx_slot_def r' set_rx_info_def)
  have "ri_page (rx_slot r' (r_clean_tail_ptr r + of_nat j)) = None"
    if "j < unat (r_size r)" "Suc (rx_posted r) \<le> j" for j
    using inv that room rx_slot_distinct [OF inv that(1) room, of "r_clean_tail_ptr r"]
    by (auto simp: slot rx_inv_def simp flip: rx_head_eq)
  then show "rx_inv r'"
    using inv room post unfolding rx_inv_def by (simp add: r' set_rx_info_def)
  show "rx_slot r' (r_head_ptr r) = v" by (simp add: slot)
  show "p AND r_size_mask r \<noteq> r_head_ptr r AND r_size_mask r \<Longrightarrow> rx_slot r' p = rx_slot r p"
    by (simp add: slot word_unat_eq_iff)
qed

text \<open>Only the entries and the head differ.\<close>

definition rx_grown :: "mqnic_ring \<Rightarrow> nat \<Rightarrow> mqnic_ring \<Rightarrow> bool" where
  "rx_grown r k r' \<longleftrightarrow> (\<exists>ris. r' = r\<lparr>r_rx_info := ris, r_head_ptr := r_head_ptr r + of_nat k\<rparr> \<and>
     length ris = length (r_rx_info r))"

text \<open>Why filling stopped early: no page, or a page that could not be mapped.\<close>

definition rx_starved :: "mqnic_ring \<Rightarrow> sys \<Rightarrow> bool" where
  "rx_starved r s \<longleftrightarrow> w_page_alloc s (trace s) (r_page_order r) = None \<or> (\<exists>p n tr. trace s = PageFree p n # tr)"

lemma prepare_starved:
  "mqnic_prepare_rx_desc r i s = Some (False, r', s') \<Longrightarrow> ri_page (r_rx_info r ! unat i) = None \<Longrightarrow> rx_starved r s'"
  by (auto simp: mqnic_prepare_rx_desc_def rx_starved_def Let_def split: option.splits if_splits)

lemma refill_loop_spec:
  "rx_refill_loop n r s = Some (r', s') \<Longrightarrow> rx_inv r \<Longrightarrow> rx_accounts B D r s \<Longrightarrow> n + rx_posted r \<le> unat (r_size r) \<Longrightarrow>
    rx_inv r' \<and> rx_accounts B D r' s' \<and> adds a s s' \<and>
    (\<exists>k\<le>n. rx_grown r k r' \<and> rx_posted r' = rx_posted r + k \<and>
      (\<forall>j<rx_posted r. rx_slot r' (r_clean_tail_ptr r + of_nat j) = rx_slot r (r_clean_tail_ptr r + of_nat j)) \<and>
      (\<forall>j<k. ri_page (rx_slot r' (r_head_ptr r + of_nat j)) \<noteq> None) \<and> (k < n \<longrightarrow> rx_starved r s'))"
proof (induction n r s rule: rx_refill_loop.induct)
  case (1 r s)
  then show ?case
    by (auto simp: rx_grown_def intro!: exI [of _ "r_rx_info r"])
next
  case (2 n r s)
  let ?h = "r_head_ptr r AND r_size_mask r"
  from "2.prems"(1) obtain ok r1 s1 where p: "mqnic_prepare_rx_desc r ?h s = Some (ok, r1, s1)"
    by (auto split: option.splits)
  note q = prepare_spec [OF p "2.prems"(3)]
  have room: "rx_posted r < unat (r_size r)" using "2.prems"(4) by simp
  have empty: "ri_page (r_rx_info r ! unat ?h) = None"
    using "2.prems"(2) room unfolding rx_inv_def rx_slot_def by (metis order_refl rx_head_eq)
  show ?case
  proof (cases ok)
    case False
    with "2.prems"(1) p q(3) have "r' = r" "s' = s1" by auto
    with False q p empty "2.prems"(2) prepare_starved [of r ?h s r1 s1] show ?thesis
      by (auto simp: rx_grown_def intro!: exI [of _ "0::nat"] exI [of _ "r_rx_info r"])
  next
    case True
    with q(3) obtain ri where ri: "r1 = set_rx_info r (unat ?h) ri" "ri_page ri \<noteq> None" by auto
    let ?r2 = "r1\<lparr>r_head_ptr := r_head_ptr r1 + 1\<rparr>"
    have r2: "?r2 = (set_rx_info r (unat ?h) ri)\<lparr>r_head_ptr := r_head_ptr r + 1\<rparr>" by (simp add: ri(1) set_rx_info_def)
    note push = rx_inv_push [OF "2.prems"(2) room r2]
    have f2: "r_head_ptr ?r2 = r_head_ptr r + 1" "r_clean_tail_ptr ?r2 = r_clean_tail_ptr r" "r_size ?r2 = r_size r"
      "r_page_order ?r2 = r_page_order r" "r_size_mask ?r2 = r_size_mask r"
      by (simp_all add: ri(1) set_rx_info_def)
    have acc: "rx_accounts B D ?r2 s1" using q(1) by (simp add: rx_accounts_def ring_pages_def ring_maps_def)
    have l: "rx_refill_loop n ?r2 s1 = Some (r', s')" using "2.prems"(1) p True by simp
    from "2.IH" [OF p refl refl _ l push(1) acc] True "2.prems"(4) push(2) f2 obtain k where
      IH: "rx_inv r'" "rx_accounts B D r' s'" "adds a s1 s'" "k \<le> n" "rx_grown ?r2 k r'" "rx_posted r' = rx_posted ?r2 + k"
        "\<forall>j<rx_posted ?r2. rx_slot r' (r_clean_tail_ptr r + of_nat j) = rx_slot ?r2 (r_clean_tail_ptr r + of_nat j)"
        "\<forall>j<k. ri_page (rx_slot r' (r_head_ptr r + 1 + of_nat j)) \<noteq> None" "k < n \<longrightarrow> rx_starved ?r2 s'"
      by auto
    have h0: "rx_slot r' (r_head_ptr r) = ri"
      using IH(7) [rule_format, of "rx_posted r"] push(2,3) by (simp flip: rx_head_eq)
    have new: "ri_page (rx_slot r' (r_head_ptr r + of_nat j)) \<noteq> None" if "j < Suc k" for j
      using that h0 ri(2) IH(8) [rule_format, of "j - 1"] by (cases j) (auto simp: add.assoc)
    have old: "rx_slot r' (r_clean_tail_ptr r + of_nat j) = rx_slot r (r_clean_tail_ptr r + of_nat j)" if "j < rx_posted r" for j
    proof -
      have "(r_clean_tail_ptr r + of_nat j) AND r_size_mask r \<noteq> r_head_ptr r AND r_size_mask r"
        using rx_slot_distinct [OF "2.prems"(2), of j "rx_posted r" "r_clean_tail_ptr r"] that room
        by (auto simp flip: rx_head_eq)
      with push(4) IH(7) push(2) that show ?thesis by simp
    qed
    have g: "rx_grown r (Suc k) r'"
      using IH(5) by (auto simp: rx_grown_def ri(1) set_rx_info_def add.assoc)
    have "adds a s s'" using q(2) IH(3) by (rule adds_trans)
    moreover have "rx_starved r s'" if "k < n" using IH(9) that by (simp add: rx_starved_def f2)
    ultimately show ?thesis
      using IH(1,2,4,6) push(2) g new old by (intro conjI exI [of _ "Suc k"]) auto
  qed
qed


text \<open>The whole refill.\<close>

lemma refill_loop_defined:
  "rx_inv r \<Longrightarrow> n + rx_posted r \<le> unat (r_size r) \<Longrightarrow> rx_refill_loop n r s \<noteq> None"
proof (induction n r s rule: rx_refill_loop.induct)
  case (2 n r s)
  let ?h = "r_head_ptr r AND r_size_mask r"
  have "r_buf r \<noteq> None" "unat ?h < length (r_rx_info r)"
    using "2.prems"(1) by (auto simp: rx_inv_def ring_index_less)
  then obtain ok r1 s1 where p: "mqnic_prepare_rx_desc r ?h s = Some (ok, r1, s1)"
    using prepare_defined [of r ?h s] by auto
  show ?case
  proof (cases ok)
    case True
    obtain ri where ri: "r1 = set_rx_info r (unat ?h) ri"
      using p True by (auto simp: mqnic_prepare_rx_desc_def Let_def split: option.splits if_splits)
    have r2: "r1\<lparr>r_head_ptr := r_head_ptr r1 + 1\<rparr> = (set_rx_info r (unat ?h) ri)\<lparr>r_head_ptr := r_head_ptr r + 1\<rparr>"
      by (simp add: ri set_rx_info_def)
    have "rx_posted r < unat (r_size r)" using "2.prems"(2) by simp
    note push = rx_inv_push [OF "2.prems"(1) this r2]
    have "r_size (r1\<lparr>r_head_ptr := r_head_ptr r1 + 1\<rparr>) = r_size r" by (simp add: ri set_rx_info_def)
    with "2.IH" [OF p refl refl _ push(1)] True "2.prems"(2) push(2) p show ?thesis by simp
  qed (use p in simp)
qed simp

lemma missing_eq: "rx_inv r \<Longrightarrow> unat (r_size r - (r_head_ptr r - r_clean_tail_ptr r)) = unat (r_size r) - rx_posted r"
  by (simp add: rx_inv_def rx_posted_def unat_sub_le)

lemma refill_spec:
  assumes "rx_inv r" "rx_accounts B D r s"
  obtains r' s' k where "mqnic_refill_rx_buffers r s = Some (r', s')" "rx_inv r'" "rx_accounts B D r' s'"
    "r_hw_head_ptr r = a + HEAD_PTR_REG \<longrightarrow> adds a s s'" "rx_grown r k r'" "rx_posted r' = rx_posted r + k"
    "\<forall>j<rx_posted r. rx_slot r' (r_clean_tail_ptr r + of_nat j) = rx_slot r (r_clean_tail_ptr r + of_nat j)"
    "\<forall>j<k. ri_page (rx_slot r' (r_head_ptr r + of_nat j)) \<noteq> None"
    "if unat (r_size r) - rx_posted r < 8 then s' = s \<and> k = 0
     else \<exists>t. (rx_posted r' < unat (r_size r) \<longrightarrow> rx_starved r t) \<and>
       s' = iowrite32 (r_head_ptr r' AND r_hw_ptr_mask r) (r_hw_head_ptr r) t"
proof -
  note m = missing_eq [OF assms(1)]
  show thesis
  proof (cases "unat (r_size r) - rx_posted r < 8")
    case True
    with m have e: "mqnic_refill_rx_buffers r s = Some (r, s)"
      by (simp add: mqnic_refill_rx_buffers_def Let_def word_less_nat_alt)
    show thesis
      by (rule that [OF e]) (use assms True in \<open>auto simp: rx_grown_def intro!: exI [of _ "r_rx_info r"]\<close>)
  next
    case False
    let ?n = "unat (r_size r) - rx_posted r"
    have le: "?n + rx_posted r \<le> unat (r_size r)" using assms(1) by (simp add: rx_inv_def)
    from refill_loop_defined [OF assms(1) le, of s] obtain r' t where l: "rx_refill_loop ?n r s = Some (r', t)" by auto
    with False m have e: "mqnic_refill_rx_buffers r s = Some (r', mqnic_rx_write_head_ptr r' t)"
      by (simp add: mqnic_refill_rx_buffers_def Let_def word_less_nat_alt)
    from refill_loop_spec [OF l assms le, of a] obtain k where
      L: "rx_inv r'" "rx_accounts B D r' t" "adds a s t" "k \<le> ?n" "rx_grown r k r'" "rx_posted r' = rx_posted r + k"
        "\<forall>j<rx_posted r. rx_slot r' (r_clean_tail_ptr r + of_nat j) = rx_slot r (r_clean_tail_ptr r + of_nat j)"
        "\<forall>j<k. ri_page (rx_slot r' (r_head_ptr r + of_nat j)) \<noteq> None" "k < ?n \<longrightarrow> rx_starved r t"
      by blast
    have f: "r_hw_head_ptr r' = r_hw_head_ptr r" "r_hw_ptr_mask r' = r_hw_ptr_mask r"
      using L(5) by (auto simp: rx_grown_def)
    have w: "mqnic_rx_write_head_ptr r' t = iowrite32 (r_head_ptr r' AND r_hw_ptr_mask r) (r_hw_head_ptr r) t"
      by (simp add: mqnic_rx_write_head_ptr_def f)
    show thesis
    proof (rule that [OF e L(1) _ _ L(5-8)])
      show "rx_accounts B D r' (mqnic_rx_write_head_ptr r' t)"
        using L(2) by (simp add: w rx_accounts_def)
      show "r_hw_head_ptr r = a + HEAD_PTR_REG \<longrightarrow> adds a s (mqnic_rx_write_head_ptr r' t)"
        unfolding w using L(3) by (auto intro!: adds_intros)
      have "rx_posted r' < unat (r_size r) \<longrightarrow> rx_starved r t" using L(6,9) le by auto
      with False w show "if ?n < 8 then mqnic_rx_write_head_ptr r' t = s \<and> k = 0
        else \<exists>t'. (rx_posted r' < unat (r_size r) \<longrightarrow> rx_starved r t') \<and>
          mqnic_rx_write_head_ptr r' t = iowrite32 (r_head_ptr r' AND r_hw_ptr_mask r) (r_hw_head_ptr r) t'" by auto
    qed
  qed
qed

section \<open>Giving everything back\<close>

lemma rx_free_desc_effects:
  assumes "mqnic_free_rx_desc r i s = Some (r', s')"
  shows "adds a s s'" "\<exists>p v. unat i < length (r_rx_info r) \<and> ri_page (r_rx_info r ! unat i) = Some p \<and>
      r' = set_rx_info r (unat i) v \<and> ri_page v = None"
    "rx_accounts B D r s \<longrightarrow> rx_accounts B D r' s'"
proof -
  let ?ri = "r_rx_info r ! unat i" and ?v = "(r_rx_info r ! unat i)\<lparr>ri_dma_addr := 0, ri_page := None\<rparr>"
  from assms obtain p where i: "unat i < length (r_rx_info r)" and p: "ri_page ?ri = Some p"
    and e: "r' = set_rx_info r (unat i) ?v"
      "s' = emit (PageFree p (ri_page_order ?ri)) (emit (DmaUnmapPage (ri_dma_addr ?ri) (ri_len ?ri)) s)"
    by (auto simp: mqnic_free_rx_desc_def Let_def split: if_splits option.splits)
  show "adds a s s'" by (simp add: e(2) adds_emit)
  show "\<exists>p v. unat i < length (r_rx_info r) \<and> ri_page (r_rx_info r ! unat i) = Some p \<and>
      r' = set_rx_info r (unat i) v \<and> ri_page v = None"
    using i p e(1) by (intro exI [of _ p] exI [of _ ?v]) simp
  show "rx_accounts B D r s \<longrightarrow> rx_accounts B D r' s'"
    using ring_set_remove [OF i p, of ?v] by (auto simp: rx_accounts_def e)
qed

lemma rx_free_loop_spec:
  "rx_free_loop r cnt s = Some (r', cnt', s') \<Longrightarrow>
    adds a s s' \<and> cnt' = cnt + int (rx_posted r) \<and> (rx_accounts B D r s \<longrightarrow> rx_accounts B D r' s') \<and>
    (\<exists>ris. r' = r\<lparr>r_rx_info := ris, r_clean_tail_ptr := r_head_ptr r\<rparr> \<and> length ris = length (r_rx_info r))"
proof (induction r cnt s rule: rx_free_loop.induct)
  case (1 r cnt s)
  show ?case
  proof (cases "mqnic_is_rx_ring_empty r")
    case True
    with "1.prems" show ?thesis
      by (subst (asm) rx_free_loop.simps)
        (auto simp: mqnic_is_rx_ring_empty_def rx_posted_def intro!: exI [of _ "r_rx_info r"])
  next
    case False
    with "1.prems" obtain r1 s1 where
      f: "mqnic_free_rx_desc r (r_clean_tail_ptr r AND r_size_mask r) s = Some (r1, s1)" and
      l: "rx_free_loop (r\<lparr>r_rx_info := r_rx_info r1, r_clean_tail_ptr := r_clean_tail_ptr r + 1\<rparr>) (cnt + 1) s1 =
        Some (r', cnt', s')"
      by (subst (asm) rx_free_loop.simps) (auto split: option.splits)
    note e = rx_free_desc_effects [OF f]
    have len: "length (r_rx_info r1) = length (r_rx_info r)" using e(2) by (auto simp: set_rx_info_def)
    have "rx_posted r = Suc (rx_posted (r\<lparr>r_rx_info := r_rx_info r1, r_clean_tail_ptr := r_clean_tail_ptr r + 1\<rparr>))"
      using False unfolding rx_posted_def by (simp, intro ptr_dist) (auto simp: mqnic_is_rx_ring_empty_def)
    moreover have "rx_accounts B D r s \<longrightarrow>
        rx_accounts B D (r\<lparr>r_rx_info := r_rx_info r1, r_clean_tail_ptr := r_clean_tail_ptr r + 1\<rparr>) s1"
      using e(3) [of B D] by (simp add: rx_accounts_def ring_pages_def ring_maps_def)
    ultimately show ?thesis
      using "1.IH" [OF False f refl l] e(1) [of a] len by (auto intro: adds_trans)
  qed
qed

lemma ring_index_wrap: "ring_dims sz msk \<Longrightarrow> (p + sz) AND msk = p AND msk"
proof -
  assume d: "ring_dims sz msk"
  from ring_dims_mask [OF d] obtain k where k: "k < 32" "unat sz = 2 ^ k" by blast
  have "(unat p + 2 ^ k) mod 2 ^ 32 mod 2 ^ k = (unat p + 2 ^ k) mod 2 ^ k"
    using k(1) by (intro mod_mod_cancel le_imp_power_dvd) simp
  then have "unat ((p + sz) AND msk) = unat (p AND msk)"
    using k by (simp add: ring_index_mod [OF d] unat_word_ariths)
  then show ?thesis by (simp add: word_unat_eq_iff)
qed

text \<open>With every posted entry still owned, freeing succeeds and empties the ring.\<close>

lemma rx_inv_pop:
  assumes inv: "rx_inv r" and ne: "r_head_ptr r \<noteq> r_clean_tail_ptr r"
    and e: "ri_page (rx_slot r' (r_clean_tail_ptr r)) = None" "\<And>p. p AND r_size_mask r \<noteq> r_clean_tail_ptr r AND r_size_mask r \<Longrightarrow> rx_slot r' p = rx_slot r p"
    and c: "r_size r' = r_size r" "r_size_mask r' = r_size_mask r" "r_buf r' = r_buf r" "length (r_rx_info r') = length (r_rx_info r)"
      "r_head_ptr r' = r_head_ptr r" "r_clean_tail_ptr r' = r_clean_tail_ptr r + 1"
  shows "rx_inv r'" "rx_posted r = Suc (rx_posted r')"
proof -
  show post: "rx_posted r = Suc (rx_posted r')"
    unfolding rx_posted_def c by (rule ptr_dist) (use ne in simp)
  have sz: "rx_posted r \<le> unat (r_size r)" "length (r_rx_info r) = unat (r_size r)" using inv by (simp_all add: rx_inv_def)
  have "ri_page (rx_slot r' (r_clean_tail_ptr r + 1 + of_nat j)) = None" if j: "j < unat (r_size r)" "rx_posted r' \<le> j" for j
  proof (cases "Suc j < unat (r_size r)")
    case True
    have "(r_clean_tail_ptr r + of_nat (Suc j)) AND r_size_mask r \<noteq> r_clean_tail_ptr r AND r_size_mask r"
      using rx_slot_distinct [OF inv True, of 0 "r_clean_tail_ptr r"] j(1) by (auto simp: word_unat_eq_iff)
    then have "rx_slot r' (r_clean_tail_ptr r + of_nat (Suc j)) = rx_slot r (r_clean_tail_ptr r + of_nat (Suc j))"
      by (rule e(2))
    moreover have "ri_page (rx_slot r (r_clean_tail_ptr r + of_nat (Suc j))) = None"
      using inv True j(2) post unfolding rx_inv_def by auto
    ultimately show ?thesis by (simp add: add.assoc)
  next
    case False
    then have "Suc j = unat (r_size r)" using j(1) by simp
    from arg_cong [OF this, of "of_nat :: nat \<Rightarrow> u32"] have "(1 + of_nat j :: u32) = r_size r" by simp
    moreover have "(r_clean_tail_ptr r + r_size r) AND r_size_mask r = r_clean_tail_ptr r AND r_size_mask r"
      using ring_index_wrap inv by (auto simp: rx_inv_def)
    ultimately show ?thesis using e(1) by (simp add: rx_slot_def c add.assoc)
  qed
  then show "rx_inv r'" using inv post by (simp add: rx_inv_def c)
qed


lemma rx_free_loop_total:
  "rx_inv r \<Longrightarrow> \<forall>j<rx_posted r. ri_page (rx_slot r (r_clean_tail_ptr r + of_nat j)) \<noteq> None \<Longrightarrow>
    \<exists>r' cnt' s'. rx_free_loop r cnt s = Some (r', cnt', s') \<and> rx_inv r' \<and> rx_posted r' = 0"
proof (induction r cnt s rule: rx_free_loop.induct)
  case (1 r cnt s)
  show ?case
  proof (cases "mqnic_is_rx_ring_empty r")
    case True
    with "1.prems" show ?thesis
      by (subst rx_free_loop.simps) (auto simp: mqnic_is_rx_ring_empty_def rx_posted_def)
  next
    case False
    let ?i = "r_clean_tail_ptr r AND r_size_mask r"
    have ne: "r_head_ptr r \<noteq> r_clean_tail_ptr r" using False by (simp add: mqnic_is_rx_ring_empty_def)
    then have "0 < rx_posted r" unfolding rx_posted_def by (simp add: unat_gt_0)
    with "1.prems"(2) obtain pg where pg: "ri_page (r_rx_info r ! unat ?i) = Some pg"
      by (auto simp: rx_slot_def dest: spec [of _ 0])
    have i: "unat ?i < length (r_rx_info r)" by (rule rx_inv_index [OF "1.prems"(1)])
    from pg i obtain r1 s1 where f: "mqnic_free_rx_desc r ?i s = Some (r1, s1)"
      by (auto simp: mqnic_free_rx_desc_def Let_def)
    from rx_free_desc_effects(2) [OF f] obtain v where v: "r1 = set_rx_info r (unat ?i) v" "ri_page v = None" by auto
    let ?r2 = "r\<lparr>r_rx_info := r_rx_info r1, r_clean_tail_ptr := r_clean_tail_ptr r + 1\<rparr>"
    have slot: "rx_slot ?r2 p = (if p AND r_size_mask r = ?i then v else rx_slot r p)" for p
      using i by (auto simp: rx_slot_def v(1) set_rx_info_def word_unat_eq_iff)
    have e1: "ri_page (rx_slot ?r2 (r_clean_tail_ptr r)) = None" by (simp only: slot simp_thms if_True v(2))
    have e2: "p AND r_size_mask r \<noteq> ?i \<Longrightarrow> rx_slot ?r2 p = rx_slot r p" for p by (simp only: slot if_False)
    have len: "length (r_rx_info ?r2) = length (r_rx_info r)" by (simp add: v(1) set_rx_info_def)
    have pop: "rx_inv ?r2" "rx_posted r = Suc (rx_posted ?r2)"
      by (rule rx_inv_pop [OF "1.prems"(1) ne e1 e2]; use len in simp)+
    have "ri_page (rx_slot ?r2 (r_clean_tail_ptr ?r2 + of_nat j)) \<noteq> None" if j: "j < rx_posted ?r2" for j
    proof -
      have sz: "Suc j < unat (r_size r)" using j pop(2) "1.prems"(1) by (simp add: rx_inv_def)
      then have "(r_clean_tail_ptr r + of_nat (Suc j)) AND r_size_mask r \<noteq> ?i"
        using rx_slot_distinct [OF "1.prems"(1) sz, of 0 "r_clean_tail_ptr r"] by (auto simp: word_unat_eq_iff)
      then have "rx_slot ?r2 (r_clean_tail_ptr r + of_nat (Suc j)) = rx_slot r (r_clean_tail_ptr r + of_nat (Suc j))"
        by (simp add: slot)
      moreover have "ri_page (rx_slot r (r_clean_tail_ptr r + of_nat (Suc j))) \<noteq> None"
        using "1.prems"(2) j pop(2) by auto
      ultimately show ?thesis by (simp add: add.assoc)
    qed
    with "1.IH" [OF False f refl pop(1)] False f show ?thesis
      by (subst rx_free_loop.simps) simp
  qed
qed

text \<open>A ring with nothing posted records nothing.\<close>

lemma rx_all_none:
  assumes "rx_inv r" "rx_posted r = 0"
  shows "\<forall>ri\<in>set (r_rx_info r). ri_page ri = None"
proof -
  let ?f = "\<lambda>j. unat ((r_clean_tail_ptr r + of_nat j) AND r_size_mask r)"
  have "inj_on ?f {..<unat (r_size r)}"
    using rx_slot_distinct [OF assms(1)] by (auto simp: inj_on_def)
  moreover have "?f ` {..<unat (r_size r)} \<subseteq> {..<unat (r_size r)}"
    using assms(1) by (auto simp: rx_inv_def ring_index_less)
  ultimately have surj: "?f ` {..<unat (r_size r)} = {..<unat (r_size r)}"
    by (intro endo_inj_surj) simp_all
  have none: "ri_page ri = None" if "ri \<in> set (r_rx_info r)" for ri
  proof -
    have "length (r_rx_info r) = unat (r_size r)" using assms(1) by (simp add: rx_inv_def)
    with that obtain i where i: "i < unat (r_size r)" "ri = r_rx_info r ! i"
      by (metis in_set_conv_nth)
    have "i \<in> ?f ` {..<unat (r_size r)}" unfolding surj using i(1) by simp
    then obtain j where j: "j < unat (r_size r)" "i = ?f j" by blast
    have "ri_page (rx_slot r (r_clean_tail_ptr r + of_nat j)) = None"
      using assms j(1) unfolding rx_inv_def by simp
    then show ?thesis by (simp add: i(2) j(2) rx_slot_def)
  qed
  then show ?thesis by blast
qed

lemma rx_inv_empty:
  assumes "rx_inv r" "rx_posted r = 0"
  shows "ring_pages r = {#}" "ring_maps r = {#}"
proof -
  have none: "ri_page ri = None" if "ri \<in> set (r_rx_info r)" for ri using rx_all_none [OF assms] that by blast
  have "(\<forall>x\<in>set xs. ri_page x = None) \<Longrightarrow> sum_list (map entry_pages xs) = {#} \<and> sum_list (map entry_maps xs) = {#}" for xs
    by (induction xs) (simp_all add: entry_pages_def entry_maps_def)
  with none show "ring_pages r = {#}" "ring_maps r = {#}" by (simp_all add: ring_pages_def ring_maps_def)
qed

section \<open>Life cycle\<close>

definition rx_wf :: "mqnic_ring \<Rightarrow> cq_heap \<times> sys \<Rightarrow> bool" where
  "rx_wf r w \<longleftrightarrow> pow2_lib (snd w) \<and> r_hw_ptr_mask r = 0xffff \<and>
     r_hw_head_ptr r = r_hw_addr r + HEAD_PTR_REG \<and> r_hw_tail_ptr r = r_hw_addr r + TAIL_PTR_REG \<and>
     ring_dims (r_size r) (r_size_mask r) \<and> unat (r_log_desc_block_size r) < 32"

abbreviation rx_coupled :: "mqnic_ring \<Rightarrow> sys \<Rightarrow> bool" where
  "rx_coupled r s \<equiv> coupled (r_hw_addr r) (r_buf r) (r_buf_dma_addr r) (r_active r) (trace s)"

lemma rx_wf_extends: "extends s t \<Longrightarrow> rx_wf r (c, t) = rx_wf r (c', s)"
  by (simp add: rx_wf_def extends_pow2_lib)

lemma rx_grown_same: "rx_grown r k r' \<Longrightarrow> rx_wf r' w = rx_wf r w \<and> r_hw_addr r' = r_hw_addr r \<and>
    r_buf r' = r_buf r \<and> r_buf_dma_addr r' = r_buf_dma_addr r \<and> r_active r' = r_active r"
  by (auto simp: rx_grown_def rx_wf_def)

lemma refill_loop_grown: "rx_refill_loop n r s = Some (r', s') \<Longrightarrow> adds a s s' \<and> (\<exists>k. rx_grown r k r')"
proof (induction n r s rule: rx_refill_loop.induct)
  case (1 r s)
  then show ?case by (auto simp: rx_grown_def intro!: exI [of _ "0::nat"] exI [of _ "r_rx_info r"])
next
  case (2 n r s)
  from "2.prems" obtain ok r1 s1 where p: "mqnic_prepare_rx_desc r (r_head_ptr r AND r_size_mask r) s = Some (ok, r1, s1)"
    by (auto split: option.splits)
  have q: "adds a s s1" "ok \<longrightarrow> (\<exists>i v. r1 = set_rx_info r i v)" "\<not> ok \<longrightarrow> r1 = r"
    using p by (auto simp: mqnic_prepare_rx_desc_def Let_def split: option.splits if_splits intro!: adds_intros)
  show ?case
  proof (cases ok)
    case False
    with "2.prems" p q show ?thesis
      by (auto simp: rx_grown_def intro!: exI [of _ "0::nat"] exI [of _ "r_rx_info r"])
  next
    case True
    with q obtain i v where r1: "r1 = set_rx_info r i v" by auto
    from "2.IH" [OF p refl refl] True "2.prems" p obtain k where
      k: "adds a s1 s'" "rx_grown (r1\<lparr>r_head_ptr := r_head_ptr r1 + 1\<rparr>) k r'" by auto
    have "rx_grown r (Suc k) r'" using k(2) by (auto simp: rx_grown_def r1 set_rx_info_def add.assoc)
    with adds_trans [OF q(1) k(1)] show ?thesis by blast
  qed
qed

lemma refill_grown:
  "mqnic_refill_rx_buffers r s = Some (r', s') \<Longrightarrow> r_hw_head_ptr r = a + HEAD_PTR_REG \<Longrightarrow>
    adds a s s' \<and> (\<exists>k. rx_grown r k r')"
proof -
  assume f: "mqnic_refill_rx_buffers r s = Some (r', s')" and h: "r_hw_head_ptr r = a + HEAD_PTR_REG"
  show ?thesis
  proof (cases "r_size r - (r_head_ptr r - r_clean_tail_ptr r) < 8")
    case True
    with f show ?thesis
      by (auto simp: mqnic_refill_rx_buffers_def Let_def rx_grown_def intro!: exI [of _ "0::nat"] exI [of _ "r_rx_info r"])
  next
    case False
    with f obtain s1 where l: "rx_refill_loop (unat (r_size r - (r_head_ptr r - r_clean_tail_ptr r))) r s = Some (r', s1)"
      and s': "s' = mqnic_rx_write_head_ptr r' s1"
      by (auto simp: mqnic_refill_rx_buffers_def Let_def split: option.splits)
    note g = refill_loop_grown [OF l, of a]
    then have "r_hw_head_ptr r' = a + HEAD_PTR_REG" using h by (auto simp: rx_grown_def)
    with g s' show ?thesis by (auto simp: mqnic_rx_write_head_ptr_def intro!: adds_iowrite32)
  qed
qed


lemma rx_deactivate_law:
  assumes "rx_wf r (cqs, s)" "disciplined (r_hw_addr r) (trace s)" "mqnic_deactivate_rx_ring r cqs s = (r', cqs', s')"
  shows "coupled (r_hw_addr r) (r_buf r) (r_buf_dma_addr r) False (trace s')" "extends s s'"
    "r' = r\<lparr>r_priv := None, r_cq_ring := None, r_active := False\<rparr>" "rx_wf r (c, s')"
proof -
  have b: "\<not> bit (log_size_reg s r) 31"
    using assms(1) log_size_no_active by (auto simp: rx_wf_def)
  then show "coupled (r_hw_addr r) (r_buf r) (r_buf_dma_addr r) False (trace s')"
    using assms(2,3) by (auto simp: mqnic_deactivate_rx_ring_def Let_def coupled_off)
  show e: "extends s s'" and "r' = r\<lparr>r_priv := None, r_cq_ring := None, r_active := False\<rparr>"
    using assms(3) by (auto simp: mqnic_deactivate_rx_ring_def Let_def extends_iowrite32)
  show "rx_wf r (c, s')" using e assms(1) rx_wf_extends by blast
qed

lemma rx_alloc_cases:
  assumes "mqnic_alloc_rx_ring r n st s = (e, r', s')" "\<not> r_active r" "r_buf r = None"
  defines "sz \<equiv> ucast (w_roundup_pow_of_two s (word_of_int n)) :: u32"
  obtains (fail) "e \<noteq> 0" "adds (r_hw_addr r) s s'" "r_buf r' = None" "r_size r' = sz" "r_size_mask r' = sz - 1"
      "r_log_desc_block_size r' = log_block s (ucast (w_roundup_pow_of_two s (word_of_int st)))" "\<not> r_active r'"
      "r_hw_addr r' = r_hw_addr r" "r_hw_ptr_mask r' = r_hw_ptr_mask r" "r_hw_head_ptr r' = r_hw_head_ptr r" "r_hw_tail_ptr r' = r_hw_tail_ptr r"
  | (ok) m buf dma t where "e = 0" "adds (r_hw_addr r) s t" "r_buf r' = Some buf" "r_buf_dma_addr r' = dma" "r_size r' = sz" "r_size_mask r' = sz - 1"
      "r_log_desc_block_size r' = log_block s (ucast (w_roundup_pow_of_two s (word_of_int st)))" "\<not> r_active r'"
      "r_hw_addr r' = r_hw_addr r" "r_hw_ptr_mask r' = r_hw_ptr_mask r" "r_hw_head_ptr r' = r_hw_head_ptr r" "r_hw_tail_ptr r' = r_hw_tail_ptr r"
      "r_rx_info r' = replicate (unat sz) zero_rx_info" "r_head_ptr r' = 0" "r_clean_tail_ptr r' = 0"
      "s' = iowrites (config_writes (r_hw_addr r) dma 0 0 0 (log_size_reg t r')) t"
proof (cases "w_kalloc s (trace s)")
  case None
  show thesis
    by (rule fail; use assms(1-3) None in \<open>auto simp: mqnic_alloc_rx_ring_def kzalloc_def Let_def sz_def\<close>)
next
  case (Some m)
  let ?s1 = "emit (Kalloc m) s" and ?n = "ucast (sz * ucast (w_roundup_pow_of_two s (word_of_int st))) :: u64"
  note k = Some
  show thesis
  proof (cases "w_dma_alloc ?s1 (trace ?s1) ?n")
    case None
    show thesis
      by (rule fail; use assms(1-3) k None in \<open>auto simp: mqnic_alloc_rx_ring_def kzalloc_def dma_alloc_coherent_def Let_def sz_def intro!: adds_intros\<close>)
  next
    case (Some y)
    obtain buf dma where y: "y = (buf, dma)" by force
    let ?t = "emit (DmaAlloc dma ?n) ?s1"
    have "adds (r_hw_addr r) s ?t" by (intro adds_intros) simp_all
    then show thesis
      by (rule ok [where t = ?t and buf = buf and dma = dma, rotated];
        use assms(1-3) k Some y in \<open>auto simp: mqnic_alloc_rx_ring_def kzalloc_def dma_alloc_coherent_def Let_def sz_def log_size_reg_def simp del: iowrites_Cons\<close>)
  qed
qed

lemma rx_alloc_law:
  assumes "rx_wf r (cqs, s)" "rx_coupled r s" "0 < n" "n \<le> 2 ^ 31"
    and "mqnic_alloc_rx_ring r n st s = (e, r', s')"
  shows "rx_wf r' (cqs, s') \<and> r_hw_addr r' = r_hw_addr r \<and> rx_coupled r' s'"
proof (cases "r_active r \<or> r_buf r \<noteq> None")
  case True
  with assms show ?thesis by (auto simp: mqnic_alloc_rx_ring_def)
next
  case False
  have p: "pow2_lib s" and w: "r_hw_ptr_mask r = 0xffff" "r_hw_head_ptr r = r_hw_addr r + HEAD_PTR_REG"
    "r_hw_tail_ptr r = r_hw_addr r + TAIL_PTR_REG" using assms(1) by (auto simp: rx_wf_def)
  note dims = roundup_dims [OF p assms(3,4)]
  have d: "disciplined (r_hw_addr r) (trace s)" and c: "coupled (r_hw_addr r) None x False (trace s)" for x
    using assms(2) False by (auto simp: coupled_def)
  note lb = log_block_bound [OF p]
  show ?thesis
  proof (rule rx_alloc_cases [OF assms(5)])
    show "\<not> r_active r" "r_buf r = None" using False by simp_all
  next
    assume f: "adds (r_hw_addr r) s s'" "r_buf r' = None" "r_size r' = ucast (w_roundup_pow_of_two s (word_of_int n))"
      "r_size_mask r' = ucast (w_roundup_pow_of_two s (word_of_int n)) - 1"
      "r_log_desc_block_size r' = log_block s (ucast (w_roundup_pow_of_two s (word_of_int st)))" "\<not> r_active r'"
      "r_hw_addr r' = r_hw_addr r" "r_hw_ptr_mask r' = r_hw_ptr_mask r" "r_hw_head_ptr r' = r_hw_head_ptr r" "r_hw_tail_ptr r' = r_hw_tail_ptr r"
    have "pow2_lib s'" using p extends_pow2_lib [OF adds_extends [OF f(1)]] by simp
    moreover have "coupled (r_hw_addr r) None x False (trace s')" for x using c adds_coupled [OF f(1)] by simp
    ultimately show ?thesis using f w dims lb by (simp add: rx_wf_def)
  next
    fix m :: nat and buf dma t
    assume f: "adds (r_hw_addr r) s t" "r_buf r' = Some buf" "r_buf_dma_addr r' = dma" "r_size r' = ucast (w_roundup_pow_of_two s (word_of_int n))"
      "r_size_mask r' = ucast (w_roundup_pow_of_two s (word_of_int n)) - 1"
      "r_log_desc_block_size r' = log_block s (ucast (w_roundup_pow_of_two s (word_of_int st)))" "\<not> r_active r'"
      "r_hw_addr r' = r_hw_addr r" "r_hw_ptr_mask r' = r_hw_ptr_mask r" "r_hw_head_ptr r' = r_hw_head_ptr r" "r_hw_tail_ptr r' = r_hw_tail_ptr r"
      "s' = iowrites (config_writes (r_hw_addr r) dma 0 0 0 (log_size_reg t r')) t"
    have pt: "pow2_lib t" using p extends_pow2_lib [OF adds_extends [OF f(1)]] by simp
    have "\<not> bit (log_size_reg t r') 31"
      by (rule log_size_no_active [OF pt]) (simp_all add: f dims lb)
    moreover have "coupled (r_hw_addr r) None 0 False (trace t)" using c adds_coupled [OF f(1)] by simp
    then have "disciplined (r_hw_addr r) (trace t)" by (simp add: coupled_def)
    ultimately have "coupled (r_hw_addr r) (Some buf) dma False (trace s')"
      unfolding f(12) by (rule config_off [rotated])
    moreover have "pow2_lib s'"
      using pt unfolding f(12) by (simp add: extends_pow2_lib [OF extends_iowrites [OF extends_refl]])
    ultimately show ?thesis using f w dims lb by (simp add: rx_wf_def)
  qed
qed


lemma rx_activate_law:
  assumes "rx_wf r (cqs, s)" "rx_coupled r s" "mqnic_activate_rx_ring r priv cq cqs s = Some (ret, r', cqs', s')"
  shows "rx_wf r' (cqs', s') \<and> r_hw_addr r' = r_hw_addr r \<and> rx_coupled r' s' \<and> (ret = 0 \<longleftrightarrow> r_active r')"
proof -
  obtain r1 cqs1 s1 where d: "mqnic_deactivate_rx_ring r cqs s = (r1, cqs1, s1)" by (metis prod_cases3)
  have dis: "disciplined (r_hw_addr r) (trace s)" using assms(2) by (simp add: coupled_def)
  note c = rx_deactivate_law [OF assms(1) dis d]
  show ?thesis
  proof (cases "r_buf r = None \<or> priv = None \<or> cq = None \<or> cq_handler (cqs1 (the cq)) \<noteq> None \<or> cq_src_ring (cqs1 (the cq)) \<noteq> None")
    case True
    with assms(3) d c show ?thesis
      by (auto simp: mqnic_activate_rx_ring_def Let_def rx_wf_def split: option.splits if_splits)
  next
    case False
    then obtain b p i where bi: "r_buf r = Some b" "priv = Some p" "cq = Some i"
      "cq_handler (cqs1 i) = None" "cq_src_ring (cqs1 i) = None" by auto
    let ?r2 = "r1\<lparr>r_priv := Some p, r_cq_ring := Some i, r_active := True\<rparr>"
    obtain x hp tp s2 where e: "ret = 0"
      "s2 = iowrites (config_writes (r_hw_addr r) (r_buf_dma_addr r) x hp tp (log_size_reg s1 r1 OR ACTIVE_MASK)) s1"
      "mqnic_refill_rx_buffers ?r2 s2 = Some (r', s')"
      using assms(3) d bi c(3) by (auto simp: mqnic_activate_rx_ring_def Let_def log_size_reg_def simp del: iowrites_Cons split: option.splits)
    have "disciplined (r_hw_addr r) (trace s1)" using c(1) by (simp add: coupled_def)
    then have k: "coupled (r_hw_addr r) (r_buf r) (r_buf_dma_addr r) True (trace s2)"
      unfolding e(2) by (rule config_on) (simp_all add: bi)
    have "r_hw_head_ptr ?r2 = r_hw_addr r + HEAD_PTR_REG" using assms(1) c(3) by (simp add: rx_wf_def)
    from refill_grown [OF e(3) this] obtain j where g: "adds (r_hw_addr r) s2 s'" "rx_grown ?r2 j r'" by blast
    have "extends s1 s2" unfolding e(2) by (intro extends_iowrites extends_refl)
    then have "extends s1 s'" using adds_extends [OF g(1)] extends_trans by blast
    then have "rx_wf r (cqs', s')" using c(4) rx_wf_extends by blast
    then have "rx_wf ?r2 (cqs', s')" by (simp add: c(3) rx_wf_def)
    with rx_grown_same [OF g(2)] e k c(3) adds_coupled [OF g(1)] show ?thesis by simp
  qed
qed

lemma rx_free_law:
  assumes "rx_wf r (cqs, s)" "rx_coupled r s" "mqnic_free_rx_ring r cqs s = Some (r', cqs', s')"
  shows "rx_wf r' (cqs', s') \<and> r_hw_addr r' = r_hw_addr r \<and> rx_coupled r' s' \<and> \<not> r_active r' \<and> r_buf r' = None"
proof -
  obtain r1 cqs1 s1 where d: "mqnic_deactivate_rx_ring r cqs s = (r1, cqs1, s1)" by (metis prod_cases3)
  have dis: "disciplined (r_hw_addr r) (trace s)" using assms(2) by (simp add: coupled_def)
  note c = rx_deactivate_law [OF assms(1) dis d]
  show ?thesis
  proof (cases "r_buf r")
    case None
    with assms(3) d c show ?thesis by (auto simp: mqnic_free_rx_ring_def rx_wf_def)
  next
    case (Some b)
    with assms(3) d c obtain cnt r2 s2 where f: "rx_free_loop r1 0 s1 = Some (r2, cnt, s2)"
      and e: "r' = r2\<lparr>r_head_ptr := 0, r_tail_ptr := 0, r_clean_tail_ptr := 0, r_buf := None, r_buf_dma_addr := 0,
          r_rx_info := [], r_info_mem := None\<rparr>"
        "s' = (case r_info_mem r2 of None \<Rightarrow> emit (DmaFree (r_buf_dma_addr r2) (r_buf_size r2)) s2
           | Some m \<Rightarrow> emit (Kfree m) (emit (DmaFree (r_buf_dma_addr r2) (r_buf_size r2)) s2))"
      by (auto simp: mqnic_free_rx_ring_def mqnic_free_rx_buf_def Let_def split: option.splits)
    note l = rx_free_loop_spec [OF f, where a = "r_hw_addr r" and B = "{#}" and D = "{#}"]
    have k: "coupled (r_hw_addr r) (r_buf r) (r_buf_dma_addr r) False (trace s2)"
      using c(1) adds_coupled [OF conjunct1 [OF l]] by simp
    from l c(3) obtain ris where r2: "r2 = r\<lparr>r_priv := None, r_cq_ring := None, r_active := False, r_rx_info := ris,
        r_clean_tail_ptr := r_head_ptr r\<rparr>"
      by auto
    have "coupled (r_hw_addr r) None 0 False (trace s')"
      using coupled_free [OF k] by (auto simp: e(2) coupled_neutral1 split: option.splits)
    moreover have "extends s1 s2" by (rule adds_extends [OF conjunct1 [OF l]])
    then have "extends s s2" using c(2) by (rule extends_trans [rotated])
    then have "extends s s'" by (simp add: e(2) extends_emit split: option.splits)
    then have "rx_wf r (cqs', s')" using assms(1) rx_wf_extends by blast
    ultimately show ?thesis
      using r2 by (simp add: e(1) rx_wf_def)
  qed
qed

datatype rx_op = RxAlloc int int | RxFree | RxActivate "int option" "int option" | RxDeactivate | RxRefill | RxReadTail

fun rx_step :: "rx_op \<Rightarrow> mqnic_ring \<times> cq_heap \<times> sys \<Rightarrow> mqnic_ring \<times> cq_heap \<times> sys" where
  "rx_step (RxAlloc n st) (r, cqs, s) =
     (if n < 1 \<or> n > 2 ^ 31 then (r, cqs, s)
      else case mqnic_alloc_rx_ring r n st s of (_, r, s) \<Rightarrow> (r, cqs, s))"
| "rx_step RxFree (r, cqs, s) = (case mqnic_free_rx_ring r cqs s of None \<Rightarrow> (r, cqs, s) | Some x \<Rightarrow> x)"
| "rx_step (RxActivate p c) (r, cqs, s) =
     (case mqnic_activate_rx_ring r p c cqs s of None \<Rightarrow> (r, cqs, s) | Some x \<Rightarrow> snd x)"
| "rx_step RxDeactivate (r, cqs, s) = mqnic_deactivate_rx_ring r cqs s"
| "rx_step RxRefill (r, cqs, s) = (case mqnic_refill_rx_buffers r s of None \<Rightarrow> (r, cqs, s) | Some (r, s) \<Rightarrow> (r, cqs, s))"
| "rx_step RxReadTail (r, cqs, s) = (case mqnic_rx_read_tail_ptr r s of (r, s) \<Rightarrow> (r, cqs, s))"

lemma rx_step_law:
  assumes "rx_wf r w" "coupled (r_hw_addr r) (r_buf r) (r_buf_dma_addr r) (r_active r) (trace (snd w))"
    "rx_step x (r, w) = (r', w')"
  shows "rx_wf r' w' \<and> r_hw_addr r' = r_hw_addr r \<and>
    coupled (r_hw_addr r') (r_buf r') (r_buf_dma_addr r') (r_active r') (trace (snd w'))"
proof -
  obtain cqs s where w: "w = (cqs, s)" by force
  obtain cqs' s' where w': "w' = (cqs', s')" by force
  have a: "rx_wf r (cqs, s)" "rx_coupled r s" and st: "rx_step x (r, cqs, s) = (r', cqs', s')"
    using assms w w' by simp_all
  have "rx_wf r' (cqs', s') \<and> r_hw_addr r' = r_hw_addr r \<and> rx_coupled r' s'"
  proof (cases x)
    case (RxAlloc n st)
    show ?thesis
    proof (cases "n < 1 \<or> n > 2 ^ 31")
      case False
      obtain e r1 s1 where al: "mqnic_alloc_rx_ring r n st s = (e, r1, s1)" by (metis prod_cases3)
      with False RxAlloc \<open>rx_step x (r, cqs, s) = (r', cqs', s')\<close> rx_alloc_law [OF a _ _ al] show ?thesis
        by (auto simp: rx_wf_def)
    qed (use RxAlloc \<open>rx_step x (r, cqs, s) = (r', cqs', s')\<close> a in auto)
  next
    case RxFree
    with st a rx_free_law [OF a] show ?thesis by (auto split: option.splits)
  next
    case (RxActivate p c)
    show ?thesis
    proof (cases "mqnic_activate_rx_ring r p c cqs s")
      case (Some y)
      obtain e r1 c1 s1 where y: "y = (e, r1, c1, s1)" by (metis prod_cases4)
      with RxActivate st Some rx_activate_law [OF a, of p c e r1 c1 s1] show ?thesis by auto
    qed (use RxActivate st a in auto)
  next
    case RxDeactivate
    have dis: "disciplined (r_hw_addr r) (trace s)" using a(2) by (simp add: coupled_def)
    from RxDeactivate st rx_deactivate_law [OF a(1) dis, of r' cqs' s'] show ?thesis by (auto simp: rx_wf_def)
  next
    case RxRefill
    have h: "r_hw_head_ptr r = r_hw_addr r + HEAD_PTR_REG" using a(1) by (simp add: rx_wf_def)
    show ?thesis
    proof (cases "mqnic_refill_rx_buffers r s")
      case (Some y)
      with RxRefill st have f: "mqnic_refill_rx_buffers r s = Some (r', s')" by (auto split: prod.splits)
      from refill_grown [OF f h] obtain k where g: "adds (r_hw_addr r) s s'" "rx_grown r k r'" by blast
      have "rx_wf r (cqs', s')" using a(1) adds_extends [OF g(1)] rx_wf_extends by blast
      with rx_grown_same [OF g(2)] adds_coupled [OF g(1)] a(2) show ?thesis by simp
    qed (use RxRefill st a in auto)
  next
    case RxReadTail
    with st a show ?thesis
      by (auto simp: mqnic_rx_read_tail_ptr_def ioread32_def Let_def rx_wf_def coupled_neutral1
          extends_pow2_lib [OF extends_emit [OF extends_refl]])
  qed
  then show ?thesis by (auto simp: w')
qed

interpretation rx: hw_queue r_hw_addr r_buf r_buf_dma_addr r_active snd rx_wf rx_step
  by unfold_locales (rule rx_step_law)

interpretation rxp: hw_pointer r_tail_ptr r_hw_tail_ptr r_hw_ptr_mask mqnic_rx_read_tail_ptr
  by unfold_locales (simp_all add: mqnic_rx_read_tail_ptr_def ioread32_def Let_def)


section \<open>Receiving\<close>

fun is_gro :: "event \<Rightarrow> bool" where
  "is_gro (SkbGro k) = True" | "is_gro _ = False"

text \<open>A packet handed up is no longer than its buffer; the cache is synchronised for address 0.\<close>

fun rx_event_ok :: "event \<Rightarrow> bool" where
  "rx_event_ok (SkbGro k) = (rs_len k \<le> rs_truesize k)"
| "rx_event_ok (DmaSync a o1 l) = (a = 0)"
| "rx_event_ok e = True"

definition new_events :: "(event \<Rightarrow> bool) \<Rightarrow> sys \<Rightarrow> sys \<Rightarrow> bool" where
  "new_events P s t \<longleftrightarrow> same_world s t \<and> (\<exists>es. trace t = es @ trace s \<and> (\<forall>e\<in>set es. P e))"

lemma new_events_refl [simp]: "new_events P s s"
  by (simp add: new_events_def)

lemma new_events_emit: "new_events P s t \<Longrightarrow> P e \<Longrightarrow> new_events P s (emit e t)"
proof -
  assume "new_events P s t" "P e"
  then obtain es where es: "same_world s t" "trace t = es @ trace s" "\<forall>e\<in>set es. P e"
    unfolding new_events_def by blast
  then have "trace (emit e t) = (e # es) @ trace s" "\<forall>e\<in>set (e # es). P e" using \<open>P e\<close> by auto
  moreover have "same_world s (emit e t)"
    using es(1) by (cases s; cases t) (simp add: same_world_def emit_def)
  ultimately show ?thesis unfolding new_events_def by blast
qed

lemma new_events_trans: "new_events P r s \<Longrightarrow> new_events P s t \<Longrightarrow> new_events P r t"
proof -
  assume "new_events P r s" "new_events P s t"
  then obtain es fs where w: "same_world r s" "same_world s t"
    and e: "trace s = es @ trace r" "trace t = fs @ trace s" "\<forall>e\<in>set es. P e" "\<forall>e\<in>set fs. P e"
    unfolding new_events_def by blast
  then have "trace t = (fs @ es) @ trace r" "\<forall>e\<in>set (fs @ es). P e" by auto
  with same_world_trans [OF w] show ?thesis unfolding new_events_def by blast
qed

text \<open>What completions leave alone.\<close>

definition rx_same :: "mqnic_ring \<Rightarrow> mqnic_ring \<Rightarrow> bool" where
  "rx_same r r' \<longleftrightarrow> length (r_rx_info r') = length (r_rx_info r) \<and> r_buf r' = r_buf r \<and>
     r_head_ptr r' = r_head_ptr r \<and> r_clean_tail_ptr r' = r_clean_tail_ptr r \<and> r_tail_ptr r' = r_tail_ptr r \<and>
     r_size r' = r_size r \<and> r_size_mask r' = r_size_mask r \<and> r_page_order r' = r_page_order r \<and>
     r_hw_tail_ptr r' = r_hw_tail_ptr r \<and> r_hw_head_ptr r' = r_hw_head_ptr r \<and> r_hw_ptr_mask r' = r_hw_ptr_mask r"

lemma rx_same_trans: "rx_same a b \<Longrightarrow> rx_same b c \<Longrightarrow> rx_same a c"
  by (simp add: rx_same_def)

lemma read_cpl_ts_rx:
  "mqnic_read_cpl_ts phc r c s = (v, r', s') \<Longrightarrow> rx_same r r' \<and> r_rx_info r' = r_rx_info r \<and>
    (rx_accounts B D r s \<longrightarrow> rx_accounts B D r' s') \<and> count_ev is_gro (trace s') = count_ev is_gro (trace s) \<and>
    count_ev is_napi_complete (trace s') = count_ev is_napi_complete (trace s) \<and> new_events rx_event_ok s s' \<and>
    r_index r' = r_index r \<and> r_packets r' = r_packets r"
  by (auto simp: mqnic_read_cpl_ts_def rx_same_def rx_accounts_def ring_pages_def ring_maps_def ioread32_def Let_def
      split: if_splits intro!: new_events_emit)

text \<open>The part of \<open>rx_complete\<close> after the timestamp.\<close>

definition rx_take ::
    "bool \<Rightarrow> addr \<Rightarrow> nat \<Rightarrow> nat \<Rightarrow> nat \<Rightarrow> (u64 \<times> u32) option \<Rightarrow> mqnic_ring \<Rightarrow> sys \<Rightarrow> mqnic_ring \<times> sys" where
  "rx_take rxcsum cpl i page skb ts ring s =
    (let csum = (if rxcsum then Some (cpl_rx_csum s cpl) else None);
         ri = r_rx_info ring ! i;
         s = emit (DmaUnmapPage (ri_dma_addr ri) (ri_len ri)) s;
         ri = ri\<lparr>ri_dma_addr := 0\<rparr>;
         len = min (ucast (cpl_len s cpl)) (ri_len ri);
         s = emit (DmaSync (ri_dma_addr ri) (ri_page_offset ri) (ri_len ri)) s;
         ri' = ri\<lparr>ri_page := None\<rparr>;
         s = emit (SkbGro (Rx_skb skb ts (r_index ring) csum page (ri_page_offset ri) len (ri_len ri))) s
     in ((set_rx_info ring i ri')\<lparr>r_packets := r_packets ring + 1,
            r_bytes := r_bytes ring + ucast (cpl_len s cpl)\<rparr>, s))"

lemma rx_take_spec:
  assumes t: "rx_take rxcsum cpl i page skb ts r s = (r', s')" and i: "i < length (r_rx_info r)"
    and p: "ri_page (r_rx_info r ! i) = Some page"
  shows "rx_same r r'" "rx_accounts B D r s \<longrightarrow> rx_accounts B D r' s'"
    "count_ev is_gro (trace s') = Suc (count_ev is_gro (trace s))"
    "count_ev is_napi_complete (trace s') = count_ev is_napi_complete (trace s)"
    "new_events rx_event_ok s s'" "\<exists>v. r_rx_info r' = (r_rx_info r)[i := v] \<and> ri_page v = None"
    "r_packets r' = r_packets r + 1"
proof -
  let ?v = "(r_rx_info r ! i)\<lparr>ri_dma_addr := 0, ri_page := None\<rparr>"
  have acc: "ring_pages (q\<lparr>r_packets := a, r_bytes := b\<rparr>) = ring_pages q"
    "ring_maps (q\<lparr>r_packets := a, r_bytes := b\<rparr>) = ring_maps q" for q a b
    by (simp_all add: ring_pages_def ring_maps_def)
  show "rx_same r r'" "r_packets r' = r_packets r + 1"
    using t by (auto simp: rx_take_def Let_def rx_same_def set_rx_info_def)
  show "\<exists>v. r_rx_info r' = (r_rx_info r)[i := v] \<and> ri_page v = None"
    using t by (intro exI [of _ ?v]) (auto simp: rx_take_def Let_def set_rx_info_def)
  show "count_ev is_gro (trace s') = Suc (count_ev is_gro (trace s))"
    "count_ev is_napi_complete (trace s') = count_ev is_napi_complete (trace s)"
    using t by (auto simp: rx_take_def Let_def)
  show "new_events rx_event_ok s s'"
    using t by (auto simp: rx_take_def Let_def min_def intro!: new_events_emit)
  show "rx_accounts B D r s \<longrightarrow> rx_accounts B D r' s'"
    using t ring_set_remove [OF i p, of ?v] by (auto simp: rx_take_def Let_def rx_accounts_def acc)
qed

lemma rx_complete_unfold:
  assumes "rx_complete phc feats rxcsum cpl r s = Some (ok, r', s')"
  obtains (stuck) "\<not> ok" "r' = r" "s' = s"
      "ri_page (rx_slot r (ucast (cpl_index s cpl))) = None \<or> w_skb_alloc s (trace s) = None"
  | (taken) page skb ts r1 s1 where "ok" "ri_page (rx_slot r (ucast (cpl_index s cpl))) = Some page"
      "unat (ucast (cpl_index s cpl) AND r_size_mask r) < length (r_rx_info r)"
      "(if feats AND IF_FEATURE_PTP_TS \<noteq> 0 then \<exists>t. mqnic_read_cpl_ts phc r cpl s = (t, r1, s1) \<and> ts = Some t
        else ts = None \<and> r1 = r \<and> s1 = s)"
      "rx_take rxcsum cpl (unat (ucast (cpl_index s cpl) AND r_size_mask r)) page skb ts r1 s1 = (r', s')"
proof -
  let ?i = "unat (ucast (cpl_index s cpl) AND r_size_mask r)"
  have i: "?i < length (r_rx_info r)" using assms by (auto simp: rx_complete_def Let_def split: if_splits)
  show thesis
  proof (cases "ri_page (r_rx_info r ! ?i)")
    case None
    with assms i stuck show ?thesis by (auto simp: rx_complete_def Let_def rx_slot_def)
  next
    case (Some page)
    show ?thesis
    proof (cases "w_skb_alloc s (trace s)")
      case None
      with assms i Some stuck show ?thesis by (auto simp: rx_complete_def Let_def)
    next
      case (Some skb)
      obtain ts r1 s1 where rd: "(if feats AND IF_FEATURE_PTP_TS \<noteq> 0 then \<exists>t. mqnic_read_cpl_ts phc r cpl s = (t, r1, s1) \<and> ts = Some t
        else ts = None \<and> r1 = r \<and> s1 = s)"
        by (cases "feats AND IF_FEATURE_PTP_TS \<noteq> 0"; cases "mqnic_read_cpl_ts phc r cpl s") auto
      have "rx_complete phc feats rxcsum cpl r s = Some (True, rx_take rxcsum cpl ?i page skb ts r1 s1)"
        using rd i Some \<open>ri_page (r_rx_info r ! ?i) = Some page\<close>
        by (auto simp: rx_complete_def rx_take_def Let_def split: if_splits)
      with assms have "ok" "rx_take rxcsum cpl ?i page skb ts r1 s1 = (r', s')" by auto
      from taken [OF this(1) _ i rd this(2)] \<open>ri_page (r_rx_info r ! ?i) = Some page\<close> show ?thesis
        by (simp add: rx_slot_def)
    qed
  qed
qed

lemma rx_same_inv:
  assumes "rx_inv r" "rx_same r r'" "r_rx_info r' = (r_rx_info r)[i := v]" "ri_page v = None"
  shows "rx_inv r'" "rx_posted r' = rx_posted r"
proof -
  show p: "rx_posted r' = rx_posted r" using assms(2) by (simp add: rx_same_def rx_posted_def)
  have "ri_page (rx_slot r' p) = None" if "ri_page (rx_slot r p) = None" for p
    using that assms rx_inv_index [OF assms(1), of p]
    by (cases "i = unat (p AND r_size_mask r)") (auto simp: rx_slot_def rx_same_def)
  then show "rx_inv r'" using assms(1,2) p by (simp add: rx_inv_def rx_same_def)
qed

lemma rx_complete_spec:
  assumes inv: "rx_inv r" and c: "rx_complete phc feats rxcsum cpl r s = Some (ok, r', s')"
  shows "rx_inv r'" "rx_same r r'" "rx_posted r' = rx_posted r" "rx_accounts B D r s \<longrightarrow> rx_accounts B D r' s'"
    "new_events rx_event_ok s s'" "count_ev is_gro (trace s') = count_ev is_gro (trace s) + (if ok then 1 else 0)"
    "count_ev is_napi_complete (trace s') = count_ev is_napi_complete (trace s)"
    "\<not> ok \<longrightarrow> r' = r \<and> s' = s \<and>
      (ri_page (rx_slot r (ucast (cpl_index s cpl))) = None \<or> w_skb_alloc s (trace s) = None)"
proof -
  let ?i = "unat (ucast (cpl_index s cpl) AND r_size_mask r)"
  have all: "rx_inv r' \<and> rx_same r r' \<and> rx_posted r' = rx_posted r \<and> (rx_accounts B D r s \<longrightarrow> rx_accounts B D r' s') \<and>
    new_events rx_event_ok s s' \<and> count_ev is_gro (trace s') = count_ev is_gro (trace s) + (if ok then 1 else 0) \<and>
    count_ev is_napi_complete (trace s') = count_ev is_napi_complete (trace s) \<and>
    (\<not> ok \<longrightarrow> r' = r \<and> s' = s \<and>
      (ri_page (rx_slot r (ucast (cpl_index s cpl))) = None \<or> w_skb_alloc s (trace s) = None))"
  using c
  proof (cases rule: rx_complete_unfold)
    case stuck
    with inv show ?thesis by (auto simp: rx_same_def)
  next
    case (taken page skb ts r1 s1)
    have pre: "rx_same r r1" "r_rx_info r1 = r_rx_info r" "rx_accounts B D r s \<longrightarrow> rx_accounts B D r1 s1"
      "count_ev is_gro (trace s1) = count_ev is_gro (trace s)" "new_events rx_event_ok s s1"
      "count_ev is_napi_complete (trace s1) = count_ev is_napi_complete (trace s)"
      using taken(4) read_cpl_ts_rx [of phc r cpl s _ r1 s1 B D]
      by (auto split: if_splits simp: rx_same_def)
    have i: "?i < length (r_rx_info r1)" and p: "ri_page (r_rx_info r1 ! ?i) = Some page"
      using taken(2,3) pre(2) by (simp_all add: rx_slot_def)
    note k = rx_take_spec [OF taken(5) i p]
    from k(6) pre(2) obtain v where v: "r_rx_info r' = (r_rx_info r)[?i := v]" "ri_page v = None" by auto
    have same: "rx_same r r'" using pre(1) k(1) by (rule rx_same_trans)
    from rx_same_inv [OF inv same v] same k pre taken(1) new_events_trans [OF pre(5) k(5)] show ?thesis
      by simp
  qed
  then show "rx_inv r'" "rx_same r r'" "rx_posted r' = rx_posted r" "rx_accounts B D r s \<longrightarrow> rx_accounts B D r' s'"
    "new_events rx_event_ok s s'" "count_ev is_gro (trace s') = count_ev is_gro (trace s) + (if ok then 1 else 0)"
    "count_ev is_napi_complete (trace s') = count_ev is_napi_complete (trace s)"
    "\<not> ok \<longrightarrow> r' = r \<and> s' = s \<and>
      (ri_page (rx_slot r (ucast (cpl_index s cpl))) = None \<or> w_skb_alloc s (trace s) = None)"
    by - (elim conjE, assumption)+
qed


text \<open>The completion loop stops early only at a completion whose entry is empty, or without a packet buffer.\<close>

definition rx_blocked :: "mqnic_cq_ring \<Rightarrow> u32 \<Rightarrow> mqnic_ring \<Rightarrow> sys \<Rightarrow> bool" where
  "rx_blocked cq t r s \<longleftrightarrow> (\<exists>buf. cq_buf cq = Some buf \<and>
     ri_page (rx_slot r (ucast (cpl_index s (cpl_addr cq buf t)))) = None) \<or> w_skb_alloc s (trace s) = None"

lemma rx_same_refl [simp]: "rx_same r r"
  by (simp add: rx_same_def)

lemma rx_cpl_loop_spec:
  "rx_cpl_loop phc feats rxcsum budget cq t done r s = Some (t', done', r', s') \<Longrightarrow> rx_inv r \<Longrightarrow>
    rx_inv r' \<and> rx_same r r' \<and> rx_posted r' = rx_posted r \<and> (rx_accounts B D r s \<longrightarrow> rx_accounts B D r' s') \<and>
    new_events rx_event_ok s s' \<and> count_ev is_napi_complete (trace s') = count_ev is_napi_complete (trace s) \<and>
    (\<exists>k \<le> min (unat (cq_head_ptr cq - t)) (nat (budget - done)).
      t' = t + of_nat k \<and> done' = done + int k \<and> count_ev is_gro (trace s') = count_ev is_gro (trace s) + k \<and>
      (k < min (unat (cq_head_ptr cq - t)) (nat (budget - done)) \<longrightarrow> rx_blocked cq t' r' s'))"
proof (induction phc feats rxcsum budget cq t "done" r s rule: rx_cpl_loop.induct)
  case (1 phc feats rxcsum budget cq t "done" r s)
  show ?case
  proof (cases "cq_head_ptr cq \<noteq> t \<and> done < budget")
    case False
    with "1.prems" show ?thesis
      by (subst (asm) rx_cpl_loop.simps) (auto intro!: exI [of _ "0::nat"])
  next
    case True
    with "1.prems"(1) obtain buf ok r1 s1 where b: "cq_buf cq = Some buf"
      and c: "rx_complete phc feats rxcsum (cpl_addr cq buf t) r s = Some (ok, r1, s1)"
      and l: "(if ok then rx_cpl_loop phc feats rxcsum budget cq (t + 1) (done + 1) r1 s1 else Some (t, done, r1, s1)) =
        Some (t', done', r', s')"
      by (subst (asm) rx_cpl_loop.simps) (auto split: Option.bind_splits prod.splits)
    note C = rx_complete_spec [OF "1.prems"(2) c]
    have d: "unat (cq_head_ptr cq - t) = Suc (unat (cq_head_ptr cq - (t + 1)))"
      "nat (budget - done) = Suc (nat (budget - (done + 1)))" using True ptr_dist [of t] by auto
    show ?thesis
    proof (cases ok)
      case False
      then have e: "t' = t" "done' = done" "r' = r1" "s' = s1" using l by auto
      have "rx_blocked cq t r s"
        using C(8) False b by (auto simp: rx_blocked_def)
      with C False e "1.prems"(2) show ?thesis by (auto intro!: exI [of _ "0::nat"])
    next
      case ok: True
      then have l': "rx_cpl_loop phc feats rxcsum budget cq (t + 1) (done + 1) r1 s1 = Some (t', done', r', s')" using l by simp
      from "1.IH" [OF True b c refl refl ok l' C(1)] obtain k where
        IH: "rx_inv r'" "rx_same r1 r'" "rx_posted r' = rx_posted r1" "rx_accounts B D r1 s1 \<longrightarrow> rx_accounts B D r' s'"
          "new_events rx_event_ok s1 s'" "count_ev is_napi_complete (trace s') = count_ev is_napi_complete (trace s1)"
          "k \<le> min (unat (cq_head_ptr cq - (t + 1))) (nat (budget - (done + 1)))" "t' = t + 1 + of_nat k" "done' = done + 1 + int k"
          "count_ev is_gro (trace s') = count_ev is_gro (trace s1) + k"
          "k < min (unat (cq_head_ptr cq - (t + 1))) (nat (budget - (done + 1))) \<longrightarrow> rx_blocked cq t' r' s'"
        by blast
      have "Suc k \<le> min (unat (cq_head_ptr cq - t)) (nat (budget - done))"
        "Suc k < min (unat (cq_head_ptr cq - t)) (nat (budget - done)) \<longrightarrow> rx_blocked cq t' r' s'"
        using IH(7,11) d by auto
      then show ?thesis
        using IH C ok rx_same_trans [OF C(2) IH(2)] new_events_trans [OF C(5) IH(5)]
        by (intro conjI exI [of _ "Suc k"]) (auto simp: add.assoc)
    qed
  qed
qed

lemma rx_cpl_loop_defined:
  "rx_inv r \<Longrightarrow> cq_buf cq \<noteq> None \<Longrightarrow> rx_cpl_loop phc feats rxcsum budget cq t done r s \<noteq> None"
proof (induction phc feats rxcsum budget cq t "done" r s rule: rx_cpl_loop.induct)
  case (1 phc feats rxcsum budget cq t "done" r s)
  show ?case
  proof (cases "cq_head_ptr cq \<noteq> t \<and> done < budget")
    case False
    then show ?thesis by (subst rx_cpl_loop.simps) auto
  next
    case True
    obtain buf where b: "cq_buf cq = Some buf" using "1.prems"(2) by auto
    have "unat (ucast (cpl_index s (cpl_addr cq buf t)) AND r_size_mask r) < length (r_rx_info r)"
      by (rule rx_inv_index [OF "1.prems"(1)])
    then obtain ok r1 s1 where c: "rx_complete phc feats rxcsum (cpl_addr cq buf t) r s = Some (ok, r1, s1)"
      by (cases "rx_complete phc feats rxcsum (cpl_addr cq buf t) r s")
        (auto simp: rx_complete_def Let_def split: option.splits prod.splits if_splits)
    show ?thesis
    proof (cases ok)
      case False
      with True b c show ?thesis by (subst rx_cpl_loop.simps) simp
    next
      case ok: True
      from "1.IH" [OF True b c refl refl ok rx_complete_spec(1) [OF "1.prems"(1) c] "1.prems"(2)] True b c ok
      show ?thesis by (subst rx_cpl_loop.simps) simp
    qed
  qed
qed

text \<open>Cleaning up to a tail inside the window.\<close>

lemma rx_inv_clean:
  assumes inv: "rx_inv r" and k: "k \<le> rx_posted r" and none: "\<forall>j<k. ri_page (rx_slot r (r_clean_tail_ptr r + of_nat j)) = None"
  shows "rx_inv (r\<lparr>r_clean_tail_ptr := r_clean_tail_ptr r + of_nat k\<rparr>)"
    "rx_posted (r\<lparr>r_clean_tail_ptr := r_clean_tail_ptr r + of_nat k\<rparr>) = rx_posted r - k"
proof -
  let ?r = "r\<lparr>r_clean_tail_ptr := r_clean_tail_ptr r + of_nat k\<rparr>"
  have sz: "rx_posted r \<le> unat (r_size r)" using inv by (simp add: rx_inv_def)
  have "unat (of_nat k :: u32) = k" using k sz rx_inv_size [OF inv] by (simp add: unat_of_nat)
  then have "unat (r_head_ptr r - r_clean_tail_ptr r - of_nat k) = rx_posted r - k"
    using k unat_sub_le [of "of_nat k" "r_head_ptr r - r_clean_tail_ptr r"] by (simp add: rx_posted_def)
  then show p: "rx_posted ?r = rx_posted r - k" by (simp add: rx_posted_def algebra_simps)
  have "ri_page (rx_slot r (r_clean_tail_ptr r + of_nat k + of_nat j)) = None"
    if j: "j < unat (r_size r)" "rx_posted r - k \<le> j" for j
  proof (cases "k + j < unat (r_size r)")
    case True
    have "ri_page (rx_slot r (r_clean_tail_ptr r + of_nat (k + j))) = None"
      using inv True j(2) unfolding rx_inv_def by auto
    then show ?thesis by (simp add: add.assoc)
  next
    case False
    define i where "i = k + j - unat (r_size r)"
    have i: "i < k" "k + j = i + unat (r_size r)" using False j(1) by (simp_all add: i_def)
    from arg_cong [OF i(2), of "of_nat :: nat \<Rightarrow> u32"]
    have "(of_nat k + of_nat j :: u32) = of_nat i + r_size r" by simp
    then have e: "r_clean_tail_ptr r + of_nat k + of_nat j = r_clean_tail_ptr r + of_nat i + r_size r"
      by (simp add: add.assoc)
    have "(r_clean_tail_ptr r + of_nat i + r_size r) AND r_size_mask r = (r_clean_tail_ptr r + of_nat i) AND r_size_mask r"
      using inv by (intro ring_index_wrap) (simp add: rx_inv_def)
    then have "(r_clean_tail_ptr r + of_nat k + of_nat j) AND r_size_mask r = (r_clean_tail_ptr r + of_nat i) AND r_size_mask r"
      by (simp only: e)
    then show ?thesis using none i(1) by (simp add: rx_slot_def)
  qed
  then show "rx_inv ?r" using inv p sz by (simp add: rx_inv_def rx_slot_def)
qed

lemma advance_clean_rx:
  assumes "rx_inv r" "unat (tail - r_clean_tail_ptr r) \<le> rx_posted r"
  shows "rx_inv (r\<lparr>r_clean_tail_ptr := advance_clean (rx_busy r) tail (r_clean_tail_ptr r)\<rparr>)"
proof -
  from advance_clean_spec [of tail "r_clean_tail_ptr r" "rx_busy r"] obtain k where
    k: "k \<le> unat (tail - r_clean_tail_ptr r)" "advance_clean (rx_busy r) tail (r_clean_tail_ptr r) = r_clean_tail_ptr r + of_nat k"
      "\<forall>j<k. \<not> rx_busy r (r_clean_tail_ptr r + of_nat j)" by blast
  then have "\<forall>j<k. ri_page (rx_slot r (r_clean_tail_ptr r + of_nat j)) = None"
    by (auto simp: rx_busy_def rx_slot_def)
  with rx_inv_clean [OF assms(1), of k] k(1,2) assms(2) show ?thesis by simp
qed


text \<open>What refilling does to the world: pages, mappings, descriptors and the doorbell only.\<close>

fun refill_event :: "event \<Rightarrow> bool" where
  "refill_event (PageAlloc p n) = True"
| "refill_event (PageFree p n) = True"
| "refill_event (DmaMapPage a l) = True"
| "refill_event (Store32 a v) = True"
| "refill_event (Store64 a v) = True"
| "refill_event (Iowrite32 a v) = True"
| "refill_event e = False"

lemma new_events_mono: "new_events P s t \<Longrightarrow> (\<And>e. P e \<Longrightarrow> Q e) \<Longrightarrow> new_events Q s t"
  unfolding new_events_def by blast

lemma new_events_count: "new_events P s t \<Longrightarrow> (\<And>e. P e \<Longrightarrow> \<not> Q e) \<Longrightarrow> count_ev Q (trace t) = count_ev Q (trace s)"
  by (auto simp: new_events_def count_ev_def filter_empty_conv)

lemma prepare_events: "mqnic_prepare_rx_desc r i s = Some (ok, r', s') \<Longrightarrow> new_events refill_event s s'"
  by (auto simp: mqnic_prepare_rx_desc_def store_desc_def Let_def split: option.splits if_splits intro!: new_events_emit)

lemma refill_loop_events: "rx_refill_loop n r s = Some (r', s') \<Longrightarrow> new_events refill_event s s'"
proof (induction n r s rule: rx_refill_loop.induct)
  case (2 n r s)
  from "2.prems" obtain ok r1 s1 where p: "mqnic_prepare_rx_desc r (r_head_ptr r AND r_size_mask r) s = Some (ok, r1, s1)"
    by (auto split: option.splits)
  show ?case
  proof (cases ok)
    case True
    from "2.IH" [OF p refl refl] True "2.prems" p prepare_events [OF p] show ?thesis
      by (auto intro: new_events_trans)
  qed (use "2.prems" p prepare_events [OF p] in auto)
qed simp

lemma refill_events: "mqnic_refill_rx_buffers r s = Some (r', s') \<Longrightarrow> new_events refill_event s s'"
  by (auto simp: mqnic_refill_rx_buffers_def mqnic_rx_write_head_ptr_def iowrite32_def Let_def
      split: if_splits option.splits dest: refill_loop_events intro!: new_events_emit)

lemma refill_event_ok: "refill_event e \<Longrightarrow> rx_event_ok e" "refill_event e \<Longrightarrow> \<not> is_gro e" "refill_event e \<Longrightarrow> \<not> is_napi_complete e"
  by (cases e; simp)+

text \<open>The hardware's tail never passes the posted entries, whenever it is read.\<close>

definition rx_tail_inside :: "mqnic_ring \<Rightarrow> sys \<Rightarrow> bool" where
  "rx_tail_inside r s \<longleftrightarrow> (\<forall>h. unat (r_tail_ptr r + ((w_ioread s h (r_hw_tail_ptr r) - r_tail_ptr r) AND r_hw_ptr_mask r)
     - r_clean_tail_ptr r) \<le> rx_posted r)"

lemma process_rx_spec:
  assumes inv: "rx_inv r" and acc: "rx_accounts B D r s" and up: "r_priv r \<noteq> None" and buf: "cq_buf cq \<noteq> None"
    and dev: "rx_tail_inside r s"
  defines "h \<equiv> cq_head_ptr (fst (mqnic_cq_read_head_ptr cq s))"
  obtains n cq' r' s' k where "mqnic_process_rx_cq phc feats rxcsum True cq r budget s = Some (n, cq', r', s')"
    "rx_inv r'" "rx_accounts B D r' s'" "n = int k" "k \<le> min (unat (h - cq_tail_ptr cq)) (nat budget)"
    "cq' = cq\<lparr>cq_head_ptr := h, cq_tail_ptr := cq_tail_ptr cq + of_nat k\<rparr>"
    "count_ev is_gro (trace s') = count_ev is_gro (trace s) + k"
    "count_ev is_napi_complete (trace s') = count_ev is_napi_complete (trace s)" "new_events rx_event_ok s s'"
proof -
  obtain cq1 s1 where rd: "mqnic_cq_read_head_ptr cq s = (cq1, s1)" by force
  then have cq1: "cq1 = cq\<lparr>cq_head_ptr := h\<rparr>" and s1: "s1 = emit (Ioread32 (cq_hw_head_ptr cq) (w_ioread s (trace s) (cq_hw_head_ptr cq))) s"
    by (auto simp: mqnic_cq_read_head_ptr_def ioread32_def Let_def h_def)
  have acc1: "rx_accounts B D r s1" using acc by (simp add: s1 rx_accounts_def)
  have "cq_buf cq1 \<noteq> None" using buf by (simp add: cq1)
  from rx_cpl_loop_defined [OF inv this, of phc feats rxcsum budget "cq_tail_ptr cq" 0 s1] obtain t dn r1 s2 where
    l: "rx_cpl_loop phc feats rxcsum budget cq1 (cq_tail_ptr cq) 0 r s1 = Some (t, dn, r1, s2)" by auto
  from rx_cpl_loop_spec [OF l inv, of B D] acc1 cq1 obtain k where
    L: "rx_inv r1" "rx_same r r1" "rx_posted r1 = rx_posted r" "rx_accounts B D r1 s2" "new_events rx_event_ok s1 s2"
      "count_ev is_napi_complete (trace s2) = count_ev is_napi_complete (trace s1)"
      "k \<le> min (unat (h - cq_tail_ptr cq)) (nat budget)" "t = cq_tail_ptr cq + of_nat k" "dn = int k"
      "count_ev is_gro (trace s2) = count_ev is_gro (trace s1) + k" by auto
  let ?cq2 = "cq1\<lparr>cq_tail_ptr := t\<rparr>"
  let ?s3 = "mqnic_cq_write_tail_ptr ?cq2 s2"
  obtain r2 s4 where rt: "mqnic_rx_read_tail_ptr r1 ?s3 = (r2, s4)" by force
  let ?v = "w_ioread ?s3 (trace ?s3) (r_hw_tail_ptr r1)"
  have r2: "r2 = r1\<lparr>r_tail_ptr := r_tail_ptr r1 + ((?v - r_tail_ptr r1) AND r_hw_ptr_mask r1)\<rparr>"
    and s4: "s4 = emit (Ioread32 (r_hw_tail_ptr r1) ?v) ?s3"
    using rt by (auto simp: mqnic_rx_read_tail_ptr_def ioread32_def Let_def)
  let ?r3 = "r2\<lparr>r_clean_tail_ptr := advance_clean (rx_busy r2) (r_tail_ptr r2) (r_clean_tail_ptr r2)\<rparr>"
  have world: "w_ioread s2 = w_ioread s"
    using L(5) same_world_fields [of s1 s2] by (auto simp: new_events_def s1)
  have inv2: "rx_inv r2" "rx_posted r2 = rx_posted r"
    using L(1,3) by (simp_all add: r2 rx_inv_def rx_posted_def rx_slot_def)
  have "r_tail_ptr r2 = r_tail_ptr r + ((w_ioread s (trace ?s3) (r_hw_tail_ptr r) - r_tail_ptr r) AND r_hw_ptr_mask r)"
    "r_clean_tail_ptr r2 = r_clean_tail_ptr r"
    using L(2) world by (simp_all add: r2 rx_same_def mqnic_cq_write_tail_ptr_def iowrite32_def)
  then have "unat (r_tail_ptr r2 - r_clean_tail_ptr r2) \<le> rx_posted r2"
    using dev inv2(2) by (simp add: rx_tail_inside_def)
  from advance_clean_rx [OF inv2(1) this] have inv3: "rx_inv ?r3" .
  have acc3: "rx_accounts B D ?r3 s4"
    using L(4) by (simp add: r2 s4 rx_accounts_def ring_pages_def ring_maps_def mqnic_cq_write_tail_ptr_def)
  obtain r' s' where f: "mqnic_refill_rx_buffers ?r3 s4 = Some (r', s')" "rx_inv r'" "rx_accounts B D r' s'"
    by (rule refill_spec [OF inv3 acc3])
  note ev = refill_events [OF f(1)]
  have e34: "new_events rx_event_ok s2 s4"
    by (auto simp: s4 mqnic_cq_write_tail_ptr_def iowrite32_def intro!: new_events_emit)
  have e01: "new_events rx_event_ok s s1" by (auto simp: s1 intro!: new_events_emit)
  show thesis
  proof (rule that)
    show "mqnic_process_rx_cq phc feats rxcsum True cq r budget s = Some (int k, ?cq2, r', s')"
      using up rd l rt f(1) cq1 L(9) by (cases "r_priv r") (simp_all add: mqnic_process_rx_cq_def Let_def)
    show "rx_inv r'" "rx_accounts B D r' s'" by (rule f)+
    show "?cq2 = cq\<lparr>cq_head_ptr := h, cq_tail_ptr := cq_tail_ptr cq + of_nat k\<rparr>" by (simp add: cq1 L(8))
    show "count_ev is_gro (trace s') = count_ev is_gro (trace s) + k"
      using L(10) new_events_count [OF ev, of is_gro] refill_event_ok(2) by (simp add: s1 s4 mqnic_cq_write_tail_ptr_def)
    show "count_ev is_napi_complete (trace s') = count_ev is_napi_complete (trace s)"
      using L(6) new_events_count [OF ev, of is_napi_complete] refill_event_ok(3) by (simp add: s1 s4 mqnic_cq_write_tail_ptr_def)
    show "new_events rx_event_ok s s'"
      using e01 L(5) e34 new_events_mono [OF ev, of rx_event_ok] refill_event_ok(1)
      by (blast intro: new_events_trans)
  qed (use L(7) in simp_all)
qed


section \<open>Properties\<close>

text \<open>A ring of sixteen empty entries.\<close>

definition demo_rx :: mqnic_ring where
  "demo_rx = (zero_ring 0)\<lparr>r_size := 16, r_size_mask := 15, r_stride := 16, r_buf := Some 0x5000,
     r_buf_dma_addr := 0x80005000, r_rx_info := replicate 16 zero_rx_info, r_priv := Some 0, r_hw_ptr_mask := 0xffff,
     r_hw_addr := 0x400000, r_hw_head_ptr := 0x400010, r_hw_tail_ptr := 0x400018\<rparr>"

lemma demo_rx_fields:
  "r_size demo_rx = 16" "r_size_mask demo_rx = 15" "r_buf demo_rx = Some 0x5000" "r_rx_info demo_rx = replicate 16 zero_rx_info"
  "r_priv demo_rx = Some 0" "r_hw_addr demo_rx = 0x400000" "r_head_ptr demo_rx = 0" "r_clean_tail_ptr demo_rx = 0"
  "r_tail_ptr demo_rx = 0" "r_active demo_rx = False" "r_hw_ptr_mask demo_rx = 0xffff" "r_hw_head_ptr demo_rx = 0x400010"
  "r_hw_tail_ptr demo_rx = 0x400018" "r_log_desc_block_size demo_rx = 0" "r_page_order demo_rx = 0"
  by (simp_all add: demo_rx_def zero_ring_def)

lemma demo_rx_dims: "ring_dims 16 15"
  by (auto simp: ring_dims_def intro: exI [of _ 4])

lemma demo_rx_inv: "rx_inv demo_rx" "rx_posted demo_rx = 0"
proof -
  show p: "rx_posted demo_rx = 0" by (simp add: rx_posted_def demo_rx_fields)
  have "unat (q AND (15::u32)) < 16" for q :: u32
    using ring_index_less [OF demo_rx_dims, of q] by simp
  then show "rx_inv demo_rx"
    using demo_rx_dims p by (simp add: rx_inv_def demo_rx_fields rx_slot_def zero_rx_info_def)
qed

lemma demo_rx_accounts: "rx_accounts {#} {#} demo_rx (quiet_world\<lparr>w_ioread := f\<rparr>)" "rx_accounts {#} {#} demo_rx quiet_world"
  using rx_inv_empty [OF demo_rx_inv] by (simp_all add: rx_accounts_def quiet_world_def)

lemma demo_rx_wf: "rx_wf demo_rx (c, quiet_world)" "rx_coupled demo_rx quiet_world"
  using quiet_world_pow2_lib demo_rx_dims
  by (simp_all add: rx_wf_def demo_rx_fields queue_regs coupled_def q_active_def quiet_world_def)

text \<open>C19: over any sequence of allocations, activations, refills, tail reads, deactivations and frees of
  a receive ring, the device's base address is written and the ring buffer freed only while the queue
  is inactive, and an active queue points at the buffer the driver holds.\<close>

theorem rx_lifecycle_safe:
  assumes "rx_wf r (cqs, s)" "rx_coupled r s" "fold rx_step ops (r, cqs, s) = (r', cqs', s')"
  shows "disciplined (r_hw_addr r) (trace s') \<and>
    (q_active (trace s') (r_hw_addr r) \<longrightarrow>
       r_buf r' \<noteq> None \<and> q_base (trace s') (r_hw_addr r) = Some (r_buf_dma_addr r'))"
  using rx.run_disciplined [of r "(cqs, s)" ops r' "(cqs', s')"] rx.run_base [of r "(cqs, s)" ops r' "(cqs', s')"] assms
  by simp

theorem rx_lifecycle_safe_witness:
  "disciplined 0x400000 (trace (snd (snd (fold rx_step
     [RxActivate (Some 0) (Some 1), RxRefill, RxFree, RxAlloc 1024 16] (demo_rx, (\<lambda>_. undefined), quiet_world)))))"
proof -
  obtain r' c' s' where e: "fold rx_step [RxActivate (Some 0) (Some 1), RxRefill, RxFree, RxAlloc 1024 16]
      (demo_rx, (\<lambda>_. undefined), quiet_world) = (r', c', s')" by (metis prod_cases3)
  with rx_lifecycle_safe [OF demo_rx_wf e] show ?thesis by (simp only: e snd_conv demo_rx_fields)
qed

text \<open>C15: refilling a consistent receive ring never faults. With fewer than eight entries missing it does
  nothing; otherwise it fills the entries from the head on, each with a page, leaves the posted ones
  alone, stops early only when a page cannot be allocated or mapped, and ends with the new head in the
  doorbell. No page and no mapping is gained or lost beyond what the entries record.\<close>

theorem refill_fills_ring:
  assumes "rx_inv r" "rx_accounts B D r s"
  shows "\<exists>r' s'. mqnic_refill_rx_buffers r s = Some (r', s') \<and> rx_inv r' \<and> rx_accounts B D r' s' \<and>
    (\<exists>k. r_head_ptr r' = r_head_ptr r + of_nat k \<and> rx_posted r' = rx_posted r + k \<and>
      (\<forall>j<rx_posted r. rx_slot r' (r_clean_tail_ptr r + of_nat j) = rx_slot r (r_clean_tail_ptr r + of_nat j)) \<and>
      (\<forall>j<k. ri_page (rx_slot r' (r_head_ptr r + of_nat j)) \<noteq> None)) \<and>
    (if unat (r_size r) - rx_posted r < 8 then s' = s \<and> rx_posted r' = rx_posted r
     else \<exists>t. (rx_posted r' < unat (r_size r) \<longrightarrow> rx_starved r t) \<and>
       s' = iowrite32 (r_head_ptr r' AND r_hw_ptr_mask r) (r_hw_head_ptr r) t)"
proof (rule refill_spec [OF assms])
  fix r' s' k
  assume r: "mqnic_refill_rx_buffers r s = Some (r', s')" "rx_inv r'" "rx_accounts B D r' s'" "rx_grown r k r'"
    "rx_posted r' = rx_posted r + k"
    "\<forall>j<rx_posted r. rx_slot r' (r_clean_tail_ptr r + of_nat j) = rx_slot r (r_clean_tail_ptr r + of_nat j)"
    "\<forall>j<k. ri_page (rx_slot r' (r_head_ptr r + of_nat j)) \<noteq> None"
    "if unat (r_size r) - rx_posted r < 8 then s' = s \<and> k = 0
     else \<exists>t. (rx_posted r' < unat (r_size r) \<longrightarrow> rx_starved r t) \<and>
       s' = iowrite32 (r_head_ptr r' AND r_hw_ptr_mask r) (r_hw_head_ptr r) t"
  have "r_head_ptr r' = r_head_ptr r + of_nat k" using r(4) by (auto simp: rx_grown_def)
  with r show ?thesis by (intro exI [of _ r'] exI [of _ s']) (auto split: if_splits)
qed

theorem refill_fills_ring_witness:
  "\<exists>r' s' tr. mqnic_refill_rx_buffers demo_rx quiet_world = Some (r', s') \<and> rx_inv r' \<and>
    held (trace s') = ring_pages r' \<and> trace s' = Iowrite32 0x400010 (r_head_ptr r' AND 0xffff) # tr"
proof -
  from refill_fills_ring [OF demo_rx_inv(1) demo_rx_accounts(2)] obtain r' s' t where
    f: "mqnic_refill_rx_buffers demo_rx quiet_world = Some (r', s')" "rx_inv r'" "rx_accounts {#} {#} r' s'"
      "s' = iowrite32 (r_head_ptr r' AND 0xffff) 0x400010 t"
    by (auto simp: demo_rx_inv demo_rx_fields)
  then show ?thesis by (auto simp: rx_accounts_def)
qed

text \<open>C4: one poll of a receive completion queue that is up, on a consistent ring and with a hardware tail
  that never passes the posted entries, returns and keeps the ring consistent: every page allocated and
  every mapping made is in an entry, freed, or handed to the stack. It delivers one packet per
  completion handled, at most \<open>budget\<close> of them and none past the hardware's head.\<close>

theorem poll_rx_conserves:
  assumes "rx_inv r" "rx_accounts B D r s" "r_priv r \<noteq> None" "cq_buf cq \<noteq> None" "rx_tail_inside r s"
  shows "\<exists>n cq' r' s'. mqnic_poll_rx_cq phc feats rxcsum True cq r budget s = Some (int n, cq', r', s') \<and>
    rx_inv r' \<and> rx_accounts B D r' s' \<and>
    n \<le> unat (cq_head_ptr (fst (mqnic_cq_read_head_ptr cq s)) - cq_tail_ptr cq) \<and> n \<le> nat budget \<and>
    cq_tail_ptr cq' = cq_tail_ptr cq + of_nat n \<and>
    count_ev is_gro (trace s') = count_ev is_gro (trace s) + n \<and>
    count_ev is_napi_complete (trace s') = count_ev is_napi_complete (trace s) + (if int n = budget then 0 else 1)"
proof (rule process_rx_spec [OF assms, of phc feats rxcsum budget])
  fix n cq1 r' s1 k
  assume p: "mqnic_process_rx_cq phc feats rxcsum True cq r budget s = Some (n, cq1, r', s1)" "rx_inv r'"
    "rx_accounts B D r' s1" "n = int k"
    "k \<le> min (unat (cq_head_ptr (fst (mqnic_cq_read_head_ptr cq s)) - cq_tail_ptr cq)) (nat budget)"
    "cq1 = cq\<lparr>cq_head_ptr := cq_head_ptr (fst (mqnic_cq_read_head_ptr cq s)), cq_tail_ptr := cq_tail_ptr cq + of_nat k\<rparr>"
    "count_ev is_gro (trace s1) = count_ev is_gro (trace s) + k"
    "count_ev is_napi_complete (trace s1) = count_ev is_napi_complete (trace s)"
  show ?thesis
  proof (cases "n = budget")
    case True
    with p show ?thesis by (intro exI [of _ k] exI [of _ cq1] exI [of _ r'] exI [of _ s1]) (auto simp: mqnic_poll_rx_cq_def)
  next
    case False
    let ?s' = "mqnic_arm_cq cq1 (emit (NapiComplete (cq_index cq1)) s1)"
    have "rx_accounts B D r' ?s'" "count_ev is_gro (trace ?s') = count_ev is_gro (trace s1)"
      "count_ev is_napi_complete (trace ?s') = Suc (count_ev is_napi_complete (trace s1))"
      using p(3) by (simp_all add: mqnic_arm_cq_def rx_accounts_def)
    with False p show ?thesis by (intro exI [of _ k] exI [of _ cq1] exI [of _ r'] exI [of _ ?s']) (auto simp: mqnic_poll_rx_cq_def)
  qed
qed

theorem poll_rx_conserves_witness:
  "\<exists>n cq' r' s'. mqnic_poll_rx_cq 0x8000 0 True True (demo_cq 0) demo_rx 64 quiet_world = Some (int n, cq', r', s') \<and>
    rx_inv r' \<and> held (trace s') = ring_pages r' \<and> n = 0"
proof -
  have h: "cq_head_ptr (fst (mqnic_cq_read_head_ptr (demo_cq 0) quiet_world)) = cq_tail_ptr (demo_cq 0)"
    by (simp add: mqnic_cq_read_head_ptr_def ioread32_def demo_cq_def quiet_world_def)
  have "rx_tail_inside demo_rx quiet_world"
    by (simp add: rx_tail_inside_def demo_rx_fields quiet_world_def)
  moreover have "r_priv demo_rx \<noteq> None" "cq_buf (demo_cq 0) \<noteq> None"
    by (simp_all add: demo_rx_fields demo_cq_def)
  ultimately show ?thesis
    using poll_rx_conserves [OF demo_rx_inv(1) demo_rx_accounts(2), of "demo_cq 0" "0x8000" 0 True 64] h
    by (auto simp: rx_accounts_def)
qed

text \<open>Freeing the buffers of a ring whose posted entries all still hold their page gives back every page
  and every mapping the ring recorded, counts them, and leaves the pointers at zero.\<close>

theorem rx_free_returns_all:
  assumes "rx_inv r" "rx_accounts B D r s"
    and "\<forall>j<rx_posted r. ri_page (rx_slot r (r_clean_tail_ptr r + of_nat j)) \<noteq> None"
  shows "\<exists>r' s'. mqnic_free_rx_buf r s = Some (int (rx_posted r), r', s') \<and>
    held (trace s') = B \<and> live (trace s') = D \<and> r_head_ptr r' = 0 \<and> r_tail_ptr r' = 0 \<and> r_clean_tail_ptr r' = 0"
proof -
  from rx_free_loop_total [OF assms(1,3)] obtain r1 c1 s1 where
    l: "rx_free_loop r 0 s = Some (r1, c1, s1)" "rx_inv r1" "rx_posted r1 = 0" by blast
  from rx_free_loop_spec [OF l(1), of 0 B D] assms(2) have "rx_accounts B D r1 s1" "c1 = int (rx_posted r)" by simp_all
  with rx_inv_empty [OF l(2,3)] l(1) show ?thesis by (simp add: mqnic_free_rx_buf_def rx_accounts_def)
qed

theorem rx_free_returns_all_witness:
  "\<exists>r' s'. mqnic_free_rx_buf demo_rx quiet_world = Some (0, r', s') \<and> held (trace s') = {#}"
  using rx_free_returns_all [OF demo_rx_inv(1) demo_rx_accounts(2)] by (auto simp: demo_rx_inv)

text \<open>The cache is never synchronised for a received buffer: every synchronisation the receive path
  asks for is of DMA address 0, because the entry's address is cleared before it is used (and the
  mapping is already gone). Packet lengths never exceed the buffer.\<close>

theorem rx_sync_address_zero:
  assumes "rx_complete phc feats rxcsum cpl r s = Some (ok, r', s')" "rx_inv r"
  shows "\<exists>es. trace s' = es @ trace s \<and> (\<forall>a ofs l. DmaSync a ofs l \<in> set es \<longrightarrow> a = 0) \<and>
    (\<forall>k. SkbGro k \<in> set es \<longrightarrow> rs_len k \<le> rs_truesize k)"
proof -
  from rx_complete_spec(5) [OF assms(2,1)] obtain es where
    es: "trace s' = es @ trace s" "\<forall>e\<in>set es. rx_event_ok e" unfolding new_events_def by blast
  have "a = 0" if "DmaSync a ofs l \<in> set es" for a ofs l using bspec [OF es(2) that] by simp
  moreover have "rs_len k \<le> rs_truesize k" if "SkbGro k \<in> set es" for k using bspec [OF es(2) that] by simp
  ultimately show ?thesis using es(1) by blast
qed

text \<open>A completion of 60 bytes for a posted entry.\<close>

definition demo_rx1 :: mqnic_ring where
  "demo_rx1 = demo_rx\<lparr>r_head_ptr := 1, r_rx_info := \<lparr>ri_page = Some 9, ri_page_order = 0, ri_page_offset = 0,
     ri_dma_addr = 0x90000000, ri_len = 4096\<rparr> # replicate 15 zero_rx_info\<rparr>"

lemma demo_rx1_inv: "rx_inv demo_rx1"
proof -
  let ?v = "\<lparr>ri_page = Some 9, ri_page_order = 0, ri_page_offset = 0, ri_dma_addr = 0x90000000, ri_len = 4096\<rparr>"
  have "replicate 16 zero_rx_info = zero_rx_info # replicate 15 zero_rx_info" by (simp add: numeral_eq_Suc)
  then have "demo_rx1 = (set_rx_info demo_rx (unat (r_head_ptr demo_rx AND r_size_mask demo_rx)) ?v)\<lparr>r_head_ptr := r_head_ptr demo_rx + 1\<rparr>"
    by (simp add: demo_rx1_def set_rx_info_def demo_rx_fields)
  from rx_inv_push(1) [OF demo_rx_inv(1) _ this] show ?thesis by (simp add: demo_rx_inv demo_rx_fields)
qed

theorem rx_sync_address_zero_witness:
  "\<exists>r' s' es. rx_complete 0x8000 0 False 0x3000 demo_rx1 (quiet_world\<lparr>w_mem8 := (\<lambda>_ a. if a = 0x3004 then 60 else 0)\<rparr>) =
      Some (True, r', s') \<and> trace s' = es \<and> DmaSync 0 0 4096 \<in> set es \<and> DmaUnmapPage 0x90000000 4096 \<in> set es \<and>
      (\<forall>a. DmaSync a 0 4096 \<in> set es \<longrightarrow> a = 0)"
proof -
  let ?s = "quiet_world\<lparr>w_mem8 := (\<lambda>_ a. if a = 0x3004 then 60 else 0)\<rparr>"
  have "\<exists>r' s'. rx_complete 0x8000 0 False 0x3000 demo_rx1 ?s = Some (True, r', s') \<and>
      DmaSync 0 0 4096 \<in> set (trace s') \<and> DmaUnmapPage 0x90000000 4096 \<in> set (trace s')"
    by (simp add: rx_complete_def demo_rx1_def demo_rx_fields cpl_index_def mem16_def Let_def) (simp add: quiet_world_def Let_def)
  then obtain r' s' where c: "rx_complete 0x8000 0 False 0x3000 demo_rx1 ?s = Some (True, r', s')"
    "DmaSync 0 0 4096 \<in> set (trace s')" "DmaUnmapPage 0x90000000 4096 \<in> set (trace s')" by blast
  have "trace ?s = []" by (simp add: quiet_world_def)
  with c rx_sync_address_zero [OF c(1) demo_rx1_inv] show ?thesis by auto
qed

end
