(* ===== verification/Port.thy ===== *)
theory Port
  imports HwQueue
begin

text \<open>
  Ports (\<open>modules/mqnic/mqnic_port.c\<close>): reading the capabilities of a port, switching its schedulers
  and transmit queues on and off, and its MTU and RSS registers.
\<close>

definition PORT_REG_PORT_ID :: addr where "PORT_REG_PORT_ID = 0x0000"
definition PORT_REG_PORT_FEATURES :: addr where "PORT_REG_PORT_FEATURES = 0x0004"
definition PORT_REG_PORT_MTU :: addr where "PORT_REG_PORT_MTU = 0x0008"
definition PORT_REG_SCHED_COUNT :: addr where "PORT_REG_SCHED_COUNT = 0x0010"
definition PORT_REG_SCHED_OFFSET :: addr where "PORT_REG_SCHED_OFFSET = 0x0014"
definition PORT_REG_SCHED_STRIDE :: addr where "PORT_REG_SCHED_STRIDE = 0x0018"
definition PORT_REG_SCHED_TYPE :: addr where "PORT_REG_SCHED_TYPE = 0x001C"
definition PORT_REG_SCHED_ENABLE :: addr where "PORT_REG_SCHED_ENABLE = 0x0040"
definition PORT_REG_RSS_MASK :: addr where "PORT_REG_RSS_MASK = 0x0080"
definition PORT_REG_TX_MTU :: addr where "PORT_REG_TX_MTU = 0x0100"
definition PORT_REG_RX_MTU :: addr where "PORT_REG_RX_MTU = 0x0200"

lemmas port_regs = PORT_REG_PORT_ID_def PORT_REG_PORT_FEATURES_def PORT_REG_PORT_MTU_def PORT_REG_SCHED_COUNT_def
  PORT_REG_SCHED_OFFSET_def PORT_REG_SCHED_STRIDE_def PORT_REG_SCHED_TYPE_def PORT_REG_SCHED_ENABLE_def
  PORT_REG_RSS_MASK_def PORT_REG_TX_MTU_def PORT_REG_RX_MTU_def

record mqnic_port =
  port_mem :: nat
  port_index :: nat
  port_tx_queue_count :: u32
  port_id :: u32
  port_features :: u32
  port_mtu :: u32
  port_sched_count :: u32
  port_sched_offset :: u32
  port_sched_stride :: u32
  port_sched_type :: u32
  port_hw_addr :: addr

definition mqnic_deactivate_port :: "mqnic_port \<Rightarrow> sys \<Rightarrow> sys" where
  "mqnic_deactivate_port port s = iowrite32 0 (port_hw_addr port + PORT_REG_SCHED_ENABLE) s"

text \<open>Enable the schedulers, then every transmit queue (state 3 in its scheduler entry).\<close>

definition mqnic_activate_port :: "mqnic_port \<Rightarrow> sys \<Rightarrow> sys" where
  "mqnic_activate_port port s =
    iowrites ((0xffffffff, port_hw_addr port + PORT_REG_SCHED_ENABLE) #
      map (\<lambda>k. (3, port_hw_addr port + ucast (port_sched_offset port) + of_nat (4 * k))) [0..<unat (port_tx_queue_count port)]) s"

definition mqnic_create_port :: "u32 \<Rightarrow> nat \<Rightarrow> addr \<Rightarrow> sys \<Rightarrow> int \<times> mqnic_port option \<times> sys" where
  "mqnic_create_port tx_queue_count index hw s =
    (case kzalloc s of
       (None, s) \<Rightarrow> (- ENOMEM, None, s)
     | (Some m, s) \<Rightarrow>
       (case ioread32 (hw + PORT_REG_PORT_ID) s of (pid, s) \<Rightarrow>
        case ioread32 (hw + PORT_REG_PORT_FEATURES) s of (feat, s) \<Rightarrow>
        case ioread32 (hw + PORT_REG_PORT_MTU) s of (mtu, s) \<Rightarrow>
        case ioread32 (hw + PORT_REG_SCHED_COUNT) s of (sc, s) \<Rightarrow>
        case ioread32 (hw + PORT_REG_SCHED_OFFSET) s of (so, s) \<Rightarrow>
        case ioread32 (hw + PORT_REG_SCHED_STRIDE) s of (st, s) \<Rightarrow>
        case ioread32 (hw + PORT_REG_SCHED_TYPE) s of (ty, s) \<Rightarrow>
          let port = \<lparr>port_mem = m, port_index = index, port_tx_queue_count = tx_queue_count, port_id = pid,
                port_features = feat, port_mtu = mtu, port_sched_count = sc, port_sched_offset = so,
                port_sched_stride = st, port_sched_type = ty, port_hw_addr = hw\<rparr>
          in (0, Some port, mqnic_deactivate_port port s)))"

definition mqnic_destroy_port :: "mqnic_port \<Rightarrow> sys \<Rightarrow> sys" where
  "mqnic_destroy_port port s = emit (Kfree (port_mem port)) (mqnic_deactivate_port port s)"

definition mqnic_port_get_rss_mask :: "mqnic_port \<Rightarrow> sys \<Rightarrow> u32 \<times> sys" where
  "mqnic_port_get_rss_mask port s = ioread32 (port_hw_addr port + PORT_REG_RSS_MASK) s"

definition mqnic_port_set_rss_mask :: "mqnic_port \<Rightarrow> u32 \<Rightarrow> sys \<Rightarrow> sys" where
  "mqnic_port_set_rss_mask port rss_mask s = iowrite32 rss_mask (port_hw_addr port + PORT_REG_RSS_MASK) s"

definition mqnic_port_get_tx_mtu :: "mqnic_port \<Rightarrow> sys \<Rightarrow> u32 \<times> sys" where
  "mqnic_port_get_tx_mtu port s = ioread32 (port_hw_addr port + PORT_REG_TX_MTU) s"

definition mqnic_port_set_tx_mtu :: "mqnic_port \<Rightarrow> u32 \<Rightarrow> sys \<Rightarrow> sys" where
  "mqnic_port_set_tx_mtu port mtu s = iowrite32 mtu (port_hw_addr port + PORT_REG_TX_MTU) s"

definition mqnic_port_get_rx_mtu :: "mqnic_port \<Rightarrow> sys \<Rightarrow> u32 \<times> sys" where
  "mqnic_port_get_rx_mtu port s = ioread32 (port_hw_addr port + PORT_REG_RX_MTU) s"

definition mqnic_port_set_rx_mtu :: "mqnic_port \<Rightarrow> u32 \<Rightarrow> sys \<Rightarrow> sys" where
  "mqnic_port_set_rx_mtu port mtu s = iowrite32 mtu (port_hw_addr port + PORT_REG_RX_MTU) s"

end
