(* ===== verification/Netdev.thy ===== *)
theory Netdev
  imports EventQueue RxRing Port
begin

text \<open>
  Network devices (\<open>modules/mqnic/mqnic_netdev.c\<close>) on top of an interface (\<open>struct mqnic_if\<close>). The
  ring arrays of an interface and of the private data of its network device hold the same pointers,
  so the rings are kept once, in the interface, as finite maps: an index outside a map is a null
  pointer, and following one is \<open>None\<close>. A network device keeps the counts.
\<close>

section \<open>State\<close>

record mqnic_if =
  if_mem :: nat
  if_index :: nat
  if_dev_port_base :: int
  if_dev_port_max :: int
  if_id :: u32
  if_features :: u32
  if_event_queue_count :: u32
  if_event_queue_offset :: u32
  if_event_ring :: "nat \<Rightarrow> mqnic_eq_ring option"
  if_tx_queue_count :: u32
  if_tx_queue_offset :: u32
  if_tx_ring :: "nat \<Rightarrow> mqnic_ring option"
  if_tx_cpl_queue_count :: u32
  if_tx_cpl_queue_offset :: u32
  if_tx_cpl_ring :: "nat \<Rightarrow> mqnic_cq_ring option"
  if_rx_queue_count :: u32
  if_rx_queue_offset :: u32
  if_rx_ring :: "nat \<Rightarrow> mqnic_ring option"
  if_rx_cpl_queue_count :: u32
  if_rx_cpl_queue_offset :: u32
  if_rx_cpl_ring :: "nat \<Rightarrow> mqnic_cq_ring option"
  if_port_count :: u32
  if_port_offset :: u32
  if_port_stride :: u32
  if_port :: "nat \<Rightarrow> mqnic_port option"
  if_max_desc_block_size :: u32
  if_hw_addr :: addr
  if_csr_hw_addr :: addr
  if_mod_i2c_client :: "int option"

datatype hwtstamp_tx_type = Hwtstamp_tx_off | Hwtstamp_tx_on | Hwtstamp_tx_other
datatype hwtstamp_filter = Filter_none | Filter_all | Filter_some
  | Filter_ptp_v1_l4_event | Filter_ptp_v1_l4_sync | Filter_ptp_v1_l4_delay_req
  | Filter_ptp_v2_l4_event | Filter_ptp_v2_l4_sync | Filter_ptp_v2_l4_delay_req
  | Filter_ptp_v2_l2_event | Filter_ptp_v2_l2_sync | Filter_ptp_v2_l2_delay_req
  | Filter_ptp_v2_event | Filter_ptp_v2_sync | Filter_ptp_v2_delay_req
  | Filter_ntp_all | Filter_other

record hwtstamp_config =
  hc_flags :: u32
  hc_tx_type :: hwtstamp_tx_type
  hc_rx_filter :: hwtstamp_filter

datatype netif_feature = NETIF_F_SG | NETIF_F_RXCSUM | NETIF_F_HW_CSUM | NETIF_F_HIGHDMA

text \<open>A network device with its private data (\<open>struct mqnic_priv\<close>).\<close>

record net_device =
  nd_mem :: nat
  nd_dev_port :: int
  nd_mtu :: u32
  nd_min_mtu :: u32
  nd_max_mtu :: u32
  nd_dev_addr :: "u8 list"
  nd_hw_features :: "netif_feature set"
  nd_features :: "netif_feature set"
  nd_rx_packets :: u64
  nd_rx_bytes :: u64
  nd_tx_packets :: u64
  nd_tx_bytes :: u64
  pv_index :: int
  pv_registered :: bool
  pv_port_up :: bool
  pv_if_features :: u32
  pv_event_queue_count :: u32
  pv_tx_queue_count :: u32
  pv_tx_cpl_queue_count :: u32
  pv_rx_queue_count :: u32
  pv_rx_cpl_queue_count :: u32
  pv_port_count :: u32
  pv_hwts_config :: hwtstamp_config
  pv_mod_i2c_client :: "int option"

definition ETH_HLEN :: u32 where "ETH_HLEN = 14"
definition ETH_MIN_MTU :: u32 where "ETH_MIN_MTU = 68"

text \<open>A completion ring array as the heap the transmit and receive rings refer to, and back.\<close>

definition heap_of :: "(nat \<Rightarrow> mqnic_cq_ring option) \<Rightarrow> cq_heap" where
  "heap_of m = (\<lambda>c. the (m (nat c)))"

definition of_heap :: "(nat \<Rightarrow> mqnic_cq_ring option) \<Rightarrow> cq_heap \<Rightarrow> nat \<Rightarrow> mqnic_cq_ring option" where
  "of_heap m cqs = (\<lambda>k. case m k of None \<Rightarrow> None | Some _ \<Rightarrow> Some (cqs (int k)))"

section \<open>Statistics\<close>

fun sum_rings :: "(mqnic_ring \<Rightarrow> u64) \<Rightarrow> (nat \<Rightarrow> mqnic_ring option) \<Rightarrow> nat \<Rightarrow> u64 option" where
  "sum_rings f m 0 = Some 0"
| "sum_rings f m (Suc k) = do { t \<leftarrow> sum_rings f m k; r \<leftarrow> m k; Some (t + f r) }"

definition mqnic_update_stats :: "mqnic_if \<Rightarrow> net_device \<Rightarrow> net_device option" where
  "mqnic_update_stats ifc nd =
    (if \<not> pv_port_up nd then Some nd
     else do {
       rp \<leftarrow> sum_rings r_packets (if_rx_ring ifc) (unat (pv_rx_queue_count nd));
       rb \<leftarrow> sum_rings r_bytes (if_rx_ring ifc) (unat (pv_rx_queue_count nd));
       tp \<leftarrow> sum_rings r_packets (if_tx_ring ifc) (unat (pv_tx_queue_count nd));
       tb \<leftarrow> sum_rings r_bytes (if_tx_ring ifc) (unat (pv_tx_queue_count nd));
       Some (nd\<lparr>nd_rx_packets := rp, nd_rx_bytes := rb, nd_tx_packets := tp, nd_tx_bytes := tb\<rparr>) })"

text \<open>The counters \<open>mqnic_get_stats64\<close> reports: received and sent packets and bytes.\<close>

definition mqnic_get_stats64 :: "mqnic_if \<Rightarrow> net_device \<Rightarrow> ((u64 \<times> u64 \<times> u64 \<times> u64) \<times> net_device) option" where
  "mqnic_get_stats64 ifc nd = do {
     nd \<leftarrow> mqnic_update_stats ifc nd;
     Some ((nd_rx_packets nd, nd_rx_bytes nd, nd_tx_packets nd, nd_tx_bytes nd), nd) }"

section \<open>Starting and stopping a port\<close>

text \<open>The order of pages a receive buffer needs for packets of an MTU.\<close>

definition rx_page_order :: "sys \<Rightarrow> u32 \<Rightarrow> u32" where
  "rx_page_order s mtu =
    (if (ucast (mtu + ETH_HLEN) :: u64) \<le> ucast (w_page_size s) then 0
     else w_ilog2 s (ucast (((ucast (mtu + ETH_HLEN) :: u64) + ucast (w_page_size s) - 1) div ucast (w_page_size s) - 1)) + 1)"

text \<open>The event ring of a completion queue: \<open>k % event_queue_count\<close>, a fault when the count is zero.\<close>

definition event_ring_for :: "mqnic_if \<Rightarrow> net_device \<Rightarrow> nat \<Rightarrow> int option option" where
  "event_ring_for ifc nd k =
    (if pv_event_queue_count nd = 0 then None
     else Some (map_option eq_index (if_event_ring ifc (k mod unat (pv_event_queue_count nd)))))"

definition start_rx_queue :: "net_device \<Rightarrow> nat \<Rightarrow> mqnic_if \<times> sys \<Rightarrow> (mqnic_if \<times> sys) option" where
  "start_rx_queue nd k w = (case w of (ifc, s) \<Rightarrow> do {
     cq \<leftarrow> if_rx_cpl_ring ifc k;
     e \<leftarrow> event_ring_for ifc nd k;
     let (_, cq, s) = mqnic_activate_cq_ring cq e s;
     let s = kvoid ''netif_napi_add'' [cq_index cq] s;
     let s = kvoid ''napi_enable'' [cq_index cq] s;
     let s = mqnic_arm_cq cq s;
     ring \<leftarrow> if_rx_ring ifc k;
     let ring = ring\<lparr>r_mtu := nd_mtu nd, r_page_order := rx_page_order s (nd_mtu nd)\<rparr>;
     let m = (if_rx_cpl_ring ifc)(k \<mapsto> cq);
     (_, ring, cqs, s) \<leftarrow> mqnic_activate_rx_ring ring (Some (pv_index nd)) (Some (int k)) (heap_of m) s;
     Some (ifc\<lparr>if_rx_cpl_ring := of_heap m cqs, if_rx_ring := (if_rx_ring ifc)(k \<mapsto> ring)\<rparr>, s) })"

definition start_tx_queue :: "net_device \<Rightarrow> nat \<Rightarrow> mqnic_if \<times> sys \<Rightarrow> (mqnic_if \<times> sys) option" where
  "start_tx_queue nd k w = (case w of (ifc, s) \<Rightarrow> do {
     cq \<leftarrow> if_tx_cpl_ring ifc k;
     e \<leftarrow> event_ring_for ifc nd k;
     let (_, cq, s) = mqnic_activate_cq_ring cq e s;
     let s = kvoid ''netif_tx_napi_add'' [cq_index cq] s;
     let s = kvoid ''napi_enable'' [cq_index cq] s;
     let s = mqnic_arm_cq cq s;
     ring \<leftarrow> if_tx_ring ifc k;
     let ring = ring\<lparr>r_tx_queue := int k\<rparr>;
     let m = (if_tx_cpl_ring ifc)(k \<mapsto> cq);
     let (_, ring, cqs, s) = mqnic_activate_tx_ring ring (Some (pv_index nd)) (Some (int k)) (heap_of m) s;
     Some (ifc\<lparr>if_tx_cpl_ring := of_heap m cqs, if_tx_ring := (if_tx_ring ifc)(k \<mapsto> ring)\<rparr>, s) })"

definition start_conf_port :: "net_device \<Rightarrow> mqnic_if \<Rightarrow> nat \<Rightarrow> sys \<Rightarrow> sys option" where
  "start_conf_port nd ifc k s = do {
     port \<leftarrow> if_port ifc k;
     let s = mqnic_port_set_tx_mtu port (nd_mtu nd + ETH_HLEN) s;
     let s = mqnic_port_set_rx_mtu port (nd_mtu nd + ETH_HLEN) s;
     Some (mqnic_port_set_rss_mask port 0xffffffff s) }"

definition mqnic_start_port :: "net_device \<Rightarrow> mqnic_if \<Rightarrow> sys \<Rightarrow> (int \<times> net_device \<times> mqnic_if \<times> sys) option" where
  "mqnic_start_port nd ifc s = do {
     (ifc, s) \<leftarrow> ofold (start_rx_queue nd) [0..<unat (min (pv_rx_queue_count nd) (pv_rx_cpl_queue_count nd))] (ifc, s);
     (ifc, s) \<leftarrow> ofold (start_tx_queue nd) [0..<unat (min (pv_tx_queue_count nd) (pv_tx_cpl_queue_count nd))] (ifc, s);
     s \<leftarrow> ofold (start_conf_port nd ifc) [0..<unat (pv_port_count nd)] s;
     port \<leftarrow> if_port ifc 0;
     let s = mqnic_activate_port port s;
     let s = kvoid ''netif_tx_start_all_queues'' [] s;
     let s = kvoid ''netif_device_attach'' [] s;
     let s = kvoid ''netif_carrier_on'' [] s;
     Some (0, nd\<lparr>pv_port_up := True\<rparr>, ifc, s) }"

definition stop_tx_queue :: "nat \<Rightarrow> mqnic_if \<times> sys \<Rightarrow> (mqnic_if \<times> sys) option" where
  "stop_tx_queue k w = (case w of (ifc, s) \<Rightarrow> do {
     ring \<leftarrow> if_tx_ring ifc k;
     let (ring, cqs, s) = mqnic_deactivate_tx_ring ring (heap_of (if_tx_cpl_ring ifc)) s;
     let m = of_heap (if_tx_cpl_ring ifc) cqs;
     cq \<leftarrow> m k;
     let (cq, s) = mqnic_deactivate_cq_ring cq s;
     let s = kvoid ''napi_disable'' [cq_index cq] s;
     let s = kvoid ''netif_napi_del'' [cq_index cq] s;
     Some (ifc\<lparr>if_tx_ring := (if_tx_ring ifc)(k \<mapsto> ring), if_tx_cpl_ring := m(k \<mapsto> cq)\<rparr>, s) })"

definition stop_rx_queue :: "nat \<Rightarrow> mqnic_if \<times> sys \<Rightarrow> (mqnic_if \<times> sys) option" where
  "stop_rx_queue k w = (case w of (ifc, s) \<Rightarrow> do {
     ring \<leftarrow> if_rx_ring ifc k;
     let (ring, cqs, s) = mqnic_deactivate_rx_ring ring (heap_of (if_rx_cpl_ring ifc)) s;
     let m = of_heap (if_rx_cpl_ring ifc) cqs;
     cq \<leftarrow> m k;
     let (cq, s) = mqnic_deactivate_cq_ring cq s;
     let s = kvoid ''napi_disable'' [cq_index cq] s;
     let s = kvoid ''netif_napi_del'' [cq_index cq] s;
     Some (ifc\<lparr>if_rx_ring := (if_rx_ring ifc)(k \<mapsto> ring), if_rx_cpl_ring := m(k \<mapsto> cq)\<rparr>, s) })"

definition drain_tx_queue :: "nat \<Rightarrow> mqnic_if \<times> sys \<Rightarrow> (mqnic_if \<times> sys) option" where
  "drain_tx_queue k w = (case w of (ifc, s) \<Rightarrow> do {
     ring \<leftarrow> if_tx_ring ifc k;
     (_, ring, s) \<leftarrow> mqnic_free_tx_buf ring s;
     Some (ifc\<lparr>if_tx_ring := (if_tx_ring ifc)(k \<mapsto> ring)\<rparr>, s) })"

definition drain_rx_queue :: "nat \<Rightarrow> mqnic_if \<times> sys \<Rightarrow> (mqnic_if \<times> sys) option" where
  "drain_rx_queue k w = (case w of (ifc, s) \<Rightarrow> do {
     ring \<leftarrow> if_rx_ring ifc k;
     (_, ring, s) \<leftarrow> mqnic_free_rx_buf ring s;
     Some (ifc\<lparr>if_rx_ring := (if_rx_ring ifc)(k \<mapsto> ring)\<rparr>, s) })"

definition stop_port_off :: "mqnic_if \<Rightarrow> nat \<Rightarrow> sys \<Rightarrow> sys option" where
  "stop_port_off ifc k s = do { port \<leftarrow> if_port ifc k; Some (mqnic_deactivate_port port s) }"

definition mqnic_stop_port :: "net_device \<Rightarrow> mqnic_if \<Rightarrow> sys \<Rightarrow> (int \<times> net_device \<times> mqnic_if \<times> sys) option" where
  "mqnic_stop_port nd ifc s = do {
     let s = kvoid ''netif_tx_stop_all_queues'' [] s;
     let s = kvoid ''netif_tx_disable'' [] s;
     nd \<leftarrow> mqnic_update_stats ifc nd;
     let nd = nd\<lparr>pv_port_up := False\<rparr>;
     s \<leftarrow> ofold (stop_port_off ifc) [0..<unat (pv_port_count nd)] s;
     (ifc, s) \<leftarrow> ofold stop_tx_queue [0..<unat (min (pv_tx_queue_count nd) (pv_tx_cpl_queue_count nd))] (ifc, s);
     (ifc, s) \<leftarrow> ofold stop_rx_queue [0..<unat (min (pv_rx_queue_count nd) (pv_rx_cpl_queue_count nd))] (ifc, s);
     let s = kvoid ''msleep'' [20] s;
     (ifc, s) \<leftarrow> ofold drain_tx_queue [0..<unat (pv_tx_queue_count nd)] (ifc, s);
     (ifc, s) \<leftarrow> ofold drain_rx_queue [0..<unat (pv_rx_queue_count nd)] (ifc, s);
     let s = kvoid ''netif_carrier_off'' [] s;
     Some (0, nd, ifc, s) }"

definition mqnic_open :: "net_device \<Rightarrow> mqnic_if \<Rightarrow> sys \<Rightarrow> (int \<times> net_device \<times> mqnic_if \<times> sys) option" where
  "mqnic_open nd ifc s = mqnic_start_port nd ifc s"

definition mqnic_close :: "net_device \<Rightarrow> mqnic_if \<Rightarrow> sys \<Rightarrow> (int \<times> net_device \<times> mqnic_if \<times> sys) option" where
  "mqnic_close nd ifc s = mqnic_stop_port nd ifc s"

text \<open>\<open>running\<close> is \<open>netif_running\<close>; the result of restarting the port is not looked at.\<close>

definition mqnic_change_mtu :: "bool \<Rightarrow> int \<Rightarrow> net_device \<Rightarrow> mqnic_if \<Rightarrow> sys \<Rightarrow> (int \<times> net_device \<times> mqnic_if \<times> sys) option" where
  "mqnic_change_mtu running new_mtu nd ifc s =
    (if (word_of_int new_mtu :: u32) < nd_min_mtu nd \<or> (word_of_int new_mtu :: u32) > nd_max_mtu nd
     then Some (- EPERM, nd, ifc, s)
     else
       let nd = nd\<lparr>nd_mtu := word_of_int new_mtu\<rparr>
       in if running then do {
            (_, nd, ifc, s) \<leftarrow> mqnic_stop_port nd ifc s;
            (_, nd, ifc, s) \<leftarrow> mqnic_start_port nd ifc s;
            Some (0, nd, ifc, s) }
          else Some (0, nd, ifc, s))"

section \<open>Hardware timestamping\<close>

definition mqnic_hwtstamp_set :: "hwtstamp_config option \<Rightarrow> bool \<Rightarrow> net_device \<Rightarrow> int \<times> hwtstamp_config option \<times> net_device" where
  "mqnic_hwtstamp_set from_user to_user_ok nd =
    (case from_user of
       None \<Rightarrow> (- EFAULT, None, nd)
     | Some c \<Rightarrow>
       if hc_flags c \<noteq> 0 then (- EINVAL, None, nd)
       else if hc_tx_type c = Hwtstamp_tx_other then (- ERANGE, None, nd)
       else if hc_rx_filter c = Filter_other then (- ERANGE, None, nd)
       else
         let c = (if hc_rx_filter c = Filter_none then c else c\<lparr>hc_rx_filter := Filter_all\<rparr>);
             nd = nd\<lparr>pv_hwts_config := c\<rparr>
         in if \<not> to_user_ok then (- EFAULT, None, nd) else (0, Some c, nd))"

definition mqnic_hwtstamp_get :: "bool \<Rightarrow> net_device \<Rightarrow> int \<times> hwtstamp_config option" where
  "mqnic_hwtstamp_get to_user_ok nd = (if \<not> to_user_ok then (- EFAULT, None) else (0, Some (pv_hwts_config nd)))"

datatype nd_ioctl = SIOCSHWTSTAMP "hwtstamp_config option" | SIOCGHWTSTAMP | SIOC_other

definition mqnic_ndo_ioctl :: "nd_ioctl \<Rightarrow> bool \<Rightarrow> net_device \<Rightarrow> int \<times> hwtstamp_config option \<times> net_device" where
  "mqnic_ndo_ioctl cmd to_user_ok nd =
    (case cmd of
       SIOCSHWTSTAMP c \<Rightarrow> mqnic_hwtstamp_set c to_user_ok nd
     | SIOCGHWTSTAMP \<Rightarrow> (case mqnic_hwtstamp_get to_user_ok nd of (r, c) \<Rightarrow> (r, c, nd))
     | SIOC_other \<Rightarrow> (- EOPNOTSUPP, None, nd))"


section \<open>Creating and destroying a network device\<close>

definition DESC_SIZE :: int where "DESC_SIZE = 16"
definition CPL_SIZE :: int where "CPL_SIZE = 32"
definition EVENT_SIZE :: int where "EVENT_SIZE = 32"
definition IF_FEATURE_TX_CSUM :: u32 where "IF_FEATURE_TX_CSUM = push_bit 8 1"
definition IF_FEATURE_RX_CSUM :: u32 where "IF_FEATURE_RX_CSUM = push_bit 9 1"

text \<open>The device an interface belongs to, as far as interfaces use it, and the module's parameters.\<close>

record if_dev =
  ifd_irq :: "mqnic_irq list"
  ifd_csr_offset :: u32
  ifd_dev_port_max :: int
  ifd_mac_count :: int
  ifd_mac_list :: "u8 list list"

record mod_params =
  num_ev_queue_entries :: int
  num_tx_queue_entries :: int
  num_rx_queue_entries :: int

definition nd_alloc_tx :: "int \<Rightarrow> int \<Rightarrow> nat \<Rightarrow> mqnic_if \<times> sys \<Rightarrow> (int \<times> mqnic_if \<times> sys) option" where
  "nd_alloc_tx n stride k w = (case w of (ifc, s) \<Rightarrow> do {
     ring \<leftarrow> if_tx_ring ifc k;
     let (e, ring, s) = mqnic_alloc_tx_ring ring n stride s;
     Some (e, ifc\<lparr>if_tx_ring := (if_tx_ring ifc)(k \<mapsto> ring)\<rparr>, s) })"

definition nd_alloc_rx :: "int \<Rightarrow> int \<Rightarrow> nat \<Rightarrow> mqnic_if \<times> sys \<Rightarrow> (int \<times> mqnic_if \<times> sys) option" where
  "nd_alloc_rx n stride k w = (case w of (ifc, s) \<Rightarrow> do {
     ring \<leftarrow> if_rx_ring ifc k;
     let (e, ring, s) = mqnic_alloc_rx_ring ring n stride s;
     Some (e, ifc\<lparr>if_rx_ring := (if_rx_ring ifc)(k \<mapsto> ring)\<rparr>, s) })"

definition nd_alloc_tx_cpl :: "int \<Rightarrow> int \<Rightarrow> nat \<Rightarrow> mqnic_if \<times> sys \<Rightarrow> (int \<times> mqnic_if \<times> sys) option" where
  "nd_alloc_tx_cpl n stride k w = (case w of (ifc, s) \<Rightarrow> do {
     ring \<leftarrow> if_tx_cpl_ring ifc k;
     let (e, ring, s) = mqnic_alloc_cq_ring ring n stride s;
     Some (e, ifc\<lparr>if_tx_cpl_ring := (if_tx_cpl_ring ifc)(k \<mapsto> ring)\<rparr>, s) })"

definition nd_alloc_rx_cpl :: "int \<Rightarrow> int \<Rightarrow> nat \<Rightarrow> mqnic_if \<times> sys \<Rightarrow> (int \<times> mqnic_if \<times> sys) option" where
  "nd_alloc_rx_cpl n stride k w = (case w of (ifc, s) \<Rightarrow> do {
     ring \<leftarrow> if_rx_cpl_ring ifc k;
     let (e, ring, s) = mqnic_alloc_cq_ring ring n stride s;
     Some (e, ifc\<lparr>if_rx_cpl_ring := (if_rx_cpl_ring ifc)(k \<mapsto> ring)\<rparr>, s) })"

text \<open>Freeing the rings of the private data: null entries are skipped.\<close>

definition nd_free_tx :: "nat \<Rightarrow> mqnic_if \<times> sys \<Rightarrow> (mqnic_if \<times> sys) option" where
  "nd_free_tx k w = (case w of (ifc, s) \<Rightarrow>
     case if_tx_ring ifc k of
       None \<Rightarrow> Some (ifc, s)
     | Some ring \<Rightarrow> do {
         (ring, cqs, s) \<leftarrow> mqnic_free_tx_ring ring (heap_of (if_tx_cpl_ring ifc)) s;
         Some (ifc\<lparr>if_tx_ring := (if_tx_ring ifc)(k \<mapsto> ring), if_tx_cpl_ring := of_heap (if_tx_cpl_ring ifc) cqs\<rparr>, s) })"

definition nd_free_rx :: "nat \<Rightarrow> mqnic_if \<times> sys \<Rightarrow> (mqnic_if \<times> sys) option" where
  "nd_free_rx k w = (case w of (ifc, s) \<Rightarrow>
     case if_rx_ring ifc k of
       None \<Rightarrow> Some (ifc, s)
     | Some ring \<Rightarrow> do {
         (ring, cqs, s) \<leftarrow> mqnic_free_rx_ring ring (heap_of (if_rx_cpl_ring ifc)) s;
         Some (ifc\<lparr>if_rx_ring := (if_rx_ring ifc)(k \<mapsto> ring), if_rx_cpl_ring := of_heap (if_rx_cpl_ring ifc) cqs\<rparr>, s) })"

definition nd_free_tx_cpl :: "nat \<Rightarrow> mqnic_if \<times> sys \<Rightarrow> (mqnic_if \<times> sys) option" where
  "nd_free_tx_cpl k w = (case w of (ifc, s) \<Rightarrow>
     case if_tx_cpl_ring ifc k of
       None \<Rightarrow> Some (ifc, s)
     | Some ring \<Rightarrow> (case mqnic_free_cq_ring ring s of (ring, s) \<Rightarrow>
         Some (ifc\<lparr>if_tx_cpl_ring := (if_tx_cpl_ring ifc)(k \<mapsto> ring)\<rparr>, s)))"

definition nd_free_rx_cpl :: "nat \<Rightarrow> mqnic_if \<times> sys \<Rightarrow> (mqnic_if \<times> sys) option" where
  "nd_free_rx_cpl k w = (case w of (ifc, s) \<Rightarrow>
     case if_rx_cpl_ring ifc k of
       None \<Rightarrow> Some (ifc, s)
     | Some ring \<Rightarrow> (case mqnic_free_cq_ring ring s of (ring, s) \<Rightarrow>
         Some (ifc\<lparr>if_rx_cpl_ring := (if_rx_cpl_ring ifc)(k \<mapsto> ring)\<rparr>, s)))"

text \<open>\<open>*ndev_ptr\<close> is the argument; a null pointer is followed to read \<open>registered\<close>.\<close>

definition mqnic_destroy_netdev :: "net_device option \<Rightarrow> mqnic_if \<Rightarrow> sys \<Rightarrow> (mqnic_if \<times> sys) option" where
  "mqnic_destroy_netdev ndev ifc s = do {
     nd \<leftarrow> ndev;
     let s = (if pv_registered nd then kvoid ''unregister_netdev'' [] s else s);
     (ifc, s) \<leftarrow> ofold nd_free_tx [0..<unat (pv_tx_queue_count nd)] (ifc, s);
     (ifc, s) \<leftarrow> ofold nd_free_tx_cpl [0..<unat (pv_tx_cpl_queue_count nd)] (ifc, s);
     (ifc, s) \<leftarrow> ofold nd_free_rx [0..<unat (pv_rx_queue_count nd)] (ifc, s);
     (ifc, s) \<leftarrow> ofold nd_free_rx_cpl [0..<unat (pv_rx_cpl_queue_count nd)] (ifc, s);
     Some (ifc, emit (Kfree (nd_mem nd)) s) }"

text \<open>The address of the device: from the board's list, or a random one (\<open>valid\<close> is
  \<open>is_valid_ether_addr\<close>, \<open>rnd\<close> the address \<open>eth_hw_addr_random\<close> picks).\<close>

definition nd_mac :: "(u8 list \<Rightarrow> bool) \<Rightarrow> u8 list \<Rightarrow> if_dev \<Rightarrow> int \<Rightarrow> u8 list option" where
  "nd_mac valid rnd dev dev_port =
    (if dev_port \<ge> ifd_mac_count dev then Some rnd
     else if dev_port < 0 \<or> nat dev_port \<ge> length (ifd_mac_list dev) then None
     else let a = ifd_mac_list dev ! nat dev_port in if valid a then Some a else Some rnd)"

definition nd_hw_feature_set :: "u32 \<Rightarrow> netif_feature set" where
  "nd_hw_feature_set f = {NETIF_F_SG} \<union>
     (if f AND IF_FEATURE_RX_CSUM \<noteq> 0 then {NETIF_F_RXCSUM} else {}) \<union>
     (if f AND IF_FEATURE_TX_CSUM \<noteq> 0 then {NETIF_F_HW_CSUM} else {})"

text \<open>The MTU limit: from the first port when it reports one.\<close>

definition nd_mtu_limit :: "mqnic_if \<Rightarrow> u32" where
  "nd_mtu_limit ifc = (case if_port ifc 0 of
     Some port \<Rightarrow> if port_mtu port \<noteq> 0 then port_mtu port - ETH_HLEN else 1500
   | None \<Rightarrow> 1500)"

definition init_netdev :: "nat \<Rightarrow> mqnic_if \<Rightarrow> int \<Rightarrow> int \<Rightarrow> u8 list \<Rightarrow> net_device" where
  "init_netdev m ifc index dev_port mac =
    \<lparr>nd_mem = m, nd_dev_port = dev_port, nd_mtu = 1500, nd_min_mtu = 0, nd_max_mtu = 0, nd_dev_addr = mac,
     nd_hw_features = {}, nd_features = {}, nd_rx_packets = 0, nd_rx_bytes = 0, nd_tx_packets = 0, nd_tx_bytes = 0,
     pv_index = index, pv_registered = False, pv_port_up = False, pv_if_features = if_features ifc,
     pv_event_queue_count = if_event_queue_count ifc, pv_tx_queue_count = if_tx_queue_count ifc,
     pv_tx_cpl_queue_count = if_tx_cpl_queue_count ifc, pv_rx_queue_count = if_rx_queue_count ifc,
     pv_rx_cpl_queue_count = if_rx_cpl_queue_count ifc, pv_port_count = if_port_count ifc,
     pv_hwts_config = \<lparr>hc_flags = 0, hc_tx_type = Hwtstamp_tx_off, hc_rx_filter = Filter_none\<rparr>,
     pv_mod_i2c_client = None\<rparr>"

definition nd_alloc_rings :: "mod_params \<Rightarrow> net_device \<Rightarrow> mqnic_if \<times> sys \<Rightarrow> (int \<times> mqnic_if \<times> sys) option" where
  "nd_alloc_rings mp nd w =
    eseq (efold (nd_alloc_tx (num_tx_queue_entries mp)
            (DESC_SIZE * uint (min (if_max_desc_block_size (fst w)) 4))) [0..<unat (pv_tx_queue_count nd)] w)
      (\<lambda>w. eseq (efold (nd_alloc_tx_cpl (num_tx_queue_entries mp) CPL_SIZE) [0..<unat (pv_tx_cpl_queue_count nd)] w)
      (\<lambda>w. eseq (efold (nd_alloc_rx (num_rx_queue_entries mp) DESC_SIZE) [0..<unat (pv_rx_queue_count nd)] w)
      (\<lambda>w. efold (nd_alloc_rx_cpl (num_rx_queue_entries mp) CPL_SIZE) [0..<unat (pv_rx_cpl_queue_count nd)] w)))"

text \<open>The result is the error code, the new \<open>*ndev_ptr\<close> and the interface. On failure the device
  pointed to by the old \<open>*ndev_ptr\<close> is destroyed.\<close>

definition mqnic_create_netdev ::
    "(u8 list \<Rightarrow> bool) \<Rightarrow> u8 list \<Rightarrow> mod_params \<Rightarrow> if_dev \<Rightarrow> net_device option \<Rightarrow> int \<Rightarrow> int \<Rightarrow> mqnic_if \<Rightarrow> sys \<Rightarrow>
      (int \<times> net_device option \<times> mqnic_if \<times> sys) option" where
  "mqnic_create_netdev valid rnd mp dev ndev_ptr index dev_port ifc s =
    (case kzalloc s of
       (None, s) \<Rightarrow> Some (- ENOMEM, ndev_ptr, ifc, s)
     | (Some m, s) \<Rightarrow> do {
         let s = kvoid ''netif_set_real_num_tx_queues'' [uint (if_tx_queue_count ifc)] s;
         let s = kvoid ''netif_set_real_num_rx_queues'' [uint (if_rx_queue_count ifc)] s;
         mac \<leftarrow> nd_mac valid rnd dev dev_port;
         let nd = init_netdev m ifc index dev_port mac;
         (e, ifc, s) \<leftarrow> nd_alloc_rings mp nd (ifc, s);
         (if e \<noteq> 0 then do { (ifc, s) \<leftarrow> mqnic_destroy_netdev ndev_ptr ifc s; Some (e, None, ifc, s) }
          else do {
            let hw = nd_hw_feature_set (pv_if_features nd);
            let nd = nd\<lparr>nd_hw_features := hw, nd_features := hw \<union> {NETIF_F_HIGHDMA},
                  nd_min_mtu := ETH_MIN_MTU, nd_max_mtu := nd_mtu_limit ifc\<rparr>;
            let s = kvoid ''netif_carrier_off'' [] s;
            let (e, s) = kcall ''register_netdev'' [] s;
            (if e \<noteq> 0 then do { (ifc, s) \<leftarrow> mqnic_destroy_netdev ndev_ptr ifc s; Some (e, None, ifc, s) }
             else Some (0, Some (nd\<lparr>pv_registered := True\<rparr>), ifc, s)) }) })"

section \<open>One queue\<close>

lemma of_heap_same [simp]: "of_heap m (heap_of m) = m"
  by (rule ext) (simp add: of_heap_def heap_of_def split: option.splits)

lemma of_heap_upd [simp]: "m k \<noteq> None \<Longrightarrow> of_heap m ((heap_of m)(int k := c)) = m(k \<mapsto> c)"
  by (rule ext) (auto simp: of_heap_def heap_of_def split: option.splits)

lemma heap_of_int [simp]: "heap_of m (int k) = the (m k)"
  by (simp add: heap_of_def)

text \<open>A receive queue that can be started: allocated, idle, its ring empty; and one that runs.\<close>

definition rxq_ready :: "nat \<Rightarrow> mqnic_if \<Rightarrow> bool" where
  "rxq_ready k ifc \<longleftrightarrow> (\<exists>cq r. if_rx_cpl_ring ifc k = Some cq \<and> if_rx_ring ifc k = Some r \<and>
     cq_buf cq \<noteq> None \<and> cq_handler cq = None \<and> cq_src_ring cq = None \<and>
     rx_inv r \<and> rx_posted r = 0 \<and> r_cq_ring r = None)"

definition rxq_up :: "int \<times> u32 \<Rightarrow> nat \<Rightarrow> mqnic_if \<Rightarrow> bool" where
  "rxq_up p k ifc \<longleftrightarrow> (\<exists>cq r. if_rx_cpl_ring ifc k = Some cq \<and> if_rx_ring ifc k = Some r \<and>
     cq_buf cq \<noteq> None \<and> cq_active cq \<and> cq_handler cq = Some Mqnic_rx_irq \<and> cq_src_ring cq = Some (r_index r) \<and>
     r_active r \<and> r_priv r = Some (fst p) \<and> r_mtu r = snd p \<and> r_cq_ring r = Some (int k) \<and> rx_inv r \<and>
     (\<forall>j<rx_posted r. ri_page (rx_slot r (r_clean_tail_ptr r + of_nat j)) \<noteq> None))"

definition tx_ring_ok :: "mqnic_ring \<Rightarrow> bool" where
  "tx_ring_ok r \<longleftrightarrow> ring_dims (r_size r) (r_size_mask r) \<and> r_buf r \<noteq> None \<and> length (r_tx_info r) = unat (r_size r)"

definition txq_ready :: "nat \<Rightarrow> mqnic_if \<Rightarrow> bool" where
  "txq_ready k ifc \<longleftrightarrow> (\<exists>cq r. if_tx_cpl_ring ifc k = Some cq \<and> if_tx_ring ifc k = Some r \<and>
     cq_buf cq \<noteq> None \<and> cq_handler cq = None \<and> cq_src_ring cq = None \<and> tx_ring_ok r \<and> r_cq_ring r = None)"

definition txq_up :: "int \<Rightarrow> nat \<Rightarrow> mqnic_if \<Rightarrow> bool" where
  "txq_up p k ifc \<longleftrightarrow> (\<exists>cq r. if_tx_cpl_ring ifc k = Some cq \<and> if_tx_ring ifc k = Some r \<and>
     cq_buf cq \<noteq> None \<and> cq_active cq \<and> cq_handler cq = Some Mqnic_tx_irq \<and> cq_src_ring cq = Some (r_index r) \<and>
     r_active r \<and> r_priv r = Some p \<and> r_cq_ring r = Some (int k) \<and> tx_ring_ok r)"

text \<open>Only queue \<open>k\<close> of one direction differs.\<close>

definition only_rx :: "nat \<Rightarrow> mqnic_if \<Rightarrow> mqnic_if \<Rightarrow> bool" where
  "only_rx k i j \<longleftrightarrow> (\<exists>cq r. j = i\<lparr>if_rx_cpl_ring := (if_rx_cpl_ring i)(k \<mapsto> cq), if_rx_ring := (if_rx_ring i)(k \<mapsto> r)\<rparr>)"

definition only_tx :: "nat \<Rightarrow> mqnic_if \<Rightarrow> mqnic_if \<Rightarrow> bool" where
  "only_tx k i j \<longleftrightarrow> (\<exists>cq r. j = i\<lparr>if_tx_cpl_ring := (if_tx_cpl_ring i)(k \<mapsto> cq), if_tx_ring := (if_tx_ring i)(k \<mapsto> r)\<rparr>)"

lemma only_rx_other:
  "only_rx k i j \<Longrightarrow> l \<noteq> k \<Longrightarrow> rxq_ready l j = rxq_ready l i \<and> rxq_up q l j = rxq_up q l i"
  "only_rx k i j \<Longrightarrow> txq_ready l j = txq_ready l i \<and> txq_up p l j = txq_up p l i"
  by (auto simp: only_rx_def rxq_ready_def rxq_up_def txq_ready_def txq_up_def)

lemma only_tx_other:
  "only_tx k i j \<Longrightarrow> l \<noteq> k \<Longrightarrow> txq_ready l j = txq_ready l i \<and> txq_up p l j = txq_up p l i"
  "only_tx k i j \<Longrightarrow> rxq_ready l j = rxq_ready l i \<and> rxq_up q l j = rxq_up q l i"
  by (auto simp: only_tx_def rxq_ready_def rxq_up_def txq_ready_def txq_up_def)

text \<open>The fixed part of an interface: what starting and stopping queues leaves alone.\<close>

definition same_frame :: "mqnic_if \<Rightarrow> mqnic_if \<Rightarrow> bool" where
  "same_frame i j \<longleftrightarrow> if_event_ring j = if_event_ring i \<and> if_port j = if_port i \<and>
     if_event_queue_count j = if_event_queue_count i"

lemma only_frame: "only_rx k i j \<Longrightarrow> same_frame i j" "only_tx k i j \<Longrightarrow> same_frame i j"
  by (auto simp: only_rx_def only_tx_def same_frame_def)

lemma activate_cq_fields:
  assumes "mqnic_activate_cq_ring cq (Some e) s = (ret, cq', s')" "cq_buf cq \<noteq> None"
  shows "ret = 0" "cq_active cq'" "cq_buf cq' = cq_buf cq" "cq_handler cq' = cq_handler cq" "cq_src_ring cq' = cq_src_ring cq"
  using assms by (auto simp: mqnic_activate_cq_ring_def mqnic_deactivate_cq_ring_def Let_def split: option.splits)

lemma rx_activate_total:
  assumes "rx_inv r" "rx_posted r = 0" "r_cq_ring r = None" "cq_handler (cqs c) = None" "cq_src_ring (cqs c) = None"
  obtains r' s' where "mqnic_activate_rx_ring r (Some p) (Some c) cqs s =
      Some (0, r', cqs(c := (cqs c)\<lparr>cq_src_ring := Some (r_index r), cq_handler := Some Mqnic_rx_irq\<rparr>), s')"
    "rx_inv r'" "r_active r'" "r_priv r' = Some p" "r_cq_ring r' = Some c" "r_index r' = r_index r" "r_mtu r' = r_mtu r"
    "\<forall>j<rx_posted r'. ri_page (rx_slot r' (r_clean_tail_ptr r' + of_nat j)) \<noteq> None"
proof -
  obtain buf where buf: "r_buf r = Some buf" using assms(1) by (auto simp: rx_inv_def)
  let ?r1 = "r\<lparr>r_priv := None, r_cq_ring := None, r_active := False\<rparr>"
  let ?r2 = "?r1\<lparr>r_priv := Some p, r_cq_ring := Some c, r_active := True\<rparr>"
  let ?cqs = "cqs(c := (cqs c)\<lparr>cq_src_ring := Some (r_index r), cq_handler := Some Mqnic_rx_irq\<rparr>)"
  obtain s1 where d: "mqnic_deactivate_rx_ring r cqs s = (?r1, cqs, s1)"
    using assms(3) by (simp add: mqnic_deactivate_rx_ring_def Let_def)
  obtain s2 where s2: "s2 = iowrites (config_writes (r_hw_addr r) (r_buf_dma_addr r) (word_of_int (cq_index (cqs c)))
       (r_head_ptr r AND r_hw_ptr_mask r) (r_tail_ptr r AND r_hw_ptr_mask r) (log_size_reg s1 ?r1 OR ACTIVE_MASK)) s1" by simp
  have inv: "rx_inv ?r2" "rx_posted ?r2 = 0" "ring_pages ?r2 = ring_pages r" "ring_maps ?r2 = ring_maps r"
    using assms(1,2) by (simp_all add: rx_inv_def rx_posted_def rx_slot_def ring_pages_def ring_maps_def)
  have acc: "rx_accounts (held (trace s2)) (live (trace s2)) ?r2 s2"
    using rx_inv_empty [OF assms(1,2)] inv(3,4) by (simp add: rx_accounts_def)
  obtain r' s' k where f: "mqnic_refill_rx_buffers ?r2 s2 = Some (r', s')" "rx_inv r'" "rx_grown ?r2 k r'" "rx_posted r' = rx_posted ?r2 + k"
      "\<forall>j<k. ri_page (rx_slot r' (r_head_ptr ?r2 + of_nat j)) \<noteq> None"
    by (rule refill_spec [OF inv(1) acc])
  have a: "mqnic_activate_rx_ring r (Some p) (Some c) cqs s = Some (0, r', ?cqs, s')"
    using f(1) buf assms(4,5) unfolding s2
    by (simp add: mqnic_activate_rx_ring_def d Let_def log_size_reg_def del: iowrites_Cons)
  have g: "r_active r'" "r_priv r' = Some p" "r_cq_ring r' = Some c" "r_index r' = r_index r" "r_mtu r' = r_mtu r" "r_clean_tail_ptr r' = r_clean_tail_ptr r"
    using f(3) by (auto simp: rx_grown_def)
  have "r_head_ptr ?r2 = r_clean_tail_ptr r" using rx_head_eq [of r] assms(2) by simp
  with f(4,5) g(6) inv(2) have "\<forall>j<rx_posted r'. ri_page (rx_slot r' (r_clean_tail_ptr r' + of_nat j)) \<noteq> None" by simp
  with a f(2) g that show thesis by blast
qed

lemma tx_activate_total:
  assumes "r_buf r \<noteq> None" "r_cq_ring r = None" "cq_handler (cqs c) = None" "cq_src_ring (cqs c) = None"
  obtains s' where "mqnic_activate_tx_ring r (Some p) (Some c) cqs s =
      (0, r\<lparr>r_priv := Some p, r_cq_ring := Some c, r_active := True\<rparr>,
       cqs(c := (cqs c)\<lparr>cq_src_ring := Some (r_index r), cq_handler := Some Mqnic_tx_irq\<rparr>), s')"
proof -
  obtain buf where buf: "r_buf r = Some buf" using assms(1) by auto
  show thesis
    using assms(2-4) buf that
    by (auto simp: mqnic_activate_tx_ring_def mqnic_deactivate_tx_ring_def Let_def simp del: iowrites_Cons)
qed

lemma start_rx_queue_spec:
  assumes "rxq_ready k ifc" "event_ring_for ifc nd k = Some (Some e)"
  shows "\<exists>ifc' s'. start_rx_queue nd k (ifc, s) = Some (ifc', s') \<and> rxq_up (pv_index nd, nd_mtu nd) k ifc' \<and> only_rx k ifc ifc'"
proof -
  from assms(1) obtain cq r where q: "if_rx_cpl_ring ifc k = Some cq" "if_rx_ring ifc k = Some r"
     "cq_buf cq \<noteq> None" "cq_handler cq = None" "cq_src_ring cq = None" "rx_inv r" "rx_posted r = 0" "r_cq_ring r = None"
    unfolding rxq_ready_def by blast
  obtain ret cq1 s1 where a: "mqnic_activate_cq_ring cq (Some e) s = (ret, cq1, s1)" by (metis prod_cases3)
  note c1 = activate_cq_fields [OF a q(3)]
  let ?s2 = "mqnic_arm_cq cq1 (kvoid ''napi_enable'' [cq_index cq1] (kvoid ''netif_napi_add'' [cq_index cq1] s1))"
  let ?r1 = "r\<lparr>r_mtu := nd_mtu nd, r_page_order := rx_page_order ?s2 (nd_mtu nd)\<rparr>"
  let ?m = "(if_rx_cpl_ring ifc)(k \<mapsto> cq1)"
  have r1: "rx_inv ?r1" "rx_posted ?r1 = 0" "r_cq_ring ?r1 = None" "r_index ?r1 = r_index r"
    using q(6-8) by (simp_all add: rx_inv_def rx_posted_def rx_slot_def)
  have h: "cq_handler (heap_of ?m (int k)) = None" "cq_src_ring (heap_of ?m (int k)) = None" using c1 q(4,5) by simp_all
  obtain r' s' where x: "mqnic_activate_rx_ring ?r1 (Some (pv_index nd)) (Some (int k)) (heap_of ?m) ?s2 =
      Some (0, r', (heap_of ?m)(int k := (heap_of ?m (int k))\<lparr>cq_src_ring := Some (r_index ?r1), cq_handler := Some Mqnic_rx_irq\<rparr>), s')"
    "rx_inv r'" "r_active r'" "r_priv r' = Some (pv_index nd)" "r_cq_ring r' = Some (int k)" "r_index r' = r_index ?r1" "r_mtu r' = r_mtu ?r1"
    "\<forall>j<rx_posted r'. ri_page (rx_slot r' (r_clean_tail_ptr r' + of_nat j)) \<noteq> None"
    by (rule rx_activate_total [where cqs = "heap_of ?m" and c = "int k", OF r1(1-3) h])
  let ?cq2 = "cq1\<lparr>cq_src_ring := Some (r_index r), cq_handler := Some Mqnic_rx_irq\<rparr>"
  let ?ifc = "ifc\<lparr>if_rx_cpl_ring := (if_rx_cpl_ring ifc)(k \<mapsto> ?cq2), if_rx_ring := (if_rx_ring ifc)(k \<mapsto> r')\<rparr>"
  have "start_rx_queue nd k (ifc, s) = Some (?ifc, s')"
    using x(1) r1(4) by (simp add: start_rx_queue_def q(1,2) assms(2) a Let_def)
  moreover have "rxq_up (pv_index nd, nd_mtu nd) k ?ifc"
    using x c1 q(3) r1(4) by (simp add: rxq_up_def)
  moreover have "only_rx k ifc ?ifc" unfolding only_rx_def by blast
  ultimately show ?thesis by blast
qed

lemma start_tx_queue_spec:
  assumes "txq_ready k ifc" "event_ring_for ifc nd k = Some (Some e)"
  shows "\<exists>ifc' s'. start_tx_queue nd k (ifc, s) = Some (ifc', s') \<and> txq_up (pv_index nd) k ifc' \<and> only_tx k ifc ifc'"
proof -
  from assms(1) obtain cq r where q: "if_tx_cpl_ring ifc k = Some cq" "if_tx_ring ifc k = Some r"
     "cq_buf cq \<noteq> None" "cq_handler cq = None" "cq_src_ring cq = None" "tx_ring_ok r" "r_cq_ring r = None"
    unfolding txq_ready_def by blast
  obtain ret cq1 s1 where a: "mqnic_activate_cq_ring cq (Some e) s = (ret, cq1, s1)" by (metis prod_cases3)
  note c1 = activate_cq_fields [OF a q(3)]
  let ?s2 = "mqnic_arm_cq cq1 (kvoid ''napi_enable'' [cq_index cq1] (kvoid ''netif_tx_napi_add'' [cq_index cq1] s1))"
  let ?r1 = "r\<lparr>r_tx_queue := int k\<rparr>"
  let ?m = "(if_tx_cpl_ring ifc)(k \<mapsto> cq1)"
  have r1: "r_buf ?r1 \<noteq> None" "r_cq_ring ?r1 = None" using q(6,7) by (simp_all add: tx_ring_ok_def)
  have h: "cq_handler (heap_of ?m (int k)) = None" "cq_src_ring (heap_of ?m (int k)) = None" using c1 q(4,5) by simp_all
  obtain s' where x: "mqnic_activate_tx_ring ?r1 (Some (pv_index nd)) (Some (int k)) (heap_of ?m) ?s2 =
      (0, ?r1\<lparr>r_priv := Some (pv_index nd), r_cq_ring := Some (int k), r_active := True\<rparr>,
       (heap_of ?m)(int k := (heap_of ?m (int k))\<lparr>cq_src_ring := Some (r_index ?r1), cq_handler := Some Mqnic_tx_irq\<rparr>), s')"
    by (rule tx_activate_total [where cqs = "heap_of ?m" and c = "int k", OF r1 h])
  let ?cq2 = "cq1\<lparr>cq_src_ring := Some (r_index r), cq_handler := Some Mqnic_tx_irq\<rparr>"
  let ?r2 = "?r1\<lparr>r_priv := Some (pv_index nd), r_cq_ring := Some (int k), r_active := True\<rparr>"
  let ?ifc = "ifc\<lparr>if_tx_cpl_ring := (if_tx_cpl_ring ifc)(k \<mapsto> ?cq2), if_tx_ring := (if_tx_ring ifc)(k \<mapsto> ?r2)\<rparr>"
  have "start_tx_queue nd k (ifc, s) = Some (?ifc, s')"
    using x by (simp add: start_tx_queue_def q(1,2) assms(2) a Let_def)
  moreover have "txq_up (pv_index nd) k ?ifc"
    using c1 q(3,6) by (simp add: txq_up_def tx_ring_ok_def)
  moreover have "only_tx k ifc ?ifc" unfolding only_tx_def by blast
  ultimately show ?thesis by blast
qed

section \<open>Stopping one queue\<close>

definition rxq_idle :: "nat \<Rightarrow> mqnic_if \<Rightarrow> bool" where
  "rxq_idle k ifc \<longleftrightarrow> (\<exists>cq r. if_rx_cpl_ring ifc k = Some cq \<and> if_rx_ring ifc k = Some r \<and>
     cq_buf cq \<noteq> None \<and> \<not> cq_active cq \<and> cq_handler cq = None \<and> cq_src_ring cq = None \<and> \<not> r_active r \<and>
     r_cq_ring r = None \<and> rx_inv r \<and>
     (\<forall>j<rx_posted r. ri_page (rx_slot r (r_clean_tail_ptr r + of_nat j)) \<noteq> None))"

definition txq_idle :: "nat \<Rightarrow> mqnic_if \<Rightarrow> bool" where
  "txq_idle k ifc \<longleftrightarrow> (\<exists>cq r. if_tx_cpl_ring ifc k = Some cq \<and> if_tx_ring ifc k = Some r \<and>
     cq_buf cq \<noteq> None \<and> \<not> cq_active cq \<and> cq_handler cq = None \<and> cq_src_ring cq = None \<and> \<not> r_active r \<and>
     r_cq_ring r = None \<and> tx_ring_ok r)"

text \<open>A drained queue: idle, and its rings hold nothing.\<close>

definition rxq_drained :: "nat \<Rightarrow> mqnic_if \<Rightarrow> bool" where
  "rxq_drained k ifc \<longleftrightarrow> rxq_ready k ifc \<and> rxq_idle k ifc"

definition txq_drained :: "nat \<Rightarrow> mqnic_if \<Rightarrow> bool" where
  "txq_drained k ifc \<longleftrightarrow> txq_ready k ifc \<and> txq_idle k ifc \<and>
     (\<exists>r. if_tx_ring ifc k = Some r \<and> r_head_ptr r = r_clean_tail_ptr r)"

lemma only_rx_idle:
  "only_rx k i j \<Longrightarrow> l \<noteq> k \<Longrightarrow> rxq_idle l j = rxq_idle l i \<and> rxq_drained l j = rxq_drained l i"
  "only_rx k i j \<Longrightarrow> txq_idle l j = txq_idle l i \<and> txq_drained l j = txq_drained l i"
  by (auto simp: only_rx_def rxq_idle_def rxq_drained_def rxq_ready_def txq_idle_def txq_drained_def txq_ready_def)

lemma only_tx_idle:
  "only_tx k i j \<Longrightarrow> l \<noteq> k \<Longrightarrow> txq_idle l j = txq_idle l i \<and> txq_drained l j = txq_drained l i"
  "only_tx k i j \<Longrightarrow> rxq_idle l j = rxq_idle l i \<and> rxq_drained l j = rxq_drained l i"
  by (auto simp: only_tx_def rxq_idle_def rxq_drained_def rxq_ready_def txq_idle_def txq_drained_def txq_ready_def)

lemma deactivate_cq_fields:
  "mqnic_deactivate_cq_ring cq s = (cq', s') \<Longrightarrow> \<not> cq_active cq' \<and> cq_buf cq' = cq_buf cq \<and>
    cq_handler cq' = cq_handler cq \<and> cq_src_ring cq' = cq_src_ring cq"
  by (auto simp: mqnic_deactivate_cq_ring_def)

lemma stop_rx_queue_spec:
  assumes "rxq_up p k ifc"
  shows "\<exists>ifc' s'. stop_rx_queue k (ifc, s) = Some (ifc', s') \<and> rxq_idle k ifc' \<and> only_rx k ifc ifc'"
proof -
  from assms obtain cq r where q: "if_rx_cpl_ring ifc k = Some cq" "if_rx_ring ifc k = Some r" "cq_buf cq \<noteq> None"
     "r_cq_ring r = Some (int k)" "rx_inv r" "\<forall>j<rx_posted r. ri_page (rx_slot r (r_clean_tail_ptr r + of_nat j)) \<noteq> None"
    unfolding rxq_up_def by blast
  let ?r1 = "r\<lparr>r_priv := None, r_cq_ring := None, r_active := False\<rparr>"
  let ?cq1 = "cq\<lparr>cq_src_ring := None, cq_handler := None\<rparr>"
  obtain s1 where d: "mqnic_deactivate_rx_ring r (heap_of (if_rx_cpl_ring ifc)) s =
      (?r1, (heap_of (if_rx_cpl_ring ifc))(int k := ?cq1), s1)"
    using q(1,4) by (simp add: mqnic_deactivate_rx_ring_def Let_def)
  obtain cq2 s2 where c: "mqnic_deactivate_cq_ring ?cq1 s1 = (cq2, s2)" by force
  note c2 = deactivate_cq_fields [OF c]
  let ?ifc = "ifc\<lparr>if_rx_cpl_ring := (if_rx_cpl_ring ifc)(k \<mapsto> cq2), if_rx_ring := (if_rx_ring ifc)(k \<mapsto> ?r1)\<rparr>"
  have "of_heap (if_rx_cpl_ring ifc) ((heap_of (if_rx_cpl_ring ifc))(int k := ?cq1)) = (if_rx_cpl_ring ifc)(k \<mapsto> ?cq1)"
    using q(1) by simp
  then have "stop_rx_queue k (ifc, s) = Some (?ifc, kvoid ''netif_napi_del'' [cq_index cq2] (kvoid ''napi_disable'' [cq_index cq2] s2))"
    by (simp add: stop_rx_queue_def q(1,2) d c Let_def)
  moreover have "rx_inv ?r1" "rx_posted ?r1 = rx_posted r" "rx_slot ?r1 = rx_slot r"
    using q(5) by (simp_all add: rx_inv_def rx_posted_def rx_slot_def fun_eq_iff)
  then have "rxq_idle k ?ifc" using c2 q(3,6) by (simp add: rxq_idle_def)
  moreover have "only_rx k ifc ?ifc" unfolding only_rx_def by blast
  ultimately show ?thesis by blast
qed

lemma stop_tx_queue_spec:
  assumes "txq_up p k ifc"
  shows "\<exists>ifc' s'. stop_tx_queue k (ifc, s) = Some (ifc', s') \<and> txq_idle k ifc' \<and> only_tx k ifc ifc'"
proof -
  from assms obtain cq r where q: "if_tx_cpl_ring ifc k = Some cq" "if_tx_ring ifc k = Some r" "cq_buf cq \<noteq> None"
     "r_cq_ring r = Some (int k)" "tx_ring_ok r"
    unfolding txq_up_def by blast
  let ?r1 = "r\<lparr>r_priv := None, r_cq_ring := None, r_active := False\<rparr>"
  let ?cq1 = "cq\<lparr>cq_src_ring := None, cq_handler := None\<rparr>"
  obtain s1 where d: "mqnic_deactivate_tx_ring r (heap_of (if_tx_cpl_ring ifc)) s =
      (?r1, (heap_of (if_tx_cpl_ring ifc))(int k := ?cq1), s1)"
    using q(1,4) by (simp add: mqnic_deactivate_tx_ring_def Let_def)
  obtain cq2 s2 where c: "mqnic_deactivate_cq_ring ?cq1 s1 = (cq2, s2)" by force
  note c2 = deactivate_cq_fields [OF c]
  let ?ifc = "ifc\<lparr>if_tx_cpl_ring := (if_tx_cpl_ring ifc)(k \<mapsto> cq2), if_tx_ring := (if_tx_ring ifc)(k \<mapsto> ?r1)\<rparr>"
  have "of_heap (if_tx_cpl_ring ifc) ((heap_of (if_tx_cpl_ring ifc))(int k := ?cq1)) = (if_tx_cpl_ring ifc)(k \<mapsto> ?cq1)"
    using q(1) by simp
  then have "stop_tx_queue k (ifc, s) = Some (?ifc, kvoid ''netif_napi_del'' [cq_index cq2] (kvoid ''napi_disable'' [cq_index cq2] s2))"
    by (simp add: stop_tx_queue_def q(1,2) d c Let_def)
  moreover have "txq_idle k ?ifc" using c2 q(3,5) by (simp add: txq_idle_def tx_ring_ok_def)
  moreover have "only_tx k ifc ?ifc" unfolding only_tx_def by blast
  ultimately show ?thesis by blast
qed

lemma rx_inv_reset:
  assumes "rx_inv r" "rx_posted r = 0"
  shows "rx_inv (r\<lparr>r_head_ptr := 0, r_tail_ptr := 0, r_clean_tail_ptr := 0\<rparr>)"
    "rx_posted (r\<lparr>r_head_ptr := 0, r_tail_ptr := 0, r_clean_tail_ptr := 0\<rparr>) = 0"
proof -
  have "ri_page (rx_slot r p) = None" for p
    using rx_all_none [OF assms] rx_inv_index [OF assms(1), of p] by (simp add: rx_slot_def)
  then show "rx_inv (r\<lparr>r_head_ptr := 0, r_tail_ptr := 0, r_clean_tail_ptr := 0\<rparr>)"
    "rx_posted (r\<lparr>r_head_ptr := 0, r_tail_ptr := 0, r_clean_tail_ptr := 0\<rparr>) = 0"
    using assms by (simp_all add: rx_inv_def rx_posted_def rx_slot_def)
qed

lemma drain_rx_queue_spec:
  assumes "rxq_idle k ifc"
  shows "\<exists>ifc' s'. drain_rx_queue k (ifc, s) = Some (ifc', s') \<and> rxq_drained k ifc' \<and> only_rx k ifc ifc'"
proof -
  from assms obtain cq r where q: "if_rx_cpl_ring ifc k = Some cq" "if_rx_ring ifc k = Some r" "cq_buf cq \<noteq> None" "\<not> cq_active cq"
     "cq_handler cq = None" "cq_src_ring cq = None" "\<not> r_active r" "r_cq_ring r = None" "rx_inv r"
     "\<forall>j<rx_posted r. ri_page (rx_slot r (r_clean_tail_ptr r + of_nat j)) \<noteq> None"
    unfolding rxq_idle_def by blast
  obtain r1 c1 s1 where l: "rx_free_loop r 0 s = Some (r1, c1, s1)" "rx_inv r1" "rx_posted r1 = 0"
    using rx_free_loop_total [OF q(9,10), of 0 s] by blast
  let ?r2 = "r1\<lparr>r_head_ptr := 0, r_tail_ptr := 0, r_clean_tail_ptr := 0\<rparr>"
  have f: "r_cq_ring r1 = None" "\<not> r_active r1"
    using rx_free_loop_spec [OF l(1), of 0 "{#}" "{#}"] q(7,8) by auto
  let ?ifc = "ifc\<lparr>if_rx_ring := (if_rx_ring ifc)(k \<mapsto> ?r2)\<rparr>"
  have "drain_rx_queue k (ifc, s) = Some (?ifc, s1)"
    by (simp add: drain_rx_queue_def mqnic_free_rx_buf_def q(2) l(1))
  moreover have "rxq_drained k ?ifc"
    using q f rx_inv_reset [OF l(2,3)] by (simp add: rxq_drained_def rxq_ready_def rxq_idle_def)
  moreover have "?ifc = ifc\<lparr>if_rx_cpl_ring := (if_rx_cpl_ring ifc)(k \<mapsto> cq), if_rx_ring := (if_rx_ring ifc)(k \<mapsto> ?r2)\<rparr>"
    using q(1) by (simp add: fun_upd_idem)
  then have "only_rx k ifc ?ifc" unfolding only_rx_def by blast
  ultimately show ?thesis by blast
qed

lemma tx_free_loop_total:
  "tx_ring_ok r \<Longrightarrow> \<exists>r' c' s'. tx_free_loop r cnt s = Some (r', c', s')"
proof (induction r cnt s rule: tx_free_loop.induct)
  case (1 r cnt s)
  show ?case
  proof (cases "mqnic_is_tx_ring_empty r")
    case True
    then show ?thesis by (subst tx_free_loop.simps) simp
  next
    case False
    let ?i = "r_clean_tail_ptr r AND r_size_mask r"
    have "unat ?i < length (r_tx_info r)" using "1.prems" by (auto simp: tx_ring_ok_def ring_index_less)
    then obtain r1 s1 where f: "mqnic_free_tx_desc r ?i 0 s = Some (r1, s1)" "length (r_tx_info r1) = length (r_tx_info r)"
      by (auto simp: mqnic_free_tx_desc_def Let_def set_tx_info_def)
    have "tx_ring_ok (r\<lparr>r_tx_info := r_tx_info r1, r_clean_tail_ptr := r_clean_tail_ptr r + 1\<rparr>)"
      using "1.prems" f(2) by (simp add: tx_ring_ok_def)
    from "1.IH" [OF False f(1) refl this] False f(1) show ?thesis by (subst tx_free_loop.simps) simp
  qed
qed

lemma drain_tx_queue_spec:
  assumes "txq_idle k ifc"
  shows "\<exists>ifc' s'. drain_tx_queue k (ifc, s) = Some (ifc', s') \<and> txq_drained k ifc' \<and> only_tx k ifc ifc'"
proof -
  from assms obtain cq r where q: "if_tx_cpl_ring ifc k = Some cq" "if_tx_ring ifc k = Some r" "cq_buf cq \<noteq> None" "\<not> cq_active cq"
     "cq_handler cq = None" "cq_src_ring cq = None" "\<not> r_active r" "r_cq_ring r = None" "tx_ring_ok r"
    unfolding txq_idle_def by blast
  obtain r1 c1 s1 where l: "tx_free_loop r 0 s = Some (r1, c1, s1)" using tx_free_loop_total [OF q(9)] by blast
  let ?r2 = "r1\<lparr>r_head_ptr := 0, r_tail_ptr := 0, r_clean_tail_ptr := 0\<rparr>"
  have f: "r_cq_ring r1 = None" "\<not> r_active r1" "tx_ring_ok ?r2"
    using tx_free_loop_spec [OF l, of 0] q(7-9) by (auto simp: tx_ring_ok_def)
  let ?ifc = "ifc\<lparr>if_tx_ring := (if_tx_ring ifc)(k \<mapsto> ?r2)\<rparr>"
  have "drain_tx_queue k (ifc, s) = Some (?ifc, s1)"
    by (simp add: drain_tx_queue_def mqnic_free_tx_buf_def q(2) l)
  moreover have "txq_drained k ?ifc"
    using q f by (simp add: txq_drained_def txq_ready_def txq_idle_def)
  moreover have "?ifc = ifc\<lparr>if_tx_cpl_ring := (if_tx_cpl_ring ifc)(k \<mapsto> cq), if_tx_ring := (if_tx_ring ifc)(k \<mapsto> ?r2)\<rparr>"
    using q(1) by (simp add: fun_upd_idem)
  then have "only_tx k ifc ?ifc" unfolding only_tx_def by blast
  ultimately show ?thesis by blast
qed

section \<open>The whole port\<close>

definition rxn :: "net_device \<Rightarrow> nat" where "rxn nd = unat (min (pv_rx_queue_count nd) (pv_rx_cpl_queue_count nd))"
definition txn :: "net_device \<Rightarrow> nat" where "txn nd = unat (min (pv_tx_queue_count nd) (pv_tx_cpl_queue_count nd))"

text \<open>The parts of an interface a port needs beside its queues: an event ring for each queue and its ports.\<close>

definition nic_frame :: "net_device \<Rightarrow> mqnic_if \<Rightarrow> bool" where
  "nic_frame nd ifc \<longleftrightarrow> pv_event_queue_count nd \<noteq> 0 \<and>
     (\<forall>k < unat (pv_event_queue_count nd). if_event_ring ifc k \<noteq> None) \<and>
     if_port ifc 0 \<noteq> None \<and> (\<forall>k < unat (pv_port_count nd). if_port ifc k \<noteq> None) \<and>
     pv_tx_queue_count nd \<le> pv_tx_cpl_queue_count nd \<and> pv_rx_queue_count nd \<le> pv_rx_cpl_queue_count nd"

definition nic_ready :: "net_device \<Rightarrow> mqnic_if \<Rightarrow> bool" where
  "nic_ready nd ifc \<longleftrightarrow> nic_frame nd ifc \<and> \<not> pv_port_up nd \<and>
     (\<forall>k < rxn nd. rxq_ready k ifc) \<and> (\<forall>k < txn nd. txq_ready k ifc)"

definition nic_running :: "u32 \<Rightarrow> net_device \<Rightarrow> mqnic_if \<Rightarrow> bool" where
  "nic_running mtu nd ifc \<longleftrightarrow> nic_frame nd ifc \<and> pv_port_up nd \<and>
     (\<forall>k < rxn nd. rxq_up (pv_index nd, mtu) k ifc) \<and> (\<forall>k < txn nd. txq_up (pv_index nd) k ifc)"

definition nic_stopped :: "net_device \<Rightarrow> mqnic_if \<Rightarrow> bool" where
  "nic_stopped nd ifc \<longleftrightarrow> nic_frame nd ifc \<and> \<not> pv_port_up nd \<and>
     (\<forall>k < rxn nd. rxq_drained k ifc) \<and> (\<forall>k < txn nd. txq_drained k ifc)"

lemma nic_stopped_ready: "nic_stopped nd ifc \<Longrightarrow> nic_ready nd ifc"
  by (simp add: nic_stopped_def nic_ready_def rxq_drained_def txq_drained_def)

lemma frame_cong: "same_frame i j \<Longrightarrow> nic_frame nd j = nic_frame nd i"
  by (simp add: same_frame_def nic_frame_def)

lemma event_ring_for_frame: "nic_frame nd ifc \<Longrightarrow> \<exists>e. event_ring_for ifc nd k = Some (Some e)"
proof -
  assume f: "nic_frame nd ifc"
  then have "0 < unat (pv_event_queue_count nd)" by (simp add: nic_frame_def unat_gt_0)
  then have "k mod unat (pv_event_queue_count nd) < unat (pv_event_queue_count nd)" by simp
  with f show ?thesis by (auto simp: nic_frame_def event_ring_for_def)
qed

section \<open>Stages over all queues\<close>

text \<open>One loop over the queues of a direction: a step succeeds on a queue in the state \<open>pre\<close>, leaves it
  in \<open>post\<close>, touches no other queue and stays within \<open>rest\<close>.\<close>

locale queue_stage =
  fixes step :: "nat \<Rightarrow> 'w \<Rightarrow> 'w option" and ok :: "'w \<Rightarrow> bool"
    and pre post :: "nat \<Rightarrow> 'w \<Rightarrow> bool" and rest :: "'w \<Rightarrow> 'w \<Rightarrow> bool"
  assumes rest_refl: "rest w w"
    and rest_trans: "rest u v \<Longrightarrow> rest v w \<Longrightarrow> rest u w"
    and ok_rest: "ok v \<Longrightarrow> rest v w \<Longrightarrow> ok w"
    and step_ok: "ok w \<Longrightarrow> pre k w \<Longrightarrow> \<exists>t. step k w = Some t \<and> post k t \<and> rest w t \<and>
        (\<forall>j. j \<noteq> k \<longrightarrow> (pre j w \<longrightarrow> pre j t) \<and> (post j w \<longrightarrow> post j t))"
begin

lemma run:
  assumes "ok w" "\<forall>k<n. pre k w"
  shows "\<exists>t. ofold step [0..<n] w = Some t \<and> rest w t \<and> (\<forall>k<n. post k t)"
proof (rule ofold_upt_total [where R = pre])
  fix k v assume "k < n" "rest w v" "pre k v"
  then show "\<exists>t. step k v = Some t \<and> rest w t \<and> post k t \<and>
      (\<forall>j. j \<noteq> k \<longrightarrow> (pre j v \<longrightarrow> pre j t) \<and> (post j v \<longrightarrow> post j t))"
    using step_ok [of v k] ok_rest [OF assms(1)] rest_trans by blast
qed (use assms rest_refl in blast)+

end

definition keeps_tx :: "mqnic_if \<times> sys \<Rightarrow> mqnic_if \<times> sys \<Rightarrow> bool" where
  "keeps_tx v w \<longleftrightarrow> same_frame (fst v) (fst w) \<and> if_tx_ring (fst w) = if_tx_ring (fst v) \<and>
     if_tx_cpl_ring (fst w) = if_tx_cpl_ring (fst v)"

definition keeps_rx :: "mqnic_if \<times> sys \<Rightarrow> mqnic_if \<times> sys \<Rightarrow> bool" where
  "keeps_rx v w \<longleftrightarrow> same_frame (fst v) (fst w) \<and> if_rx_ring (fst w) = if_rx_ring (fst v) \<and>
     if_rx_cpl_ring (fst w) = if_rx_cpl_ring (fst v)"

lemma keeps_laws:
  "keeps_tx w w" "keeps_tx u v \<Longrightarrow> keeps_tx v w \<Longrightarrow> keeps_tx u w"
  "keeps_rx w w" "keeps_rx u v \<Longrightarrow> keeps_rx v w \<Longrightarrow> keeps_rx u w"
  "nic_frame nd (fst v) \<Longrightarrow> keeps_tx v w \<Longrightarrow> nic_frame nd (fst w)"
  "nic_frame nd (fst v) \<Longrightarrow> keeps_rx v w \<Longrightarrow> nic_frame nd (fst w)"
  by (simp_all add: keeps_tx_def keeps_rx_def same_frame_def nic_frame_def)

lemma only_keeps: "only_rx k i j \<Longrightarrow> keeps_tx (i, s) (j, t)" "only_tx k i j \<Longrightarrow> keeps_rx (i, s) (j, t)"
  by (auto simp: only_rx_def only_tx_def keeps_tx_def keeps_rx_def same_frame_def)

lemma keeps_tx_queues:
  "keeps_tx v w \<Longrightarrow> txq_ready k (fst w) = txq_ready k (fst v) \<and> txq_up p k (fst w) = txq_up p k (fst v) \<and>
     txq_idle k (fst w) = txq_idle k (fst v) \<and> txq_drained k (fst w) = txq_drained k (fst v)"
  by (simp add: keeps_tx_def txq_ready_def txq_up_def txq_idle_def txq_drained_def)

lemma keeps_rx_queues:
  "keeps_rx v w \<Longrightarrow> rxq_ready k (fst w) = rxq_ready k (fst v) \<and> rxq_up p k (fst w) = rxq_up p k (fst v) \<and>
     rxq_idle k (fst w) = rxq_idle k (fst v) \<and> rxq_drained k (fst w) = rxq_drained k (fst v)"
  by (simp add: keeps_rx_def rxq_ready_def rxq_up_def rxq_idle_def rxq_drained_def)

interpretation start_rx: queue_stage "start_rx_queue nd" "\<lambda>w. nic_frame nd (fst w)"
    "\<lambda>k w. rxq_ready k (fst w)" "\<lambda>k w. rxq_up (pv_index nd, nd_mtu nd) k (fst w)" keeps_tx for nd
proof unfold_locales
  fix w :: "mqnic_if \<times> sys" and k assume "nic_frame nd (fst w)" and r: "rxq_ready k (fst w)"
  then obtain e where e: "event_ring_for (fst w) nd k = Some (Some e)" using event_ring_for_frame by blast
  obtain i s where "start_rx_queue nd k w = Some (i, s)" "rxq_up (pv_index nd, nd_mtu nd) k i" "only_rx k (fst w) i"
    using start_rx_queue_spec [OF r e, of "snd w"] by auto
  then show "\<exists>t. start_rx_queue nd k w = Some t \<and> rxq_up (pv_index nd, nd_mtu nd) k (fst t) \<and> keeps_tx w t \<and>
      (\<forall>j. j \<noteq> k \<longrightarrow> (rxq_ready j (fst w) \<longrightarrow> rxq_ready j (fst t)) \<and>
        (rxq_up (pv_index nd, nd_mtu nd) j (fst w) \<longrightarrow> rxq_up (pv_index nd, nd_mtu nd) j (fst t)))"
    using only_rx_other only_keeps(1) [of k "fst w" i "snd w" s] by simp
qed (blast intro: keeps_laws)+

interpretation start_tx: queue_stage "start_tx_queue nd" "\<lambda>w. nic_frame nd (fst w)"
    "\<lambda>k w. txq_ready k (fst w)" "\<lambda>k w. txq_up (pv_index nd) k (fst w)" keeps_rx for nd
proof unfold_locales
  fix w :: "mqnic_if \<times> sys" and k assume "nic_frame nd (fst w)" and r: "txq_ready k (fst w)"
  then obtain e where e: "event_ring_for (fst w) nd k = Some (Some e)" using event_ring_for_frame by blast
  obtain i s where "start_tx_queue nd k w = Some (i, s)" "txq_up (pv_index nd) k i" "only_tx k (fst w) i"
    using start_tx_queue_spec [OF r e, of "snd w"] by auto
  then show "\<exists>t. start_tx_queue nd k w = Some t \<and> txq_up (pv_index nd) k (fst t) \<and> keeps_rx w t \<and>
      (\<forall>j. j \<noteq> k \<longrightarrow> (txq_ready j (fst w) \<longrightarrow> txq_ready j (fst t)) \<and>
        (txq_up (pv_index nd) j (fst w) \<longrightarrow> txq_up (pv_index nd) j (fst t)))"
    using only_tx_other only_keeps(2) [of k "fst w" i "snd w" s] by simp
qed (blast intro: keeps_laws)+

interpretation stop_tx: queue_stage stop_tx_queue "\<lambda>_. True" "\<lambda>k w. txq_up p k (fst w)" "\<lambda>k w. txq_idle k (fst w)" keeps_rx for p
proof unfold_locales
  fix w :: "mqnic_if \<times> sys" and k assume r: "txq_up p k (fst w)"
  obtain i s where "stop_tx_queue k w = Some (i, s)" "txq_idle k i" "only_tx k (fst w) i"
    using stop_tx_queue_spec [OF r, of "snd w"] by auto
  then show "\<exists>t. stop_tx_queue k w = Some t \<and> txq_idle k (fst t) \<and> keeps_rx w t \<and>
      (\<forall>j. j \<noteq> k \<longrightarrow> (txq_up p j (fst w) \<longrightarrow> txq_up p j (fst t)) \<and> (txq_idle j (fst w) \<longrightarrow> txq_idle j (fst t)))"
    using only_tx_other only_tx_idle only_keeps(2) [of k "fst w" i "snd w" s] by simp
qed (blast intro: keeps_laws)+

interpretation stop_rx: queue_stage stop_rx_queue "\<lambda>_. True" "\<lambda>k w. rxq_up p k (fst w)" "\<lambda>k w. rxq_idle k (fst w)" keeps_tx for p
proof unfold_locales
  fix w :: "mqnic_if \<times> sys" and k assume r: "rxq_up p k (fst w)"
  obtain i s where "stop_rx_queue k w = Some (i, s)" "rxq_idle k i" "only_rx k (fst w) i"
    using stop_rx_queue_spec [OF r, of "snd w"] by auto
  then show "\<exists>t. stop_rx_queue k w = Some t \<and> rxq_idle k (fst t) \<and> keeps_tx w t \<and>
      (\<forall>j. j \<noteq> k \<longrightarrow> (rxq_up p j (fst w) \<longrightarrow> rxq_up p j (fst t)) \<and> (rxq_idle j (fst w) \<longrightarrow> rxq_idle j (fst t)))"
    using only_rx_other only_rx_idle only_keeps(1) [of k "fst w" i "snd w" s] by simp
qed (blast intro: keeps_laws)+

interpretation drain_tx: queue_stage drain_tx_queue "\<lambda>_. True" "\<lambda>k w. txq_idle k (fst w)" "\<lambda>k w. txq_drained k (fst w)" keeps_rx
proof unfold_locales
  fix w :: "mqnic_if \<times> sys" and k assume r: "txq_idle k (fst w)"
  obtain i s where "drain_tx_queue k w = Some (i, s)" "txq_drained k i" "only_tx k (fst w) i"
    using drain_tx_queue_spec [OF r, of "snd w"] by auto
  then show "\<exists>t. drain_tx_queue k w = Some t \<and> txq_drained k (fst t) \<and> keeps_rx w t \<and>
      (\<forall>j. j \<noteq> k \<longrightarrow> (txq_idle j (fst w) \<longrightarrow> txq_idle j (fst t)) \<and> (txq_drained j (fst w) \<longrightarrow> txq_drained j (fst t)))"
    using only_tx_idle only_keeps(2) [of k "fst w" i "snd w" s] by simp
qed (blast intro: keeps_laws)+

interpretation drain_rx: queue_stage drain_rx_queue "\<lambda>_. True" "\<lambda>k w. rxq_idle k (fst w)" "\<lambda>k w. rxq_drained k (fst w)" keeps_tx
proof unfold_locales
  fix w :: "mqnic_if \<times> sys" and k assume r: "rxq_idle k (fst w)"
  obtain i s where "drain_rx_queue k w = Some (i, s)" "rxq_drained k i" "only_rx k (fst w) i"
    using drain_rx_queue_spec [OF r, of "snd w"] by auto
  then show "\<exists>t. drain_rx_queue k w = Some t \<and> rxq_drained k (fst t) \<and> keeps_tx w t \<and>
      (\<forall>j. j \<noteq> k \<longrightarrow> (rxq_idle j (fst w) \<longrightarrow> rxq_idle j (fst t)) \<and> (rxq_drained j (fst w) \<longrightarrow> rxq_drained j (fst t)))"
    using only_rx_idle only_keeps(1) [of k "fst w" i "snd w" s] by simp
qed (blast intro: keeps_laws)+

lemma ofold_all_some:
  assumes "\<And>k s. k \<in> set ks \<Longrightarrow> \<exists>t. f k s = Some t"
  shows "\<exists>t. ofold f ks s = Some t"
  using assms
proof (induction ks arbitrary: s)
  case (Cons k ks)
  from Cons.prems [of k s] obtain t where "f k s = Some t" by auto
  with Cons show ?case by simp
qed simp

lemma start_conf_total:
  "(\<forall>k < n. if_port ifc k \<noteq> None) \<Longrightarrow> \<exists>t. ofold (start_conf_port nd ifc) [0..<n] s = Some t"
  by (rule ofold_all_some) (auto simp: start_conf_port_def Let_def)

lemma stop_port_off_total:
  "(\<forall>k < n. if_port ifc k \<noteq> None) \<Longrightarrow> \<exists>t. ofold (stop_port_off ifc) [0..<n] s = Some t"
  by (rule ofold_all_some) (auto simp: stop_port_off_def Let_def)

lemma nd_port_up_irrelevant:
  "nic_frame (nd\<lparr>pv_port_up := b\<rparr>) ifc = nic_frame nd ifc" "rxn (nd\<lparr>pv_port_up := b\<rparr>) = rxn nd" "txn (nd\<lparr>pv_port_up := b\<rparr>) = txn nd"
  by (simp_all add: nic_frame_def rxn_def txn_def)

lemma start_port_running:
  assumes "nic_ready nd ifc"
  shows "\<exists>ifc' s'. mqnic_start_port nd ifc s = Some (0, nd\<lparr>pv_port_up := True\<rparr>, ifc', s') \<and>
     nic_running (nd_mtu nd) (nd\<lparr>pv_port_up := True\<rparr>) ifc' \<and> same_frame ifc ifc'"
proof -
  have f: "nic_frame nd ifc" "\<forall>k<rxn nd. rxq_ready k ifc" "\<forall>k<txn nd. txq_ready k ifc"
    using assms by (simp_all add: nic_ready_def)
  obtain w1 where a: "ofold (start_rx_queue nd) [0..<rxn nd] (ifc, s) = Some w1" "keeps_tx (ifc, s) w1"
     "\<forall>k<rxn nd. rxq_up (pv_index nd, nd_mtu nd) k (fst w1)"
    using start_rx.run [of nd "(ifc, s)" "rxn nd"] f by auto
  have f1: "nic_frame nd (fst w1)" "\<forall>k<txn nd. txq_ready k (fst w1)"
    using keeps_laws(5) [OF _ a(2)] keeps_tx_queues [OF a(2)] f by auto
  obtain w2 where b: "ofold (start_tx_queue nd) [0..<txn nd] w1 = Some w2" "keeps_rx w1 w2"
     "\<forall>k<txn nd. txq_up (pv_index nd) k (fst w2)"
    using start_tx.run [of nd w1 "txn nd"] f1 by auto
  have f2: "nic_frame nd (fst w2)" "\<forall>k<rxn nd. rxq_up (pv_index nd, nd_mtu nd) k (fst w2)"
    using keeps_laws(6) [OF f1(1) b(2)] keeps_rx_queues [OF b(2)] a(3) by auto
  obtain s3 where c: "ofold (start_conf_port nd (fst w2)) [0..<unat (pv_port_count nd)] (snd w2) = Some s3"
    using start_conf_total f2(1) unfolding nic_frame_def by blast
  obtain port where p: "if_port (fst w2) 0 = Some port" using f2(1) unfolding nic_frame_def by blast
  have "same_frame ifc (fst w2)" using a(2) b(2) by (simp add: same_frame_def keeps_tx_def keeps_rx_def)
  moreover have "nic_running (nd_mtu nd) (nd\<lparr>pv_port_up := True\<rparr>) (fst w2)"
    using f2 b(3) by (simp add: nic_running_def nd_port_up_irrelevant)
  moreover have "\<exists>s'. mqnic_start_port nd ifc s = Some (0, nd\<lparr>pv_port_up := True\<rparr>, fst w2, s')"
    using a(1) b(1) c p by (cases w1; cases w2) (simp add: mqnic_start_port_def rxn_def txn_def Let_def)
  ultimately show ?thesis by blast
qed

lemma sum_rings_total: "\<forall>k<n. m k \<noteq> None \<Longrightarrow> sum_rings f m n = Some (\<Sum>k<n. f (the (m k)))"
  by (induction n) (auto simp: add.commute)

text \<open>The statistics of a device are the sums of the counters of its rings.\<close>

definition stats_of :: "mqnic_if \<Rightarrow> net_device \<Rightarrow> net_device" where
  "stats_of ifc nd = nd\<lparr>
     nd_rx_packets := \<Sum>k<unat (pv_rx_queue_count nd). r_packets (the (if_rx_ring ifc k)),
     nd_rx_bytes := \<Sum>k<unat (pv_rx_queue_count nd). r_bytes (the (if_rx_ring ifc k)),
     nd_tx_packets := \<Sum>k<unat (pv_tx_queue_count nd). r_packets (the (if_tx_ring ifc k)),
     nd_tx_bytes := \<Sum>k<unat (pv_tx_queue_count nd). r_bytes (the (if_tx_ring ifc k))\<rparr>"

lemma update_stats_up:
  assumes "pv_port_up nd" "\<forall>k<unat (pv_rx_queue_count nd). if_rx_ring ifc k \<noteq> None"
    "\<forall>k<unat (pv_tx_queue_count nd). if_tx_ring ifc k \<noteq> None"
  shows "mqnic_update_stats ifc nd = Some (stats_of ifc nd)"
  using assms(1) by (simp add: mqnic_update_stats_def sum_rings_total [OF assms(2)] sum_rings_total [OF assms(3)] stats_of_def)

lemma queue_counts:
  "nic_frame nd ifc \<Longrightarrow> rxn nd = unat (pv_rx_queue_count nd) \<and> txn nd = unat (pv_tx_queue_count nd)"
  by (simp add: nic_frame_def rxn_def txn_def min_def)

lemma running_rings:
  assumes "nic_running mtu nd ifc"
  shows "\<forall>k<unat (pv_rx_queue_count nd). if_rx_ring ifc k \<noteq> None" "\<forall>k<unat (pv_tx_queue_count nd). if_tx_ring ifc k \<noteq> None"
  using assms queue_counts [of nd ifc] by (auto simp: nic_running_def rxq_up_def txq_up_def)

lemma stats_irrelevant:
  "nic_frame (stats_of i nd) ifc = nic_frame nd ifc" "rxn (stats_of i nd) = rxn nd" "txn (stats_of i nd) = txn nd"
  "pv_port_count (stats_of i nd) = pv_port_count nd" "pv_tx_queue_count (stats_of i nd) = pv_tx_queue_count nd"
  "pv_rx_queue_count (stats_of i nd) = pv_rx_queue_count nd" "pv_rx_cpl_queue_count (stats_of i nd) = pv_rx_cpl_queue_count nd"
  "pv_tx_cpl_queue_count (stats_of i nd) = pv_tx_cpl_queue_count nd"
  by (simp_all add: nic_frame_def rxn_def txn_def stats_of_def)

lemma stop_port_drained:
  assumes "nic_running mtu nd ifc"
  shows "\<exists>ifc' s'. mqnic_stop_port nd ifc s = Some (0, (stats_of ifc nd)\<lparr>pv_port_up := False\<rparr>, ifc', s') \<and>
     nic_stopped ((stats_of ifc nd)\<lparr>pv_port_up := False\<rparr>) ifc' \<and> same_frame ifc ifc'"
proof -
  have f: "nic_frame nd ifc" "pv_port_up nd" "\<forall>k<rxn nd. rxq_up (pv_index nd, mtu) k ifc" "\<forall>k<txn nd. txq_up (pv_index nd) k ifc"
    using assms by (simp_all add: nic_running_def)
  note n = queue_counts [OF f(1)]
  let ?s0 = "kvoid ''netif_tx_disable'' [] (kvoid ''netif_tx_stop_all_queues'' [] s)"
  obtain s1 where o: "ofold (stop_port_off ifc) [0..<unat (pv_port_count nd)] ?s0 = Some s1"
    using stop_port_off_total f(1) unfolding nic_frame_def by blast
  obtain w1 where a: "ofold stop_tx_queue [0..<txn nd] (ifc, s1) = Some w1" "keeps_rx (ifc, s1) w1" "\<forall>k<txn nd. txq_idle k (fst w1)"
    using stop_tx.run [where w = "(ifc, s1)" and n = "txn nd" and p = "pv_index nd"] f(4) by auto
  obtain w2 where b: "ofold stop_rx_queue [0..<rxn nd] w1 = Some w2" "keeps_tx w1 w2" "\<forall>k<rxn nd. rxq_idle k (fst w2)"
    using stop_rx.run [where w = w1 and n = "rxn nd" and p = "(pv_index nd, mtu)"] f(3) keeps_rx_queues [OF a(2)] by auto
  let ?w2 = "(fst w2, kvoid ''msleep'' [20] (snd w2))"
  obtain w3 where c: "ofold drain_tx_queue [0..<txn nd] ?w2 = Some w3" "keeps_rx ?w2 w3" "\<forall>k<txn nd. txq_drained k (fst w3)"
    using drain_tx.run [where w = ?w2 and n = "txn nd"] a(3) keeps_tx_queues [OF b(2)] by auto
  obtain w4 where d: "ofold drain_rx_queue [0..<rxn nd] w3 = Some w4" "keeps_tx w3 w4" "\<forall>k<rxn nd. rxq_drained k (fst w4)"
    using drain_rx.run [where w = w3 and n = "rxn nd"] b(3) keeps_rx_queues [OF c(2)] by auto
  have e: "\<forall>k<txn nd. txq_drained k (fst w4)" using c(3) keeps_tx_queues [OF d(2)] by simp
  have sf: "same_frame ifc (fst w4)" using a(2) b(2) c(2) d(2) by (simp add: same_frame_def keeps_tx_def keeps_rx_def)
  have "nic_stopped ((stats_of ifc nd)\<lparr>pv_port_up := False\<rparr>) (fst w4)"
    using f(1) frame_cong [OF sf] d(3) e by (simp add: nic_stopped_def nd_port_up_irrelevant stats_irrelevant)
  moreover have "\<exists>s'. mqnic_stop_port nd ifc s = Some (0, (stats_of ifc nd)\<lparr>pv_port_up := False\<rparr>, fst w4, s')"
    using update_stats_up [OF f(2) running_rings [OF assms]] o a(1) b(1) c(1) d(1)
      n [unfolded rxn_def txn_def]
    by (cases w1; cases w2; cases w3; cases w4) (simp add: mqnic_stop_port_def Let_def stats_irrelevant rxn_def txn_def)
  ultimately show ?thesis using sf by blast
qed

end
