(* ===== verification/NetdevLife.thy ===== *)
theory NetdevLife
  imports Netdev
begin

text \<open>
  The life of a network device: the loops over the queues as stages with a common contract, the state
  machine of opening, closing and changing the MTU, timestamping requests, statistics, and creating a
  device that can be opened.
\<close>

section \<open>The state machine of a network device\<close>

text \<open>
  A device that is not running is ready to be opened; a running one has every queue active and refers
  its rings to itself. Opening, closing and changing the MTU are the transitions.
\<close>

type_synonym nd_state = "bool \<times> net_device \<times> mqnic_if \<times> sys"

fun nd_ok :: "nd_state \<Rightarrow> bool" where
  "nd_ok (run, nd, ifc, s) = (if run then nic_running (nd_mtu nd) nd ifc else nic_ready nd ifc)"

inductive nd_step :: "nd_state \<Rightarrow> nd_state \<Rightarrow> bool" where
  Open: "mqnic_open nd ifc s = Some (0, nd', ifc', s') \<Longrightarrow> nd_step (False, nd, ifc, s) (True, nd', ifc', s')"
| Close: "mqnic_close nd ifc s = Some (0, nd', ifc', s') \<Longrightarrow> nd_step (True, nd, ifc, s) (False, nd', ifc', s')"
| Mtu: "mqnic_change_mtu run m nd ifc s = Some (r, nd', ifc', s') \<Longrightarrow> nd_step (run, nd, ifc, s) (run, nd', ifc', s')"

inductive_cases nd_stepE: "nd_step (run, nd, ifc, s) t"

lemma nic_mtu_irrelevant:
  "nic_running mtu (nd\<lparr>nd_mtu := m\<rparr>) ifc = nic_running mtu nd ifc" "nic_ready (nd\<lparr>nd_mtu := m\<rparr>) ifc = nic_ready nd ifc"
  by (simp_all add: nic_running_def nic_ready_def nic_frame_def rxn_def txn_def)

lemma stats_keep: "nd_mtu (stats_of ifc nd) = nd_mtu nd" "pv_index (stats_of ifc nd) = pv_index nd"
  by (simp_all add: stats_of_def)

definition mtu_ok :: "net_device \<Rightarrow> int \<Rightarrow> bool" where
  "mtu_ok nd m \<longleftrightarrow> nd_min_mtu nd \<le> word_of_int m \<and> word_of_int m \<le> nd_max_mtu nd"

lemma change_mtu_running:
  assumes "nic_running mtu nd ifc" "mtu_ok nd m"
  shows "\<exists>nd' ifc' s'. mqnic_change_mtu True m nd ifc s = Some (0, nd', ifc', s') \<and>
     nd_mtu nd' = word_of_int m \<and> nic_running (word_of_int m) nd' ifc'"
proof -
  let ?nd = "nd\<lparr>nd_mtu := word_of_int m\<rparr>"
  have "nic_running mtu ?nd ifc" using assms(1) by (simp add: nic_mtu_irrelevant)
  then obtain i1 s1 where a: "mqnic_stop_port ?nd ifc s = Some (0, (stats_of ifc ?nd)\<lparr>pv_port_up := False\<rparr>, i1, s1)"
     "nic_stopped ((stats_of ifc ?nd)\<lparr>pv_port_up := False\<rparr>) i1" using stop_port_drained by blast
  obtain i2 s2 where b: "mqnic_start_port ((stats_of ifc ?nd)\<lparr>pv_port_up := False\<rparr>) i1 s1 =
      Some (0, (stats_of ifc ?nd)\<lparr>pv_port_up := False\<rparr>\<lparr>pv_port_up := True\<rparr>, i2, s2)"
     "nic_running (nd_mtu ((stats_of ifc ?nd)\<lparr>pv_port_up := False\<rparr>)) ((stats_of ifc ?nd)\<lparr>pv_port_up := False\<rparr>\<lparr>pv_port_up := True\<rparr>) i2"
    using start_port_running [OF nic_stopped_ready [OF a(2)]] by blast
  have "mqnic_change_mtu True m nd ifc s = Some (0, (stats_of ifc ?nd)\<lparr>pv_port_up := False\<rparr>\<lparr>pv_port_up := True\<rparr>, i2, s2)"
    using assms(2) by (simp add: mqnic_change_mtu_def mtu_ok_def a(1) b(1) linorder_not_less [symmetric] Let_def)
  with b(2) show ?thesis by (simp add: stats_keep)
qed

lemma nd_step_ok:
  assumes "nd_step v w" "nd_ok v"
  shows "nd_ok w"
  using assms
proof (induction rule: nd_step.induct)
  case (Open nd ifc s nd' ifc' s')
  then show ?case using start_port_running [of nd ifc s] by (auto simp: mqnic_open_def)
next
  case (Close nd ifc s nd' ifc' s')
  then show ?case using stop_port_drained [of "nd_mtu nd" nd ifc s] by (auto simp: mqnic_close_def nic_stopped_ready)
next
  case (Mtu run m nd ifc s r nd' ifc' s')
  show ?case
  proof (cases "mtu_ok nd m")
    case False
    then have "mqnic_change_mtu run m nd ifc s = Some (- EPERM, nd, ifc, s)"
      by (auto simp: mqnic_change_mtu_def mtu_ok_def)
    with Mtu show ?thesis by simp
  next
    case True
    show ?thesis
    proof (cases run)
      case True
      with Mtu \<open>mtu_ok nd m\<close> show ?thesis using change_mtu_running [of "nd_mtu nd" nd ifc m s] by auto
    next
      case False
      with Mtu \<open>mtu_ok nd m\<close> show ?thesis
        by (auto simp: mqnic_change_mtu_def mtu_ok_def linorder_not_less [symmetric] Let_def nic_mtu_irrelevant)
    qed
  qed
qed

lemma nd_reach_ok: "nd_step\<^sup>*\<^sup>* v w \<Longrightarrow> nd_ok v \<Longrightarrow> nd_ok w"
  by (induction rule: rtranclp_induct) (auto intro: nd_step_ok)

text \<open>C5: from a device ready to be opened, any sequence of opening, closing and MTU changes leads to
  a state in which the next operation cannot fault: a closed device can be opened, bringing up every
  queue; a running one can be closed, leaving every queue idle and its rings empty; an MTU
  change is accepted exactly in range.\<close>

theorem netdev_never_faults:
  assumes "nic_ready nd0 ifc0" "nd_step\<^sup>*\<^sup>* (False, nd0, ifc0, s0) (run, nd, ifc, s)"
  shows "(if run
    then \<exists>nd' ifc' s'. mqnic_close nd ifc s = Some (0, nd', ifc', s') \<and> nic_stopped nd' ifc'
    else \<exists>nd' ifc' s'. mqnic_open nd ifc s = Some (0, nd', ifc', s') \<and> nic_running (nd_mtu nd) nd' ifc') \<and>
    (\<exists>r nd' ifc' s'. mqnic_change_mtu run m nd ifc s = Some (r, nd', ifc', s') \<and>
      (if nd_min_mtu nd \<le> word_of_int m \<and> word_of_int m \<le> nd_max_mtu nd then r = 0 \<and> nd_mtu nd' = word_of_int m
       else (r, nd', ifc', s') = (- EPERM, nd, ifc, s)))" (is "?A \<and> ?B")
proof -
  have ok: "nd_ok (run, nd, ifc, s)" using nd_reach_ok [OF assms(2)] assms(1) by simp
  then have ?A
    using stop_port_drained [of "nd_mtu nd" nd ifc s] start_port_running [of nd ifc s]
    by (auto simp: mqnic_close_def mqnic_open_def)
  moreover have ?B
  proof (cases "mtu_ok nd m \<and> run")
    case True
    with ok have "nic_running (nd_mtu nd) nd ifc" by simp
    from change_mtu_running [OF this, of m s] True show ?thesis by (auto simp: mtu_ok_def)
  next
    case False
    then show ?thesis by (auto simp: mqnic_change_mtu_def mtu_ok_def linorder_not_less [symmetric] Let_def)
  qed
  ultimately show ?thesis ..
qed

section \<open>Buffers for an MTU\<close>

lemma ceil_div_nat: "0 < p \<Longrightarrow> (m + p - 1) div p = (if m = 0 then 0 else Suc ((m - 1) div p))" for m p :: nat
  by (cases m) (simp_all add: div_add_self2)

lemma pages_for:
  fixes m p :: u32
  assumes "p < m" "p \<noteq> 0"
  defines "n \<equiv> ((ucast m :: u64) + ucast p - 1) div ucast p - 1"
  shows "unat n = (unat m - 1) div unat p" "unat (ucast n :: u32) = (unat m - 1) div unat p"
proof -
  have p: "0 < unat p" "unat p < unat m" using assms by (simp_all add: unat_gt_0 word_less_nat_alt)
  have b: "unat m < 2 ^ 32" "unat p < 2 ^ 32" using unsigned_less [of m] unsigned_less [of p] by simp_all
  have "unat ((ucast m :: u64) + ucast p) = unat m + unat p"
    using b by (simp add: unat_word_ariths unat_ucast_up)
  moreover have "(1::u64) \<le> ucast m + ucast p" using calculation p by (simp add: word_le_nat_alt)
  ultimately have "unat ((ucast m :: u64) + ucast p - 1) = unat m + unat p - 1" by (simp add: unat_sub)
  then have d: "unat (((ucast m :: u64) + ucast p - 1) div ucast p) = Suc ((unat m - 1) div unat p)"
    using ceil_div_nat [OF p(1), of "unat m"] p by (simp add: unat_div unat_ucast_up)
  then have "(1::u64) \<le> ((ucast m :: u64) + ucast p - 1) div ucast p" by (simp add: word_le_nat_alt)
  with d show n: "unat n = (unat m - 1) div unat p" by (simp add: n_def unat_sub)
  have "(unat m - 1) div unat p < 2 ^ 32" using b(1) by (meson div_le_dividend le_less_trans diff_le_self)
  with n show "unat (ucast n :: u32) = (unat m - 1) div unat p"
    by (simp add: unsigned_ucast_eq take_bit_nat_eq_self)
qed

text \<open>The buffers of a receive ring hold a packet of the MTU with its header, and no smaller
  power of two of pages would.\<close>

theorem rx_page_order_least:
  assumes "pow2_lib s" "w_page_size s \<noteq> 0" "unat mtu + 14 < 2 ^ 32"
  shows "unat mtu + 14 \<le> unat (w_page_size s) * 2 ^ unat (rx_page_order s mtu) \<and>
    (rx_page_order s mtu = 0 \<or> unat (w_page_size s) * 2 ^ (unat (rx_page_order s mtu) - 1) < unat mtu + 14)"
proof -
  let ?m = "mtu + ETH_HLEN" and ?p = "w_page_size s"
  have m: "unat ?m = unat mtu + 14" using assms(3) by (simp add: ETH_HLEN_def unat_word_ariths)
  have le: "(ucast ?m :: u64) \<le> ucast ?p \<longleftrightarrow> ?m \<le> ?p" by (simp add: word_le_nat_alt unat_ucast_up)
  show ?thesis
  proof (cases "?m \<le> ?p")
    case True
    then show ?thesis using m le by (simp add: rx_page_order_def word_le_nat_alt)
  next
    case False
    then have lt: "?p < ?m" by simp
    let ?n = "(unat ?m - 1) div unat ?p"
    let ?w = "ucast (((ucast ?m :: u64) + ucast ?p - 1) div ucast ?p - 1) :: u32"
    have w: "unat ?w = ?n" by (rule pages_for(2) [OF lt assms(2)])
    have p: "0 < unat ?p" "unat ?p < unat ?m" using lt assms(2) by (simp_all add: unat_gt_0 word_less_nat_alt)
    have "1 \<le> ?n" using p by (simp add: Suc_le_eq div_greater_zero_iff)
    then obtain k where k: "k < 32" "w_ilog2 s ?w = of_nat k" "2 ^ k \<le> ?n" "?n < 2 ^ (k + 1)"
      using pow2_lib_ilog2 [OF assms(1), of ?w] w by auto
    have "unat (of_nat k :: u32) = k" using k(1) by (simp add: unat_of_nat)
    then have o: "unat (rx_page_order s mtu) = k + 1"
      using False k(1,2) le by (simp add: rx_page_order_def unat_word_ariths)
    have "unat ?p * ?n \<le> unat ?m - 1" by (metis mult.commute div_times_less_eq_dividend)
    then have "unat ?p * 2 ^ k \<le> unat ?m - 1" using k(3) by (meson le_trans mult_le_mono2)
    then have lo: "unat ?p * 2 ^ k < unat ?m" using p by linarith
    have "unat ?m - 1 < unat ?p * (?n + 1)" using dividend_less_times_div [OF p(1)] by (simp add: algebra_simps)
    then have "unat ?m \<le> unat ?p * (?n + 1)" using p by linarith
    also have "\<dots> \<le> unat ?p * 2 ^ (k + 1)" using k(4) by (intro mult_le_mono2) simp
    finally show ?thesis using lo o m by simp
  qed
qed


section \<open>Timestamping configuration\<close>

text \<open>What a stored configuration can be: no flags, a known type, and all packets or none.\<close>

definition hwts_ok :: "hwtstamp_config \<Rightarrow> bool" where
  "hwts_ok c \<longleftrightarrow> hc_flags c = 0 \<and> hc_tx_type c \<noteq> Hwtstamp_tx_other \<and> hc_rx_filter c \<in> {Filter_none, Filter_all}"

definition hwts_accepts :: "hwtstamp_config \<Rightarrow> bool" where
  "hwts_accepts c \<longleftrightarrow> hc_flags c = 0 \<and> hc_tx_type c \<noteq> Hwtstamp_tx_other \<and> hc_rx_filter c \<noteq> Filter_other"

text \<open>C20: over any sequence of timestamping requests the stored configuration stays one the driver
  supports; an accepted request whose result can be copied out is answered with exactly what a later
  read returns, a refused one changes nothing.\<close>

theorem hwtstamp_requests_ok:
  assumes "hwts_ok (pv_hwts_config nd)"
    "nd' = fold (\<lambda>(cmd, ok) nd. snd (snd (mqnic_ndo_ioctl cmd ok nd))) reqs nd"
  shows "hwts_ok (pv_hwts_config nd') \<and>
    (case mqnic_ndo_ioctl (SIOCSHWTSTAMP (Some c)) ok nd' of (r, out, nd'') \<Rightarrow>
       (r = 0) = (hwts_accepts c \<and> ok) \<and>
       (if hwts_accepts c then hc_tx_type (pv_hwts_config nd'') = hc_tx_type c \<and>
            (hc_rx_filter (pv_hwts_config nd'') = Filter_none) = (hc_rx_filter c = Filter_none)
        else nd'' = nd') \<and>
       (if r = 0 then mqnic_ndo_ioctl SIOCGHWTSTAMP True nd'' = (0, out, nd'') else out = None))"
proof -
  have step: "hwts_ok (pv_hwts_config (snd (snd (mqnic_ndo_ioctl cmd ok nd))))" if "hwts_ok (pv_hwts_config nd)" for cmd ok nd
    using that by (auto simp: mqnic_ndo_ioctl_def mqnic_hwtstamp_set_def mqnic_hwtstamp_get_def hwts_ok_def Let_def
        split: nd_ioctl.splits option.splits)
  have "hwts_ok (pv_hwts_config (fold (\<lambda>(cmd, ok) nd. snd (snd (mqnic_ndo_ioctl cmd ok nd))) reqs nd))"
    using assms(1) by (induction reqs arbitrary: nd) (auto intro: step)
  with assms(2) show ?thesis
    by (auto simp: mqnic_ndo_ioctl_def mqnic_hwtstamp_set_def mqnic_hwtstamp_get_def hwts_accepts_def Let_def)
qed

section \<open>Statistics\<close>

text \<open>The statistics of a running device are the sums of its rings' counters, and stopping it freezes
  them: whatever happens to the rings afterwards, the totals at the time of the stop are reported.\<close>

theorem stats_frozen_by_stop:
  assumes "nic_running mtu nd ifc" "mqnic_close nd ifc s = Some (0, nd', ifc', s')"
  shows "mqnic_get_stats64 ifc nd = Some ((
      \<Sum>k<unat (pv_rx_queue_count nd). r_packets (the (if_rx_ring ifc k)), \<Sum>k<unat (pv_rx_queue_count nd). r_bytes (the (if_rx_ring ifc k)),
      \<Sum>k<unat (pv_tx_queue_count nd). r_packets (the (if_tx_ring ifc k)), \<Sum>k<unat (pv_tx_queue_count nd). r_bytes (the (if_tx_ring ifc k))),
      stats_of ifc nd) \<and>
    map_option fst (mqnic_get_stats64 ifc2 nd') = map_option fst (mqnic_get_stats64 ifc nd)"
proof -
  have up: "mqnic_update_stats ifc nd = Some (stats_of ifc nd)"
    using assms(1) update_stats_up [OF _ running_rings [OF assms(1)]] by (simp add: nic_running_def)
  have nd': "nd' = (stats_of ifc nd)\<lparr>pv_port_up := False\<rparr>"
    using stop_port_drained [OF assms(1), of s] assms(2) by (auto simp: mqnic_close_def)
  have "mqnic_update_stats ifc2 nd' = Some nd'" by (simp add: nd' mqnic_update_stats_def)
  then show ?thesis unfolding mqnic_get_stats64_def up by (simp add: nd' stats_of_def)
qed

section \<open>Faults\<close>

text \<open>Starting a port with receive queues but no event queues divides by zero.\<close>

theorem start_port_needs_event_queues:
  assumes "pv_event_queue_count nd = 0" "pv_rx_queue_count nd \<noteq> 0" "pv_rx_cpl_queue_count nd \<noteq> 0"
  shows "mqnic_start_port nd ifc s = None"
proof -
  have "0 < unat (min (pv_rx_queue_count nd) (pv_rx_cpl_queue_count nd))"
    using assms(2,3) by (simp add: unat_gt_0 min_def)
  then obtain n where n: "[0..<unat (min (pv_rx_queue_count nd) (pv_rx_cpl_queue_count nd))] = 0 # [1..<Suc n]"
    by (metis Suc_pred' One_nat_def upt_conv_Cons)
  have "start_rx_queue nd 0 (ifc, s) = None"
    using assms(1) by (simp add: start_rx_queue_def event_ring_for_def split: Option.bind_splits)
  then show ?thesis by (simp add: mqnic_start_port_def n)
qed

text \<open>C30: a failure while the rings of a new device are allocated, or while it is registered, follows
  the caller's null device pointer instead of undoing the work.\<close>

theorem create_netdev_failure_faults:
  assumes "kzalloc s = (Some m, s1)" "nd_mac valid rnd dev dev_port = Some mac"
    "nd_alloc_rings mp (init_netdev m ifc index dev_port mac) (ifc,
        kvoid ''netif_set_real_num_rx_queues'' [uint (if_rx_queue_count ifc)]
         (kvoid ''netif_set_real_num_tx_queues'' [uint (if_tx_queue_count ifc)] s1)) = Some (e, ifc2, s2)"
    "e \<noteq> 0 \<or> fst (kcall ''register_netdev'' [] (kvoid ''netif_carrier_off'' [] s2)) \<noteq> 0"
  shows "mqnic_create_netdev valid rnd mp dev None index dev_port ifc s = None"
  using assms by (auto simp: mqnic_create_netdev_def mqnic_destroy_netdev_def Let_def split: prod.splits)

text \<open>A device that is created is registered, has no port running, the counts of its interface and an
  MTU range that starts at 68 and ends at what the first port reports less the header, or at 1500.\<close>

theorem create_netdev_result:
  assumes "mqnic_create_netdev valid rnd mp dev p index dev_port ifc s = Some (0, Some nd, ifc', s')" "p = None"
  shows "pv_registered nd \<and> \<not> pv_port_up nd \<and> nd_mtu nd = 1500 \<and> nd_min_mtu nd = 68 \<and>
    pv_rx_queue_count nd = if_rx_queue_count ifc \<and> pv_tx_queue_count nd = if_tx_queue_count ifc \<and>
    nd_max_mtu nd = (case if_port ifc' 0 of Some port \<Rightarrow> if port_mtu port = 0 then 1500 else port_mtu port - 14 | None \<Rightarrow> 1500) \<and>
    nd_features nd = insert NETIF_F_HIGHDMA (nd_hw_features nd) \<and>
    (NETIF_F_RXCSUM \<in> nd_hw_features nd) = (if_features ifc AND 0x200 \<noteq> 0) \<and>
    (NETIF_F_HW_CSUM \<in> nd_hw_features nd) = (if_features ifc AND 0x100 \<noteq> 0) \<and> hwts_ok (pv_hwts_config nd)"
proof -
  from assms obtain m mac where nd: "nd = (init_netdev m ifc index dev_port mac)\<lparr>nd_hw_features := nd_hw_feature_set (if_features ifc),
      nd_features := nd_hw_feature_set (if_features ifc) \<union> {NETIF_F_HIGHDMA}, nd_min_mtu := ETH_MIN_MTU,
      nd_max_mtu := nd_mtu_limit ifc', pv_registered := True\<rparr>"
    by (auto simp: mqnic_create_netdev_def mqnic_destroy_netdev_def Let_def init_netdev_def
        split: prod.splits option.splits if_split_asm Option.bind_split_asm)
  show ?thesis
    unfolding nd
    by (simp add: init_netdev_def hwts_ok_def nd_mtu_limit_def ETH_MIN_MTU_def ETH_HLEN_def split: option.split)
      (simp add: nd_hw_feature_set_def IF_FEATURE_RX_CSUM_def IF_FEATURE_TX_CSUM_def)
qed


section \<open>Creating a device that can be opened\<close>

text \<open>A kernel with memory to spare: the allocators used by the rings never fail, nor does registration.\<close>

definition roomy :: "sys \<Rightarrow> bool" where
  "roomy s \<longleftrightarrow> (\<forall>h. w_kalloc s h \<noteq> None) \<and> (\<forall>h n. w_dma_alloc s h n \<noteq> None) \<and>
     (\<forall>h. w_kcall s h ''register_netdev'' [] = 0)"

definition rich :: "sys \<Rightarrow> bool" where
  "rich s \<longleftrightarrow> roomy s \<and> pow2_lib s"

lemma rich_emit [simp]: "rich (emit e s) = rich s"
  by (simp add: rich_def roomy_def pow2_lib_def)

lemma rich_kvoid [simp]: "rich (kvoid f xs s) = rich s"
  by (simp add: kvoid_def)

lemma rich_iowrites [simp]: "rich (iowrites ws s) = rich s"
proof (induction ws arbitrary: s)
  case (Cons a ws)
  then show ?case by (cases a) (simp only: iowrites_Cons iowrite32_def rich_emit)
qed (simp only: iowrites_Nil)

lemma rich_kzalloc: "rich s \<Longrightarrow> \<exists>m. kzalloc s = (Some m, emit (Kalloc m) s)"
  unfolding rich_def roomy_def kzalloc_def by (auto split: option.split dest: spec [of _ "trace s"])

lemma rich_dma: "rich s \<Longrightarrow> \<exists>b d. dma_alloc_coherent n s = (Some (b, d), emit (DmaAlloc d n) s)"
  unfolding rich_def roomy_def dma_alloc_coherent_def by (auto split: option.split dest: spec2 [of _ "trace s" n])

lemma rich_ring_dims:
  "rich s \<Longrightarrow> 0 < n \<Longrightarrow> n \<le> 2 ^ 31 \<Longrightarrow>
    ring_dims (ucast (w_roundup_pow_of_two s (word_of_int n))) (ucast (w_roundup_pow_of_two s (word_of_int n)) - 1)"
  by (simp add: rich_def roundup_dims(1))

definition fresh_ring :: "mqnic_ring \<Rightarrow> bool" where
  "fresh_ring r \<longleftrightarrow> \<not> r_active r \<and> r_buf r = None \<and> r_cq_ring r = None"

definition count_ok :: "int \<Rightarrow> bool" where "count_ok n \<longleftrightarrow> 0 < n \<and> n \<le> 2 ^ 31"

lemma alloc_tx_rich:
  assumes "rich s" "fresh_ring r" "count_ok n"
  shows "\<exists>r' s'. mqnic_alloc_tx_ring r n st s = (0, r', s') \<and> tx_ring_ok r' \<and> r_cq_ring r' = None \<and> rich s'"
proof -
  obtain m where m: "kzalloc s = (Some m, emit (Kalloc m) s)" using rich_kzalloc [OF assms(1)] by blast
  have "rich (emit (Kalloc m) s)" using assms(1) by simp
  then show ?thesis
    using assms m rich_ring_dims [OF assms(1), of n]
      rich_dma [of "emit (Kalloc m) s" "ucast ((ucast (w_roundup_pow_of_two s (word_of_int n)) :: u32) * ucast (w_roundup_pow_of_two s (word_of_int st)))"]
    by (auto simp: mqnic_alloc_tx_ring_def Let_def fresh_ring_def count_ok_def tx_ring_ok_def simp del: iowrites_Cons)
qed

lemma alloc_rx_rich:
  assumes "rich s" "fresh_ring r" "count_ok n"
  shows "\<exists>r' s'. mqnic_alloc_rx_ring r n st s = (0, r', s') \<and> rx_inv r' \<and> rx_posted r' = 0 \<and> r_cq_ring r' = None \<and> rich s'"
proof -
  obtain m where m: "kzalloc s = (Some m, emit (Kalloc m) s)" using rich_kzalloc [OF assms(1)] by blast
  have d: "ring_dims (ucast (w_roundup_pow_of_two s (word_of_int n))) (ucast (w_roundup_pow_of_two s (word_of_int n)) - 1)"
    using assms rich_ring_dims by (simp add: count_ok_def)
  have "rich (emit (Kalloc m) s)" using assms(1) by simp
  then show ?thesis
    using assms m d ring_index_less [OF d]
      rich_dma [of "emit (Kalloc m) s" "ucast ((ucast (w_roundup_pow_of_two s (word_of_int n)) :: u32) * ucast (w_roundup_pow_of_two s (word_of_int st)))"]
    by (auto simp: mqnic_alloc_rx_ring_def Let_def fresh_ring_def rx_inv_def rx_posted_def rx_slot_def zero_rx_info_def simp del: iowrites_Cons)
qed

lemma alloc_cq_rich:
  assumes "rich s"
  shows "\<exists>r' s'. mqnic_alloc_cq_ring r n st s = (0, r', s') \<and> cq_buf r' \<noteq> None \<and> cq_handler r' = cq_handler r \<and>
    cq_src_ring r' = cq_src_ring r \<and> rich s'"
  using assms rich_dma [OF assms, of "ucast ((ucast (w_roundup_pow_of_two s (word_of_int n)) :: u32) * ucast (w_roundup_pow_of_two s (word_of_int st)))"]
  by (auto simp: mqnic_alloc_cq_ring_def Let_def simp del: iowrites_Cons)

text \<open>A step that must answer 0, and what a run of such steps says about the loop that checks for errors.\<close>

definition ok0 :: "('s \<Rightarrow> (int \<times> 's) option) \<Rightarrow> 's \<Rightarrow> 's option" where
  "ok0 f s = (case f s of None \<Rightarrow> None | Some (e, t) \<Rightarrow> if e = 0 then Some t else None)"

lemma ok0_Some [simp]: "ok0 f s = Some t \<longleftrightarrow> f s = Some (0, t)"
  by (auto simp: ok0_def split: option.splits if_splits)

lemma efold_ok: "ofold (\<lambda>k. ok0 (f k)) ks s = Some t \<Longrightarrow> efold f ks s = Some (0, t)"
  by (induction ks arbitrary: s) (auto split: option.split_asm)

definition fresh_rings :: "(nat \<Rightarrow> mqnic_ring option) \<Rightarrow> nat \<Rightarrow> bool" where
  "fresh_rings m k \<longleftrightarrow> (\<exists>r. m k = Some r \<and> fresh_ring r)"

definition tx_allocated :: "(nat \<Rightarrow> mqnic_ring option) \<Rightarrow> nat \<Rightarrow> bool" where
  "tx_allocated m k \<longleftrightarrow> (\<exists>r. m k = Some r \<and> tx_ring_ok r \<and> r_cq_ring r = None)"

definition rx_allocated :: "(nat \<Rightarrow> mqnic_ring option) \<Rightarrow> nat \<Rightarrow> bool" where
  "rx_allocated m k \<longleftrightarrow> (\<exists>r. m k = Some r \<and> rx_inv r \<and> rx_posted r = 0 \<and> r_cq_ring r = None)"

definition fresh_cqs :: "(nat \<Rightarrow> mqnic_cq_ring option) \<Rightarrow> nat \<Rightarrow> bool" where
  "fresh_cqs m k \<longleftrightarrow> (\<exists>r. m k = Some r \<and> cq_handler r = None \<and> cq_src_ring r = None)"

definition cq_allocated :: "(nat \<Rightarrow> mqnic_cq_ring option) \<Rightarrow> nat \<Rightarrow> bool" where
  "cq_allocated m k \<longleftrightarrow> (\<exists>r. m k = Some r \<and> cq_buf r \<noteq> None \<and> cq_handler r = None \<and> cq_src_ring r = None)"

lemma allocated_upd [simp]:
  "j \<noteq> k \<Longrightarrow> fresh_rings (m(k := r)) j = fresh_rings m j" "j \<noteq> k \<Longrightarrow> tx_allocated (m(k := r)) j = tx_allocated m j"
  "j \<noteq> k \<Longrightarrow> rx_allocated (m(k := r)) j = rx_allocated m j" "j \<noteq> k \<Longrightarrow> fresh_cqs (c(k := q)) j = fresh_cqs c j"
  "j \<noteq> k \<Longrightarrow> cq_allocated (c(k := q)) j = cq_allocated c j"
  by (simp_all add: fresh_rings_def tx_allocated_def rx_allocated_def fresh_cqs_def cq_allocated_def)

definition keeps_alloc_tx :: "mqnic_if \<times> sys \<Rightarrow> mqnic_if \<times> sys \<Rightarrow> bool" where
  "keeps_alloc_tx v w \<longleftrightarrow> (\<exists>f. fst w = (fst v)\<lparr>if_tx_ring := f\<rparr>) \<and> (rich (snd v) \<longrightarrow> rich (snd w))"

lemma keeps_alloc_tx_laws:
  "keeps_alloc_tx w w" "keeps_alloc_tx u v \<Longrightarrow> keeps_alloc_tx v w \<Longrightarrow> keeps_alloc_tx u w" "rich (snd v) \<and> c \<Longrightarrow> keeps_alloc_tx v w \<Longrightarrow> rich (snd w) \<and> c"
  unfolding keeps_alloc_tx_def by (auto intro: exI [of _ "if_tx_ring (fst w)"])

interpretation alloc_tx: queue_stage "\<lambda>k. ok0 (nd_alloc_tx n st k)" "\<lambda>w. rich (snd w) \<and> count_ok n"
    "\<lambda>k w. fresh_rings (if_tx_ring (fst w)) k" "\<lambda>k w. tx_allocated (if_tx_ring (fst w)) k" keeps_alloc_tx for n st
proof unfold_locales
  fix w :: "mqnic_if \<times> sys" and k assume ok: "rich (snd w) \<and> count_ok n" and "fresh_rings (if_tx_ring (fst w)) k"
  then obtain r where r: "if_tx_ring (fst w) k = Some r" "fresh_ring r" unfolding fresh_rings_def by blast
  obtain r' s' where a: "mqnic_alloc_tx_ring r n st (snd w) = (0, r', s')" "tx_allocated (((if_tx_ring (fst w)))(k \<mapsto> r')) k" "rich s'"
    using alloc_tx_rich [of "snd w" r n st] ok r by (auto simp: tx_allocated_def)
  let ?t = "((fst w)\<lparr>if_tx_ring := (if_tx_ring (fst w))(k \<mapsto> r')\<rparr>, s')"
  have "ok0 (nd_alloc_tx n st k) w = Some ?t" using r(1) a(1) by (cases w) (simp add: nd_alloc_tx_def)
  moreover have "keeps_alloc_tx w ?t" using a(3) by (auto simp: keeps_alloc_tx_def)
  ultimately show "\<exists>t. ok0 (nd_alloc_tx n st k) w = Some t \<and> tx_allocated (if_tx_ring (fst t)) k \<and> keeps_alloc_tx w t \<and>
      (\<forall>j. j \<noteq> k \<longrightarrow> (fresh_rings (if_tx_ring (fst w)) j \<longrightarrow> fresh_rings (if_tx_ring (fst t)) j) \<and>
        (tx_allocated (if_tx_ring (fst w)) j \<longrightarrow> tx_allocated (if_tx_ring (fst t)) j))"
    using a(2) by (intro exI [of _ ?t]) (simp del: ok0_Some fun_upd_apply)
qed (use keeps_alloc_tx_laws in blast)+

definition keeps_alloc_tx_cpl :: "mqnic_if \<times> sys \<Rightarrow> mqnic_if \<times> sys \<Rightarrow> bool" where
  "keeps_alloc_tx_cpl v w \<longleftrightarrow> (\<exists>f. fst w = (fst v)\<lparr>if_tx_cpl_ring := f\<rparr>) \<and> (rich (snd v) \<longrightarrow> rich (snd w))"

lemma keeps_alloc_tx_cpl_laws:
  "keeps_alloc_tx_cpl w w" "keeps_alloc_tx_cpl u v \<Longrightarrow> keeps_alloc_tx_cpl v w \<Longrightarrow> keeps_alloc_tx_cpl u w" "rich (snd v) \<and> c \<Longrightarrow> keeps_alloc_tx_cpl v w \<Longrightarrow> rich (snd w) \<and> c"
  unfolding keeps_alloc_tx_cpl_def by (auto intro: exI [of _ "if_tx_cpl_ring (fst w)"])

interpretation alloc_tx_cpl: queue_stage "\<lambda>k. ok0 (nd_alloc_tx_cpl n st k)" "\<lambda>w. rich (snd w) \<and> count_ok n"
    "\<lambda>k w. fresh_cqs (if_tx_cpl_ring (fst w)) k" "\<lambda>k w. cq_allocated (if_tx_cpl_ring (fst w)) k" keeps_alloc_tx_cpl for n st
proof unfold_locales
  fix w :: "mqnic_if \<times> sys" and k assume ok: "rich (snd w) \<and> count_ok n" and "fresh_cqs (if_tx_cpl_ring (fst w)) k"
  then obtain r where r: "if_tx_cpl_ring (fst w) k = Some r" "cq_handler r = None" "cq_src_ring r = None" unfolding fresh_cqs_def by blast
  obtain r' s' where a: "mqnic_alloc_cq_ring r n st (snd w) = (0, r', s')" "cq_allocated (((if_tx_cpl_ring (fst w)))(k \<mapsto> r')) k" "rich s'"
    using alloc_cq_rich [of "snd w" r n st] ok r by (auto simp: cq_allocated_def)
  let ?t = "((fst w)\<lparr>if_tx_cpl_ring := (if_tx_cpl_ring (fst w))(k \<mapsto> r')\<rparr>, s')"
  have "ok0 (nd_alloc_tx_cpl n st k) w = Some ?t" using r(1) a(1) by (cases w) (simp add: nd_alloc_tx_cpl_def)
  moreover have "keeps_alloc_tx_cpl w ?t" using a(3) by (auto simp: keeps_alloc_tx_cpl_def)
  ultimately show "\<exists>t. ok0 (nd_alloc_tx_cpl n st k) w = Some t \<and> cq_allocated (if_tx_cpl_ring (fst t)) k \<and> keeps_alloc_tx_cpl w t \<and>
      (\<forall>j. j \<noteq> k \<longrightarrow> (fresh_cqs (if_tx_cpl_ring (fst w)) j \<longrightarrow> fresh_cqs (if_tx_cpl_ring (fst t)) j) \<and>
        (cq_allocated (if_tx_cpl_ring (fst w)) j \<longrightarrow> cq_allocated (if_tx_cpl_ring (fst t)) j))"
    using a(2) by (intro exI [of _ ?t]) (simp del: ok0_Some fun_upd_apply)
qed (use keeps_alloc_tx_cpl_laws in blast)+

definition keeps_alloc_rx :: "mqnic_if \<times> sys \<Rightarrow> mqnic_if \<times> sys \<Rightarrow> bool" where
  "keeps_alloc_rx v w \<longleftrightarrow> (\<exists>f. fst w = (fst v)\<lparr>if_rx_ring := f\<rparr>) \<and> (rich (snd v) \<longrightarrow> rich (snd w))"

lemma keeps_alloc_rx_laws:
  "keeps_alloc_rx w w" "keeps_alloc_rx u v \<Longrightarrow> keeps_alloc_rx v w \<Longrightarrow> keeps_alloc_rx u w" "rich (snd v) \<and> c \<Longrightarrow> keeps_alloc_rx v w \<Longrightarrow> rich (snd w) \<and> c"
  unfolding keeps_alloc_rx_def by (auto intro: exI [of _ "if_rx_ring (fst w)"])

interpretation alloc_rx: queue_stage "\<lambda>k. ok0 (nd_alloc_rx n st k)" "\<lambda>w. rich (snd w) \<and> count_ok n"
    "\<lambda>k w. fresh_rings (if_rx_ring (fst w)) k" "\<lambda>k w. rx_allocated (if_rx_ring (fst w)) k" keeps_alloc_rx for n st
proof unfold_locales
  fix w :: "mqnic_if \<times> sys" and k assume ok: "rich (snd w) \<and> count_ok n" and "fresh_rings (if_rx_ring (fst w)) k"
  then obtain r where r: "if_rx_ring (fst w) k = Some r" "fresh_ring r" unfolding fresh_rings_def by blast
  obtain r' s' where a: "mqnic_alloc_rx_ring r n st (snd w) = (0, r', s')" "rx_allocated (((if_rx_ring (fst w)))(k \<mapsto> r')) k" "rich s'"
    using alloc_rx_rich [of "snd w" r n st] ok r by (auto simp: rx_allocated_def)
  let ?t = "((fst w)\<lparr>if_rx_ring := (if_rx_ring (fst w))(k \<mapsto> r')\<rparr>, s')"
  have "ok0 (nd_alloc_rx n st k) w = Some ?t" using r(1) a(1) by (cases w) (simp add: nd_alloc_rx_def)
  moreover have "keeps_alloc_rx w ?t" using a(3) by (auto simp: keeps_alloc_rx_def)
  ultimately show "\<exists>t. ok0 (nd_alloc_rx n st k) w = Some t \<and> rx_allocated (if_rx_ring (fst t)) k \<and> keeps_alloc_rx w t \<and>
      (\<forall>j. j \<noteq> k \<longrightarrow> (fresh_rings (if_rx_ring (fst w)) j \<longrightarrow> fresh_rings (if_rx_ring (fst t)) j) \<and>
        (rx_allocated (if_rx_ring (fst w)) j \<longrightarrow> rx_allocated (if_rx_ring (fst t)) j))"
    using a(2) by (intro exI [of _ ?t]) (simp del: ok0_Some fun_upd_apply)
qed (use keeps_alloc_rx_laws in blast)+

definition keeps_alloc_rx_cpl :: "mqnic_if \<times> sys \<Rightarrow> mqnic_if \<times> sys \<Rightarrow> bool" where
  "keeps_alloc_rx_cpl v w \<longleftrightarrow> (\<exists>f. fst w = (fst v)\<lparr>if_rx_cpl_ring := f\<rparr>) \<and> (rich (snd v) \<longrightarrow> rich (snd w))"

lemma keeps_alloc_rx_cpl_laws:
  "keeps_alloc_rx_cpl w w" "keeps_alloc_rx_cpl u v \<Longrightarrow> keeps_alloc_rx_cpl v w \<Longrightarrow> keeps_alloc_rx_cpl u w" "rich (snd v) \<and> c \<Longrightarrow> keeps_alloc_rx_cpl v w \<Longrightarrow> rich (snd w) \<and> c"
  unfolding keeps_alloc_rx_cpl_def by (auto intro: exI [of _ "if_rx_cpl_ring (fst w)"])

interpretation alloc_rx_cpl: queue_stage "\<lambda>k. ok0 (nd_alloc_rx_cpl n st k)" "\<lambda>w. rich (snd w) \<and> count_ok n"
    "\<lambda>k w. fresh_cqs (if_rx_cpl_ring (fst w)) k" "\<lambda>k w. cq_allocated (if_rx_cpl_ring (fst w)) k" keeps_alloc_rx_cpl for n st
proof unfold_locales
  fix w :: "mqnic_if \<times> sys" and k assume ok: "rich (snd w) \<and> count_ok n" and "fresh_cqs (if_rx_cpl_ring (fst w)) k"
  then obtain r where r: "if_rx_cpl_ring (fst w) k = Some r" "cq_handler r = None" "cq_src_ring r = None" unfolding fresh_cqs_def by blast
  obtain r' s' where a: "mqnic_alloc_cq_ring r n st (snd w) = (0, r', s')" "cq_allocated (((if_rx_cpl_ring (fst w)))(k \<mapsto> r')) k" "rich s'"
    using alloc_cq_rich [of "snd w" r n st] ok r by (auto simp: cq_allocated_def)
  let ?t = "((fst w)\<lparr>if_rx_cpl_ring := (if_rx_cpl_ring (fst w))(k \<mapsto> r')\<rparr>, s')"
  have "ok0 (nd_alloc_rx_cpl n st k) w = Some ?t" using r(1) a(1) by (cases w) (simp add: nd_alloc_rx_cpl_def)
  moreover have "keeps_alloc_rx_cpl w ?t" using a(3) by (auto simp: keeps_alloc_rx_cpl_def)
  ultimately show "\<exists>t. ok0 (nd_alloc_rx_cpl n st k) w = Some t \<and> cq_allocated (if_rx_cpl_ring (fst t)) k \<and> keeps_alloc_rx_cpl w t \<and>
      (\<forall>j. j \<noteq> k \<longrightarrow> (fresh_cqs (if_rx_cpl_ring (fst w)) j \<longrightarrow> fresh_cqs (if_rx_cpl_ring (fst t)) j) \<and>
        (cq_allocated (if_rx_cpl_ring (fst w)) j \<longrightarrow> cq_allocated (if_rx_cpl_ring (fst t)) j))"
    using a(2) by (intro exI [of _ ?t]) (simp del: ok0_Some fun_upd_apply)
qed (use keeps_alloc_rx_cpl_laws in blast)+

text \<open>An interface whose rings have been created and not yet allocated.\<close>

definition if_fresh :: "mqnic_if \<Rightarrow> bool" where
  "if_fresh ifc \<longleftrightarrow> if_event_queue_count ifc \<noteq> 0 \<and> if_port ifc 0 \<noteq> None \<and>
     (\<forall>k<unat (if_event_queue_count ifc). if_event_ring ifc k \<noteq> None) \<and>
     (\<forall>k<unat (if_port_count ifc). if_port ifc k \<noteq> None) \<and>
     if_tx_queue_count ifc \<le> if_tx_cpl_queue_count ifc \<and> if_rx_queue_count ifc \<le> if_rx_cpl_queue_count ifc \<and>
     (\<forall>k<unat (if_tx_queue_count ifc). fresh_rings (if_tx_ring ifc) k) \<and>
     (\<forall>k<unat (if_rx_queue_count ifc). fresh_rings (if_rx_ring ifc) k) \<and>
     (\<forall>k<unat (if_tx_cpl_queue_count ifc). fresh_cqs (if_tx_cpl_ring ifc) k) \<and>
     (\<forall>k<unat (if_rx_cpl_queue_count ifc). fresh_cqs (if_rx_cpl_ring ifc) k)"

lemma alloc_rings_rich:
  assumes "rich s" "count_ok (num_tx_queue_entries mp)" "count_ok (num_rx_queue_entries mp)"
    "\<forall>k<unat (pv_tx_queue_count nd). fresh_rings (if_tx_ring ifc) k" "\<forall>k<unat (pv_rx_queue_count nd). fresh_rings (if_rx_ring ifc) k"
    "\<forall>k<unat (pv_tx_cpl_queue_count nd). fresh_cqs (if_tx_cpl_ring ifc) k" "\<forall>k<unat (pv_rx_cpl_queue_count nd). fresh_cqs (if_rx_cpl_ring ifc) k"
  shows "\<exists>tr tc rr rc s'. nd_alloc_rings mp nd (ifc, s) =
      Some (0, ifc\<lparr>if_tx_ring := tr, if_tx_cpl_ring := tc, if_rx_ring := rr, if_rx_cpl_ring := rc\<rparr>, s') \<and> rich s' \<and>
    (\<forall>k<unat (pv_tx_queue_count nd). tx_allocated tr k) \<and> (\<forall>k<unat (pv_rx_queue_count nd). rx_allocated rr k) \<and>
    (\<forall>k<unat (pv_tx_cpl_queue_count nd). cq_allocated tc k) \<and> (\<forall>k<unat (pv_rx_cpl_queue_count nd). cq_allocated rc k)"
proof -
  let ?w0 = "(ifc, s)" and ?st = "DESC_SIZE * uint (min (if_max_desc_block_size ifc) 4)"
  obtain w1 where 1: "ofold (\<lambda>k. ok0 (nd_alloc_tx (num_tx_queue_entries mp) ?st k)) [0..<unat (pv_tx_queue_count nd)] ?w0 = Some w1"
      "keeps_alloc_tx ?w0 w1" "\<forall>k<unat (pv_tx_queue_count nd). tx_allocated (if_tx_ring (fst w1)) k"
    using alloc_tx.run [where w = ?w0 and na = "num_tx_queue_entries mp" and n = "unat (pv_tx_queue_count nd)" and st = ?st] assms(1,2,4) by auto
  obtain tr s1 where w1: "w1 = (ifc\<lparr>if_tx_ring := tr\<rparr>, s1)" "rich s1"
    using 1(2) assms(1) unfolding keeps_alloc_tx_def by (cases w1) auto
  obtain w2 where 2: "ofold (\<lambda>k. ok0 (nd_alloc_tx_cpl (num_tx_queue_entries mp) CPL_SIZE k)) [0..<unat (pv_tx_cpl_queue_count nd)] w1 = Some w2"
      "keeps_alloc_tx_cpl w1 w2" "\<forall>k<unat (pv_tx_cpl_queue_count nd). cq_allocated (if_tx_cpl_ring (fst w2)) k"
    using alloc_tx_cpl.run [where w = w1 and na = "num_tx_queue_entries mp" and n = "unat (pv_tx_cpl_queue_count nd)" and st = CPL_SIZE] assms(2,6) w1 by auto
  obtain tc s2 where w2: "w2 = (ifc\<lparr>if_tx_ring := tr, if_tx_cpl_ring := tc\<rparr>, s2)" "rich s2"
    using 2(2) w1 unfolding keeps_alloc_tx_cpl_def by (cases w2) auto
  obtain w3 where 3: "ofold (\<lambda>k. ok0 (nd_alloc_rx (num_rx_queue_entries mp) DESC_SIZE k)) [0..<unat (pv_rx_queue_count nd)] w2 = Some w3"
      "keeps_alloc_rx w2 w3" "\<forall>k<unat (pv_rx_queue_count nd). rx_allocated (if_rx_ring (fst w3)) k"
    using alloc_rx.run [where w = w2 and na = "num_rx_queue_entries mp" and n = "unat (pv_rx_queue_count nd)" and st = DESC_SIZE] assms(3,5) w2 by auto
  obtain rr s3 where w3: "w3 = (ifc\<lparr>if_tx_ring := tr, if_tx_cpl_ring := tc, if_rx_ring := rr\<rparr>, s3)" "rich s3"
    using 3(2) w2 unfolding keeps_alloc_rx_def by (cases w3) auto
  obtain w4 where 4: "ofold (\<lambda>k. ok0 (nd_alloc_rx_cpl (num_rx_queue_entries mp) CPL_SIZE k)) [0..<unat (pv_rx_cpl_queue_count nd)] w3 = Some w4"
      "keeps_alloc_rx_cpl w3 w4" "\<forall>k<unat (pv_rx_cpl_queue_count nd). cq_allocated (if_rx_cpl_ring (fst w4)) k"
    using alloc_rx_cpl.run [where w = w3 and na = "num_rx_queue_entries mp" and n = "unat (pv_rx_cpl_queue_count nd)" and st = CPL_SIZE] assms(3,7) w3 by auto
  obtain rc s4 where w4: "w4 = (ifc\<lparr>if_tx_ring := tr, if_tx_cpl_ring := tc, if_rx_ring := rr, if_rx_cpl_ring := rc\<rparr>, s4)" "rich s4"
    using 4(2) w3 unfolding keeps_alloc_rx_cpl_def by (cases w4) auto
  have "nd_alloc_rings mp nd (ifc, s) = Some (0, w4)"
    using efold_ok [OF 1(1)] efold_ok [OF 2(1)] efold_ok [OF 3(1)] efold_ok [OF 4(1)]
    by (simp add: nd_alloc_rings_def eseq_def)
  with 1(3) 2(3) 3(3) 4(3) w1 w2 w3 w4 show ?thesis by auto
qed

lemma create_netdev_rich:
  assumes "rich s" "count_ok (num_tx_queue_entries mp)" "count_ok (num_rx_queue_entries mp)" "if_fresh ifc"
    "0 \<le> dev_port" "ifd_mac_count dev \<le> int (length (ifd_mac_list dev))"
  shows "\<exists>nd ifc1 s1. mqnic_create_netdev valid rnd mp dev None index dev_port ifc s = Some (0, Some nd, ifc1, s1) \<and>
    nic_ready nd ifc1 \<and> nd_mtu nd = 1500 \<and> if_port ifc1 = if_port ifc"
proof -
  obtain m where m: "kzalloc s = (Some m, emit (Kalloc m) s)" using rich_kzalloc [OF assms(1)] by blast
  obtain mac where mac: "nd_mac valid rnd dev dev_port = Some mac"
    using assms(5,6) by (fastforce simp: nd_mac_def Let_def split: if_splits)
  let ?nd = "init_netdev m ifc index dev_port mac"
  let ?s = "kvoid ''netif_set_real_num_rx_queues'' [uint (if_rx_queue_count ifc)]
      (kvoid ''netif_set_real_num_tx_queues'' [uint (if_tx_queue_count ifc)] (emit (Kalloc m) s))"
  have f: "\<forall>k<unat (pv_tx_queue_count ?nd). fresh_rings (if_tx_ring ifc) k" "\<forall>k<unat (pv_rx_queue_count ?nd). fresh_rings (if_rx_ring ifc) k"
    "\<forall>k<unat (pv_tx_cpl_queue_count ?nd). fresh_cqs (if_tx_cpl_ring ifc) k" "\<forall>k<unat (pv_rx_cpl_queue_count ?nd). fresh_cqs (if_rx_cpl_ring ifc) k"
    using assms(4) by (simp_all add: if_fresh_def init_netdev_def)
  have "rich ?s" using assms(1) by simp
  from alloc_rings_rich [OF this assms(2,3) f] obtain tr tc rr rc s2 where a:
      "nd_alloc_rings mp ?nd (ifc, ?s) = Some (0, ifc\<lparr>if_tx_ring := tr, if_tx_cpl_ring := tc, if_rx_ring := rr, if_rx_cpl_ring := rc\<rparr>, s2)" "rich s2"
      "\<forall>k<unat (pv_tx_queue_count ?nd). tx_allocated tr k" "\<forall>k<unat (pv_rx_queue_count ?nd). rx_allocated rr k"
      "\<forall>k<unat (pv_tx_cpl_queue_count ?nd). cq_allocated tc k" "\<forall>k<unat (pv_rx_cpl_queue_count ?nd). cq_allocated rc k"
    by blast
  let ?ifc = "ifc\<lparr>if_tx_ring := tr, if_tx_cpl_ring := tc, if_rx_ring := rr, if_rx_cpl_ring := rc\<rparr>"
  have "\<And>h. w_kcall s2 h ''register_netdev'' [] = 0" using a(2) by (simp add: rich_def roomy_def)
  then obtain nd s1 where c: "mqnic_create_netdev valid rnd mp dev None index dev_port ifc s = Some (0, Some nd, ?ifc, s1)"
      "nd = ?nd\<lparr>nd_hw_features := nd_hw_features nd, nd_features := nd_features nd, nd_min_mtu := nd_min_mtu nd,
         nd_max_mtu := nd_max_mtu nd, pv_registered := True\<rparr>"
    using a(1) m mac by (auto simp: mqnic_create_netdev_def Let_def kcall_def kvoid_def)
  have n: "pv_event_queue_count nd = if_event_queue_count ifc" "pv_port_count nd = if_port_count ifc"
    "pv_tx_queue_count nd = if_tx_queue_count ifc" "pv_tx_cpl_queue_count nd = if_tx_cpl_queue_count ifc"
    "pv_rx_queue_count nd = if_rx_queue_count ifc" "pv_rx_cpl_queue_count nd = if_rx_cpl_queue_count ifc"
    "\<not> pv_port_up nd" "nd_mtu nd = 1500"
    by (subst c(2), simp add: init_netdev_def)+
  have fr: "nic_frame nd ?ifc" using assms(4) by (simp add: nic_frame_def n if_fresh_def)
  have le: "unat (if_tx_queue_count ifc) \<le> unat (if_tx_cpl_queue_count ifc)" "unat (if_rx_queue_count ifc) \<le> unat (if_rx_cpl_queue_count ifc)"
    using assms(4) by (simp_all add: if_fresh_def word_le_nat_alt)
  have "txq_ready k ?ifc" if "k < txn nd" for k
  proof -
    have "k < unat (if_tx_queue_count ifc)" using that queue_counts [OF fr] n by simp
    then have "tx_allocated tr k" "cq_allocated tc k" using a(3,5) le(1) by (simp_all add: init_netdev_def)
    then show ?thesis by (auto simp: txq_ready_def tx_allocated_def cq_allocated_def)
  qed
  moreover have "rxq_ready k ?ifc" if "k < rxn nd" for k
  proof -
    have "k < unat (if_rx_queue_count ifc)" using that queue_counts [OF fr] n by simp
    then have "rx_allocated rr k" "cq_allocated rc k" using a(4,6) le(2) by (simp_all add: init_netdev_def)
    then show ?thesis by (auto simp: rxq_ready_def rx_allocated_def cq_allocated_def)
  qed
  ultimately have r: "nic_ready nd ?ifc" using fr n by (simp add: nic_ready_def)
  with c(1) n(8) show ?thesis by simp
qed

text \<open>Given memory, sensible ring sizes and an interface with fresh rings, creating a network device
  succeeds, and the device it creates can be opened: every queue comes up.\<close>

theorem create_then_open:
  assumes "rich s" "count_ok (num_tx_queue_entries mp)" "count_ok (num_rx_queue_entries mp)" "if_fresh ifc"
    "0 \<le> dev_port" "ifd_mac_count dev \<le> int (length (ifd_mac_list dev))"
  shows "\<exists>nd ifc1 s1 nd' ifc' s'. mqnic_create_netdev valid rnd mp dev None index dev_port ifc s = Some (0, Some nd, ifc1, s1) \<and>
    nic_ready nd ifc1 \<and> mqnic_open nd ifc1 s1 = Some (0, nd', ifc', s') \<and> nic_running 1500 nd' ifc'"
proof -
  obtain nd ifc1 s1 where c: "mqnic_create_netdev valid rnd mp dev None index dev_port ifc s = Some (0, Some nd, ifc1, s1)"
    "nic_ready nd ifc1" "nd_mtu nd = 1500"
    using create_netdev_rich [OF assms] by blast
  with start_port_running [OF c(2), of s1] show ?thesis unfolding mqnic_open_def by fastforce
qed

section \<open>An interface to evaluate the model on\<close>

definition demo_port :: mqnic_port where
  "demo_port = \<lparr>port_mem = 0, port_index = 0, port_tx_queue_count = 1, port_id = 0, port_features = 0, port_mtu = 9214,
     port_sched_count = 1, port_sched_offset = 0x1000, port_sched_stride = 0, port_sched_type = 0, port_hw_addr = 0x500000\<rparr>"

definition demo_if :: mqnic_if where
  "demo_if = \<lparr>if_mem = 0, if_index = 0, if_dev_port_base = 0, if_dev_port_max = 1, if_id = 0, if_features = 0x300,
     if_event_queue_count = 1, if_event_queue_offset = 0x1000, if_event_ring = [0 \<mapsto> demo_eq],
     if_tx_queue_count = 1, if_tx_queue_offset = 0x2000, if_tx_ring = [0 \<mapsto> demo_tx],
     if_tx_cpl_queue_count = 1, if_tx_cpl_queue_offset = 0x3000,
     if_tx_cpl_ring = [0 \<mapsto> (demo_cq 0)\<lparr>cq_active := False, cq_handler := None, cq_src_ring := None\<rparr>],
     if_rx_queue_count = 1, if_rx_queue_offset = 0x4000, if_rx_ring = [0 \<mapsto> demo_rx],
     if_rx_cpl_queue_count = 1, if_rx_cpl_queue_offset = 0x5000,
     if_rx_cpl_ring = [0 \<mapsto> (demo_cq 0)\<lparr>cq_active := False, cq_handler := None, cq_src_ring := None\<rparr>],
     if_port_count = 1, if_port_offset = 0x6000, if_port_stride = 0x1000, if_port = [0 \<mapsto> demo_port],
     if_max_desc_block_size = 4, if_hw_addr = 0x10000, if_csr_hw_addr = 0x20000,
     if_mod_i2c_client = None\<rparr>"

definition demo_nd :: net_device where
  "demo_nd = (init_netdev 0 demo_if 0 0 [2, 0, 0, 0, 0, 1])\<lparr>nd_min_mtu := 68, nd_max_mtu := 9200\<rparr>"

lemma demo_ready: "nic_ready demo_nd demo_if"
  using demo_rx_inv demo_tx_wf
  by (simp add: nic_ready_def nic_frame_def rxn_def txn_def demo_nd_def init_netdev_def demo_if_def rxq_ready_def txq_ready_def
      demo_cq_def tx_ring_ok_def tx_wf_def) (simp add: demo_rx_def demo_tx_def zero_ring_def)

lemma demo_running:
  "\<exists>nd ifc s. mqnic_open demo_nd demo_if quiet_world = Some (0, nd, ifc, s) \<and> nic_running 1500 nd ifc"
  using start_port_running [OF demo_ready, of quiet_world] by (auto simp: mqnic_open_def demo_nd_def init_netdev_def)

theorem netdev_never_faults_witness:
  "\<exists>nd ifc s nd' ifc' s'. mqnic_open demo_nd demo_if quiet_world = Some (0, nd, ifc, s) \<and>
     mqnic_close nd ifc s = Some (0, nd', ifc', s') \<and> nic_stopped nd' ifc' \<and>
     mqnic_change_mtu True 10000 nd ifc s = Some (- 1, nd, ifc, s)"
proof -
  note first = netdev_never_faults [OF demo_ready rtranclp.rtrancl_refl [of nd_step "(False, demo_nd, demo_if, quiet_world)"]]
  have "\<exists>nd ifc s. mqnic_open demo_nd demo_if quiet_world = Some (0, nd, ifc, s)" using first [of 1500] by auto
  then obtain nd ifc s where o: "mqnic_open demo_nd demo_if quiet_world = Some (0, nd, ifc, s)" by blast
  then have r: "nd_step\<^sup>*\<^sup>* (False, demo_nd, demo_if, quiet_world) (True, nd, ifc, s)" by (intro r_into_rtranclp Open)
  have "nd = demo_nd\<lparr>pv_port_up := True\<rparr>" using o start_port_running [OF demo_ready, of quiet_world] by (auto simp: mqnic_open_def)
  then have "nd_max_mtu nd = 9200" by (simp add: demo_nd_def)
  with netdev_never_faults [OF demo_ready r, of 10000] o show ?thesis by auto
qed

theorem rx_page_order_least_witness:
  "rx_page_order quiet_world 9000 = 2 \<and> 9014 \<le> unat (w_page_size quiet_world) * 2 ^ 2 \<and>
   unat (w_page_size quiet_world) * 2 ^ (2 - 1) < 9014"
proof -
  have "log2_down 32 2 = 1" by (simp add: numeral_eq_Suc)
  then have o: "rx_page_order quiet_world 9000 = 2"
    by (simp add: rx_page_order_def quiet_world_def ETH_HLEN_def ref_ilog2_def)
  from rx_page_order_least [OF quiet_world_pow2_lib, of 9000] o show ?thesis by (simp add: quiet_world_def)
qed

theorem hwtstamp_requests_ok_witness:
  "hwts_ok (pv_hwts_config demo_nd) \<and>
   fst (mqnic_ndo_ioctl (SIOCSHWTSTAMP (Some \<lparr>hc_flags = 0, hc_tx_type = Hwtstamp_tx_on, hc_rx_filter = Filter_ptp_v2_event\<rparr>)) True
     (snd (snd (mqnic_ndo_ioctl (SIOCSHWTSTAMP (Some \<lparr>hc_flags = 1, hc_tx_type = Hwtstamp_tx_on, hc_rx_filter = Filter_all\<rparr>)) True demo_nd)))) = 0"
proof -
  have ok: "hwts_ok (pv_hwts_config demo_nd)" by (simp add: demo_nd_def init_netdev_def hwts_ok_def)
  let ?reqs = "[(SIOCSHWTSTAMP (Some \<lparr>hc_flags = 1, hc_tx_type = Hwtstamp_tx_on, hc_rx_filter = Filter_all\<rparr>), True)]"
  from hwtstamp_requests_ok [OF ok refl [of "fold (\<lambda>(cmd, ok) nd. snd (snd (mqnic_ndo_ioctl cmd ok nd))) ?reqs demo_nd"],
      of "\<lparr>hc_flags = 0, hc_tx_type = Hwtstamp_tx_on, hc_rx_filter = Filter_ptp_v2_event\<rparr>" True] ok
  show ?thesis by (auto simp: hwts_accepts_def split: prod.splits)
qed

theorem stats_frozen_by_stop_witness:
  "\<exists>nd ifc s nd' ifc' s'. mqnic_open demo_nd demo_if quiet_world = Some (0, nd, ifc, s) \<and>
     mqnic_close nd ifc s = Some (0, nd', ifc', s') \<and>
     map_option fst (mqnic_get_stats64 demo_if nd') = map_option fst (mqnic_get_stats64 ifc nd)"
proof -
  obtain nd ifc s where o: "mqnic_open demo_nd demo_if quiet_world = Some (0, nd, ifc, s)" "nic_running 1500 nd ifc"
    using demo_running by blast
  then obtain nd' ifc' s' where c: "mqnic_close nd ifc s = Some (0, nd', ifc', s')"
    using stop_port_drained [of 1500 nd ifc s] by (auto simp: mqnic_close_def)
  with stats_frozen_by_stop [OF o(2) c, of demo_if] o show ?thesis by blast
qed

theorem start_port_needs_event_queues_witness:
  "mqnic_start_port (demo_nd\<lparr>pv_event_queue_count := 0\<rparr>) demo_if quiet_world = None"
  by (rule start_port_needs_event_queues) (simp_all add: demo_nd_def init_netdev_def demo_if_def)

definition demo_dev :: if_dev where
  "demo_dev = \<lparr>ifd_irq = [], ifd_csr_offset = 0, ifd_dev_port_max = 0, ifd_mac_count = 1, ifd_mac_list = [[2, 0, 0, 0, 0, 1]]\<rparr>"

definition demo_params :: mod_params where
  "demo_params = \<lparr>num_ev_queue_entries = 16, num_tx_queue_entries = 16, num_rx_queue_entries = 16\<rparr>"

text \<open>The same interface before its rings were allocated.\<close>

definition demo_if0 :: mqnic_if where
  "demo_if0 = demo_if\<lparr>if_tx_ring := [0 \<mapsto> demo_tx\<lparr>r_buf := None\<rparr>], if_rx_ring := [0 \<mapsto> demo_rx\<lparr>r_buf := None\<rparr>]\<rparr>"

theorem create_netdev_failure_faults_witness:
  "mqnic_create_netdev (\<lambda>_. True) [] demo_params demo_dev None 0 0 demo_if0 (quiet_world\<lparr>w_dma_alloc := \<lambda>_ _. None\<rparr>) = None"
proof -
  let ?s = "quiet_world\<lparr>w_dma_alloc := \<lambda>_ _. None\<rparr>"
  have k: "kzalloc ?s = (Some 0, emit (Kalloc 0) ?s)" by (simp add: kzalloc_def quiet_world_def)
  have m: "nd_mac (\<lambda>_. True) [] demo_dev 0 = Some [2, 0, 0, 0, 0, 1]" by (simp add: nd_mac_def demo_dev_def)
  have "\<exists>ifc s. nd_alloc_rings demo_params (init_netdev 0 demo_if0 0 0 [2, 0, 0, 0, 0, 1]) (demo_if0,
      kvoid ''netif_set_real_num_rx_queues'' [uint (if_rx_queue_count demo_if0)]
        (kvoid ''netif_set_real_num_tx_queues'' [uint (if_tx_queue_count demo_if0)] (emit (Kalloc 0) ?s))) = Some (- ENOMEM, ifc, s)"
    by (simp add: nd_alloc_rings_def nd_alloc_tx_def demo_if0_def demo_if_def init_netdev_def mqnic_alloc_tx_ring_def eseq_def Let_def
        dma_alloc_coherent_def kzalloc_def demo_tx_def zero_ring_def kvoid_def quiet_world_def)
  then obtain ifc s where a: "nd_alloc_rings demo_params (init_netdev 0 demo_if0 0 0 [2, 0, 0, 0, 0, 1]) (demo_if0,
      kvoid ''netif_set_real_num_rx_queues'' [uint (if_rx_queue_count demo_if0)]
        (kvoid ''netif_set_real_num_tx_queues'' [uint (if_tx_queue_count demo_if0)] (emit (Kalloc 0) ?s))) = Some (- ENOMEM, ifc, s)"
    by blast
  show ?thesis by (rule create_netdev_failure_faults [OF k m a]) simp
qed

lemma demo_rich: "rich quiet_world" "count_ok (num_tx_queue_entries demo_params)" "count_ok (num_rx_queue_entries demo_params)"
    "if_fresh demo_if0" "ifd_mac_count demo_dev \<le> int (length (ifd_mac_list demo_dev))"
  using quiet_world_pow2_lib
  by (simp_all add: rich_def roomy_def count_ok_def demo_params_def demo_dev_def) (simp_all add: quiet_world_def if_fresh_def demo_if0_def
     demo_if_def fresh_rings_def fresh_cqs_def fresh_ring_def demo_tx_def demo_rx_def zero_ring_def demo_cq_def)

theorem create_then_open_witness:
  "\<exists>nd ifc1 s1 nd' ifc' s'. mqnic_create_netdev (\<lambda>_. True) [] demo_params demo_dev None 0 0 demo_if0 quiet_world = Some (0, Some nd, ifc1, s1) \<and>
    nic_ready nd ifc1 \<and> mqnic_open nd ifc1 s1 = Some (0, nd', ifc', s') \<and> nic_running 1500 nd' ifc'"
  by (rule create_then_open [OF demo_rich(1-4) _ demo_rich(5)]) simp

theorem create_netdev_result_witness:
  "\<exists>nd ifc s. mqnic_create_netdev (\<lambda>_. True) [] demo_params demo_dev None 0 0 demo_if0 quiet_world = Some (0, Some nd, ifc, s) \<and>
     pv_registered nd \<and> nd_max_mtu nd = 9200 \<and> nd_min_mtu nd = 68 \<and> NETIF_F_RXCSUM \<in> nd_hw_features nd"
proof -
  obtain nd ifc s where c: "mqnic_create_netdev (\<lambda>_. True) [] demo_params demo_dev None 0 0 demo_if0 quiet_world = Some (0, Some nd, ifc, s)"
    "if_port ifc = if_port demo_if0" using create_netdev_rich [OF demo_rich(1-4) _ demo_rich(5), of 0 "\<lambda>_. True" "[]" 0] by auto
  from create_netdev_result [OF c(1) refl] c show ?thesis by (auto simp: demo_if0_def demo_if_def demo_port_def)
qed

end
