(* ===== verification/Iface.thy ===== *)
theory Iface
  imports NetdevLife
begin

text \<open>
  Interfaces (\<open>modules/mqnic/mqnic_if.c\<close>): reading what an interface offers, creating its rings, ports
  and network device, and tearing it all down. The lemmas account for kernel and DMA memory: what an
  interface and its device own is what was allocated and not freed.
\<close>

section \<open>Registers and limits\<close>

definition MAX_EVENT_RINGS :: nat where "MAX_EVENT_RINGS = 256"
definition MAX_TX_RINGS :: nat where "MAX_TX_RINGS = 8192"
definition MAX_TX_CPL_RINGS :: nat where "MAX_TX_CPL_RINGS = 8192"
definition MAX_RX_RINGS :: nat where "MAX_RX_RINGS = 8192"
definition MAX_RX_CPL_RINGS :: nat where "MAX_RX_CPL_RINGS = 8192"
definition MAX_PORTS :: nat where "MAX_PORTS = 8"

definition IF_REG_IF_ID :: addr where "IF_REG_IF_ID = 0x0000"
definition IF_REG_IF_FEATURES :: addr where "IF_REG_IF_FEATURES = 0x0004"
definition IF_REG_EVENT_QUEUE_COUNT :: addr where "IF_REG_EVENT_QUEUE_COUNT = 0x0010"
definition IF_REG_EVENT_QUEUE_OFFSET :: addr where "IF_REG_EVENT_QUEUE_OFFSET = 0x0014"
definition IF_REG_TX_QUEUE_COUNT :: addr where "IF_REG_TX_QUEUE_COUNT = 0x0020"
definition IF_REG_TX_QUEUE_OFFSET :: addr where "IF_REG_TX_QUEUE_OFFSET = 0x0024"
definition IF_REG_TX_CPL_QUEUE_COUNT :: addr where "IF_REG_TX_CPL_QUEUE_COUNT = 0x0028"
definition IF_REG_TX_CPL_QUEUE_OFFSET :: addr where "IF_REG_TX_CPL_QUEUE_OFFSET = 0x002C"
definition IF_REG_RX_QUEUE_COUNT :: addr where "IF_REG_RX_QUEUE_COUNT = 0x0030"
definition IF_REG_RX_QUEUE_OFFSET :: addr where "IF_REG_RX_QUEUE_OFFSET = 0x0034"
definition IF_REG_RX_CPL_QUEUE_COUNT :: addr where "IF_REG_RX_CPL_QUEUE_COUNT = 0x0038"
definition IF_REG_RX_CPL_QUEUE_OFFSET :: addr where "IF_REG_RX_CPL_QUEUE_OFFSET = 0x003C"
definition IF_REG_PORT_COUNT :: addr where "IF_REG_PORT_COUNT = 0x0040"
definition IF_REG_PORT_OFFSET :: addr where "IF_REG_PORT_OFFSET = 0x0044"
definition IF_REG_PORT_STRIDE :: addr where "IF_REG_PORT_STRIDE = 0x0048"
definition QUEUE_STRIDE :: nat where "QUEUE_STRIDE = 0x20"
definition CPL_QUEUE_STRIDE :: nat where "CPL_QUEUE_STRIDE = 0x20"
definition EVENT_QUEUE_STRIDE :: nat where "EVENT_QUEUE_STRIDE = 0x20"

section \<open>Creating an interface\<close>

text \<open>The counts and offsets, each count cut to the size of its array.\<close>

definition read_interface :: "if_dev \<Rightarrow> nat \<Rightarrow> nat \<Rightarrow> addr \<Rightarrow> sys \<Rightarrow> mqnic_if \<times> sys" where
  "read_interface dev m index hw s =
    (let csr = hw + ucast (ifd_csr_offset dev)
     in case ioreads [csr + IF_REG_IF_ID, csr + IF_REG_IF_FEATURES,
          csr + IF_REG_EVENT_QUEUE_COUNT, csr + IF_REG_EVENT_QUEUE_OFFSET,
          csr + IF_REG_TX_QUEUE_COUNT, csr + IF_REG_TX_QUEUE_OFFSET,
          csr + IF_REG_TX_CPL_QUEUE_COUNT, csr + IF_REG_TX_CPL_QUEUE_OFFSET,
          csr + IF_REG_RX_QUEUE_COUNT, csr + IF_REG_RX_QUEUE_OFFSET,
          csr + IF_REG_RX_CPL_QUEUE_COUNT, csr + IF_REG_RX_CPL_QUEUE_OFFSET,
          csr + IF_REG_PORT_COUNT, csr + IF_REG_PORT_OFFSET, csr + IF_REG_PORT_STRIDE] s of (v, s) \<Rightarrow>
        (\<lparr>if_mem = m, if_index = index, if_dev_port_base = 0, if_dev_port_max = 0, if_id = v ! 0, if_features = v ! 1,
          if_event_queue_count = min (v ! 2) (of_nat MAX_EVENT_RINGS), if_event_queue_offset = v ! 3, if_event_ring = Map.empty,
          if_tx_queue_count = min (v ! 4) (of_nat MAX_TX_RINGS), if_tx_queue_offset = v ! 5, if_tx_ring = Map.empty,
          if_tx_cpl_queue_count = min (v ! 6) (of_nat MAX_TX_CPL_RINGS), if_tx_cpl_queue_offset = v ! 7, if_tx_cpl_ring = Map.empty,
          if_rx_queue_count = min (v ! 8) (of_nat MAX_RX_RINGS), if_rx_queue_offset = v ! 9, if_rx_ring = Map.empty,
          if_rx_cpl_queue_count = min (v ! 10) (of_nat MAX_RX_CPL_RINGS), if_rx_cpl_queue_offset = v ! 11, if_rx_cpl_ring = Map.empty,
          if_port_count = min (v ! 12) (of_nat MAX_PORTS), if_port_offset = v ! 13, if_port_stride = v ! 14, if_port = Map.empty,
          if_max_desc_block_size = 0, if_hw_addr = hw, if_csr_hw_addr = csr,
          if_mod_i2c_client = None\<rparr>, s))"

text \<open>The largest descriptor block: the hardware clips the field written to the first transmit queue.\<close>

definition probe_block_size :: "mqnic_if \<Rightarrow> sys \<Rightarrow> mqnic_if \<times> sys" where
  "probe_block_size ifc s =
    (let reg = if_hw_addr ifc + ucast (if_tx_queue_offset ifc) + ACTIVE_LOG_SIZE_REG;
         s = iowrite32 0xf00 reg s;
         (v, s) = ioread32 reg s;
         s = iowrite32 0 reg s
     in (ifc\<lparr>if_max_desc_block_size := min (push_bit (unat (drop_bit 8 v AND 0xf)) 1) (of_nat MQNIC_MAX_FRAGS)\<rparr>, s))"

text \<open>Creating, allocating and starting one event ring; the result of the activation is not looked at.\<close>

definition if_create_eq :: "mod_params \<Rightarrow> if_dev \<Rightarrow> nat \<Rightarrow> mqnic_if \<times> sys \<Rightarrow> (int \<times> mqnic_if \<times> sys) option" where
  "if_create_eq mp dev k w = (case w of (ifc, s) \<Rightarrow>
     case mqnic_create_eq_ring (int k) (if_hw_addr ifc + ucast (if_event_queue_offset ifc) + of_nat (k * EVENT_QUEUE_STRIDE)) s of
       (e, None, s) \<Rightarrow> Some (e, ifc, s)
     | (e, Some ring, s) \<Rightarrow>
       case mqnic_alloc_eq_ring ring (num_ev_queue_entries mp) EVENT_SIZE s of (e, ring, s) \<Rightarrow>
         if e \<noteq> 0 then Some (e, ifc\<lparr>if_event_ring := (if_event_ring ifc)(k \<mapsto> ring)\<rparr>, s)
         else if ifd_irq dev = [] then None
         else case mqnic_activate_eq_ring ring (Some (ifd_irq dev ! (k mod length (ifd_irq dev)))) s of (_, ring, s) \<Rightarrow>
           Some (0, ifc\<lparr>if_event_ring := (if_event_ring ifc)(k \<mapsto> ring)\<rparr>, mqnic_arm_eq ring s))"

definition if_create_tx :: "nat \<Rightarrow> mqnic_if \<times> sys \<Rightarrow> (int \<times> mqnic_if \<times> sys) option" where
  "if_create_tx k w = (case w of (ifc, s) \<Rightarrow>
     case mqnic_create_tx_ring (int k) (if_hw_addr ifc + ucast (if_tx_queue_offset ifc) + of_nat (k * QUEUE_STRIDE)) s of
       (e, None, s) \<Rightarrow> Some (e, ifc, s)
     | (e, Some ring, s) \<Rightarrow> Some (e, ifc\<lparr>if_tx_ring := (if_tx_ring ifc)(k \<mapsto> ring)\<rparr>, s))"

definition if_create_tx_cpl :: "nat \<Rightarrow> mqnic_if \<times> sys \<Rightarrow> (int \<times> mqnic_if \<times> sys) option" where
  "if_create_tx_cpl k w = (case w of (ifc, s) \<Rightarrow>
     case mqnic_create_cq_ring (int k) (if_hw_addr ifc + ucast (if_tx_cpl_queue_offset ifc) + of_nat (k * CPL_QUEUE_STRIDE)) s of
       (e, None, s) \<Rightarrow> Some (e, ifc, s)
     | (e, Some ring, s) \<Rightarrow> Some (e, ifc\<lparr>if_tx_cpl_ring := (if_tx_cpl_ring ifc)(k \<mapsto> ring)\<rparr>, s))"

definition if_create_rx :: "nat \<Rightarrow> mqnic_if \<times> sys \<Rightarrow> (int \<times> mqnic_if \<times> sys) option" where
  "if_create_rx k w = (case w of (ifc, s) \<Rightarrow>
     case mqnic_create_rx_ring (int k) (if_hw_addr ifc + ucast (if_rx_queue_offset ifc) + of_nat (k * QUEUE_STRIDE)) s of
       (e, None, s) \<Rightarrow> Some (e, ifc, s)
     | (e, Some ring, s) \<Rightarrow> Some (e, ifc\<lparr>if_rx_ring := (if_rx_ring ifc)(k \<mapsto> ring)\<rparr>, s))"

definition if_create_rx_cpl :: "nat \<Rightarrow> mqnic_if \<times> sys \<Rightarrow> (int \<times> mqnic_if \<times> sys) option" where
  "if_create_rx_cpl k w = (case w of (ifc, s) \<Rightarrow>
     case mqnic_create_cq_ring (int k) (if_hw_addr ifc + ucast (if_rx_cpl_queue_offset ifc) + of_nat (k * CPL_QUEUE_STRIDE)) s of
       (e, None, s) \<Rightarrow> Some (e, ifc, s)
     | (e, Some ring, s) \<Rightarrow> Some (e, ifc\<lparr>if_rx_cpl_ring := (if_rx_cpl_ring ifc)(k \<mapsto> ring)\<rparr>, s))"

definition if_create_port :: "nat \<Rightarrow> mqnic_if \<times> sys \<Rightarrow> (int \<times> mqnic_if \<times> sys) option" where
  "if_create_port k w = (case w of (ifc, s) \<Rightarrow>
     case mqnic_create_port (if_tx_queue_count ifc) k
         (if_hw_addr ifc + ucast (if_port_offset ifc) + ucast (of_nat k * if_port_stride ifc)) s of
       (e, None, s) \<Rightarrow> Some (e, ifc, s)
     | (e, Some port, s) \<Rightarrow> Some (e, ifc\<lparr>if_port := (if_port ifc)(k \<mapsto> port)\<rparr>, s))"

definition if_create_parts :: "mod_params \<Rightarrow> if_dev \<Rightarrow> mqnic_if \<times> sys \<Rightarrow> (int \<times> mqnic_if \<times> sys) option" where
  "if_create_parts mp dev w =
    eseq (efold (if_create_eq mp dev) [0..<unat (if_event_queue_count (fst w))] w)
      (\<lambda>w. eseq (efold if_create_tx [0..<unat (if_tx_queue_count (fst w))] w)
      (\<lambda>w. eseq (efold if_create_tx_cpl [0..<unat (if_tx_cpl_queue_count (fst w))] w)
      (\<lambda>w. eseq (efold if_create_rx [0..<unat (if_rx_queue_count (fst w))] w)
      (\<lambda>w. eseq (efold if_create_rx_cpl [0..<unat (if_rx_cpl_queue_count (fst w))] w)
      (\<lambda>w. efold if_create_port [0..<unat (if_port_count (fst w))] w)))))"

section \<open>Destroying an interface\<close>

definition if_destroy_eq :: "nat \<Rightarrow> mqnic_if \<times> sys \<Rightarrow> (mqnic_if \<times> sys) option" where
  "if_destroy_eq k w = (case w of (ifc, s) \<Rightarrow>
     case if_event_ring ifc k of
       None \<Rightarrow> Some (ifc, s)
     | Some ring \<Rightarrow> (case mqnic_destroy_eq_ring ring s of (p, s) \<Rightarrow>
         Some (ifc\<lparr>if_event_ring := (if_event_ring ifc)(k := p)\<rparr>, s)))"

definition if_destroy_tx :: "nat \<Rightarrow> mqnic_if \<times> sys \<Rightarrow> (mqnic_if \<times> sys) option" where
  "if_destroy_tx k w = (case w of (ifc, s) \<Rightarrow>
     case if_tx_ring ifc k of
       None \<Rightarrow> Some (ifc, s)
     | Some ring \<Rightarrow> do {
         (cqs, s) \<leftarrow> mqnic_destroy_tx_ring ring (heap_of (if_tx_cpl_ring ifc)) s;
         Some (ifc\<lparr>if_tx_ring := (if_tx_ring ifc)(k := None), if_tx_cpl_ring := of_heap (if_tx_cpl_ring ifc) cqs\<rparr>, s) })"

definition if_destroy_tx_cpl :: "nat \<Rightarrow> mqnic_if \<times> sys \<Rightarrow> (mqnic_if \<times> sys) option" where
  "if_destroy_tx_cpl k w = (case w of (ifc, s) \<Rightarrow>
     case if_tx_cpl_ring ifc k of
       None \<Rightarrow> Some (ifc, s)
     | Some ring \<Rightarrow> (case mqnic_destroy_cq_ring ring s of (p, s) \<Rightarrow>
         Some (ifc\<lparr>if_tx_cpl_ring := (if_tx_cpl_ring ifc)(k := p)\<rparr>, s)))"

definition if_destroy_rx :: "nat \<Rightarrow> mqnic_if \<times> sys \<Rightarrow> (mqnic_if \<times> sys) option" where
  "if_destroy_rx k w = (case w of (ifc, s) \<Rightarrow>
     case if_rx_ring ifc k of
       None \<Rightarrow> Some (ifc, s)
     | Some ring \<Rightarrow> do {
         (cqs, s) \<leftarrow> mqnic_destroy_rx_ring ring (heap_of (if_rx_cpl_ring ifc)) s;
         Some (ifc\<lparr>if_rx_ring := (if_rx_ring ifc)(k := None), if_rx_cpl_ring := of_heap (if_rx_cpl_ring ifc) cqs\<rparr>, s) })"

definition if_destroy_rx_cpl :: "nat \<Rightarrow> mqnic_if \<times> sys \<Rightarrow> (mqnic_if \<times> sys) option" where
  "if_destroy_rx_cpl k w = (case w of (ifc, s) \<Rightarrow>
     case if_rx_cpl_ring ifc k of
       None \<Rightarrow> Some (ifc, s)
     | Some ring \<Rightarrow> (case mqnic_destroy_cq_ring ring s of (p, s) \<Rightarrow>
         Some (ifc\<lparr>if_rx_cpl_ring := (if_rx_cpl_ring ifc)(k := p)\<rparr>, s)))"

definition if_destroy_port :: "nat \<Rightarrow> mqnic_if \<times> sys \<Rightarrow> (mqnic_if \<times> sys) option" where
  "if_destroy_port k w = (case w of (ifc, s) \<Rightarrow>
     case if_port ifc k of
       None \<Rightarrow> Some (ifc, s)
     | Some port \<Rightarrow> Some (ifc\<lparr>if_port := (if_port ifc)(k := None)\<rparr>, mqnic_destroy_port port s))"

definition mqnic_destroy_interface :: "mqnic_if \<Rightarrow> net_device option \<Rightarrow> sys \<Rightarrow> sys option" where
  "mqnic_destroy_interface ifc nd s = do {
     (ifc, s) \<leftarrow> (case nd of None \<Rightarrow> Some (ifc, s) | Some _ \<Rightarrow> mqnic_destroy_netdev nd ifc s);
     w \<leftarrow> ofold if_destroy_eq [0..<MAX_EVENT_RINGS] (ifc, s);
     w \<leftarrow> ofold if_destroy_tx [0..<MAX_TX_RINGS] w;
     w \<leftarrow> ofold if_destroy_tx_cpl [0..<MAX_TX_CPL_RINGS] w;
     w \<leftarrow> ofold if_destroy_rx [0..<MAX_RX_RINGS] w;
     w \<leftarrow> ofold if_destroy_rx_cpl [0..<MAX_RX_CPL_RINGS] w;
     (ifc, s) \<leftarrow> ofold if_destroy_port [0..<MAX_PORTS] w;
     Some (emit (Kfree (if_mem ifc)) s) }"

text \<open>
  The result is the error code and the interface with its network device, or nothing after a failure.
  The one network device gets the next device port.
\<close>

definition mqnic_create_interface ::
    "(u8 list \<Rightarrow> bool) \<Rightarrow> u8 list \<Rightarrow> mod_params \<Rightarrow> if_dev \<Rightarrow> nat \<Rightarrow> addr \<Rightarrow> sys \<Rightarrow>
      (int \<times> (mqnic_if \<times> net_device option) option \<times> sys) option" where
  "mqnic_create_interface valid rnd mp dev index hw s =
    (case kzalloc s of
       (None, s) \<Rightarrow> Some (- ENOMEM, None, s)
     | (Some m, s) \<Rightarrow> do {
         let (ifc, s) = read_interface dev m index hw s;
         let (ifc, s) = probe_block_size ifc s;
         (e, ifc, s) \<leftarrow> if_create_parts mp dev (ifc, s);
         (if e \<noteq> 0 then do { s \<leftarrow> mqnic_destroy_interface ifc None s; Some (e, None, s) }
          else do {
            let ifc = ifc\<lparr>if_dev_port_base := ifd_dev_port_max dev, if_dev_port_max := ifd_dev_port_max dev + 1\<rparr>;
            (e, nd, ifc, s) \<leftarrow> mqnic_create_netdev valid rnd mp dev None 0 (ifd_dev_port_max dev) ifc s;
            (if e \<noteq> 0 then do { s \<leftarrow> mqnic_destroy_interface ifc nd s; Some (e, None, s) }
             else Some (0, Some (ifc, nd), s)) }) })"

section \<open>Kernel and DMA memory\<close>

text \<open>What a ring, a completion queue, an event queue and a port own.\<close>

definition own_ring :: "res \<Rightarrow> mqnic_ring \<Rightarrow> int" where
  "own_ring x r = of_bool (x = Mem (r_mem r)) + (if r_buf r = None then 0 else of_bool (x = Dma (r_buf_dma_addr r) (r_buf_size r)) +
     (case r_info_mem r of None \<Rightarrow> 0 | Some m \<Rightarrow> of_bool (x = Mem m)))"

definition own_cq :: "res \<Rightarrow> mqnic_cq_ring \<Rightarrow> int" where
  "own_cq x r = of_bool (x = Mem (cq_mem r)) + (if cq_buf r = None then 0 else of_bool (x = Dma (cq_buf_dma_addr r) (cq_buf_size r)))"

definition own_eq :: "res \<Rightarrow> mqnic_eq_ring \<Rightarrow> int" where
  "own_eq x r = of_bool (x = Mem (eq_mem r)) + (if eq_buf r = None then 0 else of_bool (x = Dma (eq_buf_dma_addr r) (eq_buf_size r)))"

definition own_port :: "res \<Rightarrow> mqnic_port \<Rightarrow> int" where
  "own_port x p = of_bool (x = Mem (port_mem p))"

text \<open>An interface, with the arrays of its rings.\<close>

definition own_if :: "res \<Rightarrow> mqnic_if \<Rightarrow> int" where
  "own_if x i = of_bool (x = Mem (if_mem i)) + owns (own_eq x) MAX_EVENT_RINGS (if_event_ring i) +
     owns (own_ring x) MAX_TX_RINGS (if_tx_ring i) + owns (own_cq x) MAX_TX_CPL_RINGS (if_tx_cpl_ring i) +
     owns (own_ring x) MAX_RX_RINGS (if_rx_ring i) + owns (own_cq x) MAX_RX_CPL_RINGS (if_rx_cpl_ring i) +
     owns (own_port x) MAX_PORTS (if_port i)"

definition own_nd :: "res \<Rightarrow> net_device option \<Rightarrow> int" where
  "own_nd x nd = (case nd of None \<Rightarrow> 0 | Some d \<Rightarrow> of_bool (x = Mem (nd_mem d)))"

section \<open>What the ring operations do to it\<close>

lemma create_eq_bal:
  "mqnic_create_eq_ring i hw s = (e, p, s') \<Longrightarrow> bal (trace s') x = bal (trace s) x + (case p of None \<Rightarrow> 0 | Some r \<Rightarrow> own_eq x r)"
  using bal_kz [of s x] by (cases "kzalloc s") (auto simp: mqnic_create_eq_ring_def own_eq_def split: option.splits)

lemma create_cq_bal:
  "mqnic_create_cq_ring i hw s = (e, p, s') \<Longrightarrow> bal (trace s') x = bal (trace s) x + (case p of None \<Rightarrow> 0 | Some r \<Rightarrow> own_cq x r)"
  using bal_kz [of s x] by (cases "kzalloc s") (auto simp: mqnic_create_cq_ring_def own_cq_def split: option.splits)

lemma create_tx_bal:
  "mqnic_create_tx_ring i hw s = (e, p, s') \<Longrightarrow> bal (trace s') x = bal (trace s) x + (case p of None \<Rightarrow> 0 | Some r \<Rightarrow> own_ring x r)"
  using bal_kz [of s x] by (cases "kzalloc s") (auto simp: mqnic_create_tx_ring_def own_ring_def zero_ring_def split: option.splits)

lemma create_rx_bal:
  "mqnic_create_rx_ring i hw s = (e, p, s') \<Longrightarrow> bal (trace s') x = bal (trace s) x + (case p of None \<Rightarrow> 0 | Some r \<Rightarrow> own_ring x r)"
  using bal_kz [of s x] by (cases "kzalloc s") (auto simp: mqnic_create_rx_ring_def own_ring_def zero_ring_def split: option.splits)

lemma create_port_bal:
  "mqnic_create_port t i hw s = (e, p, s') \<Longrightarrow> bal (trace s') x = bal (trace s) x + (case p of None \<Rightarrow> 0 | Some r \<Rightarrow> own_port x r)"
  using bal_kz [of s x]
  by (cases "kzalloc s") (auto simp: mqnic_create_port_def own_port_def mqnic_deactivate_port_def ioread32_def Let_def split: option.splits)

lemma alloc_eq_shape:
  assumes "mqnic_alloc_eq_ring r n st s = (e, r', s')"
  shows "\<exists>p t ws. dma_alloc_coherent (eq_buf_size r') s = (p, t) \<and> eq_mem r' = eq_mem r \<and> s' = iowrites ws t \<and>
    eq_buf r' = map_option fst p \<and> (p \<noteq> None \<longrightarrow> eq_buf_dma_addr r' = snd (the p)) \<and> (e = 0 \<longleftrightarrow> p \<noteq> None)"
proof -
  let ?n = "ucast (ucast (w_roundup_pow_of_two s (word_of_int n)) * ucast (w_roundup_pow_of_two s (word_of_int st)) :: u32) :: u64"
  obtain p t where d: "dma_alloc_coherent ?n s = (p, t)" by force
  show ?thesis
  proof (cases p)
    case None
    note a = assms [unfolded mqnic_alloc_eq_ring_def Let_def, simplified, simplified d None, simplified]
    show ?thesis using a by (intro exI [of _ p] exI [of _ t] exI [of _ "[]"]) (auto simp: d None)
  next
    case (Some q)
    obtain a b where p: "p = Some (a, b)" using Some by (cases q) simp
    let ?sz = "ucast (w_roundup_pow_of_two s (word_of_int n)) :: u32"
    have "\<exists>ws. e = 0 \<and> r' = r\<lparr>eq_size := ?sz, eq_size_mask := ?sz - 1, eq_stride := ucast (w_roundup_pow_of_two s (word_of_int st)),
        eq_buf_size := ?n, eq_buf := Some a, eq_buf_dma_addr := b, eq_head_ptr := 0, eq_tail_ptr := 0\<rparr> \<and> s' = iowrites ws t"
      using assms by (auto simp: mqnic_alloc_eq_ring_def Let_def d p simp del: iowrites_Cons)
    then obtain ws where f: "e = 0" "r' = r\<lparr>eq_size := ?sz, eq_size_mask := ?sz - 1, eq_stride := ucast (w_roundup_pow_of_two s (word_of_int st)),
        eq_buf_size := ?n, eq_buf := Some a, eq_buf_dma_addr := b, eq_head_ptr := 0, eq_tail_ptr := 0\<rparr>" "s' = iowrites ws t" by blast
    show ?thesis unfolding f by (intro exI [of _ p] exI [of _ t] exI [of _ ws]) (simp add: d p)
  qed
qed

lemma alloc_cq_shape:
  assumes "mqnic_alloc_cq_ring r n st s = (e, r', s')"
  shows "\<exists>p t ws. dma_alloc_coherent (cq_buf_size r') s = (p, t) \<and> cq_mem r' = cq_mem r \<and> s' = iowrites ws t \<and>
    cq_buf r' = map_option fst p \<and> (p \<noteq> None \<longrightarrow> cq_buf_dma_addr r' = snd (the p)) \<and> (e = 0 \<longleftrightarrow> p \<noteq> None)"
proof -
  let ?n = "ucast (ucast (w_roundup_pow_of_two s (word_of_int n)) * ucast (w_roundup_pow_of_two s (word_of_int st)) :: u32) :: u64"
  obtain p t where d: "dma_alloc_coherent ?n s = (p, t)" by force
  show ?thesis
  proof (cases p)
    case None
    note a = assms [unfolded mqnic_alloc_cq_ring_def Let_def, simplified, simplified d None, simplified]
    show ?thesis using a by (intro exI [of _ p] exI [of _ t] exI [of _ "[]"]) (auto simp: d None)
  next
    case (Some q)
    obtain a b where p: "p = Some (a, b)" using Some by (cases q) simp
    let ?sz = "ucast (w_roundup_pow_of_two s (word_of_int n)) :: u32"
    have "\<exists>ws. e = 0 \<and> r' = r\<lparr>cq_size := ?sz, cq_size_mask := ?sz - 1, cq_stride := ucast (w_roundup_pow_of_two s (word_of_int st)),
        cq_buf_size := ?n, cq_buf := Some a, cq_buf_dma_addr := b, cq_head_ptr := 0, cq_tail_ptr := 0\<rparr> \<and> s' = iowrites ws t"
      using assms by (auto simp: mqnic_alloc_cq_ring_def Let_def d p simp del: iowrites_Cons)
    then obtain ws where f: "e = 0" "r' = r\<lparr>cq_size := ?sz, cq_size_mask := ?sz - 1, cq_stride := ucast (w_roundup_pow_of_two s (word_of_int st)),
        cq_buf_size := ?n, cq_buf := Some a, cq_buf_dma_addr := b, cq_head_ptr := 0, cq_tail_ptr := 0\<rparr>" "s' = iowrites ws t" by blast
    show ?thesis unfolding f by (intro exI [of _ p] exI [of _ t] exI [of _ ws]) (simp add: d p)
  qed
qed

lemma alloc_eq_bal:
  assumes a: "mqnic_alloc_eq_ring r n st s = (e, r', s')" and b: "eq_buf r = None"
  shows "bal (trace s') x + own_eq x r = bal (trace s) x + own_eq x r'"
proof -
  obtain p t ws where p: "dma_alloc_coherent (eq_buf_size r') s = (p, t)" "eq_mem r' = eq_mem r" "s' = iowrites ws t"
    "eq_buf r' = map_option fst p" "p \<noteq> None \<longrightarrow> eq_buf_dma_addr r' = snd (the p)"
    using alloc_eq_shape [OF a] by blast
  with b bal_dma_alloc [OF p(1), of x] show ?thesis by (cases p) (auto simp: own_eq_def)
qed

lemma alloc_cq_bal:
  assumes a: "mqnic_alloc_cq_ring r n st s = (e, r', s')" and b: "cq_buf r = None"
  shows "bal (trace s') x + own_cq x r = bal (trace s) x + own_cq x r'"
proof -
  obtain p t ws where p: "dma_alloc_coherent (cq_buf_size r') s = (p, t)" "cq_mem r' = cq_mem r" "s' = iowrites ws t"
    "cq_buf r' = map_option fst p" "p \<noteq> None \<longrightarrow> cq_buf_dma_addr r' = snd (the p)"
    using alloc_cq_shape [OF a] by blast
  with b bal_dma_alloc [OF p(1), of x] show ?thesis by (cases p) (auto simp: own_cq_def)
qed

lemma alloc_tx_shape:
  assumes "mqnic_alloc_tx_ring r n st s = (0, r', s')"
  shows "\<exists>m t b d u ws. kzalloc s = (Some m, t) \<and> dma_alloc_coherent (r_buf_size r') t = (Some (b, d), u) \<and> s' = iowrites ws u \<and>
    r_mem r' = r_mem r \<and> r_buf r = None \<and> r_buf r' = Some b \<and> r_buf_dma_addr r' = d \<and> r_info_mem r' = Some m"
proof -
  let ?sz = "ucast (w_roundup_pow_of_two s (word_of_int n)) :: u32" and ?st = "ucast (w_roundup_pow_of_two s (word_of_int st)) :: u32"
  let ?n = "ucast (?sz * ?st) :: u64"
  obtain k t where k: "kzalloc s = (k, t)" by force
  obtain p u where d: "dma_alloc_coherent ?n t = (p, u)" by force
  have nb: "\<not> r_active r" "r_buf r = None" using assms by (auto simp: mqnic_alloc_tx_ring_def split: if_split_asm)
  obtain m where m: "k = Some m" using assms nb by (cases k) (simp_all add: mqnic_alloc_tx_ring_def k Let_def)
  obtain a b where p: "p = Some (a, b)"
    using assms nb m by (cases p) (auto simp: mqnic_alloc_tx_ring_def k d Let_def)
  let ?r = "r\<lparr>r_size := ?sz, r_full_size := drop_bit 1 ?sz, r_size_mask := ?sz - 1, r_stride := ?st, r_log_desc_block_size := log_block s ?st,
      r_desc_block_size := push_bit (unat (log_block s ?st)) 1, r_tx_info := replicate (unat ?sz) zero_tx_info, r_info_mem := Some m,
      r_buf_size := ?n, r_buf := Some a, r_buf_dma_addr := b, r_head_ptr := 0, r_tail_ptr := 0, r_clean_tail_ptr := 0\<rparr>"
  have "\<exists>ws. r' = ?r \<and> s' = iowrites ws u"
    using assms nb by (auto simp: mqnic_alloc_tx_ring_def Let_def k m d p simp del: iowrites_Cons)
  then obtain ws where f: "r' = ?r" "s' = iowrites ws u" by blast
  show ?thesis unfolding f
    by (intro exI [of _ m] exI [of _ t] exI [of _ a] exI [of _ b] exI [of _ u] exI [of _ ws]) (simp add: k m d p nb)
qed

lemma alloc_tx_bal:
  assumes a: "mqnic_alloc_tx_ring r n st s = (0, r', s')"
  shows "bal (trace s') x + own_ring x r = bal (trace s) x + own_ring x r'"
proof -
  obtain m t b d u ws where p: "kzalloc s = (Some m, t)" "dma_alloc_coherent (r_buf_size r') t = (Some (b, d), u)" "s' = iowrites ws u"
    "r_mem r' = r_mem r" "r_buf r = None" "r_buf r' = Some b" "r_buf_dma_addr r' = d" "r_info_mem r' = Some m"
    using alloc_tx_shape [OF a] by blast
  with bal_dma_alloc [OF p(2), of x] bal_kzalloc [OF p(1), of x] show ?thesis by (simp add: own_ring_def)
qed

lemma alloc_rx_shape:
  assumes "mqnic_alloc_rx_ring r n st s = (0, r', s')"
  shows "\<exists>m t b d u ws. kzalloc s = (Some m, t) \<and> dma_alloc_coherent (r_buf_size r') t = (Some (b, d), u) \<and> s' = iowrites ws u \<and>
    r_mem r' = r_mem r \<and> r_buf r = None \<and> r_buf r' = Some b \<and> r_buf_dma_addr r' = d \<and> r_info_mem r' = Some m"
proof -
  let ?sz = "ucast (w_roundup_pow_of_two s (word_of_int n)) :: u32" and ?st = "ucast (w_roundup_pow_of_two s (word_of_int st)) :: u32"
  let ?n = "ucast (?sz * ?st) :: u64"
  obtain k t where k: "kzalloc s = (k, t)" by force
  obtain p u where d: "dma_alloc_coherent ?n t = (p, u)" by force
  have nb: "\<not> r_active r" "r_buf r = None" using assms by (auto simp: mqnic_alloc_rx_ring_def split: if_split_asm)
  obtain m where m: "k = Some m" using assms nb by (cases k) (simp_all add: mqnic_alloc_rx_ring_def k Let_def)
  obtain a b where p: "p = Some (a, b)"
    using assms nb m by (cases p) (auto simp: mqnic_alloc_rx_ring_def k d Let_def)
  let ?r = "r\<lparr>r_size := ?sz, r_size_mask := ?sz - 1, r_stride := ?st, r_log_desc_block_size := log_block s ?st,
      r_desc_block_size := push_bit (unat (log_block s ?st)) 1, r_rx_info := replicate (unat ?sz) zero_rx_info, r_info_mem := Some m,
      r_buf_size := ?n, r_buf := Some a, r_buf_dma_addr := b, r_head_ptr := 0, r_tail_ptr := 0, r_clean_tail_ptr := 0\<rparr>"
  have "\<exists>ws. r' = ?r \<and> s' = iowrites ws u"
    using assms nb by (auto simp: mqnic_alloc_rx_ring_def Let_def k m d p simp del: iowrites_Cons)
  then obtain ws where f: "r' = ?r" "s' = iowrites ws u" by blast
  show ?thesis unfolding f
    by (intro exI [of _ m] exI [of _ t] exI [of _ a] exI [of _ b] exI [of _ u] exI [of _ ws]) (simp add: k m d p nb)
qed

lemma alloc_rx_bal:
  assumes a: "mqnic_alloc_rx_ring r n st s = (0, r', s')"
  shows "bal (trace s') x + own_ring x r = bal (trace s) x + own_ring x r'"
proof -
  obtain m t b d u ws where p: "kzalloc s = (Some m, t)" "dma_alloc_coherent (r_buf_size r') t = (Some (b, d), u)" "s' = iowrites ws u"
    "r_mem r' = r_mem r" "r_buf r = None" "r_buf r' = Some b" "r_buf_dma_addr r' = d" "r_info_mem r' = Some m"
    using alloc_rx_shape [OF a] by blast
  with bal_dma_alloc [OF p(2), of x] bal_kzalloc [OF p(1), of x] show ?thesis by (simp add: own_ring_def)
qed

lemma activate_eq_bal:
  "mqnic_activate_eq_ring r irq s = (e, r', s') \<Longrightarrow> bal (trace s') x = bal (trace s) x \<and> own_eq x r' = own_eq x r"
  by (auto simp: mqnic_activate_eq_ring_def mqnic_deactivate_eq_ring_def own_eq_def Let_def
      split: option.splits if_splits simp del: iowrites_Cons)

lemma arm_eq_bal [simp]: "bal (trace (mqnic_arm_eq r s)) x = bal (trace s) x"
  by (simp add: mqnic_arm_eq_def)

lemma destroy_eq_bal: "mqnic_destroy_eq_ring r s = (p, s') \<Longrightarrow> p = None \<and> bal (trace s') x = bal (trace s) x - own_eq x r"
  by (auto simp: mqnic_destroy_eq_ring_def mqnic_free_eq_ring_def mqnic_deactivate_eq_ring_def own_eq_def Let_def
      split: option.splits if_splits simp del: iowrites_Cons)

lemma free_cq_bal:
  assumes "mqnic_free_cq_ring r s = (r', s')"
  shows "bal (trace s') x + own_cq x r = bal (trace s) x + own_cq x r'"
proof (cases "cq_buf r")
  case None
  then have "r' = r\<lparr>cq_eq_ring := None, cq_active := False\<rparr>" "bal (trace s') x = bal (trace s) x"
    using assms by (auto simp: mqnic_free_cq_ring_def mqnic_deactivate_cq_ring_def simp del: iowrites_Cons)
  with None show ?thesis by (simp add: own_cq_def)
next
  case (Some b)
  then have "r' = r\<lparr>cq_eq_ring := None, cq_active := False, cq_buf := None, cq_buf_dma_addr := 0\<rparr>"
    "bal (trace s') x = bal (trace s) x - of_bool (x = Dma (cq_buf_dma_addr r) (cq_buf_size r))"
    using assms by (auto simp: mqnic_free_cq_ring_def mqnic_deactivate_cq_ring_def simp del: iowrites_Cons)
  with Some show ?thesis by (simp add: own_cq_def)
qed

lemma destroy_cq_bal: "mqnic_destroy_cq_ring r s = (p, s') \<Longrightarrow> p = None \<and> bal (trace s') x = bal (trace s) x - own_cq x r"
  by (auto simp: mqnic_destroy_cq_ring_def mqnic_free_cq_ring_def mqnic_deactivate_cq_ring_def own_cq_def Let_def
      split: option.splits if_splits simp del: iowrites_Cons)

lemma own_cq_irq [simp]: "own_cq x (cq\<lparr>cq_src_ring := a, cq_handler := b\<rparr>) = own_cq x cq"
  by (simp add: own_cq_def)

lemma unmap_frags_bal [simp]: "bal (trace (unmap_frags ti s)) x = bal (trace s) x"
proof -
  have "bal (trace (fold (\<lambda>(a, l). emit (DmaUnmapPage a l)) fs s)) x = bal (trace s) x" for fs
    by (induction fs arbitrary: s) auto
  then show ?thesis by (simp add: unmap_frags_def)
qed

definition same_bufs :: "mqnic_ring \<Rightarrow> mqnic_ring \<Rightarrow> bool" where
  "same_bufs r r' \<longleftrightarrow> r_mem r' = r_mem r \<and> r_buf r' = r_buf r \<and> r_buf_dma_addr r' = r_buf_dma_addr r \<and>
     r_buf_size r' = r_buf_size r \<and> r_info_mem r' = r_info_mem r"

lemma same_bufs_own: "same_bufs r r' \<Longrightarrow> own_ring x r' = own_ring x r"
  by (simp add: same_bufs_def own_ring_def)

lemma tx_free_loop_bal:
  "tx_free_loop r c s = Some (r', c', s') \<Longrightarrow> bal (trace s') x = bal (trace s) x \<and> same_bufs r r'"
proof (induction r c s rule: tx_free_loop.induct)
  case (1 r c s)
  show ?case
  proof (cases "mqnic_is_tx_ring_empty r")
    case True
    with "1.prems" show ?thesis by (subst (asm) tx_free_loop.simps) (simp add: same_bufs_def)
  next
    case False
    with "1.prems" obtain r1 s1 where f: "mqnic_free_tx_desc r (r_clean_tail_ptr r AND r_size_mask r) 0 s = Some (r1, s1)"
      "tx_free_loop (r\<lparr>r_tx_info := r_tx_info r1, r_clean_tail_ptr := r_clean_tail_ptr r + 1\<rparr>) (c + 1) s1 = Some (r', c', s')"
      by (subst (asm) tx_free_loop.simps) (auto split: option.splits)
    have "bal (trace s1) x = bal (trace s) x" using f(1) by (auto simp: mqnic_free_tx_desc_def Let_def split: if_splits)
    with "1.IH" [OF False f(1) refl f(2)] show ?thesis by (simp add: same_bufs_def)
  qed
qed

lemma rx_free_loop_bal:
  "rx_free_loop r c s = Some (r', c', s') \<Longrightarrow> bal (trace s') x = bal (trace s) x \<and> same_bufs r r'"
proof (induction r c s rule: rx_free_loop.induct)
  case (1 r c s)
  show ?case
  proof (cases "mqnic_is_rx_ring_empty r")
    case True
    with "1.prems" show ?thesis by (subst (asm) rx_free_loop.simps) (simp add: same_bufs_def)
  next
    case False
    with "1.prems" obtain r1 s1 where f: "mqnic_free_rx_desc r (r_clean_tail_ptr r AND r_size_mask r) s = Some (r1, s1)"
      "rx_free_loop (r\<lparr>r_rx_info := r_rx_info r1, r_clean_tail_ptr := r_clean_tail_ptr r + 1\<rparr>) (c + 1) s1 = Some (r', c', s')"
      by (subst (asm) rx_free_loop.simps) (auto split: option.splits)
    have "bal (trace s1) x = bal (trace s) x" using f(1) by (auto simp: mqnic_free_rx_desc_def Let_def split: if_splits option.splits)
    with "1.IH" [OF False f(1) refl f(2)] show ?thesis by (simp add: same_bufs_def)
  qed
qed

lemma free_tx_bal:
  assumes "mqnic_free_tx_ring r cqs s = Some (r', cqs', s')"
  shows "bal (trace s') x + own_ring x r = bal (trace s) x + own_ring x r'" "own_cq x (cqs' c) = own_cq x (cqs c)" "r_mem r' = r_mem r" "r_buf r' = None"
proof -
  obtain r1 cqs1 s1 where d: "mqnic_deactivate_tx_ring r cqs s = (r1, cqs1, s1)" by (metis prod_cases3)
  have dd: "same_bufs r r1" "bal (trace s1) x = bal (trace s) x" "own_cq x (cqs1 c) = own_cq x (cqs c)"
    using d by (auto simp: mqnic_deactivate_tx_ring_def same_bufs_def Let_def split: option.splits)
  have o: "own_ring x r1 = own_ring x r" "r_mem r1 = r_mem r" using same_bufs_own [OF dd(1)] dd(1) by (simp_all add: same_bufs_def)
  have "bal (trace s') x + own_ring x r1 = bal (trace s1) x + own_ring x r' \<and> cqs' = cqs1 \<and> r_mem r' = r_mem r1 \<and> r_buf r' = None"
  proof (cases "r_buf r1")
    case None
    then show ?thesis using assms d by (simp add: mqnic_free_tx_ring_def)
  next
    case (Some b)
    with assms d obtain r2 c2 s2 where l: "tx_free_loop r1 0 s1 = Some (r2, c2, s2)"
      by (auto simp: mqnic_free_tx_ring_def mqnic_free_tx_buf_def split: option.splits)
    note b = tx_free_loop_bal [OF l, of x]
    let ?f = "case r_info_mem r2 of None \<Rightarrow> emit (DmaFree (r_buf_dma_addr r2) (r_buf_size r2)) s2
        | Some m \<Rightarrow> emit (Kfree m) (emit (DmaFree (r_buf_dma_addr r2) (r_buf_size r2)) s2)"
    have e: "r' = r2\<lparr>r_head_ptr := 0, r_tail_ptr := 0, r_clean_tail_ptr := 0, r_buf := None, r_buf_dma_addr := 0, r_tx_info := [], r_info_mem := None\<rparr>"
      "cqs' = cqs1" "s' = ?f"
      using assms d l Some by (auto simp: mqnic_free_tx_ring_def mqnic_free_tx_buf_def Let_def split: option.splits)
    have "own_ring x r1 = own_ring x r2" using b same_bufs_own [of r1 r2 x] by simp
    then show ?thesis using b Some unfolding e
      by (auto simp: own_ring_def same_bufs_def split: option.split)
  qed
  with dd o show "bal (trace s') x + own_ring x r = bal (trace s) x + own_ring x r'" "own_cq x (cqs' c) = own_cq x (cqs c)"
    "r_mem r' = r_mem r" "r_buf r' = None" by simp_all
qed

lemma free_rx_bal:
  assumes "mqnic_free_rx_ring r cqs s = Some (r', cqs', s')"
  shows "bal (trace s') x + own_ring x r = bal (trace s) x + own_ring x r'" "own_cq x (cqs' c) = own_cq x (cqs c)" "r_mem r' = r_mem r" "r_buf r' = None"
proof -
  obtain r1 cqs1 s1 where d: "mqnic_deactivate_rx_ring r cqs s = (r1, cqs1, s1)" by (metis prod_cases3)
  have dd: "same_bufs r r1" "bal (trace s1) x = bal (trace s) x" "own_cq x (cqs1 c) = own_cq x (cqs c)"
    using d by (auto simp: mqnic_deactivate_rx_ring_def same_bufs_def Let_def split: option.splits)
  have o: "own_ring x r1 = own_ring x r" "r_mem r1 = r_mem r" using same_bufs_own [OF dd(1)] dd(1) by (simp_all add: same_bufs_def)
  have "bal (trace s') x + own_ring x r1 = bal (trace s1) x + own_ring x r' \<and> cqs' = cqs1 \<and> r_mem r' = r_mem r1 \<and> r_buf r' = None"
  proof (cases "r_buf r1")
    case None
    then show ?thesis using assms d by (simp add: mqnic_free_rx_ring_def)
  next
    case (Some b)
    with assms d obtain r2 c2 s2 where l: "rx_free_loop r1 0 s1 = Some (r2, c2, s2)"
      by (auto simp: mqnic_free_rx_ring_def mqnic_free_rx_buf_def split: option.splits)
    note b = rx_free_loop_bal [OF l, of x]
    let ?f = "case r_info_mem r2 of None \<Rightarrow> emit (DmaFree (r_buf_dma_addr r2) (r_buf_size r2)) s2
        | Some m \<Rightarrow> emit (Kfree m) (emit (DmaFree (r_buf_dma_addr r2) (r_buf_size r2)) s2)"
    have e: "r' = r2\<lparr>r_head_ptr := 0, r_tail_ptr := 0, r_clean_tail_ptr := 0, r_buf := None, r_buf_dma_addr := 0, r_rx_info := [], r_info_mem := None\<rparr>"
      "cqs' = cqs1" "s' = ?f"
      using assms d l Some by (auto simp: mqnic_free_rx_ring_def mqnic_free_rx_buf_def Let_def split: option.splits)
    have "own_ring x r1 = own_ring x r2" using b same_bufs_own [of r1 r2 x] by simp
    then show ?thesis using b Some unfolding e
      by (auto simp: own_ring_def same_bufs_def split: option.split)
  qed
  with dd o show "bal (trace s') x + own_ring x r = bal (trace s) x + own_ring x r'" "own_cq x (cqs' c) = own_cq x (cqs c)"
    "r_mem r' = r_mem r" "r_buf r' = None" by simp_all
qed

section \<open>Accounts of an interface\<close>

definition sized :: "mqnic_if \<Rightarrow> bool" where
  "sized i \<longleftrightarrow> (\<forall>k\<ge>MAX_EVENT_RINGS. if_event_ring i k = None) \<and> (\<forall>k\<ge>MAX_TX_RINGS. if_tx_ring i k = None) \<and>
     (\<forall>k\<ge>MAX_TX_CPL_RINGS. if_tx_cpl_ring i k = None) \<and> (\<forall>k\<ge>MAX_RX_RINGS. if_rx_ring i k = None) \<and>
     (\<forall>k\<ge>MAX_RX_CPL_RINGS. if_rx_cpl_ring i k = None) \<and> (\<forall>k\<ge>MAX_PORTS. if_port i k = None)"

text \<open>A ring without descriptors in flight.\<close>

definition calm_ring :: "mqnic_ring \<Rightarrow> bool" where
  "calm_ring r \<longleftrightarrow> r_buf r = None \<or> r_head_ptr r = r_clean_tail_ptr r"

definition calm :: "mqnic_if \<Rightarrow> bool" where
  "calm i \<longleftrightarrow> (\<forall>k r. if_tx_ring i k = Some r \<longrightarrow> calm_ring r) \<and> (\<forall>k r. if_rx_ring i k = Some r \<longrightarrow> calm_ring r)"

text \<open>Beside \<open>b\<close>, what is in force of resource \<open>x\<close> is what the interface owns; nothing is in flight.\<close>

definition owned :: "int \<Rightarrow> res \<Rightarrow> mqnic_if \<times> sys \<Rightarrow> bool" where
  "owned b x w \<longleftrightarrow> sized (fst w) \<and> calm (fst w) \<and> bal (trace (snd w)) x = b + own_if x (fst w)"

lemma own_if_simps:
  "own_if x (i\<lparr>if_event_ring := a\<rparr>) = own_if x i - owns (own_eq x) MAX_EVENT_RINGS (if_event_ring i) + owns (own_eq x) MAX_EVENT_RINGS a"
  "own_if x (i\<lparr>if_tx_ring := b\<rparr>) = own_if x i - owns (own_ring x) MAX_TX_RINGS (if_tx_ring i) + owns (own_ring x) MAX_TX_RINGS b"
  "own_if x (i\<lparr>if_tx_cpl_ring := c\<rparr>) = own_if x i - owns (own_cq x) MAX_TX_CPL_RINGS (if_tx_cpl_ring i) + owns (own_cq x) MAX_TX_CPL_RINGS c"
  "own_if x (i\<lparr>if_rx_ring := b\<rparr>) = own_if x i - owns (own_ring x) MAX_RX_RINGS (if_rx_ring i) + owns (own_ring x) MAX_RX_RINGS b"
  "own_if x (i\<lparr>if_rx_cpl_ring := c\<rparr>) = own_if x i - owns (own_cq x) MAX_RX_CPL_RINGS (if_rx_cpl_ring i) + owns (own_cq x) MAX_RX_CPL_RINGS c"
  "own_if x (i\<lparr>if_port := d\<rparr>) = own_if x i - owns (own_port x) MAX_PORTS (if_port i) + owns (own_port x) MAX_PORTS d"
  by (simp_all add: own_if_def)

text \<open>Replacing one entry of one array.\<close>

abbreviation gain :: "('a \<Rightarrow> int) \<Rightarrow> 'a option \<Rightarrow> int" where
  "gain f v \<equiv> (case v of None \<Rightarrow> 0 | Some r \<Rightarrow> f r)"

lemma owned_event:
  "owned b x (i, s) \<Longrightarrow> k < MAX_EVENT_RINGS \<Longrightarrow> bal (trace t) x = bal (trace s) x - gain (own_eq x) (if_event_ring i k) + gain (own_eq x) v \<Longrightarrow>
    owned b x (i\<lparr>if_event_ring := (if_event_ring i)(k := v)\<rparr>, t)"
  by (auto simp: owned_def sized_def calm_def own_if_simps owns_upd)

lemma owned_tx:
  "owned b x (i, s) \<Longrightarrow> k < MAX_TX_RINGS \<Longrightarrow> (\<forall>r. v = Some r \<longrightarrow> calm_ring r) \<Longrightarrow> bal (trace t) x = bal (trace s) x - gain (own_ring x) (if_tx_ring i k) + gain (own_ring x) v \<Longrightarrow>
    owned b x (i\<lparr>if_tx_ring := (if_tx_ring i)(k := v)\<rparr>, t)"
  by (auto simp: owned_def sized_def calm_def own_if_simps owns_upd)

lemma owned_tx_cpl:
  "owned b x (i, s) \<Longrightarrow> k < MAX_TX_CPL_RINGS \<Longrightarrow> bal (trace t) x = bal (trace s) x - gain (own_cq x) (if_tx_cpl_ring i k) + gain (own_cq x) v \<Longrightarrow>
    owned b x (i\<lparr>if_tx_cpl_ring := (if_tx_cpl_ring i)(k := v)\<rparr>, t)"
  by (auto simp: owned_def sized_def calm_def own_if_simps owns_upd)

lemma owned_rx:
  "owned b x (i, s) \<Longrightarrow> k < MAX_RX_RINGS \<Longrightarrow> (\<forall>r. v = Some r \<longrightarrow> calm_ring r) \<Longrightarrow> bal (trace t) x = bal (trace s) x - gain (own_ring x) (if_rx_ring i k) + gain (own_ring x) v \<Longrightarrow>
    owned b x (i\<lparr>if_rx_ring := (if_rx_ring i)(k := v)\<rparr>, t)"
  by (auto simp: owned_def sized_def calm_def own_if_simps owns_upd)

lemma owned_rx_cpl:
  "owned b x (i, s) \<Longrightarrow> k < MAX_RX_CPL_RINGS \<Longrightarrow> bal (trace t) x = bal (trace s) x - gain (own_cq x) (if_rx_cpl_ring i k) + gain (own_cq x) v \<Longrightarrow>
    owned b x (i\<lparr>if_rx_cpl_ring := (if_rx_cpl_ring i)(k := v)\<rparr>, t)"
  by (auto simp: owned_def sized_def calm_def own_if_simps owns_upd)

lemma owned_port:
  "owned b x (i, s) \<Longrightarrow> k < MAX_PORTS \<Longrightarrow> bal (trace t) x = bal (trace s) x - gain (own_port x) (if_port i k) + gain (own_port x) v \<Longrightarrow>
    owned b x (i\<lparr>if_port := (if_port i)(k := v)\<rparr>, t)"
  by (auto simp: owned_def sized_def calm_def own_if_simps owns_upd)

text \<open>Releasing a ring from its completion queue changes nothing that is owned.\<close>

lemma owns_of_heap:
  "(\<And>c. own_cq x (cqs c) = own_cq x (heap_of m c)) \<Longrightarrow> owns (own_cq x) n (of_heap m cqs) = owns (own_cq x) n m"
  unfolding owns_def of_heap_def heap_of_def by (rule sum.cong) (auto split: option.split)

lemma of_heap_None [simp]: "of_heap m cqs k = None \<longleftrightarrow> m k = None"
  by (simp add: of_heap_def split: option.split)

lemma owned_heap:
  "owned b x (i, s) \<Longrightarrow> (\<And>c. own_cq x (cqs c) = own_cq x (heap_of (if_tx_cpl_ring i) c)) \<Longrightarrow>
    owned b x (i\<lparr>if_tx_cpl_ring := of_heap (if_tx_cpl_ring i) cqs\<rparr>, s)"
  "owned b x (i, s) \<Longrightarrow> (\<And>c. own_cq x (cqs c) = own_cq x (heap_of (if_rx_cpl_ring i) c)) \<Longrightarrow>
    owned b x (i\<lparr>if_rx_cpl_ring := of_heap (if_rx_cpl_ring i) cqs\<rparr>, s)"
  by (simp_all add: owned_def sized_def calm_def own_if_simps owns_of_heap)

section \<open>Destroying keeps the accounts\<close>

lemma sized_less:
  "sized i \<Longrightarrow> if_event_ring i k = Some a \<Longrightarrow> k < MAX_EVENT_RINGS" "sized i \<Longrightarrow> if_tx_ring i k = Some b \<Longrightarrow> k < MAX_TX_RINGS"
  "sized i \<Longrightarrow> if_tx_cpl_ring i k = Some c \<Longrightarrow> k < MAX_TX_CPL_RINGS" "sized i \<Longrightarrow> if_rx_ring i k = Some b \<Longrightarrow> k < MAX_RX_RINGS"
  "sized i \<Longrightarrow> if_rx_cpl_ring i k = Some c \<Longrightarrow> k < MAX_RX_CPL_RINGS" "sized i \<Longrightarrow> if_port i k = Some p \<Longrightarrow> k < MAX_PORTS"
  unfolding sized_def by (metis not_le option.distinct(1))+

lemma owned_sized: "owned b x (i, s) \<Longrightarrow> sized i"
  by (simp add: owned_def)

lemma nd_free_tx_owned:
  assumes "nd_free_tx k w = Some w'" "owned b x w"
  shows "owned b x w'"
proof (cases "if_tx_ring (fst w) k")
  case None
  with assms show ?thesis by (cases w) (simp add: nd_free_tx_def)
next
  case (Some r)
  obtain i s where w: "w = (i, s)" by force
  with assms(1) Some obtain r' cqs' s' where f: "mqnic_free_tx_ring r (heap_of (if_tx_cpl_ring i)) s = Some (r', cqs', s')"
    "w' = (i\<lparr>if_tx_ring := (if_tx_ring i)(k \<mapsto> r'), if_tx_cpl_ring := of_heap (if_tx_cpl_ring i) cqs'\<rparr>, s')"
    by (auto simp: nd_free_tx_def split: Option.bind_split_asm)
  have k: "k < MAX_TX_RINGS" using sized_less(2) [OF owned_sized [of b x i s]] assms(2) Some w by simp
  have "owned b x (i\<lparr>if_tx_ring := (if_tx_ring i)(k \<mapsto> r')\<rparr>, s')"
    using owned_tx [of b x i s k "Some r'" s'] assms(2) k w Some free_tx_bal(1) [OF f(1), of x] free_tx_bal(4) [OF f(1)]
    by (simp add: calm_ring_def)
  from owned_heap(1) [OF this, of cqs'] free_tx_bal(2) [OF f(1)] show ?thesis by (simp add: f(2))
qed

lemma nd_free_rx_owned:
  assumes "nd_free_rx k w = Some w'" "owned b x w"
  shows "owned b x w'"
proof (cases "if_rx_ring (fst w) k")
  case None
  with assms show ?thesis by (cases w) (simp add: nd_free_rx_def)
next
  case (Some r)
  obtain i s where w: "w = (i, s)" by force
  with assms(1) Some obtain r' cqs' s' where f: "mqnic_free_rx_ring r (heap_of (if_rx_cpl_ring i)) s = Some (r', cqs', s')"
    "w' = (i\<lparr>if_rx_ring := (if_rx_ring i)(k \<mapsto> r'), if_rx_cpl_ring := of_heap (if_rx_cpl_ring i) cqs'\<rparr>, s')"
    by (auto simp: nd_free_rx_def split: Option.bind_split_asm)
  have k: "k < MAX_RX_RINGS" using sized_less(4) [OF owned_sized [of b x i s]] assms(2) Some w by simp
  have "owned b x (i\<lparr>if_rx_ring := (if_rx_ring i)(k \<mapsto> r')\<rparr>, s')"
    using owned_rx [of b x i s k "Some r'" s'] assms(2) k w Some free_rx_bal(1) [OF f(1), of x] free_rx_bal(4) [OF f(1)]
    by (simp add: calm_ring_def)
  from owned_heap(2) [OF this, of cqs'] free_rx_bal(2) [OF f(1)] show ?thesis by (simp add: f(2))
qed

lemma free_cq_delta: "mqnic_free_cq_ring r s = (r', t) \<Longrightarrow> bal (trace t) x = bal (trace s) x - own_cq x r + own_cq x r'"
  using free_cq_bal [of r s r' t x] by simp

lemma nd_free_cpl_owned:
  "nd_free_tx_cpl k w = Some w' \<Longrightarrow> owned b x w \<Longrightarrow> owned b x w'"
  "nd_free_rx_cpl k w = Some w' \<Longrightarrow> owned b x w \<Longrightarrow> owned b x w'"
proof -
  obtain i s where w: "w = (i, s)" by force
  show "nd_free_tx_cpl k w = Some w' \<Longrightarrow> owned b x w \<Longrightarrow> owned b x w'"
    using owned_tx_cpl [of b x i s k] sized_less(3) [of i k] owned_sized [of b x i s] free_cq_delta [of _ s _ _ x]
    by (auto simp: nd_free_tx_cpl_def w split: option.splits prod.splits)
  show "nd_free_rx_cpl k w = Some w' \<Longrightarrow> owned b x w \<Longrightarrow> owned b x w'"
    using owned_rx_cpl [of b x i s k] sized_less(5) [of i k] owned_sized [of b x i s] free_cq_delta [of _ s _ _ x]
    by (auto simp: nd_free_rx_cpl_def w split: option.splits prod.splits)
qed


text \<open>A loop of fallible steps keeps what each step keeps.\<close>

lemma ofold_keeps:
  assumes "ofold f ks w = Some w'" "P w" "\<And>k v v'. k \<in> set ks \<Longrightarrow> f k v = Some v' \<Longrightarrow> P v \<Longrightarrow> P v'"
  shows "P w'"
  using assms
proof (induction ks arbitrary: w)
  case (Cons k ks)
  from Cons.prems(1) obtain v where v: "f k w = Some v" "ofold f ks v = Some w'" by (auto split: option.splits)
  have "P v" using Cons.prems(3) [OF _ v(1) Cons.prems(2)] by simp
  with Cons.IH [OF v(2)] Cons.prems(3) show ?case by (meson list.set_intros(2))
qed simp

lemma destroy_netdev_owned:
  assumes "mqnic_destroy_netdev (Some nd) i s = Some (i', s')" "owned (b + of_bool (x = Mem (nd_mem nd))) x (i, s)"
  shows "owned b x (i', s')"
proof -
  let ?s = "if pv_registered nd then kvoid ''unregister_netdev'' [] s else s"
  let ?b = "b + of_bool (x = Mem (nd_mem nd))"
  obtain w1 w2 w3 w4 where r: "ofold nd_free_tx [0..<unat (pv_tx_queue_count nd)] (i, ?s) = Some w1"
    "ofold nd_free_tx_cpl [0..<unat (pv_tx_cpl_queue_count nd)] w1 = Some w2" "ofold nd_free_rx [0..<unat (pv_rx_queue_count nd)] w2 = Some w3"
    "ofold nd_free_rx_cpl [0..<unat (pv_rx_cpl_queue_count nd)] w3 = Some w4" "i' = fst w4" "s' = emit (Kfree (nd_mem nd)) (snd w4)"
    using assms(1) by (auto simp: mqnic_destroy_netdev_def Let_def split: Option.bind_split_asm)
  have "owned ?b x (i, ?s)" using assms(2) by (simp add: owned_def)
  with r(1) have "owned ?b x w1" by (rule ofold_keeps [where P = "owned ?b x"]) (blast intro: nd_free_tx_owned)
  with r(2) have "owned ?b x w2" by (rule ofold_keeps [where P = "owned ?b x"]) (blast intro: nd_free_cpl_owned)
  with r(3) have "owned ?b x w3" by (rule ofold_keeps [where P = "owned ?b x"]) (blast intro: nd_free_rx_owned)
  with r(4) have "owned ?b x w4" by (rule ofold_keeps [where P = "owned ?b x"]) (blast intro: nd_free_cpl_owned)
  then show ?thesis by (simp add: owned_def r)
qed

text \<open>Destroying one entry empties it and fills no other.\<close>

definition fades :: "mqnic_if \<Rightarrow> mqnic_if \<Rightarrow> bool" where
  "fades i j \<longleftrightarrow> if_mem j = if_mem i \<and> (\<forall>k. (if_event_ring i k = None \<longrightarrow> if_event_ring j k = None) \<and>
     (if_tx_ring i k = None \<longrightarrow> if_tx_ring j k = None) \<and> (if_tx_cpl_ring i k = None \<longrightarrow> if_tx_cpl_ring j k = None) \<and>
     (if_rx_ring i k = None \<longrightarrow> if_rx_ring j k = None) \<and> (if_rx_cpl_ring i k = None \<longrightarrow> if_rx_cpl_ring j k = None) \<and>
     (if_port i k = None \<longrightarrow> if_port j k = None))"

lemma fades_refl [simp]: "fades i i"
  by (simp add: fades_def)

lemma fades_trans: "fades i j \<Longrightarrow> fades j l \<Longrightarrow> fades i l"
  by (simp add: fades_def)

text \<open>One loop of the teardown.\<close>

locale destroy_stage =
  fixes f :: "nat \<Rightarrow> mqnic_if \<times> sys \<Rightarrow> (mqnic_if \<times> sys) option" and gone :: "mqnic_if \<Rightarrow> nat \<Rightarrow> bool"
  assumes step: "f k (i, s) = Some (i', s') \<Longrightarrow> owned b x (i, s) \<Longrightarrow> owned b x (i', s') \<and> fades i i' \<and> gone i' k"
    and total: "owned b x (i, s) \<Longrightarrow> \<exists>w. f k (i, s) = Some w"
    and gone_fades: "gone i k \<Longrightarrow> fades i j \<Longrightarrow> gone j k"
begin

lemma run:
  "ofold f [0..<n] w = Some w' \<Longrightarrow> owned b x w \<Longrightarrow> owned b x w' \<and> fades (fst w) (fst w') \<and> (\<forall>k<n. gone (fst w') k)"
proof (induction n arbitrary: w')
  case (Suc n)
  from Suc.prems(1) obtain v where v: "ofold f [0..<n] w = Some v" "f n v = Some w'" by (auto split: option.splits)
  note a = Suc.IH [OF v(1) Suc.prems(2)]
  obtain i s i' s' where p: "v = (i, s)" "w' = (i', s')" by force
  note b = step [of n i s i' s' b x]
  have "gone i' k" if "k < Suc n" for k
    using that a b v(2) p gone_fades [of i k i'] by (auto simp: less_Suc_eq)
  with a b v(2) p show ?case by (auto intro: fades_trans)
qed simp

lemma run_total: "owned b x w \<Longrightarrow> \<exists>w'. ofold f [0..<n] w = Some w'"
proof (induction n)
  case (Suc n)
  then obtain v where v: "ofold f [0..<n] w = Some v" by blast
  then have "owned b x v" using run Suc.prems by blast
  then obtain u where "f n v = Some u" using total [of b x "fst v" "snd v" n] by auto
  with v show ?case by simp
qed simp

end

lemma owned_calm: "owned b x (i, s) \<Longrightarrow> if_tx_ring i k = Some r \<Longrightarrow> calm_ring r" "owned b x (i, s) \<Longrightarrow> if_rx_ring i k = Some r \<Longrightarrow> calm_ring r"
  by (auto simp: owned_def calm_def)

lemma free_tx_total:
  assumes "calm_ring r"
  shows "mqnic_free_tx_ring r cqs s \<noteq> None"
proof -
  obtain r1 cqs1 s1 where d: "mqnic_deactivate_tx_ring r cqs s = (r1, cqs1, s1)" by (metis prod_cases3)
  then have c: "calm_ring r1" using assms by (auto simp: mqnic_deactivate_tx_ring_def Let_def calm_ring_def)
  show ?thesis
  proof (cases "r_buf r1")
    case None
    then show ?thesis by (simp add: mqnic_free_tx_ring_def d)
  next
    case (Some a)
    then have "tx_free_loop r1 0 s1 = Some (r1, 0, s1)"
      using c by (subst tx_free_loop.simps) (simp add: calm_ring_def mqnic_is_tx_ring_empty_def)
    then show ?thesis using Some by (simp add: mqnic_free_tx_ring_def mqnic_free_tx_buf_def d Let_def)
  qed
qed

lemma destroy_tx_total:
  assumes "owned b x (i, s)"
  shows "\<exists>w. if_destroy_tx k (i, s) = Some w"
proof (cases "if_tx_ring i k")
  case (Some r)
  have "mqnic_free_tx_ring r (heap_of (if_tx_cpl_ring i)) s \<noteq> None"
    using free_tx_total owned_calm(1) [OF assms Some] by blast
  with Some show ?thesis by (auto simp: if_destroy_tx_def mqnic_destroy_tx_ring_def)
qed (simp add: if_destroy_tx_def)

lemma free_rx_total:
  assumes "calm_ring r"
  shows "mqnic_free_rx_ring r cqs s \<noteq> None"
proof -
  obtain r1 cqs1 s1 where d: "mqnic_deactivate_rx_ring r cqs s = (r1, cqs1, s1)" by (metis prod_cases3)
  then have c: "calm_ring r1" using assms by (auto simp: mqnic_deactivate_rx_ring_def Let_def calm_ring_def)
  show ?thesis
  proof (cases "r_buf r1")
    case None
    then show ?thesis by (simp add: mqnic_free_rx_ring_def d)
  next
    case (Some a)
    then have "rx_free_loop r1 0 s1 = Some (r1, 0, s1)"
      using c by (subst rx_free_loop.simps) (simp add: calm_ring_def mqnic_is_rx_ring_empty_def)
    then show ?thesis using Some by (simp add: mqnic_free_rx_ring_def mqnic_free_rx_buf_def d Let_def)
  qed
qed

lemma destroy_rx_total:
  assumes "owned b x (i, s)"
  shows "\<exists>w. if_destroy_rx k (i, s) = Some w"
proof (cases "if_rx_ring i k")
  case (Some r)
  have "mqnic_free_rx_ring r (heap_of (if_rx_cpl_ring i)) s \<noteq> None"
    using free_rx_total owned_calm(2) [OF assms Some] by blast
  with Some show ?thesis by (auto simp: if_destroy_rx_def mqnic_destroy_rx_ring_def)
qed (simp add: if_destroy_rx_def)

interpretation d_event: destroy_stage if_destroy_eq "\<lambda>i k. if_event_ring i k = None"
proof unfold_locales
  fix k i s i' s' b x assume a: "if_destroy_eq k (i, s) = Some (i', s')" and o: "owned b x (i, s)"
  show "owned b x (i', s') \<and> fades i i' \<and> if_event_ring i' k = None"
  proof (cases "if_event_ring i k")
    case None
    with a o show ?thesis by (simp add: if_destroy_eq_def)
  next
    case (Some r)
    obtain p t where d: "mqnic_destroy_eq_ring r s = (p, t)" by force
    note dd = destroy_eq_bal [OF d, of x]
    have "i' = i\<lparr>if_event_ring := (if_event_ring i)(k := None)\<rparr>" "s' = t" using a Some d dd by (simp_all add: if_destroy_eq_def)
    with owned_event [OF o, of k t None] sized_less(1) [OF owned_sized [OF o] Some] dd Some show ?thesis by (simp add: fades_def)
  qed
qed (simp add: if_destroy_eq_def split: option.split prod.split, simp add: fades_def)

interpretation d_tx_cpl: destroy_stage if_destroy_tx_cpl "\<lambda>i k. if_tx_cpl_ring i k = None"
proof unfold_locales
  fix k i s i' s' b x assume a: "if_destroy_tx_cpl k (i, s) = Some (i', s')" and o: "owned b x (i, s)"
  show "owned b x (i', s') \<and> fades i i' \<and> if_tx_cpl_ring i' k = None"
  proof (cases "if_tx_cpl_ring i k")
    case None
    with a o show ?thesis by (simp add: if_destroy_tx_cpl_def)
  next
    case (Some r)
    obtain p t where d: "mqnic_destroy_cq_ring r s = (p, t)" by force
    note dd = destroy_cq_bal [OF d, of x]
    have "i' = i\<lparr>if_tx_cpl_ring := (if_tx_cpl_ring i)(k := None)\<rparr>" "s' = t" using a Some d dd by (simp_all add: if_destroy_tx_cpl_def)
    with owned_tx_cpl [OF o, of k t None] sized_less(3) [OF owned_sized [OF o] Some] dd Some show ?thesis by (simp add: fades_def)
  qed
qed (simp add: if_destroy_tx_cpl_def split: option.split prod.split, simp add: fades_def)

interpretation d_rx_cpl: destroy_stage if_destroy_rx_cpl "\<lambda>i k. if_rx_cpl_ring i k = None"
proof unfold_locales
  fix k i s i' s' b x assume a: "if_destroy_rx_cpl k (i, s) = Some (i', s')" and o: "owned b x (i, s)"
  show "owned b x (i', s') \<and> fades i i' \<and> if_rx_cpl_ring i' k = None"
  proof (cases "if_rx_cpl_ring i k")
    case None
    with a o show ?thesis by (simp add: if_destroy_rx_cpl_def)
  next
    case (Some r)
    obtain p t where d: "mqnic_destroy_cq_ring r s = (p, t)" by force
    note dd = destroy_cq_bal [OF d, of x]
    have "i' = i\<lparr>if_rx_cpl_ring := (if_rx_cpl_ring i)(k := None)\<rparr>" "s' = t" using a Some d dd by (simp_all add: if_destroy_rx_cpl_def)
    with owned_rx_cpl [OF o, of k t None] sized_less(5) [OF owned_sized [OF o] Some] dd Some show ?thesis by (simp add: fades_def)
  qed
qed (simp add: if_destroy_rx_cpl_def split: option.split prod.split, simp add: fades_def)

interpretation d_port: destroy_stage if_destroy_port "\<lambda>i k. if_port i k = None"
proof unfold_locales
  fix k i s i' s' b x assume a: "if_destroy_port k (i, s) = Some (i', s')" and o: "owned b x (i, s)"
  show "owned b x (i', s') \<and> fades i i' \<and> if_port i' k = None"
  proof (cases "if_port i k")
    case None
    with a o show ?thesis by (simp add: if_destroy_port_def)
  next
    case (Some p)
    have "i' = i\<lparr>if_port := (if_port i)(k := None)\<rparr>" "bal (trace s') x = bal (trace s) x - own_port x p"
      using a Some by (auto simp: if_destroy_port_def mqnic_destroy_port_def mqnic_deactivate_port_def own_port_def)
    with owned_port [OF o, of k s' None] sized_less(6) [OF owned_sized [OF o] Some] Some show ?thesis by (simp add: fades_def)
  qed
qed (simp add: if_destroy_port_def split: option.split prod.split, simp add: fades_def)

lemma own_ring_unbuf: "r_buf r = None \<Longrightarrow> own_ring x r = of_bool (x = Mem (r_mem r))"
  by (simp add: own_ring_def)

interpretation d_tx: destroy_stage if_destroy_tx "\<lambda>i k. if_tx_ring i k = None"
proof unfold_locales
  fix k i s i' s' b x assume a: "if_destroy_tx k (i, s) = Some (i', s')" and o: "owned b x (i, s)"
  show "owned b x (i', s') \<and> fades i i' \<and> if_tx_ring i' k = None"
  proof (cases "if_tx_ring i k")
    case None
    with a o show ?thesis by (simp add: if_destroy_tx_def)
  next
    case (Some r)
    with a obtain r' cqs t where f: "mqnic_free_tx_ring r (heap_of (if_tx_cpl_ring i)) s = Some (r', cqs, t)"
      "i' = i\<lparr>if_tx_ring := (if_tx_ring i)(k := None), if_tx_cpl_ring := of_heap (if_tx_cpl_ring i) cqs\<rparr>" "s' = emit (Kfree (r_mem r')) t"
      by (auto simp: if_destroy_tx_def mqnic_destroy_tx_ring_def split: Option.bind_split_asm option.splits)
    note b = free_tx_bal(1) [OF f(1), of x] free_tx_bal(2) [OF f(1), of x] free_tx_bal(4) [OF f(1)]
    have "bal (trace s') x = bal (trace s) x - own_ring x r"
      using b(1) own_ring_unbuf [OF b(3), of x] by (simp add: f(3))
    then have "owned b x (i\<lparr>if_tx_ring := (if_tx_ring i)(k := None)\<rparr>, s')"
      using owned_tx [OF o, of k None s'] sized_less(2) [OF owned_sized [OF o] Some] Some by simp
    from owned_heap(1) [OF this, of cqs] b(2) show ?thesis by (simp add: f(2) fades_def)
  qed
qed (erule destroy_tx_total, simp add: fades_def)

interpretation d_rx: destroy_stage if_destroy_rx "\<lambda>i k. if_rx_ring i k = None"
proof unfold_locales
  fix k i s i' s' b x assume a: "if_destroy_rx k (i, s) = Some (i', s')" and o: "owned b x (i, s)"
  show "owned b x (i', s') \<and> fades i i' \<and> if_rx_ring i' k = None"
  proof (cases "if_rx_ring i k")
    case None
    with a o show ?thesis by (simp add: if_destroy_rx_def)
  next
    case (Some r)
    with a obtain r' cqs t where f: "mqnic_free_rx_ring r (heap_of (if_rx_cpl_ring i)) s = Some (r', cqs, t)"
      "i' = i\<lparr>if_rx_ring := (if_rx_ring i)(k := None), if_rx_cpl_ring := of_heap (if_rx_cpl_ring i) cqs\<rparr>" "s' = emit (Kfree (r_mem r')) t"
      by (auto simp: if_destroy_rx_def mqnic_destroy_rx_ring_def split: Option.bind_split_asm option.splits)
    note b = free_rx_bal(1) [OF f(1), of x] free_rx_bal(2) [OF f(1), of x] free_rx_bal(4) [OF f(1)]
    have "bal (trace s') x = bal (trace s) x - own_ring x r"
      using b(1) own_ring_unbuf [OF b(3), of x] by (simp add: f(3))
    then have "owned b x (i\<lparr>if_rx_ring := (if_rx_ring i)(k := None)\<rparr>, s')"
      using owned_rx [OF o, of k None s'] sized_less(4) [OF owned_sized [OF o] Some] Some by simp
    from owned_heap(2) [OF this, of cqs] b(2) show ?thesis by (simp add: f(2) fades_def)
  qed
qed (erule destroy_rx_total, simp add: fades_def)

lemma owns_none: "\<forall>k<n. m k = None \<Longrightarrow> owns f n m = 0"
  by (simp add: owns_def)

lemma destroy_interface_owned:
  assumes "mqnic_destroy_interface i nd s = Some s'" "owned (b + own_nd x nd) x (i, s)"
  shows "bal (trace s') x = b"
proof -
  obtain w0 w1 w2 w3 w4 w5 w6 where r: "(case nd of None \<Rightarrow> Some (i, s) | Some _ \<Rightarrow> mqnic_destroy_netdev nd i s) = Some w0"
    "ofold if_destroy_eq [0..<MAX_EVENT_RINGS] w0 = Some w1" "ofold if_destroy_tx [0..<MAX_TX_RINGS] w1 = Some w2"
    "ofold if_destroy_tx_cpl [0..<MAX_TX_CPL_RINGS] w2 = Some w3" "ofold if_destroy_rx [0..<MAX_RX_RINGS] w3 = Some w4"
    "ofold if_destroy_rx_cpl [0..<MAX_RX_CPL_RINGS] w4 = Some w5" "ofold if_destroy_port [0..<MAX_PORTS] w5 = Some w6"
    "s' = emit (Kfree (if_mem (fst w6))) (snd w6)"
    using assms(1) by (auto simp: mqnic_destroy_interface_def split: Option.bind_split_asm)
  have 0: "owned b x w0"
  proof (cases nd)
    case None
    with assms(2) r(1) show ?thesis by (simp add: own_nd_def)
  next
    case (Some d)
    with assms(2) r(1) destroy_netdev_owned [of d i s "fst w0" "snd w0" b x] show ?thesis by (simp add: own_nd_def)
  qed
  note 1 = d_event.run [OF r(2) 0]
  note 2 = d_tx.run [OF r(3) conjunct1 [OF 1]]
  note 3 = d_tx_cpl.run [OF r(4) conjunct1 [OF 2]]
  note 4 = d_rx.run [OF r(5) conjunct1 [OF 3]]
  note 5 = d_rx_cpl.run [OF r(6) conjunct1 [OF 4]]
  note 6 = d_port.run [OF r(7) conjunct1 [OF 5]]
  have f: "fades (fst w1) (fst w6)" "fades (fst w2) (fst w6)" "fades (fst w3) (fst w6)" "fades (fst w4) (fst w6)" "fades (fst w5) (fst w6)"
    using 2 3 4 5 6 by (meson fades_trans)+
  have "own_if x (fst w6) = of_bool (x = Mem (if_mem (fst w6)))"
    using 1 2 3 4 5 6 f unfolding own_if_def by (subst owns_none, simp add: fades_def)+ simp
  then show ?thesis using 6 by (simp add: owned_def r(8))
qed

section \<open>Creating keeps the accounts\<close>

text \<open>The counts an interface was given, and queues without memory.\<close>

definition counts_ok :: "mqnic_if \<Rightarrow> bool" where
  "counts_ok i \<longleftrightarrow> unat (if_event_queue_count i) \<le> MAX_EVENT_RINGS \<and> unat (if_tx_queue_count i) \<le> MAX_TX_RINGS \<and>
     unat (if_tx_cpl_queue_count i) \<le> MAX_TX_CPL_RINGS \<and> unat (if_rx_queue_count i) \<le> MAX_RX_RINGS \<and>
     unat (if_rx_cpl_queue_count i) \<le> MAX_RX_CPL_RINGS \<and> unat (if_port_count i) \<le> MAX_PORTS"

definition same_counts :: "mqnic_if \<Rightarrow> mqnic_if \<Rightarrow> bool" where
  "same_counts i j \<longleftrightarrow> if_event_queue_count j = if_event_queue_count i \<and> if_tx_queue_count j = if_tx_queue_count i \<and>
     if_tx_cpl_queue_count j = if_tx_cpl_queue_count i \<and> if_rx_queue_count j = if_rx_queue_count i \<and>
     if_rx_cpl_queue_count j = if_rx_cpl_queue_count i \<and> if_port_count j = if_port_count i"

lemma same_counts_refl [simp]: "same_counts i i"
  by (simp add: same_counts_def)

lemma same_counts_trans: "same_counts i j \<Longrightarrow> same_counts j l \<Longrightarrow> same_counts i l"
  by (simp add: same_counts_def)

definition bare :: "(nat \<Rightarrow> mqnic_cq_ring option) \<Rightarrow> bool" where
  "bare m \<longleftrightarrow> (\<forall>k r. m k = Some r \<longrightarrow> cq_buf r = None)"

text \<open>While the parts are created: \<open>k\<close> entries of the array in hand are filled, the later arrays are empty.\<close>

definition making :: "(mqnic_if \<Rightarrow> nat \<Rightarrow> bool) \<Rightarrow> (mqnic_if \<Rightarrow> bool) \<Rightarrow> mqnic_if \<Rightarrow> int \<Rightarrow> res \<Rightarrow> nat \<Rightarrow> mqnic_if \<times> sys \<Rightarrow> bool" where
  "making vacant later i0 b x k w \<longleftrightarrow> owned b x w \<and> same_counts i0 (fst w) \<and> (\<forall>j\<ge>k. vacant (fst w) j) \<and> later (fst w)"

locale create_stage =
  fixes f :: "nat \<Rightarrow> mqnic_if \<times> sys \<Rightarrow> (int \<times> mqnic_if \<times> sys) option" and vacant :: "mqnic_if \<Rightarrow> nat \<Rightarrow> bool"
    and later :: "mqnic_if \<Rightarrow> bool" and lim :: nat
  assumes step: "f k (i, s) = Some (e, i', s') \<Longrightarrow> owned b x (i, s) \<Longrightarrow> k < lim \<Longrightarrow> vacant i k \<Longrightarrow> later i \<Longrightarrow>
      owned b x (i', s') \<and> same_counts i i' \<and> (\<forall>j. j \<noteq> k \<longrightarrow> vacant i' j = vacant i j) \<and> later i'"
begin

lemma run:
  assumes "efold f [0..<n] w = Some (e, w')" "n \<le> lim" "owned b x w" "\<forall>j. vacant (fst w) j" "later (fst w)"
  shows "owned b x w' \<and> same_counts (fst w) (fst w') \<and> (e = 0 \<longrightarrow> later (fst w'))"
proof -
  have "if e = 0 then making vacant later (fst w) b x n w' else owned b x w' \<and> same_counts (fst w) (fst w')"
    using assms(1)
  proof (rule efold_inv [where P = "making vacant later (fst w) b x"])
    show "making vacant later (fst w) b x 0 w" using assms(3-5) by (simp add: making_def)
  next
    fix k v e v' assume k: "k < n" and f: "f k v = Some (e, v')" and m: "making vacant later (fst w) b x k v"
    obtain i s i' s' where p: "v = (i, s)" "v' = (i', s')" by force
    have "owned b x (i', s') \<and> same_counts i i' \<and> (\<forall>j. j \<noteq> k \<longrightarrow> vacant i' j = vacant i j) \<and> later i'"
      using step [of k i s e i' s' b x] k f m p assms(2) by (simp add: making_def)
    with m p show "if e = 0 then making vacant later (fst w) b x (Suc k) v' else owned b x v' \<and> same_counts (fst w) (fst v')"
      by (auto simp: making_def intro: same_counts_trans)
  qed
  then show ?thesis by (auto simp: making_def split: if_splits)
qed

end

definition rings_bare :: "mqnic_if \<Rightarrow> bool" where
  "rings_bare i \<longleftrightarrow> bare (if_tx_cpl_ring i) \<and> bare (if_rx_cpl_ring i)"

definition no_ports where "no_ports i \<longleftrightarrow> (\<forall>k. if_port i k = None)"
definition no_rx_cpl where "no_rx_cpl i \<longleftrightarrow> no_ports i \<and> (\<forall>k. if_rx_cpl_ring i k = None)"
definition no_rx where "no_rx i \<longleftrightarrow> no_rx_cpl i \<and> (\<forall>k. if_rx_ring i k = None)"
definition no_tx_cpl where "no_tx_cpl i \<longleftrightarrow> no_rx i \<and> (\<forall>k. if_tx_cpl_ring i k = None)"
definition no_tx where "no_tx i \<longleftrightarrow> no_tx_cpl i \<and> (\<forall>k. if_tx_ring i k = None)"

lemmas none_defs = no_ports_def no_rx_cpl_def no_rx_def no_tx_cpl_def no_tx_def rings_bare_def bare_def

interpretation c_event: create_stage "if_create_eq mp dev" "\<lambda>i k. if_event_ring i k = None" "\<lambda>i. no_tx i \<and> rings_bare i" MAX_EVENT_RINGS for mp dev
proof unfold_locales
  fix k i s e i' s' b x
  assume a: "if_create_eq mp dev k (i, s) = Some (e, i', s')" and o: "owned b x (i, s)" and k: "k < MAX_EVENT_RINGS"
    and v: "if_event_ring i k = None" and l: "no_tx i \<and> rings_bare i"
  let ?hw = "if_hw_addr i + ucast (if_event_queue_offset i) + of_nat (k * EVENT_QUEUE_STRIDE)"
  obtain e1 p s1 where c: "mqnic_create_eq_ring (int k) ?hw s = (e1, p, s1)" by (metis prod_cases3)
  note cb = create_eq_bal [OF c, of x]
  have "\<exists>q. i' = i\<lparr>if_event_ring := (if_event_ring i)(k := q)\<rparr> \<and> bal (trace s') x = bal (trace s) x + gain (own_eq x) q"
  proof (cases p)
    case None
    with a c cb v have "i' = i\<lparr>if_event_ring := (if_event_ring i)(k := None)\<rparr> \<and> bal (trace s') x = bal (trace s) x + gain (own_eq x) None"
      by (simp add: if_create_eq_def fun_upd_idem)
    then show ?thesis by blast
  next
    case (Some r)
    obtain e2 r2 s2 where al: "mqnic_alloc_eq_ring r (num_ev_queue_entries mp) EVENT_SIZE s1 = (e2, r2, s2)" by (metis prod_cases3)
    have "eq_buf r = None" using c Some by (auto simp: mqnic_create_eq_ring_def split: option.splits prod.splits)
    note ab = alloc_eq_bal [OF al this, of x]
    show ?thesis
    proof (cases "e2 = 0")
      case False
      with a c Some al have "i' = i\<lparr>if_event_ring := (if_event_ring i)(k \<mapsto> r2)\<rparr>" "s' = s2" by (auto simp: if_create_eq_def)
      with ab cb Some show ?thesis by (intro exI [of _ "Some r2"]) simp
    next
      case True
      let ?irq = "Some (ifd_irq dev ! (k mod length (ifd_irq dev)))"
      obtain e3 r3 s3 where ac: "mqnic_activate_eq_ring r2 ?irq s2 = (e3, r3, s3)" by (metis prod_cases3)
      have "i' = i\<lparr>if_event_ring := (if_event_ring i)(k \<mapsto> r3)\<rparr>" "s' = mqnic_arm_eq r3 s3"
        using a c Some al ac True by (auto simp: if_create_eq_def split: if_splits)
      with ab cb Some activate_eq_bal [OF ac, of x] show ?thesis by (intro exI [of _ "Some r3"]) simp
    qed
  qed
  then obtain q where q: "i' = i\<lparr>if_event_ring := (if_event_ring i)(k := q)\<rparr>" "bal (trace s') x = bal (trace s) x + gain (own_eq x) q" by blast
  have "owned b x (i', s')" using owned_event [OF o k, of s' q] q v by simp
  with l show "owned b x (i', s') \<and> same_counts i i' \<and> (\<forall>j. j \<noteq> k \<longrightarrow> (if_event_ring i' j = None) = (if_event_ring i j = None)) \<and>
      (no_tx i' \<and> rings_bare i')"
    by (simp add: q(1) same_counts_def none_defs)
qed

interpretation c_tx: create_stage if_create_tx "\<lambda>i k. if_tx_ring i k = None" "\<lambda>i. no_tx_cpl i \<and> rings_bare i" MAX_TX_RINGS
proof unfold_locales
  fix k i s e i' s' b x
  assume a: "if_create_tx k (i, s) = Some (e, i', s')" and o: "owned b x (i, s)" and k: "k < MAX_TX_RINGS"
    and v: "if_tx_ring i k = None" and l: "no_tx_cpl i \<and> rings_bare i"
  obtain e1 p s1 where c: "mqnic_create_tx_ring (int k) (if_hw_addr i + ucast (if_tx_queue_offset i) + of_nat (k * QUEUE_STRIDE)) s = (e1, p, s1)" by (metis prod_cases3)
  have i: "i' = i\<lparr>if_tx_ring := (if_tx_ring i)(k := p)\<rparr>" "s' = s1"
    using a c v by (auto simp: if_create_tx_def fun_upd_idem split: option.splits)
  have "\<forall>r. p = Some r \<longrightarrow> calm_ring r" using c by (auto simp: mqnic_create_tx_ring_def calm_ring_def zero_ring_def split: option.splits prod.splits)
  then have "owned b x (i', s')" using owned_tx [OF o k, of p s'] create_tx_bal [OF c, of x] v i by simp
  moreover have "rings_bare i'" using l unfolding i none_defs by simp
  ultimately show "owned b x (i', s') \<and> same_counts i i' \<and> (\<forall>j. j \<noteq> k \<longrightarrow> (if_tx_ring i' j = None) = (if_tx_ring i j = None)) \<and>
      (no_tx_cpl i' \<and> rings_bare i')"
    using l by (simp add: i same_counts_def none_defs)
qed

interpretation c_tx_cpl: create_stage if_create_tx_cpl "\<lambda>i k. if_tx_cpl_ring i k = None" "\<lambda>i. no_rx i \<and> rings_bare i" MAX_TX_CPL_RINGS
proof unfold_locales
  fix k i s e i' s' b x
  assume a: "if_create_tx_cpl k (i, s) = Some (e, i', s')" and o: "owned b x (i, s)" and k: "k < MAX_TX_CPL_RINGS"
    and v: "if_tx_cpl_ring i k = None" and l: "no_rx i \<and> rings_bare i"
  obtain e1 p s1 where c: "mqnic_create_cq_ring (int k) (if_hw_addr i + ucast (if_tx_cpl_queue_offset i) + of_nat (k * CPL_QUEUE_STRIDE)) s = (e1, p, s1)" by (metis prod_cases3)
  have i: "i' = i\<lparr>if_tx_cpl_ring := (if_tx_cpl_ring i)(k := p)\<rparr>" "s' = s1"
    using a c v by (auto simp: if_create_tx_cpl_def fun_upd_idem split: option.splits)
  have "owned b x (i', s')" using owned_tx_cpl [OF o k, of s' p] create_cq_bal [OF c, of x] v i by simp
  moreover have "rings_bare i'" using l c unfolding i none_defs by (auto simp: mqnic_create_cq_ring_def split: option.splits prod.splits)
  ultimately show "owned b x (i', s') \<and> same_counts i i' \<and> (\<forall>j. j \<noteq> k \<longrightarrow> (if_tx_cpl_ring i' j = None) = (if_tx_cpl_ring i j = None)) \<and>
      (no_rx i' \<and> rings_bare i')"
    using l by (simp add: i same_counts_def none_defs)
qed

interpretation c_rx: create_stage if_create_rx "\<lambda>i k. if_rx_ring i k = None" "\<lambda>i. no_rx_cpl i \<and> rings_bare i" MAX_RX_RINGS
proof unfold_locales
  fix k i s e i' s' b x
  assume a: "if_create_rx k (i, s) = Some (e, i', s')" and o: "owned b x (i, s)" and k: "k < MAX_RX_RINGS"
    and v: "if_rx_ring i k = None" and l: "no_rx_cpl i \<and> rings_bare i"
  obtain e1 p s1 where c: "mqnic_create_rx_ring (int k) (if_hw_addr i + ucast (if_rx_queue_offset i) + of_nat (k * QUEUE_STRIDE)) s = (e1, p, s1)" by (metis prod_cases3)
  have i: "i' = i\<lparr>if_rx_ring := (if_rx_ring i)(k := p)\<rparr>" "s' = s1"
    using a c v by (auto simp: if_create_rx_def fun_upd_idem split: option.splits)
  have "\<forall>r. p = Some r \<longrightarrow> calm_ring r" using c by (auto simp: mqnic_create_rx_ring_def calm_ring_def zero_ring_def split: option.splits prod.splits)
  then have "owned b x (i', s')" using owned_rx [OF o k, of p s'] create_rx_bal [OF c, of x] v i by simp
  moreover have "rings_bare i'" using l unfolding i none_defs by simp
  ultimately show "owned b x (i', s') \<and> same_counts i i' \<and> (\<forall>j. j \<noteq> k \<longrightarrow> (if_rx_ring i' j = None) = (if_rx_ring i j = None)) \<and>
      (no_rx_cpl i' \<and> rings_bare i')"
    using l by (simp add: i same_counts_def none_defs)
qed

interpretation c_rx_cpl: create_stage if_create_rx_cpl "\<lambda>i k. if_rx_cpl_ring i k = None" "\<lambda>i. no_ports i \<and> rings_bare i" MAX_RX_CPL_RINGS
proof unfold_locales
  fix k i s e i' s' b x
  assume a: "if_create_rx_cpl k (i, s) = Some (e, i', s')" and o: "owned b x (i, s)" and k: "k < MAX_RX_CPL_RINGS"
    and v: "if_rx_cpl_ring i k = None" and l: "no_ports i \<and> rings_bare i"
  obtain e1 p s1 where c: "mqnic_create_cq_ring (int k) (if_hw_addr i + ucast (if_rx_cpl_queue_offset i) + of_nat (k * CPL_QUEUE_STRIDE)) s = (e1, p, s1)" by (metis prod_cases3)
  have i: "i' = i\<lparr>if_rx_cpl_ring := (if_rx_cpl_ring i)(k := p)\<rparr>" "s' = s1"
    using a c v by (auto simp: if_create_rx_cpl_def fun_upd_idem split: option.splits)
  have "owned b x (i', s')" using owned_rx_cpl [OF o k, of s' p] create_cq_bal [OF c, of x] v i by simp
  moreover have "rings_bare i'" using l c unfolding i none_defs by (auto simp: mqnic_create_cq_ring_def split: option.splits prod.splits)
  ultimately show "owned b x (i', s') \<and> same_counts i i' \<and> (\<forall>j. j \<noteq> k \<longrightarrow> (if_rx_cpl_ring i' j = None) = (if_rx_cpl_ring i j = None)) \<and>
      (no_ports i' \<and> rings_bare i')"
    using l by (simp add: i same_counts_def none_defs)
qed

interpretation c_port: create_stage if_create_port "\<lambda>i k. if_port i k = None" rings_bare MAX_PORTS
proof unfold_locales
  fix k i s e i' s' b x
  assume a: "if_create_port k (i, s) = Some (e, i', s')" and o: "owned b x (i, s)" and k: "k < MAX_PORTS"
    and v: "if_port i k = None" and l: "rings_bare i"
  obtain e1 p s1 where c: "mqnic_create_port (if_tx_queue_count i) k (if_hw_addr i + ucast (if_port_offset i) + ucast (of_nat k * if_port_stride i)) s = (e1, p, s1)" by (metis prod_cases3)
  have i: "i' = i\<lparr>if_port := (if_port i)(k := p)\<rparr>" "s' = s1"
    using a c v by (auto simp: if_create_port_def fun_upd_idem split: option.splits)
  have "owned b x (i', s')" using owned_port [OF o k, of s' p] create_port_bal [OF c, of x] v i by simp
  moreover have "rings_bare i'" using l unfolding i none_defs by simp
  ultimately show "owned b x (i', s') \<and> same_counts i i' \<and> (\<forall>j. j \<noteq> k \<longrightarrow> (if_port i' j = None) = (if_port i j = None)) \<and>
      rings_bare i'"
    using l by (simp add: i same_counts_def none_defs)
qed


text \<open>A stage has run: the accounts hold, and without an error so does \<open>L\<close>.\<close>

definition stage_end :: "mqnic_if \<Rightarrow> int \<Rightarrow> res \<Rightarrow> (mqnic_if \<Rightarrow> bool) \<Rightarrow> int \<Rightarrow> mqnic_if \<times> sys \<Rightarrow> bool" where
  "stage_end i0 b x L e v \<longleftrightarrow> owned b x v \<and> same_counts i0 (fst v) \<and> (e = 0 \<longrightarrow> L (fst v))"

lemma eseq_stage:
  assumes "eseq r f = Some (e, w)" "\<And>e v. r = Some (e, v) \<Longrightarrow> stage_end i0 b x L e v"
    and "\<And>v. f v = Some (e, w) \<Longrightarrow> stage_end i0 b x L 0 v \<Longrightarrow> stage_end i0 b x M e w"
  shows "stage_end i0 b x M e w"
proof -
  obtain e1 v where r: "r = Some (e1, v)" using assms(1) by (auto simp: eseq_def split: option.splits)
  show ?thesis
  proof (cases "e1 = 0")
    case True
    with assms r show ?thesis by (auto simp: eseq_def)
  next
    case False
    with assms(1,2) r show ?thesis by (auto simp: eseq_def stage_end_def)
  qed
qed

lemma create_parts_owned:
  assumes "if_create_parts mp dev w = Some (e, w')" "owned b x w" "counts_ok (fst w)"
    "\<forall>k. if_event_ring (fst w) k = None" "no_tx (fst w)" "rings_bare (fst w)"
  shows "stage_end (fst w) b x rings_bare e w'"
proof -
  note lim = assms(3) [unfolded counts_ok_def]
  show ?thesis
    using assms(1) unfolding if_create_parts_def
  proof (rule eseq_stage)
    fix e v assume f: "efold (if_create_eq mp dev) [0..<unat (if_event_queue_count (fst w))] w = Some (e, v)"
    show "stage_end (fst w) b x (\<lambda>i. no_tx i \<and> rings_bare i) e v"
      using c_event.run [OF f _ assms(2)] lim assms(4-6) by (simp add: stage_end_def)
  next
    fix v assume p: "stage_end (fst w) b x (\<lambda>i. no_tx i \<and> rings_bare i) 0 v"
    assume "eseq (efold if_create_tx [0..<unat (if_tx_queue_count (fst v))] v)
      (\<lambda>w. eseq (efold if_create_tx_cpl [0..<unat (if_tx_cpl_queue_count (fst w))] w)
      (\<lambda>w. eseq (efold if_create_rx [0..<unat (if_rx_queue_count (fst w))] w)
      (\<lambda>w. eseq (efold if_create_rx_cpl [0..<unat (if_rx_cpl_queue_count (fst w))] w)
      (\<lambda>w. efold if_create_port [0..<unat (if_port_count (fst w))] w)))) = Some (e, w')"
    then show "stage_end (fst w) b x rings_bare e w'"
    proof (rule eseq_stage)
      fix e u assume f: "efold if_create_tx [0..<unat (if_tx_queue_count (fst v))] v = Some (e, u)"
      show "stage_end (fst w) b x (\<lambda>i. no_tx_cpl i \<and> rings_bare i) e u"
        using c_tx.run [OF f, of b x] p lim by (auto simp: stage_end_def no_tx_def same_counts_def)
    next
      fix v assume p: "stage_end (fst w) b x (\<lambda>i. no_tx_cpl i \<and> rings_bare i) 0 v"
      assume "eseq (efold if_create_tx_cpl [0..<unat (if_tx_cpl_queue_count (fst v))] v)
        (\<lambda>w. eseq (efold if_create_rx [0..<unat (if_rx_queue_count (fst w))] w)
        (\<lambda>w. eseq (efold if_create_rx_cpl [0..<unat (if_rx_cpl_queue_count (fst w))] w)
        (\<lambda>w. efold if_create_port [0..<unat (if_port_count (fst w))] w))) = Some (e, w')"
      then show "stage_end (fst w) b x rings_bare e w'"
      proof (rule eseq_stage)
        fix e u assume f: "efold if_create_tx_cpl [0..<unat (if_tx_cpl_queue_count (fst v))] v = Some (e, u)"
        show "stage_end (fst w) b x (\<lambda>i. no_rx i \<and> rings_bare i) e u"
          using c_tx_cpl.run [OF f, of b x] p lim by (auto simp: stage_end_def no_tx_cpl_def same_counts_def)
      next
        fix v assume p: "stage_end (fst w) b x (\<lambda>i. no_rx i \<and> rings_bare i) 0 v"
        assume "eseq (efold if_create_rx [0..<unat (if_rx_queue_count (fst v))] v)
          (\<lambda>w. eseq (efold if_create_rx_cpl [0..<unat (if_rx_cpl_queue_count (fst w))] w)
          (\<lambda>w. efold if_create_port [0..<unat (if_port_count (fst w))] w)) = Some (e, w')"
        then show "stage_end (fst w) b x rings_bare e w'"
        proof (rule eseq_stage)
          fix e u assume f: "efold if_create_rx [0..<unat (if_rx_queue_count (fst v))] v = Some (e, u)"
          show "stage_end (fst w) b x (\<lambda>i. no_rx_cpl i \<and> rings_bare i) e u"
            using c_rx.run [OF f, of b x] p lim by (auto simp: stage_end_def no_rx_def same_counts_def)
        next
          fix v assume p: "stage_end (fst w) b x (\<lambda>i. no_rx_cpl i \<and> rings_bare i) 0 v"
          assume "eseq (efold if_create_rx_cpl [0..<unat (if_rx_cpl_queue_count (fst v))] v)
            (\<lambda>w. efold if_create_port [0..<unat (if_port_count (fst w))] w) = Some (e, w')"
          then show "stage_end (fst w) b x rings_bare e w'"
          proof (rule eseq_stage)
            fix e u assume f: "efold if_create_rx_cpl [0..<unat (if_rx_cpl_queue_count (fst v))] v = Some (e, u)"
            show "stage_end (fst w) b x (\<lambda>i. no_ports i \<and> rings_bare i) e u"
              using c_rx_cpl.run [OF f, of b x] p lim by (auto simp: stage_end_def no_rx_cpl_def same_counts_def)
          next
            fix v assume p: "stage_end (fst w) b x (\<lambda>i. no_ports i \<and> rings_bare i) 0 v"
              and f: "efold if_create_port [0..<unat (if_port_count (fst v))] v = Some (e, w')"
            show "stage_end (fst w) b x rings_bare e w'"
              using c_port.run [OF f, of b x] p lim by (auto simp: stage_end_def no_ports_def same_counts_def)
          qed
        qed
      qed
    qed
  qed
qed

lemma alloc_tx_calm: "mqnic_alloc_tx_ring r n st s = (0, r', s') \<Longrightarrow> calm_ring r'"
  by (auto simp: mqnic_alloc_tx_ring_def calm_ring_def Let_def split: option.splits prod.splits if_splits simp del: iowrites_Cons)

lemma nd_alloc_tx_owned:
  assumes "nd_alloc_tx n st k (i, s) = Some (0, i', s')" "owned b x (i, s)"
  shows "owned b x (i', s') \<and> if_tx_cpl_ring i' = if_tx_cpl_ring i \<and> if_rx_cpl_ring i' = if_rx_cpl_ring i"
proof -
  obtain r where r: "if_tx_ring i k = Some r" using assms(1) by (auto simp: nd_alloc_tx_def split: Option.bind_split_asm)
  obtain e r' t where a: "mqnic_alloc_tx_ring r n st s = (e, r', t)" by (metis prod_cases3)
  have e: "e = 0" "i' = i\<lparr>if_tx_ring := (if_tx_ring i)(k \<mapsto> r')\<rparr>" "s' = t" using assms(1) r a by (simp_all add: nd_alloc_tx_def)
  have "bal (trace t) x = bal (trace s) x - own_ring x r + own_ring x r'" using alloc_tx_bal [OF a [unfolded e(1)], of x] by simp
  with alloc_tx_calm [OF a [unfolded e(1)]] owned_tx [OF assms(2), of k "Some r'" t] r sized_less(2) [OF owned_sized [OF assms(2)] r] show ?thesis by (simp add: e)
qed

lemma alloc_rx_calm: "mqnic_alloc_rx_ring r n st s = (0, r', s') \<Longrightarrow> calm_ring r'"
  by (auto simp: mqnic_alloc_rx_ring_def calm_ring_def Let_def split: option.splits prod.splits if_splits simp del: iowrites_Cons)

lemma nd_alloc_rx_owned:
  assumes "nd_alloc_rx n st k (i, s) = Some (0, i', s')" "owned b x (i, s)"
  shows "owned b x (i', s') \<and> if_tx_cpl_ring i' = if_tx_cpl_ring i \<and> if_rx_cpl_ring i' = if_rx_cpl_ring i"
proof -
  obtain r where r: "if_rx_ring i k = Some r" using assms(1) by (auto simp: nd_alloc_rx_def split: Option.bind_split_asm)
  obtain e r' t where a: "mqnic_alloc_rx_ring r n st s = (e, r', t)" by (metis prod_cases3)
  have e: "e = 0" "i' = i\<lparr>if_rx_ring := (if_rx_ring i)(k \<mapsto> r')\<rparr>" "s' = t" using assms(1) r a by (simp_all add: nd_alloc_rx_def)
  have "bal (trace t) x = bal (trace s) x - own_ring x r + own_ring x r'" using alloc_rx_bal [OF a [unfolded e(1)], of x] by simp
  with alloc_rx_calm [OF a [unfolded e(1)]] owned_rx [OF assms(2), of k "Some r'" t] r sized_less(4) [OF owned_sized [OF assms(2)] r] show ?thesis by (simp add: e)
qed

lemma nd_alloc_tx_cpl_owned:
  assumes "nd_alloc_tx_cpl n st k (i, s) = Some (0, i', s')" "owned b x (i, s)" "\<forall>r. if_tx_cpl_ring i k = Some r \<longrightarrow> cq_buf r = None"
  shows "owned b x (i', s') \<and> (\<forall>j. j \<noteq> k \<longrightarrow> if_tx_cpl_ring i' j = if_tx_cpl_ring i j) \<and> if_rx_cpl_ring i' = if_rx_cpl_ring i"
proof -
  obtain r where r: "if_tx_cpl_ring i k = Some r" using assms(1) by (auto simp: nd_alloc_tx_cpl_def split: Option.bind_split_asm)
  obtain e r' t where a: "mqnic_alloc_cq_ring r n st s = (e, r', t)" by (metis prod_cases3)
  have e: "i' = i\<lparr>if_tx_cpl_ring := (if_tx_cpl_ring i)(k \<mapsto> r')\<rparr>" "s' = t" using assms(1) r a by (simp_all add: nd_alloc_tx_cpl_def)
  have "bal (trace t) x = bal (trace s) x - own_cq x r + own_cq x r'" using alloc_cq_bal [OF a, of x] assms(3) r by simp
  with owned_tx_cpl [OF assms(2), of k t "Some r'"] r sized_less(3) [OF owned_sized [OF assms(2)] r] show ?thesis by (simp add: e)
qed

lemma nd_alloc_rx_cpl_owned:
  assumes "nd_alloc_rx_cpl n st k (i, s) = Some (0, i', s')" "owned b x (i, s)" "\<forall>r. if_rx_cpl_ring i k = Some r \<longrightarrow> cq_buf r = None"
  shows "owned b x (i', s') \<and> (\<forall>j. j \<noteq> k \<longrightarrow> if_rx_cpl_ring i' j = if_rx_cpl_ring i j) \<and> if_tx_cpl_ring i' = if_tx_cpl_ring i"
proof -
  obtain r where r: "if_rx_cpl_ring i k = Some r" using assms(1) by (auto simp: nd_alloc_rx_cpl_def split: Option.bind_split_asm)
  obtain e r' t where a: "mqnic_alloc_cq_ring r n st s = (e, r', t)" by (metis prod_cases3)
  have e: "i' = i\<lparr>if_rx_cpl_ring := (if_rx_cpl_ring i)(k \<mapsto> r')\<rparr>" "s' = t" using assms(1) r a by (simp_all add: nd_alloc_rx_cpl_def)
  have "bal (trace t) x = bal (trace s) x - own_cq x r + own_cq x r'" using alloc_cq_bal [OF a, of x] assms(3) r by simp
  with owned_rx_cpl [OF assms(2), of k t "Some r'"] r sized_less(5) [OF owned_sized [OF assms(2)] r] show ?thesis by (simp add: e)
qed

definition bare_from :: "nat \<Rightarrow> (nat \<Rightarrow> mqnic_cq_ring option) \<Rightarrow> bool" where
  "bare_from k m \<longleftrightarrow> (\<forall>j\<ge>k. \<forall>r. m j = Some r \<longrightarrow> cq_buf r = None)"

lemma bare_from_0: "bare m \<Longrightarrow> bare_from 0 m"
  by (simp add: bare_def bare_from_def)

lemma alloc_tx_run:
  assumes "efold (nd_alloc_tx a st) [0..<n] w = Some (0, w')" "owned b x w" "rings_bare (fst w)"
  shows "owned b x w' \<and> rings_bare (fst w')"
proof -
  have "if (0::int) = 0 then (owned b x w' \<and> rings_bare (fst w')) else True"
  proof (rule efold_inv [OF assms(1), where P = "\<lambda>_ v. owned b x v \<and> rings_bare (fst v)"])
    show "owned b x w \<and> rings_bare (fst w)" using assms(2,3) by simp
  next
    fix k v e v' assume f: "nd_alloc_tx a st k v = Some (e, v')" and p: "owned b x v \<and> rings_bare (fst v)"
    show "if e = 0 then owned b x v' \<and> rings_bare (fst v') else True"
      using nd_alloc_tx_owned [of a st k "fst v" "snd v" "fst v'" "snd v'" b x] f p by (auto simp: rings_bare_def)
  qed
  then show ?thesis by simp
qed

lemma alloc_rx_run:
  assumes "efold (nd_alloc_rx a st) [0..<n] w = Some (0, w')" "owned b x w" "bare (if_rx_cpl_ring (fst w))"
  shows "owned b x w' \<and> bare (if_rx_cpl_ring (fst w'))"
proof -
  have "if (0::int) = 0 then (owned b x w' \<and> bare (if_rx_cpl_ring (fst w'))) else True"
  proof (rule efold_inv [OF assms(1), where P = "\<lambda>_ v. owned b x v \<and> bare (if_rx_cpl_ring (fst v))"])
    show "owned b x w \<and> bare (if_rx_cpl_ring (fst w))" using assms(2,3) by simp
  next
    fix k v e v' assume f: "nd_alloc_rx a st k v = Some (e, v')" and p: "owned b x v \<and> bare (if_rx_cpl_ring (fst v))"
    show "if e = 0 then owned b x v' \<and> bare (if_rx_cpl_ring (fst v')) else True"
      using nd_alloc_rx_owned [of a st k "fst v" "snd v" "fst v'" "snd v'" b x] f p by (auto simp: rings_bare_def)
  qed
  then show ?thesis by simp
qed

lemma alloc_tx_cpl_run:
  assumes "efold (nd_alloc_tx_cpl a st) [0..<n] w = Some (0, w')" "owned b x w" "rings_bare (fst w)"
  shows "owned b x w' \<and> bare (if_rx_cpl_ring (fst w'))"
proof -
  have "if (0::int) = 0 then (owned b x w' \<and> bare_from n (if_tx_cpl_ring (fst w')) \<and> bare (if_rx_cpl_ring (fst w'))) else True"
  proof (rule efold_inv [OF assms(1), where P = "\<lambda>k v. owned b x v \<and> bare_from k (if_tx_cpl_ring (fst v)) \<and> bare (if_rx_cpl_ring (fst v))"])
    show "owned b x w \<and> bare_from 0 (if_tx_cpl_ring (fst w)) \<and> bare (if_rx_cpl_ring (fst w))"
      using assms(2,3) bare_from_0 by (simp add: rings_bare_def)
  next
    fix k v e v' assume f: "nd_alloc_tx_cpl a st k v = Some (e, v')"
      and p: "owned b x v \<and> bare_from k (if_tx_cpl_ring (fst v)) \<and> bare (if_rx_cpl_ring (fst v))"
    show "if e = 0 then owned b x v' \<and> bare_from (Suc k) (if_tx_cpl_ring (fst v')) \<and> bare (if_rx_cpl_ring (fst v')) else True"
    proof (cases "e = 0")
      case True
      have "\<forall>r. if_tx_cpl_ring (fst v) k = Some r \<longrightarrow> cq_buf r = None" using p unfolding bare_from_def by blast
      with nd_alloc_tx_cpl_owned [of a st k "fst v" "snd v" "fst v'" "snd v'" b x] f p True show ?thesis
        by (simp add: bare_from_def) (metis Suc_leD Suc_n_not_le_n)
    qed simp
  qed
  then show ?thesis by simp
qed

lemma alloc_rx_cpl_run:
  assumes "efold (nd_alloc_rx_cpl a st) [0..<n] w = Some (0, w')" "owned b x w" "bare (if_rx_cpl_ring (fst w))"
  shows "owned b x w'"
proof -
  have "if (0::int) = 0 then (owned b x w' \<and> bare_from n (if_rx_cpl_ring (fst w'))) else True"
  proof (rule efold_inv [OF assms(1), where P = "\<lambda>k v. owned b x v \<and> bare_from k (if_rx_cpl_ring (fst v))"])
    show "owned b x w \<and> bare_from 0 (if_rx_cpl_ring (fst w))" using assms(2,3) bare_from_0 by simp
  next
    fix k v e v' assume f: "nd_alloc_rx_cpl a st k v = Some (e, v')" and p: "owned b x v \<and> bare_from k (if_rx_cpl_ring (fst v))"
    show "if e = 0 then owned b x v' \<and> bare_from (Suc k) (if_rx_cpl_ring (fst v')) else True"
    proof (cases "e = 0")
      case True
      have "\<forall>r. if_rx_cpl_ring (fst v) k = Some r \<longrightarrow> cq_buf r = None" using p unfolding bare_from_def by blast
      with nd_alloc_rx_cpl_owned [of a st k "fst v" "snd v" "fst v'" "snd v'" b x] f p True show ?thesis
        by (simp add: bare_from_def) (metis Suc_leD Suc_n_not_le_n)
    qed simp
  qed
  then show ?thesis by simp
qed

lemma eseq0: "eseq r f = Some (0, w) \<Longrightarrow> \<exists>v. r = Some (0, v) \<and> f v = Some (0, w)"
  by (auto simp: eseq_def split: option.splits if_splits)

lemma nd_alloc_rings_owned:
  assumes "nd_alloc_rings mp nd w = Some (0, w')" "owned b x w" "rings_bare (fst w)"
  shows "owned b x w'"
proof -
  from eseq0 [OF assms(1) [unfolded nd_alloc_rings_def]] obtain w1 where 1:
    "efold (nd_alloc_tx (num_tx_queue_entries mp) (DESC_SIZE * uint (min (if_max_desc_block_size (fst w)) 4))) [0..<unat (pv_tx_queue_count nd)] w = Some (0, w1)"
    "eseq (efold (nd_alloc_tx_cpl (num_tx_queue_entries mp) CPL_SIZE) [0..<unat (pv_tx_cpl_queue_count nd)] w1)
      (\<lambda>w. eseq (efold (nd_alloc_rx (num_rx_queue_entries mp) DESC_SIZE) [0..<unat (pv_rx_queue_count nd)] w)
      (\<lambda>w. efold (nd_alloc_rx_cpl (num_rx_queue_entries mp) CPL_SIZE) [0..<unat (pv_rx_cpl_queue_count nd)] w)) = Some (0, w')" by blast
  from eseq0 [OF 1(2)] obtain w2 where 2:
    "efold (nd_alloc_tx_cpl (num_tx_queue_entries mp) CPL_SIZE) [0..<unat (pv_tx_cpl_queue_count nd)] w1 = Some (0, w2)"
    "eseq (efold (nd_alloc_rx (num_rx_queue_entries mp) DESC_SIZE) [0..<unat (pv_rx_queue_count nd)] w2)
      (\<lambda>w. efold (nd_alloc_rx_cpl (num_rx_queue_entries mp) CPL_SIZE) [0..<unat (pv_rx_cpl_queue_count nd)] w) = Some (0, w')" by blast
  from eseq0 [OF 2(2)] obtain w3 where 3:
    "efold (nd_alloc_rx (num_rx_queue_entries mp) DESC_SIZE) [0..<unat (pv_rx_queue_count nd)] w2 = Some (0, w3)"
    "efold (nd_alloc_rx_cpl (num_rx_queue_entries mp) CPL_SIZE) [0..<unat (pv_rx_cpl_queue_count nd)] w3 = Some (0, w')" by blast
  note a = alloc_tx_run [OF 1(1) assms(2,3)]
  note b = alloc_tx_cpl_run [OF 2(1) conjunct1 [OF a] conjunct2 [OF a]]
  note c = alloc_rx_run [OF 3(1) conjunct1 [OF b] conjunct2 [OF b]]
  show ?thesis by (rule alloc_rx_cpl_run [OF 3(2) conjunct1 [OF c] conjunct2 [OF c]])
qed

lemma create_netdev_owned:
  assumes "mqnic_create_netdev valid rnd mp dev None index port i s = Some (e, nd, i', s')" "owned b x (i, s)" "rings_bare i"
  shows "owned (b + own_nd x nd) x (i', s')"
proof -
  obtain p t where k: "kzalloc s = (p, t)" by force
  show ?thesis
  proof (cases p)
    case None
    with assms k bal_kzalloc [OF k, of x] show ?thesis by (simp add: mqnic_create_netdev_def owned_def own_nd_def)
  next
    case (Some m)
    let ?t = "kvoid ''netif_set_real_num_rx_queues'' [uint (if_rx_queue_count i)]
        (kvoid ''netif_set_real_num_tx_queues'' [uint (if_tx_queue_count i)] t)"
    from assms(1) k Some obtain mac s2 where m: "nd_mac valid rnd dev port = Some mac"
      "nd_alloc_rings mp (init_netdev m i index port mac) (i, ?t) = Some (0, i', s2)"
      "s' = snd (kcall ''register_netdev'' [] (kvoid ''netif_carrier_off'' [] s2))" "\<exists>d. nd = Some d \<and> nd_mem d = m"
      by (auto simp: mqnic_create_netdev_def mqnic_destroy_netdev_def init_netdev_def Let_def split: Option.bind_split_asm if_splits prod.splits)
    have "owned (b + of_bool (x = Mem m)) x (i, ?t)" using assms(2) bal_kzalloc [OF k, of x] Some by (simp add: owned_def)
    from nd_alloc_rings_owned [OF m(2) this] assms(3) have "owned (b + of_bool (x = Mem m)) x (i', s2)" by simp
    with m(3,4) show ?thesis by (auto simp: owned_def own_nd_def kcall_def)
  qed
qed

lemma read_interface_parts:
  "bal (trace (snd (read_interface dev m index hw s))) x = bal (trace s) x"
  "if_mem (fst (read_interface dev m index hw s)) = m" "if_event_ring (fst (read_interface dev m index hw s)) = Map.empty"
  "if_tx_ring (fst (read_interface dev m index hw s)) = Map.empty" "if_tx_cpl_ring (fst (read_interface dev m index hw s)) = Map.empty"
  "if_rx_ring (fst (read_interface dev m index hw s)) = Map.empty" "if_rx_cpl_ring (fst (read_interface dev m index hw s)) = Map.empty"
  "if_port (fst (read_interface dev m index hw s)) = Map.empty"
  by (simp_all add: read_interface_def Let_def del: ioreads.simps split: prod.split)
    (metis bal_ioreads snd_conv)

lemma read_interface_counts: "counts_ok (fst (read_interface dev m index hw s))"
proof -
  have le: "unat (min v (of_nat n :: u32)) \<le> n" if "n < 2 ^ 32" for v n
    using that by (simp add: min_def unat_of_nat word_le_nat_alt)
  have "MAX_EVENT_RINGS < 2 ^ 32" "MAX_TX_RINGS < 2 ^ 32" "MAX_TX_CPL_RINGS < 2 ^ 32" "MAX_RX_RINGS < 2 ^ 32"
    "MAX_RX_CPL_RINGS < 2 ^ 32" "MAX_PORTS < 2 ^ 32"
    by (simp_all add: MAX_EVENT_RINGS_def MAX_TX_RINGS_def MAX_TX_CPL_RINGS_def MAX_RX_RINGS_def MAX_RX_CPL_RINGS_def MAX_PORTS_def)
  then show ?thesis by (simp add: read_interface_def Let_def counts_ok_def le del: ioreads.simps split: prod.split)
qed

lemma read_interface_props:
  assumes "read_interface dev m index hw s = (i, s')"
  shows "bal (trace s') x = bal (trace s) x" "counts_ok i" "if_mem i = m" "\<forall>k. if_event_ring i k = None" "no_tx i" "rings_bare i" "sized i"
  using read_interface_parts [of dev m index hw s] read_interface_counts [of dev m index hw s]
  by (simp_all add: assms none_defs sized_def)

lemma probe_props:
  assumes "probe_block_size i s = (i', s')"
  shows "bal (trace s') x = bal (trace s) x" "\<exists>n. i' = i\<lparr>if_max_desc_block_size := n\<rparr>"
  using assms by (auto simp: probe_block_size_def ioread32_def Let_def)

lemma create_interface_owned:
  assumes "mqnic_create_interface valid rnd mp dev index hw s = Some (e, r, s')"
  shows "case r of None \<Rightarrow> e \<noteq> 0 \<and> bal (trace s') x = bal (trace s) x
    | Some (i, nd) \<Rightarrow> e = 0 \<and> owned (bal (trace s) x + own_nd x nd) x (i, s')"
proof -
  obtain p s1 where k: "kzalloc s = (p, s1)" by force
  show ?thesis
  proof (cases p)
    case None
    with assms k bal_kzalloc [OF k, of x] show ?thesis by (simp add: mqnic_create_interface_def)
  next
    case (Some m)
    obtain i2 s2 where rd: "read_interface dev m index hw s1 = (i2, s2)" by force
    obtain i3 s3 where pr: "probe_block_size i2 s2 = (i3, s3)" by force
    note a = read_interface_props [OF rd]
    obtain n where i3: "i3 = i2\<lparr>if_max_desc_block_size := n\<rparr>" using probe_props(2) [OF pr] by blast
    let ?b = "bal (trace s) x"
    have ow: "owns (own_eq x) MAX_EVENT_RINGS (if_event_ring i3) = 0" "owns (own_ring x) MAX_TX_RINGS (if_tx_ring i3) = 0"
      "owns (own_cq x) MAX_TX_CPL_RINGS (if_tx_cpl_ring i3) = 0" "owns (own_ring x) MAX_RX_RINGS (if_rx_ring i3) = 0"
      "owns (own_cq x) MAX_RX_CPL_RINGS (if_rx_cpl_ring i3) = 0" "owns (own_port x) MAX_PORTS (if_port i3) = 0"
      using a(4,5) by (auto intro!: owns_none simp: i3 none_defs)
    have "own_if x i3 = of_bool (x = Mem m)" using ow a(3) unfolding own_if_def by (simp add: i3)
    then have o: "owned ?b x (i3, s3)"
      using a(1,5,7) probe_props(1) [OF pr, of x] bal_kzalloc [OF k, of x] Some by (simp add: owned_def sized_def calm_def none_defs i3)
    have c3: "counts_ok i3" "\<forall>k. if_event_ring i3 k = None" "no_tx i3" "rings_bare i3"
      using a by (simp_all add: i3 counts_ok_def none_defs)
    obtain e4 i4 s4 where cp: "if_create_parts mp dev (i3, s3) = Some (e4, i4, s4)"
      using assms k Some rd pr by (auto simp: mqnic_create_interface_def split: Option.bind_split_asm)
    have o4: "owned ?b x (i4, s4)" "e4 = 0 \<longrightarrow> rings_bare i4"
      using create_parts_owned [OF cp o] c3 by (auto simp: stage_end_def)
    show ?thesis
    proof (cases "e4 = 0")
      case False
      with assms k Some rd pr cp obtain s5 where "mqnic_destroy_interface i4 None s4 = Some s5" "r = None" "e = e4" "s' = s5"
        by (auto simp: mqnic_create_interface_def split: Option.bind_split_asm)
      with destroy_interface_owned [of i4 None s4 s5 ?b x] o4(1) False show ?thesis by (simp add: own_nd_def)
    next
      case True
      let ?i = "i4\<lparr>if_dev_port_base := ifd_dev_port_max dev, if_dev_port_max := ifd_dev_port_max dev + 1\<rparr>"
      obtain e5 nd i5 s5 where n: "mqnic_create_netdev valid rnd mp dev None 0 (ifd_dev_port_max dev) ?i s4 = Some (e5, nd, i5, s5)"
        using assms k Some rd pr cp True by (auto simp: mqnic_create_interface_def split: Option.bind_split_asm)
      have "owned ?b x (?i, s4)" using o4(1) by (simp add: owned_def sized_def calm_def own_if_def)
      from create_netdev_owned [OF n this] o4(2) True have o5: "owned (?b + own_nd x nd) x (i5, s5)" by (simp add: none_defs)
      show ?thesis
      proof (cases "e5 = 0")
        case False
        with assms k Some rd pr cp True n obtain s6 where "mqnic_destroy_interface i5 nd s5 = Some s6" "r = None" "e = e5" "s' = s6"
          by (auto simp: mqnic_create_interface_def split: Option.bind_split_asm)
        with destroy_interface_owned [of i5 nd s5 s6 ?b x] o5 False show ?thesis by simp
      next
        case e5: True
        with assms k Some rd pr cp True n have "r = Some (i5, nd)" "e = 0" "s' = s5" by (auto simp: mqnic_create_interface_def)
        with o5 show ?thesis by simp
      qed
    qed
  qed
qed

lemma nd_free_total:
  "owned b x w \<Longrightarrow> nd_free_tx k w \<noteq> None" "owned b x w \<Longrightarrow> nd_free_rx k w \<noteq> None"
  "nd_free_tx_cpl k w \<noteq> None" "nd_free_rx_cpl k w \<noteq> None"
proof -
  obtain i s where w: "w = (i, s)" by force
  show "nd_free_tx k w \<noteq> None" if "owned b x w"
  proof (cases "if_tx_ring i k")
    case (Some r)
    have "mqnic_free_tx_ring r (heap_of (if_tx_cpl_ring i)) s \<noteq> None" using free_tx_total owned_calm(1) that Some w by blast
    then show ?thesis using Some by (auto simp: w nd_free_tx_def)
  qed (simp add: w nd_free_tx_def)
  show "nd_free_rx k w \<noteq> None" if "owned b x w"
  proof (cases "if_rx_ring i k")
    case (Some r)
    have "mqnic_free_rx_ring r (heap_of (if_rx_cpl_ring i)) s \<noteq> None" using free_rx_total owned_calm(2) that Some w by blast
    then show ?thesis using Some by (auto simp: w nd_free_rx_def)
  qed (simp add: w nd_free_rx_def)
  show "nd_free_tx_cpl k w \<noteq> None" "nd_free_rx_cpl k w \<noteq> None"
    by (simp_all add: w nd_free_tx_cpl_def nd_free_rx_cpl_def split: option.split prod.split)
qed

lemma ofold_keeps_total:
  assumes "P w" "\<And>k v. P v \<Longrightarrow> f k v \<noteq> None" "\<And>k v v'. f k v = Some v' \<Longrightarrow> P v \<Longrightarrow> P v'"
  shows "\<exists>w'. ofold f ks w = Some w' \<and> P w'"
  using assms(1)
proof (induction ks arbitrary: w)
  case (Cons k ks)
  then obtain v where v: "f k w = Some v" using assms(2) by blast
  with Cons.IH [OF assms(3) [OF v Cons.prems]] show ?case by simp
qed simp

lemma destroy_interface_total:
  assumes "owned b x (i, s)"
  shows "\<exists>s'. mqnic_destroy_interface i nd s = Some s'"
proof -
  have "\<exists>w0. (case nd of None \<Rightarrow> Some (i, s) | Some _ \<Rightarrow> mqnic_destroy_netdev nd i s) = Some w0 \<and> (\<exists>b. owned b x w0)"
  proof (cases nd)
    case (Some d)
    let ?s = "if pv_registered d then kvoid ''unregister_netdev'' [] s else s"
    have "owned b x (i, ?s)" using assms by (simp add: owned_def)
    then obtain w1 where 1: "ofold nd_free_tx [0..<unat (pv_tx_queue_count d)] (i, ?s) = Some w1" "owned b x w1"
      using ofold_keeps_total [where P = "owned b x" and f = nd_free_tx] nd_free_total(1) nd_free_tx_owned by blast
    then obtain w2 where 2: "ofold nd_free_tx_cpl [0..<unat (pv_tx_cpl_queue_count d)] w1 = Some w2" "owned b x w2"
      using ofold_keeps_total [where P = "owned b x" and f = nd_free_tx_cpl] nd_free_total(3) nd_free_cpl_owned(1) by blast
    then obtain w3 where 3: "ofold nd_free_rx [0..<unat (pv_rx_queue_count d)] w2 = Some w3" "owned b x w3"
      using ofold_keeps_total [where P = "owned b x" and f = nd_free_rx] nd_free_total(2) nd_free_rx_owned by blast
    then obtain w4 where 4: "ofold nd_free_rx_cpl [0..<unat (pv_rx_cpl_queue_count d)] w3 = Some w4" "owned b x w4"
      using ofold_keeps_total [where P = "owned b x" and f = nd_free_rx_cpl] nd_free_total(4) nd_free_cpl_owned(2) by blast
    have "mqnic_destroy_netdev nd i s = Some (fst w4, emit (Kfree (nd_mem d)) (snd w4))"
      using 1(1) 2(1) 3(1) 4(1) by (cases w1; cases w2; cases w3; cases w4) (simp add: Some mqnic_destroy_netdev_def Let_def)
    moreover have "owned (b - of_bool (x = Mem (nd_mem d))) x (fst w4, emit (Kfree (nd_mem d)) (snd w4))"
      using 4(2) by (simp add: owned_def)
    ultimately show ?thesis unfolding Some by fastforce
  qed (use assms in auto)
  then obtain w0 b where 0: "(case nd of None \<Rightarrow> Some (i, s) | Some _ \<Rightarrow> mqnic_destroy_netdev nd i s) = Some w0" "owned b x w0" by blast
  obtain w1 where 1: "ofold if_destroy_eq [0..<MAX_EVENT_RINGS] w0 = Some w1" using d_event.run_total [OF 0(2)] by blast
  note o1 = conjunct1 [OF d_event.run [OF 1 0(2)]]
  obtain w2 where 2: "ofold if_destroy_tx [0..<MAX_TX_RINGS] w1 = Some w2" using d_tx.run_total [OF o1] by blast
  note o2 = conjunct1 [OF d_tx.run [OF 2 o1]]
  obtain w3 where 3: "ofold if_destroy_tx_cpl [0..<MAX_TX_CPL_RINGS] w2 = Some w3" using d_tx_cpl.run_total [OF o2] by blast
  note o3 = conjunct1 [OF d_tx_cpl.run [OF 3 o2]]
  obtain w4 where 4: "ofold if_destroy_rx [0..<MAX_RX_RINGS] w3 = Some w4" using d_rx.run_total [OF o3] by blast
  note o4 = conjunct1 [OF d_rx.run [OF 4 o3]]
  obtain w5 where 5: "ofold if_destroy_rx_cpl [0..<MAX_RX_CPL_RINGS] w4 = Some w5" using d_rx_cpl.run_total [OF o4] by blast
  note o5 = conjunct1 [OF d_rx_cpl.run [OF 5 o4]]
  obtain w6 where 6: "ofold if_destroy_port [0..<MAX_PORTS] w5 = Some w6" using d_port.run_total [OF o5] by blast
  show ?thesis using 0(1) 1 2 3 4 5 6 by (cases w0; cases w6) (auto simp: mqnic_destroy_interface_def)
qed


end
