(* ===== verification/IfaceLife.thy ===== *)
theory IfaceLife
  imports Iface
begin

text \<open>
  From the registers of an interface to a running network device: with memory to spare, every loop of the
  creation fills its array, and the device that is registered at the end can be opened.
\<close>

section \<open>From the registers to a running device\<close>

text \<open>Given memory, each loop of the creation succeeds and fills its array with fresh rings.\<close>

definition keeps_events :: "mqnic_if \<times> sys \<Rightarrow> mqnic_if \<times> sys \<Rightarrow> bool" where
  "keeps_events v w \<longleftrightarrow> (\<exists>f. fst w = (fst v)\<lparr>if_event_ring := f\<rparr>) \<and> (rich (snd v) \<longrightarrow> rich (snd w))"

definition keeps_ports :: "mqnic_if \<times> sys \<Rightarrow> mqnic_if \<times> sys \<Rightarrow> bool" where
  "keeps_ports v w \<longleftrightarrow> (\<exists>f. fst w = (fst v)\<lparr>if_port := f\<rparr>) \<and> (rich (snd v) \<longrightarrow> rich (snd w))"

lemma keeps_events_laws:
  "keeps_events w w" "keeps_events u v \<Longrightarrow> keeps_events v w \<Longrightarrow> keeps_events u w" "rich (snd v) \<and> c \<Longrightarrow> keeps_events v w \<Longrightarrow> rich (snd w) \<and> c"
  unfolding keeps_events_def by (auto intro: exI [of _ "if_event_ring (fst w)"])

lemma keeps_ports_laws:
  "keeps_ports w w" "keeps_ports u v \<Longrightarrow> keeps_ports v w \<Longrightarrow> keeps_ports u w" "rich (snd v) \<Longrightarrow> keeps_ports v w \<Longrightarrow> rich (snd w)"
  unfolding keeps_ports_def by (auto intro: exI [of _ "if_port (fst w)"])

lemma rich_ioread32: "ioread32 a s = (v, t) \<Longrightarrow> rich t = rich s"
  by (auto simp: ioread32_def Let_def)

lemma rich_ioreads [simp]: "rich (snd (ioreads as s)) = rich s"
proof (induction as arbitrary: s)
  case (Cons a as)
  obtain v t where "ioread32 a s = (v, t)" by force
  with Cons [of t] rich_ioread32 [of a s v t] show ?case by (auto split: prod.splits)
qed simp

lemma create_eq_rich:
  assumes "rich s" "ifd_irq dev \<noteq> []"
  shows "\<exists>r t. if_create_eq mp dev k (i, s) = Some (0, i\<lparr>if_event_ring := (if_event_ring i)(k \<mapsto> r)\<rparr>, t) \<and> rich t"
proof -
  let ?hw = "if_hw_addr i + ucast (if_event_queue_offset i) + of_nat (k * EVENT_QUEUE_STRIDE)"
  obtain m where m: "kzalloc s = (Some m, emit (Kalloc m) s)" using rich_kzalloc [OF assms(1)] by blast
  then obtain r t where c: "mqnic_create_eq_ring (int k) ?hw s = (0, Some r, t)" "rich t"
    using assms(1) by (simp add: mqnic_create_eq_ring_def iowrite32_def)
  obtain e r2 t2 where a: "mqnic_alloc_eq_ring r (num_ev_queue_entries mp) EVENT_SIZE t = (e, r2, t2)" by (metis prod_cases3)
  obtain p u ws where sh: "dma_alloc_coherent (eq_buf_size r2) t = (p, u)" "t2 = iowrites ws u" "e = 0 \<longleftrightarrow> p \<noteq> None"
    using alloc_eq_shape [OF a] by blast
  obtain b d where "dma_alloc_coherent (eq_buf_size r2) t = (Some (b, d), emit (DmaAlloc d (eq_buf_size r2)) t)"
    using rich_dma [OF c(2)] by blast
  with sh have "p = Some (b, d)" "u = emit (DmaAlloc d (eq_buf_size r2)) t" by simp_all
  with sh c(2) have e: "e = 0" "rich t2" by simp_all
  let ?irq = "Some (ifd_irq dev ! (k mod length (ifd_irq dev)))"
  obtain e3 r3 t3 where ac: "mqnic_activate_eq_ring r2 ?irq t2 = (e3, r3, t3)" by (metis prod_cases3)
  have "rich t3" using ac e(2)
    by (auto simp: mqnic_activate_eq_ring_def mqnic_deactivate_eq_ring_def Let_def split: option.splits if_splits simp del: iowrites_Cons)
  then have "rich (mqnic_arm_eq r3 t3)" by (simp add: mqnic_arm_eq_def iowrite32_def)
  moreover have "if_create_eq mp dev k (i, s) = Some (0, i\<lparr>if_event_ring := (if_event_ring i)(k \<mapsto> r3)\<rparr>, mqnic_arm_eq r3 t3)"
    using assms(2) by (simp add: if_create_eq_def c(1) a e(1) ac del: of_nat_mult)
  ultimately show ?thesis by blast
qed

interpretation n_event: queue_stage "\<lambda>k. ok0 (if_create_eq mp dev k)" "\<lambda>w. rich (snd w) \<and> ifd_irq dev \<noteq> []"
    "\<lambda>k w. True" "\<lambda>k w. if_event_ring (fst w) k \<noteq> None" keeps_events for mp dev
proof unfold_locales
  fix w :: "mqnic_if \<times> sys" and k assume a: "rich (snd w) \<and> ifd_irq dev \<noteq> []"
  obtain r t where c: "if_create_eq mp dev k w = Some (0, (fst w)\<lparr>if_event_ring := (if_event_ring (fst w))(k \<mapsto> r)\<rparr>, t)" "rich t"
    using create_eq_rich [of "snd w" dev mp k "fst w"] a by auto
  then show "\<exists>t. ok0 (if_create_eq mp dev k) w = Some t \<and> if_event_ring (fst t) k \<noteq> None \<and> keeps_events w t \<and>
      (\<forall>j. j \<noteq> k \<longrightarrow> (True \<longrightarrow> True) \<and> (if_event_ring (fst w) j \<noteq> None \<longrightarrow> if_event_ring (fst t) j \<noteq> None))"
    by (auto simp: keeps_events_def)
qed (use keeps_events_laws in blast)+

lemma fresh_created:
  "mqnic_create_tx_ring i hw s = (e, Some r, t) \<Longrightarrow> fresh_ring r" "mqnic_create_rx_ring i hw s = (e, Some r, t) \<Longrightarrow> fresh_ring r"
  "mqnic_create_cq_ring i hw s = (e, Some q, t) \<Longrightarrow> cq_handler q = None \<and> cq_src_ring q = None"
  by (auto simp: mqnic_create_tx_ring_def mqnic_create_rx_ring_def mqnic_create_cq_ring_def fresh_ring_def zero_ring_def
      split: option.splits prod.splits)

lemma created_rich:
  assumes "rich s"
  shows "\<exists>r t. mqnic_create_tx_ring i hw s = (0, Some r, t) \<and> rich t" "\<exists>r t. mqnic_create_rx_ring i hw s = (0, Some r, t) \<and> rich t"
    "\<exists>q t. mqnic_create_cq_ring i hw s = (0, Some q, t) \<and> rich t" "\<exists>p t. mqnic_create_port n j hw s = (0, Some p, t) \<and> rich t"
proof -
  obtain m where m: "kzalloc s = (Some m, emit (Kalloc m) s)" using rich_kzalloc [OF assms] by blast
  show "\<exists>r t. mqnic_create_tx_ring i hw s = (0, Some r, t) \<and> rich t" "\<exists>r t. mqnic_create_rx_ring i hw s = (0, Some r, t) \<and> rich t"
    "\<exists>q t. mqnic_create_cq_ring i hw s = (0, Some q, t) \<and> rich t"
    using m assms by (simp_all add: mqnic_create_tx_ring_def mqnic_create_rx_ring_def mqnic_create_cq_ring_def iowrite32_def)
  show "\<exists>p t. mqnic_create_port n j hw s = (0, Some p, t) \<and> rich t"
    using m assms by (simp add: mqnic_create_port_def mqnic_deactivate_port_def iowrite32_def ioread32_def Let_def)
qed

interpretation n_tx: queue_stage "\<lambda>k. ok0 (if_create_tx k)" "\<lambda>w. rich (snd w)" "\<lambda>k w. True" "\<lambda>k w. fresh_rings (if_tx_ring (fst w)) k" keeps_alloc_tx
proof unfold_locales
  fix w :: "mqnic_if \<times> sys" and k assume a: "rich (snd w)"
  obtain i s where w: "w = (i, s)" by force
  obtain r t where c: "mqnic_create_tx_ring (int k) (if_hw_addr i + ucast (if_tx_queue_offset i) + of_nat (k * QUEUE_STRIDE)) s = (0, Some r, t)" "rich t"
    using created_rich(1) [OF a [unfolded w snd_conv]] by blast
  let ?t = "(i\<lparr>if_tx_ring := (if_tx_ring i)(k \<mapsto> r)\<rparr>, t)"
  have "ok0 (if_create_tx k) w = Some ?t" using c(1) by (simp add: if_create_tx_def w)
  moreover have "fresh_rings (if_tx_ring (fst ?t)) k" using fresh_created(1) [OF c(1)] by (simp add: fresh_rings_def)
  ultimately show "\<exists>t. ok0 (if_create_tx k) w = Some t \<and> fresh_rings (if_tx_ring (fst t)) k \<and> keeps_alloc_tx w t \<and>
      (\<forall>j. j \<noteq> k \<longrightarrow> (True \<longrightarrow> True) \<and> (fresh_rings (if_tx_ring (fst w)) j \<longrightarrow> fresh_rings (if_tx_ring (fst t)) j))"
    using c(2) w by (intro exI [of _ ?t]) (auto simp: keeps_alloc_tx_def simp del: ok0_Some fun_upd_apply)
qed (use keeps_alloc_tx_laws(1,2) keeps_alloc_tx_laws(3) [where c = True] in blast)+

interpretation n_tx_cpl: queue_stage "\<lambda>k. ok0 (if_create_tx_cpl k)" "\<lambda>w. rich (snd w)" "\<lambda>k w. True" "\<lambda>k w. fresh_cqs (if_tx_cpl_ring (fst w)) k" keeps_alloc_tx_cpl
proof unfold_locales
  fix w :: "mqnic_if \<times> sys" and k assume a: "rich (snd w)"
  obtain i s where w: "w = (i, s)" by force
  obtain r t where c: "mqnic_create_cq_ring (int k) (if_hw_addr i + ucast (if_tx_cpl_queue_offset i) + of_nat (k * CPL_QUEUE_STRIDE)) s = (0, Some r, t)" "rich t"
    using created_rich(3) [OF a [unfolded w snd_conv]] by blast
  let ?t = "(i\<lparr>if_tx_cpl_ring := (if_tx_cpl_ring i)(k \<mapsto> r)\<rparr>, t)"
  have "ok0 (if_create_tx_cpl k) w = Some ?t" using c(1) by (simp add: if_create_tx_cpl_def w)
  moreover have "fresh_cqs (if_tx_cpl_ring (fst ?t)) k" using fresh_created(3) [OF c(1)] by (simp add: fresh_cqs_def)
  ultimately show "\<exists>t. ok0 (if_create_tx_cpl k) w = Some t \<and> fresh_cqs (if_tx_cpl_ring (fst t)) k \<and> keeps_alloc_tx_cpl w t \<and>
      (\<forall>j. j \<noteq> k \<longrightarrow> (True \<longrightarrow> True) \<and> (fresh_cqs (if_tx_cpl_ring (fst w)) j \<longrightarrow> fresh_cqs (if_tx_cpl_ring (fst t)) j))"
    using c(2) w by (intro exI [of _ ?t]) (auto simp: keeps_alloc_tx_cpl_def simp del: ok0_Some fun_upd_apply)
qed (use keeps_alloc_tx_cpl_laws(1,2) keeps_alloc_tx_cpl_laws(3) [where c = True] in blast)+

interpretation n_rx: queue_stage "\<lambda>k. ok0 (if_create_rx k)" "\<lambda>w. rich (snd w)" "\<lambda>k w. True" "\<lambda>k w. fresh_rings (if_rx_ring (fst w)) k" keeps_alloc_rx
proof unfold_locales
  fix w :: "mqnic_if \<times> sys" and k assume a: "rich (snd w)"
  obtain i s where w: "w = (i, s)" by force
  obtain r t where c: "mqnic_create_rx_ring (int k) (if_hw_addr i + ucast (if_rx_queue_offset i) + of_nat (k * QUEUE_STRIDE)) s = (0, Some r, t)" "rich t"
    using created_rich(2) [OF a [unfolded w snd_conv]] by blast
  let ?t = "(i\<lparr>if_rx_ring := (if_rx_ring i)(k \<mapsto> r)\<rparr>, t)"
  have "ok0 (if_create_rx k) w = Some ?t" using c(1) by (simp add: if_create_rx_def w)
  moreover have "fresh_rings (if_rx_ring (fst ?t)) k" using fresh_created(2) [OF c(1)] by (simp add: fresh_rings_def)
  ultimately show "\<exists>t. ok0 (if_create_rx k) w = Some t \<and> fresh_rings (if_rx_ring (fst t)) k \<and> keeps_alloc_rx w t \<and>
      (\<forall>j. j \<noteq> k \<longrightarrow> (True \<longrightarrow> True) \<and> (fresh_rings (if_rx_ring (fst w)) j \<longrightarrow> fresh_rings (if_rx_ring (fst t)) j))"
    using c(2) w by (intro exI [of _ ?t]) (auto simp: keeps_alloc_rx_def simp del: ok0_Some fun_upd_apply)
qed (use keeps_alloc_rx_laws(1,2) keeps_alloc_rx_laws(3) [where c = True] in blast)+

interpretation n_rx_cpl: queue_stage "\<lambda>k. ok0 (if_create_rx_cpl k)" "\<lambda>w. rich (snd w)" "\<lambda>k w. True" "\<lambda>k w. fresh_cqs (if_rx_cpl_ring (fst w)) k" keeps_alloc_rx_cpl
proof unfold_locales
  fix w :: "mqnic_if \<times> sys" and k assume a: "rich (snd w)"
  obtain i s where w: "w = (i, s)" by force
  obtain r t where c: "mqnic_create_cq_ring (int k) (if_hw_addr i + ucast (if_rx_cpl_queue_offset i) + of_nat (k * CPL_QUEUE_STRIDE)) s = (0, Some r, t)" "rich t"
    using created_rich(3) [OF a [unfolded w snd_conv]] by blast
  let ?t = "(i\<lparr>if_rx_cpl_ring := (if_rx_cpl_ring i)(k \<mapsto> r)\<rparr>, t)"
  have "ok0 (if_create_rx_cpl k) w = Some ?t" using c(1) by (simp add: if_create_rx_cpl_def w)
  moreover have "fresh_cqs (if_rx_cpl_ring (fst ?t)) k" using fresh_created(3) [OF c(1)] by (simp add: fresh_cqs_def)
  ultimately show "\<exists>t. ok0 (if_create_rx_cpl k) w = Some t \<and> fresh_cqs (if_rx_cpl_ring (fst t)) k \<and> keeps_alloc_rx_cpl w t \<and>
      (\<forall>j. j \<noteq> k \<longrightarrow> (True \<longrightarrow> True) \<and> (fresh_cqs (if_rx_cpl_ring (fst w)) j \<longrightarrow> fresh_cqs (if_rx_cpl_ring (fst t)) j))"
    using c(2) w by (intro exI [of _ ?t]) (auto simp: keeps_alloc_rx_cpl_def simp del: ok0_Some fun_upd_apply)
qed (use keeps_alloc_rx_cpl_laws(1,2) keeps_alloc_rx_cpl_laws(3) [where c = True] in blast)+

interpretation n_port: queue_stage "\<lambda>k. ok0 (if_create_port k)" "\<lambda>w. rich (snd w)" "\<lambda>k w. True" "\<lambda>k w. if_port (fst w) k \<noteq> None" keeps_ports
proof unfold_locales
  fix w :: "mqnic_if \<times> sys" and k assume a: "rich (snd w)"
  obtain i s where w: "w = (i, s)" by force
  obtain r t where c: "mqnic_create_port (if_tx_queue_count i) k (if_hw_addr i + ucast (if_port_offset i) + ucast (of_nat k * if_port_stride i)) s = (0, Some r, t)" "rich t"
    using created_rich(4) [OF a [unfolded w snd_conv]] by blast
  let ?t = "(i\<lparr>if_port := (if_port i)(k \<mapsto> r)\<rparr>, t)"
  have "ok0 (if_create_port k) w = Some ?t" using c(1) by (simp add: if_create_port_def w)
  then show "\<exists>t. ok0 (if_create_port k) w = Some t \<and> if_port (fst t) k \<noteq> None \<and> keeps_ports w t \<and>
      (\<forall>j. j \<noteq> k \<longrightarrow> (True \<longrightarrow> True) \<and> (if_port (fst w) j \<noteq> None \<longrightarrow> if_port (fst t) j \<noteq> None))"
    using c(2) w by (intro exI [of _ ?t]) (auto simp: keeps_ports_def simp del: ok0_Some)
qed (use keeps_ports_laws in blast)+

lemma create_parts_rich:
  assumes "rich s" "ifd_irq dev \<noteq> []"
  shows "\<exists>er tr tc rr rc pr s'. if_create_parts mp dev (i, s) =
      Some (0, i\<lparr>if_event_ring := er, if_tx_ring := tr, if_tx_cpl_ring := tc, if_rx_ring := rr, if_rx_cpl_ring := rc, if_port := pr\<rparr>, s') \<and> rich s' \<and>
    (\<forall>k<unat (if_event_queue_count i). er k \<noteq> None) \<and> (\<forall>k<unat (if_tx_queue_count i). fresh_rings tr k) \<and>
    (\<forall>k<unat (if_tx_cpl_queue_count i). fresh_cqs tc k) \<and> (\<forall>k<unat (if_rx_queue_count i). fresh_rings rr k) \<and>
    (\<forall>k<unat (if_rx_cpl_queue_count i). fresh_cqs rc k) \<and> (\<forall>k<unat (if_port_count i). pr k \<noteq> None)"
proof -
  let ?w0 = "(i, s)"
  obtain w1 where 1: "ofold (\<lambda>k. ok0 (if_create_eq mp dev k)) [0..<unat (if_event_queue_count i)] ?w0 = Some w1" "keeps_events ?w0 w1"
      "\<forall>k<unat (if_event_queue_count i). if_event_ring (fst w1) k \<noteq> None"
    using n_event.run [where w = ?w0 and n = "unat (if_event_queue_count i)" and mp = mp and dev = dev] assms by auto
  obtain er s1 where w1: "w1 = (i\<lparr>if_event_ring := er\<rparr>, s1)" "rich s1"
    using 1(2) assms(1) unfolding keeps_events_def by (cases w1) auto
  obtain w2 where 2: "ofold (\<lambda>k. ok0 (if_create_tx k)) [0..<unat (if_tx_queue_count i)] w1 = Some w2" "keeps_alloc_tx w1 w2"
      "\<forall>k<unat (if_tx_queue_count i). fresh_rings (if_tx_ring (fst w2)) k"
    using n_tx.run [where w = w1 and n = "unat (if_tx_queue_count i)"] w1 by auto
  obtain tr s2 where w2: "w2 = (i\<lparr>if_event_ring := er, if_tx_ring := tr\<rparr>, s2)" "rich s2"
    using 2(2) w1 unfolding keeps_alloc_tx_def by (cases w2) auto
  obtain w3 where 3: "ofold (\<lambda>k. ok0 (if_create_tx_cpl k)) [0..<unat (if_tx_cpl_queue_count i)] w2 = Some w3" "keeps_alloc_tx_cpl w2 w3"
      "\<forall>k<unat (if_tx_cpl_queue_count i). fresh_cqs (if_tx_cpl_ring (fst w3)) k"
    using n_tx_cpl.run [where w = w2 and n = "unat (if_tx_cpl_queue_count i)"] w2 by auto
  obtain tc s3 where w3: "w3 = (i\<lparr>if_event_ring := er, if_tx_ring := tr, if_tx_cpl_ring := tc\<rparr>, s3)" "rich s3"
    using 3(2) w2 unfolding keeps_alloc_tx_cpl_def by (cases w3) auto
  obtain w4 where 4: "ofold (\<lambda>k. ok0 (if_create_rx k)) [0..<unat (if_rx_queue_count i)] w3 = Some w4" "keeps_alloc_rx w3 w4"
      "\<forall>k<unat (if_rx_queue_count i). fresh_rings (if_rx_ring (fst w4)) k"
    using n_rx.run [where w = w3 and n = "unat (if_rx_queue_count i)"] w3 by auto
  obtain rr s4 where w4: "w4 = (i\<lparr>if_event_ring := er, if_tx_ring := tr, if_tx_cpl_ring := tc, if_rx_ring := rr\<rparr>, s4)" "rich s4"
    using 4(2) w3 unfolding keeps_alloc_rx_def by (cases w4) auto
  obtain w5 where 5: "ofold (\<lambda>k. ok0 (if_create_rx_cpl k)) [0..<unat (if_rx_cpl_queue_count i)] w4 = Some w5" "keeps_alloc_rx_cpl w4 w5"
      "\<forall>k<unat (if_rx_cpl_queue_count i). fresh_cqs (if_rx_cpl_ring (fst w5)) k"
    using n_rx_cpl.run [where w = w4 and n = "unat (if_rx_cpl_queue_count i)"] w4 by auto
  obtain rc s5 where w5: "w5 = (i\<lparr>if_event_ring := er, if_tx_ring := tr, if_tx_cpl_ring := tc, if_rx_ring := rr, if_rx_cpl_ring := rc\<rparr>, s5)" "rich s5"
    using 5(2) w4 unfolding keeps_alloc_rx_cpl_def by (cases w5) auto
  obtain w6 where 6: "ofold (\<lambda>k. ok0 (if_create_port k)) [0..<unat (if_port_count i)] w5 = Some w6" "keeps_ports w5 w6"
      "\<forall>k<unat (if_port_count i). if_port (fst w6) k \<noteq> None"
    using n_port.run [where w = w5 and n = "unat (if_port_count i)"] w5 by auto
  obtain pr s6 where w6: "w6 = (i\<lparr>if_event_ring := er, if_tx_ring := tr, if_tx_cpl_ring := tc, if_rx_ring := rr, if_rx_cpl_ring := rc, if_port := pr\<rparr>, s6)" "rich s6"
    using 6(2) w5 unfolding keeps_ports_def by (cases w6) auto
  have "if_create_parts mp dev ?w0 = Some (0, w6)"
    using efold_ok [OF 1(1)] efold_ok [OF 2(1)] efold_ok [OF 3(1)] efold_ok [OF 4(1)] efold_ok [OF 5(1)] efold_ok [OF 6(1)] w1 w2 w3 w4 w5
    by (simp add: if_create_parts_def eseq_def)
  with 1(3) 2(3) 3(3) 4(3) 5(3) 6(3) w1 w2 w3 w4 w5 w6 show ?thesis
    by (intro exI [of _ er] exI [of _ tr] exI [of _ tc] exI [of _ rr] exI [of _ rc] exI [of _ pr] exI [of _ s6]) simp
qed


lemma read_interface_rich: "rich (snd (read_interface dev m index hw s)) = rich s"
  by (simp add: read_interface_def Let_def del: ioreads.simps split: prod.split) (metis rich_ioreads snd_conv)

lemma probe_rich: "rich (snd (probe_block_size i s)) = rich s"
  by (simp add: probe_block_size_def iowrite32_def ioread32_def Let_def)

definition if_usable :: "mqnic_if \<Rightarrow> bool" where
  "if_usable i \<longleftrightarrow> if_event_queue_count i \<noteq> 0 \<and> if_port_count i \<noteq> 0 \<and> if_tx_queue_count i \<le> if_tx_cpl_queue_count i \<and>
     if_rx_queue_count i \<le> if_rx_cpl_queue_count i"

lemma create_interface_rich:
  assumes "rich s" "count_ok (num_tx_queue_entries mp)" "count_ok (num_rx_queue_entries mp)"
    "ifd_irq dev \<noteq> []" "0 \<le> ifd_dev_port_max dev" "ifd_mac_count dev \<le> int (length (ifd_mac_list dev))"
    "kzalloc s = (Some m, s1)" "if_usable (fst (read_interface dev m index hw s1))"
  shows "\<exists>i nd s'. mqnic_create_interface valid rnd mp dev index hw s = Some (0, Some (i, Some nd), s') \<and> nic_ready nd i \<and> nd_mtu nd = 1500"
proof -
  obtain i2 s2 where rd: "read_interface dev m index hw s1 = (i2, s2)" by force
  obtain i3 s3 where pr: "probe_block_size i2 s2 = (i3, s3)" by force
  have "rich s1" using assms(1,7) rich_kzalloc [OF assms(1)] by auto
  then have r3: "rich s3" using read_interface_rich [of dev m index hw s1] probe_rich [of i2 s2] rd pr by simp
  obtain n where i3: "i3 = i2\<lparr>if_max_desc_block_size := n\<rparr>" using probe_props(2) [OF pr] by blast
  have u: "if_usable i3" using assms(8) rd by (simp add: i3 if_usable_def)
  obtain er tr tc rr rc ps s4 where p: "if_create_parts mp dev (i3, s3) =
      Some (0, i3\<lparr>if_event_ring := er, if_tx_ring := tr, if_tx_cpl_ring := tc, if_rx_ring := rr, if_rx_cpl_ring := rc, if_port := ps\<rparr>, s4)" "rich s4"
    and f: "\<forall>k<unat (if_event_queue_count i3). er k \<noteq> None" "\<forall>k<unat (if_tx_queue_count i3). fresh_rings tr k"
    "\<forall>k<unat (if_tx_cpl_queue_count i3). fresh_cqs tc k" "\<forall>k<unat (if_rx_queue_count i3). fresh_rings rr k"
    "\<forall>k<unat (if_rx_cpl_queue_count i3). fresh_cqs rc k" "\<forall>k<unat (if_port_count i3). ps k \<noteq> None"
    using create_parts_rich [OF r3 assms(4), of mp i3] by blast
  let ?i = "i3\<lparr>if_event_ring := er, if_tx_ring := tr, if_tx_cpl_ring := tc, if_rx_ring := rr, if_rx_cpl_ring := rc, if_port := ps,
      if_dev_port_base := ifd_dev_port_max dev, if_dev_port_max := ifd_dev_port_max dev + 1\<rparr>"
  have "ps 0 \<noteq> None" using f(6) u unfolding if_usable_def by (metis unat_gt_0)
  then have fr: "if_fresh ?i" using f u by (simp add: if_fresh_def if_usable_def)
  obtain nd i5 s5 where n: "mqnic_create_netdev valid rnd mp dev None 0 (ifd_dev_port_max dev) ?i s4 = Some (0, Some nd, i5, s5)"
    "nic_ready nd i5" "nd_mtu nd = 1500"
    using create_netdev_rich [OF p(2) assms(2,3) fr assms(5,6)] by blast
  have "mqnic_create_interface valid rnd mp dev index hw s = Some (0, Some (i5, Some nd), s5)"
    using assms(7) rd pr p(1) n(1) by (simp add: mqnic_create_interface_def)
  with n(2,3) show ?thesis by blast
qed

text \<open>C13: given memory, an interrupt, sensible ring sizes and an interface whose registers report at least
  one event queue and port and no fewer completion queues than queues, creating the interface succeeds, and
  its network device can be opened with every queue up.\<close>

theorem create_interface_then_open:
  assumes "rich s" "count_ok (num_tx_queue_entries mp)" "count_ok (num_rx_queue_entries mp)"
    "ifd_irq dev \<noteq> []" "0 \<le> ifd_dev_port_max dev" "ifd_mac_count dev \<le> int (length (ifd_mac_list dev))"
    "kzalloc s = (Some m, s1)" "if_usable (fst (read_interface dev m index hw s1))"
  shows "\<exists>i nd s' nd' i' s''. mqnic_create_interface valid rnd mp dev index hw s = Some (0, Some (i, Some nd), s') \<and>
    mqnic_open nd i s' = Some (0, nd', i', s'') \<and> nic_running 1500 nd' i'"
proof -
  obtain i nd s' where c: "mqnic_create_interface valid rnd mp dev index hw s = Some (0, Some (i, Some nd), s')" "nic_ready nd i" "nd_mtu nd = 1500"
    using create_interface_rich [OF assms] by blast
  with start_port_running [OF c(2), of s'] show ?thesis unfolding mqnic_open_def by fastforce
qed

text \<open>A device whose interface has one queue of each kind and one port.\<close>

definition one_each :: sys where
  "one_each = quiet_world\<lparr>w_ioread := (\<lambda>_ a. if a \<in> {0x20010, 0x20020, 0x20028, 0x20030, 0x20038, 0x20040} then 1 else 0)\<rparr>"

definition one_dev :: if_dev where
  "one_dev = demo_dev\<lparr>ifd_irq := [\<lparr>irq_mem = 0, irq_idx = 0, irq_irqn = 40\<rparr>], ifd_csr_offset := 0x10000\<rparr>"

lemma ioreads_const: "w_ioread s = (\<lambda>_. f) \<Longrightarrow> fst (ioreads as s) = map f as"
proof (induction as arbitrary: s)
  case (Cons a as)
  let ?t = "emit (Ioread32 a (f a)) s"
  have "ioread32 a s = (f a, ?t)" using Cons.prems by (simp add: ioread32_def Let_def)
  with Cons.IH [of ?t] Cons.prems show ?case by (auto split: prod.splits)
qed simp

lemma one_each_facts:
  "rich one_each" "kzalloc one_each = (Some 0, emit (Kalloc 0) one_each)" "if_usable (fst (read_interface one_dev 0 0 0x10000 (emit (Kalloc 0) one_each)))"
proof -
  show "rich one_each" using demo_rich(1) by (simp add: one_each_def rich_def roomy_def pow2_lib_def)
  show "kzalloc one_each = (Some 0, emit (Kalloc 0) one_each)" by (simp add: kzalloc_def one_each_def quiet_world_def)
  show "if_usable (fst (read_interface one_dev 0 0 0x10000 (emit (Kalloc 0) one_each)))"
  proof -
    let ?f = "\<lambda>a::addr. if a \<in> {0x20010, 0x20020, 0x20028, 0x20030, 0x20038, 0x20040} then 1 else 0 :: u32"
    have "w_ioread (emit (Kalloc 0) one_each) = (\<lambda>_. ?f)" by (simp add: one_each_def)
    note r = ioreads_const [OF this]
    show ?thesis
      unfolding read_interface_def Let_def case_prod_unfold r if_usable_def
      by (simp add: one_dev_def IF_REG_IF_ID_def IF_REG_IF_FEATURES_def IF_REG_EVENT_QUEUE_COUNT_def IF_REG_EVENT_QUEUE_OFFSET_def
        IF_REG_TX_QUEUE_COUNT_def IF_REG_TX_QUEUE_OFFSET_def IF_REG_TX_CPL_QUEUE_COUNT_def IF_REG_TX_CPL_QUEUE_OFFSET_def
        IF_REG_RX_QUEUE_COUNT_def IF_REG_RX_QUEUE_OFFSET_def IF_REG_RX_CPL_QUEUE_COUNT_def IF_REG_RX_CPL_QUEUE_OFFSET_def
        IF_REG_PORT_COUNT_def IF_REG_PORT_OFFSET_def IF_REG_PORT_STRIDE_def MAX_EVENT_RINGS_def MAX_PORTS_def MAX_TX_RINGS_def
        MAX_TX_CPL_RINGS_def MAX_RX_RINGS_def MAX_RX_CPL_RINGS_def min_def del: list.map)
  qed
qed

theorem create_interface_then_open_witness:
  "\<exists>i nd s' nd' i' s''. mqnic_create_interface (\<lambda>_. True) [] demo_params one_dev 0 0x10000 one_each = Some (0, Some (i, Some nd), s') \<and>
    mqnic_open nd i s' = Some (0, nd', i', s'') \<and> nic_running 1500 nd' i'"
  by (rule create_interface_then_open [OF one_each_facts(1) demo_rich(2,3) _ _ _ one_each_facts(2,3)])
    (simp_all add: one_dev_def demo_dev_def)


end
