(* ===== verification/Device.thy ===== *)
theory Device
  imports Netdev
begin

text \<open>
  The device (\<open>struct mqnic_dev\<close> of \<open>modules/mqnic/mqnic.h\<close>): the state its interrupt, I2C, board and
  probe code share. Arrays are maps from their index; a network device stands beside the interface it
  belongs to.
\<close>

definition MAX_IRQ :: nat where "MAX_IRQ = 32"
definition MAX_IF :: nat where "MAX_IF = 8"
definition ETH_ALEN :: nat where "ETH_ALEN = 6"

record i2c_bus =
  bus_mem :: nat
  bus_scl_in_reg :: addr
  bus_scl_out_reg :: addr
  bus_sda_in_reg :: addr
  bus_sda_out_reg :: addr
  bus_scl_in_mask :: u32
  bus_scl_out_mask :: u32
  bus_sda_in_mask :: u32
  bus_sda_out_mask :: u32
  bus_number :: int

datatype board_ops = Generic_board_ops | Alveo_board_ops | Gecko_board_ops

text \<open>An I2C client is the number the kernel gave it.\<close>

type_synonym i2c_client = int

record mqnic_dev =
  md_hw_regs_size :: u64
  md_hw_regs_phys :: u64
  md_hw_addr :: addr
  md_phc_hw_addr :: addr
  md_app_hw_regs_size :: u64
  md_app_hw_regs_phys :: u64
  md_app_hw_addr :: addr
  md_ram_hw_regs_size :: u64
  md_ram_hw_regs_phys :: u64
  md_ram_hw_addr :: addr
  md_mac_count :: int
  md_mac_list :: "u8 list list"
  md_irq_count :: int
  md_irq :: "nat \<Rightarrow> mqnic_irq option"
  md_id :: u32
  md_name :: string
  md_dev_port_max :: int
  md_dev_port_limit :: int
  md_fw_id :: u32
  md_fw_ver :: u32
  md_board_id :: u32
  md_board_ver :: u32
  md_phc_count :: u32
  md_phc_offset :: u32
  md_if_count :: u32
  md_if_stride :: u32
  md_if_csr_offset :: u32
  md_interface :: "nat \<Rightarrow> (mqnic_if \<times> net_device option) option"
  md_phc :: phc_state
  md_board_ops :: "board_ops option"
  md_i2c_bus :: "i2c_bus list"
  md_i2c_adapter_count :: int
  md_mod_i2c_client_count :: int
  md_mod_i2c_client :: "nat \<Rightarrow> i2c_client option"
  md_eeprom_i2c_client :: "i2c_client option"

text \<open>What \<open>devm_kzalloc\<close> returns: every field zero.\<close>

definition zero_dev :: mqnic_dev where
  "zero_dev = \<lparr>md_hw_regs_size = 0, md_hw_regs_phys = 0, md_hw_addr = 0, md_phc_hw_addr = 0,
     md_app_hw_regs_size = 0, md_app_hw_regs_phys = 0, md_app_hw_addr = 0,
     md_ram_hw_regs_size = 0, md_ram_hw_regs_phys = 0, md_ram_hw_addr = 0,
     md_mac_count = 0, md_mac_list = replicate MAX_IF (replicate ETH_ALEN 0),
     md_irq_count = 0, md_irq = Map.empty, md_id = 0, md_name = [], md_dev_port_max = 0, md_dev_port_limit = 0,
     md_fw_id = 0, md_fw_ver = 0, md_board_id = 0, md_board_ver = 0, md_phc_count = 0, md_phc_offset = 0,
     md_if_count = 0, md_if_stride = 0, md_if_csr_offset = 0, md_interface = Map.empty,
     md_phc = \<lparr>phc_registered = False, phc_n_per_out = 0\<rparr>, md_board_ops = None,
     md_i2c_bus = [], md_i2c_adapter_count = 0, md_mod_i2c_client_count = 0,
     md_mod_i2c_client = Map.empty, md_eeprom_i2c_client = None\<rparr>"

text \<open>What the device owns of the kernel's memory and resources: its interrupts and its buses.\<close>

definition own_irq :: "res \<Rightarrow> mqnic_irq \<Rightarrow> int" where
  "own_irq x irq = of_bool (x = Mem (irq_mem irq)) + of_bool (x = Held (IrqLine (irq_idx irq)))"

definition own_irqs :: "res \<Rightarrow> mqnic_dev \<Rightarrow> int" where
  "own_irqs x d = owns (own_irq x) MAX_IRQ (md_irq d)"

definition own_bus :: "res \<Rightarrow> i2c_bus \<Rightarrow> int" where
  "own_bus x b = of_bool (x = Mem (bus_mem b)) + of_bool (x = Held (I2cAdapter (bus_mem b)))"

definition own_buses :: "res \<Rightarrow> mqnic_dev \<Rightarrow> int" where
  "own_buses x d = sum_list (map (own_bus x) (md_i2c_bus d))"

end
