(* ===== verification/Irq.thy ===== *)
theory Irq
  imports Device
begin

text \<open>
  Interrupts (\<open>modules/mqnic/mqnic_irq.c\<close>): allocating the vectors, requesting a line for each and
  giving them back. The notifier chain of an interrupt is the kernel's, a parameter of the handler.
\<close>

datatype irqreturn_t = IRQ_HANDLED

definition mqnic_irq_handler :: "(mqnic_irq \<Rightarrow> sys \<Rightarrow> sys) \<Rightarrow> mqnic_irq \<Rightarrow> sys \<Rightarrow> irqreturn_t \<times> sys" where
  "mqnic_irq_handler call_chain irq s = (IRQ_HANDLED, call_chain irq s)"

text \<open>One pass of the loop that sets up the interrupts; storing beyond the array is a fault.\<close>

definition irq_setup :: "nat \<Rightarrow> mqnic_dev \<times> sys \<Rightarrow> (int \<times> mqnic_dev \<times> sys) option" where
  "irq_setup k w = (case w of (d, s) \<Rightarrow>
     (case kzalloc s of
        (None, s) \<Rightarrow> Some (- ENOMEM, d, s)
      | (Some m, s) \<Rightarrow>
          let (r, s) = kget ''pci_request_irq'' [int k] (\<lambda>r. 0 \<le> r) (\<lambda>_. IrqLine (int k)) s
          in if r < 0 then Some (- ENOMEM, d, emit (Kfree m) s)
             else let (irqn, s) = kcall ''pci_irq_vector'' [int k] s
             in if k < MAX_IRQ
                then Some (0, d\<lparr>md_irq := (md_irq d)(k \<mapsto> \<lparr>irq_mem = m, irq_idx = int k, irq_irqn = irqn\<rparr>)\<rparr>, s)
                else None))"

definition irq_free :: "nat \<Rightarrow> mqnic_dev \<times> sys \<Rightarrow> mqnic_dev \<times> sys" where
  "irq_free k w = (case w of (d, s) \<Rightarrow>
     (case md_irq d k of
        None \<Rightarrow> (d, s)
      | Some irq \<Rightarrow> (d\<lparr>md_irq := (md_irq d)(k := None)\<rparr>,
          emit (Kfree (irq_mem irq)) (kput ''pci_free_irq'' [int k] (IrqLine (int k)) s))))"

definition mqnic_irq_deinit_pcie :: "mqnic_dev \<times> sys \<Rightarrow> mqnic_dev \<times> sys" where
  "mqnic_irq_deinit_pcie w = (case fold irq_free [0..<MAX_IRQ] w of (d, s) \<Rightarrow>
     (d, kput ''pci_free_irq_vectors'' [] IrqVectors s))"

definition mqnic_irq_init_pcie :: "mqnic_dev \<times> sys \<Rightarrow> (int \<times> mqnic_dev \<times> sys) option" where
  "mqnic_irq_init_pcie w = (case w of (d, s) \<Rightarrow>
     let (n, s) = kget ''pci_alloc_irq_vectors'' [1, int MAX_IRQ] (\<lambda>n. 0 \<le> n) (\<lambda>_. IrqVectors) s;
         d = d\<lparr>md_irq_count := n\<rparr>
     in if n < 0 then Some (- ENOMEM, d, s)
        else do {
          (e, w) \<leftarrow> efold irq_setup [0..<nat n] (d, s);
          (if e \<noteq> 0 then Some (e, mqnic_irq_deinit_pcie w) else Some (0, w)) })"

section \<open>What is held\<close>

text \<open>Entry \<open>k\<close> is interrupt \<open>k\<close>, and nothing lies beyond the array.\<close>

definition irq_slots :: "mqnic_dev \<Rightarrow> bool" where
  "irq_slots d \<longleftrightarrow> (\<forall>k irq. md_irq d k = Some irq \<longrightarrow> k < MAX_IRQ \<and> irq_idx irq = int k)"

definition irq_acct :: "int \<Rightarrow> res \<Rightarrow> mqnic_dev \<times> sys \<Rightarrow> bool" where
  "irq_acct c x w \<longleftrightarrow> irq_slots (fst w) \<and> bal (trace (snd w)) x = c + own_irqs x (fst w)"

lemma own_irqs_upd:
  "k < MAX_IRQ \<Longrightarrow> own_irqs x (d\<lparr>md_irq := (md_irq d)(k := v)\<rparr>) =
     own_irqs x d - (case md_irq d k of None \<Rightarrow> 0 | Some i \<Rightarrow> own_irq x i) + (case v of None \<Rightarrow> 0 | Some i \<Rightarrow> own_irq x i)"
  by (simp add: own_irqs_def owns_upd)

text \<open>The arrays other components keep are left alone.\<close>

definition only_irq :: "mqnic_dev \<Rightarrow> mqnic_dev \<Rightarrow> bool" where
  "only_irq d d' \<longleftrightarrow> d' = d\<lparr>md_irq := md_irq d', md_irq_count := md_irq_count d'\<rparr>"

lemma only_irq_refl [simp]: "only_irq d d"
  by (simp add: only_irq_def)

lemma only_irq_trans: "only_irq d e \<Longrightarrow> only_irq e f \<Longrightarrow> only_irq d f"
  unfolding only_irq_def by (cases d; cases e; cases f) simp

lemma irq_setup_acct:
  assumes "irq_setup k (d, s) = Some (e, d', s')" "irq_acct c x (d, s)" "md_irq d k = None"
  shows "irq_acct c x (d', s') \<and> only_irq d d' \<and> md_irq_count d' = md_irq_count d \<and>
    (if e = 0 then \<exists>i. md_irq d' = (md_irq d)(k \<mapsto> i) else d' = d)"
proof -
  obtain p s1 where z: "kzalloc s = (p, s1)" by force
  show ?thesis
  proof (cases p)
    case None
    with assms z bal_kzalloc [OF z, of x] show ?thesis by (auto simp: irq_setup_def irq_acct_def)
  next
    case (Some m)
    obtain r s2 where r: "kget ''pci_request_irq'' [int k] (\<lambda>r. 0 \<le> r) (\<lambda>_. IrqLine (int k)) s1 = (r, s2)" by force
    obtain n s3 where n: "kcall ''pci_irq_vector'' [int k] s2 = (n, s3)" by force
    note b = bal_kzalloc [OF z, of x] bal_kget [OF r, of x] bal_kcall [OF n, of x]
    show ?thesis
    proof (cases "r < 0")
      case True
      with assms z Some r b show ?thesis by (auto simp: irq_setup_def irq_acct_def)
    next
      case False
      with assms(1) z Some r n have k: "k < MAX_IRQ" and e: "e = 0" "s' = s3"
        and d: "d' = d\<lparr>md_irq := (md_irq d)(k \<mapsto> \<lparr>irq_mem = m, irq_idx = int k, irq_irqn = n\<rparr>)\<rparr>"
        by (auto simp: irq_setup_def split: if_splits)
      from assms(2,3) k False Some b show ?thesis
        by (auto simp: e d irq_acct_def own_irqs_upd own_irq_def irq_slots_def only_irq_def)
    qed
  qed
qed

lemma irq_free_acct:
  assumes "irq_acct c x w"
  shows "irq_acct c x (irq_free k w) \<and> only_irq (fst w) (fst (irq_free k w)) \<and>
    md_irq (fst (irq_free k w)) = (md_irq (fst w))(k := None)"
proof (cases "md_irq (fst w) k")
  case None
  then have "irq_free k w = w" by (cases w) (simp add: irq_free_def)
  with None assms show ?thesis by auto
next
  case (Some i)
  with assms have "k < MAX_IRQ" "irq_idx i = int k" by (auto simp: irq_acct_def irq_slots_def)
  with Some assms show ?thesis
    by (cases w) (auto simp: irq_free_def irq_acct_def own_irqs_upd own_irq_def irq_slots_def only_irq_def)
qed

lemma irq_free_all:
  assumes "irq_acct c x w"
  shows "irq_acct c x (fold irq_free ks w) \<and> only_irq (fst w) (fst (fold irq_free ks w)) \<and>
    md_irq (fst (fold irq_free ks w)) = (\<lambda>k. if k \<in> set ks then None else md_irq (fst w) k)"
  using assms
proof (induction ks arbitrary: w)
  case (Cons k ks)
  note f = irq_free_acct [OF Cons.prems, of k]
  then have "irq_acct c x (irq_free k w)" by blast
  from Cons.IH [OF this] f show ?case by (auto intro: only_irq_trans)
qed simp

text \<open>Tearing the interrupts down gives back every line, its memory and the vectors.\<close>

lemma irq_deinit_acct:
  assumes "irq_acct c x w" "mqnic_irq_deinit_pcie w = (d', s')"
  shows "bal (trace s') x = c - of_bool (x = Held IrqVectors) \<and> md_irq d' = Map.empty \<and> only_irq (fst w) d'"
proof -
  obtain d s where f: "fold irq_free [0..<MAX_IRQ] w = (d, s)" by force
  note a = irq_free_all [OF assms(1), of "[0..<MAX_IRQ]", unfolded f, simplified]
  have "md_irq (fst w) k = None" if "\<not> k < MAX_IRQ" for k
    using assms(1) that by (cases "md_irq (fst w) k") (auto simp: irq_acct_def irq_slots_def)
  with a have "md_irq d = Map.empty" by auto
  with a assms(2) f show ?thesis by (auto simp: mqnic_irq_deinit_pcie_def irq_acct_def own_irqs_def)
qed

text \<open>
  Setting the interrupts up either succeeds with one line per vector, each stored with its number, or
  fails and holds nothing.
\<close>

definition irqs_up :: "mqnic_dev \<Rightarrow> bool" where
  "irqs_up d \<longleftrightarrow> 0 \<le> md_irq_count d \<and> (\<forall>k. md_irq d k \<noteq> None \<longleftrightarrow> int k < md_irq_count d)"

lemma irq_init_acct:
  assumes "mqnic_irq_init_pcie (d, s) = Some (e, d', s')" "md_irq d = Map.empty"
  shows "only_irq d d' \<and>
    (if e = 0 then irqs_up d' \<and> irq_acct (bal (trace s) x + of_bool (x = Held IrqVectors)) x (d', s')
     else md_irq d' = Map.empty \<and> bal (trace s') x = bal (trace s) x)"
proof -
  obtain n s1 where n: "kget ''pci_alloc_irq_vectors'' [1, int MAX_IRQ] (\<lambda>n. 0 \<le> n) (\<lambda>_. IrqVectors) s = (n, s1)" by force
  let ?d = "d\<lparr>md_irq_count := n\<rparr>" and ?c = "bal (trace s) x + of_bool (x = Held IrqVectors)"
  have d: "only_irq d ?d" by (simp add: only_irq_def)
  show ?thesis
  proof (cases "n < 0")
    case True
    with assms n d bal_kget [OF n, of x] show ?thesis by (auto simp: mqnic_irq_init_pcie_def)
  next
    case False
    with assms(1) n obtain e1 w1 where w: "efold irq_setup [0..<nat n] (?d, s1) = Some (e1, w1)"
      and r: "e = e1" "(d', s') = (if e1 \<noteq> 0 then mqnic_irq_deinit_pcie w1 else w1)"
      by (auto simp: mqnic_irq_init_pcie_def split: Option.bind_splits if_splits)
    let ?I = "\<lambda>w. irq_acct ?c x w \<and> only_irq ?d (fst w) \<and> md_irq_count (fst w) = n"
    have i: "if e1 = 0 then ?I w1 \<and> (\<forall>k. md_irq (fst w1) k \<noteq> None \<longleftrightarrow> k < nat n) else ?I w1"
      using w
    proof (rule efold_inv [where P = "\<lambda>j w. ?I w \<and> (\<forall>k. md_irq (fst w) k \<noteq> None \<longleftrightarrow> k < j)"])
      show "?I (?d, s1) \<and> (\<forall>k. md_irq (fst (?d, s1)) k \<noteq> None \<longleftrightarrow> k < 0)"
        using assms(2) False bal_kget [OF n, of x] by (auto simp: irq_acct_def irq_slots_def own_irqs_def only_irq_def)
    next
      fix j v e v'
      assume a: "irq_setup j v = Some (e, v')" "?I v \<and> (\<forall>k. md_irq (fst v) k \<noteq> None \<longleftrightarrow> k < j)"
      obtain dv sv dv' sv' where v: "v = (dv, sv)" "v' = (dv', sv')" by (cases v; cases v')
      from a(2) have "md_irq dv j = None" by (auto simp: v)
      from irq_setup_acct [OF a(1) [unfolded v] _ this, of ?c x] a(2)
      show "if e = 0 then ?I v' \<and> (\<forall>k. md_irq (fst v') k \<noteq> None \<longleftrightarrow> k < Suc j) else ?I v'"
        by (auto simp: v less_Suc_eq intro: only_irq_trans split: if_splits)
    qed
    show ?thesis
    proof (cases "e1 = 0")
      case True
      have "int k < n \<longleftrightarrow> k < nat n" for k by linarith
      with True i r False d show ?thesis by (auto simp: irqs_up_def intro: only_irq_trans)
    next
      case False
      with r have t: "mqnic_irq_deinit_pcie w1 = (d', s')" by simp
      from i False have j: "?I w1" by simp
      from irq_deinit_acct [OF conjunct1 [OF j] t] j False r(1) d show ?thesis by (auto intro: only_irq_trans)
    qed
  qed
qed

end
