(* ===== verification/I2c.thy ===== *)
theory I2c
  imports Device
begin

text \<open>
  The I2C buses (\<open>modules/mqnic/mqnic_i2c.c\<close>): four bits of a register as two open-drain lines for the
  kernel's bit-banging algorithm, and the list of buses the device registered as adapters.
\<close>

definition I2C_SCL_IN :: u32 where "I2C_SCL_IN = 0x00000001"
definition I2C_SCL_OUT :: u32 where "I2C_SCL_OUT = 0x00000002"
definition I2C_SDA_IN :: u32 where "I2C_SDA_IN = 0x00000100"
definition I2C_SDA_OUT :: u32 where "I2C_SDA_OUT = 0x00000200"

section \<open>Lines\<close>

definition mqnic_i2c_set_scl :: "i2c_bus \<Rightarrow> bool \<Rightarrow> sys \<Rightarrow> sys" where
  "mqnic_i2c_set_scl bus state s = (case ioread32 (bus_scl_out_reg bus) s of (v, s) \<Rightarrow>
     (if state then iowrite32 (v OR bus_scl_out_mask bus) (bus_scl_out_reg bus) s
      else iowrite32 (v AND NOT (bus_scl_out_mask bus)) (bus_scl_out_reg bus) s))"

definition mqnic_i2c_set_sda :: "i2c_bus \<Rightarrow> bool \<Rightarrow> sys \<Rightarrow> sys" where
  "mqnic_i2c_set_sda bus state s = (case ioread32 (bus_sda_out_reg bus) s of (v, s) \<Rightarrow>
     (if state then iowrite32 (v OR bus_sda_out_mask bus) (bus_sda_out_reg bus) s
      else iowrite32 (v AND NOT (bus_sda_out_mask bus)) (bus_sda_out_reg bus) s))"

definition mqnic_i2c_get_scl :: "i2c_bus \<Rightarrow> sys \<Rightarrow> bool \<times> sys" where
  "mqnic_i2c_get_scl bus s = (case ioread32 (bus_scl_in_reg bus) s of (v, s) \<Rightarrow>
     (v AND bus_scl_in_mask bus \<noteq> 0, s))"

definition mqnic_i2c_get_sda :: "i2c_bus \<Rightarrow> sys \<Rightarrow> bool \<times> sys" where
  "mqnic_i2c_get_sda bus s = (case ioread32 (bus_sda_in_reg bus) s of (v, s) \<Rightarrow>
     (v AND bus_sda_in_mask bus \<noteq> 0, s))"

section \<open>Buses\<close>

text \<open>The adapter is part of the bus, so the bus stands for it; its name carries the number.\<close>

definition mqnic_i2c_bus_create :: "addr \<Rightarrow> mqnic_dev \<times> sys \<Rightarrow> i2c_bus option \<times> mqnic_dev \<times> sys" where
  "mqnic_i2c_bus_create reg w = (case w of (d, s) \<Rightarrow>
     (if reg = 0 then (None, d, s)
      else case kzalloc s of
        (None, s) \<Rightarrow> (None, d, s)
      | (Some m, s) \<Rightarrow>
          let bus = \<lparr>bus_mem = m, bus_scl_in_reg = reg, bus_scl_out_reg = reg, bus_sda_in_reg = reg,
                bus_sda_out_reg = reg, bus_scl_in_mask = I2C_SCL_IN, bus_scl_out_mask = I2C_SCL_OUT,
                bus_sda_in_mask = I2C_SDA_IN, bus_sda_out_mask = I2C_SDA_OUT,
                bus_number = md_i2c_adapter_count d\<rparr>;
              (r, s) = kget ''i2c_bit_add_bus'' [int m] (\<lambda>r. r = 0) (\<lambda>_. I2cAdapter m) s
          in if r \<noteq> 0 then (None, d, emit (Kfree m) s)
             else (Some bus, d\<lparr>md_i2c_bus := md_i2c_bus d @ [bus],
                               md_i2c_adapter_count := md_i2c_adapter_count d + 1\<rparr>, s)))"

definition mqnic_i2c_adapter_create :: "addr \<Rightarrow> mqnic_dev \<times> sys \<Rightarrow> i2c_bus option \<times> mqnic_dev \<times> sys" where
  "mqnic_i2c_adapter_create reg w = mqnic_i2c_bus_create reg w"

definition mqnic_i2c_bus_release :: "i2c_bus option \<Rightarrow> mqnic_dev \<times> sys \<Rightarrow> mqnic_dev \<times> sys" where
  "mqnic_i2c_bus_release p w = (case p of
     None \<Rightarrow> w
   | Some bus \<Rightarrow> (case w of (d, s) \<Rightarrow>
       let d = d\<lparr>md_i2c_adapter_count := md_i2c_adapter_count d - 1\<rparr>;
           s = kput ''i2c_del_adapter'' [int (bus_mem bus)] (I2cAdapter (bus_mem bus)) s;
           d = d\<lparr>md_i2c_bus := remove1 bus (md_i2c_bus d)\<rparr>
       in (d, emit (Kfree (bus_mem bus)) s)))"

definition mqnic_i2c_adapter_release :: "i2c_bus option \<Rightarrow> mqnic_dev \<times> sys \<Rightarrow> mqnic_dev \<times> sys" where
  "mqnic_i2c_adapter_release adapter w = (if adapter = None then w else mqnic_i2c_bus_release adapter w)"

definition mqnic_i2c_init :: "mqnic_dev \<times> sys \<Rightarrow> int \<times> mqnic_dev \<times> sys" where
  "mqnic_i2c_init w = (case w of (d, s) \<Rightarrow> (0, d\<lparr>md_i2c_bus := []\<rparr>, s))"

lemma release_first_length:
  "md_i2c_bus d = b # bs \<Longrightarrow> md_i2c_bus (fst (mqnic_i2c_bus_release (Some b) (d, s))) = bs"
  by (simp add: mqnic_i2c_bus_release_def Let_def)

function mqnic_i2c_deinit :: "mqnic_dev \<times> sys \<Rightarrow> mqnic_dev \<times> sys" where
  "mqnic_i2c_deinit w = (case md_i2c_bus (fst w) of
     [] \<Rightarrow> w
   | bus # _ \<Rightarrow> mqnic_i2c_deinit (mqnic_i2c_bus_release (Some bus) w))"
  by pat_completeness auto
termination
  by (relation "measure (\<lambda>w. length (md_i2c_bus (fst w)))") (auto simp: release_first_length)

declare mqnic_i2c_deinit.simps [simp del]

section \<open>The lines do not disturb each other\<close>

text \<open>A bus as \<open>mqnic_i2c_bus_create\<close> makes it.\<close>

definition gpio_bus :: "i2c_bus \<Rightarrow> addr \<Rightarrow> bool" where
  "gpio_bus b reg \<longleftrightarrow> bus_scl_in_reg b = reg \<and> bus_scl_out_reg b = reg \<and> bus_sda_in_reg b = reg \<and>
     bus_sda_out_reg b = reg \<and> bus_scl_in_mask b = I2C_SCL_IN \<and> bus_scl_out_mask b = I2C_SCL_OUT \<and>
     bus_sda_in_mask b = I2C_SDA_IN \<and> bus_sda_out_mask b = I2C_SDA_OUT"

lemmas i2c_masks = I2C_SCL_IN_def I2C_SCL_OUT_def I2C_SDA_IN_def I2C_SDA_OUT_def

text \<open>The value written: as read, with one output bit set or cleared.\<close>

definition line_write :: "u32 \<Rightarrow> u32 \<Rightarrow> bool \<Rightarrow> u32" where
  "line_write v m b = (if b then v OR m else v AND NOT m)"

lemma set_scl_trace:
  assumes "gpio_bus b reg"
  shows "trace (mqnic_i2c_set_scl b st s) =
    Iowrite32 reg (line_write (w_ioread s (trace s) reg) I2C_SCL_OUT st) # Ioread32 reg (w_ioread s (trace s) reg) # trace s"
  using assms by (simp add: mqnic_i2c_set_scl_def gpio_bus_def ioread32_def Let_def line_write_def)

lemma set_sda_trace:
  assumes "gpio_bus b reg"
  shows "trace (mqnic_i2c_set_sda b st s) =
    Iowrite32 reg (line_write (w_ioread s (trace s) reg) I2C_SDA_OUT st) # Ioread32 reg (w_ioread s (trace s) reg) # trace s"
  using assms by (simp add: mqnic_i2c_set_sda_def gpio_bus_def ioread32_def Let_def line_write_def)

lemma line_write_bit: "n < 32 \<Longrightarrow> bit (line_write v m b) n \<longleftrightarrow> (if bit m n then b else bit v n)"
  by (auto simp: line_write_def bit_simps)

lemma scl_sda_bits: "bit I2C_SCL_OUT n \<longleftrightarrow> n = 1" "bit I2C_SDA_OUT n \<longleftrightarrow> n = 9"
proof -
  have e: "I2C_SCL_OUT = 2 ^ 1" "I2C_SDA_OUT = 2 ^ 9" by (simp_all add: i2c_masks)
  show "bit I2C_SCL_OUT n \<longleftrightarrow> n = 1" unfolding e(1) bit_exp_iff by auto
  show "bit I2C_SDA_OUT n \<longleftrightarrow> n = 9" unfolding e(2) bit_exp_iff by auto
qed

section \<open>What is held\<close>

definition bus_acct :: "int \<Rightarrow> res \<Rightarrow> mqnic_dev \<times> sys \<Rightarrow> bool" where
  "bus_acct c x w \<longleftrightarrow> bal (trace (snd w)) x = c + own_buses x (fst w) \<and>
     md_i2c_adapter_count (fst w) = int (length (md_i2c_bus (fst w)))"

definition only_i2c :: "mqnic_dev \<Rightarrow> mqnic_dev \<Rightarrow> bool" where
  "only_i2c d d' \<longleftrightarrow> d' = d\<lparr>md_i2c_bus := md_i2c_bus d', md_i2c_adapter_count := md_i2c_adapter_count d'\<rparr>"

lemma only_i2c_refl [simp]: "only_i2c d d"
  by (simp add: only_i2c_def)

lemma only_i2c_trans: "only_i2c d e \<Longrightarrow> only_i2c e f \<Longrightarrow> only_i2c d f"
  unfolding only_i2c_def by (cases d; cases e; cases f) simp

lemma bus_create_acct:
  assumes "mqnic_i2c_bus_create reg (d, s) = (p, d', s')" "bus_acct c x (d, s)"
  shows "bus_acct c x (d', s') \<and> only_i2c d d' \<and>
    (case p of None \<Rightarrow> d' = d | Some b \<Rightarrow> gpio_bus b reg \<and> md_i2c_bus d' = md_i2c_bus d @ [b])"
proof (cases "reg = 0")
  case False
  obtain q s1 where z: "kzalloc s = (q, s1)" by force
  show ?thesis
  proof (cases q)
    case None
    with assms False z bal_kzalloc [OF z, of x] show ?thesis by (auto simp: mqnic_i2c_bus_create_def bus_acct_def)
  next
    case (Some m)
    obtain r s2 where r: "kget ''i2c_bit_add_bus'' [int m] (\<lambda>r. r = 0) (\<lambda>_. I2cAdapter m) s1 = (r, s2)" by force
    note b = bal_kzalloc [OF z, of x] bal_kget [OF r, of x]
    show ?thesis
    proof (cases "r = 0")
      case True
      with assms False z Some r b show ?thesis
        by (auto simp: mqnic_i2c_bus_create_def Let_def bus_acct_def only_i2c_def gpio_bus_def own_buses_def own_bus_def)
    next
      case e: False
      with assms False z Some r b show ?thesis by (auto simp: mqnic_i2c_bus_create_def bus_acct_def)
    qed
  qed
qed (use assms in \<open>auto simp: mqnic_i2c_bus_create_def\<close>)

lemma bus_release_acct:
  assumes "bus_acct c x (d, s)" "b \<in> set (md_i2c_bus d)"
  shows "bus_acct c x (mqnic_i2c_bus_release (Some b) (d, s)) \<and>
    only_i2c d (fst (mqnic_i2c_bus_release (Some b) (d, s)))"
  using assms sum_list_map_remove1 [OF assms(2), of "own_bus x"] length_remove1 [of b "md_i2c_bus d"]
    length_pos_if_in_set [OF assms(2)]
  by (auto simp: mqnic_i2c_bus_release_def Let_def bus_acct_def only_i2c_def own_buses_def own_bus_def of_nat_diff Suc_leI)

text \<open>Tearing down releases every bus, and the loop ends.\<close>

lemma i2c_deinit_acct:
  assumes "bus_acct c x w"
  shows "bal (trace (snd (mqnic_i2c_deinit w))) x = c \<and> md_i2c_bus (fst (mqnic_i2c_deinit w)) = [] \<and>
    md_i2c_adapter_count (fst (mqnic_i2c_deinit w)) = 0 \<and> only_i2c (fst w) (fst (mqnic_i2c_deinit w))"
  using assms
proof (induction w rule: mqnic_i2c_deinit.induct)
  case (1 w)
  show ?case
  proof (cases "md_i2c_bus (fst w)")
    case Nil
    with 1 show ?thesis by (subst (1 2 3 4) mqnic_i2c_deinit.simps) (simp add: bus_acct_def own_buses_def)
  next
    case (Cons b bs)
    obtain d s where w: "w = (d, s)" by force
    note r = bus_release_acct [of c x d s b]
    from Cons "1.prems" have h: "bus_acct c x (mqnic_i2c_bus_release (Some b) w)" "only_i2c d (fst (mqnic_i2c_bus_release (Some b) w))"
      using r by (auto simp: w)
    have "mqnic_i2c_deinit w = mqnic_i2c_deinit (mqnic_i2c_bus_release (Some b) w)"
      by (subst mqnic_i2c_deinit.simps) (simp add: Cons)
    with "1.IH" [OF Cons h(1)] h(2) show ?thesis by (auto simp: w intro: only_i2c_trans)
  qed
qed

end
