(* ===== verification/Board.thy ===== *)
theory Board
  imports I2c
begin

text \<open>
  The boards (\<open>modules/mqnic/mqnic_board.c\<close>): the I2C devices each board has, the management controllers
  of the Alveo and Gecko boards, and the list of MAC addresses they yield. Messages to the log are left out.
\<close>

section \<open>What the code takes from the kernel\<close>

text \<open>
  \<open>be_valid\<close> is \<open>is_valid_ether_addr\<close>; \<open>be_block_read\<close> is \<open>i2c_smbus_read_i2c_block_data\<close>, its result and
  the bytes it stored; \<open>be_stack\<close> is what an uninitialised array holds.
\<close>

record board_env =
  be_valid :: "u8 list \<Rightarrow> bool"
  be_block_read :: "event list \<Rightarrow> i2c_client \<Rightarrow> u8 \<Rightarrow> nat \<Rightarrow> int \<times> u8 list"
  be_stack :: "u8 list"

definition i2c_smbus_read_i2c_block_data ::
    "board_env \<Rightarrow> i2c_client \<Rightarrow> u8 \<Rightarrow> nat \<Rightarrow> sys \<Rightarrow> (int \<times> u8 list) \<times> sys" where
  "i2c_smbus_read_i2c_block_data env c reg n s =
     (be_block_read env (trace s) c reg n, kvoid ''i2c_smbus_read_i2c_block_data'' [c, uint reg, int n] s)"

definition GPIO_I2C_0 :: addr where "GPIO_I2C_0 = 0x0110"
definition GPIO_I2C_1 :: addr where "GPIO_I2C_1 = 0x0114"

definition BOARD_ID_NETFPGA_SUME :: u32 where "BOARD_ID_NETFPGA_SUME = 0x10ee7028"
definition BOARD_ID_AU50 :: u32 where "BOARD_ID_AU50 = 0x10ee9032"
definition BOARD_ID_AU200 :: u32 where "BOARD_ID_AU200 = 0x10ee90c8"
definition BOARD_ID_AU250 :: u32 where "BOARD_ID_AU250 = 0x10ee90fa"
definition BOARD_ID_AU280 :: u32 where "BOARD_ID_AU280 = 0x10ee9118"
definition BOARD_ID_VCU108 :: u32 where "BOARD_ID_VCU108 = 0x10ee806c"
definition BOARD_ID_VCU118 :: u32 where "BOARD_ID_VCU118 = 0x10ee9076"
definition BOARD_ID_VCU1525 :: u32 where "BOARD_ID_VCU1525 = 0x10ee95f5"
definition BOARD_ID_ZCU106 :: u32 where "BOARD_ID_ZCU106 = 0x10ee906a"
definition BOARD_ID_FB2CG_KU15P :: u32 where "BOARD_ID_FB2CG_KU15P = 0x1c2ca00e"
definition BOARD_ID_EXANIC_X10 :: u32 where "BOARD_ID_EXANIC_X10 = 0x1ce40003"
definition BOARD_ID_EXANIC_X25 :: u32 where "BOARD_ID_EXANIC_X25 = 0x1ce40009"
definition BOARD_ID_ADM_PCIE_9V3 :: u32 where "BOARD_ID_ADM_PCIE_9V3 = 0x41449003"

section \<open>I2C clients\<close>

text \<open>An adapter is one of the driver's buses or a channel of a multiplexer.\<close>

datatype i2c_adapter = Bus_adapter i2c_bus | Mux_adapter int

fun adapter_args :: "i2c_adapter \<Rightarrow> int list" where
  "adapter_args (Bus_adapter b) = [0, int (bus_mem b)]"
| "adapter_args (Mux_adapter a) = [1, a]"

definition create_i2c_client :: "i2c_adapter option \<Rightarrow> string \<Rightarrow> int \<Rightarrow> bool \<Rightarrow> sys \<Rightarrow> i2c_client option \<times> sys" where
  "create_i2c_client adapter type addr props s = (case adapter of
     None \<Rightarrow> (None, s)
   | Some a \<Rightarrow>
       let (c, s) = kcall ''i2c_new_device'' (adapter_args a @ [addr, of_bool props] @ map of_char type) s
       in if c = 0 then (None, s)
          else let (err, s) = kcall ''device_attach'' [c] s
               in if err < 0 then (None, kvoid ''i2c_unregister_device'' [c] s) else (Some c, s))"

definition get_i2c_mux_channel :: "i2c_client option \<Rightarrow> nat \<Rightarrow> sys \<Rightarrow> i2c_adapter option \<times> sys" where
  "get_i2c_mux_channel mux chan_id s = (case mux of
     None \<Rightarrow> (None, s)
   | Some m \<Rightarrow>
       let (muxc, s) = kcall ''i2c_get_clientdata'' [m] s
       in if muxc = 0 then (None, s)
          else let (n, s) = kcall ''num_adapters'' [muxc] s
               in if n \<le> int chan_id then (None, s)
                  else let (a, s) = kcall ''adapter'' [muxc, int chan_id] s
                       in (if a = 0 then None else Some (Mux_adapter a), s))"

section \<open>MAC addresses\<close>

definition init_mac_list_from_base_mac :: "board_env \<Rightarrow> int \<Rightarrow> u8 list \<Rightarrow> mqnic_dev \<Rightarrow> int \<times> mqnic_dev" where
  "init_mac_list_from_base_mac env cnt mac d =
    (let cnt = min cnt (int MAX_IF) in
     if \<not> be_valid env mac then (- 1, d)
     else (cnt, fold (\<lambda>k d. d\<lparr>md_mac_list := (md_mac_list d)
              [k := mac[ETH_ALEN - 1 := mac ! (ETH_ALEN - 1) + word_of_nat k]]\<rparr>)
            [0..<nat cnt] (d\<lparr>md_mac_count := cnt\<rparr>)))"

definition read_mac_from_eeprom :: "board_env \<Rightarrow> i2c_client option \<Rightarrow> u8 \<Rightarrow> u8 list \<Rightarrow> sys \<Rightarrow> (int \<times> u8 list) \<times> sys" where
  "read_mac_from_eeprom env eeprom offset mac s = (case eeprom of
     None \<Rightarrow> ((- 1, mac), s)
   | Some c \<Rightarrow>
       (case i2c_smbus_read_i2c_block_data env c offset ETH_ALEN s of ((ret, bytes), s) \<Rightarrow>
          let mac = take (nat ret) bytes @ drop (nat ret) mac
          in if ret < 0 then ((- 1, mac), s) else ((0, mac), s)))"

definition init_mac_list_from_eeprom_base ::
    "board_env \<Rightarrow> i2c_client option \<Rightarrow> u8 \<Rightarrow> int \<Rightarrow> mqnic_dev \<times> sys \<Rightarrow> int \<times> mqnic_dev \<times> sys" where
  "init_mac_list_from_eeprom_base env eeprom offset cnt w = (case w of (d, s) \<Rightarrow>
     (case read_mac_from_eeprom env eeprom offset (be_stack env) s of ((ret, mac), s) \<Rightarrow>
        if ret < 0 then (ret, d, s)
        else if \<not> be_valid env mac then (- 1, d, s)
        else case init_mac_list_from_base_mac env cnt mac d of (r, d) \<Rightarrow> (r, d, s)))"

section \<open>Generic boards\<close>

text \<open>
  A board is a sequence of steps over the local variables \<open>adapter\<close> and \<open>mux\<close> of the init function and
  the device.
\<close>

type_synonym board_state = "i2c_adapter option \<times> i2c_client option \<times> mqnic_dev \<times> sys"

definition request_module :: "string \<Rightarrow> board_state \<Rightarrow> board_state" where
  "request_module name v = (case v of (a, m, d, s) \<Rightarrow> (a, m, d, kvoid ''request_module'' (map of_char name) s))"

definition new_adapter :: "addr \<Rightarrow> board_state \<Rightarrow> board_state" where
  "new_adapter reg v = (case v of (_, m, d, s) \<Rightarrow>
     (case mqnic_i2c_adapter_create (md_hw_addr d + reg) (d, s) of (b, d, s) \<Rightarrow> (map_option Bus_adapter b, m, d, s)))"

definition new_mux :: "string \<Rightarrow> int \<Rightarrow> board_state \<Rightarrow> board_state" where
  "new_mux type addr v = (case v of (a, _, d, s) \<Rightarrow>
     (case create_i2c_client a type addr True s of (m, s) \<Rightarrow> (a, m, d, s)))"

definition mod_client :: "nat \<Rightarrow> i2c_adapter option \<Rightarrow> mqnic_dev \<times> sys \<Rightarrow> mqnic_dev \<times> sys" where
  "mod_client k adapter w = (case w of (d, s) \<Rightarrow>
     (case create_i2c_client adapter ''24c02'' 0x50 False s of (c, s) \<Rightarrow>
        (d\<lparr>md_mod_i2c_client := (md_mod_i2c_client d)(k := c)\<rparr>, s)))"

definition mod_on_mux :: "nat \<Rightarrow> nat \<Rightarrow> board_state \<Rightarrow> board_state" where
  "mod_on_mux k chan v = (case v of (a, m, d, s) \<Rightarrow>
     (case get_i2c_mux_channel m chan s of (ch, s) \<Rightarrow> (a, m, mod_client k ch (d, s))))"

definition mod_on_adapter :: "nat \<Rightarrow> board_state \<Rightarrow> board_state" where
  "mod_on_adapter k v = (case v of (a, m, w) \<Rightarrow> (a, m, mod_client k a w))"

definition eeprom_client :: "i2c_adapter option \<Rightarrow> string \<Rightarrow> int \<Rightarrow> mqnic_dev \<times> sys \<Rightarrow> mqnic_dev \<times> sys" where
  "eeprom_client adapter type addr w = (case w of (d, s) \<Rightarrow>
     (case create_i2c_client adapter type addr False s of (c, s) \<Rightarrow> (d\<lparr>md_eeprom_i2c_client := c\<rparr>, s)))"

definition eeprom_on_mux :: "nat \<Rightarrow> board_state \<Rightarrow> board_state" where
  "eeprom_on_mux chan v = (case v of (a, m, d, s) \<Rightarrow>
     (case get_i2c_mux_channel m chan s of (ch, s) \<Rightarrow> (a, m, eeprom_client ch ''24c08'' 0x54 (d, s))))"

definition eeprom_on_adapter :: "board_state \<Rightarrow> board_state" where
  "eeprom_on_adapter v = (case v of (a, m, w) \<Rightarrow> (a, m, eeprom_client a ''24c02'' 0x50 w))"

definition mod_count :: "int \<Rightarrow> board_state \<Rightarrow> board_state" where
  "mod_count n v = (case v of (a, m, d, s) \<Rightarrow> (a, m, d\<lparr>md_mod_i2c_client_count := n\<rparr>, s))"

definition macs_from_eeprom :: "board_env \<Rightarrow> board_state \<Rightarrow> board_state" where
  "macs_from_eeprom env v = (case v of (a, m, d, s) \<Rightarrow>
     (a, m, snd (init_mac_list_from_eeprom_base env (md_eeprom_i2c_client d) 0 (int MAX_IF) (d, s))))"

definition netfpga_sume_steps :: "(board_state \<Rightarrow> board_state) list" where
  "netfpga_sume_steps =
    [request_module ''i2c_mux_pca954x'', request_module ''at24'',
     new_adapter GPIO_I2C_0,
     new_mux ''pca9548'' 0x74,
     mod_on_mux 0 0,
     mod_on_mux 1 1,
     mod_on_mux 2 2,
     mod_on_mux 3 3,
     mod_count 4]"

definition vcu108_steps :: "board_env \<Rightarrow> (board_state \<Rightarrow> board_state) list" where
  "vcu108_steps env =
    [request_module ''i2c_mux_pca954x'', request_module ''at24'',
     new_adapter GPIO_I2C_0,
     new_mux ''pca9548'' 0x74,
     mod_on_mux 0 2,
     new_mux ''pca9544'' 0x75,
     eeprom_on_mux 3,
     mod_count 1,
     macs_from_eeprom env]"

definition vcu118_steps :: "board_env \<Rightarrow> (board_state \<Rightarrow> board_state) list" where
  "vcu118_steps env =
    [request_module ''i2c_mux_pca954x'', request_module ''at24'',
     new_adapter GPIO_I2C_0,
     new_mux ''pca9548'' 0x74,
     mod_on_mux 0 2,
     mod_on_mux 1 3,
     new_mux ''pca9548'' 0x75,
     eeprom_on_mux 3,
     mod_count 2,
     macs_from_eeprom env]"

definition vcu1525_steps :: "board_env \<Rightarrow> (board_state \<Rightarrow> board_state) list" where
  "vcu1525_steps env =
    [request_module ''i2c_mux_pca954x'', request_module ''at24'',
     new_adapter GPIO_I2C_0,
     new_mux ''pca9546'' 0x74,
     mod_on_mux 0 0,
     mod_on_mux 1 1,
     eeprom_on_mux 2,
     mod_count 2,
     macs_from_eeprom env]"

definition zcu106_steps :: "board_env \<Rightarrow> (board_state \<Rightarrow> board_state) list" where
  "zcu106_steps env =
    [request_module ''i2c_mux_pca954x'', request_module ''at24'',
     new_adapter GPIO_I2C_0,
     new_mux ''pca9548'' 0x74,
     eeprom_on_mux 0,
     new_mux ''pca9548'' 0x75,
     mod_on_mux 0 7,
     mod_on_mux 1 6,
     mod_count 2,
     macs_from_eeprom env]"

definition exanic_steps :: "board_env \<Rightarrow> (board_state \<Rightarrow> board_state) list" where
  "exanic_steps env =
    [new_adapter GPIO_I2C_1,
     eeprom_on_adapter,
     macs_from_eeprom env]"

text \<open>Run the steps in order from uninitialised local variables.\<close>

definition run_steps :: "(board_state \<Rightarrow> board_state) list \<Rightarrow> mqnic_dev \<times> sys \<Rightarrow> mqnic_dev \<times> sys" where
  "run_steps fs w = snd (snd (fold (\<lambda>f. f) fs (None, None, w)))"

definition generic_steps :: "board_env \<Rightarrow> u32 \<Rightarrow> (board_state \<Rightarrow> board_state) list" where
  "generic_steps env board =
    (if board = BOARD_ID_NETFPGA_SUME then netfpga_sume_steps
     else if board = BOARD_ID_VCU108 then vcu108_steps env
     else if board = BOARD_ID_VCU118 then vcu118_steps env
     else if board = BOARD_ID_VCU1525 then vcu1525_steps env
     else if board = BOARD_ID_ZCU106 then zcu106_steps env
     else if board = BOARD_ID_EXANIC_X10 \<or> board = BOARD_ID_EXANIC_X25 \<or> board = BOARD_ID_ADM_PCIE_9V3
     then exanic_steps env
     else [])"

definition mqnic_generic_board_init :: "board_env \<Rightarrow> mqnic_dev \<times> sys \<Rightarrow> int \<times> mqnic_dev \<times> sys" where
  "mqnic_generic_board_init env w = (case w of (d, s) \<Rightarrow>
     (case mqnic_i2c_init (d\<lparr>md_mod_i2c_client_count := 0\<rparr>, s) of (e, w) \<Rightarrow>
        if e \<noteq> 0 then (- 1, w)
        else (0, run_steps (generic_steps env (md_board_id (fst w))) w)))"

definition mod_client_drop :: "nat \<Rightarrow> mqnic_dev \<times> sys \<Rightarrow> mqnic_dev \<times> sys" where
  "mod_client_drop k w = (case w of (d, s) \<Rightarrow>
     (case md_mod_i2c_client d k of
        None \<Rightarrow> (d, s)
      | Some c \<Rightarrow> (d\<lparr>md_mod_i2c_client := (md_mod_i2c_client d)(k := None)\<rparr>, kvoid ''i2c_unregister_device'' [c] s)))"

definition eeprom_client_drop :: "mqnic_dev \<times> sys \<Rightarrow> mqnic_dev \<times> sys" where
  "eeprom_client_drop w = (case w of (d, s) \<Rightarrow>
     (case md_eeprom_i2c_client d of
        None \<Rightarrow> (d, s)
      | Some c \<Rightarrow> (d\<lparr>md_eeprom_i2c_client := None\<rparr>, kvoid ''i2c_unregister_device'' [c] s)))"

definition mqnic_generic_board_deinit :: "mqnic_dev \<times> sys \<Rightarrow> mqnic_dev \<times> sys" where
  "mqnic_generic_board_deinit w =
     mqnic_i2c_deinit (eeprom_client_drop (fold mod_client_drop [0..<MAX_IF] w))"

section \<open>Alveo boards\<close>

definition mqnic_alveo_bmc_reg_read :: "addr \<Rightarrow> u32 \<Rightarrow> sys \<Rightarrow> u32 \<times> sys" where
  "mqnic_alveo_bmc_reg_read hw reg s =
    (let s = iowrite32 reg (hw + 0x180) s; (_, s) = ioread32 (hw + 0x184) s in ioread32 (hw + 0x184) s)"

definition mqnic_alveo_bmc_reg_write :: "addr \<Rightarrow> u32 \<Rightarrow> u32 \<Rightarrow> sys \<Rightarrow> sys" where
  "mqnic_alveo_bmc_reg_write hw reg val s =
    (let s = iowrite32 reg (hw + 0x180) s; s = iowrite32 val (hw + 0x184) s in snd (ioread32 (hw + 0x184) s))"

definition mqnic_alveo_bmc_read_mac :: "addr \<Rightarrow> nat \<Rightarrow> sys \<Rightarrow> (int \<times> u8 list) \<times> sys" where
  "mqnic_alveo_bmc_read_mac hw index s =
    (let reg = 0x0281a0 + word_of_nat index * 8;
         (v1, s) = mqnic_alveo_bmc_reg_read hw reg s;
         (v2, s) = mqnic_alveo_bmc_reg_read hw (reg + 4) s
     in ((0, [ucast (drop_bit 8 v1), ucast v1,
              ucast (drop_bit 24 v2), ucast (drop_bit 16 v2), ucast (drop_bit 8 v2), ucast v2]), s))"

text \<open>The loop both controllers share: keep the valid addresses, give up at the first failed read.\<close>

fun mac_list_loop :: "(u8 list \<Rightarrow> bool) \<Rightarrow> (nat \<Rightarrow> sys \<Rightarrow> (int \<times> u8 list) \<times> sys) \<Rightarrow> nat list \<Rightarrow>
    mqnic_dev \<times> sys \<Rightarrow> int \<times> mqnic_dev \<times> sys" where
  "mac_list_loop valid read_mac [] (d, s) = (md_mac_count d, d, s)"
| "mac_list_loop valid read_mac (k # ks) (d, s) =
    (case read_mac k s of ((ret, mac), s) \<Rightarrow>
       if ret \<noteq> 0 then (- 1, d, s)
       else mac_list_loop valid read_mac ks
         (if valid mac
          then d\<lparr>md_mac_list := (md_mac_list d)[nat (md_mac_count d) := mac], md_mac_count := md_mac_count d + 1\<rparr>
          else d, s))"

definition mqnic_alveo_bmc_read_mac_list :: "board_env \<Rightarrow> int \<Rightarrow> mqnic_dev \<times> sys \<Rightarrow> int \<times> mqnic_dev \<times> sys" where
  "mqnic_alveo_bmc_read_mac_list env cnt w = (case w of (d, s) \<Rightarrow>
     mac_list_loop (be_valid env) (mqnic_alveo_bmc_read_mac (md_hw_addr d))
       [0..<nat (min cnt (int MAX_IF))] (d\<lparr>md_mac_count := 0\<rparr>, s))"

definition alveo_qsfp_steps :: "(board_state \<Rightarrow> board_state) list" where
  "alveo_qsfp_steps =
    [request_module ''i2c_mux_pca954x'', request_module ''at24'',
     new_adapter GPIO_I2C_0,
     new_mux ''pca9546'' 0x74,
     mod_on_mux 0 0,
     mod_on_mux 1 1,
     eeprom_on_mux 2,
     mod_count 2]"

definition CMS_MAGIC :: u32 where "CMS_MAGIC = 0x74736574"

definition alveo_init_bmc :: "board_env \<Rightarrow> mqnic_dev \<times> sys \<Rightarrow> mqnic_dev \<times> sys" where
  "alveo_init_bmc env w = (case w of (d, s) \<Rightarrow>
     let hw = md_hw_addr d;
         (v, s) = mqnic_alveo_bmc_reg_read hw 0x020000 s;
         (reset, s) = (if v = 0 then (True, s)
                       else case mqnic_alveo_bmc_reg_read hw 0x028000 s of (v, s) \<Rightarrow> (v \<noteq> CMS_MAGIC, s));
         s = (if reset
              then kvoid ''msleep'' [100] (mqnic_alveo_bmc_reg_write hw 0x020000 1
                     (mqnic_alveo_bmc_reg_write hw 0x020000 0 s))
              else s);
         (v, s) = mqnic_alveo_bmc_reg_read hw 0x028000 s
     in if v \<noteq> CMS_MAGIC then (d, s) else snd (mqnic_alveo_bmc_read_mac_list env 8 (d, s)))"

definition mqnic_alveo_board_init :: "board_env \<Rightarrow> mqnic_dev \<times> sys \<Rightarrow> int \<times> mqnic_dev \<times> sys" where
  "mqnic_alveo_board_init env w = (case w of (d, s) \<Rightarrow>
     (case mqnic_i2c_init (d\<lparr>md_mod_i2c_client_count := 0\<rparr>, s) of (e, w) \<Rightarrow>
        if e \<noteq> 0 then (- 1, w)
        else
          let board = md_board_id d;
              w = (if board = BOARD_ID_AU200 \<or> board = BOARD_ID_AU250 then run_steps alveo_qsfp_steps w else w)
          in if board \<in> {BOARD_ID_AU200, BOARD_ID_AU250, BOARD_ID_AU50, BOARD_ID_AU280}
             then (0, alveo_init_bmc env w) else (0, w)))"

section \<open>Gecko boards\<close>

text \<open>At most 200 reads of the status register: \<open>n\<close> counts the ones left.\<close>

primrec gecko_poll :: "nat \<Rightarrow> addr \<Rightarrow> sys \<Rightarrow> int \<times> sys" where
  "gecko_poll 0 hw s = (- 1, s)"
| "gecko_poll (Suc n) hw s = (case ioread32 (hw + 0x188) s of (val, s) \<Rightarrow>
     if bit val 19
     then if bit val 18 then (- 2, kvoid ''msleep'' [20] s) else (uint (val AND 0xffff), s)
     else if n = 0 then (- 1, s)
     else gecko_poll n hw (kvoid ''usleep_range'' [1000, 100000] s))"

definition mqnic_gecko_bmc_read :: "addr \<Rightarrow> sys \<Rightarrow> int \<times> sys" where
  "mqnic_gecko_bmc_read hw s = gecko_poll 200 hw s"

definition mqnic_gecko_bmc_write :: "addr \<Rightarrow> u16 \<Rightarrow> u32 \<Rightarrow> sys \<Rightarrow> int \<times> sys" where
  "mqnic_gecko_bmc_write hw cmd data s = (case mqnic_gecko_bmc_read hw s of (ret, s) \<Rightarrow>
     if ret = - 1 then (ret, s)
     else (0, iowrites [(data, hw + 0x180), (push_bit 16 (ucast cmd), hw + 0x184)] s))"

definition mqnic_gecko_bmc_query :: "addr \<Rightarrow> u16 \<Rightarrow> u32 \<Rightarrow> sys \<Rightarrow> int \<times> sys" where
  "mqnic_gecko_bmc_query hw cmd data s = (case mqnic_gecko_bmc_write hw cmd data s of (ret, s) \<Rightarrow>
     if ret \<noteq> 0 then (ret, s) else mqnic_gecko_bmc_read hw s)"

text \<open>The loop over \<open>i = 0, 2, 4\<close>; the answer is stored in an unsigned 16 bit variable before the test.\<close>

fun gecko_mac_loop :: "addr \<Rightarrow> nat \<Rightarrow> nat list \<Rightarrow> u8 list \<Rightarrow> sys \<Rightarrow> (int \<times> u8 list) \<times> sys" where
  "gecko_mac_loop hw index [] mac s = ((0, mac), s)"
| "gecko_mac_loop hw index (i # is) mac s =
    (case mqnic_gecko_bmc_query hw 0x2003 (word_of_nat (index * ETH_ALEN + i)) s of (r, s) \<Rightarrow>
       let val = word_of_int r :: u16
       in if uint val < 0 then ((uint val, mac), s)
          else gecko_mac_loop hw index is (mac[i := ucast val, i + 1 := ucast (drop_bit 8 val)]) s)"

definition mqnic_gecko_bmc_read_mac :: "board_env \<Rightarrow> addr \<Rightarrow> nat \<Rightarrow> sys \<Rightarrow> (int \<times> u8 list) \<times> sys" where
  "mqnic_gecko_bmc_read_mac env hw index s = gecko_mac_loop hw index [0, 2, 4] (be_stack env) s"

definition mqnic_gecko_bmc_read_mac_list :: "board_env \<Rightarrow> int \<Rightarrow> mqnic_dev \<times> sys \<Rightarrow> int \<times> mqnic_dev \<times> sys" where
  "mqnic_gecko_bmc_read_mac_list env cnt w = (case w of (d, s) \<Rightarrow>
     mac_list_loop (be_valid env) (mqnic_gecko_bmc_read_mac env (md_hw_addr d))
       [0..<nat (min cnt (int MAX_IF))] (d\<lparr>md_mac_count := 0\<rparr>, s))"

definition fb2cg_steps :: "(board_state \<Rightarrow> board_state) list" where
  "fb2cg_steps =
    [request_module ''at24'',
     new_adapter GPIO_I2C_0,
     mod_on_adapter 0,
     new_adapter GPIO_I2C_1,
     mod_on_adapter 1,
     mod_count 2]"

definition gecko_init_bmc :: "board_env \<Rightarrow> mqnic_dev \<times> sys \<Rightarrow> mqnic_dev \<times> sys" where
  "gecko_init_bmc env w = (case w of (d, s) \<Rightarrow>
     (case mqnic_gecko_bmc_query (md_hw_addr d) 0x7006 0 s of (r, s) \<Rightarrow>
        if r \<le> 0 then (d, s)
        else case mqnic_gecko_bmc_query (md_hw_addr d) 0x7005 0 s of (v_l, s) \<Rightarrow>
          case mqnic_gecko_bmc_query (md_hw_addr d) 0x7006 0 s of (v_h, s) \<Rightarrow>
            snd (mqnic_gecko_bmc_read_mac_list env 8 (d, s))))"

definition mqnic_gecko_board_init :: "board_env \<Rightarrow> mqnic_dev \<times> sys \<Rightarrow> int \<times> mqnic_dev \<times> sys" where
  "mqnic_gecko_board_init env w = (case w of (d, s) \<Rightarrow>
     (case mqnic_i2c_init (d\<lparr>md_mod_i2c_client_count := 0\<rparr>, s) of (e, w) \<Rightarrow>
        if e \<noteq> 0 then (- 1, w)
        else if md_board_id d = BOARD_ID_FB2CG_KU15P
        then (0, gecko_init_bmc env (run_steps fb2cg_steps w)) else (0, w)))"

section \<open>Choosing the board\<close>

definition board_ops_for :: "u32 \<Rightarrow> board_ops" where
  "board_ops_for board =
    (if board \<in> {BOARD_ID_AU50, BOARD_ID_AU200, BOARD_ID_AU250, BOARD_ID_AU280} then Alveo_board_ops
     else if board = BOARD_ID_FB2CG_KU15P then Gecko_board_ops
     else Generic_board_ops)"

definition mqnic_board_init :: "board_env \<Rightarrow> mqnic_dev \<times> sys \<Rightarrow> int \<times> mqnic_dev \<times> sys" where
  "mqnic_board_init env w = (case w of (d, s) \<Rightarrow>
     let ops = board_ops_for (md_board_id d); w = (d\<lparr>md_board_ops := Some ops\<rparr>, s)
     in case ops of
          Generic_board_ops \<Rightarrow> mqnic_generic_board_init env w
        | Alveo_board_ops \<Rightarrow> mqnic_alveo_board_init env w
        | Gecko_board_ops \<Rightarrow> mqnic_gecko_board_init env w)"

definition mqnic_board_deinit :: "mqnic_dev \<times> sys \<Rightarrow> mqnic_dev \<times> sys" where
  "mqnic_board_deinit w = (case md_board_ops (fst w) of None \<Rightarrow> w | Some _ \<Rightarrow> mqnic_generic_board_deinit w)"

section \<open>What is held\<close>

text \<open>The operations of a board touch the buses, the I2C clients and the MAC list only.\<close>

definition board_rest :: "mqnic_dev \<Rightarrow> mqnic_dev" where
  "board_rest d = d\<lparr>md_mac_count := 0, md_mac_list := [], md_i2c_bus := [],
     md_i2c_adapter_count := 0, md_mod_i2c_client_count := 0, md_mod_i2c_client := Map.empty,
     md_eeprom_i2c_client := None\<rparr>"

definition board_acct :: "int \<Rightarrow> res \<Rightarrow> mqnic_dev \<Rightarrow> mqnic_dev \<times> sys \<Rightarrow> bool" where
  "board_acct c x d0 w \<longleftrightarrow> bus_acct c x w \<and> board_rest (fst w) = board_rest d0"

lemma board_acct_mono:
  "board_acct c x d0 (d, s) \<Longrightarrow> bal (trace s') x = bal (trace s) x \<Longrightarrow> board_rest d' = board_rest d \<Longrightarrow>
     md_i2c_bus d' = md_i2c_bus d \<Longrightarrow> md_i2c_adapter_count d' = md_i2c_adapter_count d \<Longrightarrow> board_acct c x d0 (d', s')"
  by (simp add: board_acct_def bus_acct_def own_buses_def)

lemma only_i2c_rest: "only_i2c d d' \<Longrightarrow> board_rest d' = board_rest d"
  unfolding only_i2c_def board_rest_def by (cases d; cases d') simp

lemma create_client_bal: "create_i2c_client a t ad p s = (r, s') \<Longrightarrow> bal (trace s') x = bal (trace s) x"
  by (auto simp: create_i2c_client_def kcall_def Let_def split: option.splits if_splits)

lemma mux_channel_bal: "get_i2c_mux_channel m k s = (r, s') \<Longrightarrow> bal (trace s') x = bal (trace s) x"
  by (auto simp: get_i2c_mux_channel_def kcall_def Let_def split: option.splits if_splits)

text \<open>Writing MAC addresses leaves the rest of the device alone.\<close>

definition only_macs :: "mqnic_dev \<Rightarrow> mqnic_dev \<Rightarrow> bool" where
  "only_macs d d' \<longleftrightarrow> d' = d\<lparr>md_mac_list := md_mac_list d', md_mac_count := md_mac_count d'\<rparr>"

lemma only_macs_acct:
  assumes "only_macs d d'" "bal (trace s') x = bal (trace s) x" "board_acct c x d0 (d, s)"
  shows "board_acct c x d0 (d', s')"
proof -
  have e: "d' = d\<lparr>md_mac_list := md_mac_list d', md_mac_count := md_mac_count d'\<rparr>" using assms(1) by (simp add: only_macs_def)
  show ?thesis by (rule board_acct_mono [OF assms(3,2)]) (subst e, simp add: board_rest_def)+
qed

lemma mac_fold:
  "fold (\<lambda>k d. d\<lparr>md_mac_list := f k (md_mac_list d)\<rparr>) ks d = d\<lparr>md_mac_list := fold f ks (md_mac_list d)\<rparr>"
  by (induction ks arbitrary: d) simp_all

lemma base_mac_unfold:
  "init_mac_list_from_base_mac env n mac d =
    (if \<not> be_valid env mac then (- 1, d)
     else let n = min n (int MAX_IF) in
       (n, d\<lparr>md_mac_count := n, md_mac_list := fold (\<lambda>k l. l[k := mac[ETH_ALEN - 1 := mac ! (ETH_ALEN - 1) + word_of_nat k]])
          [0..<nat n] (md_mac_list d)\<rparr>))"
  unfolding init_mac_list_from_base_mac_def Let_def
  by (subst mac_fold [where f = "\<lambda>k l. l[k := mac[ETH_ALEN - 1 := mac ! (ETH_ALEN - 1) + word_of_nat k]]"]) simp

lemma read_mac_bal: "read_mac_from_eeprom env c off mac s = (r, s') \<Longrightarrow> bal (trace s') x = bal (trace s) x"
  by (auto simp: read_mac_from_eeprom_def i2c_smbus_read_i2c_block_data_def Let_def split: option.splits prod.splits if_splits)

lemma eeprom_macs_only:
  assumes "init_mac_list_from_eeprom_base env c off n (d, s) = (r, d', s')"
  shows "only_macs d d' \<and> bal (trace s') x = bal (trace s) x"
proof -
  obtain ret mac t where r: "read_mac_from_eeprom env c off (be_stack env) s = ((ret, mac), t)" by (metis surj_pair)
  from assms r read_mac_bal [OF r, of x] show ?thesis
    by (auto simp: init_mac_list_from_eeprom_base_def base_mac_unfold only_macs_def Let_def split: if_splits)
qed

lemma mac_loop_only:
  assumes "mac_list_loop valid rd ks (d, s) = (r, d', s')"
    and "\<And>k s v s'. rd k s = (v, s') \<Longrightarrow> bal (trace s') x = bal (trace s) x"
  shows "only_macs d d' \<and> bal (trace s') x = bal (trace s) x"
  using assms(1)
proof (induction ks arbitrary: d s)
  case Nil
  then show ?case by (simp add: only_macs_def)
next
  case (Cons k ks)
  obtain e mac t where r: "rd k s = ((e, mac), t)" by (metis surj_pair)
  note b = assms(2) [OF r]
  show ?case
  proof (cases "e = 0")
    case False
    with Cons.prems r b show ?thesis by (auto simp: only_macs_def)
  next
    case True
    let ?d = "if valid mac then d\<lparr>md_mac_list := (md_mac_list d)[nat (md_mac_count d) := mac], md_mac_count := md_mac_count d + 1\<rparr> else d"
    from Cons.prems True r have "mac_list_loop valid rd ks (?d, t) = (r, d', s')" by simp
    from Cons.IH [OF this] b show ?thesis by (auto simp: only_macs_def split: if_splits)
  qed
qed

text \<open>Every step keeps the accounts.\<close>

definition step_ok :: "(board_state \<Rightarrow> board_state) \<Rightarrow> bool" where
  "step_ok f \<longleftrightarrow> (\<forall>c x d0 a m w. board_acct c x d0 w \<longrightarrow> board_acct c x d0 (snd (snd (f (a, m, w)))))"

lemma mod_client_acct: "board_acct c x d0 w \<Longrightarrow> board_acct c x d0 (mod_client k a w)"
  by (cases w) (auto simp: mod_client_def board_rest_def dest: create_client_bal [of _ _ _ _ _ _ _ x] elim!: board_acct_mono split: prod.splits)

lemma eeprom_client_acct: "board_acct c x d0 w \<Longrightarrow> board_acct c x d0 (eeprom_client a t ad w)"
  by (cases w) (auto simp: eeprom_client_def board_rest_def dest: create_client_bal [of _ _ _ _ _ _ _ x] elim!: board_acct_mono split: prod.splits)

lemma mux_acct: "get_i2c_mux_channel m k s = (r, s') \<Longrightarrow> board_acct c x d0 (d, s) \<Longrightarrow> board_acct c x d0 (d, s')"
  by (drule mux_channel_bal [of _ _ _ _ _ x]) (auto elim!: board_acct_mono)

lemma new_adapter_acct: "board_acct c x d0 w \<Longrightarrow> board_acct c x d0 (snd (snd (new_adapter reg (a, m, w))))"
proof -
  assume h: "board_acct c x d0 w"
  obtain d s where w: "w = (d, s)" by force
  obtain b d' s' where n: "mqnic_i2c_bus_create (md_hw_addr d + reg) (d, s) = (b, d', s')" by (metis surj_pair)
  from bus_create_acct [OF n, of c x] h only_i2c_rest show ?thesis
    by (auto simp: new_adapter_def mqnic_i2c_adapter_create_def w n board_acct_def)
qed

lemma step_okI: "(\<And>c x d0 a m d s. board_acct c x d0 (d, s) \<Longrightarrow> board_acct c x d0 (snd (snd (f (a, m, d, s))))) \<Longrightarrow> step_ok f"
  by (auto simp: step_ok_def)

lemma acct_kvoid [simp]: "board_acct c x d0 (d, kvoid f as s) = board_acct c x d0 (d, s)"
  by (simp add: board_acct_def bus_acct_def)

lemma acct_mod_count [simp]: "board_acct c x d0 (d\<lparr>md_mod_i2c_client_count := j\<rparr>, s) = board_acct c x d0 (d, s)"
  by (simp add: board_acct_def bus_acct_def own_buses_def board_rest_def)

lemma client_acct: "create_i2c_client a t ad p s = (r, s') \<Longrightarrow> board_acct c x d0 (d, s) \<Longrightarrow> board_acct c x d0 (d, s')"
  by (drule create_client_bal [of _ _ _ _ _ _ _ x]) (auto elim!: board_acct_mono)

lemma steps_ok [simp]:
  shows step_request: "step_ok (request_module n)"
    and step_mod_count: "step_ok (mod_count j)"
    and step_new_adapter: "step_ok (new_adapter reg)"
    and step_new_mux: "step_ok (new_mux t ad)"
    and step_mod_on_mux: "step_ok (mod_on_mux k ch)"
    and step_mod_on_adapter: "step_ok (mod_on_adapter k)"
    and step_eeprom_on_mux: "step_ok (eeprom_on_mux ch)"
    and step_eeprom_on_adapter: "step_ok eeprom_on_adapter"
  by (auto intro!: step_okI new_adapter_acct mod_client_acct eeprom_client_acct elim: mux_acct client_acct
    simp: request_module_def mod_count_def new_mux_def mod_on_mux_def mod_on_adapter_def eeprom_on_mux_def
      eeprom_on_adapter_def split: prod.split)

lemma step_macs [simp]: "step_ok (macs_from_eeprom env)"
proof (rule step_okI)
  fix c x d0 a m d s assume h: "board_acct c x d0 (d, s)"
  obtain r d' s' where i: "init_mac_list_from_eeprom_base env (md_eeprom_i2c_client d) 0 (int MAX_IF) (d, s) = (r, d', s')" by (metis surj_pair)
  from eeprom_macs_only [OF i, of x] h show "board_acct c x d0 (snd (snd (macs_from_eeprom env (a, m, d, s))))"
    by (auto simp: macs_from_eeprom_def i intro: only_macs_acct)
qed

lemma run_steps_acct:
  assumes "list_all step_ok fs" "board_acct c x d0 w"
  shows "board_acct c x d0 (run_steps fs w)"
proof -
  have "board_acct c x d0 (snd (snd (fold (\<lambda>f. f) fs (a, m, w))))" for a m
    using assms
  proof (induction fs arbitrary: a m w)
    case (Cons f fs)
    obtain a' m' w' where f: "f (a, m, w) = (a', m', w')" by (metis surj_pair)
    from Cons.prems have "step_ok f" by simp
    with Cons.prems(2) have "board_acct c x d0 w'" unfolding step_ok_def by (metis f snd_conv)
    with Cons f show ?case by simp
  qed simp
  then show ?thesis by (simp add: run_steps_def)
qed

lemma generic_steps_ok: "list_all step_ok (generic_steps env b)"
  by (simp add: generic_steps_def netfpga_sume_steps_def vcu108_steps_def vcu118_steps_def vcu1525_steps_def
    zcu106_steps_def exanic_steps_def)

lemma other_steps_ok: "list_all step_ok alveo_qsfp_steps" "list_all step_ok fb2cg_steps"
  by (simp_all add: alveo_qsfp_steps_def fb2cg_steps_def)

lemma ioread_acct: "ioread32 r s = (v, s') \<Longrightarrow> bal (trace s') x = bal (trace s) x"
  by (rule bal_ioread32)

lemma alveo_read_bal: "mqnic_alveo_bmc_reg_read hw reg s = (v, s') \<Longrightarrow> bal (trace s') x = bal (trace s) x"
  by (auto simp: mqnic_alveo_bmc_reg_read_def Let_def split: prod.splits dest!: bal_ioread32 [of _ _ _ _ x])

lemma alveo_write_bal: "bal (trace (mqnic_alveo_bmc_reg_write hw reg v s)) x = bal (trace s) x"
  by (auto simp: mqnic_alveo_bmc_reg_write_def Let_def ioread32_def)

lemma alveo_mac_bal: "mqnic_alveo_bmc_read_mac hw k s = (v, s') \<Longrightarrow> bal (trace s') x = bal (trace s) x"
  by (auto simp: mqnic_alveo_bmc_read_mac_def Let_def split: prod.splits dest!: alveo_read_bal [of _ _ _ _ _ x])

lemma gecko_poll_bal: "gecko_poll n hw s = (v, s') \<Longrightarrow> bal (trace s') x = bal (trace s) x"
proof (induction n arbitrary: s)
  case (Suc n)
  obtain u t where "ioread32 (hw + 0x188) s = (u, t)" by force
  with Suc bal_ioread32 [OF this, of x] show ?case by (auto split: if_splits)
qed simp

lemma gecko_query_bal: "mqnic_gecko_bmc_query hw c v s = (r, s') \<Longrightarrow> bal (trace s') x = bal (trace s) x"
  by (auto simp: mqnic_gecko_bmc_query_def mqnic_gecko_bmc_write_def mqnic_gecko_bmc_read_def
    split: prod.splits if_splits dest!: gecko_poll_bal [of _ _ _ _ _ x])

lemma gecko_mac_loop_bal: "gecko_mac_loop hw k is mac s = (v, s') \<Longrightarrow> bal (trace s') x = bal (trace s) x"
proof (induction "is" arbitrary: mac s)
  case (Cons i "is")
  obtain r t where "mqnic_gecko_bmc_query hw 0x2003 (word_of_nat (k * ETH_ALEN + i)) s = (r, t)" by force
  with Cons gecko_query_bal [OF this, of x] show ?case by (auto simp: Let_def)
qed simp

lemma gecko_mac_bal: "mqnic_gecko_bmc_read_mac env hw k s = (v, s') \<Longrightarrow> bal (trace s') x = bal (trace s) x"
  unfolding mqnic_gecko_bmc_read_mac_def by (rule gecko_mac_loop_bal)

lemma alveo_bmc_acct:
  assumes "board_acct c x d0 (d, s)"
  shows "board_acct c x d0 (alveo_init_bmc env (d, s))"
proof -
  let ?hw = "md_hw_addr d"
  obtain v1 s1 where r1: "mqnic_alveo_bmc_reg_read ?hw 0x020000 s = (v1, s1)" by force
  obtain v2 s2 where r2: "mqnic_alveo_bmc_reg_read ?hw 0x028000 s1 = (v2, s2)" by force
  define p where "p = (if v1 = 0 then (True, s1) else (v2 \<noteq> CMS_MAGIC, s2))"
  define s3 where "s3 = (if fst p then kvoid ''msleep'' [100] (mqnic_alveo_bmc_reg_write ?hw 0x020000 1
      (mqnic_alveo_bmc_reg_write ?hw 0x020000 0 (snd p))) else snd p)"
  obtain v4 s4 where r4: "mqnic_alveo_bmc_reg_read ?hw 0x028000 s3 = (v4, s4)" by force
  obtain r d' s' where l: "mqnic_alveo_bmc_read_mac_list env 8 (d, s4) = (r, d', s')" by (metis surj_pair)
  have b: "bal (trace s4) x = bal (trace s) x"
    using alveo_read_bal [OF r1, of x] alveo_read_bal [OF r2, of x] alveo_read_bal [OF r4, of x]
    by (auto simp: s3_def p_def alveo_write_bal split: if_splits)
  have "only_macs (d\<lparr>md_mac_count := 0\<rparr>) d' \<and> bal (trace s') x = bal (trace s4) x"
    using l alveo_mac_bal unfolding mqnic_alveo_bmc_read_mac_list_def by (auto intro!: mac_loop_only)
  then have m: "only_macs d d' \<and> bal (trace s') x = bal (trace s4) x" by (auto simp: only_macs_def)
  have "alveo_init_bmc env (d, s) = (if v4 \<noteq> CMS_MAGIC then (d, s4) else (d', s'))"
    using r1 r2 r4 l unfolding alveo_init_bmc_def s3_def p_def by (auto simp: Let_def)
  with m b assms only_macs_acct [of d d' s' x s c d0] board_acct_mono [OF assms, of s4 d] show ?thesis by auto
qed

lemma gecko_bmc_acct:
  assumes "board_acct c x d0 (d, s)"
  shows "board_acct c x d0 (gecko_init_bmc env (d, s))"
proof -
  let ?hw = "md_hw_addr d"
  obtain r1 s1 where q1: "mqnic_gecko_bmc_query ?hw 0x7006 0 s = (r1, s1)" by force
  obtain r2 s2 where q2: "mqnic_gecko_bmc_query ?hw 0x7005 0 s1 = (r2, s2)" by force
  obtain r3 s3 where q3: "mqnic_gecko_bmc_query ?hw 0x7006 0 s2 = (r3, s3)" by force
  obtain r d' s' where l: "mqnic_gecko_bmc_read_mac_list env 8 (d, s3) = (r, d', s')" by (metis surj_pair)
  note b = gecko_query_bal [OF q1, of x] gecko_query_bal [OF q2, of x] gecko_query_bal [OF q3, of x]
  have "only_macs (d\<lparr>md_mac_count := 0\<rparr>) d' \<and> bal (trace s') x = bal (trace s3) x"
    using l unfolding mqnic_gecko_bmc_read_mac_list_def
    by (auto intro!: mac_loop_only gecko_mac_bal)
  then have m: "only_macs d d' \<and> bal (trace s') x = bal (trace s3) x" by (auto simp: only_macs_def)
  have "gecko_init_bmc env (d, s) = (if r1 \<le> 0 then (d, s1) else (d', s'))"
    using q1 q2 q3 l by (simp add: gecko_init_bmc_def)
  with m b assms only_macs_acct [of d d' s' x s c d0] board_acct_mono [OF assms, of s1 d] show ?thesis by auto
qed

text \<open>Bringing a board up never fails, and what it holds afterwards is its buses.\<close>

lemma start_acct:
  "board_acct c x d0 (d, s) \<Longrightarrow> md_i2c_bus d = [] \<Longrightarrow>
     board_acct c x d0 (d\<lparr>md_mod_i2c_client_count := 0, md_i2c_bus := []\<rparr>, s)"
  by (erule board_acct_mono) (simp_all add: board_rest_def)

lemma generic_init_acct:
  assumes "board_acct c x d0 (d, s)" "md_i2c_bus d = []" "mqnic_generic_board_init env (d, s) = (e, w)"
  shows "e = 0 \<and> board_acct c x d0 w"
  using assms(3) run_steps_acct [OF generic_steps_ok start_acct [OF assms(1,2)]]
  by (auto simp: mqnic_generic_board_init_def mqnic_i2c_init_def)

lemma alveo_init_acct:
  assumes "board_acct c x d0 (d, s)" "md_i2c_bus d = []" "mqnic_alveo_board_init env (d, s) = (e, w)"
  shows "e = 0 \<and> board_acct c x d0 w"
proof -
  let ?v = "(d\<lparr>md_mod_i2c_client_count := 0, md_i2c_bus := []\<rparr>, s)"
  let ?w = "if md_board_id d = BOARD_ID_AU200 \<or> md_board_id d = BOARD_ID_AU250 then run_steps alveo_qsfp_steps ?v else ?v"
  have a: "board_acct c x d0 ?w"
    using start_acct [OF assms(1,2)] run_steps_acct [OF other_steps_ok(1) start_acct [OF assms(1,2)]] by simp
  then have "board_acct c x d0 (alveo_init_bmc env ?w)" by (metis alveo_bmc_acct surj_pair)
  moreover have "mqnic_alveo_board_init env (d, s) =
      (if md_board_id d \<in> {BOARD_ID_AU200, BOARD_ID_AU250, BOARD_ID_AU50, BOARD_ID_AU280}
       then (0, alveo_init_bmc env ?w) else (0, ?w))"
    by (simp only: mqnic_alveo_board_init_def mqnic_i2c_init_def Let_def prod.case fst_conv snd_conv if_False simp_thms
        mqnic_dev.simps)
  with assms(3) have "e = 0 \<and> (w = ?w \<or> w = alveo_init_bmc env ?w)"
    by (cases "md_board_id d \<in> {BOARD_ID_AU200, BOARD_ID_AU250, BOARD_ID_AU50, BOARD_ID_AU280}") (simp_all only: if_True if_False prod.inject simp_thms)
  ultimately show ?thesis using a by (elim conjE disjE) (simp_all only: simp_thms)
qed

lemma gecko_init_acct:
  assumes "board_acct c x d0 (d, s)" "md_i2c_bus d = []" "mqnic_gecko_board_init env (d, s) = (e, w)"
  shows "e = 0 \<and> board_acct c x d0 w"
proof -
  let ?v = "(d\<lparr>md_mod_i2c_client_count := 0, md_i2c_bus := []\<rparr>, s)"
  have "board_acct c x d0 (gecko_init_bmc env (run_steps fb2cg_steps ?v))"
    using run_steps_acct [OF other_steps_ok(2) start_acct [OF assms(1,2)]] by (metis gecko_bmc_acct surj_pair)
  moreover have "e = 0 \<and> (w = ?v \<or> w = gecko_init_bmc env (run_steps fb2cg_steps ?v))"
    using assms(3) unfolding mqnic_gecko_board_init_def mqnic_i2c_init_def by (simp split: if_splits)
  ultimately show ?thesis using start_acct [OF assms(1,2)] by metis
qed

lemma board_init_acct:
  assumes "mqnic_board_init env (d, s) = (e, d', s')" "md_i2c_bus d = []" "md_i2c_adapter_count d = 0"
  shows "e = 0 \<and> board_acct (bal (trace s) x) x (d\<lparr>md_board_ops := Some (board_ops_for (md_board_id d))\<rparr>) (d', s')"
proof -
  let ?d = "d\<lparr>md_board_ops := Some (board_ops_for (md_board_id d))\<rparr>"
  have a: "board_acct (bal (trace s) x) x ?d (?d, s)" and b: "md_i2c_bus ?d = []"
    using assms(2,3) by (simp_all add: board_acct_def bus_acct_def board_rest_def own_buses_def)
  show ?thesis
  proof (cases "board_ops_for (md_board_id d)")
    case Generic_board_ops
    with assms(1) have "mqnic_generic_board_init env (?d, s) = (e, d', s')" by (simp add: mqnic_board_init_def Let_def)
    from generic_init_acct [OF a b this] show ?thesis .
  next
    case Alveo_board_ops
    with assms(1) have "mqnic_alveo_board_init env (?d, s) = (e, d', s')" by (simp add: mqnic_board_init_def Let_def)
    from alveo_init_acct [OF a b this] show ?thesis .
  next
    case Gecko_board_ops
    with assms(1) have "mqnic_gecko_board_init env (?d, s) = (e, d', s')" by (simp add: mqnic_board_init_def Let_def)
    from gecko_init_acct [OF a b this] show ?thesis .
  qed
qed

text \<open>Taking a board down unregisters every client and gives the buses back.\<close>

lemma client_drop_acct:
  "board_acct c x d0 w \<Longrightarrow> board_acct c x d0 (mod_client_drop k w)"
  "board_acct c x d0 w \<Longrightarrow> board_acct c x d0 (eeprom_client_drop w)"
  by (cases w; auto simp: mod_client_drop_def eeprom_client_drop_def board_rest_def elim!: board_acct_mono split: option.splits)+

lemma mod_clients_dropped:
  "board_acct c x d0 w \<Longrightarrow> board_acct c x d0 (fold mod_client_drop ks w) \<and>
     md_mod_i2c_client (fst (fold mod_client_drop ks w)) = (\<lambda>k. if k \<in> set ks then None else md_mod_i2c_client (fst w) k)"
proof (induction ks arbitrary: w)
  case (Cons k ks)
  have "md_mod_i2c_client (fst (mod_client_drop k w)) = (md_mod_i2c_client (fst w))(k := None)"
    by (cases w) (auto simp: mod_client_drop_def split: option.splits)
  with Cons.IH [OF client_drop_acct(1) [OF Cons.prems]] show ?case by auto
qed simp

lemma board_deinit_acct:
  assumes "board_acct c x d0 w" "md_board_ops (fst w) \<noteq> None"
  shows "bal (trace (snd (mqnic_board_deinit w))) x = c \<and> md_i2c_bus (fst (mqnic_board_deinit w)) = [] \<and>
    board_rest (fst (mqnic_board_deinit w)) = board_rest d0"
proof -
  let ?w = "eeprom_client_drop (fold mod_client_drop [0..<MAX_IF] w)"
  have a: "board_acct c x d0 ?w" using mod_clients_dropped [OF assms(1)] client_drop_acct(2) by blast
  then have "bus_acct c x ?w" by (simp add: board_acct_def)
  from i2c_deinit_acct [OF this] a assms(2) only_i2c_rest show ?thesis
    by (auto simp: mqnic_board_deinit_def mqnic_generic_board_deinit_def board_acct_def)
qed

section \<open>MAC addresses\<close>

text \<open>The addresses derived from a base differ in the last octet only, and all differ.\<close>

lemma nth_fold_update:
  "n \<le> length l \<Longrightarrow> k < n \<Longrightarrow> fold (\<lambda>k l. l[k := f k]) [0..<n] l ! k = f k"
  "length (fold (\<lambda>k l. l[k := f k]) [0..<n] l) = length l"
proof -
  have len: "length (fold (\<lambda>k l. l[k := f k]) ks l) = length l" for ks l
    by (induction ks arbitrary: l) simp_all
  show "n \<le> length l \<Longrightarrow> k < n \<Longrightarrow> fold (\<lambda>k l. l[k := f k]) [0..<n] l ! k = f k"
    by (induction n) (auto simp: less_Suc_eq nth_list_update len)
  show "length (fold (\<lambda>k l. l[k := f k]) [0..<n] l) = length l" by (rule len)
qed

text \<open>The addresses in use: those of a valid base, or each of them valid.\<close>

definition derived_macs :: "(u8 list \<Rightarrow> bool) \<Rightarrow> mqnic_dev \<Rightarrow> bool" where
  "derived_macs valid d \<longleftrightarrow> (\<exists>base. valid base \<and> (\<forall>k < nat (md_mac_count d).
     md_mac_list d ! k = base[5 := base ! 5 + word_of_nat k]))"

definition valid_macs :: "(u8 list \<Rightarrow> bool) \<Rightarrow> mqnic_dev \<Rightarrow> bool" where
  "valid_macs valid d \<longleftrightarrow> (\<forall>k < nat (md_mac_count d). valid (md_mac_list d ! k))"

definition macs_sized :: "mqnic_dev \<Rightarrow> bool" where
  "macs_sized d \<longleftrightarrow> length (md_mac_list d) = MAX_IF \<and> 0 \<le> md_mac_count d \<and> md_mac_count d \<le> int MAX_IF"

definition macs_good :: "board_env \<Rightarrow> mqnic_dev \<Rightarrow> bool" where
  "macs_good env d \<longleftrightarrow> macs_sized d \<and> (derived_macs (be_valid env) d \<or> valid_macs (be_valid env) d)"

lemma macs_good_cong:
  "md_mac_list d' = md_mac_list d \<Longrightarrow> md_mac_count d' = md_mac_count d \<Longrightarrow> macs_good env d' = macs_good env d"
  by (simp add: macs_good_def macs_sized_def derived_macs_def valid_macs_def)

lemma derived_distinct:
  assumes "derived_macs valid d" "macs_sized d" "\<And>m. valid m \<Longrightarrow> length m = ETH_ALEN"
  shows "distinct (take (nat (md_mac_count d)) (md_mac_list d))"
proof -
  from assms(1) obtain base where b: "valid base" "\<And>k. k < nat (md_mac_count d) \<Longrightarrow> md_mac_list d ! k = base[5 := base ! 5 + word_of_nat k]"
    by (auto simp: derived_macs_def)
  have l: "5 < length base" using assms(3) [OF b(1)] by (simp add: ETH_ALEN_def)
  have n: "nat (md_mac_count d) \<le> 8" using assms(2) by (simp add: macs_sized_def MAX_IF_def nat_le_iff)
  show ?thesis
  proof (unfold distinct_conv_nth, intro allI impI)
    fix i j assume ij: "i < length (take (nat (md_mac_count d)) (md_mac_list d))" "j < length (take (nat (md_mac_count d)) (md_mac_list d))" "i \<noteq> j"
    then have "i < 8" "j < 8" using n by auto
    then have "(word_of_nat i :: u8) \<noteq> word_of_nat j" using ij(3) by (simp add: of_nat_inverse word_of_nat_eq_iff take_bit_nat_eq_self)
    then have "base[5 := base ! 5 + word_of_nat i] ! 5 \<noteq> base[5 := base ! 5 + word_of_nat j] ! 5" using l by simp
    then show "take (nat (md_mac_count d)) (md_mac_list d) ! i \<noteq> take (nat (md_mac_count d)) (md_mac_list d) ! j"
      using ij b(2) by auto
  qed
qed

lemma base_macs:
  assumes "init_mac_list_from_base_mac env (int MAX_IF) mac d = (r, d')" "macs_good env d"
  shows "macs_good env d'"
proof (cases "be_valid env mac")
  case True
  let ?f = "\<lambda>k. mac[ETH_ALEN - 1 := mac ! (ETH_ALEN - 1) + word_of_nat k]"
  from assms(1) True have d: "d' = d\<lparr>md_mac_count := int MAX_IF,
      md_mac_list := fold (\<lambda>k l. l[k := ?f k]) [0..<MAX_IF] (md_mac_list d)\<rparr>"
    by (auto simp: base_mac_unfold Let_def)
  have s: "macs_sized d" using assms(2) by (simp add: macs_good_def)
  have "md_mac_list d' ! k = ?f k" if "k < MAX_IF" for k
    using s that by (simp add: d nth_fold_update macs_sized_def)
  then have "derived_macs (be_valid env) d'" using True by (auto simp: derived_macs_def d ETH_ALEN_def)
  moreover have "macs_sized d'" using s by (simp add: d macs_sized_def nth_fold_update)
  ultimately show ?thesis by (simp add: macs_good_def)
qed (use assms in \<open>auto simp: base_mac_unfold Let_def\<close>)

lemma mac_loop_valid:
  assumes "mac_list_loop valid rd ks (d, s) = (r, d', s')" "macs_sized d" "valid_macs valid d"
    "md_mac_count d + int (length ks) \<le> int MAX_IF"
  shows "macs_sized d' \<and> valid_macs valid d'"
  using assms
proof (induction ks arbitrary: d s)
  case (Cons k ks)
  obtain e mac t where r: "rd k s = ((e, mac), t)" by (metis surj_pair)
  show ?case
  proof (cases "e \<noteq> 0")
    case True
    with Cons.prems r show ?thesis by auto
  next
    case False
    let ?d = "if valid mac then d\<lparr>md_mac_list := (md_mac_list d)[nat (md_mac_count d) := mac], md_mac_count := md_mac_count d + 1\<rparr> else d"
    have "macs_sized ?d" using Cons.prems(2,4) by (auto simp: macs_sized_def)
    moreover have "valid_macs valid ?d"
      using Cons.prems(2,3,4) by (auto simp: valid_macs_def macs_sized_def nth_list_update)
    moreover have "md_mac_count ?d + int (length ks) \<le> int MAX_IF" using Cons.prems(4) by auto
    ultimately show ?thesis using Cons.IH [of ?d t] Cons.prems(1) r False by simp
  qed
qed simp

lemma mac_loop_good:
  assumes "mac_list_loop (be_valid env) rd [0..<nat (min n (int MAX_IF))] (d\<lparr>md_mac_count := 0\<rparr>, s) = (r, d', s')" "macs_good env d"
  shows "macs_good env d'"
  using mac_loop_valid [OF assms(1)] assms(2) by (auto simp: macs_good_def macs_sized_def valid_macs_def)

text \<open>No step spoils the list.\<close>

definition macs_step :: "board_env \<Rightarrow> (board_state \<Rightarrow> board_state) \<Rightarrow> bool" where
  "macs_step env f \<longleftrightarrow> (\<forall>a m d s. macs_good env d \<longrightarrow> macs_good env (fst (snd (snd (f (a, m, d, s))))))"

lemma bus_create_macs:
  "mqnic_i2c_bus_create r (d, s) = (b, d', s') \<Longrightarrow> md_mac_list d' = md_mac_list d \<and> md_mac_count d' = md_mac_count d"
  by (auto simp: mqnic_i2c_bus_create_def Let_def split: if_splits option.splits prod.splits)

lemma macs_good_upd [simp]:
  "macs_good env (d\<lparr>md_mod_i2c_client := f\<rparr>) = macs_good env d"
  "macs_good env (d\<lparr>md_eeprom_i2c_client := c\<rparr>) = macs_good env d"
  "macs_good env (d\<lparr>md_mod_i2c_client_count := j\<rparr>) = macs_good env d"
  "macs_good env (d\<lparr>md_i2c_bus := b\<rparr>) = macs_good env d"
  "macs_good env (d\<lparr>md_board_ops := p\<rparr>) = macs_good env d"
  by (rule macs_good_cong; simp)+

lemma eeprom_macs_good:
  "init_mac_list_from_eeprom_base env c off (int MAX_IF) (d, s) = (r, d', s') \<Longrightarrow> macs_good env d \<Longrightarrow> macs_good env d'"
  by (auto simp: init_mac_list_from_eeprom_base_def split: prod.splits if_splits dest: base_macs)

lemma macs_steps [simp]:
  shows macs_request: "macs_step env (request_module n)"
    and macs_mod_count: "macs_step env (mod_count j)"
    and macs_new_mux: "macs_step env (new_mux t ad)"
    and macs_mod_on_mux: "macs_step env (mod_on_mux k ch)"
    and macs_mod_on_adapter: "macs_step env (mod_on_adapter k)"
    and macs_eeprom_on_mux: "macs_step env (eeprom_on_mux ch)"
    and macs_eeprom_on_adapter: "macs_step env eeprom_on_adapter"
  by (simp_all add: macs_step_def request_module_def mod_count_def new_mux_def mod_on_mux_def mod_on_adapter_def
    eeprom_on_mux_def eeprom_on_adapter_def mod_client_def eeprom_client_def split: prod.split)

lemma macs_new_adapter [simp]: "macs_step env (new_adapter reg)"
  unfolding macs_step_def
proof (intro allI impI)
  fix a m d s assume g: "macs_good env d"
  obtain b d' s' where n: "mqnic_i2c_bus_create (md_hw_addr d + reg) (d, s) = (b, d', s')" by (metis surj_pair)
  from bus_create_macs [OF n] g have "macs_good env d'" using macs_good_cong by blast
  with n show "macs_good env (fst (snd (snd (new_adapter reg (a, m, d, s)))))"
    by (simp add: new_adapter_def mqnic_i2c_adapter_create_def)
qed

lemma macs_from_eeprom_step [simp]: "macs_step env (macs_from_eeprom env)"
  unfolding macs_step_def
proof (intro allI impI)
  fix a m d s assume g: "macs_good env d"
  obtain r d' s' where n: "init_mac_list_from_eeprom_base env (md_eeprom_i2c_client d) 0 (int MAX_IF) (d, s) = (r, d', s')" by (metis surj_pair)
  from eeprom_macs_good [OF n g] n show "macs_good env (fst (snd (snd (macs_from_eeprom env (a, m, d, s)))))"
    by (simp add: macs_from_eeprom_def)
qed

lemma run_steps_macs:
  assumes "list_all (macs_step env) fs" "macs_good env (fst w)"
  shows "macs_good env (fst (run_steps fs w))"
proof -
  have "macs_good env (fst (snd (snd (fold (\<lambda>f. f) fs (a, m, w)))))" for a m
    using assms
  proof (induction fs arbitrary: a m w)
    case (Cons f fs)
    obtain a' m' w' where f: "f (a, m, w) = (a', m', w')" by (metis surj_pair)
    from Cons.prems have "macs_step env f" by simp
    with Cons.prems(2) have "macs_good env (fst w')" unfolding macs_step_def by (metis f prod.collapse snd_conv)
    with Cons f show ?case by simp
  qed simp
  then show ?thesis by (simp add: run_steps_def)
qed

lemma all_steps_macs:
  "list_all (macs_step env) (generic_steps env b)" "list_all (macs_step env) alveo_qsfp_steps" "list_all (macs_step env) fb2cg_steps"
  by (simp_all add: generic_steps_def netfpga_sume_steps_def vcu108_steps_def vcu118_steps_def vcu1525_steps_def
    zcu106_steps_def exanic_steps_def alveo_qsfp_steps_def fb2cg_steps_def)

lemma mac_loop_keeps:
  "macs_good env d \<Longrightarrow> macs_good env (fst (snd (mac_list_loop (be_valid env) rd [0..<nat (min n (int MAX_IF))]
     (d\<lparr>md_mac_count := 0\<rparr>, s))))"
  by (metis mac_loop_good prod.collapse)

lemma alveo_bmc_macs: "macs_good env d \<Longrightarrow> macs_good env (fst (alveo_init_bmc env (d, s)))"
  unfolding alveo_init_bmc_def Let_def mqnic_alveo_bmc_read_mac_list_def prod.case
  by (simp add: mac_loop_keeps del: mac_list_loop.simps split: prod.split)

lemma gecko_bmc_macs: "macs_good env d \<Longrightarrow> macs_good env (fst (gecko_init_bmc env (d, s)))"
  unfolding gecko_init_bmc_def mqnic_gecko_bmc_read_mac_list_def prod.case
  by (simp add: mac_loop_keeps del: mac_list_loop.simps split: prod.split)

lemma inits_macs:
  assumes "macs_good env d"
  shows "macs_good env (fst (snd (mqnic_generic_board_init env (d, s))))"
    "macs_good env (fst (snd (mqnic_alveo_board_init env (d, s))))"
    "macs_good env (fst (snd (mqnic_gecko_board_init env (d, s))))"
proof -
  let ?v = "(d\<lparr>md_mod_i2c_client_count := 0, md_i2c_bus := []\<rparr>, s)"
  have v: "macs_good env (fst ?v)" using assms by simp
  note run = run_steps_macs [OF all_steps_macs(1) v] run_steps_macs [OF all_steps_macs(2) v] run_steps_macs [OF all_steps_macs(3) v]
  have bmc: "macs_good env (fst w) \<Longrightarrow> macs_good env (fst (alveo_init_bmc env w))"
    "macs_good env (fst w) \<Longrightarrow> macs_good env (fst (gecko_init_bmc env w))" for w
    using alveo_bmc_macs [of env "fst w" "snd w"] gecko_bmc_macs [of env "fst w" "snd w"] by simp_all
  show "macs_good env (fst (snd (mqnic_generic_board_init env (d, s))))"
    using run(1) by (simp add: mqnic_generic_board_init_def mqnic_i2c_init_def)
  show "macs_good env (fst (snd (mqnic_alveo_board_init env (d, s))))"
    using run(2) v bmc(1) by (simp add: mqnic_alveo_board_init_def mqnic_i2c_init_def Let_def)
  show "macs_good env (fst (snd (mqnic_gecko_board_init env (d, s))))"
    using run(3) v bmc(2) by (simp add: mqnic_gecko_board_init_def mqnic_i2c_init_def)
qed

lemma board_init_macs:
  assumes "mqnic_board_init env (d, s) = (e, d', s')" "macs_good env d"
  shows "macs_good env d'"
  using assms(1) inits_macs [of env "d\<lparr>md_board_ops := Some (board_ops_for (md_board_id d))\<rparr>" s] assms(2)
  by (auto simp: mqnic_board_init_def Let_def split: board_ops.splits)

section \<open>A controller that times out\<close>

text \<open>The status register of a Gecko controller that answers every request with a timeout.\<close>

definition gecko_timed_out :: "addr \<Rightarrow> sys \<Rightarrow> bool" where
  "gecko_timed_out hw s \<longleftrightarrow> (\<forall>h. bit (w_ioread s h (hw + 0x188)) 18 \<and> bit (w_ioread s h (hw + 0x188)) 19)"

definition timeout_mac :: "u8 list" where
  "timeout_mac = [0xfe, 0xff, 0xfe, 0xff, 0xfe, 0xff]"

lemma timed_out_effects [simp]:
  "gecko_timed_out hw (emit e s) = gecko_timed_out hw s" "gecko_timed_out hw (kvoid f as s) = gecko_timed_out hw s"
  "gecko_timed_out hw (iowrite32 v a s) = gecko_timed_out hw s"
  by (simp_all add: gecko_timed_out_def kvoid_def iowrite32_def)

lemma gecko_timeout_read:
  assumes "gecko_timed_out hw s"
  shows "\<exists>s'. mqnic_gecko_bmc_read hw s = (- 2, s') \<and> gecko_timed_out hw s'"
proof -
  obtain v t where r: "ioread32 (hw + 0x188) s = (v, t)" by force
  with assms have "bit v 18" "bit v 19" "gecko_timed_out hw t"
    by (auto simp: ioread32_def Let_def) (auto simp: gecko_timed_out_def)
  moreover have "(200::nat) = Suc 199" by simp
  ultimately show ?thesis unfolding mqnic_gecko_bmc_read_def by (simp only: gecko_poll.simps r prod.case) simp
qed

lemma gecko_timeout_query:
  assumes "gecko_timed_out hw s"
  shows "\<exists>s'. mqnic_gecko_bmc_query hw c v s = (- 2, s') \<and> gecko_timed_out hw s'"
proof -
  obtain t where t: "mqnic_gecko_bmc_read hw s = (- 2, t)" "gecko_timed_out hw t" using gecko_timeout_read [OF assms] by blast
  let ?t = "iowrites [(v, hw + 0x180), (push_bit 16 (ucast c), hw + 0x184)] t"
  have "gecko_timed_out hw ?t" using t(2) by simp
  then obtain u where "mqnic_gecko_bmc_read hw ?t = (- 2, u)" "gecko_timed_out hw u" using gecko_timeout_read by blast
  with t(1) show ?thesis by (simp add: mqnic_gecko_bmc_query_def mqnic_gecko_bmc_write_def del: iowrites_Cons)
qed

lemma gecko_timeout_mac_read:
  assumes "gecko_timed_out hw s" "length (be_stack env) = 6"
  shows "\<exists>s'. mqnic_gecko_bmc_read_mac env hw k s = ((0, timeout_mac), s') \<and> gecko_timed_out hw s'"
proof -
  obtain s1 where s1: "mqnic_gecko_bmc_query hw 0x2003 (word_of_nat (k * ETH_ALEN + 0)) s = (- 2, s1)" "gecko_timed_out hw s1"
    using gecko_timeout_query [OF assms(1)] by blast
  obtain s2 where s2: "mqnic_gecko_bmc_query hw 0x2003 (word_of_nat (k * ETH_ALEN + 2)) s1 = (- 2, s2)" "gecko_timed_out hw s2"
    using gecko_timeout_query [OF s1(2)] by blast
  obtain s3 where s3: "mqnic_gecko_bmc_query hw 0x2003 (word_of_nat (k * ETH_ALEN + 4)) s2 = (- 2, s3)" "gecko_timed_out hw s3"
    using gecko_timeout_query [OF s2(2)] by blast
  obtain a b c d e f where "be_stack env = [a, b, c, d, e, f]"
    using assms(2) by (auto simp: length_Suc_conv eval_nat_numeral)
  with s1 s2 s3 show ?thesis
    by (simp add: mqnic_gecko_bmc_read_mac_def Let_def timeout_mac_def del: of_nat_add of_nat_mult)
qed

lemma gecko_mac_never_fails:
  assumes "gecko_mac_loop hw k is mac s = ((e, mac'), s')"
  shows "e = 0"
  using assms
proof (induction "is" arbitrary: mac s)
  case (Cons i "is")
  obtain r t where "mqnic_gecko_bmc_query hw 0x2003 (word_of_nat (k * ETH_ALEN + i)) s = (r, t)" by force
  with Cons show ?case by (auto simp: Let_def del: of_nat_add)
qed simp

lemma same_mac_loop:
  assumes "\<And>k s. P s \<Longrightarrow> \<exists>s'. rd k s = ((0, mac), s') \<and> P s'" "valid mac" "P s" "0 \<le> md_mac_count d"
    "nat (md_mac_count d) + length ks \<le> length (md_mac_list d)"
  shows "\<exists>d' s'. mac_list_loop valid rd ks (d, s) = (md_mac_count d + int (length ks), d', s') \<and>
    length (md_mac_list d') = length (md_mac_list d) \<and>
    (\<forall>j < nat (md_mac_count d) + length ks. md_mac_list d' ! j = (if j < nat (md_mac_count d) then md_mac_list d ! j else mac))"
  using assms(3-)
proof (induction ks arbitrary: d s)
  case Nil
  then show ?case by auto
next
  case (Cons k ks)
  obtain t where t: "rd k s = ((0, mac), t)" "P t" using assms(1) [OF Cons.prems(1)] by blast
  let ?d = "d\<lparr>md_mac_list := (md_mac_list d)[nat (md_mac_count d) := mac], md_mac_count := md_mac_count d + 1\<rparr>"
  have n: "nat (md_mac_count ?d) = Suc (nat (md_mac_count d))" using Cons.prems(2) by simp
  have "\<exists>d' s'. mac_list_loop valid rd ks (?d, t) = (md_mac_count ?d + int (length ks), d', s') \<and>
    length (md_mac_list d') = length (md_mac_list ?d) \<and>
    (\<forall>j < nat (md_mac_count ?d) + length ks. md_mac_list d' ! j = (if j < nat (md_mac_count ?d) then md_mac_list ?d ! j else mac))"
    using Cons.prems n t(2) by (intro Cons.IH) auto
  then obtain d' s' where l: "mac_list_loop valid rd ks (?d, t) = (md_mac_count ?d + int (length ks), d', s')"
    "length (md_mac_list d') = length (md_mac_list ?d)"
    "\<forall>j < nat (md_mac_count ?d) + length ks. md_mac_list d' ! j = (if j < nat (md_mac_count ?d) then md_mac_list ?d ! j else mac)" by blast
  have "mac_list_loop valid rd (k # ks) (d, s) = mac_list_loop valid rd ks (?d, t)" using t assms(2) by simp
  moreover have "\<forall>j < nat (md_mac_count d) + length (k # ks). md_mac_list d' ! j = (if j < nat (md_mac_count d) then md_mac_list d ! j else mac)"
    using l(3) Cons.prems(3) n by (auto simp: nth_list_update less_Suc_eq)
  ultimately show ?case using l(1,2) by auto
qed

section \<open>Properties\<close>

text \<open>C31: whatever the board, bringing it up leaves between none and eight MAC addresses in the list, and
  those in use are either each valid, or a valid base with 0, 1, 2, ... added to its last octet, all different.\<close>

theorem board_mac_list:
  assumes "mqnic_board_init env (d, s) = (e, d', s')" "length (md_mac_list d) = MAX_IF" "md_mac_count d = 0"
    and "\<And>m. be_valid env m \<Longrightarrow> length m = ETH_ALEN"
  shows "0 \<le> md_mac_count d' \<and> md_mac_count d' \<le> int MAX_IF \<and>
    (valid_macs (be_valid env) d' \<or>
     derived_macs (be_valid env) d' \<and> distinct (take (nat (md_mac_count d')) (md_mac_list d')))"
proof -
  have "macs_good env d" using assms(2,3) by (simp add: macs_good_def macs_sized_def valid_macs_def)
  with board_init_macs [OF assms(1)] have g: "macs_good env d'" by blast
  then have "macs_sized d'" by (simp add: macs_good_def)
  with derived_distinct [OF _ this assms(4), of "be_valid env"] g show ?thesis
    by (auto simp: macs_good_def macs_sized_def)
qed


text \<open>The kernel's \<open>is_valid_ether_addr\<close>: six octets, not a group address, not all zero.\<close>

definition ref_valid_ether :: "u8 list \<Rightarrow> bool" where
  "ref_valid_ether m \<longleftrightarrow> length m = 6 \<and> \<not> bit (hd m) 0 \<and> \<not> list_all (\<lambda>b. b = 0) m"

definition demo_env :: board_env where
  "demo_env = \<lparr>be_valid = ref_valid_ether,
     be_block_read = (\<lambda>_ _ _ n. (int n, take n [0x02, 0x11, 0x22, 0x33, 0x44, 0xfe])), be_stack = replicate 6 0\<rparr>"

theorem board_mac_list_witness:
  "\<exists>e d' s'. mqnic_board_init demo_env (zero_dev\<lparr>md_board_id := BOARD_ID_EXANIC_X10, md_hw_addr := 0x1000\<rparr>, quiet_world) = (e, d', s') \<and>
    0 \<le> md_mac_count d' \<and> md_mac_count d' \<le> 8"
proof -
  obtain e d' s' where b: "mqnic_board_init demo_env (zero_dev\<lparr>md_board_id := BOARD_ID_EXANIC_X10, md_hw_addr := 0x1000\<rparr>, quiet_world) = (e, d', s')"
    by (metis surj_pair)
  have "0 \<le> md_mac_count d' \<and> md_mac_count d' \<le> int MAX_IF"
    using board_mac_list [OF b] by (simp add: zero_dev_def MAX_IF_def demo_env_def ref_valid_ether_def ETH_ALEN_def)
  with b show ?thesis by (auto simp: MAX_IF_def)
qed


end
