(* ===== verification/Ethtool.thy ===== *)
theory Ethtool
  imports Board
begin

text \<open>
  What \<open>ethtool\<close> asks (\<open>modules/mqnic/mqnic_ethtool.c\<close>): the driver and firmware versions, the timestamping
  abilities, and the identification and memory of an optical module, read over I2C in blocks.
\<close>

definition SFF_MODULE_ID_SFP :: u8 where "SFF_MODULE_ID_SFP = 0x03"
definition SFF_MODULE_ID_QSFP :: u8 where "SFF_MODULE_ID_QSFP = 0x0c"
definition SFF_MODULE_ID_QSFP_PLUS :: u8 where "SFF_MODULE_ID_QSFP_PLUS = 0x0d"
definition SFF_MODULE_ID_QSFP28 :: u8 where "SFF_MODULE_ID_QSFP28 = 0x11"

section \<open>Versions\<close>

fun show_dec :: "nat \<Rightarrow> string" where
  "show_dec n = (if n < 10 then [char_of (48 + n)] else show_dec (n div 10) @ [char_of (48 + n mod 10)])"

declare show_dec.simps [simp del]

record ethtool_drvinfo =
  di_driver :: string
  di_version :: string
  di_fw_version :: string
  di_bus_info :: string

text \<open>Strings are cut to 31 characters and a final zero.\<close>

definition mqnic_get_drvinfo :: "string \<Rightarrow> mqnic_dev \<Rightarrow> ethtool_drvinfo" where
  "mqnic_get_drvinfo dev_name d =
    \<lparr>di_driver = take 31 ''mqnic'', di_version = take 31 ''0.1'',
     di_fw_version = take 31 (show_dec (unat (drop_bit 16 (md_fw_ver d))) @ ''.'' @
       show_dec (unat (md_fw_ver d AND 0xffff))),
     di_bus_info = take 31 dev_name\<rparr>"

section \<open>Timestamping\<close>

record ethtool_ts_info =
  ti_so_timestamping :: u32
  ti_phc_index :: int
  ti_tx_types :: u32
  ti_rx_filters :: u32

definition SOF_TX_HARDWARE :: u32 where "SOF_TX_HARDWARE = 0x01"
definition SOF_RX_HARDWARE :: u32 where "SOF_RX_HARDWARE = 0x04"
definition SOF_RAW_HARDWARE :: u32 where "SOF_RAW_HARDWARE = 0x40"

text \<open>
  \<open>info\<close> is what \<open>ethtool_op_get_ts_info\<close> filled in; \<open>index\<close> is \<open>ptp_clock_index\<close>. The kernel numbers the
  transmit types off, on as 0, 1 and the receive filters none, all as 0, 1.
\<close>

definition mqnic_get_ts_info :: "net_device \<Rightarrow> mqnic_dev \<Rightarrow> int \<Rightarrow> ethtool_ts_info \<Rightarrow> int \<times> ethtool_ts_info" where
  "mqnic_get_ts_info nd d index info =
    (let clock = phc_registered (md_phc d);
         info = (if clock then info\<lparr>ti_phc_index := index\<rparr> else info)
     in if pv_if_features nd AND IF_FEATURE_PTP_TS = 0 \<or> \<not> clock then (0, info)
        else (0, info\<lparr>ti_so_timestamping := ti_so_timestamping info OR
                 (SOF_TX_HARDWARE OR SOF_RX_HARDWARE OR SOF_RAW_HARDWARE),
               ti_tx_types := 2 ^ 0 OR 2 ^ 1, ti_rx_filters := 2 ^ 0 OR 2 ^ 1\<rparr>))"

section \<open>Modules\<close>

definition SMBUS_BLOCK_MAX :: u16 where "SMBUS_BLOCK_MAX = 32"

text \<open>The register number of an SMBus read has eight bits.\<close>

definition mqnic_read_module_eeprom :: "board_env \<Rightarrow> i2c_client option \<Rightarrow> u16 \<Rightarrow> u16 \<Rightarrow> sys \<Rightarrow> (int \<times> u8 list) \<times> sys" where
  "mqnic_read_module_eeprom env client offset len s = (case client of
     None \<Rightarrow> ((- 1, []), s)
   | Some c \<Rightarrow>
       let len = (if len > SMBUS_BLOCK_MAX then SMBUS_BLOCK_MAX else len)
       in i2c_smbus_read_i2c_block_data env c (ucast offset) (unat len) s)"

datatype module_type = ETH_MODULE_SFF_8472 | ETH_MODULE_SFF_8436 | ETH_MODULE_SFF_8636

fun module_len :: "module_type \<Rightarrow> nat" where
  "module_len ETH_MODULE_SFF_8472 = 512"
| "module_len ETH_MODULE_SFF_8436 = 256"
| "module_len ETH_MODULE_SFF_8636 = 256"

definition module_kind :: "u8 \<Rightarrow> u8 \<Rightarrow> module_type option" where
  "module_kind ident revision =
    (if ident = SFF_MODULE_ID_SFP then Some ETH_MODULE_SFF_8472
     else if ident = SFF_MODULE_ID_QSFP then Some ETH_MODULE_SFF_8436
     else if ident = SFF_MODULE_ID_QSFP_PLUS
     then (if revision \<ge> 0x03 then Some ETH_MODULE_SFF_8636 else Some ETH_MODULE_SFF_8436)
     else if ident = SFF_MODULE_ID_QSFP28 then Some ETH_MODULE_SFF_8636
     else None)"

definition mqnic_get_module_info :: "board_env \<Rightarrow> i2c_client option \<Rightarrow> sys \<Rightarrow> int \<times> (module_type \<times> nat) option \<times> sys" where
  "mqnic_get_module_info env client s =
    (case mqnic_read_module_eeprom env client 0 2 s of ((read_len, data), s) \<Rightarrow>
       if read_len < 2 then (- EIO, None, s)
       else case module_kind (data ! 0) (data ! 1) of
              None \<Rightarrow> (- EINVAL, None, s)
            | Some t \<Rightarrow> (0, Some (t, module_len t), s))"

text \<open>
  The loop over the requested range. \<open>buf\<close> starts out zero; a block longer than the rest of the buffer
  would be stored beyond it, a fault.
\<close>

function eeprom_loop :: "board_env \<Rightarrow> i2c_client option \<Rightarrow> u32 \<Rightarrow> u32 \<Rightarrow> nat \<Rightarrow> u8 list \<Rightarrow> sys \<Rightarrow> (int \<times> u8 list \<times> sys) option" where
  "eeprom_loop env client offset len i buf s =
    (if i < unat len then
       case mqnic_read_module_eeprom env client (ucast (offset + word_of_nat i)) (ucast (len - word_of_nat i)) s of
         ((read_len, data), s) \<Rightarrow>
           if read_len = 0 then Some (- EIO, buf, s)
           else if read_len < 0 then Some (0, buf, s)
           else if length buf < i + nat read_len then None
           else eeprom_loop env client offset len (i + nat read_len)
                  (take i buf @ take (nat read_len) data @ drop (i + nat read_len) buf) s
     else Some (0, buf, s))"
  by pat_completeness auto
termination
  by (relation "measure (\<lambda>(_, _, _, len, i, _, _). unat len - i)") auto

declare eeprom_loop.simps [simp del]

record ethtool_eeprom =
  ee_offset :: u32
  ee_len :: u32

definition mqnic_get_module_eeprom ::
    "board_env \<Rightarrow> i2c_client option \<Rightarrow> ethtool_eeprom \<Rightarrow> sys \<Rightarrow> (int \<times> u8 list \<times> sys) option" where
  "mqnic_get_module_eeprom env client ee s =
    (if ee_len ee = 0 then Some (- EINVAL, [], s)
     else eeprom_loop env client (ee_offset ee) (ee_len ee) 0 (replicate (unat (ee_len ee)) 0) s)"

section \<open>What is read\<close>

text \<open>
  A module of 256 bytes that answers each block read with between one and all of the bytes asked for,
  starting at the register and wrapping at the end of its memory.
\<close>

definition module_answers :: "board_env \<Rightarrow> (u8 \<Rightarrow> u8) \<Rightarrow> bool" where
  "module_answers env mem \<longleftrightarrow> (\<forall>h c reg n. 0 < n \<longrightarrow> (\<exists>k. 0 < k \<and> k \<le> n \<and>
     be_block_read env h c reg n = (int k, map (\<lambda>j. mem (reg + word_of_nat j)) [0..<k])))"

lemma byte_of_offset: "(ucast (ucast (x + word_of_nat i :: u32) :: u16) :: u8) = ucast x + word_of_nat i"
proof -
  have "(ucast (ucast w :: u16) :: u8) = ucast w" for w :: u32
    by (rule bit_word_eqI) (simp add: bit_simps)
  moreover have "(ucast (a + b :: u32) :: u8) = ucast a + ucast b" for a b
  proof transfer
    fix a b :: int
    have "take_bit 8 (take_bit 32 a + take_bit 32 b) = take_bit 8 (take_bit 8 (take_bit 32 a) + take_bit 8 (take_bit 32 b))"
      by (rule take_bit_add [symmetric])
    then show "take_bit LENGTH(8) (take_bit LENGTH(32) (a + b)) = take_bit LENGTH(8) (take_bit LENGTH(32) a + take_bit LENGTH(32) b)"
      by (simp add: take_bit_add)
  qed
  moreover have "(ucast (word_of_nat i :: u32) :: u8) = word_of_nat i"
    by transfer simp
  ultimately show ?thesis by simp
qed

lemma eeprom_block:
  fixes offset len :: u32
  assumes "module_answers env mem" "i < unat len" "unat len < 2 ^ 16"
  shows "\<exists>k s'. 0 < k \<and> i + k \<le> unat len \<and>
    mqnic_read_module_eeprom env (Some c) (ucast (offset + word_of_nat i)) (ucast (len - word_of_nat i)) s =
      ((int k, map (\<lambda>j. mem (ucast offset + word_of_nat (i + j))) [0..<k]), s')"
proof -
  have w: "unat (word_of_nat i :: u32) = i" using assms(2,3) by (simp add: unsigned_of_nat take_bit_nat_eq_self)
  have "unat (word_of_nat i :: u32) \<le> unat len" by (simp only: w less_imp_le [OF assms(2)])
  from unat_sub_le [OF this] have l: "unat (len - word_of_nat i) = unat len - i" unfolding w .
  have u: "unat (ucast (len - word_of_nat i) :: u16) = unat len - i"
    using assms(3) by (simp add: unsigned_ucast_eq l take_bit_nat_eq_self)
  let ?n = "if (ucast (len - word_of_nat i) :: u16) > SMBUS_BLOCK_MAX then SMBUS_BLOCK_MAX else ucast (len - word_of_nat i)"
  have n: "0 < unat ?n" "unat ?n \<le> unat len - i"
    using u assms(2) by (auto simp: SMBUS_BLOCK_MAX_def word_less_nat_alt)
  have r: "(ucast (ucast (offset + word_of_nat i) :: u16) :: u8) = ucast offset + word_of_nat i"
    by (rule byte_of_offset)
  from assms(1) n(1) obtain k where "0 < k" "k \<le> unat ?n"
    "be_block_read env (trace s) c (ucast offset + word_of_nat i) (unat ?n) = (int k, map (\<lambda>j. mem (ucast offset + word_of_nat i + word_of_nat j)) [0..<k])"
    unfolding module_answers_def by blast
  with n(2) assms(2) show ?thesis
    unfolding mqnic_read_module_eeprom_def i2c_smbus_read_i2c_block_data_def Let_def option.case r
    by (auto simp: add.assoc)
qed

lemma eeprom_loop_reads:
  fixes offset len :: u32
  assumes "module_answers env mem" "unat len < 2 ^ 16"
  defines "byte \<equiv> \<lambda>j. mem (ucast offset + word_of_nat j)"
  shows "i \<le> unat len \<Longrightarrow> length buf = unat len \<Longrightarrow> take i buf = map byte [0..<i] \<Longrightarrow>
    \<exists>s'. eeprom_loop env (Some c) offset len i buf s = Some (0, map byte [0..<unat len], s')"
proof (induction "unat len - i" arbitrary: i buf s rule: less_induct)
  case less
  show ?case
  proof (cases "i < unat len")
    case False
    with less.prems show ?thesis by (subst eeprom_loop.simps) simp
  next
    case True
    obtain k s1 where k: "0 < k" "i + k \<le> unat len"
      "mqnic_read_module_eeprom env (Some c) (ucast (offset + word_of_nat i)) (ucast (len - word_of_nat i)) s =
        ((int k, map (\<lambda>j. byte (i + j)) [0..<k]), s1)"
      using eeprom_block [OF assms(1) True assms(2)] unfolding byte_def by blast
    let ?b = "take i buf @ map (\<lambda>j. byte (i + j)) [0..<k] @ drop (i + k) buf"
    have l: "length ?b = unat len" using k(2) less.prems(2) True by simp
    have "take (i + k) ?b = map byte [0..<i] @ map (\<lambda>j. byte (i + j)) [0..<k]"
      using less.prems True by simp
    also have "\<dots> = map byte [0..<i + k]" by (rule nth_equalityI) (auto simp: nth_append)
    finally have t: "take (i + k) ?b = map byte [0..<i + k]" .
    have "unat len - (i + k) < unat len - i" using k(1) True by linarith
    from less.hyps [OF this k(2) l t] obtain s' where
      "eeprom_loop env (Some c) offset len (i + k) ?b s1 = Some (0, map byte [0..<unat len], s')" by blast
    moreover have "eeprom_loop env (Some c) offset len i buf s = eeprom_loop env (Some c) offset len (i + k) ?b s1"
      using True k less.prems(2) by (subst eeprom_loop.simps) simp
    ultimately show ?thesis by metis
  qed
qed


text \<open>A module that sends its address, for evaluating the loop.\<close>

definition echo_env :: board_env where
  "echo_env = demo_env\<lparr>be_block_read := \<lambda>_ _ reg n. (int n, map (\<lambda>j. reg + word_of_nat j) [0..<n])\<rparr>"


end
