(* ===== verification/MainDrv.thy ===== *)
theory MainDrv
  imports IfaceLife Irq Board Ethtool
begin

text \<open>
  The PCI driver (\<open>modules/mqnic/mqnic_main.c\<close>): numbering devices, bringing one up (BARs, interrupts,
  board, clock, interfaces, character device) and taking it down, every error path included. Messages to
  the log and the configuration space reads made for them are left out.
\<close>

section \<open>Device numbers\<close>

text \<open>
  \<open>ids\<close> are the numbers of the listed devices, in list order. The search starts over after each hit; it
  need not end, so it is a partial function.
\<close>

partial_function (option) get_free_id_from :: "u32 list \<Rightarrow> u32 \<Rightarrow> u32 option" where
  [code]: "get_free_id_from ids i = (if i \<in> set ids then get_free_id_from ids (i + 1) else Some i)"

definition mqnic_get_free_id :: "u32 list \<Rightarrow> u32 option" where
  "mqnic_get_free_id ids = get_free_id_from ids 0"

text \<open>\<open>%d\<close> shows the number as signed.\<close>

definition show_int :: "int \<Rightarrow> string" where
  "show_int i = (if i < 0 then ''-'' else []) @ show_dec (nat \<bar>i\<bar>)"

definition mqnic_assign_id :: "mqnic_dev \<Rightarrow> u32 list \<Rightarrow> (mqnic_dev \<times> u32 list) option" where
  "mqnic_assign_id d ids = do {
     i \<leftarrow> mqnic_get_free_id ids;
     Some (d\<lparr>md_id := i, md_name := take 15 (''mqnic'' @ show_int (sint i))\<rparr>, ids @ [i]) }"

definition mqnic_free_id :: "mqnic_dev \<Rightarrow> u32 list \<Rightarrow> u32 list" where
  "mqnic_free_id d ids = remove1 (md_id d) ids"

section \<open>What the driver is given\<close>

text \<open>
  Module parameters and what its kernel functions answer: \<open>pe_random\<close> is the random address for network
  devices, \<open>pe_phc_ok\<close> whether the clock can be registered, \<open>pe_tai\<close> the time.
\<close>

record probe_env =
  pe_params :: mod_params
  pe_board :: board_env
  pe_random :: "u8 list"
  pe_phc_ok :: bool
  pe_tai :: timespec64

definition REG_FW_ID :: addr where "REG_FW_ID = 0x0000"
definition REG_FW_VER :: addr where "REG_FW_VER = 0x0004"
definition REG_BOARD_ID :: addr where "REG_BOARD_ID = 0x0008"
definition REG_BOARD_VER :: addr where "REG_BOARD_VER = 0x000C"
definition REG_PHC_COUNT :: addr where "REG_PHC_COUNT = 0x0010"
definition REG_PHC_OFFSET :: addr where "REG_PHC_OFFSET = 0x0014"
definition REG_IF_COUNT :: addr where "REG_IF_COUNT = 0x0020"
definition REG_IF_STRIDE :: addr where "REG_IF_STRIDE = 0x0024"
definition REG_IF_CSR_OFFSET :: addr where "REG_IF_CSR_OFFSET = 0x002C"

section \<open>The part common to all buses\<close>

definition read_device :: "mqnic_dev \<times> sys \<Rightarrow> mqnic_dev \<times> sys" where
  "read_device w = (case w of (d, s) \<Rightarrow>
     let hw = md_hw_addr d in
     case ioreads [hw + REG_FW_ID, hw + REG_FW_VER, hw + REG_BOARD_ID, hw + REG_BOARD_VER,
          hw + REG_PHC_COUNT, hw + REG_PHC_OFFSET,
          hw + REG_IF_COUNT, hw + REG_IF_STRIDE, hw + REG_IF_CSR_OFFSET] s of (v, s) \<Rightarrow>
       (d\<lparr>md_fw_id := v ! 0, md_fw_ver := v ! 1, md_board_id := v ! 2, md_board_ver := v ! 3,
          md_phc_count := v ! 4, md_phc_offset := v ! 5,
          md_phc_hw_addr := (if v ! 4 \<noteq> 0 then hw + ucast (v ! 5) else md_phc_hw_addr d),
          md_if_count := v ! 6, md_if_stride := v ! 7, md_if_csr_offset := v ! 8\<rparr>, s))"

text \<open>The product is 32 bits wide.\<close>

definition bar_too_small :: "mqnic_dev \<Rightarrow> bool" where
  "bar_too_small d \<longleftrightarrow> ucast (md_if_count d * md_if_stride d) > md_hw_regs_size d"

text \<open>What an interface sees of the device.\<close>

definition if_view :: "mqnic_dev \<Rightarrow> if_dev" where
  "if_view d = \<lparr>ifd_irq = List.map_filter (md_irq d) [0..<nat (md_irq_count d)], ifd_csr_offset = md_if_csr_offset d,
     ifd_dev_port_max = md_dev_port_max d, ifd_mac_count = md_mac_count d, ifd_mac_list = md_mac_list d\<rparr>"

definition probe_create_if :: "probe_env \<Rightarrow> nat \<Rightarrow> mqnic_dev \<times> sys \<Rightarrow> (int \<times> mqnic_dev \<times> sys) option" where
  "probe_create_if env k w = (case w of (d, s) \<Rightarrow> do {
     (e, r, s) \<leftarrow> mqnic_create_interface (be_valid (pe_board env)) (pe_random env) (pe_params env) (if_view d) k
        (md_hw_addr d + ucast (word_of_nat k * md_if_stride d)) s;
     (case r of
        None \<Rightarrow> Some (e, d, s)
      | Some (ifc, nd) \<Rightarrow> Some (e, d\<lparr>md_interface := (md_interface d)(k \<mapsto> (ifc, nd)), md_dev_port_max := if_dev_port_max ifc\<rparr>, s)) })"

definition pass_i2c_client :: "nat \<Rightarrow> mqnic_dev \<Rightarrow> mqnic_dev option" where
  "pass_i2c_client k d = do {
     (ifc, nd) \<leftarrow> md_interface d k;
     let c = md_mod_i2c_client d k;
     nd \<leftarrow> nd;
     Some (d\<lparr>md_interface := (md_interface d)(k \<mapsto> (ifc\<lparr>if_mod_i2c_client := c\<rparr>, Some (nd\<lparr>pv_mod_i2c_client := c\<rparr>)))\<rparr>) }"

definition probe_destroy_if :: "nat \<Rightarrow> mqnic_dev \<times> sys \<Rightarrow> (mqnic_dev \<times> sys) option" where
  "probe_destroy_if k w = (case w of (d, s) \<Rightarrow>
     (case md_interface d k of
        None \<Rightarrow> Some (d, s)
      | Some (ifc, nd) \<Rightarrow> do {
          s \<leftarrow> mqnic_destroy_interface ifc nd s;
          Some (d\<lparr>md_interface := (md_interface d)(k := None)\<rparr>, s) }))"

text \<open>The label \<open>fail_create_if\<close>, which removal runs too.\<close>

definition common_undo :: "mqnic_dev \<times> sys \<Rightarrow> (mqnic_dev \<times> sys) option" where
  "common_undo w = do {
     (d, s) \<leftarrow> ofold probe_destroy_if [0..<MAX_IF] w;
     Some (mqnic_board_deinit (d\<lparr>md_phc := mqnic_unregister_phc (md_phc d)\<rparr>, s)) }"

definition register_clock :: "probe_env \<Rightarrow> mqnic_dev \<times> sys \<Rightarrow> mqnic_dev \<times> sys" where
  "register_clock env w = (case w of (d, s) \<Rightarrow>
     if md_phc_count d \<noteq> 0
     then (case mqnic_register_phc (pe_phc_ok env) (pe_tai env) (md_phc_hw_addr d) (md_phc d) s of
             (p, s) \<Rightarrow> (d\<lparr>md_phc := p\<rparr>, s))
     else (d, s))"

definition mqnic_common_probe :: "probe_env \<Rightarrow> mqnic_dev \<times> sys \<Rightarrow> (int \<times> mqnic_dev \<times> sys) option" where
  "mqnic_common_probe env w =
    (let (d, s) = read_device w in
     if bar_too_small d then Some (- EIO, d, s)
     else case mqnic_board_init (pe_board env) (d, s) of (e, d, s) \<Rightarrow>
       if e \<noteq> 0 then Some (e, d, s)
       else
         let (d, s) = register_clock env (d, s);
             d = d\<lparr>md_dev_port_max := 0, md_dev_port_limit := int MAX_IF,
                   md_if_count := min (md_if_count d) (word_of_nat MAX_IF)\<rparr>
         in do {
           (e, d, s) \<leftarrow> efold (probe_create_if env) [0..<unat (md_if_count d)] (d, s);
           (if e \<noteq> 0 then do { w \<leftarrow> common_undo (d, s); Some (e, w) }
            else do {
              d \<leftarrow> ofold pass_i2c_client [0..<unat (md_if_count d)] d;
              let (r, s) = kget ''misc_register'' [] (\<lambda>r. r = 0) (\<lambda>_. MiscDev) s;
              (if r \<noteq> 0 then do { w \<leftarrow> common_undo (d, s); Some (r, w) }
               else Some (0, d, s)) }) })"

definition mqnic_common_remove :: "mqnic_dev \<times> sys \<Rightarrow> (mqnic_dev \<times> sys) option" where
  "mqnic_common_remove w = (case w of (d, s) \<Rightarrow> common_undo (d, kput ''misc_deregister'' [] MiscDev s))"

section \<open>PCI\<close>

text \<open>A BAR is mapped at a non-zero address.\<close>

definition pci_ioremap_bar :: "int \<Rightarrow> sys \<Rightarrow> addr \<times> sys" where
  "pci_ioremap_bar bar s =
    (case kget ''pci_ioremap_bar'' [bar] (\<lambda>v. (word_of_int v :: addr) \<noteq> 0) (\<lambda>v. IoMap (uint (word_of_int v :: addr))) s of
       (v, s) \<Rightarrow> (word_of_int v, s))"

definition iounmap_if :: "addr \<Rightarrow> sys \<Rightarrow> sys" where
  "iounmap_if a s = (if a \<noteq> 0 then kput ''pci_iounmap'' [uint a] (IoMap (uint a)) s else s)"

text \<open>The cleanup labels, each falling through to the next; the state is the device, the list and the machine.\<close>

type_synonym probe_state = "mqnic_dev \<times> u32 list \<times> sys"

definition fail_enable_device :: "probe_state \<Rightarrow> probe_state" where
  "fail_enable_device v = (case v of (d, ids, s) \<Rightarrow> (d, mqnic_free_id d ids, s))"

definition fail_regions :: "probe_state \<Rightarrow> probe_state" where
  "fail_regions v = (case v of (d, ids, s) \<Rightarrow> fail_enable_device (d, ids, kput ''pci_disable_device'' [] PciEnabled s))"

definition fail_map_bars :: "probe_state \<Rightarrow> probe_state" where
  "fail_map_bars v = (case v of (d, ids, s) \<Rightarrow>
     fail_regions (d, ids, kput ''pci_release_regions'' [] PciRegions
       (iounmap_if (md_ram_hw_addr d) (iounmap_if (md_app_hw_addr d) (iounmap_if (md_hw_addr d) s)))))"

definition fail_common :: "probe_state \<Rightarrow> probe_state" where
  "fail_common v = (case v of (d, ids, s) \<Rightarrow>
     case mqnic_irq_deinit_pcie (d, kput ''pci_clear_master'' [] PciMaster s) of (d, s) \<Rightarrow> fail_map_bars (d, ids, s))"

text \<open>The BARs: sizes and addresses, the control BAR always, the other two when the device has them.\<close>

definition read_bars :: "mqnic_dev \<times> sys \<Rightarrow> mqnic_dev \<times> sys" where
  "read_bars w = (case w of (d, s) \<Rightarrow>
     let (l0, s) = kcall ''pci_resource_len'' [0] s; (a0, s) = kcall ''pci_resource_start'' [0] s;
         (l4, s) = kcall ''pci_resource_len'' [4] s; (a4, s) = kcall ''pci_resource_start'' [4] s;
         (l5, s) = kcall ''pci_resource_len'' [5] s; (a5, s) = kcall ''pci_resource_start'' [5] s
     in (d\<lparr>md_hw_regs_size := word_of_int l0, md_hw_regs_phys := word_of_int a0,
           md_app_hw_regs_size := word_of_int l4, md_app_hw_regs_phys := word_of_int a4,
           md_ram_hw_regs_size := word_of_int l5, md_ram_hw_regs_phys := word_of_int a5\<rparr>, s))"

definition map_bars :: "mqnic_dev \<times> sys \<Rightarrow> int \<times> mqnic_dev \<times> sys" where
  "map_bars w = (case w of (d, s) \<Rightarrow>
     case pci_ioremap_bar 0 s of (a, s) \<Rightarrow> let d = d\<lparr>md_hw_addr := a\<rparr> in
     if a = 0 then (- ENOMEM, d, s)
     else case (if md_app_hw_regs_size d \<noteq> 0 then pci_ioremap_bar 4 s else (0, s)) of (a, s) \<Rightarrow>
       let d = d\<lparr>md_app_hw_addr := a\<rparr> in
       if md_app_hw_regs_size d \<noteq> 0 \<and> a = 0 then (- ENOMEM, d, s)
       else case (if md_ram_hw_regs_size d \<noteq> 0 then pci_ioremap_bar 5 s else (0, s)) of (a, s) \<Rightarrow>
         let d = d\<lparr>md_ram_hw_addr := a\<rparr> in
         if md_ram_hw_regs_size d \<noteq> 0 \<and> a = 0 then (- ENOMEM, d, s) else (0, d, s))"

text \<open>From the mapped BARs on.\<close>

definition probe_mapped :: "probe_env \<Rightarrow> probe_state \<Rightarrow> (int \<times> probe_state) option" where
  "probe_mapped env v = (case v of (d, ids, s) \<Rightarrow>
     case ioread32 (md_hw_addr d) s of (x, s) \<Rightarrow>
     if x = 0xffffffff then Some (- EIO, fail_map_bars (d, ids, s))
     else do {
       (e, d, s) \<leftarrow> mqnic_irq_init_pcie (d, s);
       (if e \<noteq> 0 then Some (e, fail_map_bars (d, ids, s))
        else do {
          let s = emit (KGet PciMaster) (kvoid ''pci_set_master'' [] s);
          (e, d, s) \<leftarrow> mqnic_common_probe env (d, s);
          (if e \<noteq> 0 then Some (e, fail_common (d, ids, s)) else Some (0, d, ids, s)) }) })"

text \<open>The 64 bit mask, or else the 32 bit one.\<close>

definition set_dma_mask :: "sys \<Rightarrow> int \<times> sys" where
  "set_dma_mask s = (case kcall ''dma_set_mask_and_coherent'' [64] s of (r, s) \<Rightarrow>
     if r \<noteq> 0 then kcall ''dma_set_mask_and_coherent'' [32] s else (r, s))"

text \<open>
  The probe. \<open>devm_kzalloc\<close> is asked for the device structure (size 0 in the call below) and for the
  1024 bytes shared with the other processor; the kernel frees what it handed out after a failed probe.
\<close>

definition mqnic_pci_probe :: "probe_env \<Rightarrow> u32 list \<Rightarrow> sys \<Rightarrow> (int \<times> mqnic_dev \<times> u32 list \<times> sys) option" where
  "mqnic_pci_probe env ids s =
    (case kcall ''devm_kzalloc'' [0] s of (p, s) \<Rightarrow>
     if p = 0 then Some (- ENOMEM, zero_dev, ids, s)
     else do {
       (d, ids) \<leftarrow> mqnic_assign_id zero_dev ids;
       let s = kvoid ''pci_disable_link_state'' [] s;
       (case kget ''pci_enable_device_mem'' [] (\<lambda>r. r = 0) (\<lambda>_. PciEnabled) s of (r, s) \<Rightarrow>
        if r \<noteq> 0 then Some (r, fail_enable_device (d, ids, s))
        else case set_dma_mask s of (r, s) \<Rightarrow>
        if r \<noteq> 0 then Some (r, fail_regions (d, ids, s))
        else case kget ''pci_request_regions'' [] (\<lambda>r. r = 0) (\<lambda>_. PciRegions) (kvoid ''dma_set_max_seg_size'' [32] s) of (r, s) \<Rightarrow>
        if r \<noteq> 0 then Some (r, fail_regions (d, ids, s))
        else case kcall ''devm_kzalloc'' [1024] s of (pa_ptr, s) \<Rightarrow>
        if pa_ptr = 0 then Some (- ENOMEM, d, ids, s)
        else case map_bars (read_bars (d, s)) of (e, d, s) \<Rightarrow>
        if e \<noteq> 0 then Some (e, fail_map_bars (d, ids, s))
        else probe_mapped env (d, ids, s)) })"

definition mqnic_pci_remove :: "probe_state \<Rightarrow> probe_state option" where
  "mqnic_pci_remove v = (case v of (d, ids, s) \<Rightarrow> do {
     (d, s) \<leftarrow> mqnic_common_remove (d, s);
     Some (fail_common (d, ids, s)) })"

definition mqnic_pci_shutdown :: "probe_state \<Rightarrow> probe_state option" where
  "mqnic_pci_shutdown v = mqnic_pci_remove v"

section \<open>The search for a number\<close>

lemma get_free_id_steps:
  "(\<forall>m<n. i + word_of_nat m \<in> set ids) \<Longrightarrow> i + word_of_nat n \<notin> set ids \<Longrightarrow>
     get_free_id_from ids i = Some (i + word_of_nat n)"
proof (induction n arbitrary: i)
  case 0
  then show ?case by (subst get_free_id_from.simps) simp
next
  case (Suc n)
  have "i \<in> set ids" using Suc.prems(1) by fastforce
  moreover have "\<forall>m<n. i + 1 + word_of_nat m \<in> set ids"
  proof (intro allI impI)
    fix m assume "m < n"
    then have "i + word_of_nat (Suc m) \<in> set ids" using Suc.prems(1) by blast
    then show "i + 1 + word_of_nat m \<in> set ids" by (simp add: add.assoc)
  qed
  moreover have "i + 1 + word_of_nat n \<notin> set ids" using Suc.prems(2) by (simp add: add.assoc)
  ultimately show ?case
    using Suc.IH [of "i + 1"] by (subst get_free_id_from.simps) (simp add: add.assoc)
qed

lemma get_free_id_least:
  assumes "set ids \<noteq> UNIV"
  shows "\<exists>i. mqnic_get_free_id ids = Some i \<and> i \<notin> set ids \<and> (\<forall>j<i. j \<in> set ids)"
proof -
  from assms obtain w where w: "w \<notin> set ids" by blast
  define n where "n = (LEAST n. (word_of_nat n :: u32) \<notin> set ids)"
  have ex: "(word_of_nat (unat w) :: u32) \<notin> set ids" using w by simp
  have n: "(word_of_nat n :: u32) \<notin> set ids" unfolding n_def using ex by (rule LeastI)
  have m: "\<forall>m<n. (word_of_nat m :: u32) \<in> set ids" unfolding n_def using not_less_Least by blast
  have "n \<le> unat w" unfolding n_def using ex by (rule Least_le)
  then have u: "unat (word_of_nat n :: u32) = n"
    using unsigned_less [of w, where 'a = nat] by (simp add: unsigned_of_nat take_bit_nat_eq_self)
  have "\<forall>j < word_of_nat n. j \<in> set ids"
  proof (intro allI impI)
    fix j :: u32 assume "j < word_of_nat n"
    then have "unat j < n" using u by (simp only: word_less_nat_alt)
    with m have "(word_of_nat (unat j) :: u32) \<in> set ids" by blast
    then show "j \<in> set ids" by simp
  qed
  with n m get_free_id_steps [of n 0 ids] show ?thesis by (auto simp: mqnic_get_free_id_def)
qed

lemma few_ids: "length ids < 2 ^ 32 \<Longrightarrow> set ids \<noteq> (UNIV :: u32 set)"
proof
  assume l: "length ids < 2 ^ 32" and u: "set ids = (UNIV :: u32 set)"
  have "card (UNIV :: u32 set) \<le> length ids" using card_length [of ids] u by simp
  with l show False by (simp add: card_word)
qed

section \<open>What is held\<close>

text \<open>The interfaces of a device and their network devices.\<close>

definition own_pair :: "res \<Rightarrow> mqnic_if \<times> net_device option \<Rightarrow> int" where
  "own_pair x p = own_if x (fst p) + own_nd x (snd p)"

definition own_ifs :: "res \<Rightarrow> mqnic_dev \<Rightarrow> int" where
  "own_ifs x d = owns (own_pair x) MAX_IF (md_interface d)"

definition ifs_ok :: "mqnic_dev \<Rightarrow> bool" where
  "ifs_ok d \<longleftrightarrow> (\<forall>k i nd. md_interface d k = Some (i, nd) \<longrightarrow> k < MAX_IF \<and> sized i \<and> calm i)"

text \<open>
  The account of a device under construction: interfaces, buses, and a board that can be taken down. The
  parts named by \<open>dev_rest\<close> stay as they are from the board on.
\<close>

definition dev_rest :: "mqnic_dev \<Rightarrow> addr \<times> addr \<times> addr \<times> (nat \<Rightarrow> mqnic_irq option) \<times> int \<times> u32" where
  "dev_rest d = (md_hw_addr d, md_app_hw_addr d, md_ram_hw_addr d, md_irq d, md_irq_count d, md_id d)"

definition dev_acct :: "int \<Rightarrow> res \<Rightarrow> mqnic_dev \<times> sys \<Rightarrow> bool" where
  "dev_acct c x w \<longleftrightarrow> ifs_ok (fst w) \<and> md_board_ops (fst w) \<noteq> None \<and>
     md_i2c_adapter_count (fst w) = int (length (md_i2c_bus (fst w))) \<and>
     bal (trace (snd w)) x = c + own_ifs x (fst w) + own_buses x (fst w)"

lemma own_ifs_upd:
  "k < MAX_IF \<Longrightarrow> own_ifs x (d\<lparr>md_interface := (md_interface d)(k := v)\<rparr>) =
     own_ifs x d - (case md_interface d k of None \<Rightarrow> 0 | Some p \<Rightarrow> own_pair x p) + (case v of None \<Rightarrow> 0 | Some p \<Rightarrow> own_pair x p)"
  by (simp add: own_ifs_def owns_upd)

lemma own_ifs_upd2:
  "own_ifs x (d\<lparr>md_interface := m, md_dev_port_max := j\<rparr>) = own_ifs x (d\<lparr>md_interface := m\<rparr>)"
  "own_buses x (d\<lparr>md_interface := m, md_dev_port_max := j\<rparr>) = own_buses x d"
  "own_buses x (d\<lparr>md_interface := m\<rparr>) = own_buses x d"
  by (simp_all add: own_ifs_def own_buses_def)

lemma create_if_acct:
  assumes "probe_create_if env k (d, s) = Some (e, w')" "dev_acct c x (d, s)" "k < MAX_IF" "md_interface d k = None"
  shows "dev_acct c x w' \<and> dev_rest (fst w') = dev_rest d \<and>
    (\<forall>j. j \<noteq> k \<longrightarrow> md_interface (fst w') j = md_interface d j)"
proof -
  obtain r s' where c: "mqnic_create_interface (be_valid (pe_board env)) (pe_random env) (pe_params env) (if_view d) k
        (md_hw_addr d + ucast (word_of_nat k * md_if_stride d)) s = Some (e, r, s')"
    and w: "w' = (case r of None \<Rightarrow> (d, s') | Some (ifc, nd) \<Rightarrow>
      (d\<lparr>md_interface := (md_interface d)(k \<mapsto> (ifc, nd)), md_dev_port_max := if_dev_port_max ifc\<rparr>, s'))"
    using assms(1) by (auto simp: probe_create_if_def split: Option.bind_splits option.splits prod.splits)
  show ?thesis
  proof (cases r)
    case None
    with create_interface_owned [OF c, of x] assms(2) w show ?thesis by (simp add: dev_acct_def)
  next
    case (Some p)
    obtain i nd where p: "p = (i, nd)" by force
    with create_interface_owned [OF c, of x] Some have o: "e = 0" "owned (bal (trace s) x + own_nd x nd) x (i, s')" by simp_all
    have "ifs_ok (d\<lparr>md_interface := (md_interface d)(k \<mapsto> (i, nd))\<rparr>)"
      using assms(2,3) o(2) by (auto simp: ifs_ok_def dev_acct_def owned_def)
    then show ?thesis
      using assms(2-4) o by (auto simp: w Some p dev_acct_def dev_rest_def own_ifs_upd2 own_ifs_upd own_pair_def owned_def ifs_ok_def)
  qed
qed

lemma destroy_if_acct:
  assumes "dev_acct c x w"
  shows "\<exists>w'. probe_destroy_if k w = Some w' \<and> dev_acct c x w' \<and> dev_rest (fst w') = dev_rest (fst w) \<and>
    md_interface (fst w') = (md_interface (fst w))(k := None)"
proof -
  obtain d s where w: "w = (d, s)" by force
  show ?thesis
  proof (cases "md_interface d k")
    case None
    with assms w show ?thesis by (auto simp: probe_destroy_if_def)
  next
    case (Some p)
    obtain i nd where p: "p = (i, nd)" by force
    with assms w Some have h: "k < MAX_IF" "sized i" "calm i" by (auto simp: dev_acct_def ifs_ok_def)
    let ?b = "bal (trace s) x - own_if x i - own_nd x nd"
    have o: "owned (?b + own_nd x nd) x (i, s)" using h by (simp add: owned_def)
    obtain s' where s': "mqnic_destroy_interface i nd s = Some s'" using destroy_interface_total [OF o] by blast
    from destroy_interface_owned [OF s' o] assms w h Some p
    show ?thesis
      by (auto simp: probe_destroy_if_def s' dev_acct_def dev_rest_def own_ifs_upd own_ifs_upd2 own_pair_def ifs_ok_def)
  qed
qed

lemma destroy_ifs_acct:
  "dev_acct c x w \<Longrightarrow> \<exists>w'. ofold probe_destroy_if ks w = Some w' \<and> dev_acct c x w' \<and> dev_rest (fst w') = dev_rest (fst w) \<and>
     md_interface (fst w') = (\<lambda>k. if k \<in> set ks then None else md_interface (fst w) k)"
proof (induction ks arbitrary: w)
  case (Cons k ks)
  obtain v where v: "probe_destroy_if k w = Some v" "dev_acct c x v" "dev_rest (fst v) = dev_rest (fst w)"
    "md_interface (fst v) = (md_interface (fst w))(k := None)"
    using destroy_if_acct [OF Cons.prems] by blast
  from Cons.IH [OF v(2)] obtain w' where "ofold probe_destroy_if ks v = Some w'" "dev_acct c x w'" "dev_rest (fst w') = dev_rest (fst v)"
    "md_interface (fst w') = (\<lambda>j. if j \<in> set ks then None else md_interface (fst v) j)" by blast
  with v show ?case by (auto simp: fun_eq_iff)
qed auto

text \<open>Taking down what the common probe brought up cannot fault, and gives everything back.\<close>

lemma common_undo_acct:
  assumes "dev_acct c x w"
  shows "\<exists>d' s'. common_undo w = Some (d', s') \<and> bal (trace s') x = c \<and> dev_rest d' = dev_rest (fst w)"
proof -
  obtain d1 s1 where f: "ofold probe_destroy_if [0..<MAX_IF] w = Some (d1, s1)" "dev_acct c x (d1, s1)"
    "dev_rest d1 = dev_rest (fst w)" "md_interface d1 = (\<lambda>k. if k \<in> set [0..<MAX_IF] then None else md_interface (fst w) k)"
    using destroy_ifs_acct [OF assms, of "[0..<MAX_IF]"] by (metis prod.collapse)
  have "md_interface (fst w) k = None" if "\<not> k < MAX_IF" for k
    using assms that by (cases "md_interface (fst w) k") (auto simp: dev_acct_def ifs_ok_def)
  with f(4) have e: "md_interface d1 = Map.empty" by auto
  let ?d = "d1\<lparr>md_phc := mqnic_unregister_phc (md_phc d1)\<rparr>"
  have "board_acct c x ?d (?d, s1)" "md_board_ops ?d \<noteq> None"
    using f(2) e by (simp_all add: board_acct_def bus_acct_def dev_acct_def own_ifs_def own_buses_def)
  from board_deinit_acct [OF this(1)] this(2)
  have b: "bal (trace (snd (mqnic_board_deinit (?d, s1)))) x = c" "board_rest (fst (mqnic_board_deinit (?d, s1))) = board_rest ?d" by simp_all
  from b(2) have "dev_rest (fst (mqnic_board_deinit (?d, s1))) = dev_rest d1"
    unfolding board_rest_def dev_rest_def
    by (cases "fst (mqnic_board_deinit (?d, s1))"; cases d1) simp
  with b f show ?thesis by (auto simp: common_undo_def) (metis prod.collapse)
qed

text \<open>Everything before the interfaces.\<close>

lemma read_device_rest:
  "read_device (d, s) = (d', s') \<Longrightarrow> bal (trace s') x = bal (trace s) x \<and> dev_rest d' = dev_rest d \<and> md_interface d' = md_interface d \<and>
     md_i2c_bus d' = md_i2c_bus d \<and> md_i2c_adapter_count d' = md_i2c_adapter_count d"
proof -
  assume a: "read_device (d, s) = (d', s')"
  let ?as = "[md_hw_addr d + REG_FW_ID, md_hw_addr d + REG_FW_VER, md_hw_addr d + REG_BOARD_ID, md_hw_addr d + REG_BOARD_VER,
          md_hw_addr d + REG_PHC_COUNT, md_hw_addr d + REG_PHC_OFFSET,
          md_hw_addr d + REG_IF_COUNT, md_hw_addr d + REG_IF_STRIDE, md_hw_addr d + REG_IF_CSR_OFFSET]"
  obtain v t where r: "ioreads ?as s = (v, t)" by force
  from bal_ioreads [of ?as s x] r have "bal (trace t) x = bal (trace s) x" by simp
  with a r show ?thesis by (auto simp: read_device_def Let_def dev_rest_def simp del: ioreads.simps)
qed

lemma phc_settime_bal: "bal (trace (mqnic_phc_settime phc t s)) x = bal (trace s) x"
  by (simp add: mqnic_phc_settime_def)

lemma register_phc_bal: "mqnic_register_phc ok tai phc p s = (q, s') \<Longrightarrow> bal (trace s') x = bal (trace s) x"
  by (auto simp: mqnic_register_phc_def phc_settime_bal Let_def dest!: bal_ioread32 [of _ _ _ _ x] split: prod.splits if_splits)

lemma register_clock_rest:
  assumes "register_clock env (d, s) = (d', s')"
  shows "bal (trace s') x = bal (trace s) x \<and> (\<exists>p. d' = d\<lparr>md_phc := p\<rparr>)"
proof (cases "md_phc_count d = 0")
  case True
  with assms have "d' = d\<lparr>md_phc := md_phc d\<rparr>" "s' = s" by (auto simp: register_clock_def)
  then show ?thesis by blast
next
  case False
  obtain p t where r: "mqnic_register_phc (pe_phc_ok env) (pe_tai env) (md_phc_hw_addr d) (md_phc d) s = (p, t)" by force
  with assms False have "d' = d\<lparr>md_phc := p\<rparr>" "s' = t" by (simp_all add: register_clock_def)
  with register_phc_bal [OF r, of x] show ?thesis by blast
qed

lemma create_ifs_acct:
  assumes "efold (probe_create_if env) [0..<n] w = Some (e, w')" "dev_acct c x w" "md_interface (fst w) = Map.empty" "n \<le> MAX_IF"
  shows "dev_acct c x w' \<and> dev_rest (fst w') = dev_rest (fst w)"
proof -
  have "if e = 0 then (dev_acct c x w' \<and> dev_rest (fst w') = dev_rest (fst w)) \<and> (\<forall>k\<ge>n. md_interface (fst w') k = None)
    else dev_acct c x w' \<and> dev_rest (fst w') = dev_rest (fst w)"
    using assms(1)
  proof (rule efold_inv [where P = "\<lambda>j v. (dev_acct c x v \<and> dev_rest (fst v) = dev_rest (fst w)) \<and> (\<forall>k\<ge>j. md_interface (fst v) k = None)"])
    fix k v e v'
    assume k: "k < n" and c: "probe_create_if env k v = Some (e, v')"
      and i: "(dev_acct c x v \<and> dev_rest (fst v) = dev_rest (fst w)) \<and> (\<forall>j\<ge>k. md_interface (fst v) j = None)"
    obtain d s where v: "v = (d, s)" by force
    have "md_interface d k = None" using i v by simp
    from create_if_acct [OF c [unfolded v] _ _ this, of c x] i k assms(4)
    show "if e = 0 then (dev_acct c x v' \<and> dev_rest (fst v') = dev_rest (fst w)) \<and> (\<forall>j\<ge>Suc k. md_interface (fst v') j = None)
      else dev_acct c x v' \<and> dev_rest (fst v') = dev_rest (fst w)"
      by (auto simp: v)
  qed (use assms in auto)
  then show ?thesis by (auto split: if_splits)
qed

lemma pass_client_acct:
  assumes "pass_i2c_client k d = Some d'" "dev_acct c x (d, s)"
  shows "dev_acct c x (d', s) \<and> dev_rest d' = dev_rest d"
proof -
  from assms(1) obtain i nd where i: "md_interface d k = Some (i, Some nd)"
    and d': "d' = d\<lparr>md_interface := (md_interface d)(k \<mapsto> (i\<lparr>if_mod_i2c_client := md_mod_i2c_client d k\<rparr>,
      Some (nd\<lparr>pv_mod_i2c_client := md_mod_i2c_client d k\<rparr>)))\<rparr>"
    by (auto simp: pass_i2c_client_def Let_def split: Option.bind_splits)
  from assms(2) i have k: "k < MAX_IF" "sized i" "calm i" by (auto simp: dev_acct_def ifs_ok_def)
  then have "ifs_ok d'" using assms(2) by (auto simp: d' dev_acct_def ifs_ok_def sized_def calm_def)
  moreover have "own_ifs x d' = own_ifs x d"
    using k i by (simp add: d' own_ifs_upd own_pair_def own_if_def own_nd_def)
  ultimately show ?thesis using assms(2) by (simp add: dev_acct_def d' dev_rest_def own_buses_def)
qed

lemma pass_clients_acct:
  "ofold pass_i2c_client ks d = Some d' \<Longrightarrow> dev_acct c x (d, s) \<Longrightarrow> dev_acct c x (d', s) \<and> dev_rest d' = dev_rest d"
proof (induction ks arbitrary: d)
  case (Cons k ks)
  then obtain e where "pass_i2c_client k d = Some e" "ofold pass_i2c_client ks e = Some d'" by (auto split: option.splits)
  with Cons pass_client_acct show ?case by metis
qed simp

lemma dev_acct_shift: "dev_acct c x (d, s) \<Longrightarrow> bal (trace s') x = bal (trace s) x + n \<Longrightarrow> dev_acct (c + n) x (d, s')"
  by (simp add: dev_acct_def)

text \<open>The common probe: all or nothing.\<close>

lemma common_probe_acct:
  assumes "mqnic_common_probe env (d, s) = Some (e, d', s')"
    and "md_interface d = Map.empty" "md_i2c_bus d = []" "md_i2c_adapter_count d = 0"
  shows "dev_rest d' = dev_rest d \<and>
    (if e = 0 then dev_acct (bal (trace s) x + of_bool (x = Held MiscDev)) x (d', s') else bal (trace s') x = bal (trace s) x)"
proof -
  let ?c = "bal (trace s) x"
  obtain d1 s1 where r: "read_device (d, s) = (d1, s1)" by force
  note r1 = read_device_rest [OF r, of x]
  show ?thesis
  proof (cases "bar_too_small d1")
    case True
    with assms(1) r r1 show ?thesis by (auto simp: mqnic_common_probe_def)
  next
    case False
    obtain e2 d2 s2 where b: "mqnic_board_init (pe_board env) (d1, s1) = (e2, d2, s2)" by (metis surj_pair)
    have i1: "md_i2c_bus d1 = []" "md_i2c_adapter_count d1 = 0" "md_interface d1 = Map.empty" using r1 assms(2-4) by simp_all
    let ?d1 = "d1\<lparr>md_board_ops := Some (board_ops_for (md_board_id d1))\<rparr>"
    from board_init_acct [OF b i1(1,2), of x] have e2: "e2 = 0" and a2: "board_acct ?c x ?d1 (d2, s2)" using r1 by simp_all
    from a2 have br: "board_rest d2 = board_rest ?d1" by (simp add: board_acct_def)
    then have f2: "md_board_ops d2 \<noteq> None" "md_interface d2 = Map.empty" "dev_rest d2 = dev_rest d1"
      using i1(3) unfolding board_rest_def dev_rest_def by (cases d2; cases d1; simp)+
    obtain d3 s3 where c3: "register_clock env (d2, s2) = (d3, s3)" by force
    obtain p where d3: "d3 = d2\<lparr>md_phc := p\<rparr>" and b3: "bal (trace s3) x = bal (trace s2) x"
      using register_clock_rest [OF c3, of x] by blast
    let ?d = "d3\<lparr>md_dev_port_max := 0, md_dev_port_limit := int MAX_IF, md_if_count := min (md_if_count d3) (word_of_nat MAX_IF)\<rparr>"
    let ?n = "unat (md_if_count ?d)"
    have a3: "dev_acct ?c x (?d, s3)"
      using a2 f2 b3 by (simp add: dev_acct_def board_acct_def bus_acct_def d3 ifs_ok_def own_ifs_def own_buses_def)
    have m3: "md_interface ?d = Map.empty" "dev_rest ?d = dev_rest d" using f2 r1 by (simp_all add: d3 dev_rest_def)
    have n: "?n \<le> MAX_IF" by (simp add: MAX_IF_def min_def word_le_nat_alt)
    from assms(1) r False b e2 c3 obtain e4 d4 s4 where f: "efold (probe_create_if env) [0..<?n] (?d, s3) = Some (e4, d4, s4)"
      and rest: "(if e4 \<noteq> 0 then do { w \<leftarrow> common_undo (d4, s4); Some (e4, w) }
            else do {
              d \<leftarrow> ofold pass_i2c_client [0..<unat (md_if_count d4)] d4;
              let (r, s) = kget ''misc_register'' [] (\<lambda>r. r = 0) (\<lambda>_. MiscDev) s4;
              (if r \<noteq> 0 then do { w \<leftarrow> common_undo (d, s); Some (r, w) }
               else Some (0, d, s)) }) = Some (e, d', s')"
      by (auto simp: mqnic_common_probe_def Let_def split: Option.bind_splits)
    from create_ifs_acct [OF f a3 _ n] m3 have a4: "dev_acct ?c x (d4, s4)" "dev_rest d4 = dev_rest d" by simp_all
    show ?thesis
    proof (cases "e4 = 0")
      case False
      with common_undo_acct [OF a4(1)] rest a4(2) show ?thesis by (auto split: Option.bind_splits)
    next
      case True
      with rest obtain d5 where d5: "ofold pass_i2c_client [0..<unat (md_if_count d4)] d4 = Some d5" by (auto split: Option.bind_splits)
      note a5 = pass_clients_acct [OF d5 a4(1)]
      obtain q s6 where q: "kget ''misc_register'' [] (\<lambda>r. r = 0) (\<lambda>_. MiscDev) s4 = (q, s6)" by force
      note b6 = bal_kget [OF q, of x]
      show ?thesis
      proof (cases "q = 0")
        case t: True
        with rest True d5 q have "e = 0" "d' = d5" "s' = s6" by simp_all
        with dev_acct_shift [OF conjunct1 [OF a5], of s6] b6 t a5 a4(2) show ?thesis by simp
      next
        case f: False
        with b6 a5 have "dev_acct ?c x (d5, s6)" by (simp add: dev_acct_def)
        from common_undo_acct [OF this] rest True d5 q f a5 a4(2) show ?thesis by (auto split: Option.bind_splits)
      qed
    qed
  qed
qed

lemma common_remove_acct:
  assumes "dev_acct (c + of_bool (x = Held MiscDev)) x (d, s)"
  shows "\<exists>d' s'. mqnic_common_remove (d, s) = Some (d', s') \<and> bal (trace s') x = c \<and> dev_rest d' = dev_rest d"
proof -
  have "dev_acct c x (d, kput ''misc_deregister'' [] MiscDev s)" using assms by (simp add: dev_acct_def)
  from common_undo_acct [OF this] show ?thesis by (simp add: mqnic_common_remove_def)
qed

section \<open>The PCI resources\<close>

definition own_bar :: "res \<Rightarrow> addr \<Rightarrow> int" where
  "own_bar x a = of_bool (a \<noteq> 0 \<and> x = Held (IoMap (uint a)))"

definition own_bars :: "res \<Rightarrow> mqnic_dev \<Rightarrow> int" where
  "own_bars x d = own_bar x (md_hw_addr d) + own_bar x (md_app_hw_addr d) + own_bar x (md_ram_hw_addr d)"

definition own_pci :: "res \<Rightarrow> int" where
  "own_pci x = of_bool (x = Held PciEnabled) + of_bool (x = Held PciRegions)"

lemma ioremap_bal: "pci_ioremap_bar b s = (a, s') \<Longrightarrow> bal (trace s') x = bal (trace s) x + own_bar x a"
  by (auto simp: pci_ioremap_bar_def own_bar_def dest!: bal_kget [of _ _ _ _ _ _ _ x] split: prod.splits)

lemma iounmap_bal [simp]: "bal (trace (iounmap_if a s)) x = bal (trace s) x - own_bar x a"
  by (simp add: iounmap_if_def own_bar_def)

text \<open>A device before its interrupts: nothing made yet.\<close>

definition blank :: "mqnic_dev \<Rightarrow> bool" where
  "blank d \<longleftrightarrow> md_interface d = Map.empty \<and> md_i2c_bus d = [] \<and> md_i2c_adapter_count d = 0 \<and> md_irq d = Map.empty"

lemma map_bars_acct:
  assumes "map_bars (d, s) = (e, d', s')" "md_app_hw_addr d = 0" "md_ram_hw_addr d = 0"
  shows "bal (trace s') x = bal (trace s) x + own_bars x d' \<and> blank d' = blank d \<and> md_id d' = md_id d"
proof -
  obtain a1 s1 where m1: "pci_ioremap_bar 0 s = (a1, s1)" by force
  note b1 = ioremap_bal [OF m1, of x]
  let ?l4 = "md_app_hw_regs_size d" and ?l5 = "md_ram_hw_regs_size d"
  obtain a2 s2 where m2: "(if ?l4 \<noteq> 0 then pci_ioremap_bar 4 s1 else (0, s1)) = (a2, s2)" by force
  have b2: "bal (trace s2) x = bal (trace s1) x + own_bar x a2"
    using m2 ioremap_bal [of 4 s1 a2 s2 x] by (auto simp: own_bar_def split: if_splits)
  obtain a3 s3 where m3: "(if ?l5 \<noteq> 0 then pci_ioremap_bar 5 s2 else (0, s2)) = (a3, s3)" by force
  have b3: "bal (trace s3) x = bal (trace s2) x + own_bar x a3"
    using m3 ioremap_bal [of 5 s2 a3 s3 x] by (auto simp: own_bar_def split: if_splits)
  have z: "own_bar x 0 = 0" by (simp add: own_bar_def)
  show ?thesis
  proof (cases "a1 = 0")
    case True
    with assms m1 b1 z show ?thesis by (auto simp: map_bars_def own_bars_def blank_def)
  next
    case n1: False
    show ?thesis
    proof (cases "?l4 \<noteq> 0 \<and> a2 = 0")
      case True
      with assms n1 m1 m2 b1 b2 z show ?thesis by (auto simp: map_bars_def Let_def own_bars_def blank_def)
    next
      case n2: False
      have "(e, d', s') = (if ?l5 \<noteq> 0 \<and> a3 = 0 then (- ENOMEM, d\<lparr>md_hw_addr := a1, md_app_hw_addr := a2, md_ram_hw_addr := a3\<rparr>, s3)
          else (0, d\<lparr>md_hw_addr := a1, md_app_hw_addr := a2, md_ram_hw_addr := a3\<rparr>, s3))"
        using assms(1) n1 n2 m1 m2 m3 by (simp add: map_bars_def Let_def)
      with b1 b2 b3 show ?thesis by (auto simp: own_bars_def blank_def split: if_splits)
    qed
  qed
qed

lemma fail_map_bars_acct:
  assumes "fail_map_bars (d, ids, s) = (d', ids', s')"
  shows "d' = d \<and> ids' = remove1 (md_id d) ids \<and> bal (trace s') x = bal (trace s) x - own_bars x d - own_pci x"
  using assms by (auto simp: fail_map_bars_def fail_regions_def fail_enable_device_def mqnic_free_id_def own_bars_def own_pci_def)

lemma dev_rest_fields:
  "dev_rest d' = dev_rest d \<Longrightarrow> own_bars x d' = own_bars x d \<and> md_id d' = md_id d \<and> own_irqs x d' = own_irqs x d \<and>
     irq_slots d' = irq_slots d \<and> irqs_up d' = irqs_up d"
  by (simp add: dev_rest_def own_bars_def own_irqs_def irq_slots_def irqs_up_def)

lemma only_irq_fields:
  "only_irq d d' \<Longrightarrow> own_bars x d' = own_bars x d \<and> md_id d' = md_id d \<and> md_interface d' = md_interface d \<and>
     md_i2c_bus d' = md_i2c_bus d \<and> md_i2c_adapter_count d' = md_i2c_adapter_count d"
  unfolding only_irq_def by (cases d; cases d') (simp add: own_bars_def)

lemma fail_common_acct:
  assumes "fail_common (d, ids, s) = (d', ids', s')" "irq_slots d"
  shows "ids' = remove1 (md_id d) ids \<and> bal (trace s') x = bal (trace s) x - of_bool (x = Held PciMaster) -
    own_irqs x d - of_bool (x = Held IrqVectors) - own_bars x d - own_pci x"
proof -
  let ?s = "kput ''pci_clear_master'' [] PciMaster s"
  obtain d1 s1 where q: "mqnic_irq_deinit_pcie (d, ?s) = (d1, s1)" by force
  have "irq_acct (bal (trace ?s) x - own_irqs x d) x (d, ?s)" using assms(2) by (simp add: irq_acct_def)
  from irq_deinit_acct [OF this q] only_irq_fields [of d d1]
  have "bal (trace s1) x = bal (trace ?s) x - own_irqs x d - of_bool (x = Held IrqVectors)"
    "own_bars x d1 = own_bars x d" "md_id d1 = md_id d" by simp_all
  moreover have "fail_map_bars (d1, ids, s1) = (d', ids', s')" using assms(1) q by (simp add: fail_common_def)
  ultimately show ?thesis using fail_map_bars_acct [of d1 ids s1 d' ids' s' x] by simp
qed

text \<open>A device that is up: beside \<open>c\<close>, what is held is what its removal gives back.\<close>

definition up_acct :: "int \<Rightarrow> res \<Rightarrow> mqnic_dev \<times> sys \<Rightarrow> bool" where
  "up_acct c x w \<longleftrightarrow> irq_slots (fst w) \<and>
     dev_acct (c + own_bars x (fst w) + own_pci x + of_bool (x = Held IrqVectors) + own_irqs x (fst w) +
       of_bool (x = Held PciMaster) + of_bool (x = Held MiscDev)) x w"

lemma probe_mapped_acct:
  assumes "probe_mapped env (d, ids, s) = Some (e, d', ids', s')" "blank d"
    and "bal (trace s) x = c + own_bars x d + own_pci x"
  shows "if e = 0 then ids' = ids \<and> md_id d' = md_id d \<and> up_acct c x (d', s') else ids' = remove1 (md_id d) ids \<and> bal (trace s') x = c"
proof -
  obtain v s1 where r: "ioread32 (md_hw_addr d) s = (v, s1)" by force
  note b1 = bal_ioread32 [OF r, of x]
  show ?thesis
  proof (cases "v = 0xffffffff")
    case True
    with assms(1) r have "e = - EIO" "fail_map_bars (d, ids, s1) = (d', ids', s')" by (simp_all add: probe_mapped_def)
    with fail_map_bars_acct [OF this(2), of x] b1 assms(3) show ?thesis by simp
  next
    case False
    with assms(1) r obtain e2 d2 s2 where q: "mqnic_irq_init_pcie (d, s1) = Some (e2, d2, s2)"
      by (auto simp: probe_mapped_def split: Option.bind_splits)
    have "md_irq d = Map.empty" using assms(2) by (simp add: blank_def)
    note i = irq_init_acct [OF q this, of x]
    note f = only_irq_fields [OF conjunct1 [OF i]]
    show ?thesis
    proof (cases "e2 = 0")
      case n: False
      with assms(1) r False q have "e = e2" "fail_map_bars (d2, ids, s2) = (d', ids', s')" by (simp_all add: probe_mapped_def)
      with fail_map_bars_acct [OF this(2), of x] b1 assms(3) i n f [of x] show ?thesis by simp
    next
      case True
      let ?s = "emit (KGet PciMaster) (kvoid ''pci_set_master'' [] s2)"
      from assms(1) r False q True obtain e3 d3 s3 where p: "mqnic_common_probe env (d2, ?s) = Some (e3, d3, s3)"
        and o: "(if e3 \<noteq> 0 then (e3, fail_common (d3, ids, s3)) else (0, d3, ids, s3)) = (e, d', ids', s')"
        by (auto simp: probe_mapped_def split: Option.bind_splits if_splits)
      have bl: "md_interface d2 = Map.empty" "md_i2c_bus d2 = []" "md_i2c_adapter_count d2 = 0"
        using f assms(2) by (simp_all add: blank_def)
      note cp = common_probe_acct [OF p bl, of x]
      note df = dev_rest_fields [OF conjunct1 [OF cp], of x]
      from i True have sl: "irq_slots d3" and b2: "bal (trace s2) x = bal (trace s1) x + of_bool (x = Held IrqVectors) + own_irqs x d2"
        using df by (simp_all add: irq_acct_def)
      show ?thesis
      proof (cases "e3 = 0")
        case t: True
        with o have "e = 0" "d' = d3" "ids' = ids" "s' = s3" by simp_all
        with cp t b2 b1 assms(3) df f [of x] sl show ?thesis by (simp add: up_acct_def algebra_simps)
      next
        case n: False
        with o have "e = e3" "fail_common (d3, ids, s3) = (d', ids', s')" by simp_all
        with fail_common_acct [OF this(2) sl, of x] cp n b2 b1 assms(3) df f [of x] show ?thesis by simp
      qed
    qed
  qed
qed

text \<open>Removal never faults.\<close>

lemma pci_remove_acct:
  assumes "up_acct c x (d, s)"
  shows "\<exists>d' s'. mqnic_pci_remove (d, ids, s) = Some (d', remove1 (md_id d) ids, s') \<and> bal (trace s') x = c"
proof -
  let ?c = "c + own_bars x d + own_pci x + of_bool (x = Held IrqVectors) + own_irqs x d + of_bool (x = Held PciMaster)"
  from assms have "dev_acct (?c + of_bool (x = Held MiscDev)) x (d, s)" and sl: "irq_slots d" by (simp_all add: up_acct_def)
  from common_remove_acct [OF this(1)] obtain d1 s1 where r: "mqnic_common_remove (d, s) = Some (d1, s1)"
    "bal (trace s1) x = ?c" "dev_rest d1 = dev_rest d" by blast
  note df = dev_rest_fields [OF r(3), of x]
  obtain d2 ids2 s2 where f: "fail_common (d1, ids, s1) = (d2, ids2, s2)" by (metis surj_pair)
  from fail_common_acct [OF f, of x] df sl r(1,2) f show ?thesis by (auto simp: mqnic_pci_remove_def)
qed

lemma read_bars_acct:
  "read_bars (d, s) = (d', s') \<Longrightarrow> bal (trace s') x = bal (trace s) x \<and> blank d' = blank d \<and> md_id d' = md_id d \<and>
     md_app_hw_addr d' = md_app_hw_addr d \<and> md_ram_hw_addr d' = md_ram_hw_addr d"
  by (auto simp: read_bars_def kcall_def Let_def blank_def)

lemma assign_id_new:
  assumes "mqnic_assign_id d ids = Some (d', ids')"
  shows "ids' = ids @ [md_id d'] \<and> md_id d' \<notin> set ids \<and> (\<exists>i n. d' = d\<lparr>md_id := i, md_name := n\<rparr>)"
proof -
  from assms obtain i where g: "mqnic_get_free_id ids = Some i"
    and d: "d' = d\<lparr>md_id := i, md_name := take 15 (''mqnic'' @ show_int (sint i))\<rparr>" "ids' = ids @ [i]"
    by (auto simp: mqnic_assign_id_def split: Option.bind_splits)
  have "j \<notin> set ids" if "get_free_id_from ids k = Some j" for j k
    using that by (rule get_free_id_from.raw_induct [rotated]) (auto split: if_splits)
  with g d show ?thesis by (auto simp: mqnic_get_free_id_def)
qed

lemma remove1_last: "i \<notin> set ids \<Longrightarrow> remove1 i (ids @ [i]) = ids"
  by (simp add: remove1_append)

text \<open>The part of the probe after the shared memory was allocated.\<close>

lemma probe_bars_acct:
  assumes "(case map_bars (read_bars (d, s)) of (e, d, s) \<Rightarrow>
      if e \<noteq> 0 then Some (e, fail_map_bars (d, ids, s)) else probe_mapped env (d, ids, s)) = Some (e, d', ids', s')"
    and "blank d" "md_app_hw_addr d = 0" "md_ram_hw_addr d = 0" "bal (trace s) x = c + own_pci x"
  shows "if e = 0 then ids' = ids \<and> md_id d' = md_id d \<and> up_acct c x (d', s') else ids' = remove1 (md_id d) ids \<and> bal (trace s') x = c"
proof -
  obtain d1 s1 where r: "read_bars (d, s) = (d1, s1)" by force
  note r1 = read_bars_acct [OF r, of x]
  obtain e2 d2 s2 where m: "map_bars (d1, s1) = (e2, d2, s2)" by (metis surj_pair)
  note m1 = map_bars_acct [OF m, of x]
  have b: "bal (trace s2) x = c + own_bars x d2 + own_pci x" "blank d2" "md_id d2 = md_id d"
    using r1 m1 assms(2-5) by simp_all
  show ?thesis
  proof (cases "e2 = 0")
    case True
    with assms(1) r m have "probe_mapped env (d2, ids, s2) = Some (e, d', ids', s')" by simp
    from probe_mapped_acct [OF this b(2,1)] b(3) show ?thesis by simp
  next
    case False
    with assms(1) r m have "e = e2" "fail_map_bars (d2, ids, s2) = (d', ids', s')" by simp_all
    with fail_map_bars_acct [OF this(2), of x] b False show ?thesis by simp
  qed
qed

section \<open>Properties\<close>


section \<open>A machine on which the probe succeeds\<close>

definition probe_regs :: "addr \<Rightarrow> u32" where
  "probe_regs a = (if a = 0x1002C then 0x10000
     else if a \<in> {0x10020, 0x20010, 0x20020, 0x20028, 0x20030, 0x20038, 0x20040} then 1 else 0)"

definition probe_answers :: "string \<Rightarrow> int" where
  "probe_answers f = (if f = ''devm_kzalloc'' \<or> f = ''pci_alloc_irq_vectors'' then 1
     else if f = ''pci_ioremap_bar'' then 0x10000 else 0)"

definition probe_world :: sys where
  "probe_world = quiet_world\<lparr>w_ioread := (\<lambda>_. probe_regs), w_kcall := (\<lambda>_ f _. probe_answers f)\<rparr>"

definition demo_probe_env :: probe_env where
  "demo_probe_env = \<lparr>pe_params = demo_params, pe_board = demo_env, pe_random = [2, 0, 0, 0, 0, 1], pe_phc_ok = True,
     pe_tai = \<lparr>t64_sec = 0, t64_nsec = 0\<rparr>\<rparr>"

definition on_probe_world :: "sys \<Rightarrow> bool" where
  "on_probe_world s \<longleftrightarrow> s = probe_world\<lparr>trace := trace s\<rparr>"

lemma pw_emit [simp]: "on_probe_world s \<Longrightarrow> on_probe_world (emit e s)"
  unfolding on_probe_world_def emit_def by (cases s) (simp add: probe_world_def quiet_world_def)

lemma pw_kvoid [simp]: "on_probe_world s \<Longrightarrow> on_probe_world (kvoid f a s)"
  by (simp add: kvoid_def)

lemma pw_fields:
  assumes "on_probe_world s"
  shows "w_kcall s = (\<lambda>_ f _. probe_answers f)" "w_ioread s = (\<lambda>_. probe_regs)" "w_kalloc s = (\<lambda>h. Some (length h))" "rich s"
proof -
  obtain t where t: "s = probe_world\<lparr>trace := t\<rparr>" using assms by (auto simp: on_probe_world_def)
  show "w_kcall s = (\<lambda>_ f _. probe_answers f)" "w_ioread s = (\<lambda>_. probe_regs)" "w_kalloc s = (\<lambda>h. Some (length h))"
    by (simp_all add: t probe_world_def quiet_world_def)
  show "rich s"
    using demo_rich(1) unfolding rich_def roomy_def pow2_lib_def t
    by (simp add: probe_world_def probe_answers_def) (simp add: quiet_world_def)?
qed

lemma pw_kcall: "on_probe_world s \<Longrightarrow> kcall f a s = (probe_answers f, emit (KCall f a) s)"
  by (simp add: kcall_def pw_fields)

lemma pw_kget: "on_probe_world s \<Longrightarrow> \<exists>s'. kget f a ok r s = (probe_answers f, s') \<and> on_probe_world s'"
  by (simp add: kget_def pw_fields Let_def)

lemma pw_kzalloc: "on_probe_world s \<Longrightarrow> kzalloc s = (Some (length (trace s)), emit (Kalloc (length (trace s))) s)"
  by (simp add: kzalloc_def pw_fields)

lemma pw_ioread: "on_probe_world s \<Longrightarrow> ioread32 a s = (probe_regs a, emit (Ioread32 a (probe_regs a)) s)"
  by (simp add: ioread32_def pw_fields Let_def)

lemma pw_ioreads: "on_probe_world s \<Longrightarrow> \<exists>s'. ioreads as s = (map probe_regs as, s') \<and> on_probe_world s'"
proof (induction as arbitrary: s)
  case (Cons a as)
  obtain s' where "ioreads as (emit (Ioread32 a (probe_regs a)) s) = (map probe_regs as, s')" "on_probe_world s'"
    using Cons.IH [OF pw_emit [OF Cons.prems]] by blast
  then show ?case by (simp add: pw_ioread [OF Cons.prems])
qed simp

lemma pw_irqs:
  assumes "on_probe_world s" "md_irq d = Map.empty"
  shows "\<exists>irq s'. mqnic_irq_init_pcie (d, s) = Some (0, d\<lparr>md_irq_count := 1, md_irq := [0 \<mapsto> irq]\<rparr>, s') \<and> on_probe_world s'"
proof -
  obtain s1 where s1: "kget ''pci_alloc_irq_vectors'' [1, int MAX_IRQ] (\<lambda>n. 0 \<le> n) (\<lambda>_. IrqVectors) s = (1, s1)" "on_probe_world s1"
    using pw_kget [OF assms(1)] by (metis probe_answers_def)
  note z = pw_kzalloc [OF s1(2)]
  let ?m = "length (trace s1)"
  have w: "on_probe_world (emit (Kalloc ?m) s1)" using s1(2) by simp
  have "probe_answers ''pci_request_irq'' = 0" "probe_answers ''pci_irq_vector'' = 0" by (simp_all add: probe_answers_def)
  then obtain s2 where s2: "kget ''pci_request_irq'' [int 0] (\<lambda>r. 0 \<le> r) (\<lambda>_. IrqLine (int 0)) (emit (Kalloc ?m) s1) = (0, s2)" "on_probe_world s2"
    and v: "kcall ''pci_irq_vector'' [int 0] s2 = (0, emit (KCall ''pci_irq_vector'' [int 0]) s2)"
    using pw_kget [OF w] pw_kcall by metis
  let ?irq = "\<lparr>irq_mem = ?m, irq_idx = int 0, irq_irqn = 0\<rparr>" and ?s = "emit (KCall ''pci_irq_vector'' [int 0]) s2"
  have "irq_setup 0 (d\<lparr>md_irq_count := 1\<rparr>, s1) = Some (0, d\<lparr>md_irq_count := 1, md_irq := [0 \<mapsto> ?irq]\<rparr>, ?s)"
    unfolding irq_setup_def prod.case z option.case s2(1) v Let_def using assms(2) by (simp add: MAX_IRQ_def)
  moreover have "[0..<nat 1] = [0]" by simp
  ultimately have "mqnic_irq_init_pcie (d, s) = Some (0, d\<lparr>md_irq_count := 1, md_irq := [0 \<mapsto> ?irq]\<rparr>, ?s)"
    unfolding mqnic_irq_init_pcie_def prod.case s1(1) Let_def by (simp del: upt_Suc)
  moreover have "on_probe_world ?s" using s2(2) by simp
  ultimately show ?thesis by blast
qed

lemma pw_common:
  assumes "on_probe_world s" "md_hw_addr d = 0x10000" "md_irq d = [0 \<mapsto> irq]" "md_irq_count d = 1"
    "blank (d\<lparr>md_irq := Map.empty\<rparr>)" "md_mac_count d = 0"
  shows "\<exists>e d' s'. mqnic_common_probe demo_probe_env (d, s) = Some (e, d', s')"
proof -
  let ?as = "[md_hw_addr d + REG_FW_ID, md_hw_addr d + REG_FW_VER, md_hw_addr d + REG_BOARD_ID, md_hw_addr d + REG_BOARD_VER,
          md_hw_addr d + REG_PHC_COUNT, md_hw_addr d + REG_PHC_OFFSET,
          md_hw_addr d + REG_IF_COUNT, md_hw_addr d + REG_IF_STRIDE, md_hw_addr d + REG_IF_CSR_OFFSET]"
  have v: "map probe_regs ?as = [0, 0, 0, 0, 0, 0, 1, 0, 0x10000]"
    by (simp add: assms(2) probe_regs_def REG_FW_ID_def REG_FW_VER_def REG_BOARD_ID_def REG_BOARD_VER_def REG_PHC_COUNT_def
        REG_PHC_OFFSET_def REG_IF_COUNT_def REG_IF_STRIDE_def REG_IF_CSR_OFFSET_def)
  obtain s1 where s1: "ioreads ?as s = ([0, 0, 0, 0, 0, 0, 1, 0, 0x10000], s1)" "on_probe_world s1"
    using pw_ioreads [OF assms(1), of ?as] unfolding v by blast
  let ?d1 = "d\<lparr>md_fw_id := 0, md_fw_ver := 0, md_board_id := 0, md_board_ver := 0, md_phc_count := 0, md_phc_offset := 0,
      md_phc_hw_addr := md_phc_hw_addr d, md_if_count := 1, md_if_stride := 0, md_if_csr_offset := 0x10000\<rparr>"
  have rd: "read_device (d, s) = (?d1, s1)"
    unfolding read_device_def prod.case Let_def s1(1) by simp
  have bar: "\<not> bar_too_small ?d1" by (simp add: bar_too_small_def)
  have g: "generic_steps demo_env 0 = []"
    by (simp add: generic_steps_def BOARD_ID_NETFPGA_SUME_def BOARD_ID_VCU108_def BOARD_ID_VCU118_def BOARD_ID_VCU1525_def
        BOARD_ID_ZCU106_def BOARD_ID_EXANIC_X10_def BOARD_ID_EXANIC_X25_def BOARD_ID_ADM_PCIE_9V3_def)
  have ops: "board_ops_for 0 = Generic_board_ops"
    by (simp add: board_ops_for_def BOARD_ID_AU50_def BOARD_ID_AU200_def BOARD_ID_AU250_def BOARD_ID_AU280_def BOARD_ID_FB2CG_KU15P_def)
  let ?d2 = "?d1\<lparr>md_board_ops := Some Generic_board_ops, md_mod_i2c_client_count := 0, md_i2c_bus := []\<rparr>"
  have bi: "mqnic_board_init (pe_board demo_probe_env) (?d1, s1) = (0, ?d2, s1)"
    by (simp add: mqnic_board_init_def ops mqnic_generic_board_init_def mqnic_i2c_init_def g run_steps_def demo_probe_env_def)
  have rc: "register_clock demo_probe_env (?d2, s1) = (?d2, s1)" by (simp add: register_clock_def)
  let ?d3 = "?d2\<lparr>md_dev_port_max := 0, md_dev_port_limit := int MAX_IF, md_if_count := min (md_if_count ?d2) (word_of_nat MAX_IF)\<rparr>"
  have n: "md_if_count ?d3 = 1" by (simp add: MAX_IF_def)
  let ?dev = "if_view ?d3" and ?hw = "md_hw_addr ?d3 + ucast (word_of_nat 0 * md_if_stride ?d3)" and ?m = "length (trace s1)"
  have hw: "?hw = 0x10000" by (simp add: assms(2))
  have vw: "ifd_irq ?dev = [irq]" "ifd_dev_port_max ?dev = 0" "ifd_mac_count ?dev = 0" "ifd_csr_offset ?dev = 0x10000"
    using assms(3,4,6) by (simp_all add: if_view_def List.map_filter_def)
  note z = pw_kzalloc [OF s1(2)]
  have io: "w_ioread (emit (Kalloc ?m) s1) = (\<lambda>_. probe_regs)" using pw_fields(2) [OF s1(2)] by simp
  have us: "if_usable (fst (read_interface ?dev ?m 0 0x10000 (emit (Kalloc ?m) s1)))"
    unfolding read_interface_def Let_def case_prod_unfold ioreads_const [OF io] if_usable_def vw(4)
    by (simp add: probe_regs_def IF_REG_IF_ID_def IF_REG_IF_FEATURES_def IF_REG_EVENT_QUEUE_COUNT_def IF_REG_EVENT_QUEUE_OFFSET_def
        IF_REG_TX_QUEUE_COUNT_def IF_REG_TX_QUEUE_OFFSET_def IF_REG_TX_CPL_QUEUE_COUNT_def IF_REG_TX_CPL_QUEUE_OFFSET_def
        IF_REG_RX_QUEUE_COUNT_def IF_REG_RX_QUEUE_OFFSET_def IF_REG_RX_CPL_QUEUE_COUNT_def IF_REG_RX_CPL_QUEUE_OFFSET_def
        IF_REG_PORT_COUNT_def IF_REG_PORT_OFFSET_def IF_REG_PORT_STRIDE_def MAX_EVENT_RINGS_def MAX_PORTS_def MAX_TX_RINGS_def
        MAX_TX_CPL_RINGS_def MAX_RX_RINGS_def MAX_RX_CPL_RINGS_def min_def del: list.map)
  obtain i nd s2 where c: "mqnic_create_interface ref_valid_ether [2, 0, 0, 0, 0, 1] demo_params ?dev 0 0x10000 s1 = Some (0, Some (i, Some nd), s2)"
    using create_interface_rich [OF pw_fields(4) [OF s1(2)] demo_rich(2,3) _ _ _ z us] vw by fastforce
  let ?d4 = "?d3\<lparr>md_interface := [0 \<mapsto> (i, Some nd)], md_dev_port_max := if_dev_port_max i\<rparr>"
  have e: "md_interface ?d3 = Map.empty" using assms(5) by (simp add: blank_def)
  have "probe_create_if demo_probe_env 0 (?d3, s1) = Some (0, ?d4, s2)"
    unfolding probe_create_if_def prod.case hw using c e by (simp add: demo_probe_env_def demo_env_def)
  then have ef: "efold (probe_create_if demo_probe_env) [0..<unat (md_if_count ?d3)] (?d3, s1) = Some (0, ?d4, s2)"
    unfolding n by simp
  have n4: "md_if_count ?d4 = 1" using n by simp
  obtain d5 where p5: "ofold pass_i2c_client [0..<unat (md_if_count ?d4)] ?d4 = Some d5"
    unfolding n4 by (simp add: pass_i2c_client_def Let_def)
  obtain q s3 where q: "kget ''misc_register'' [] (\<lambda>r. r = 0) (\<lambda>_. MiscDev) s2 = (q, s3)" by force
  obtain x :: res where True by simp
  have a: "dev_acct (bal (trace s1) x) x (?d3, s1)"
    using assms(5) by (simp add: dev_acct_def blank_def ifs_ok_def own_ifs_def own_buses_def)
  have "dev_acct (bal (trace s1) x) x (?d4, s2)"
    using create_ifs_acct [OF ef a] e n by (simp add: MAX_IF_def)
  from pass_clients_acct [OF p5 this] have "dev_acct (bal (trace s1) x + (bal (trace s3) x - bal (trace s2) x)) x (d5, s3)"
    by (simp add: dev_acct_def)
  then obtain w where u: "common_undo (d5, s3) = Some w" using common_undo_acct by blast
  show ?thesis
    unfolding mqnic_common_probe_def rd Let_def prod.case
    using bar bi rc ef p5 q u by (cases w) (simp add: Let_def)
qed

lemma pw_ioremap: "on_probe_world s \<Longrightarrow> \<exists>s'. pci_ioremap_bar b s = (0x10000, s') \<and> on_probe_world s'"
  by (drule pw_kget [of _ "''pci_ioremap_bar''" "[b]" "\<lambda>v. (word_of_int v :: addr) \<noteq> 0" "\<lambda>v. IoMap (uint (word_of_int v :: addr))"])
    (auto simp: pci_ioremap_bar_def probe_answers_def)

lemma pw_bars:
  assumes "on_probe_world s"
  shows "\<exists>s'. map_bars (read_bars (zero_dev\<lparr>md_id := i, md_name := n\<rparr>, s)) =
    (0, zero_dev\<lparr>md_id := i, md_name := n, md_hw_addr := 0x10000\<rparr>, s') \<and> on_probe_world s'"
proof -
  let ?d = "zero_dev\<lparr>md_id := i, md_name := n\<rparr>"
  have a: "probe_answers ''pci_resource_len'' = 0" "probe_answers ''pci_resource_start'' = 0" by (simp_all add: probe_answers_def)
  have "\<exists>s'. read_bars (?d, s) = (?d, s') \<and> on_probe_world s'"
    by (simp add: read_bars_def Let_def pw_kcall assms a zero_dev_def)
  then obtain s1 where s1: "read_bars (?d, s) = (?d, s1)" "on_probe_world s1" by blast
  obtain s2 where "pci_ioremap_bar 0 s1 = (0x10000, s2)" "on_probe_world s2" using pw_ioremap [OF s1(2)] by blast
  then show ?thesis unfolding s1(1) by (simp add: map_bars_def zero_dev_def)
qed

lemma pw_probe: "\<exists>e d ids s. mqnic_pci_probe demo_probe_env [] probe_world = Some (e, d, ids, s)"
proof -
  let ?f = "''devm_kzalloc''"
  have w0: "on_probe_world probe_world" by (simp add: on_probe_world_def)
  have ans: "probe_answers ?f = 1" "probe_answers ''pci_enable_device_mem'' = 0" "probe_answers ''dma_set_mask_and_coherent'' = 0"
    "probe_answers ''pci_request_regions'' = 0" by (simp_all add: probe_answers_def)
  have k1: "kcall ?f [0] probe_world = (1, emit (KCall ?f [0]) probe_world)" using pw_kcall [OF w0] ans by simp
  obtain d1 ids1 where as: "mqnic_assign_id zero_dev [] = Some (d1, ids1)"
    by (simp add: mqnic_assign_id_def mqnic_get_free_id_def get_free_id_from.simps)
  obtain i n where d1: "d1 = zero_dev\<lparr>md_id := i, md_name := n\<rparr>" using assign_id_new [OF as] by blast
  have w1: "on_probe_world (kvoid ''pci_disable_link_state'' [] (emit (KCall ?f [0]) probe_world))" using w0 by simp
  obtain s2 where s2: "kget ''pci_enable_device_mem'' [] (\<lambda>r. r = 0) (\<lambda>_. PciEnabled)
      (kvoid ''pci_disable_link_state'' [] (emit (KCall ?f [0]) probe_world)) = (0, s2)" "on_probe_world s2"
    using pw_kget [OF w1] ans by metis
  obtain s3 where s3: "set_dma_mask s2 = (0, s3)" "on_probe_world s3"
    using pw_kcall [OF s2(2)] ans s2(2) by (simp add: set_dma_mask_def)
  have w3: "on_probe_world (kvoid ''dma_set_max_seg_size'' [32] s3)" using s3(2) by simp
  obtain s4 where s4: "kget ''pci_request_regions'' [] (\<lambda>r. r = 0) (\<lambda>_. PciRegions) (kvoid ''dma_set_max_seg_size'' [32] s3) = (0, s4)"
    "on_probe_world s4" using pw_kget [OF w3] ans by metis
  let ?s5 = "emit (KCall ?f [1024]) s4"
  have k5: "kcall ?f [1024] s4 = (1, ?s5)" "on_probe_world ?s5" using pw_kcall [OF s4(2)] s4(2) ans by simp_all
  let ?d = "zero_dev\<lparr>md_id := i, md_name := n, md_hw_addr := 0x10000\<rparr>"
  obtain s6 where s6: "map_bars (read_bars (d1, ?s5)) = (0, ?d, s6)" "on_probe_world s6"
    using pw_bars [OF k5(2)] unfolding d1 by blast
  let ?s7 = "emit (Ioread32 0x10000 0) s6"
  have r: "ioread32 (md_hw_addr ?d) s6 = (0, ?s7)" "on_probe_world ?s7"
    using pw_ioread [OF s6(2), of "0x10000"] s6(2) by (simp_all add: probe_regs_def)
  obtain irq s8 where s8: "mqnic_irq_init_pcie (?d, ?s7) = Some (0, ?d\<lparr>md_irq_count := 1, md_irq := [0 \<mapsto> irq]\<rparr>, s8)" "on_probe_world s8"
    using pw_irqs [OF r(2), of ?d] by (auto simp: zero_dev_def)
  let ?d8 = "?d\<lparr>md_irq_count := 1, md_irq := [0 \<mapsto> irq]\<rparr>" and ?s9 = "emit (KGet PciMaster) (kvoid ''pci_set_master'' [] s8)"
  have "on_probe_world ?s9" using s8(2) by simp
  from pw_common [OF this, of ?d8 irq] obtain e d' s' where c: "mqnic_common_probe demo_probe_env (?d8, ?s9) = Some (e, d', s')"
    by (auto simp: zero_dev_def blank_def)
  have "\<exists>e d ids s. probe_mapped demo_probe_env (?d, ids1, s6) = Some (e, d, ids, s)"
    unfolding probe_mapped_def prod.case r(1) using s8(1) c by (cases "fail_common (d', ids1, s')") simp
  then show ?thesis
    unfolding mqnic_pci_probe_def k1 prod.case using as s2(1) s3(1) s4(1) k5(1) s6(1) by simp
qed


text \<open>If the shared memory cannot be allocated, the probe returns without undoing anything: the PCI device stays
  enabled, its regions reserved, and the list keeps the number of a device whose memory the kernel frees.\<close>

theorem probe_shared_memory_leak:
  assumes "\<And>h f a. w_kcall s h f a = of_bool (f = ''devm_kzalloc'' \<and> a = [0])" "set ids \<noteq> UNIV"
  shows "\<exists>d s'. mqnic_pci_probe env ids s = Some (- ENOMEM, d, ids @ [md_id d], s') \<and>
    bal (trace s') (Held PciEnabled) = bal (trace s) (Held PciEnabled) + 1 \<and>
    bal (trace s') (Held PciRegions) = bal (trace s) (Held PciRegions) + 1"
proof -
  obtain i where i: "mqnic_get_free_id ids = Some i" using get_free_id_least [OF assms(2)] by blast
  show ?thesis
    by (simp add: mqnic_pci_probe_def mqnic_assign_id_def i kcall_def kget_def kvoid_def set_dma_mask_def Let_def assms(1))
qed

theorem probe_shared_memory_leak_witness:
  "\<exists>d s'. mqnic_pci_probe demo_probe_env [0, 1] (quiet_world\<lparr>w_kcall := \<lambda>_ f a. of_bool (f = ''devm_kzalloc'' \<and> a = [0])\<rparr>) =
      Some (- ENOMEM, d, [0, 1] @ [md_id d], s') \<and> bal (trace s') (Held PciRegions) = 1"
proof -
  let ?s = "quiet_world\<lparr>w_kcall := \<lambda>_ f a. of_bool (f = ''devm_kzalloc'' \<and> a = [0])\<rparr>"
  have "set [0, 1] \<noteq> (UNIV :: u32 set)" by (rule few_ids) simp
  from probe_shared_memory_leak [of ?s "[0, 1]" demo_probe_env, OF _ this]
  obtain d s' where "mqnic_pci_probe demo_probe_env [0, 1] ?s = Some (- ENOMEM, d, [0, 1] @ [md_id d], s')"
    "bal (trace s') (Held PciRegions) = bal (trace ?s) (Held PciRegions) + 1" by auto
  then show ?thesis by (auto simp: quiet_world_def)
qed

text \<open>With fewer than 2^32 devices listed the search for a number ends, with the least one no device has.\<close>

theorem free_id_least:
  assumes "length ids < 2 ^ 32"
  shows "\<exists>i. mqnic_get_free_id ids = Some i \<and> i \<notin> set ids \<and> (\<forall>j<i. j \<in> set ids)"
  by (rule get_free_id_least [OF few_ids [OF assms]])

theorem free_id_least_witness: "mqnic_get_free_id [1, 0, 3] = Some 2"
proof -
  obtain i where i: "mqnic_get_free_id [1, 0, 3] = Some i" "i \<notin> set [1, 0, 3]" "\<forall>j<i. j \<in> set [1, 0, 3]"
    using free_id_least [of "[1, 0, 3]"] by auto
  have "unat i \<le> 2" using i(3) [rule_format, of 2] by (cases "2 < i") (simp_all add: not_less word_le_nat_alt)
  moreover have "unat i \<noteq> 0" "unat i \<noteq> 1" using i(2) by (auto simp: word_unat_eq_iff)
  ultimately have "i = 2" by (simp add: word_unat_eq_iff)
  with i(1) show ?thesis by simp
qed

text \<open>The check of the BAR size multiplies in 32 bits: four interfaces of a gigabyte each pass it for any BAR.\<close>

lemma bar_check_wraps:
  "md_if_count d = 4 \<Longrightarrow> md_if_stride d = 0x40000000 \<Longrightarrow> \<not> bar_too_small d"
  by (simp add: bar_too_small_def)

end
