(* ===== verification/Fdsm.thy ===== *)
theory Fdsm
  imports Kernel
begin

text \<open>
  The messaging layer between the two nodes (\<open>modules/mqnic/mqnic_main_fdsm.c\<close>). What the file takes from
  headers that are not in the repository is in \<open>fdsm_env\<close>; the functions it calls there, and those of the
  kernel, answer from the history. A structure is known by the handle of its memory, and \<open>fe_junk\<close> is what
  the allocator leaves in fresh memory. A null pointer, an index out of range and \<open>BUG_ON\<close> are faults.
\<close>

record send_work =
  sw_addr :: u64
  sw_dma_addr :: u64
  sw_length :: u64
  sw_mapped :: bool
  sw_from_buffer :: bool
  sw_done :: bool

record queue =
  q_tail :: int
  q_head :: int
  q_size :: int
  q_nr_entries :: int
  q_work_list :: "nat list"

record fdsm =
  f_send_queue :: "queue option"
  f_recv_queue :: "queue option"
  f_works :: "nat \<Rightarrow> send_work option"
  f_send_work_pool :: "nat list"
  f_xdma_work_pool :: "nat list"
  f_base_index :: nat
  f_page_ix :: nat
  f_KV :: "int list"
  f_dma_addr_base :: "u64 list"

record fdsm_env =
  fe_msg_size :: u64
  fe_base_addr :: u64
  fe_base_dma :: u64
  fe_sink_address :: u64
  fe_sink_dma_address :: u64
  fe_slot_size :: u64
  fe_lsb_mask :: u64
  fe_page_size :: u64
  fe_chunk_size :: u64
  fe_chunk_start :: "u64 list"
  fe_send_depth :: nat
  fe_recv_depth :: nat
  fe_slots :: nat
  fe_to_device :: int
  fe_from_device :: int
  fe_page :: int
  fe_kmsg :: int
  fe_arm64 :: bool
  fe_stat :: bool
  fe_irq :: int
  fe_junk :: send_work

abbreviation (input) ETIME :: int where "ETIME \<equiv> 62"

section \<open>Sending\<close>

text \<open>
  The next buffer of the send ring. The ring takes a tail of \<open>- 1\<close> for one step before its first entry.
\<close>

definition get_send_work :: "int \<Rightarrow> fdsm \<Rightarrow> (nat \<times> fdsm) option" where
  "get_send_work index f = do {
     q \<leftarrow> f_send_queue f;
     let q = (if index = q_nr_entries q then q\<lparr>q_tail := - 1\<rparr> else q);
     if q_nr_entries q = 0 then None
     else let t = (q_tail q + 1) mod q_nr_entries q
       in if 0 \<le> t \<and> nat t < length (q_work_list q)
          then Some (q_work_list q ! nat t, f\<lparr>f_send_queue := Some (q\<lparr>q_tail := t\<rparr>)\<rparr>) else None }"

definition put_hdma_send_work :: "nat \<Rightarrow> fdsm \<times> sys \<Rightarrow> (fdsm \<times> sys) option" where
  "put_hdma_send_work w = (\<lambda>(f, s). do {
     work \<leftarrow> f_works f w;
     let s = (if sw_mapped work then kvoid ''dma_unmap_single'' [uint (sw_dma_addr work), uint (sw_length work)] s else s);
     let s = (if sw_from_buffer work then
          if sw_mapped work then kvoid ''kfree'' [uint (sw_addr work)] s
          else kvoid ''ring_buffer_put'' [uint (sw_addr work)] s
        else s);
     Some (f\<lparr>f_send_work_pool := w # f_send_work_pool f\<rparr>, s) })"

definition process_sent :: "nat \<Rightarrow> fdsm \<Rightarrow> sys \<Rightarrow> sys option" where
  "process_sent w f s = do {
     work \<leftarrow> f_works f w;
     Some (if sw_done work then kvoid ''complete'' [int w] s else s) }"

text \<open>The tail of the send queue, which the callers pass to \<open>get_send_work\<close>.\<close>

definition next_work :: "fdsm \<Rightarrow> (nat \<times> fdsm) option" where
  "next_work f = do { q \<leftarrow> f_send_queue f; get_send_work (q_tail q) f }"

definition hdma_kmsg_get :: "u64 \<Rightarrow> fdsm \<Rightarrow> (u64 \<times> fdsm) option" where
  "hdma_kmsg_get sz f = do { (w, f) \<leftarrow> next_work f; work \<leftarrow> f_works f w; Some (sw_addr work, f) }"

definition config_descriptors_bypass :: "u64 \<Rightarrow> u64 \<Rightarrow> int \<Rightarrow> int \<Rightarrow> sys \<Rightarrow> int \<times> sys" where
  "config_descriptors_bypass dma sz dir kind s = kcall ''config_descriptors_bypass'' [uint dma, uint sz, dir, kind] s"

definition update_hdma_index :: "fdsm_env \<Rightarrow> u64 \<Rightarrow> u64 \<Rightarrow> sys \<Rightarrow> sys" where
  "update_hdma_index env dma sz s = snd (config_descriptors_bypass dma sz (fe_from_device env) (fe_page env) s)"

definition hdma_kmsg_put :: "u64 \<Rightarrow> sys \<Rightarrow> sys" where
  "hdma_kmsg_put msg s = s"

definition hdma_kmsg_done :: "u64 \<Rightarrow> sys \<Rightarrow> sys" where
  "hdma_kmsg_done msg s = s"

definition hdma_kmsg_stat :: "fdsm_env \<Rightarrow> int \<Rightarrow> int \<Rightarrow> sys \<Rightarrow> sys" where
  "hdma_kmsg_stat env seq peak_usage s = (if seq \<noteq> 0 then
     case kcall ''ring_buffer_usage'' [] s of (u, s) \<Rightarrow>
       kvoid ''seq_printf'' [seq, u, if fe_stat env then peak_usage else 0] s
     else s)"

text \<open>Programming one message and starting its transfer.\<close>

definition transfer_msg :: "fdsm_env \<Rightarrow> u64 \<Rightarrow> sys \<Rightarrow> int \<times> sys" where
  "transfer_msg env dma s = (case config_descriptors_bypass dma (fe_msg_size env) (fe_to_device env) (fe_kmsg env) s of (_, s) \<Rightarrow>
     kcall ''hdma_transfer'' [fe_to_device env] s)"

definition hdma_kmsg_post :: "fdsm_env \<Rightarrow> u64 \<Rightarrow> u64 \<Rightarrow> sys \<Rightarrow> int \<times> sys" where
  "hdma_kmsg_post env msg sz s = (case kcall ''radix_tree_lookup'' [uint msg] s of (d, s) \<Rightarrow>
     let dma = word_of_int d :: u64
     in (0, if dma \<noteq> 0 then snd (transfer_msg env dma s) else s))"

definition hdma_kmsg_send :: "fdsm_env \<Rightarrow> u64 \<Rightarrow> u64 \<Rightarrow> fdsm \<times> sys \<Rightarrow> (int \<times> fdsm \<times> sys) option" where
  "hdma_kmsg_send env msg sz = (\<lambda>(f, s). do {
     (w, f) \<leftarrow> next_work f;
     work \<leftarrow> f_works f w;
     let s = kvoid ''memcpy'' [uint (sw_addr work), uint msg, uint sz] s;
     let f = f\<lparr>f_works := (f_works f)(w \<mapsto> work\<lparr>sw_done := True\<rparr>)\<rparr>;
     let (ret, s) = transfer_msg env (sw_dma_addr work) s;
     s \<leftarrow> process_sent w f s;
     let (t, s) = kcall ''try_wait_for_completion'' [int w] s;
     if t \<noteq> 0 then Some (0, f, s)
     else case kcall ''wait_for_completion_io_timeout'' [int w] s of (ret, s) \<Rightarrow>
       if ret = 0 then do { (f, s) \<leftarrow> put_hdma_send_work w (f, s); Some (- ETIME, f, s) }
       else Some (0, f, s) })"

section \<open>Pages\<close>

record hdma_handle =
  hh_mem :: nat
  hh_addr :: u64
  hh_dma_addr :: u64
  hh_flags :: nat

definition hdma_kmsg_pin_buffer :: "fdsm_env \<Rightarrow> fdsm \<times> sys \<Rightarrow> (hdma_handle \<times> fdsm \<times> sys) option" where
  "hdma_kmsg_pin_buffer env = (\<lambda>(f, s). case kzalloc s of (p, s) \<Rightarrow> do {
     m \<leftarrow> p;
     let i = f_page_ix f;
     let h = \<lparr>hh_mem = m, hh_addr = fe_sink_address env + fe_slot_size env * word_of_nat i,
          hh_dma_addr = fe_sink_dma_address env + fe_slot_size env * word_of_nat i, hh_flags = i\<rparr>;
     if i < length (f_KV f)
     then Some (h, f\<lparr>f_KV := (f_KV f)[i := 1], f_page_ix := i + 1\<rparr>,
            update_hdma_index env (hh_dma_addr h) (fe_page_size env) s)
     else None })"

definition hdma_kmsg_unpin_buffer :: "hdma_handle \<Rightarrow> fdsm \<times> sys \<Rightarrow> (fdsm \<times> sys) option" where
  "hdma_kmsg_unpin_buffer h = (\<lambda>(f, s).
     if hh_flags h < length (f_KV f) \<and> f_KV f ! hh_flags h \<noteq> 0
     then Some (f\<lparr>f_KV := (f_KV f)[hh_flags h := 0]\<rparr>, emit (Kfree (hh_mem h)) s) else None)"

text \<open>A second mapping when the low bits of the first are zero.\<close>

definition map_page :: "u64 \<Rightarrow> u64 \<Rightarrow> sys \<Rightarrow> (u64 \<times> int) \<times> sys" where
  "map_page a sz s = (case kcall ''dma_map_single'' [uint a, uint sz] s of (d, s) \<Rightarrow>
     case kcall ''dma_mapping_error'' [d] s of (e, s) \<Rightarrow> ((word_of_int d, e), s))"

definition hdma_kmsg_write :: "fdsm_env \<Rightarrow> u64 \<Rightarrow> u64 \<Rightarrow> u64 \<Rightarrow> sys \<Rightarrow> (int \<times> sys) option" where
  "hdma_kmsg_write env raddr a sz s = (case map_page a sz s of ((dma, ret), s) \<Rightarrow>
     case (if (ucast (dma AND fe_lsb_mask env) :: u32) = 0 then map_page a sz s else ((dma, ret), s)) of ((dma, ret), s) \<Rightarrow>
       if ret \<noteq> 0 then None
       else case kcall ''__get_hdma_work'' [uint dma, uint a, uint sz, uint raddr] s of (xw, s) \<Rightarrow>
         if xw = 0 then None
         else case kcall ''xw->dma_addr'' [xw] s of (d, s) \<Rightarrow>
           case config_descriptors_bypass (word_of_int d) sz (fe_to_device env) (fe_page env) s of (_, s) \<Rightarrow>
           case kcall ''hdma_transfer'' [fe_to_device env] s of (ret, s) \<Rightarrow>
             Some (ret, kvoid ''__put_hdma_work'' [xw] (kvoid ''dma_unmap_single'' [uint dma, uint sz] s)))"

definition hdma_kmsg_read :: int where
  "hdma_kmsg_read = - EPERM"

section \<open>Setting up\<close>

definition setup_irq_handler :: "fdsm_env \<Rightarrow> sys \<Rightarrow> int \<times> sys" where
  "setup_irq_handler env s = kcall ''request_irq'' [fe_irq env] s"

text \<open>Mapping the chunks of the ring buffer, and filling the pool of work structures.\<close>

fun map_chunks :: "fdsm_env \<Rightarrow> nat list \<Rightarrow> fdsm \<times> sys \<Rightarrow> int \<times> fdsm \<times> sys" where
  "map_chunks env [] (f, s) = (0, f, s)"
| "map_chunks env (i # is) (f, s) = (case map_page (fe_chunk_start env ! i) (fe_chunk_size env) s of ((d, e), s) \<Rightarrow>
     if e \<noteq> 0 then (e, f, s)
     else map_chunks env is (f\<lparr>f_dma_addr_base := (f_dma_addr_base f)[i := d]\<rparr>, s))"

primrec fill_pool :: "fdsm_env \<Rightarrow> nat \<Rightarrow> fdsm \<times> sys \<Rightarrow> int \<times> fdsm \<times> sys" where
  "fill_pool env 0 w = (0, w)"
| "fill_pool env (Suc n) w = (case w of (f, s) \<Rightarrow> case kzalloc s of
       (None, s) \<Rightarrow> (- ENOMEM, f, s)
     | (Some m, s) \<Rightarrow> fill_pool env n (f\<lparr>f_works := (f_works f)(m \<mapsto> \<lparr>sw_addr = 0, sw_dma_addr = 0, sw_length = 0,
         sw_mapped = False, sw_from_buffer = False, sw_done = False\<rparr>), f_send_work_pool := m # f_send_work_pool f\<rparr>, s))"

definition unmap_chunk :: "fdsm_env \<Rightarrow> nat \<Rightarrow> fdsm \<times> sys \<Rightarrow> fdsm \<times> sys" where
  "unmap_chunk env i = (\<lambda>(f, s). let d = f_dma_addr_base f ! i in
     if d \<noteq> 0 then (f\<lparr>f_dma_addr_base := (f_dma_addr_base f)[i := 0]\<rparr>,
       kvoid ''dma_unmap_single'' [uint d, uint (fe_chunk_size env)] s) else (f, s))"

definition ring_out_unmap :: "fdsm_env \<Rightarrow> fdsm \<times> sys \<Rightarrow> fdsm \<times> sys" where
  "ring_out_unmap env = (\<lambda>(f, s).
     let s = fold (\<lambda>m. emit (Kfree m)) (f_xdma_work_pool f) s;
         s = fold (\<lambda>m. emit (Kfree m)) (f_send_work_pool f) s;
         f = f\<lparr>f_works := (\<lambda>m. if m \<in> set (f_send_work_pool f) then None else f_works f m),
           f_xdma_work_pool := [], f_send_work_pool := []\<rparr>
     in fold (unmap_chunk env) [0..<length (fe_chunk_start env)] (f, s))"

definition setup_ring_buffer :: "fdsm_env \<Rightarrow> fdsm \<times> sys \<Rightarrow> int \<times> fdsm \<times> sys" where
  "setup_ring_buffer env = (\<lambda>(f, s). case kcall ''ring_buffer_init'' [] s of (ret, s) \<Rightarrow>
     if ret \<noteq> 0 then (ret, f, s)
     else case map_chunks env [0..<length (fe_chunk_start env)] (f, s) of (ret, w) \<Rightarrow>
       if ret \<noteq> 0 then (ret, ring_out_unmap env w)
       else case fill_pool env (fe_send_depth env) w of (ret, w) \<Rightarrow>
         if ret \<noteq> 0 then (ret, ring_out_unmap env w) else (0, w))"

text \<open>
  The entries of a queue: each takes the next piece of the message area. Allocations are not checked; the
  entries of the send queue are found again by their address.
\<close>

definition area_work :: "fdsm_env \<Rightarrow> nat \<Rightarrow> send_work" where
  "area_work env i = (fe_junk env)\<lparr>sw_addr := fe_base_addr env + fe_msg_size env * word_of_nat i,
     sw_dma_addr := fe_base_dma env + fe_msg_size env * word_of_nat i\<rparr>"

primrec setup_works :: "fdsm_env \<Rightarrow> bool \<Rightarrow> nat \<Rightarrow> fdsm \<times> sys \<Rightarrow> (nat list \<times> fdsm \<times> sys) option" where
  "setup_works env send 0 w = Some ([], w)"
| "setup_works env send (Suc n) w = (case w of (f, s) \<Rightarrow> case kzalloc s of (p, s) \<Rightarrow> do {
     m \<leftarrow> p;
     let work = area_work env (f_base_index f);
     let f = f\<lparr>f_works := (f_works f)(m \<mapsto> work), f_base_index := f_base_index f + 1\<rparr>;
     let s = (if send then snd (kcall ''radix_tree_insert'' [uint (sw_addr work), uint (sw_dma_addr work)] s) else s);
     (ms, w) \<leftarrow> setup_works env send n (f, s);
     Some (m # ms, w) })"

definition new_queue :: "nat \<Rightarrow> nat list \<Rightarrow> queue" where
  "new_queue n ms = \<lparr>q_tail = - 1, q_head = 0, q_size = 0, q_nr_entries = int n, q_work_list = ms\<rparr>"

definition setup_send_queue :: "fdsm_env \<Rightarrow> nat \<Rightarrow> fdsm \<times> sys \<Rightarrow> (queue option \<times> fdsm \<times> sys) option" where
  "setup_send_queue env n = (\<lambda>(f, s). case kzalloc s of
       (None, s) \<Rightarrow> Some (None, f, s)
     | (Some q, s) \<Rightarrow> (case kzalloc s of (p, s) \<Rightarrow>
         if p = None \<and> 0 < n then None
         else do { (ms, w) \<leftarrow> setup_works env True n (f, s); Some (Some (new_queue n ms), w) }))"

definition setup_recv_buffer :: "fdsm_env \<Rightarrow> nat \<Rightarrow> fdsm \<times> sys \<Rightarrow> (queue option \<times> fdsm \<times> sys) option" where
  "setup_recv_buffer env n = (\<lambda>(f, s). case kzalloc s of
       (None, s) \<Rightarrow> Some (None, f, s)
     | (Some q, s) \<Rightarrow> (case kzalloc s of (p, s) \<Rightarrow>
         if p = None \<and> 0 < n then None
         else do { (ms, f, s) \<leftarrow> setup_works env False n (f, s);
                   Some (Some (new_queue n ms), f, kvoid ''__update_recv_index'' [0] s) }))"

text \<open>\<open>kthread_run\<close> answers with a negative error number.\<close>

definition start_poll :: "sys \<Rightarrow> int \<times> sys" where
  "start_poll s = (case kcall ''kthread_run'' [] s of (p, s) \<Rightarrow> (if p < 0 then 1 else 0, s))"

definition fdsm_init :: "sys \<Rightarrow> int \<times> sys" where
  "fdsm_init s = kcall ''pci_register_driver'' [] s"

definition fdsm_exit :: "sys \<Rightarrow> sys" where
  "fdsm_exit s = kvoid ''pci_unregister_driver'' [] s"

text \<open>
  What follows the return of \<open>mqnic_init\<close>: the setup of the layer. Both of its labels end in \<open>fdsm_exit\<close>
  and an error; the first is also what a setup that went well falls through to.
\<close>

definition messaging_out :: "fdsm \<times> sys \<Rightarrow> int \<times> fdsm \<times> sys" where
  "messaging_out = (\<lambda>(f, s). (- EINVAL, f, fdsm_exit s))"

definition map_message_area :: "fdsm_env \<Rightarrow> sys \<Rightarrow> bool \<times> sys" where
  "map_message_area env s = (if fe_arm64 env then
     case kcall ''iommu_get_domain_for_dev'' [] s of (d, s) \<Rightarrow>
       if d = 0 then (False, s) else (True, kvoid ''domain->ops->map'' [d, uint (fe_base_dma env), uint (fe_base_addr env)] s)
     else (True, s))"

definition messaging_init :: "fdsm_env \<Rightarrow> fdsm \<times> sys \<Rightarrow> (int \<times> fdsm \<times> sys) option" where
  "messaging_init env = (\<lambda>(f, s).
     let s = kvoid ''set_popcorn_node_online'' [0, 1] (kvoid ''iowrite32'' [0] (kvoid ''pcn_kmsg_set_transport'' [] s));
         (ok, s) = map_message_area env s
     in if \<not> ok then Some (messaging_out (f, s))
        else case setup_irq_handler env s of (ret, s) \<Rightarrow>
          if ret \<noteq> 0 then Some (messaging_out (f, s))
          else case setup_ring_buffer env (f, s) of (ret, f, s) \<Rightarrow>
            if ret \<noteq> 0 then Some (messaging_out (f, s))
            else case kcall ''create_workqueue'' [] s of (wq, s) \<Rightarrow>
              if wq = 0 then Some (messaging_out (f, s))
              else do {
                (q, f, s) \<leftarrow> setup_send_queue env (fe_send_depth env) (f, s);
                let f = f\<lparr>f_send_queue := q\<rparr>;
                if q = None then Some (messaging_out (f, s))
                else do {
                  (q, f, s) \<leftarrow> setup_recv_buffer env (fe_recv_depth env) (f, s);
                  let f = f\<lparr>f_recv_queue := q\<rparr>;
                  if q = None then Some (messaging_out (f, s))
                  else
                    let f = f\<lparr>f_KV := replicate (fe_slots env) 0\<rparr>;
                        s = kvoid ''sema_init'' [int (fe_send_depth env)] (kvoid ''sema_init'' [0] s);
                        (e, s) = start_poll s
                    in Some (if e \<noteq> 0 then messaging_out (f, s) else messaging_out (f, s)) } })"

end
