(* ===== verification/FdsmProbe.thy ===== *)
theory FdsmProbe
  imports MainDrv Fdsm
begin

text \<open>
  The PCI driver of \<open>modules/mqnic/mqnic_main_fdsm.c\<close>. Numbering, the registers of a device, bringing its parts
  up and taking them down are those of \<open>mqnic_main.c\<close>, line for line, and their definitions are used here; the
  probe and the removal differ: they map and unmap BAR 2, which is the window to the other processor.
\<close>

section \<open>The window\<close>

record zynq_bar =
  zb_size :: u64
  zb_phys :: u64
  zb_addr :: addr

type_synonym fdsm_state = "zynq_bar \<times> probe_state"

definition fdsm_fail_map_bars :: "fdsm_state \<Rightarrow> fdsm_state" where
  "fdsm_fail_map_bars v = (case v of (z, d, ids, s) \<Rightarrow>
     (z, fail_regions (d, ids, kput ''pci_release_regions'' [] PciRegions
       (iounmap_if (md_ram_hw_addr d) (iounmap_if (md_app_hw_addr d) (iounmap_if (zb_addr z) (iounmap_if (md_hw_addr d) s)))))))"

definition fdsm_fail_common :: "fdsm_state \<Rightarrow> fdsm_state" where
  "fdsm_fail_common v = (case v of (z, d, ids, s) \<Rightarrow>
     case mqnic_irq_deinit_pcie (d, kput ''pci_clear_master'' [] PciMaster s) of (d, s) \<Rightarrow> fdsm_fail_map_bars (z, d, ids, s))"

definition fdsm_read_bars :: "mqnic_dev \<times> sys \<Rightarrow> zynq_bar \<times> mqnic_dev \<times> sys" where
  "fdsm_read_bars w = (case w of (d, s) \<Rightarrow>
     let (l0, s) = kcall ''pci_resource_len'' [0] s; (a0, s) = kcall ''pci_resource_start'' [0] s;
         (l2, s) = kcall ''pci_resource_len'' [2] s; (a2, s) = kcall ''pci_resource_start'' [2] s;
         (l4, s) = kcall ''pci_resource_len'' [4] s; (a4, s) = kcall ''pci_resource_start'' [4] s;
         (l5, s) = kcall ''pci_resource_len'' [5] s; (a5, s) = kcall ''pci_resource_start'' [5] s
     in (\<lparr>zb_size = word_of_int l2, zb_phys = word_of_int a2, zb_addr = 0\<rparr>,
         d\<lparr>md_hw_regs_size := word_of_int l0, md_hw_regs_phys := word_of_int a0,
           md_app_hw_regs_size := word_of_int l4, md_app_hw_regs_phys := word_of_int a4,
           md_ram_hw_regs_size := word_of_int l5, md_ram_hw_regs_phys := word_of_int a5\<rparr>, s))"

text \<open>A BAR that the device need not have.\<close>

definition map_bar :: "int \<Rightarrow> u64 \<Rightarrow> sys \<Rightarrow> addr \<times> sys" where
  "map_bar b len s = (if len \<noteq> 0 then pci_ioremap_bar b s else (0, s))"

definition fdsm_map_bars :: "zynq_bar \<times> mqnic_dev \<times> sys \<Rightarrow> int \<times> zynq_bar \<times> mqnic_dev \<times> sys" where
  "fdsm_map_bars w = (case w of (z, d, s) \<Rightarrow>
     case pci_ioremap_bar 0 s of (a, s) \<Rightarrow> let d = d\<lparr>md_hw_addr := a\<rparr> in
     if a = 0 then (- ENOMEM, z, d, s)
     else case map_bar 2 (zb_size z) s of (a, s) \<Rightarrow> let z = z\<lparr>zb_addr := a\<rparr> in
     if zb_size z \<noteq> 0 \<and> a = 0 then (- ENOMEM, z, d, s)
     else case map_bar 4 (md_app_hw_regs_size d) s of (a, s) \<Rightarrow> let d = d\<lparr>md_app_hw_addr := a\<rparr> in
     if md_app_hw_regs_size d \<noteq> 0 \<and> a = 0 then (- ENOMEM, z, d, s)
     else case map_bar 5 (md_ram_hw_regs_size d) s of (a, s) \<Rightarrow> let d = d\<lparr>md_ram_hw_addr := a\<rparr> in
     if md_ram_hw_regs_size d \<noteq> 0 \<and> a = 0 then (- ENOMEM, z, d, s) else (0, z, d, s))"

section \<open>Probe and removal\<close>

definition fdsm_probe_mapped :: "probe_env \<Rightarrow> fdsm_state \<Rightarrow> (int \<times> fdsm_state) option" where
  "fdsm_probe_mapped env v = (case v of (z, d, ids, s) \<Rightarrow>
     case ioread32 (md_hw_addr d) s of (x, s) \<Rightarrow>
     if x = 0xffffffff then Some (- EIO, fdsm_fail_map_bars (z, d, ids, s))
     else do {
       (e, d, s) \<leftarrow> mqnic_irq_init_pcie (d, s);
       (if e \<noteq> 0 then Some (e, fdsm_fail_map_bars (z, d, ids, s))
        else do {
          let s = emit (KGet PciMaster) (kvoid ''pci_set_master'' [] s);
          (e, d, s) \<leftarrow> mqnic_common_probe env (d, s);
          (if e \<noteq> 0 then Some (e, fdsm_fail_common (z, d, ids, s)) else Some (0, z, d, ids, s)) }) })"

text \<open>The probe up to the memory shared with the other processor.\<close>

definition fdsm_setup :: "u32 list \<Rightarrow> sys \<Rightarrow> (int \<times> probe_state) option" where
  "fdsm_setup ids s = (case kcall ''devm_kzalloc'' [0] s of (p, s) \<Rightarrow>
     if p = 0 then Some (- ENOMEM, zero_dev, ids, s)
     else do {
       (d, ids) \<leftarrow> mqnic_assign_id zero_dev ids;
       let s = kvoid ''pci_disable_link_state'' [] s;
       (case kget ''pci_enable_device_mem'' [] (\<lambda>r. r = 0) (\<lambda>_. PciEnabled) s of (r, s) \<Rightarrow>
        if r \<noteq> 0 then Some (r, fail_enable_device (d, ids, s))
        else case set_dma_mask s of (r, s) \<Rightarrow>
        if r \<noteq> 0 then Some (r, fail_regions (d, ids, s))
        else case kget ''pci_request_regions'' [] (\<lambda>r. r = 0) (\<lambda>_. PciRegions) (kvoid ''dma_set_max_seg_size'' [32] s) of (r, s) \<Rightarrow>
        if r \<noteq> 0 then Some (r, fail_regions (d, ids, s))
        else case kcall ''devm_kzalloc'' [1024] s of (pa_ptr, s) \<Rightarrow>
        Some (if pa_ptr = 0 then - ENOMEM else 0, d, ids, s)) })"

definition fdsm_pci_probe :: "probe_env \<Rightarrow> u32 list \<Rightarrow> sys \<Rightarrow> (int \<times> fdsm_state) option" where
  "fdsm_pci_probe env ids s = do {
     (e, d, ids, s) \<leftarrow> fdsm_setup ids s;
     (if e \<noteq> 0 then Some (e, \<lparr>zb_size = 0, zb_phys = 0, zb_addr = 0\<rparr>, d, ids, s)
      else case fdsm_map_bars (fdsm_read_bars (d, s)) of (e, z, d, s) \<Rightarrow>
        if e \<noteq> 0 then Some (e, fdsm_fail_map_bars (z, d, ids, s)) else fdsm_probe_mapped env (z, d, ids, s)) }"

definition fdsm_pci_remove :: "fdsm_state \<Rightarrow> fdsm_state option" where
  "fdsm_pci_remove v = (case v of (z, d, ids, s) \<Rightarrow> do {
     (d, s) \<leftarrow> mqnic_common_remove (d, s);
     Some (fdsm_fail_common (z, d, ids, s)) })"

definition fdsm_pci_shutdown :: "fdsm_state \<Rightarrow> fdsm_state option" where
  "fdsm_pci_shutdown v = fdsm_pci_remove v"

section \<open>What differs from the driver without the window\<close>

text \<open>Each step is that of the other driver, after which the window has been given back as well.\<close>

lemma fdsm_unmaps:
  assumes "fail_map_bars (d, ids, s) = (d', ids', t)"
  shows "\<exists>s'. fdsm_fail_map_bars (z, d, ids, s) = (z, d', ids', s') \<and> bal (trace s') x = bal (trace t) x - own_bar x (zb_addr z)"
  using assms by (auto simp: fail_map_bars_def fdsm_fail_map_bars_def fail_regions_def fail_enable_device_def)

lemma fdsm_common_unmaps:
  assumes "fail_common (d, ids, s) = (d', ids', t)"
  shows "\<exists>s'. fdsm_fail_common (z, d, ids, s) = (z, d', ids', s') \<and> bal (trace s') x = bal (trace t) x - own_bar x (zb_addr z)"
  using assms fdsm_unmaps by (auto simp: fail_common_def fdsm_fail_common_def split: prod.splits)

lemma fdsm_probe_mapped_sim:
  assumes "fdsm_probe_mapped env (z, d, ids, s) = Some (e, z', d', ids', s')"
  shows "z' = z \<and> (\<exists>t. probe_mapped env (d, ids, s) = Some (e, d', ids', t) \<and>
    (if e = 0 then t = s' else bal (trace s') x = bal (trace t) x - own_bar x (zb_addr z)))"
proof -
  have f: "z' = z \<and> (\<exists>t. fail_map_bars (a, ids, b) = (d', ids', t) \<and> bal (trace s') x = bal (trace t) x - own_bar x (zb_addr z))"
    if "fdsm_fail_map_bars (z, a, ids, b) = (z', d', ids', s')" for a b
    using that fdsm_unmaps [of a ids b _ _ _ z x] by (cases "fail_map_bars (a, ids, b)") fastforce
  have g: "z' = z \<and> (\<exists>t. fail_common (a, ids, b) = (d', ids', t) \<and> bal (trace s') x = bal (trace t) x - own_bar x (zb_addr z))"
    if "fdsm_fail_common (z, a, ids, b) = (z', d', ids', s')" for a b
    using that fdsm_common_unmaps [of a ids b _ _ _ z x] by (cases "fail_common (a, ids, b)") fastforce
  have "EIO \<noteq> 0" by simp
  with assms show ?thesis
    by (auto simp: fdsm_probe_mapped_def probe_mapped_def Let_def split: prod.splits Option.bind_splits if_splits dest!: f g)
qed

lemma map_bar_bal: "map_bar b len s = (a, s') \<Longrightarrow> bal (trace s') x = bal (trace s) x + own_bar x a"
  using ioremap_bal [of b s a s' x] by (auto simp: map_bar_def own_bar_def split: if_splits)


lemma fdsm_map_bars_acct:
  assumes "fdsm_map_bars (z, d, s) = (e, z', d', s')" "zb_addr z = 0" "md_app_hw_addr d = 0" "md_ram_hw_addr d = 0"
  shows "bal (trace s') x = bal (trace s) x + own_bars x d' + own_bar x (zb_addr z') \<and> blank d' = blank d \<and> md_id d' = md_id d"
proof -
  obtain a1 s1 where m1: "pci_ioremap_bar 0 s = (a1, s1)" by force
  obtain a2 s2 where m2: "map_bar 2 (zb_size z) s1 = (a2, s2)" by force
  obtain a3 s3 where m3: "map_bar 4 (md_app_hw_regs_size d) s2 = (a3, s3)" by force
  obtain a4 s4 where m4: "map_bar 5 (md_ram_hw_regs_size d) s3 = (a4, s4)" by force
  note b = ioremap_bal [OF m1, of x] map_bar_bal [OF m2, of x] map_bar_bal [OF m3, of x] map_bar_bal [OF m4, of x]
  have z: "own_bar x 0 = 0" by (simp add: own_bar_def)
  let ?z = "z\<lparr>zb_addr := a2\<rparr>" and ?d = "d\<lparr>md_hw_addr := a1, md_app_hw_addr := a3\<rparr>"
  consider "a1 = 0" | "a1 \<noteq> 0" "zb_size z \<noteq> 0 \<and> a2 = 0" | "a1 \<noteq> 0" "\<not> (zb_size z \<noteq> 0 \<and> a2 = 0)" "md_app_hw_regs_size d \<noteq> 0 \<and> a3 = 0"
    | "a1 \<noteq> 0" "\<not> (zb_size z \<noteq> 0 \<and> a2 = 0)" "\<not> (md_app_hw_regs_size d \<noteq> 0 \<and> a3 = 0)" by blast
  then show ?thesis
  proof cases
    case 1
    with assms m1 b z show ?thesis by (auto simp: fdsm_map_bars_def own_bars_def blank_def)
  next
    case 2
    with assms m1 m2 b z show ?thesis by (auto simp: fdsm_map_bars_def Let_def own_bars_def blank_def)
  next
    case 3
    then have "(e, z', d', s') = (- ENOMEM, ?z, ?d, s3)" using assms(1) m1 m2 m3 by (simp add: fdsm_map_bars_def Let_def split: if_splits)
    with b z 3 assms(4) show ?thesis by (simp add: own_bars_def blank_def)
  next
    case 4
    then have "d' = ?d\<lparr>md_ram_hw_addr := a4\<rparr> \<and> z' = ?z \<and> s' = s4"
      using assms(1) m1 m2 m3 m4 by (simp add: fdsm_map_bars_def Let_def split: if_splits)
    with b show ?thesis by (simp add: own_bars_def blank_def)
  qed
qed

lemma fdsm_read_bars_acct:
  "fdsm_read_bars (d, s) = (z, d', s') \<Longrightarrow> bal (trace s') x = bal (trace s) x \<and> blank d' = blank d \<and> md_id d' = md_id d \<and>
     zb_addr z = 0 \<and> md_app_hw_addr d' = md_app_hw_addr d \<and> md_ram_hw_addr d' = md_ram_hw_addr d"
  by (auto simp: fdsm_read_bars_def kcall_def Let_def blank_def)

lemma fdsm_setup_acct:
  assumes "fdsm_setup ids s = Some (e, d, ids', s')" "\<And>h. w_kcall s h ''devm_kzalloc'' [1024] \<noteq> 0"
  shows "if e = 0 then remove1 (md_id d) ids' = ids \<and> blank d \<and> md_app_hw_addr d = 0 \<and> md_ram_hw_addr d = 0 \<and>
      bal (trace s') x = bal (trace s) x + own_pci x
    else ids' = ids \<and> bal (trace s') x = bal (trace s) x"
proof -
  obtain p s1 where k1: "kcall ''devm_kzalloc'' [0] s = (p, s1)" by force
  note b1 = bal_kcall [OF k1, of x]
  show ?thesis
  proof (cases "p = 0")
    case True
    with assms(1) k1 b1 show ?thesis by (auto simp: fdsm_setup_def)
  next
    case n1: False
    from assms(1) k1 n1 obtain d1 ids1 where a: "mqnic_assign_id zero_dev ids = Some (d1, ids1)"
      by (auto simp: fdsm_setup_def split: Option.bind_splits)
    note i = assign_id_new [OF a]
    have z: "blank d1" "md_app_hw_addr d1 = 0" "md_ram_hw_addr d1 = 0" using i by (auto simp: zero_dev_def blank_def)
    have rm: "remove1 (md_id d1) ids1 = ids" using i remove1_last by metis
    obtain r2 s2 where k2: "kget ''pci_enable_device_mem'' [] (\<lambda>r. r = 0) (\<lambda>_. PciEnabled) (kvoid ''pci_disable_link_state'' [] s1) = (r2, s2)" by force
    note b2 = bal_kget [OF k2, of x]
    obtain r3 s3 where k3: "set_dma_mask s2 = (r3, s3)" by force
    have b3: "bal (trace s3) x = bal (trace s2) x"
      using k3 by (auto simp: set_dma_mask_def kcall_def split: if_splits)
    obtain r4 s4 where k4: "kget ''pci_request_regions'' [] (\<lambda>r. r = 0) (\<lambda>_. PciRegions) (kvoid ''dma_set_max_seg_size'' [32] s3) = (r4, s4)" by force
    note b4 = bal_kget [OF k4, of x]
    obtain r5 s5 where k5: "kcall ''devm_kzalloc'' [1024] s4 = (r5, s5)" by force
    note b5 = bal_kcall [OF k5, of x]
    have "w_kcall s4 = w_kcall s"
      using k1 k2 k3 k4 by (auto simp: kcall_def kget_def kvoid_def set_dma_mask_def Let_def split: if_splits)
    then have "r5 \<noteq> 0" using k5 assms(2) by (auto simp: kcall_def)
    with assms(1) k1 n1 a k2 k3 k4 k5 b1 b2 b3 b4 b5 rm z show ?thesis
      by (auto simp: fdsm_setup_def fail_regions_def fail_enable_device_def mqnic_free_id_def own_pci_def split: if_splits)
  qed
qed

text \<open>Removal never faults, and gives the window back with all the rest.\<close>

lemma fdsm_remove_acct:
  assumes "up_acct (c + own_bar x (zb_addr z)) x (d, s)"
  shows "\<exists>d' s'. fdsm_pci_remove (z, d, ids, s) = Some (z, d', remove1 (md_id d) ids, s') \<and> bal (trace s') x = c"
proof -
  from pci_remove_acct [OF assms, of ids] obtain d' t where r: "mqnic_pci_remove (d, ids, s) = Some (d', remove1 (md_id d) ids, t)"
    and b: "bal (trace t) x = c + own_bar x (zb_addr z)" by blast
  from r obtain d1 s1 where "mqnic_common_remove (d, s) = Some (d1, s1)" "fail_common (d1, ids, s1) = (d', remove1 (md_id d) ids, t)"
    by (auto simp: mqnic_pci_remove_def split: Option.bind_splits)
  with fdsm_common_unmaps [OF this(2), of z x] b show ?thesis by (auto simp: fdsm_pci_remove_def)
qed

text \<open>
  As for the other driver: when the shared memory can be allocated, a probe fails and gives everything back, or
  succeeds, and removing the device gives everything back.
\<close>

theorem fdsm_probe_all_or_nothing:
  assumes "fdsm_pci_probe env ids s = Some (e, z, d, ids', s')" "\<And>h. w_kcall s h ''devm_kzalloc'' [1024] \<noteq> 0"
  shows "if e = 0 then \<exists>d' s''. fdsm_pci_remove (z, d, ids', s') = Some (z, d', ids, s'') \<and> bal (trace s'') x = bal (trace s) x
    else ids' = ids \<and> bal (trace s') x = bal (trace s) x"
proof -
  from assms(1) obtain e1 d1 ids1 s1 where k1: "fdsm_setup ids s = Some (e1, d1, ids1, s1)"
    by (auto simp: fdsm_pci_probe_def split: Option.bind_splits)
  note b1 = fdsm_setup_acct [OF k1 assms(2), of x]
  show ?thesis
  proof (cases "e1 = 0")
    case False
    with assms(1) k1 b1 show ?thesis by (auto simp: fdsm_pci_probe_def)
  next
    case True
    obtain z2 d2 s2 where k2: "fdsm_read_bars (d1, s1) = (z2, d2, s2)" by (metis surj_pair)
    obtain e3 z3 d3 s3 where k3: "fdsm_map_bars (z2, d2, s2) = (e3, z3, d3, s3)" by (metis surj_pair)
    have b: "bal (trace s3) x = (bal (trace s) x + own_bar x (zb_addr z3)) + own_bars x d3 + own_pci x" "blank d3"
      "remove1 (md_id d3) ids1 = ids"
      using True b1 fdsm_read_bars_acct [OF k2, of x] fdsm_map_bars_acct [OF k3, of x] by simp_all
    show ?thesis
    proof (cases "e3 = 0")
      case False
      obtain d4 ids4 t where f: "fail_map_bars (d3, ids1, s3) = (d4, ids4, t)" by (metis surj_pair)
      from assms(1) k1 k2 k3 True False have "e = e3" "fdsm_fail_map_bars (z3, d3, ids1, s3) = (z, d, ids', s')"
        by (simp_all add: fdsm_pci_probe_def)
      with fdsm_unmaps [OF f, of z3 x] fail_map_bars_acct [OF f, of x] b False show ?thesis by auto
    next
      case e3: True
      with assms(1) k1 k2 k3 True have p: "fdsm_probe_mapped env (z3, d3, ids1, s3) = Some (e, z, d, ids', s')"
        by (simp add: fdsm_pci_probe_def)
      from fdsm_probe_mapped_sim [OF p, of x] obtain t where z: "z = z3" and t: "probe_mapped env (d3, ids1, s3) = Some (e, d, ids', t)"
        and u: "if e = 0 then t = s' else bal (trace s') x = bal (trace t) x - own_bar x (zb_addr z3)" by blast
      note m = probe_mapped_acct [OF t b(2,1)]
      show ?thesis
      proof (cases "e = 0")
        case True
        with m u have "up_acct (bal (trace s) x + own_bar x (zb_addr z)) x (d, s')" "ids' = ids1" "md_id d = md_id d3"
          by (simp_all add: z)
        with fdsm_remove_acct [OF this(1), of ids1] b(3) True show ?thesis by simp
      next
        case False
        with m u b(3) show ?thesis by simp
      qed
    qed
  qed
qed

end
