(* ===== verification/DevFile.thy ===== *)
theory DevFile
  imports Device
begin

text \<open>
  The character device (\<open>modules/mqnic/mqnic_dev.c\<close>): mapping the control registers into a process and the
  request that describes the device. \<open>remap_pfn_range\<close> and \<open>copy_to_user\<close> are the kernel's; the page shift
  is an argument.
\<close>

record vm_area =
  vm_start :: u64
  vm_end :: u64
  vm_pgoff :: u64

definition dev_open :: int where "dev_open = 0"
definition dev_release :: int where "dev_release = 0"

definition mqnic_map_registers :: "nat \<Rightarrow> mqnic_dev \<Rightarrow> vm_area \<Rightarrow> sys \<Rightarrow> int \<times> sys" where
  "mqnic_map_registers page_shift d vma s =
    (let map_size = vm_end vma - vm_start vma
     in if map_size > md_hw_regs_size d then (- EINVAL, s)
        else kcall ''remap_pfn_range''
               [uint (vm_start vma), uint (drop_bit page_shift (md_hw_regs_phys d)), uint map_size] s)"

definition mqnic_mmap :: "nat \<Rightarrow> mqnic_dev \<Rightarrow> vm_area \<Rightarrow> sys \<Rightarrow> int \<times> sys" where
  "mqnic_mmap page_shift d vma s =
    (if vm_pgoff vma = 0 then mqnic_map_registers page_shift d vma s else (- EINVAL, s))"

record ioctl_info =
  ii_fw_id :: u32
  ii_fw_ver :: u32
  ii_board_id :: u32
  ii_board_ver :: u32
  ii_regs_size :: u64

definition IOCTL_TYPE :: u32 where "IOCTL_TYPE = 0x88"

text \<open>\<open>_IOR\<close>: direction read, the size of the structure, the type and the number of the request.\<close>

definition IOCTL_INFO :: u32 where
  "IOCTL_INFO = push_bit 30 2 OR push_bit 16 24 OR push_bit 8 IOCTL_TYPE OR 0xf0"

definition ioc_type :: "u32 \<Rightarrow> u32" where
  "ioc_type cmd = drop_bit 8 cmd AND 0xff"

definition dev_ioctl :: "mqnic_dev \<Rightarrow> u32 \<Rightarrow> u64 \<Rightarrow> sys \<Rightarrow> int \<times> ioctl_info option \<times> sys" where
  "dev_ioctl d cmd arg s =
    (if ioc_type cmd \<noteq> IOCTL_TYPE then (- ENOTTY, None, s)
     else if cmd = IOCTL_INFO then
       let ctl = \<lparr>ii_fw_id = md_fw_id d, ii_fw_ver = md_fw_ver d, ii_board_id = md_board_id d,
             ii_board_ver = md_board_ver d, ii_regs_size = md_hw_regs_size d\<rparr>;
           (left, s) = kcall ''copy_to_user'' [uint arg] s
       in if left \<noteq> 0 then (- EFAULT, None, s) else (0, Some ctl, s)
     else (- ENOTTY, None, s))"

lemma ioctl_info_accepted: "ioc_type IOCTL_INFO = IOCTL_TYPE"
  by (simp add: ioc_type_def IOCTL_INFO_def IOCTL_TYPE_def)

text \<open>
  A process can map at most the register region: the pages start at its physical address and their bytes
  are no more than it has, when it starts on a page.
\<close>

lemma mmap_within_registers:
  assumes "mqnic_mmap ps d vma s = (r, s')" "KCall ''remap_pfn_range'' [v, pfn, n] \<notin> set (trace s)"
    "KCall ''remap_pfn_range'' [v, pfn, n] \<in> set (trace s')" "ps < 64" "take_bit ps (md_hw_regs_phys d) = 0"
  shows "vm_pgoff vma = 0 \<and> pfn * 2 ^ ps = uint (md_hw_regs_phys d) \<and> 0 \<le> n \<and> n \<le> uint (md_hw_regs_size d)"
proof -
  from assms(1-3) have p: "vm_pgoff vma = 0" "\<not> md_hw_regs_size d < vm_end vma - vm_start vma"
    "pfn = uint (drop_bit ps (md_hw_regs_phys d))" "n = uint (vm_end vma - vm_start vma)"
    by (auto simp: mqnic_mmap_def mqnic_map_registers_def Let_def kcall_def split: if_splits)
  have "uint (md_hw_regs_phys d) mod 2 ^ ps = 0"
    using unsigned_take_bit_eq [of ps "md_hw_regs_phys d", where 'a = int] unfolding assms(5) by (simp add: take_bit_eq_mod)
  moreover have "pfn = uint (md_hw_regs_phys d) div 2 ^ ps"
    unfolding p(3) unsigned_drop_bit_eq using unsigned_less [of "md_hw_regs_phys d", where 'a = int]
    by (simp add: drop_bit_eq_div take_bit_int_eq_self)
  ultimately have "pfn * 2 ^ ps = uint (md_hw_regs_phys d)" by (simp add: mod_0_imp_dvd)
  with p show ?thesis by (simp add: word_less_alt)
qed

lemma ioctl_result:
  "dev_ioctl d cmd arg s = (r, c, s') \<Longrightarrow> r \<in> {0, - EFAULT, - ENOTTY} \<and> (r = 0 \<longleftrightarrow> c \<noteq> None) \<and>
     (r \<noteq> - ENOTTY \<longleftrightarrow> cmd = IOCTL_INFO)"
  using ioctl_info_accepted by (auto simp: dev_ioctl_def Let_def split: if_splits prod.splits)

end
