(* ===== verification/FdsmProps.thy ===== *)
theory FdsmProps
  imports Fdsm
begin

text \<open>
  The messaging layer at work: which buffer a message gets and what is transferred for it, what a sender
  learns of its transfer, how long pages can be pinned, and what a setup leaves behind.
\<close>

section \<open>What the layer relies on\<close>

text \<open>The allocator does not hand out memory that is still in use.\<close>

definition fresh_alloc :: "sys \<Rightarrow> bool" where
  "fresh_alloc s \<longleftrightarrow> (\<forall>h m. w_kalloc s h = Some m \<longrightarrow> bal h (Mem m) = 0)"

text \<open>A radix tree keeps what was first inserted at an index, and has nothing (zero) elsewhere.\<close>

fun tree_at :: "event list \<Rightarrow> int \<Rightarrow> int" where
  "tree_at [] k = 0"
| "tree_at (e # es) k = (if tree_at es k \<noteq> 0 then tree_at es k
     else case e of KCall c a \<Rightarrow> if c = ''radix_tree_insert'' \<and> length a = 2 \<and> a ! 0 = k then a ! 1 else 0 | _ \<Rightarrow> 0)"

definition radix_lib :: "sys \<Rightarrow> bool" where
  "radix_lib s \<longleftrightarrow> (\<forall>h k. w_kcall s h ''radix_tree_lookup'' [k] = tree_at h k)"

text \<open>Waiting for a completion that was just completed finds it done.\<close>

definition completions :: "sys \<Rightarrow> bool" where
  "completions s \<longleftrightarrow> (\<forall>h w. w_kcall s (KCall ''complete'' [w] # h) ''try_wait_for_completion'' [w] \<noteq> 0)"

lemma extends_laws:
  assumes "extends s t"
  shows "fresh_alloc t = fresh_alloc s" "radix_lib t = radix_lib s" "completions t = completions s"
    "w_kcall t = w_kcall s" "w_kalloc t = w_kalloc s"
  using assms unfolding extends_def same_world_def fresh_alloc_def radix_lib_def completions_def
  by (cases s; cases t; simp)+

lemma extends_kzalloc: "kzalloc s = (p, t) \<Longrightarrow> extends s t"
  by (auto simp: kzalloc_def extends_emit split: option.splits)

lemma extends_kcall: "extends s t \<Longrightarrow> extends s (snd (kcall c a t))"
  by (simp add: kcall_def extends_emit)

lemma tree_at_extends: "extends s t \<Longrightarrow> tree_at (trace s) k \<noteq> 0 \<Longrightarrow> tree_at (trace t) k = tree_at (trace s) k"
proof -
  assume e: "extends s t" and n: "tree_at (trace s) k \<noteq> 0"
  have "tree_at (es @ trace s) k = tree_at (trace s) k" for es
    using n by (induction es) auto
  with e show ?thesis by (auto simp: extends_def)
qed

section \<open>The message area\<close>

definition area_addr :: "fdsm_env \<Rightarrow> nat \<Rightarrow> u64" where
  "area_addr env i = fe_base_addr env + fe_msg_size env * word_of_nat i"

definition area_dma :: "fdsm_env \<Rightarrow> nat \<Rightarrow> u64" where
  "area_dma env i = fe_base_dma env + fe_msg_size env * word_of_nat i"

lemma area_work_simps [simp]:
  "sw_addr (area_work env i) = area_addr env i" "sw_dma_addr (area_work env i) = area_dma env i"
  by (simp_all add: area_work_def area_addr_def area_dma_def)

lemma setup_works_spec:
  assumes "setup_works env send n (f, s) = Some (ms, f', s')" "fresh_alloc s"
  shows "length ms = n \<and> distinct ms \<and> extends s s' \<and> f_base_index f' = f_base_index f + n \<and>
    (\<forall>i<n. f_works f' (ms ! i) = Some (area_work env (f_base_index f + i))) \<and>
    (\<forall>m. bal (trace s) (Mem m) \<noteq> 0 \<longrightarrow> m \<notin> set ms \<and> f_works f' m = f_works f m) \<and>
    f_send_queue f' = f_send_queue f"
  using assms
proof (induction n arbitrary: f s ms)
  case (Suc n)
  let ?work = "area_work env (f_base_index f)"
  let ?f = "\<lambda>m. f\<lparr>f_works := (f_works f)(m \<mapsto> ?work), f_base_index := f_base_index f + 1\<rparr>"
  obtain m s1 s2 ns where r: "kzalloc s = (Some m, s1)" "setup_works env send n (?f m, s2) = Some (ns, f', s')" "ms = m # ns"
    and s2: "s2 = (if send then snd (kcall ''radix_tree_insert'' [uint (sw_addr ?work), uint (sw_dma_addr ?work)] s1) else s1)"
    using Suc.prems(1) by (auto simp: Let_def split: prod.splits Option.bind_splits)
  have e: "extends s s2" using extends_kzalloc [OF r(1)] by (auto simp: s2 extends_kcall)
  have b: "bal (trace s2) (Mem x) = bal (trace s) (Mem x) + of_bool (x = m)" for x
    using bal_kzalloc [OF r(1), of "Mem x"] by (auto simp: s2 kcall_def)
  have z: "bal (trace s) (Mem m) = 0"
    using Suc.prems(2) r(1) by (auto simp: fresh_alloc_def kzalloc_def split: option.splits)
  note i = Suc.IH [OF r(2)] extends_laws(1) [OF e] Suc.prems(2)
  have "f_works f' m = Some ?work \<and> m \<notin> set ns" using i b [of m] z by simp
  moreover have "m' \<noteq> m \<and> m' \<notin> set ns \<and> f_works f' m' = f_works f m'" if "bal (trace s) (Mem m') \<noteq> 0" for m'
    using i b [of m'] z that by (cases "m' = m") auto
  moreover have "f_works f' ((m # ns) ! j) = Some (area_work env (f_base_index f + j))" if "j < Suc n" for j
    using i that calculation(1) by (cases j) auto
  ultimately show ?case using i e by (auto simp: r(3) intro: extends_trans)
qed auto

lemma setup_works_tree:
  assumes "setup_works env True n (f, s) = Some (ms, f', s')" "fresh_alloc s"
    "inj_on (area_addr env) {f_base_index f..<f_base_index f + n}"
    "\<forall>i\<in>{f_base_index f..<f_base_index f + n}. tree_at (trace s) (uint (area_addr env i)) = 0 \<and> area_dma env i \<noteq> 0"
    "i < n"
  shows "tree_at (trace s') (uint (area_addr env (f_base_index f + i))) = uint (area_dma env (f_base_index f + i))"
  using assms
proof (induction n arbitrary: f s ms i)
  case (Suc n)
  let ?b = "f_base_index f" and ?work = "area_work env (f_base_index f)"
  let ?f = "\<lambda>m. f\<lparr>f_works := (f_works f)(m \<mapsto> ?work), f_base_index := f_base_index f + 1\<rparr>"
  obtain m s1 s2 ns where r: "kzalloc s = (Some m, s1)" "setup_works env True n (?f m, s2) = Some (ns, f', s')"
    and s2: "s2 = snd (kcall ''radix_tree_insert'' [uint (area_addr env ?b), uint (area_dma env ?b)] s1)"
    using Suc.prems(1) by (auto simp: Let_def split: prod.splits Option.bind_splits)
  have e: "extends s s2" using extends_kzalloc [OF r(1)] by (auto simp: s2 extends_kcall)
  then have fr: "fresh_alloc s2" using extends_laws(1) Suc.prems(2) by blast
  have z0: "tree_at (trace s) (uint (area_addr env ?b)) = 0" using Suc.prems(4) by simp
  have t: "tree_at (trace s2) k = (if tree_at (trace s) k \<noteq> 0 then tree_at (trace s) k
      else if k = uint (area_addr env ?b) then uint (area_dma env ?b) else 0)" for k
  proof -
    have "tree_at (trace s1) k = tree_at (trace s) k" for k
      using r(1) by (auto simp: kzalloc_def split: option.splits)
    with z0 show ?thesis by (simp add: s2 kcall_def)
  qed
  show ?case
  proof (cases i)
    case 0
    have "tree_at (trace s2) (uint (area_addr env ?b)) = uint (area_dma env ?b)" "area_dma env ?b \<noteq> 0"
      using Suc.prems(4) by (auto simp: t)
    moreover have "extends s2 s'" using setup_works_spec [OF r(2) fr] by blast
    ultimately show ?thesis using tree_at_extends [of s2 s'] 0 by (simp add: uint_0_iff)
  next
    case (Suc j)
    have "area_addr env k \<noteq> area_addr env ?b" if "k \<in> {Suc ?b..<Suc ?b + n}" for k
      using inj_onD [OF Suc.prems(3), of k ?b] that by auto
    then have "tree_at (trace s2) (uint (area_addr env k)) = 0" if "k \<in> {Suc ?b..<Suc ?b + n}" for k
      using Suc.prems(4) that by (auto simp: t word_uint_eq_iff)
    with Suc.prems(4) have z: "\<forall>k\<in>{f_base_index (?f m)..<f_base_index (?f m) + n}.
        tree_at (trace s2) (uint (area_addr env k)) = 0 \<and> area_dma env k \<noteq> 0" by auto
    have "inj_on (area_addr env) {f_base_index (?f m)..<f_base_index (?f m) + n}"
      using Suc.prems(3) by (rule inj_on_subset) auto
    from Suc.IH [OF r(2) fr this z] Suc.prems(5) Suc show ?thesis by simp
  qed
qed simp

section \<open>Getting buffers\<close>

primrec gets :: "nat \<Rightarrow> fdsm \<Rightarrow> (u64 list \<times> fdsm) option" where
  "gets 0 f = Some ([], f)"
| "gets (Suc k) f = do { (ms, f) \<leftarrow> gets k f; (m, f) \<leftarrow> hdma_kmsg_get 0 f; Some (ms @ [m], f) }"

text \<open>The ring goes round: with \<open>n\<close> entries, the tail after \<open>k\<close> steps is the one before \<open>k mod n\<close>.\<close>

definition ring_at :: "fdsm_env \<Rightarrow> nat \<Rightarrow> nat \<Rightarrow> nat \<Rightarrow> fdsm \<Rightarrow> bool" where
  "ring_at env b n k f \<longleftrightarrow> (\<exists>q. f_send_queue f = Some q \<and> q_nr_entries q = int n \<and> length (q_work_list q) = n \<and>
     q_tail q = (if k = 0 then - 1 else int ((k - 1) mod n)) \<and>
     (\<forall>i<n. f_works f (q_work_list q ! i) = Some (area_work env (b + i))))"

lemma tail_step: "0 < n \<Longrightarrow> ((if k = 0 then - 1 else int ((k - 1) mod n)) + 1) mod int n = int (k mod n)"
  by (cases k) (simp_all add: zmod_int mod_add_right_eq add.commute)

lemma next_work_ring:
  assumes "ring_at env b n k f" "0 < n"
  shows "\<exists>w f'. next_work f = Some (w, f') \<and> ring_at env b n (Suc k) f' \<and> f_works f' w = Some (area_work env (b + k mod n)) \<and>
    f_works f' = f_works f"
proof -
  obtain q where q: "f_send_queue f = Some q" "q_nr_entries q = int n" "length (q_work_list q) = n"
    "q_tail q = (if k = 0 then - 1 else int ((k - 1) mod n))" "\<forall>i<n. f_works f (q_work_list q ! i) = Some (area_work env (b + i))"
    using assms(1) by (auto simp: ring_at_def)
  have "q_tail q \<noteq> q_nr_entries q" using q(2,4) mod_less_divisor [OF assms(2), of "k - 1"] by auto
  moreover have "(q_tail q + 1) mod q_nr_entries q = int (k mod n)"
    unfolding q(2,4) by (rule tail_step [OF assms(2)])
  ultimately have "next_work f = Some (q_work_list q ! (k mod n), f\<lparr>f_send_queue := Some (q\<lparr>q_tail := int (k mod n)\<rparr>)\<rparr>)"
    using q(1-3) assms(2) by (simp add: next_work_def get_send_work_def Let_def)
  with q assms(2) show ?thesis by (auto simp: ring_at_def)
qed

lemma gets_ring:
  "ring_at env b n 0 f \<Longrightarrow> 0 < n \<Longrightarrow>
     \<exists>f'. gets k f = Some (map (\<lambda>i. area_addr env (b + i mod n)) [0..<k], f') \<and> ring_at env b n k f'"
proof (induction k)
  case (Suc k)
  then obtain f' where f': "gets k f = Some (map (\<lambda>i. area_addr env (b + i mod n)) [0..<k], f')" "ring_at env b n k f'" by blast
  from next_work_ring [OF this(2) Suc.prems(2)] f'(1) show ?case by (auto simp: hdma_kmsg_get_def)
qed auto

lemma setup_send_queue_ring:
  assumes "setup_send_queue env n (f, s) = Some (Some q, f', s')" "fresh_alloc s"
  shows "ring_at env (f_base_index f) n 0 (f'\<lparr>f_send_queue := Some q\<rparr>)"
  using assms setup_works_spec [of env True n f]
  by (auto simp: setup_send_queue_def ring_at_def new_queue_def split: prod.splits option.splits if_splits Option.bind_splits
      dest!: extends_laws(1) [OF extends_kzalloc])

text \<open>The \<open>k\<close>-th message since the setup is written to entry \<open>k\<close> modulo the number of entries of the message area.\<close>

theorem kmsg_get_round_robin:
  assumes "setup_send_queue env n (f, s) = Some (Some q, f', s')" "fresh_alloc s" "0 < n"
  shows "\<exists>f''. gets k (f'\<lparr>f_send_queue := Some q\<rparr>) =
    Some (map (\<lambda>i. fe_base_addr env + fe_msg_size env * word_of_nat (f_base_index f + i mod n)) [0..<k], f'')"
  using gets_ring [OF setup_send_queue_ring [OF assms(1,2)] assms(3), of k] by (auto simp: area_addr_def)

lemma area_inj:
  assumes "0 < fe_msg_size env" "unat (fe_msg_size env) * (b + n) \<le> 2 ^ 64"
  shows "inj_on (area_addr env) {b..<b + n}"
proof (rule inj_onI)
  have u: "unat (fe_msg_size env * word_of_nat i) = unat (fe_msg_size env) * i" if "i < b + n" for i
  proof -
    have p: "0 < unat (fe_msg_size env)" using assms(1) by (simp add: word_less_nat_alt)
    have l: "unat (fe_msg_size env) * i < 2 ^ 64"
      using mult_strict_left_mono [OF that p] assms(2) by linarith
    moreover have "i \<le> unat (fe_msg_size env) * i" using p by simp
    ultimately have "i < 2 ^ 64" by (rule le_less_trans [rotated])
    then have "unat (word_of_nat i :: u64) = i" by (simp add: unat_of_nat)
    with l show ?thesis by (simp add: unat_word_ariths)
  qed
  fix i j
  assume ij: "i \<in> {b..<b + n}" "j \<in> {b..<b + n}" "area_addr env i = area_addr env j"
  then have "fe_msg_size env * word_of_nat i = fe_msg_size env * word_of_nat j" by (simp add: area_addr_def)
  then have "unat (fe_msg_size env) * i = unat (fe_msg_size env) * j"
    using u [of i] u [of j] ij(1,2) by (metis atLeastLessThan_iff)
  moreover have "0 < unat (fe_msg_size env)" using assms(1) by (simp add: word_less_nat_alt)
  ultimately show "i = j" by (metis nat_mult_eq_cancel1)
qed

lemma post_found:
  assumes "radix_lib s" "tree_at (trace s) (uint a) = uint d" "d \<noteq> (0 :: u64)"
  shows "\<exists>t. hdma_kmsg_post env a sz s = (0, t) \<and> trace t =
    KCall ''hdma_transfer'' [fe_to_device env] #
    KCall ''config_descriptors_bypass'' [uint d, uint (fe_msg_size env), fe_to_device env, fe_kmsg env] #
    KCall ''radix_tree_lookup'' [uint a] # trace s"
  using assms by (simp add: hdma_kmsg_post_def kcall_def radix_lib_def transfer_msg_def config_descriptors_bypass_def Let_def ucast_id)

lemma setup_send_queue_tree:
  assumes "setup_send_queue env n (f, s) = Some (Some q, f', s')" "fresh_alloc s" "inj_on (area_addr env) {f_base_index f..<f_base_index f + n}"
    "\<forall>i\<in>{f_base_index f..<f_base_index f + n}. tree_at (trace s) (uint (area_addr env i)) = 0 \<and> area_dma env i \<noteq> 0"
  shows "extends s s' \<and> (\<forall>i<n. tree_at (trace s') (uint (area_addr env (f_base_index f + i))) = uint (area_dma env (f_base_index f + i)))"
proof -
  obtain m1 s1 p s2 ms where r: "kzalloc s = (Some m1, s1)" "kzalloc s1 = (p, s2)" "setup_works env True n (f, s2) = Some (ms, f', s')"
    using assms(1) by (auto simp: setup_send_queue_def split: prod.splits option.splits if_splits Option.bind_splits)
  have e: "extends s s2" using r by (blast intro: extends_trans extends_kzalloc)
  then have fr: "fresh_alloc s2" using assms(2) extends_laws(1) by blast
  have "tree_at (trace s2) k = tree_at (trace s) k" for k
    using r(1,2) by (auto simp: kzalloc_def split: option.splits)
  with setup_works_tree [OF r(3) fr assms(3)] setup_works_spec [OF r(3) fr] assms(4) e show ?thesis
    by (auto intro: extends_trans)
qed

text \<open>C11: posting a message that was got from the layer transfers the piece of the message area the message was written to.\<close>

theorem kmsg_get_post:
  assumes "setup_send_queue env n (f, s) = Some (Some q, f', s')" "fresh_alloc s" "radix_lib s" "0 < n"
    "0 < fe_msg_size env" "unat (fe_msg_size env) * (f_base_index f + n) \<le> 2 ^ 64"
    "\<forall>i\<in>{f_base_index f..<f_base_index f + n}. tree_at (trace s) (uint (area_addr env i)) = 0 \<and> area_dma env i \<noteq> 0"
    "gets k (f'\<lparr>f_send_queue := Some q\<rparr>) = Some (ms, f'')" "j < k" "extends s' u"
  shows "\<exists>t. hdma_kmsg_post env (ms ! j) sz u = (0, t) \<and> trace t =
    KCall ''hdma_transfer'' [fe_to_device env] #
    KCall ''config_descriptors_bypass'' [uint (area_dma env (f_base_index f + j mod n)), uint (fe_msg_size env), fe_to_device env, fe_kmsg env] #
    KCall ''radix_tree_lookup'' [uint (ms ! j)] # trace u"
proof -
  let ?i = "f_base_index f + j mod n"
  have ms: "ms ! j = area_addr env ?i"
    using gets_ring [OF setup_send_queue_ring [OF assms(1,2)] assms(4), of k] assms(8,9) by auto
  have i: "j mod n < n" using assms(4) by simp
  then have d: "uint (area_dma env ?i) \<noteq> 0" using assms(7) by (auto simp: uint_0_iff)
  have "extends s s'" "tree_at (trace s') (uint (area_addr env ?i)) = uint (area_dma env ?i)"
    using setup_send_queue_tree [OF assms(1,2) area_inj [OF assms(5,6)] assms(7)] i by auto
  then have "tree_at (trace u) (uint (ms ! j)) = uint (area_dma env ?i)" "radix_lib u"
    using tree_at_extends [OF assms(10), of "uint (ms ! j)"] d extends_laws(2) assms(3,10) by (auto simp: ms)
  then show ?thesis using post_found d by (auto simp: uint_0_iff)
qed

section \<open>Senders\<close>

text \<open>C35: a sender that waits for its message is told that it was sent, whatever the transfer reported.\<close>

theorem kmsg_send_hides_transfer:
  assumes "completions s" "hdma_kmsg_send env msg sz (f, s) = Some (ret, f', s')"
  shows "ret = 0 \<and> (\<exists>h w. trace s' = KCall ''try_wait_for_completion'' [int w] # KCall ''complete'' [int w] #
    KCall ''hdma_transfer'' [fe_to_device env] # h)"
proof -
  obtain w f1 work where w: "next_work f = Some (w, f1)" "f_works f1 w = Some work"
    using assms(2) by (auto simp: hdma_kmsg_send_def split: Option.bind_splits)
  define s1 where "s1 = snd (transfer_msg env (sw_dma_addr work) (kvoid ''memcpy'' [uint (sw_addr work), uint msg, uint sz] s))"
  have t: "\<exists>h. trace s1 = KCall ''hdma_transfer'' [fe_to_device env] # h"
    by (simp add: s1_def transfer_msg_def config_descriptors_bypass_def kcall_def)
  have "w_kcall s1 = w_kcall s" by (simp add: s1_def transfer_msg_def config_descriptors_bypass_def kcall_def kvoid_def)
  then have "fst (kcall ''try_wait_for_completion'' [int w] (kvoid ''complete'' [int w] s1)) \<noteq> 0"
    using assms(1) by (simp add: kcall_def kvoid_def completions_def)
  then show ?thesis
    using assms(2) w t by (auto simp: hdma_kmsg_send_def process_sent_def case_prod_beta' Let_def kcall_def simp flip: s1_def)
qed

section \<open>Pages\<close>

text \<open>A run of pins and unpins, with the number of pins.\<close>

inductive slot_run :: "fdsm_env \<Rightarrow> nat \<Rightarrow> fdsm \<times> sys \<Rightarrow> fdsm \<times> sys \<Rightarrow> bool" for env where
  slot_start: "slot_run env 0 w w"
| slot_pin: "slot_run env n w (f, s) \<Longrightarrow> hdma_kmsg_pin_buffer env (f, s) = Some (h, w') \<Longrightarrow> slot_run env (Suc n) w w'"
| slot_unpin: "slot_run env n w v \<Longrightarrow> hdma_kmsg_unpin_buffer h v = Some w' \<Longrightarrow> slot_run env n w w'"

lemma slot_run_index:
  "slot_run env n w v \<Longrightarrow> f_page_ix (fst v) = f_page_ix (fst w) + n \<and> length (f_KV (fst v)) = length (f_KV (fst w))"
  by (induction rule: slot_run.induct)
     (auto simp: hdma_kmsg_pin_buffer_def hdma_kmsg_unpin_buffer_def Let_def split: prod.splits Option.bind_splits if_splits)

text \<open>Unpinning does not make room: after as many pins as there are slots the next one leaves the array of slots.\<close>

theorem pin_slots_run_out:
  assumes "slot_run env n (f, s) w" "f_page_ix f = 0"
  shows "hdma_kmsg_pin_buffer env w = None \<longleftrightarrow> length (f_KV f) \<le> n \<or> fst (kzalloc (snd w)) = None"
  using slot_run_index [OF assms(1)] assms(2)
  by (cases w) (auto simp: hdma_kmsg_pin_buffer_def Let_def split: prod.splits Option.bind_splits if_splits)

section \<open>Setting the layer up\<close>

text \<open>With memory, the setup does not fault.\<close>

definition plenty :: "sys \<Rightarrow> bool" where
  "plenty s \<longleftrightarrow> (\<forall>h. w_kalloc s h \<noteq> None)"

lemma plenty_simps [simp]:
  "plenty (emit e s) = plenty s" "plenty (kvoid c a s) = plenty s" "plenty (snd (kcall c a s)) = plenty s"
  by (simp_all add: plenty_def kvoid_def kcall_def)

lemma plenty_kcall: "kcall c a s = (v, t) \<Longrightarrow> plenty t = plenty s"
  by (auto simp: kcall_def)

lemma plenty_kzalloc: "plenty s \<Longrightarrow> \<exists>m. kzalloc s = (Some m, emit (Kalloc m) s)"
  by (auto simp: plenty_def kzalloc_def split: option.splits)

lemma plenty_map_chunks: "plenty s \<Longrightarrow> map_chunks env is (f, s) = (e, f', s') \<Longrightarrow> plenty s'"
  by (induction env "is" "(f, s)" arbitrary: f s rule: map_chunks.induct)
     (auto simp: map_page_def plenty_kcall split: prod.splits if_splits)

lemma plenty_fill_pool: "plenty s \<Longrightarrow> fill_pool env n (f, s) = (e, f', s') \<Longrightarrow> plenty s'"
proof (induction n arbitrary: f s)
  case (Suc n)
  obtain m where "kzalloc s = (Some m, emit (Kalloc m) s)" using plenty_kzalloc [OF Suc.prems(1)] by blast
  with Suc.IH [of "emit (Kalloc m) s"] Suc.prems show ?case by simp
qed simp

lemma plenty_setup_works:
  "plenty s \<Longrightarrow> \<exists>ms f' s'. setup_works env send n (f, s) = Some (ms, f', s') \<and> plenty s'"
proof (induction n arbitrary: f s)
  case (Suc n)
  obtain m where m: "kzalloc s = (Some m, emit (Kalloc m) s)" using plenty_kzalloc [OF Suc.prems] by blast
  let ?w = "area_work env (f_base_index f)"
  let ?f = "f\<lparr>f_works := (f_works f)(m \<mapsto> ?w), f_base_index := f_base_index f + 1\<rparr>"
  let ?s = "if send then snd (kcall ''radix_tree_insert'' [uint (sw_addr ?w), uint (sw_dma_addr ?w)] (emit (Kalloc m) s)) else emit (Kalloc m) s"
  have "plenty ?s" using Suc.prems by simp
  from Suc.IH [OF this, of ?f] obtain ms f' s' where "setup_works env send n (?f, ?s) = Some (ms, f', s')" "plenty s'" by blast
  with m show ?case by (auto simp: Let_def)
qed simp

lemma plenty_setup_queues:
  assumes "plenty s"
  shows "\<exists>q f' s'. setup_send_queue env n (f, s) = Some (q, f', s') \<and> plenty s'"
    "\<exists>q f' s'. setup_recv_buffer env n (f, s) = Some (q, f', s') \<and> plenty s'"
proof -
  obtain m where m: "kzalloc s = (Some m, emit (Kalloc m) s)" "plenty (emit (Kalloc m) s)" using plenty_kzalloc [OF assms] assms by auto
  obtain m' where m': "kzalloc (emit (Kalloc m) s) = (Some m', emit (Kalloc m') (emit (Kalloc m) s))" using plenty_kzalloc [OF m(2)] by blast
  show "\<exists>q f' s'. setup_send_queue env n (f, s) = Some (q, f', s') \<and> plenty s'"
    "\<exists>q f' s'. setup_recv_buffer env n (f, s) = Some (q, f', s') \<and> plenty s'"
    using plenty_setup_works [of "emit (Kalloc m') (emit (Kalloc m) s)" env True n f]
      plenty_setup_works [of "emit (Kalloc m') (emit (Kalloc m) s)" env False n f] assms
    by (auto simp: setup_send_queue_def setup_recv_buffer_def m(1) m')
qed

lemma plenty_setup_ring: "plenty s \<Longrightarrow> setup_ring_buffer env (f, s) = (0, f', s') \<Longrightarrow> plenty s'"
  by (auto simp: setup_ring_buffer_def plenty_kcall split: prod.splits if_splits dest!: plenty_fill_pool [rotated] plenty_map_chunks [rotated])

lemma messaging_init_total:
  assumes "plenty s"
  shows "messaging_init env (f, s) \<noteq> None"
proof -
  let ?s = "kvoid ''set_popcorn_node_online'' [0, 1] (kvoid ''iowrite32'' [0] (kvoid ''pcn_kmsg_set_transport'' [] s))"
  obtain ok s1 where 1: "map_message_area env ?s = (ok, s1)" by force
  then have p1: "plenty s1" using assms by (auto simp: map_message_area_def plenty_kcall split: if_splits prod.splits)
  obtain r2 s2 where 2: "setup_irq_handler env s1 = (r2, s2)" by force
  obtain r3 f3 s3 where 3: "setup_ring_buffer env (f, s2) = (r3, f3, s3)" by (metis surj_pair)
  obtain r4 s4 where 4: "kcall ''create_workqueue'' [] s3 = (r4, s4)" by force
  have p4: "plenty s4" if "r3 = 0"
    using plenty_setup_ring [of s2 env f f3 s3] 3 that p1 2 4 by (auto simp: setup_irq_handler_def plenty_kcall)
  show ?thesis
  proof (cases "r3 = 0")
    case True
    obtain q5 f5 s5 where 5: "setup_send_queue env (fe_send_depth env) (f3, s4) = Some (q5, f5, s5)" "plenty s5"
      using plenty_setup_queues(1) [OF p4 [OF True]] by blast
    obtain q6 f6 s6 where "setup_recv_buffer env (fe_recv_depth env) (f5\<lparr>f_send_queue := q5\<rparr>, s5) = Some (q6, f6, s6)"
      using plenty_setup_queues(2) [OF 5(2)] by blast
    with True show ?thesis by (simp add: messaging_init_def messaging_out_def 1 2 3 4 5 Let_def split: prod.splits)
  qed (simp add: messaging_init_def messaging_out_def 1 2 3 Let_def)
qed


section \<open>A ring buffer that was not set up\<close>

definition pool_bal :: "fdsm \<Rightarrow> res \<Rightarrow> int" where
  "pool_bal f x = (\<Sum>m\<leftarrow>f_send_work_pool f. of_bool (x = Mem m))"

lemma fill_pool_bal:
  "fill_pool env n (f, s) = (e, f', s') \<Longrightarrow>
     bal (trace s') x - pool_bal f' x = bal (trace s) x - pool_bal f x \<and> f_xdma_work_pool f' = f_xdma_work_pool f"
proof (induction n arbitrary: f s)
  case (Suc n)
  show ?case
  proof (cases "kzalloc s")
    case (Pair p t)
    with Suc.prems Suc.IH [of _ t] bal_kzalloc [OF Pair, of x] show ?thesis
      by (cases p) (auto simp: pool_bal_def)
  qed
qed simp

lemma map_chunks_rest:
  "map_chunks env is (f, s) = (e, f', s') \<Longrightarrow>
     bal (trace s') x = bal (trace s) x \<and> f_send_work_pool f' = f_send_work_pool f \<and> f_xdma_work_pool f' = f_xdma_work_pool f"
  by (induction env "is" "(f, s)" arbitrary: f s rule: map_chunks.induct)
     (auto simp: map_page_def kcall_def split: prod.splits if_splits)

lemma unmap_chunks_rest:
  "bal (trace (snd (fold (unmap_chunk env) is (f, s)))) x = bal (trace s) x \<and>
     f_send_work_pool (fst (fold (unmap_chunk env) is (f, s))) = f_send_work_pool f"
  by (induction "is" arbitrary: f s) (auto simp: unmap_chunk_def Let_def)

lemma free_all_bal: "bal (trace (fold (\<lambda>m. emit (Kfree m)) ms s)) x = bal (trace s) x - (\<Sum>m\<leftarrow>ms. of_bool (x = Mem m))"
  by (induction ms arbitrary: s) auto

lemma ring_out_bal:
  assumes "f_xdma_work_pool f = []" "ring_out_unmap env (f, s) = (f', s')"
  shows "bal (trace s') x = bal (trace s) x - pool_bal f x \<and> f_send_work_pool f' = []"
proof -
  define t where "t = fold (\<lambda>m. emit (Kfree m)) (f_send_work_pool f) s"
  define g where "g = f\<lparr>f_works := (\<lambda>m. if m \<in> set (f_send_work_pool f) then None else f_works f m), f_xdma_work_pool := [], f_send_work_pool := []\<rparr>"
  have "fold (unmap_chunk env) [0..<length (fe_chunk_start env)] (g, t) = (f', s')"
    using assms by (simp add: ring_out_unmap_def Let_def g_def t_def)
  with unmap_chunks_rest [of env "[0..<length (fe_chunk_start env)]" g t x]
  show ?thesis by (simp add: free_all_bal pool_bal_def t_def) (simp add: g_def)
qed

lemma ring_setup_undone:
  assumes "setup_ring_buffer env (f, s) = (e, f', s')" "e \<noteq> 0" "f_send_work_pool f = []" "f_xdma_work_pool f = []"
  shows "bal (trace s') x = bal (trace s) x \<and> f_send_work_pool f' = []"
proof -
  obtain r t where r: "kcall ''ring_buffer_init'' [] s = (r, t)" by force
  have bt: "bal (trace t) x = bal (trace s) x" using r by (auto simp: kcall_def)
  obtain e1 f1 s1 where m: "map_chunks env [0..<length (fe_chunk_start env)] (f, t) = (e1, f1, s1)" by (metis surj_pair)
  obtain e2 f2 s2 where p: "fill_pool env (fe_send_depth env) (f1, s1) = (e2, f2, s2)" by (metis surj_pair)
  note rest = map_chunks_rest [OF m, of x] fill_pool_bal [OF p, of x] bt assms(2-4)
  consider "r \<noteq> 0" "f' = f" "s' = t" | "ring_out_unmap env (f1, s1) = (f', s')" | "ring_out_unmap env (f2, s2) = (f', s')"
    using assms(1,2) by (auto simp: setup_ring_buffer_def r m p split: if_splits prod.splits)
  then show ?thesis
    using rest ring_out_bal [of f1 env s1 f' s' x] ring_out_bal [of f2 env s2 f' s' x] by cases (auto simp: pool_bal_def)
qed

section \<open>A machine\<close>

definition fresh_handle :: "event list \<Rightarrow> nat" where
  "fresh_handle h = foldr (\<lambda>e n. case e of Kalloc m \<Rightarrow> max (Suc m) n | Kfree m \<Rightarrow> max (Suc m) n | _ \<Rightarrow> n) h 0"

lemma fresh_handle_bal: "fresh_handle h \<le> m \<Longrightarrow> bal h (Mem m) = 0"
  by (induction h) (auto simp: fresh_handle_def split: event.splits)

definition msg_world :: sys where
  "msg_world = quiet_world\<lparr>w_kalloc := (\<lambda>h. Some (fresh_handle h)),
     w_kcall := (\<lambda>h c a. if c = ''radix_tree_lookup'' then tree_at h (hd a)
       else if c = ''try_wait_for_completion'' then (case h of KCall c' a' # _ \<Rightarrow> of_bool (c' = ''complete'' \<and> a' = a) | _ \<Rightarrow> 0)
       else if c = ''create_workqueue'' then 1 else 0)\<rparr>"

lemma msg_world_laws: "fresh_alloc msg_world" "radix_lib msg_world" "completions msg_world"
  by (simp_all add: msg_world_def fresh_alloc_def radix_lib_def completions_def fresh_handle_bal)

definition demo_fdsm_env :: fdsm_env where
  "demo_fdsm_env = \<lparr>fe_msg_size = 8192, fe_base_addr = 0x10000, fe_base_dma = 0x800000, fe_sink_address = 0x20000,
     fe_sink_dma_address = 0x900000, fe_slot_size = 4096, fe_lsb_mask = 0xffffffff, fe_page_size = 4096,
     fe_chunk_size = 4096, fe_chunk_start = [0x30000], fe_send_depth = 1, fe_recv_depth = 1, fe_slots = 1,
     fe_to_device = 1, fe_from_device = 2, fe_page = 3, fe_kmsg = 4, fe_arm64 = False, fe_stat = False, fe_irq = 16,
     fe_junk = \<lparr>sw_addr = 0, sw_dma_addr = 0, sw_length = 0, sw_mapped = True, sw_from_buffer = True, sw_done = True\<rparr>\<rparr>"

definition demo_fdsm :: fdsm where
  "demo_fdsm = \<lparr>f_send_queue = None, f_recv_queue = None, f_works = Map.empty, f_send_work_pool = [], f_xdma_work_pool = [],
     f_base_index = 0, f_page_ix = 0, f_KV = [0], f_dma_addr_base = [0]\<rparr>"

lemma demo_send_queue: "\<exists>q f' s'. setup_send_queue demo_fdsm_env 2 (demo_fdsm, msg_world) = Some (Some q, f', s')"
  by (simp add: setup_send_queue_def kzalloc_def msg_world_def numeral_2_eq_2 Let_def kcall_def split: prod.splits)

theorem kmsg_get_round_robin_witness:
  "\<exists>f. gets 3 f = Some ([0x10000, 0x12000, 0x10000], snd (the (gets 3 f)))"
proof -
  obtain q f' s' where "setup_send_queue demo_fdsm_env 2 (demo_fdsm, msg_world) = Some (Some q, f', s')"
    using demo_send_queue by blast
  from kmsg_get_round_robin [OF this msg_world_laws(1), of 3]
  show ?thesis
    by (intro exI [of _ "f'\<lparr>f_send_queue := Some q\<rparr>"]) (auto simp: demo_fdsm_env_def demo_fdsm_def upt_rec numeral_3_eq_3 numeral_2_eq_2)
qed

theorem kmsg_get_post_witness:
  "\<exists>f s ms f' t. gets 3 f = Some (ms, f') \<and> hdma_kmsg_post demo_fdsm_env (ms ! 1) 64 s = (0, t) \<and>
    KCall ''config_descriptors_bypass'' [0x802000, 8192, 1, 4] \<in> set (trace t)"
proof -
  obtain q f' s' where r: "setup_send_queue demo_fdsm_env 2 (demo_fdsm, msg_world) = Some (Some q, f', s')"
    using demo_send_queue by blast
  obtain ms f'' where g: "gets 3 (f'\<lparr>f_send_queue := Some q\<rparr>) = Some (ms, f'')"
    using gets_ring [OF setup_send_queue_ring [OF r msg_world_laws(1)], of 3] by auto
  have "\<forall>i\<in>{f_base_index demo_fdsm..<f_base_index demo_fdsm + 2}.
      tree_at (trace msg_world) (uint (area_addr demo_fdsm_env i)) = 0 \<and> area_dma demo_fdsm_env i \<noteq> 0"
  proof -
    have "{f_base_index demo_fdsm..<f_base_index demo_fdsm + 2} = {0, 1}" by (auto simp: demo_fdsm_def)
    then show ?thesis
      by (simp only: ball_simps) (simp add: demo_fdsm_env_def area_dma_def msg_world_def quiet_world_def)
  qed
  then obtain t where "hdma_kmsg_post demo_fdsm_env (ms ! 1) 64 s' = (0, t)"
    "trace t = KCall ''hdma_transfer'' [fe_to_device demo_fdsm_env] #
      KCall ''config_descriptors_bypass'' [uint (area_dma demo_fdsm_env (f_base_index demo_fdsm + 1 mod 2)),
        uint (fe_msg_size demo_fdsm_env), fe_to_device demo_fdsm_env, fe_kmsg demo_fdsm_env] #
      KCall ''radix_tree_lookup'' [uint (ms ! 1)] # trace s'"
    using kmsg_get_post [OF r msg_world_laws(1,2) _ _ _ _ g, of 1 s' 64] by (auto simp: demo_fdsm_env_def demo_fdsm_def)
  moreover from this(2) have "KCall ''config_descriptors_bypass'' [0x802000, 8192, 1, 4] \<in> set (trace t)"
    by (simp add: demo_fdsm_env_def demo_fdsm_def area_dma_def)
  ultimately show ?thesis using g by blast
qed

text \<open>A transfer that fails is reported as a success.\<close>

definition fail_world :: sys where
  "fail_world = msg_world\<lparr>w_kcall := (\<lambda>h c a. if c = ''hdma_transfer'' then - 5 else w_kcall msg_world h c a)\<rparr>"

definition demo_ring :: fdsm where
  "demo_ring = demo_fdsm\<lparr>f_send_queue := Some \<lparr>q_tail = - 1, q_head = 0, q_size = 0, q_nr_entries = 1, q_work_list = [7]\<rparr>,
     f_works := [7 \<mapsto> area_work demo_fdsm_env 0]\<rparr>"

theorem kmsg_send_hides_transfer_witness:
  "\<exists>f s. hdma_kmsg_send demo_fdsm_env 0x5000 64 (demo_ring, fail_world) = Some (0, f, s) \<and>
    w_kcall fail_world [] ''hdma_transfer'' [1] = - 5"
proof -
  have "completions fail_world" by (simp add: completions_def fail_world_def msg_world_def)
  moreover have "hdma_kmsg_send demo_fdsm_env 0x5000 64 (demo_ring, fail_world) \<noteq> None"
    by (simp add: hdma_kmsg_send_def next_work_def get_send_work_def demo_ring_def process_sent_def Let_def kcall_def kvoid_def
        fail_world_def msg_world_def transfer_msg_def config_descriptors_bypass_def)
  ultimately obtain r f s where "hdma_kmsg_send demo_fdsm_env 0x5000 64 (demo_ring, fail_world) = Some (r, f, s)" "r = 0"
    using kmsg_send_hides_transfer [of fail_world demo_fdsm_env "0x5000" 64 demo_ring] by force
  then show ?thesis by (simp add: fail_world_def)
qed

theorem pin_slots_run_out_witness:
  "\<exists>h w w'. hdma_kmsg_pin_buffer demo_fdsm_env (demo_fdsm, msg_world) = Some (h, w) \<and>
    hdma_kmsg_unpin_buffer h w = Some w' \<and> hdma_kmsg_pin_buffer demo_fdsm_env w' = None"
proof -
  obtain h w where p: "hdma_kmsg_pin_buffer demo_fdsm_env (demo_fdsm, msg_world) = Some (h, w)"
    using pin_slots_run_out [OF slot_start, of demo_fdsm demo_fdsm_env msg_world] by (auto simp: demo_fdsm_def kzalloc_def msg_world_def)
  then obtain w' where u: "hdma_kmsg_unpin_buffer h w = Some w'"
    by (auto simp: hdma_kmsg_pin_buffer_def hdma_kmsg_unpin_buffer_def demo_fdsm_def Let_def split: prod.splits Option.bind_splits if_splits)
  have "slot_run demo_fdsm_env 1 (demo_fdsm, msg_world) w'"
    using slot_pin [OF slot_start p] u by (auto intro: slot_unpin)
  from pin_slots_run_out [OF this] have "hdma_kmsg_pin_buffer demo_fdsm_env w' = None" by (simp add: demo_fdsm_def)
  with p u show ?thesis by blast
qed


end
