(* ===== verification/SpiBus.thy ===== *)
theory SpiBus
  imports Kernel
begin

text \<open>
  Bytes on the wires of a serial flash (first half of \<open>utils/flash_spi.c\<close>): the control register drives chip
  select, clock and data lines, and a byte is clocked out or in one, two or four bits at a time. The wires are
  read back from the history of register writes, and sending and receiving a byte are shown to be what the
  wires carry.
\<close>

section \<open>The device\<close>

text \<open>\<open>struct flash_device\<close>; a driver or a table of operations is named by a constructor.\<close>

datatype flash_driver = Spi_flash_driver | Bpi_flash_driver

datatype bpi_ops = Bpi_intel_flash_ops | Bpi_amd_flash_ops | Bpi_micron_flash_ops

datatype spi_proto = SPI_PROTO_STR | SPI_PROTO_DTR | SPI_PROTO_DUAL_STR | SPI_PROTO_DUAL_DTR
  | SPI_PROTO_QUAD_STR | SPI_PROTO_QUAD_DTR

primrec proto_num :: "spi_proto \<Rightarrow> int" where
  "proto_num SPI_PROTO_STR = 0"
| "proto_num SPI_PROTO_DTR = 1"
| "proto_num SPI_PROTO_DUAL_STR = 2"
| "proto_num SPI_PROTO_DUAL_DTR = 3"
| "proto_num SPI_PROTO_QUAD_STR = 4"
| "proto_num SPI_PROTO_QUAD_DTR = 5"

record flash_erase_region_info =
  er_block_count :: u64
  er_block_size :: u64
  er_region_start :: u64
  er_region_end :: u64

record flash_device =
  fl_driver :: flash_driver
  fl_ops :: "bpi_ops option"
  fl_ctrl_reg :: addr
  fl_addr_reg :: addr
  fl_data_reg :: addr
  fl_size :: u64
  fl_data_width :: int
  fl_write_buffer_size :: u64
  fl_erase_block_size :: u64
  fl_protocol :: int
  fl_bulk_protocol :: int
  fl_read_dummy_cycles :: nat
  fl_erase_region_count :: nat
  fl_erase_region :: "flash_erase_region_info list"

definition FLASH_D_1 :: u32 where "FLASH_D_1 = 0x2"
definition FLASH_D_01 :: u32 where "FLASH_D_01 = 0x3"
definition FLASH_D_0123 :: u32 where "FLASH_D_0123 = 0xf"
definition FLASH_OE_0 :: u32 where "FLASH_OE_0 = 0x100"
definition FLASH_OE_01 :: u32 where "FLASH_OE_01 = 0x300"
definition FLASH_OE_0123 :: u32 where "FLASH_OE_0123 = 0xf00"
definition FLASH_CLK :: u32 where "FLASH_CLK = 0x10000"
definition FLASH_CS_N :: u32 where "FLASH_CS_N = 0x20000"

lemmas flash_line_defs = FLASH_D_1_def FLASH_D_01_def FLASH_D_0123_def FLASH_OE_0_def FLASH_OE_01_def
  FLASH_OE_0123_def FLASH_CLK_def FLASH_CS_N_def

definition spi_flash_select :: "flash_device \<Rightarrow> sys \<Rightarrow> sys" where
  "spi_flash_select fdev s = iowrite32 0 (fl_ctrl_reg fdev) s"

definition spi_flash_deselect :: "flash_device \<Rightarrow> sys \<Rightarrow> sys" where
  "spi_flash_deselect fdev s = iowrite32 FLASH_CS_N (fl_ctrl_reg fdev) s"

text \<open>One clock: the lines are read while the clock is low, then it rises.\<close>

definition clock_in :: "addr \<Rightarrow> sys \<Rightarrow> u32 \<times> sys" where
  "clock_in c s = (case ioread32 c (iowrite32 0 c s) of (v, s) \<Rightarrow>
     (v, snd (ioread32 c (iowrite32 FLASH_CLK c s))))"

definition clock_out :: "addr \<Rightarrow> u32 \<Rightarrow> sys \<Rightarrow> sys" where
  "clock_out c v s =
     snd (ioread32 c (iowrite32 (v OR FLASH_CLK) c (snd (ioread32 c (iowrite32 v c s)))))"

primrec read_bits :: "addr \<Rightarrow> (u32 \<Rightarrow> u32) \<Rightarrow> nat list \<Rightarrow> u8 \<Rightarrow> sys \<Rightarrow> u8 \<times> sys" where
  "read_bits c f [] val s = (val, s)"
| "read_bits c f (i # is) val s = (case clock_in c s of (v, s) \<Rightarrow>
     read_bits c f is (val OR ucast (push_bit i (f v))) s)"

definition spi_flash_read_byte :: "flash_device \<Rightarrow> spi_proto \<Rightarrow> sys \<Rightarrow> u8 \<times> sys" where
  "spi_flash_read_byte fdev protocol s =
    (let c = fl_ctrl_reg fdev in
     case (case protocol of
         SPI_PROTO_STR \<Rightarrow> read_bits c (\<lambda>v. of_bool (v AND FLASH_D_1 \<noteq> 0)) [7, 6, 5, 4, 3, 2, 1, 0] 0 s
       | SPI_PROTO_DUAL_STR \<Rightarrow> read_bits c (\<lambda>v. v AND FLASH_D_01) [6, 4, 2, 0] 0 s
       | SPI_PROTO_QUAD_STR \<Rightarrow> read_bits c (\<lambda>v. v AND FLASH_D_0123) [4, 0] 0 s
       | _ \<Rightarrow> (0, s)) of (val, s) \<Rightarrow> (val, iowrite32 0 c s))"

definition spi_flash_write_byte :: "flash_device \<Rightarrow> u8 \<Rightarrow> spi_proto \<Rightarrow> sys \<Rightarrow> sys" where
  "spi_flash_write_byte fdev val protocol s =
    (let c = fl_ctrl_reg fdev in
     iowrite32 0 c
      (case protocol of
         SPI_PROTO_STR \<Rightarrow>
           fold (\<lambda>i. clock_out c (ucast (drop_bit i val AND 0x1) OR FLASH_OE_0)) [7, 6, 5, 4, 3, 2, 1, 0] s
       | SPI_PROTO_DUAL_STR \<Rightarrow>
           fold (\<lambda>i. clock_out c (ucast (drop_bit i val AND 0x3) OR FLASH_OE_01)) [6, 4, 2, 0] s
       | SPI_PROTO_QUAD_STR \<Rightarrow>
           fold (\<lambda>i. clock_out c (ucast (drop_bit i val AND 0xf) OR FLASH_OE_0123)) [4, 0] s
       | _ \<Rightarrow> s))"

definition spi_flash_write_addr :: "flash_device \<Rightarrow> u64 \<Rightarrow> spi_proto \<Rightarrow> sys \<Rightarrow> sys" where
  "spi_flash_write_addr fdev a protocol s =
    fold (\<lambda>i. spi_flash_write_byte fdev (ucast (drop_bit i a AND 0xff)) protocol) [16, 8, 0] s"

definition spi_flash_write_addr_4b :: "flash_device \<Rightarrow> u64 \<Rightarrow> spi_proto \<Rightarrow> sys \<Rightarrow> sys" where
  "spi_flash_write_addr_4b fdev a protocol s =
    fold (\<lambda>i. spi_flash_write_byte fdev (ucast (drop_bit i a AND 0xff)) protocol) [24, 16, 8, 0] s"

section \<open>The wires\<close>

text \<open>
  What a flash sees of the register writes: it samples the data lines at each rising edge of the clock while
  it is selected; when it is deselected it acts on what it has sampled. \<open>act\<close> is that action on the state of
  the flash.
\<close>

record 'f wires =
  wi_clk :: bool
  wi_cur :: "u32 list"
  wi_chip :: 'f

definition wire_step :: "(u32 list \<Rightarrow> 'f \<Rightarrow> 'f) \<Rightarrow> u32 \<Rightarrow> 'f wires \<Rightarrow> 'f wires" where
  "wire_step act v w =
    (if v AND FLASH_CS_N \<noteq> 0
     then w\<lparr>wi_clk := v AND FLASH_CLK \<noteq> 0, wi_cur := [],
        wi_chip := (if wi_cur w = [] then wi_chip w else act (wi_cur w) (wi_chip w))\<rparr>
     else w\<lparr>wi_clk := v AND FLASH_CLK \<noteq> 0,
        wi_cur := (if v AND FLASH_CLK \<noteq> 0 \<and> \<not> wi_clk w then wi_cur w @ [v] else wi_cur w)\<rparr>)"

primrec wires_at :: "addr \<Rightarrow> (u32 list \<Rightarrow> 'f \<Rightarrow> 'f) \<Rightarrow> 'f \<Rightarrow> event list \<Rightarrow> 'f wires" where
  "wires_at c act f [] = \<lparr>wi_clk = False, wi_cur = [], wi_chip = f\<rparr>"
| "wires_at c act f (e # t) = (case e of
     Iowrite32 a v \<Rightarrow> if a = c then wire_step act v (wires_at c act f t) else wires_at c act f t
   | _ \<Rightarrow> wires_at c act f t)"

text \<open>The samples a byte is sent as, and the byte that samples stand for, \<open>k\<close> bits each.\<close>

primrec proto_bits :: "spi_proto \<Rightarrow> nat" where
  "proto_bits SPI_PROTO_STR = 1"
| "proto_bits SPI_PROTO_DTR = 0"
| "proto_bits SPI_PROTO_DUAL_STR = 2"
| "proto_bits SPI_PROTO_DUAL_DTR = 0"
| "proto_bits SPI_PROTO_QUAD_STR = 4"
| "proto_bits SPI_PROTO_QUAD_DTR = 0"

primrec samples :: "spi_proto \<Rightarrow> u8 \<Rightarrow> u32 list" where
  "samples SPI_PROTO_STR val =
     map (\<lambda>i. ucast (drop_bit i val AND 0x1) OR FLASH_OE_0 OR FLASH_CLK) [7, 6, 5, 4, 3, 2, 1, 0]"
| "samples SPI_PROTO_DTR val = []"
| "samples SPI_PROTO_DUAL_STR val =
     map (\<lambda>i. ucast (drop_bit i val AND 0x3) OR FLASH_OE_01 OR FLASH_CLK) [6, 4, 2, 0]"
| "samples SPI_PROTO_DUAL_DTR val = []"
| "samples SPI_PROTO_QUAD_STR val =
     map (\<lambda>i. ucast (drop_bit i val AND 0xf) OR FLASH_OE_0123 OR FLASH_CLK) [4, 0]"
| "samples SPI_PROTO_QUAD_DTR val = []"

definition byte_of :: "nat \<Rightarrow> u32 list \<Rightarrow> u8" where
  "byte_of k l = fold (\<lambda>v b. push_bit k b OR ucast (v AND mask k)) l 0"

lemma unat_drop_bit: "unat (drop_bit i (a :: u64)) = unat a div 2 ^ i"
  by (simp only: unsigned_drop_bit_eq drop_bit_eq_div [of i "take_bit _ _"])
    (use unsigned_less [of a, where 'a = nat] in \<open>simp add: take_bit_nat_eq_self\<close>)

lemma wires_iowrite [simp]:
  "wires_at c act f (trace (iowrite32 v c s)) = wire_step act v (wires_at c act f (trace s))"
  by simp

lemma wires_ioread [simp]: "wires_at c act f (trace (snd (ioread32 a s))) = wires_at c act f (trace s)"
  by (simp add: ioread32_def Let_def)

lemma world_clock [simp]:
  "w_ioread (snd (ioread32 a s)) = w_ioread s" "w_ioread (iowrite32 v a s) = w_ioread s"
  "w_ioread (clock_out c v s) = w_ioread s" "w_ioread (snd (clock_in c s)) = w_ioread s"
  by (simp_all add: ioread32_def iowrite32_def clock_out_def clock_in_def Let_def)

text \<open>A data word has neither clock nor chip select set; with the clock added only the clock.\<close>

definition data_lines :: "u32 \<Rightarrow> bool" where
  "data_lines v \<longleftrightarrow> v AND FLASH_CLK = 0 \<and> v AND FLASH_CS_N = 0"

lemma high_bit_clear: "8 \<le> n \<Longrightarrow> ucast (b :: u8) AND push_bit n (1 :: u32) = 0"
  by (rule bit_eqI, auto simp: bit_and_iff bit_ucast_iff bit_exp_iff dest: bit_imp_le_length)

lemma small_lines: "data_lines (ucast (b :: u8))"
  using high_bit_clear [of 16 b] high_bit_clear [of 17 b] by (simp add: data_lines_def flash_line_defs)

lemma data_lines_or: "data_lines v \<Longrightarrow> data_lines w \<Longrightarrow> data_lines (v OR w)"
  by (simp add: data_lines_def bit.conj_disj_distrib2)

lemma data_lines_oe: "data_lines FLASH_OE_0" "data_lines FLASH_OE_01" "data_lines FLASH_OE_0123"
  by (simp_all add: data_lines_def flash_line_defs)

lemma clk_lines: "data_lines v \<Longrightarrow> (v OR FLASH_CLK) AND FLASH_CS_N = 0" "(v OR FLASH_CLK) AND FLASH_CLK \<noteq> 0"
  unfolding data_lines_def flash_line_defs by (simp_all add: bit.conj_disj_distrib2)

lemma wires_clock_out:
  assumes "data_lines v"
  shows "wires_at c act f (trace (clock_out c v s)) =
    (wires_at c act f (trace s))\<lparr>wi_clk := True, wi_cur := wi_cur (wires_at c act f (trace s)) @ [v OR FLASH_CLK]\<rparr>"
  using assms clk_lines [of v] by (simp add: clock_out_def wire_step_def data_lines_def)

lemma wires_clock_in:
  "wires_at c act f (trace (snd (clock_in c s))) =
    (wires_at c act f (trace s))\<lparr>wi_clk := True, wi_cur := wi_cur (wires_at c act f (trace s)) @ [FLASH_CLK]\<rparr>"
  by (simp add: clock_in_def wire_step_def split_beta FLASH_CLK_def FLASH_CS_N_def)

text \<open>Sending a byte leaves its samples on the wires, receiving one leaves idle clocks.\<close>

lemma wires_clock_fold:
  assumes "\<And>i. i \<in> set is \<Longrightarrow> data_lines (g i)"
  shows "wires_at c act f (trace (fold (\<lambda>i. clock_out c (g i)) is s)) =
    (if is = [] then wires_at c act f (trace s)
     else (wires_at c act f (trace s))\<lparr>wi_clk := True,
       wi_cur := wi_cur (wires_at c act f (trace s)) @ map (\<lambda>i. g i OR FLASH_CLK) is\<rparr>)"
  using assms by (induction "is" arbitrary: s) (simp_all add: wires_clock_out)

lemma wires_write_byte:
  "wires_at (fl_ctrl_reg fdev) act f (trace (spi_flash_write_byte fdev val p s)) =
    (let w = wires_at (fl_ctrl_reg fdev) act f (trace s) in w\<lparr>wi_clk := False, wi_cur := wi_cur w @ samples p val\<rparr>)"
proof -
  have d: "data_lines (ucast (drop_bit i val AND m) OR FLASH_OE_0)" "data_lines (ucast (drop_bit i val AND m) OR FLASH_OE_01)"
    "data_lines (ucast (drop_bit i val AND m) OR FLASH_OE_0123)" for i m
    by (simp_all add: data_lines_or small_lines data_lines_oe)
  show ?thesis
    by (cases p; simp only: spi_flash_write_byte_def Let_def spi_proto.case wires_iowrite wires_clock_fold [OF d(1)]
        wires_clock_fold [OF d(2)] wires_clock_fold [OF d(3)]) (simp_all add: wire_step_def or.assoc)
qed

lemma wires_read_bits:
  "wires_at c act f (trace (snd (read_bits c g is val s))) =
    (if is = [] then wires_at c act f (trace s)
     else (wires_at c act f (trace s))\<lparr>wi_clk := True,
       wi_cur := wi_cur (wires_at c act f (trace s)) @ replicate (length is) FLASH_CLK\<rparr>)"
  by (induction "is" arbitrary: val s)
    (simp_all add: split_beta wires_clock_in)

lemma replicates: "replicate 8 x = [x, x, x, x, x, x, x, x]" "replicate 4 x = [x, x, x, x]" "replicate 2 x = [x, x]"
  by (simp_all add: eval_nat_numeral)

lemma wires_read_byte:
  "wires_at (fl_ctrl_reg fdev) act f (trace (snd (spi_flash_read_byte fdev p s))) =
    (let w = wires_at (fl_ctrl_reg fdev) act f (trace s) in w\<lparr>wi_clk := False,
       wi_cur := wi_cur w @ replicate (if proto_bits p = 0 then 0 else 8 div proto_bits p) FLASH_CLK\<rparr>)"
  by (cases p) (simp_all add: spi_flash_read_byte_def Let_def split_beta wires_read_bits wire_step_def
      FLASH_CLK_def FLASH_CS_N_def replicates del: read_bits.simps)

lemma wires_deselect:
  "wires_at (fl_ctrl_reg fdev) act f (trace (spi_flash_deselect fdev s)) =
    (let w = wires_at (fl_ctrl_reg fdev) act f (trace s) in \<lparr>wi_clk = False, wi_cur = [],
       wi_chip = (if wi_cur w = [] then wi_chip w else act (wi_cur w) (wi_chip w))\<rparr>)"
  by (simp add: spi_flash_deselect_def wire_step_def FLASH_CLK_def FLASH_CS_N_def Let_def)

text \<open>The samples of a byte stand for the byte.\<close>

lemma join_bits: "push_bit k (drop_bit (i + k) val) OR (drop_bit i val AND mask k) = drop_bit i (val :: 'a::len word)"
  by (rule bit_word_eqI) (auto simp: bit_simps not_le)

lemma sampled_bits:
  "k \<le> 8 \<Longrightarrow> x \<in> {FLASH_OE_0, FLASH_OE_01, FLASH_OE_0123} \<Longrightarrow>
   ucast ((ucast (b AND mask k :: u8) OR x OR FLASH_CLK) AND mask k) = b AND mask k"
proof -
  assume k: "k \<le> 8" "x \<in> {FLASH_OE_0, FLASH_OE_01, FLASH_OE_0123}"
  have "\<not> bit x n" if "n < 8" for n
    using k(2) that by (auto simp: flash_line_defs less_Suc_eq eval_nat_numeral bit_simps)
  moreover have "\<not> bit FLASH_CLK n" if "n < 8" for n
    using that by (auto simp: flash_line_defs less_Suc_eq eval_nat_numeral bit_simps)
  ultimately show ?thesis using k(1) by (intro bit_word_eqI) (auto simp: bit_simps)
qed

lemma byte_of_map:
  assumes "k \<le> 8" "x \<in> {FLASH_OE_0, FLASH_OE_01, FLASH_OE_0123}"
  shows "byte_of k (map (\<lambda>i. ucast (drop_bit i val AND mask k) OR x OR FLASH_CLK) is) =
    fold (\<lambda>i b. push_bit k b OR (drop_bit i val AND mask k)) is (0 :: u8)"
  using sampled_bits [OF assms] by (simp add: byte_of_def fold_map comp_def)

lemma samples_mask:
  "samples SPI_PROTO_STR val = map (\<lambda>i. ucast (drop_bit i val AND mask 1) OR FLASH_OE_0 OR FLASH_CLK) [7, 6, 5, 4, 3, 2, 1, 0]"
  "samples SPI_PROTO_DUAL_STR val = map (\<lambda>i. ucast (drop_bit i val AND mask 2) OR FLASH_OE_01 OR FLASH_CLK) [6, 4, 2, 0]"
  "samples SPI_PROTO_QUAD_STR val = map (\<lambda>i. ucast (drop_bit i val AND mask 4) OR FLASH_OE_0123 OR FLASH_CLK) [4, 0]"
  by (simp_all add: mask_eq_exp_minus_1)

lemma byte_of_samples: "proto_bits p \<noteq> 0 \<Longrightarrow> byte_of (proto_bits p) (samples p val) = val"
proof -
  have top: "push_bit k 0 OR (drop_bit i val AND mask k) = drop_bit i val" if "i + k = 8" for i k
  proof -
    have "drop_bit 8 val = 0" by (rule bit_word_eqI) (simp add: bit_simps)
    with join_bits [of k i val] that show ?thesis by simp
  qed
  have j: "push_bit k (drop_bit m val) OR (drop_bit i val AND mask k) = drop_bit i val" if "m = i + k" for i k m
    using join_bits [of k i val] that by simp
  have z: "push_bit k (drop_bit k val) OR (val AND mask k) = val" for k
    using join_bits [of k 0 val] by simp
  show "proto_bits p \<noteq> 0 \<Longrightarrow> byte_of (proto_bits p) (samples p val) = val"
    by (cases p) (simp_all only: proto_bits.simps samples_mask byte_of_map fold_simps insert_iff simp_thms top j z id_apply
      arith_simps rel_simps drop_bit_0 order_refl numeral_One one_le_numeral)
qed

lemma length_samples: "length (samples p val) = (if proto_bits p = 0 then 0 else 8 div proto_bits p)"
  by (cases p) simp_all

text \<open>
  What a received byte is: the flash puts it on the lines piece by piece, the next one after each clock.
\<close>

primrec lines_in :: "spi_proto \<Rightarrow> u32 \<Rightarrow> u32" where
  "lines_in SPI_PROTO_STR v = of_bool (v AND FLASH_D_1 \<noteq> 0)"
| "lines_in SPI_PROTO_DTR v = 0"
| "lines_in SPI_PROTO_DUAL_STR v = v AND FLASH_D_01"
| "lines_in SPI_PROTO_DUAL_DTR v = 0"
| "lines_in SPI_PROTO_QUAD_STR v = v AND FLASH_D_0123"
| "lines_in SPI_PROTO_QUAD_DTR v = 0"

definition piece :: "nat \<Rightarrow> u8 \<Rightarrow> nat \<Rightarrow> u8" where
  "piece k b j = drop_bit (8 - k * Suc j) b AND mask k"

lemma read_bits_value:
  assumes "\<And>j t. j < length is \<Longrightarrow> wi_cur (wires_at c act f t) = pre @ replicate j FLASH_CLK \<Longrightarrow>
      wi_chip (wires_at c act f t) = ch \<Longrightarrow> g (w_ioread s t c) = d j"
    and "wi_cur (wires_at c act f (trace s)) = pre" "wi_chip (wires_at c act f (trace s)) = ch"
  shows "fst (read_bits c g is val s) = fold (\<lambda>(i, v) b. b OR ucast (push_bit i v)) (zip is (map d [0..<length is])) val"
  using assms
proof (induction "is" arbitrary: val s pre d)
  case (Cons i "is")
  let ?s = "snd (clock_in c s)"
  have "wi_cur (wires_at c act f (trace (iowrite32 0 c s))) = pre @ replicate 0 FLASH_CLK"
    "wi_chip (wires_at c act f (trace (iowrite32 0 c s))) = ch"
    using Cons.prems(2,3) by (simp_all add: wire_step_def)
  then have v: "g (fst (clock_in c s)) = d 0"
    using Cons.prems(1) [of 0] by (simp add: clock_in_def ioread32_def Let_def)
  have "fst (read_bits c g is (val OR ucast (push_bit i (d 0))) ?s) =
      fold (\<lambda>(i, v) b. b OR ucast (push_bit i v)) (zip is (map (d \<circ> Suc) [0..<length is])) (val OR ucast (push_bit i (d 0)))"
  proof (rule Cons.IH)
    fix j t
    assume "j < length is" "wi_cur (wires_at c act f t) = (pre @ [FLASH_CLK]) @ replicate j FLASH_CLK"
      "wi_chip (wires_at c act f t) = ch"
    then show "g (w_ioread ?s t c) = (d \<circ> Suc) j" using Cons.prems(1) [of "Suc j" t] by simp
  qed (simp_all add: wires_clock_in Cons.prems(2,3))
  with v show ?case by (cases "clock_in c s") (simp add: upt_conv_Cons map_Suc_upt del: upt_Suc flip: map_map)
qed simp

lemma fold_pieces:
  "fold (\<lambda>(i, v) b. b OR ucast (push_bit i v)) (zip [7, 6, 5, 4, 3, 2, 1, 0] (map (\<lambda>j. ucast (piece 1 b j) :: u32) [0..<8])) 0 = b"
  "fold (\<lambda>(i, v) b. b OR ucast (push_bit i v)) (zip [6, 4, 2, 0] (map (\<lambda>j. ucast (piece 2 b j) :: u32) [0..<4])) 0 = b"
  "fold (\<lambda>(i, v) b. b OR ucast (push_bit i v)) (zip [4, 0] (map (\<lambda>j. ucast (piece 4 b j) :: u32) [0..<2])) 0 = b"
proof -
  have c: "ucast (push_bit i (ucast (x :: u8)) :: u32) = push_bit i x" for i x
    by (rule bit_word_eqI) (auto simp: bit_simps)
  have j: "push_bit m (drop_bit m b) OR push_bit i (drop_bit i b AND mask k) = push_bit i (drop_bit i b)" if "m = i + k" for i k m
    unfolding that by (rule bit_word_eqI, rename_tac n, case_tac "n < i + k") (auto simp: bit_simps)
  have z: "push_bit k (drop_bit k b) OR (b AND mask k) = b" for k
    using join_bits [of k 0 b] by simp
  have top: "push_bit i (drop_bit i b AND mask k) = push_bit i (drop_bit i b)" if "8 = i + k" for i k
  proof -
    have "drop_bit 8 b = 0" by (rule bit_word_eqI) (simp add: bit_simps)
    with j [OF that] show ?thesis by simp
  qed
  have p1: "map (\<lambda>j. ucast (piece 1 b j) :: u32) [0..<8] = map (\<lambda>i. ucast (drop_bit i b AND mask 1)) [7, 6, 5, 4, 3, 2, 1, 0]"
    by (simp add: piece_def upt_rec)
  have p2: "map (\<lambda>j. ucast (piece 2 b j) :: u32) [0..<4] = map (\<lambda>i. ucast (drop_bit i b AND mask 2)) [6, 4, 2, 0]"
    by (simp add: piece_def upt_rec)
  have p4: "map (\<lambda>j. ucast (piece 4 b j) :: u32) [0..<2] = map (\<lambda>i. ucast (drop_bit i b AND mask 4)) [4, 0]"
    by (simp add: piece_def upt_rec)
  have p0: "push_bit 0 x = x" for x :: u8 by simp
  note f = list.map zip_Cons_Cons zip_Nil fold_simps prod.case c or.left_neutral top j z drop_bit_0 p0 id_apply
    simp_thms arith_simps numeral_One
  show "fold (\<lambda>(i, v) b. b OR ucast (push_bit i v)) (zip [7, 6, 5, 4, 3, 2, 1, 0] (map (\<lambda>j. ucast (piece 1 b j) :: u32) [0..<8])) 0 = b"
    by (simp only: p1 f)
  show "fold (\<lambda>(i, v) b. b OR ucast (push_bit i v)) (zip [6, 4, 2, 0] (map (\<lambda>j. ucast (piece 2 b j) :: u32) [0..<4])) 0 = b"
    by (simp only: p2 f)
  show "fold (\<lambda>(i, v) b. b OR ucast (push_bit i v)) (zip [4, 0] (map (\<lambda>j. ucast (piece 4 b j) :: u32) [0..<2])) 0 = b"
    by (simp only: p4 f)
qed

theorem read_byte_value:
  assumes "proto_bits p \<noteq> 0" "wi_cur (wires_at (fl_ctrl_reg fdev) act f (trace s)) = pre"
    "wi_chip (wires_at (fl_ctrl_reg fdev) act f (trace s)) = ch"
    and "\<And>j t. j < 8 div proto_bits p \<Longrightarrow> wi_cur (wires_at (fl_ctrl_reg fdev) act f t) = pre @ replicate j FLASH_CLK \<Longrightarrow>
      wi_chip (wires_at (fl_ctrl_reg fdev) act f t) = ch \<Longrightarrow>
      lines_in p (w_ioread s t (fl_ctrl_reg fdev)) = ucast (piece (proto_bits p) b j)"
  shows "fst (spi_flash_read_byte fdev p s) = b"
proof -
  have r: "fst (read_bits (fl_ctrl_reg fdev) (lines_in p) is 0 s) = b"
    if "length is = n" "n = 8 div proto_bits p"
      "fold (\<lambda>(i, v) b. b OR ucast (push_bit i v)) (zip is (map (\<lambda>j. ucast (piece (proto_bits p) b j) :: u32) [0..<n])) 0 = b" for "is" n
    using read_bits_value [of "is" "fl_ctrl_reg fdev" act f pre ch "lines_in p" s "\<lambda>j. ucast (piece (proto_bits p) b j)" 0, OF _ assms(2,3)]
      assms(4) that by simp
  have l: "lines_in SPI_PROTO_STR = (\<lambda>v. of_bool (v AND FLASH_D_1 \<noteq> 0))" "lines_in SPI_PROTO_DUAL_STR = (\<lambda>v. v AND FLASH_D_01)"
    "lines_in SPI_PROTO_QUAD_STR = (\<lambda>v. v AND FLASH_D_0123)"
    by (simp_all add: fun_eq_iff)
  show ?thesis
  proof (cases p)
    case SPI_PROTO_STR
    have "fst (read_bits (fl_ctrl_reg fdev) (lines_in p) [7, 6, 5, 4, 3, 2, 1, 0] 0 s) = b"
      by (rule r [of _ 8]) (simp_all only: SPI_PROTO_STR proto_bits.simps fold_pieces, simp_all)
    then show ?thesis
      by (simp only: SPI_PROTO_STR l spi_flash_read_byte_def Let_def split_beta fst_conv spi_proto.case)
  next
    case SPI_PROTO_DUAL_STR
    have "fst (read_bits (fl_ctrl_reg fdev) (lines_in p) [6, 4, 2, 0] 0 s) = b"
      by (rule r [of _ 4]) (simp_all only: SPI_PROTO_DUAL_STR proto_bits.simps fold_pieces, simp_all)
    then show ?thesis
      by (simp only: SPI_PROTO_DUAL_STR l spi_flash_read_byte_def Let_def split_beta fst_conv spi_proto.case)
  next
    case SPI_PROTO_QUAD_STR
    have "fst (read_bits (fl_ctrl_reg fdev) (lines_in p) [4, 0] 0 s) = b"
      by (rule r [of _ 2]) (simp_all only: SPI_PROTO_QUAD_STR proto_bits.simps fold_pieces, simp_all)
    then show ?thesis
      by (simp only: SPI_PROTO_QUAD_STR l spi_flash_read_byte_def Let_def split_beta fst_conv spi_proto.case)
  qed (use assms(1) in auto)
qed

end
