(* ===== verification/FlashSpi.thy ===== *)
theory FlashSpi
  imports SpiBus
begin

text \<open>
  The serial flash driver (\<open>utils/flash_spi.c\<close>): commands, identification, reading, page programming and
  erasing. What these do is stated against a reference flash that acts on what the wires carry.
\<close>

section \<open>Commands\<close>

definition SPI_CMD_RESET_ENABLE :: u8 where "SPI_CMD_RESET_ENABLE = 0x66"
definition SPI_CMD_RESET_MEMORY :: u8 where "SPI_CMD_RESET_MEMORY = 0x99"
definition SPI_CMD_READ_ID :: u8 where "SPI_CMD_READ_ID = 0x9F"
definition SPI_CMD_READ :: u8 where "SPI_CMD_READ = 0x03"
definition SPI_CMD_FAST_READ_QUAD_IO :: u8 where "SPI_CMD_FAST_READ_QUAD_IO = 0xEB"
definition SPI_CMD_4B_READ :: u8 where "SPI_CMD_4B_READ = 0x13"
definition SPI_CMD_4B_FAST_READ_QUAD_IO :: u8 where "SPI_CMD_4B_FAST_READ_QUAD_IO = 0xEC"
definition SPI_CMD_WRITE_ENABLE :: u8 where "SPI_CMD_WRITE_ENABLE = 0x06"
definition SPI_CMD_WRITE_DISABLE :: u8 where "SPI_CMD_WRITE_DISABLE = 0x04"
definition SPI_CMD_READ_STATUS_REG :: u8 where "SPI_CMD_READ_STATUS_REG = 0x05"
definition SPI_CMD_READ_FLAG_STATUS_REG :: u8 where "SPI_CMD_READ_FLAG_STATUS_REG = 0x70"
definition SPI_CMD_READ_V_CONFIG_REG :: u8 where "SPI_CMD_READ_V_CONFIG_REG = 0x85"
definition SPI_CMD_WRITE_STATUS_REG :: u8 where "SPI_CMD_WRITE_STATUS_REG = 0x01"
definition SPI_CMD_WRITE_V_CONFIG_REG :: u8 where "SPI_CMD_WRITE_V_CONFIG_REG = 0x81"
definition SPI_CMD_CLEAR_FLAG_STATUS_REG :: u8 where "SPI_CMD_CLEAR_FLAG_STATUS_REG = 0x50"
definition SPI_CMD_PAGE_PROGRAM :: u8 where "SPI_CMD_PAGE_PROGRAM = 0x02"
definition SPI_CMD_PAGE_PROGRAM_QUAD_IN_EXT :: u8 where "SPI_CMD_PAGE_PROGRAM_QUAD_IN_EXT = 0x38"
definition SPI_CMD_4B_PAGE_PROGRAM :: u8 where "SPI_CMD_4B_PAGE_PROGRAM = 0x12"
definition SPI_CMD_4B_PAGE_PROGRAM_QUAD_IN_EXT :: u8 where "SPI_CMD_4B_PAGE_PROGRAM_QUAD_IN_EXT = 0x3E"
definition SPI_CMD_4KB_SUBSECTOR_ERASE :: u8 where "SPI_CMD_4KB_SUBSECTOR_ERASE = 0x20"
definition SPI_CMD_SECTOR_ERASE :: u8 where "SPI_CMD_SECTOR_ERASE = 0xD8"
definition SPI_CMD_4B_4KB_SUBSECTOR_ERASE :: u8 where "SPI_CMD_4B_4KB_SUBSECTOR_ERASE = 0x21"
definition SPI_CMD_4B_SECTOR_ERASE :: u8 where "SPI_CMD_4B_SECTOR_ERASE = 0xDC"

lemmas spi_cmds = SPI_CMD_READ_def SPI_CMD_FAST_READ_QUAD_IO_def SPI_CMD_4B_READ_def SPI_CMD_4B_FAST_READ_QUAD_IO_def
  SPI_CMD_WRITE_ENABLE_def SPI_CMD_WRITE_DISABLE_def SPI_CMD_READ_STATUS_REG_def SPI_CMD_PAGE_PROGRAM_def
  SPI_CMD_PAGE_PROGRAM_QUAD_IN_EXT_def SPI_CMD_4B_PAGE_PROGRAM_def SPI_CMD_4B_PAGE_PROGRAM_QUAD_IN_EXT_def
  SPI_CMD_4KB_SUBSECTOR_ERASE_def SPI_CMD_SECTOR_ERASE_def SPI_CMD_4B_4KB_SUBSECTOR_ERASE_def SPI_CMD_4B_SECTOR_ERASE_def

definition SPI_PAGE_SIZE :: u64 where "SPI_PAGE_SIZE = 0x100"
definition SPI_SUBSECTOR_SIZE :: u64 where "SPI_SUBSECTOR_SIZE = 0x1000"
definition SPI_SECTOR_SIZE :: u64 where "SPI_SECTOR_SIZE = 0x10000"

definition spi_flash_write_enable :: "flash_device \<Rightarrow> spi_proto \<Rightarrow> sys \<Rightarrow> sys" where
  "spi_flash_write_enable fdev protocol s =
    spi_flash_deselect fdev (spi_flash_write_byte fdev SPI_CMD_WRITE_ENABLE protocol s)"

definition spi_flash_write_disable :: "flash_device \<Rightarrow> spi_proto \<Rightarrow> sys \<Rightarrow> sys" where
  "spi_flash_write_disable fdev protocol s =
    spi_flash_deselect fdev (spi_flash_write_byte fdev SPI_CMD_WRITE_DISABLE protocol s)"

definition spi_flash_read_status_register :: "flash_device \<Rightarrow> spi_proto \<Rightarrow> sys \<Rightarrow> u8 \<times> sys" where
  "spi_flash_read_status_register fdev protocol s =
    (case spi_flash_read_byte fdev protocol (spi_flash_write_byte fdev SPI_CMD_READ_STATUS_REG protocol s) of
       (val, s) \<Rightarrow> (val, spi_flash_deselect fdev s))"

definition spi_flash_write_status_register :: "flash_device \<Rightarrow> u8 \<Rightarrow> spi_proto \<Rightarrow> sys \<Rightarrow> sys" where
  "spi_flash_write_status_register fdev val protocol s =
    spi_flash_deselect fdev (spi_flash_write_byte fdev val protocol
      (spi_flash_write_byte fdev SPI_CMD_WRITE_STATUS_REG protocol s))"

definition spi_flash_read_flag_status_register :: "flash_device \<Rightarrow> spi_proto \<Rightarrow> sys \<Rightarrow> u8 \<times> sys" where
  "spi_flash_read_flag_status_register fdev protocol s =
    (case spi_flash_read_byte fdev protocol (spi_flash_write_byte fdev SPI_CMD_READ_FLAG_STATUS_REG protocol s) of
       (val, s) \<Rightarrow> (val, spi_flash_deselect fdev s))"

definition spi_flash_clear_flag_status_register :: "flash_device \<Rightarrow> spi_proto \<Rightarrow> sys \<Rightarrow> sys" where
  "spi_flash_clear_flag_status_register fdev protocol s =
    spi_flash_deselect fdev (spi_flash_write_byte fdev SPI_CMD_CLEAR_FLAG_STATUS_REG protocol s)"

definition spi_flash_read_volatile_config_register :: "flash_device \<Rightarrow> spi_proto \<Rightarrow> sys \<Rightarrow> u8 \<times> sys" where
  "spi_flash_read_volatile_config_register fdev protocol s =
    (case spi_flash_read_byte fdev protocol (spi_flash_write_byte fdev SPI_CMD_READ_V_CONFIG_REG protocol s) of
       (val, s) \<Rightarrow> (val, spi_flash_deselect fdev s))"

definition spi_flash_write_volatile_config_register :: "flash_device \<Rightarrow> u8 \<Rightarrow> spi_proto \<Rightarrow> sys \<Rightarrow> sys" where
  "spi_flash_write_volatile_config_register fdev val protocol s =
    spi_flash_deselect fdev (spi_flash_write_byte fdev val protocol
      (spi_flash_write_byte fdev SPI_CMD_WRITE_V_CONFIG_REG protocol s))"

definition dummy_read :: "flash_device \<Rightarrow> sys \<Rightarrow> sys" where
  "dummy_read fdev s = snd (ioread32 (fl_ctrl_reg fdev) s)"

definition spi_flash_reset :: "flash_device \<Rightarrow> spi_proto \<Rightarrow> sys \<Rightarrow> sys" where
  "spi_flash_reset fdev protocol s =
    (let s = spi_flash_deselect fdev s;
         s = spi_flash_deselect fdev (spi_flash_write_byte fdev SPI_CMD_RESET_ENABLE protocol s);
         s = dummy_read fdev (dummy_read fdev s);
         s = spi_flash_deselect fdev (spi_flash_write_byte fdev SPI_CMD_RESET_MEMORY protocol s)
     in dummy_read fdev (dummy_read fdev s))"

definition spi_flash_release :: "flash_device \<Rightarrow> sys \<Rightarrow> sys" where
  "spi_flash_release fdev s = spi_flash_deselect fdev s"

section \<open>Identification\<close>

text \<open>The capacity is a binary coded number; a shift by 64 or more is undefined, a fault.\<close>

definition spi_capacity :: "u8 \<Rightarrow> nat" where
  "spi_capacity c = unat (c AND 0xf) + unat (drop_bit 4 c AND 0xf) * 10"

definition spi_flash_init :: "flash_device \<Rightarrow> sys \<Rightarrow> (int \<times> flash_device \<times> sys) option" where
  "spi_flash_init fdev s =
    (let s = spi_flash_write_byte fdev SPI_CMD_READ_ID SPI_PROTO_STR (spi_flash_reset fdev SPI_PROTO_STR s);
         (mfr_id, s) = spi_flash_read_byte fdev SPI_PROTO_STR s;
         (mem_type, s) = spi_flash_read_byte fdev SPI_PROTO_STR s;
         (mem_capacity, s) = spi_flash_read_byte fdev SPI_PROTO_STR s;
         s = spi_flash_deselect fdev s;
         shift = spi_capacity mem_capacity + 6
     in if shift \<ge> 64 then None
        else
          let fdev = fdev\<lparr>fl_size := 2 ^ shift, fl_protocol := proto_num SPI_PROTO_STR, fl_bulk_protocol := proto_num SPI_PROTO_STR,
                fl_read_dummy_cycles := 0, fl_write_buffer_size := SPI_PAGE_SIZE,
                fl_erase_block_size := SPI_SUBSECTOR_SIZE\<rparr>;
              (fdev, s) = (if fl_data_width fdev = 4
                 then (fdev\<lparr>fl_bulk_protocol := proto_num SPI_PROTO_QUAD_STR, fl_read_dummy_cycles := 10\<rparr>,
                       spi_flash_write_volatile_config_register fdev 0xFB SPI_PROTO_STR s)
                 else (fdev, s))
          in Some (0, fdev, spi_flash_release fdev s))"

section \<open>Reading\<close>

text \<open>The bulk protocol of an operation.\<close>

definition spi_protocol :: "flash_device \<Rightarrow> spi_proto" where
  "spi_protocol fdev = (if fl_data_width fdev = 4 then SPI_PROTO_QUAD_STR else SPI_PROTO_STR)"

definition spi_command :: "flash_device \<Rightarrow> u8 \<Rightarrow> u8 \<Rightarrow> u8 \<Rightarrow> u8 \<Rightarrow> spi_proto \<Rightarrow> u64 \<Rightarrow> sys \<Rightarrow> sys" where
  "spi_command fdev quad4 single4 quad3 single3 protocol a s =
    (if a > 0xffffff
     then spi_flash_write_addr_4b fdev a protocol
            (spi_flash_write_byte fdev (if protocol = SPI_PROTO_QUAD_STR then quad4 else single4) SPI_PROTO_STR s)
     else spi_flash_write_addr fdev a protocol
            (spi_flash_write_byte fdev (if protocol = SPI_PROTO_QUAD_STR then quad3 else single3) SPI_PROTO_STR s))"

definition spi_dummy_cycle :: "flash_device \<Rightarrow> sys \<Rightarrow> sys" where
  "spi_dummy_cycle fdev s = iowrite32 0 (fl_ctrl_reg fdev) (iowrite32 FLASH_CLK (fl_ctrl_reg fdev) s)"

primrec spi_read_loop :: "flash_device \<Rightarrow> spi_proto \<Rightarrow> nat \<Rightarrow> sys \<Rightarrow> u8 list \<times> sys" where
  "spi_read_loop fdev protocol 0 s = ([], s)"
| "spi_read_loop fdev protocol (Suc len) s =
    (case spi_flash_read_byte fdev protocol s of (b, s) \<Rightarrow>
     case spi_read_loop fdev protocol len s of (bs, s) \<Rightarrow> (b # bs, s))"

text \<open>The bytes stored at \<open>dest\<close> are the second component of the result.\<close>

definition spi_flash_read :: "flash_device \<Rightarrow> u64 \<Rightarrow> nat \<Rightarrow> sys \<Rightarrow> int \<times> u8 list \<times> sys" where
  "spi_flash_read fdev a len s =
    (let protocol = spi_protocol fdev;
         s = spi_command fdev SPI_CMD_4B_FAST_READ_QUAD_IO SPI_CMD_4B_READ SPI_CMD_FAST_READ_QUAD_IO SPI_CMD_READ protocol a s;
         s = (if protocol \<noteq> SPI_PROTO_STR then (spi_dummy_cycle fdev ^^ fl_read_dummy_cycles fdev) s else s);
         (dest, s) = spi_read_loop fdev protocol len s
     in (0, dest, spi_flash_deselect fdev s))"

section \<open>Programming\<close>

text \<open>Waiting for the flash to finish may never end.\<close>

partial_function (option) spi_wait :: "flash_device \<Rightarrow> sys \<Rightarrow> sys option" where
  [code]: "spi_wait fdev s = (case spi_flash_read_status_register fdev SPI_PROTO_STR s of (v, s) \<Rightarrow>
     if v AND 0x01 \<noteq> 0 then spi_wait fdev s else Some s)"

text \<open>The bytes up to the end of the page; the list is what is left at \<open>src\<close>.\<close>

fun spi_write_page :: "flash_device \<Rightarrow> spi_proto \<Rightarrow> u64 \<Rightarrow> u8 list \<Rightarrow> sys \<Rightarrow> u64 \<times> u8 list \<times> sys" where
  "spi_write_page fdev protocol a [] s = (a, [], s)"
| "spi_write_page fdev protocol a (b # bs) s =
    (let s = spi_flash_write_byte fdev b protocol s; a = a + 1
     in if a AND 0xff = 0 then (a, bs, s) else spi_write_page fdev protocol a bs s)"

partial_function (option) spi_write_loop :: "flash_device \<Rightarrow> spi_proto \<Rightarrow> u64 \<Rightarrow> u8 list \<Rightarrow> sys \<Rightarrow> (int \<times> sys) option" where
  [code]: "spi_write_loop fdev protocol a src s =
    (if src = [] then Some (0, spi_flash_deselect fdev s)
     else case spi_flash_read_status_register fdev SPI_PROTO_STR (spi_flash_write_enable fdev SPI_PROTO_STR s) of (v, s) \<Rightarrow>
       if v AND 0x02 = 0 then Some (- 1, spi_flash_deselect fdev s)
       else
         case spi_write_page fdev protocol a src
           (spi_command fdev SPI_CMD_4B_PAGE_PROGRAM_QUAD_IN_EXT SPI_CMD_4B_PAGE_PROGRAM
              SPI_CMD_PAGE_PROGRAM_QUAD_IN_EXT SPI_CMD_PAGE_PROGRAM protocol a s) of (a, src, s) \<Rightarrow>
         Option.bind (spi_wait fdev (spi_flash_deselect fdev s)) (\<lambda>s. spi_write_loop fdev protocol a src s))"

definition spi_flash_write :: "flash_device \<Rightarrow> u64 \<Rightarrow> u8 list \<Rightarrow> sys \<Rightarrow> (int \<times> sys) option" where
  "spi_flash_write fdev a src s = spi_write_loop fdev (spi_protocol fdev) a src s"

section \<open>Erasing\<close>

definition spi_erase_size :: "u64 \<Rightarrow> u64 \<Rightarrow> u64" where
  "spi_erase_size a len =
    (if a AND (SPI_SECTOR_SIZE - 1) = 0 \<and> len \<ge> SPI_SECTOR_SIZE then SPI_SECTOR_SIZE
     else if a AND (SPI_SUBSECTOR_SIZE - 1) = 0 \<and> len \<ge> SPI_SUBSECTOR_SIZE then SPI_SUBSECTOR_SIZE
     else 0)"

definition spi_block_erase :: "flash_device \<Rightarrow> u64 \<Rightarrow> u64 \<Rightarrow> sys \<Rightarrow> sys" where
  "spi_block_erase fdev blk a s =
    (if a > 0xffffff
     then spi_flash_write_addr_4b fdev a SPI_PROTO_STR (spi_flash_write_byte fdev
            (if blk = SPI_SECTOR_SIZE then SPI_CMD_4B_SECTOR_ERASE else SPI_CMD_4B_4KB_SUBSECTOR_ERASE) SPI_PROTO_STR s)
     else spi_flash_write_addr fdev a SPI_PROTO_STR (spi_flash_write_byte fdev
            (if blk = SPI_SECTOR_SIZE then SPI_CMD_SECTOR_ERASE else SPI_CMD_4KB_SUBSECTOR_ERASE) SPI_PROTO_STR s))"

partial_function (option) spi_flash_erase :: "flash_device \<Rightarrow> u64 \<Rightarrow> u64 \<Rightarrow> sys \<Rightarrow> (int \<times> sys) option" where
  [code]: "spi_flash_erase fdev a len s =
    (if len = 0 then Some (0, spi_flash_deselect fdev s)
     else let blk = spi_erase_size a len in
       if blk = 0 then Some (- 1, spi_flash_deselect fdev s)
       else case spi_flash_read_status_register fdev SPI_PROTO_STR (spi_flash_write_enable fdev SPI_PROTO_STR s) of (v, s) \<Rightarrow>
         if v AND 0x02 = 0 then Some (- 1, spi_flash_deselect fdev s)
         else Option.bind (spi_wait fdev (spi_flash_deselect fdev (spi_block_erase fdev blk a s))) (\<lambda>s.
           if len \<le> blk then Some (0, spi_flash_deselect fdev s)
           else spi_flash_erase fdev (a + blk) (len - blk) s))"

end
