(* ===== verification/SpiRefine.thy ===== *)
theory SpiRefine
  imports FlashSpi
begin

text \<open>
  A reference serial flash and the driver's refinement of it: programming, erasing and reading over the wires
  are an \<open>AND\<close>, a fill with ones and a look-up on the memory of the flash.
\<close>

section \<open>The reference flash\<close>

text \<open>
  The identification, the memory, the write enable latch, and the number of status reads for which it is still busy. Programming
  clears bits within one page, wrapping at its end; erasing sets a block to ones; both need the latch and reset
  it. A busy flash takes no command but the status read. A read wraps at the end of what its address bytes reach.
\<close>

record spi_chip =
  ch_id :: "nat \<Rightarrow> u8"
  ch_mem :: "nat \<Rightarrow> u8"
  ch_wel :: bool
  ch_busy :: nat

function bytes_of :: "spi_proto \<Rightarrow> u32 list \<Rightarrow> u8 list" where
  "bytes_of p l = (let n = 8 div proto_bits p in
     if n = 0 \<or> length l < n then [] else byte_of (proto_bits p) (take n l) # bytes_of p (drop n l))"
  by pat_completeness auto
termination by (relation "measure (\<lambda>(p, l). length l)") (auto simp: Let_def)

declare bytes_of.simps [simp del]

definition addr_of :: "u8 list \<Rightarrow> nat" where
  "addr_of bs = fold (\<lambda>b a. a * 256 + unat b) bs 0"

definition page_program :: "nat \<Rightarrow> u8 list \<Rightarrow> (nat \<Rightarrow> u8) \<Rightarrow> nat \<Rightarrow> u8" where
  "page_program a bs m = fold (\<lambda>(i, b) m. let x = a div 256 * 256 + (a + i) mod 256 in m(x := m x AND b)) (enumerate 0 bs) m"

definition erase_block :: "nat \<Rightarrow> nat \<Rightarrow> (nat \<Rightarrow> u8) \<Rightarrow> nat \<Rightarrow> u8" where
  "erase_block n a m = (\<lambda>x. if x div n = a div n then 0xff else m x)"

text \<open>The protocol and the number of address bytes of a command.\<close>

definition program_cmd :: "u8 \<Rightarrow> (spi_proto \<times> nat) option" where
  "program_cmd c = (if c = 0x02 then Some (SPI_PROTO_STR, 3) else if c = 0x12 then Some (SPI_PROTO_STR, 4)
     else if c = 0x38 then Some (SPI_PROTO_QUAD_STR, 3) else if c = 0x3e then Some (SPI_PROTO_QUAD_STR, 4) else None)"

definition erase_cmd :: "u8 \<Rightarrow> (nat \<times> nat) option" where
  "erase_cmd c = (if c = 0x20 then Some (3, 0x1000) else if c = 0xd8 then Some (3, 0x10000)
     else if c = 0x21 then Some (4, 0x1000) else if c = 0xdc then Some (4, 0x10000) else None)"

definition read_cmd :: "u8 \<Rightarrow> (spi_proto \<times> nat \<times> nat) option" where
  "read_cmd c = (if c = 0x03 then Some (SPI_PROTO_STR, 3, 0) else if c = 0x13 then Some (SPI_PROTO_STR, 4, 0)
     else if c = 0xeb then Some (SPI_PROTO_QUAD_STR, 3, 10) else if c = 0xec then Some (SPI_PROTO_QUAD_STR, 4, 10) else None)"

definition command_of :: "u32 list \<Rightarrow> u8" where
  "command_of l = byte_of 1 (take 8 l)"

definition chip_done :: "nat \<Rightarrow> (nat \<Rightarrow> u8) \<Rightarrow> spi_chip \<Rightarrow> spi_chip" where
  "chip_done delay m ch = ch\<lparr>ch_mem := m, ch_wel := False, ch_busy := delay\<rparr>"

definition chip_act :: "nat \<Rightarrow> u32 list \<Rightarrow> spi_chip \<Rightarrow> spi_chip" where
  "chip_act delay l ch =
    (let c = command_of l in
     if ch_busy ch > 0 then (if c = 0x05 then ch\<lparr>ch_busy := ch_busy ch - 1\<rparr> else ch)
     else if c = 0x06 then ch\<lparr>ch_wel := True\<rparr>
     else if c = 0x04 then ch\<lparr>ch_wel := False\<rparr>
     else case program_cmd c of
       Some (p, n) \<Rightarrow> let bs = bytes_of p (drop 8 l) in
         if ch_wel ch \<and> n < length bs \<and> length bs \<le> n + 256
         then chip_done delay (page_program (addr_of (take n bs)) (drop n bs) (ch_mem ch)) ch else ch
     | None \<Rightarrow> (case erase_cmd c of
         Some (n, blk) \<Rightarrow> let bs = bytes_of SPI_PROTO_STR (drop 8 l) in
           if ch_wel ch \<and> length bs = n then chip_done delay (erase_block blk (addr_of bs) (ch_mem ch)) ch else ch
       | None \<Rightarrow> ch))"

text \<open>The status, and what the flash puts on the lines: a protocol, the length of the request, and the bytes.\<close>

definition chip_status :: "spi_chip \<Rightarrow> u8" where
  "chip_status ch = (if ch_wel ch then 0x02 else 0) OR (if ch_busy ch > 0 then 0x01 else 0)"

definition chip_output :: "spi_chip \<Rightarrow> u32 list \<Rightarrow> (spi_proto \<times> nat \<times> (nat \<Rightarrow> u8)) option" where
  "chip_output ch l =
    (if length l < 8 then None
     else if command_of l = 0x05 then Some (SPI_PROTO_STR, 8, \<lambda>_. chip_status ch)
     else if command_of l = 0x9f then Some (SPI_PROTO_STR, 8, ch_id ch)
     else case read_cmd (command_of l) of
       None \<Rightarrow> None
     | Some (p, n, dummies) \<Rightarrow>
         let k = n * (8 div proto_bits p) in
         if ch_busy ch > 0 \<or> length l < 8 + k + dummies then None
         else Some (p, 8 + k + dummies, \<lambda>j. ch_mem ch ((addr_of (bytes_of p (take k (drop 8 l))) + j) mod 256 ^ n)))"

text \<open>A flash is attached when the control register reads as what the flash puts on the lines.\<close>

definition spi_attached :: "flash_device \<Rightarrow> nat \<Rightarrow> spi_chip \<Rightarrow> sys \<Rightarrow> bool" where
  "spi_attached fdev delay ch0 s \<longleftrightarrow> (\<forall>t. let w = wires_at (fl_ctrl_reg fdev) (chip_act delay) ch0 t in
     case chip_output (wi_chip w) (wi_cur w) of
       None \<Rightarrow> True
     | Some (p, n, g) \<Rightarrow> let i = length (wi_cur w) - n; k = 8 div proto_bits p in
         lines_in p (w_ioread s t (fl_ctrl_reg fdev)) = ucast (piece (proto_bits p) (g (i div k)) (i mod k)))"

text \<open>The samples the flash has taken and its state, with the flash attached.\<close>

definition spi_at :: "flash_device \<Rightarrow> nat \<Rightarrow> spi_chip \<Rightarrow> u32 list \<Rightarrow> spi_chip \<Rightarrow> sys \<Rightarrow> bool" where
  "spi_at fdev delay ch0 l ch s \<longleftrightarrow> spi_attached fdev delay ch0 s \<and>
     (let w = wires_at (fl_ctrl_reg fdev) (chip_act delay) ch0 (trace s) in \<not> wi_clk w \<and> wi_cur w = l \<and> wi_chip w = ch)"

abbreviation spi_idle :: "flash_device \<Rightarrow> nat \<Rightarrow> spi_chip \<Rightarrow> spi_chip \<Rightarrow> sys \<Rightarrow> bool" where
  "spi_idle fdev delay ch0 ch s \<equiv> spi_at fdev delay ch0 [] ch s"

section \<open>Steps\<close>

lemma world_spi [simp]:
  "w_ioread (spi_flash_write_byte fdev b p s) = w_ioread s" "w_ioread (spi_flash_deselect fdev s) = w_ioread s"
  "w_ioread (snd (spi_flash_read_byte fdev p s)) = w_ioread s"
proof -
  have "w_ioread (fold (\<lambda>i. clock_out c (g i)) is s) = w_ioread s" for c g "is"
    by (induction "is" arbitrary: s) simp_all
  then show "w_ioread (spi_flash_write_byte fdev b p s) = w_ioread s"
    by (cases p) (simp_all only: spi_flash_write_byte_def Let_def spi_proto.case world_clock)
  have "w_ioread (snd (read_bits c g is v s)) = w_ioread s" for c g "is" v
    by (induction "is" arbitrary: s v) (simp_all add: split_beta)
  then show "w_ioread (snd (spi_flash_read_byte fdev p s)) = w_ioread s"
    by (cases p) (simp_all only: spi_flash_read_byte_def Let_def spi_proto.case world_clock split_beta snd_conv fst_conv)
qed (simp add: spi_flash_deselect_def)

lemma attached_cong:
  assumes "w_ioread s' = w_ioread s"
  shows "spi_attached fdev delay ch0 s' = spi_attached fdev delay ch0 s"
  unfolding spi_attached_def assms ..

lemma spi_at_write_byte:
  "spi_at fdev delay ch0 l ch s \<Longrightarrow> spi_at fdev delay ch0 (l @ samples p b) ch (spi_flash_write_byte fdev b p s)"
  by (simp add: spi_at_def wires_write_byte Let_def attached_cong [of "spi_flash_write_byte fdev b p s" s])

lemma spi_at_read_byte:
  "spi_at fdev delay ch0 l ch s \<Longrightarrow> proto_bits p \<noteq> 0 \<Longrightarrow>
   spi_at fdev delay ch0 (l @ replicate (8 div proto_bits p) FLASH_CLK) ch (snd (spi_flash_read_byte fdev p s))"
  by (simp add: spi_at_def wires_read_byte Let_def attached_cong [of "snd (spi_flash_read_byte fdev p s)" s])

lemma spi_at_deselect:
  "spi_at fdev delay ch0 l ch s \<Longrightarrow>
   spi_idle fdev delay ch0 (if l = [] then ch else chip_act delay l ch) (spi_flash_deselect fdev s)"
  by (simp add: spi_at_def wires_deselect Let_def attached_cong [of "spi_flash_deselect fdev s" s])

lemma chip_output_prefix: "chip_output ch l = Some (p, n, g) \<Longrightarrow> chip_output ch (l @ x) = Some (p, n, g) \<and> n \<le> length l \<and> proto_bits p \<noteq> 0"
  by (auto simp: chip_output_def command_of_def Let_def read_cmd_def split: if_splits option.splits)

lemma spi_read_value:
  assumes "spi_at fdev delay ch0 l ch s" "chip_output ch l = Some (p, n, g)" "length l = n + i * (8 div proto_bits p)"
  shows "fst (spi_flash_read_byte fdev p s) = g i"
proof -
  note o = chip_output_prefix [OF assms(2)]
  show ?thesis
  proof (rule read_byte_value [of p fdev "chip_act delay" ch0 s l ch])
    fix j t
    assume t: "j < 8 div proto_bits p" "wi_cur (wires_at (fl_ctrl_reg fdev) (chip_act delay) ch0 t) = l @ replicate j FLASH_CLK"
      "wi_chip (wires_at (fl_ctrl_reg fdev) (chip_act delay) ch0 t) = ch"
    then have "(length l + j - n) div (8 div proto_bits p) = i" "(length l + j - n) mod (8 div proto_bits p) = j"
      using assms(3) by simp_all
    with t o assms(1) show "lines_in p (w_ioread s t (fl_ctrl_reg fdev)) = ucast (piece (proto_bits p) (g i) j)"
      by (auto simp: spi_at_def spi_attached_def Let_def dest!: spec [of _ t])
  qed (use o assms(1) in \<open>auto simp: spi_at_def Let_def\<close>)
qed

section \<open>Commands on the wires\<close>

lemma take_samples: "proto_bits p \<noteq> 0 \<Longrightarrow> take (8 div proto_bits p) (samples p b @ x) = samples p b"
  "proto_bits p \<noteq> 0 \<Longrightarrow> drop (8 div proto_bits p) (samples p b @ x) = x"
  by (simp_all add: length_samples)

lemma command_of_samples: "command_of (samples SPI_PROTO_STR c @ x) = c" "command_of (samples SPI_PROTO_STR c) = c"
proof -
  have "length (samples SPI_PROTO_STR c) = 8" by (simp add: length_samples del: samples.simps)
  then show "command_of (samples SPI_PROTO_STR c @ x) = c" "command_of (samples SPI_PROTO_STR c) = c"
    using byte_of_samples [of SPI_PROTO_STR c] by (simp_all add: command_of_def del: samples.simps)
qed

lemma drop_command: "drop 8 (samples SPI_PROTO_STR c @ x) = x" "length (samples SPI_PROTO_STR c) = 8"
  using take_samples(2) [of SPI_PROTO_STR c] by (simp_all del: samples.simps add: length_samples)

abbreviation on_wires :: "spi_proto \<Rightarrow> u8 list \<Rightarrow> u32 list" where
  "on_wires p bs \<equiv> concat (map (samples p) bs)"

lemma bytes_of_wires: "proto_bits p \<noteq> 0 \<Longrightarrow> bytes_of p (on_wires p bs) = bs"
proof (induction bs)
  case Nil
  moreover have "0 < 8 div proto_bits p" using Nil by (cases p) simp_all
  ultimately show ?case by (subst bytes_of.simps) simp
next
  case (Cons b bs)
  moreover have "0 < 8 div proto_bits p" using Cons.prems by (cases p) simp_all
  ultimately show ?case by (subst bytes_of.simps) (simp add: Let_def take_samples byte_of_samples length_samples)
qed

lemma length_on_wires: "proto_bits p \<noteq> 0 \<Longrightarrow> length (on_wires p bs) = length bs * (8 div proto_bits p)"
  by (induction bs) (simp_all add: length_samples)

lemma spi_at_write_bytes:
  "spi_at fdev delay ch0 l ch s \<Longrightarrow>
   spi_at fdev delay ch0 (l @ on_wires p (map g is)) ch (fold (\<lambda>i. spi_flash_write_byte fdev (g i) p) is s)"
proof (induction "is" arbitrary: l s)
  case (Cons i "is")
  from Cons.IH [OF spi_at_write_byte [OF Cons.prems]] show ?case by simp
qed simp

definition addr_bytes :: "nat \<Rightarrow> u64 \<Rightarrow> u8 list" where
  "addr_bytes n a = map (\<lambda>i. ucast (drop_bit (8 * i) a AND 0xff)) (rev [0..<n])"

lemma addr_bytes_34:
  "addr_bytes 3 a = map (\<lambda>i. ucast (drop_bit i a AND 0xff)) [16, 8, 0]"
  "addr_bytes 4 a = map (\<lambda>i. ucast (drop_bit i a AND 0xff)) [24, 16, 8, 0]"
  by (simp_all add: addr_bytes_def upt_rec)

lemma spi_at_write_addr:
  assumes "spi_at fdev delay ch0 l ch s"
  shows "spi_at fdev delay ch0 (l @ on_wires p (addr_bytes 3 a)) ch (spi_flash_write_addr fdev a p s)"
    "spi_at fdev delay ch0 (l @ on_wires p (addr_bytes 4 a)) ch (spi_flash_write_addr_4b fdev a p s)"
  unfolding addr_bytes_34 spi_flash_write_addr_def spi_flash_write_addr_4b_def by (rule spi_at_write_bytes [OF assms])+

lemma unat_low_byte: "unat (ucast (drop_bit i (a :: u64) AND 0xff) :: u8) = unat a div 2 ^ i mod 256"
proof -
  have "(0xff :: u64) = mask 8" by (simp add: mask_eq_exp_minus_1)
  then have "unat (drop_bit i a AND 0xff) = unat a div 2 ^ i mod 256"
    by (simp only: mask_mod unat_drop_bit) simp
  moreover have "unat (ucast (drop_bit i a AND 0xff) :: u8) = take_bit 8 (unat (drop_bit i a AND 0xff))"
    by (simp add: unsigned_ucast_eq)
  ultimately show ?thesis by (simp add: take_bit_eq_mod)
qed

lemma base_256: "(x :: nat) < 2 ^ 24 \<Longrightarrow> (x div 65536 mod 256 * 256 + x div 256 mod 256) * 256 + x mod 256 = x"
  "(x :: nat) < 2 ^ 32 \<Longrightarrow>
   ((x div 16777216 mod 256 * 256 + x div 65536 mod 256) * 256 + x div 256 mod 256) * 256 + x mod 256 = x"
proof -
  have d: "x div 65536 = x div 256 div 256" "x div 16777216 = x div 256 div 256 div 256"
    by (simp_all add: div_mult2_eq)
  show "x < 2 ^ 24 \<Longrightarrow> (x div 65536 mod 256 * 256 + x div 256 mod 256) * 256 + x mod 256 = x"
    by (simp add: d)
  show "x < 2 ^ 32 \<Longrightarrow>
   ((x div 16777216 mod 256 * 256 + x div 65536 mod 256) * 256 + x div 256 mod 256) * 256 + x mod 256 = x"
    by (simp add: d)
qed

lemma addr_of_bytes:
  "unat a < 2 ^ 24 \<Longrightarrow> addr_of (addr_bytes 3 a) = unat a" "unat a < 2 ^ 32 \<Longrightarrow> addr_of (addr_bytes 4 a) = unat a"
  unfolding addr_bytes_34 addr_of_def list.map fold_simps unat_low_byte
  using base_256 [of "unat a"] by simp_all

section \<open>Status and write enable\<close>

lemma spi_at_write_enable:
  assumes "spi_idle fdev delay ch0 ch s" "ch_busy ch = 0"
  shows "spi_idle fdev delay ch0 (ch\<lparr>ch_wel := True\<rparr>) (spi_flash_write_enable fdev SPI_PROTO_STR s)"
proof -
  have "chip_act delay (samples SPI_PROTO_STR SPI_CMD_WRITE_ENABLE) ch = ch\<lparr>ch_wel := True\<rparr>"
    using assms(2) by (simp add: chip_act_def command_of_samples SPI_CMD_WRITE_ENABLE_def del: samples.simps)
  then show ?thesis
    using spi_at_deselect [OF spi_at_write_byte [OF assms(1), of SPI_PROTO_STR SPI_CMD_WRITE_ENABLE]]
    by (simp add: spi_flash_write_enable_def)
qed

lemma spi_at_status:
  assumes "spi_idle fdev delay ch0 ch s" "spi_flash_read_status_register fdev SPI_PROTO_STR s = (v, s')"
  shows "v = chip_status ch \<and> spi_idle fdev delay ch0 (ch\<lparr>ch_busy := ch_busy ch - 1\<rparr>) s'"
proof -
  let ?l = "samples SPI_PROTO_STR SPI_CMD_READ_STATUS_REG" and ?s = "spi_flash_write_byte fdev SPI_CMD_READ_STATUS_REG SPI_PROTO_STR s"
  have w: "spi_at fdev delay ch0 ?l ch ?s"
    using spi_at_write_byte [OF assms(1), of SPI_PROTO_STR SPI_CMD_READ_STATUS_REG] by (simp only: append_Nil)
  have o: "chip_output ch ?l = Some (SPI_PROTO_STR, 8, \<lambda>_. chip_status ch)"
    using drop_command(2) by (simp add: chip_output_def command_of_samples SPI_CMD_READ_STATUS_REG_def del: samples.simps)
  have v: "fst (spi_flash_read_byte fdev SPI_PROTO_STR ?s) = chip_status ch"
    using spi_read_value [OF w o, of 0] drop_command(2) by (simp del: samples.simps)
  have "chip_act delay (?l @ x) ch = ch\<lparr>ch_busy := ch_busy ch - 1\<rparr>" for x
    by (simp add: chip_act_def command_of_samples SPI_CMD_READ_STATUS_REG_def program_cmd_def erase_cmd_def del: samples.simps)
  with spi_at_deselect [OF spi_at_read_byte [OF w, of SPI_PROTO_STR]]
  have "spi_idle fdev delay ch0 (ch\<lparr>ch_busy := ch_busy ch - 1\<rparr>) (spi_flash_deselect fdev (snd (spi_flash_read_byte fdev SPI_PROTO_STR ?s)))"
    by (simp del: samples.simps)
  with v assms(2) show ?thesis by (auto simp: spi_flash_read_status_register_def split_beta)
qed

lemma status_bits: "chip_status ch AND 1 \<noteq> 0 \<longleftrightarrow> ch_busy ch > 0" "chip_status ch AND 2 \<noteq> 0 \<longleftrightarrow> ch_wel ch"
  by (simp_all add: chip_status_def)

lemma spi_wait_ends:
  "spi_idle fdev delay ch0 ch s \<Longrightarrow> \<exists>s'. spi_wait fdev s = Some s' \<and> spi_idle fdev delay ch0 (ch\<lparr>ch_busy := 0\<rparr>) s'"
proof (induction "ch_busy ch" arbitrary: ch s)
  case 0
  obtain v t where r: "spi_flash_read_status_register fdev SPI_PROTO_STR s = (v, t)" by force
  note st = spi_at_status [OF 0(2) r]
  then have "v AND 1 = 0" using status_bits(1) [of ch] 0(1) by simp
  with r st 0(1) show ?case by (subst spi_wait.simps) simp
next
  case (Suc n)
  obtain v t where r: "spi_flash_read_status_register fdev SPI_PROTO_STR s = (v, t)" by force
  note st = spi_at_status [OF Suc(3) r]
  then have "v AND 1 \<noteq> 0" using status_bits(1) [of ch] Suc(2) by simp
  with r st Suc(1) [of "ch\<lparr>ch_busy := ch_busy ch - 1\<rparr>" t] Suc(2) show ?case by (subst spi_wait.simps) simp
qed

section \<open>Programming\<close>

text \<open>Writing a range: each byte is combined with the one in memory.\<close>

definition and_range :: "nat \<Rightarrow> u8 list \<Rightarrow> (nat \<Rightarrow> u8) \<Rightarrow> nat \<Rightarrow> u8" where
  "and_range a bs m = (\<lambda>x. if a \<le> x \<and> x < a + length bs then m x AND bs ! (x - a) else m x)"

lemma and_range_Nil [simp]: "and_range a [] m = m"
  by (auto simp: and_range_def fun_eq_iff)

lemma and_range_append: "and_range a (bs @ cs) m = and_range (a + length bs) cs (and_range a bs m)"
  by (auto simp: and_range_def fun_eq_iff nth_append not_less)

lemma page_program_range: "a mod 256 + length bs \<le> 256 \<Longrightarrow> page_program a bs m = and_range a bs m"
proof (induction bs rule: rev_induct)
  case Nil
  show ?case by (auto simp: page_program_def and_range_def fun_eq_iff)
next
  case (snoc b bs)
  have "(a + length bs) mod 256 = a mod 256 + length bs"
    using snoc.prems mod_add_left_eq [of a 256 "length bs"] by simp
  then have "a div 256 * 256 + (a + length bs) mod 256 = a + length bs"
    by (simp add: div_mult_mod_eq flip: add.assoc)
  with snoc have "page_program a (bs @ [b]) m = (and_range a bs m)(a + length bs := and_range a bs m (a + length bs) AND b)"
    by (simp add: page_program_def enumerate_append_eq Let_def)
  then show ?case by (auto simp: and_range_def fun_eq_iff nth_append)
qed

lemma succ_mod: "unat ((a :: u64) + 1) mod 256 = (unat a + 1) mod 256"
  by (simp add: unat_word_ariths mod_mod_cancel)

lemma page_end: "((a :: u64) + 1) AND 0xff = 0 \<longleftrightarrow> unat a mod 256 = 255"
proof -
  have "(0xff :: u64) = mask 8" by (simp add: mask_eq_exp_minus_1)
  then have "unat ((a + 1) AND 0xff) = unat (a + 1) mod 256" by (simp only: mask_mod) simp
  also have "\<dots> = (unat a + 1) mod 256" by (rule succ_mod)
  finally show ?thesis by (simp add: unat_eq_0 [symmetric] mod_Suc)
qed

lemma spi_at_write_page:
  assumes "spi_at fdev delay ch0 l ch s"
  shows "\<exists>s'. spi_write_page fdev p a src s =
      (a + word_of_nat (min (length src) (256 - unat a mod 256)), drop (256 - unat a mod 256) src, s') \<and>
    spi_at fdev delay ch0 (l @ on_wires p (take (256 - unat a mod 256) src)) ch s'"
  using assms
proof (induction src arbitrary: a l s)
  case (Cons b bs)
  note w = spi_at_write_byte [OF Cons.prems, of p b]
  show ?case
  proof (cases "unat a mod 256 = 255")
    case True
    with w page_end [of a] show ?thesis by (simp add: Let_def)
  next
    case False
    then have m: "unat (a + 1) mod 256 = unat a mod 256 + 1"
      unfolding succ_mod by (simp add: mod_Suc)
    have l: "unat a mod 256 < 255" using False mod_less_divisor [of 256 "unat a"] by linarith
    then have e: "256 - unat a mod 256 = Suc (256 - unat (a + 1) mod 256)" by (simp add: m)
    from Cons.IH [OF w, of "a + 1"] page_end [of a] False show ?thesis
      by (auto simp: e Let_def min_Suc_Suc add.assoc add.commute [of 1])
  qed
qed (simp add: exI [of _ s])

lemma spi_at_command:
  assumes "spi_idle fdev delay ch0 ch s"
  shows "spi_at fdev delay ch0
    (samples SPI_PROTO_STR (if a > 0xffffff then if p = SPI_PROTO_QUAD_STR then q4 else s4
        else if p = SPI_PROTO_QUAD_STR then q3 else s3) @ on_wires p (addr_bytes (if a > 0xffffff then 4 else 3) a))
    ch (spi_command fdev q4 s4 q3 s3 p a s)"
  using spi_at_write_addr [OF spi_at_write_byte [OF assms, of SPI_PROTO_STR]]
  by (simp add: spi_command_def del: samples.simps)

lemma chip_programs:
  assumes "program_cmd c = Some (p, n)" "ch_wel ch" "ch_busy ch = 0" "bs \<noteq> []" "length bs \<le> 256"
    "addr_of (addr_bytes n a) = unat a"
  shows "chip_act delay (samples SPI_PROTO_STR c @ on_wires p (addr_bytes n a) @ on_wires p bs) ch =
    chip_done delay (page_program (unat a) bs (ch_mem ch)) ch"
proof -
  have p: "proto_bits p \<noteq> 0" "c \<noteq> 6" "c \<noteq> 4" using assms(1) by (auto simp: program_cmd_def split: if_splits)
  have "bytes_of p (on_wires p (addr_bytes n a) @ on_wires p bs) = addr_bytes n a @ bs"
    using bytes_of_wires [OF p(1), of "addr_bytes n a @ bs"] by simp
  moreover have "length (addr_bytes n a) = n" by (simp add: addr_bytes_def)
  ultimately show ?thesis
    using assms p by (simp add: chip_act_def command_of_samples drop_command Let_def del: samples.simps)
qed

lemma chip_same: "ch_busy ch = 0 \<Longrightarrow> ch\<lparr>ch_wel := w, ch_busy := ch_busy ch - n\<rparr> = ch\<lparr>ch_wel := w\<rparr>"
  "ch_busy ch = 0 \<Longrightarrow> ch\<lparr>ch_mem := m, ch_wel := w, ch_busy := 0\<rparr> = ch\<lparr>ch_mem := m, ch_wel := w\<rparr>"
  by (cases ch, simp)+

text \<open>One page: enabled, programmed and waited for.\<close>

lemma spi_page_programs:
  assumes "spi_idle fdev delay ch0 ch s" "ch_busy ch = 0" "ch_wel ch" "src \<noteq> []" "unat a < 2 ^ 32"
    "p = SPI_PROTO_STR \<or> p = SPI_PROTO_QUAD_STR"
  defines "k \<equiv> 256 - unat a mod 256"
  shows "\<exists>s' s''. spi_write_page fdev p a src (spi_command fdev SPI_CMD_4B_PAGE_PROGRAM_QUAD_IN_EXT SPI_CMD_4B_PAGE_PROGRAM
              SPI_CMD_PAGE_PROGRAM_QUAD_IN_EXT SPI_CMD_PAGE_PROGRAM p a s) =
      (a + word_of_nat (min (length src) k), drop k src, s') \<and>
    spi_wait fdev (spi_flash_deselect fdev s') = Some s'' \<and>
    spi_idle fdev delay ch0 (ch\<lparr>ch_mem := and_range (unat a) (take k src) (ch_mem ch), ch_wel := False\<rparr>) s''"
proof -
  define c where "c = (if a > 0xffffff then if p = SPI_PROTO_QUAD_STR then SPI_CMD_4B_PAGE_PROGRAM_QUAD_IN_EXT else SPI_CMD_4B_PAGE_PROGRAM
    else if p = SPI_PROTO_QUAD_STR then SPI_CMD_PAGE_PROGRAM_QUAD_IN_EXT else SPI_CMD_PAGE_PROGRAM)"
  define n where "n = (if a > 0xffffff then 4 else 3 :: nat)"
  have c: "program_cmd c = Some (p, n)"
    using assms(6) by (auto simp: c_def n_def program_cmd_def spi_cmds)
  have n: "addr_of (addr_bytes n a) = unat a"
    using addr_of_bytes [of a] assms(5) by (simp add: n_def word_less_nat_alt not_less)
  have k: "0 < k" "k \<le> 256" by (simp_all add: k_def)
  note at = spi_at_command [OF assms(1), of a p SPI_CMD_4B_PAGE_PROGRAM_QUAD_IN_EXT SPI_CMD_4B_PAGE_PROGRAM
      SPI_CMD_PAGE_PROGRAM_QUAD_IN_EXT SPI_CMD_PAGE_PROGRAM, folded c_def n_def]
  from spi_at_write_page [OF at, of p a src, folded k_def] obtain s' where
    w: "spi_write_page fdev p a src (spi_command fdev SPI_CMD_4B_PAGE_PROGRAM_QUAD_IN_EXT SPI_CMD_4B_PAGE_PROGRAM
          SPI_CMD_PAGE_PROGRAM_QUAD_IN_EXT SPI_CMD_PAGE_PROGRAM p a s) = (a + word_of_nat (min (length src) k), drop k src, s')"
    and l: "spi_at fdev delay ch0 ((samples SPI_PROTO_STR c @ on_wires p (addr_bytes n a)) @ on_wires p (take k src)) ch s'"
    by blast
  have "page_program (unat a) (take k src) (ch_mem ch) = and_range (unat a) (take k src) (ch_mem ch)"
    by (rule page_program_range) (simp add: k_def)
  with chip_programs [OF c assms(3,2) _ _ n, of "take k src" delay] k assms(4)
  have "chip_act delay ((samples SPI_PROTO_STR c @ on_wires p (addr_bytes n a)) @ on_wires p (take k src)) ch =
      chip_done delay (and_range (unat a) (take k src) (ch_mem ch)) ch"
    by (simp add: take_eq_Nil del: samples.simps)
  with spi_at_deselect [OF l] have "spi_idle fdev delay ch0 (chip_done delay (and_range (unat a) (take k src) (ch_mem ch)) ch) (spi_flash_deselect fdev s')"
    by (auto split: if_splits)
  from spi_wait_ends [OF this] w show ?thesis by (auto simp: chip_done_def chip_same(2) [OF assms(2)])
qed

lemma spi_enable_ok:
  assumes "spi_idle fdev delay ch0 ch s" "ch_busy ch = 0"
  obtains v s' where "spi_flash_read_status_register fdev SPI_PROTO_STR (spi_flash_write_enable fdev SPI_PROTO_STR s) = (v, s')"
    "v AND 0x02 \<noteq> 0" "spi_idle fdev delay ch0 (ch\<lparr>ch_wel := True\<rparr>) s'"
proof -
  obtain v s' where r: "spi_flash_read_status_register fdev SPI_PROTO_STR (spi_flash_write_enable fdev SPI_PROTO_STR s) = (v, s')" by force
  from spi_at_status [OF spi_at_write_enable [OF assms] r] have "v = chip_status (ch\<lparr>ch_wel := True\<rparr>)"
    "spi_idle fdev delay ch0 (ch\<lparr>ch_wel := True\<rparr>) s'" using chip_same [OF assms(2)] by auto
  with r that status_bits(2) [of "ch\<lparr>ch_wel := True\<rparr>"] show thesis by simp
qed

lemma spi_write_loop_programs:
  assumes "spi_idle fdev delay ch0 ch s" "ch_busy ch = 0" "unat a + length src \<le> 2 ^ 32"
    "p = SPI_PROTO_STR \<or> p = SPI_PROTO_QUAD_STR"
  shows "\<exists>s'. spi_write_loop fdev p a src s = Some (0, s') \<and>
    spi_idle fdev delay ch0 (ch\<lparr>ch_mem := and_range (unat a) src (ch_mem ch), ch_wel := ch_wel ch \<and> src = []\<rparr>) s'"
  using assms
proof (induction src arbitrary: a ch s rule: length_induct)
  case (1 src)
  show ?case
  proof (cases "src = []")
    case True
    then show ?thesis using spi_at_deselect [OF "1.prems"(1)] by (subst spi_write_loop.simps) simp
  next
    case False
    define k where "k = 256 - unat a mod 256"
    have k: "0 < k" by (simp add: k_def)
    obtain v s1 where e: "spi_flash_read_status_register fdev SPI_PROTO_STR (spi_flash_write_enable fdev SPI_PROTO_STR s) = (v, s1)"
      "v AND 0x02 \<noteq> 0" "spi_idle fdev delay ch0 (ch\<lparr>ch_wel := True\<rparr>) s1"
      using spi_enable_ok [OF "1.prems"(1,2)] by metis
    have "unat a < 2 ^ 32" using "1.prems"(3) False by (cases src) auto
    from spi_page_programs [OF e(3) _ _ False this "1.prems"(4), folded k_def] "1.prems"(2) obtain s2 s3 where
      w: "spi_write_page fdev p a src (spi_command fdev SPI_CMD_4B_PAGE_PROGRAM_QUAD_IN_EXT SPI_CMD_4B_PAGE_PROGRAM
          SPI_CMD_PAGE_PROGRAM_QUAD_IN_EXT SPI_CMD_PAGE_PROGRAM p a s1) = (a + word_of_nat (min (length src) k), drop k src, s2)"
        "spi_wait fdev (spi_flash_deselect fdev s2) = Some s3"
      and i: "spi_idle fdev delay ch0 (ch\<lparr>ch_mem := and_range (unat a) (take k src) (ch_mem ch), ch_wel := False\<rparr>) s3"
      by auto
    have n: "unat (a + word_of_nat (min (length src) k)) = unat a + min (length src) k"
      using "1.prems"(3) by (simp add: unat_word_ariths unat_of_nat take_bit_nat_eq_self)
    have "length (drop k src) < length src" using k False by simp
    moreover have "unat a + min (length src) k + (length src - k) = unat a + length src" by (simp add: min_def)
    ultimately obtain s' where "spi_write_loop fdev p (a + word_of_nat (min (length src) k)) (drop k src) s3 = Some (0, s')"
      "spi_idle fdev delay ch0 (ch\<lparr>ch_mem := and_range (unat a + min (length src) k) (drop k src)
          (and_range (unat a) (take k src) (ch_mem ch)), ch_wel := False\<rparr>) s'"
      using "1.IH" [rule_format, OF _ i, of "drop k src" "a + word_of_nat (min (length src) k)"] "1.prems"(2,3,4) n by auto
    moreover have "and_range (unat a + min (length src) k) (drop k src) (and_range (unat a) (take k src) (ch_mem ch)) =
        and_range (unat a) src (ch_mem ch)"
      using and_range_append [of "unat a" "take k src" "drop k src" "ch_mem ch"] by simp
    ultimately show ?thesis using False e w by (subst spi_write_loop.simps) auto
  qed
qed

section \<open>Erasing\<close>

definition fill_range :: "nat \<Rightarrow> nat \<Rightarrow> (nat \<Rightarrow> u8) \<Rightarrow> nat \<Rightarrow> u8" where
  "fill_range a n m = (\<lambda>x. if a \<le> x \<and> x < a + n then 0xff else m x)"

lemma fill_range_0 [simp]: "fill_range a 0 m = m"
  by (auto simp: fill_range_def fun_eq_iff)

lemma fill_range_append: "fill_range (a + n) k (fill_range a n m) = fill_range a (n + k) m"
  by (auto simp: fill_range_def fun_eq_iff)

lemma erase_block_range:
  assumes "a mod n = 0" "0 < n"
  shows "erase_block n a m = fill_range a n m"
proof -
  have "x div n = a div n \<longleftrightarrow> a \<le> x \<and> x < a + n" for x
  proof -
    obtain q where q: "a = n * q" using assms(1) by auto
    have "x div n = q \<longleftrightarrow> n * q \<le> x \<and> x < n * Suc q"
      using assms(2) div_nat_eqI [of n q x] by (auto simp: mult.commute dividend_less_times_div)
    with q assms(2) show ?thesis by (simp add: add.commute)
  qed
  then show ?thesis by (simp add: erase_block_def fill_range_def)
qed

lemma and_low_bits: "(a :: u64) AND (2 ^ n - 1) = 0 \<longleftrightarrow> unat a mod 2 ^ n = 0"
  using mask_mod [of a n] by (simp add: mask_eq_exp_minus_1 unat_eq_0 [symmetric])

lemma erase_size_ok:
  assumes "unat a mod 4096 = 0" "unat len mod 4096 = 0" "len \<noteq> 0"
  shows "spi_erase_size a len \<in> {SPI_SECTOR_SIZE, SPI_SUBSECTOR_SIZE} \<and> spi_erase_size a len \<le> len \<and>
    unat a mod unat (spi_erase_size a len) = 0"
proof -
  have "unat len \<noteq> 0" using assms(3) by (simp add: unat_eq_0)
  with assms(2) have l: "0x1000 \<le> unat len" by (metis mod_less not_le)
  have "0x1000 \<le> len" using l by (simp add: word_le_nat_alt)
  moreover have "a AND 0xfff = 0" using assms(1) and_low_bits [of a 12] by simp
  moreover have "a AND 0xffff = 0 \<Longrightarrow> unat a mod 0x10000 = 0" using and_low_bits [of a 16] by simp
  ultimately show ?thesis using assms(1) by (simp add: spi_erase_size_def SPI_SECTOR_SIZE_def SPI_SUBSECTOR_SIZE_def)
qed

lemma spi_block_erases:
  assumes "spi_idle fdev delay ch0 ch s" "ch_busy ch = 0" "ch_wel ch" "unat a < 2 ^ 32" "unat a mod unat blk = 0"
    "blk = SPI_SECTOR_SIZE \<or> blk = SPI_SUBSECTOR_SIZE"
  shows "\<exists>s'. spi_wait fdev (spi_flash_deselect fdev (spi_block_erase fdev blk a s)) = Some s' \<and>
    spi_idle fdev delay ch0 (ch\<lparr>ch_mem := fill_range (unat a) (unat blk) (ch_mem ch), ch_wel := False\<rparr>) s'"
proof -
  define c where "c = (if a > 0xffffff then if blk = SPI_SECTOR_SIZE then SPI_CMD_4B_SECTOR_ERASE else SPI_CMD_4B_4KB_SUBSECTOR_ERASE
    else if blk = SPI_SECTOR_SIZE then SPI_CMD_SECTOR_ERASE else SPI_CMD_4KB_SUBSECTOR_ERASE)"
  define n where "n = (if a > 0xffffff then 4 else 3 :: nat)"
  have c: "erase_cmd c = Some (n, unat blk)" "program_cmd c = None" "c \<noteq> 6" "c \<noteq> 4"
    using assms(6) by (auto simp: c_def n_def erase_cmd_def program_cmd_def spi_cmds SPI_SECTOR_SIZE_def SPI_SUBSECTOR_SIZE_def)
  have n: "addr_of (addr_bytes n a) = unat a" "length (addr_bytes n a) = n"
    using addr_of_bytes [of a] assms(4) by (simp_all add: n_def word_less_nat_alt not_less addr_bytes_def)
  have b: "bytes_of SPI_PROTO_STR (on_wires SPI_PROTO_STR (addr_bytes n a)) = addr_bytes n a"
    by (rule bytes_of_wires) simp
  have w: "spi_at fdev delay ch0 (samples SPI_PROTO_STR x) ch (spi_flash_write_byte fdev x SPI_PROTO_STR s)" for x
    using spi_at_write_byte [OF assms(1), of SPI_PROTO_STR x] by (simp only: append_Nil)
  have at: "spi_at fdev delay ch0 (samples SPI_PROTO_STR c @ on_wires SPI_PROTO_STR (addr_bytes n a)) ch (spi_block_erase fdev blk a s)"
    by (cases "a > 0xffffff"; cases "blk = SPI_SECTOR_SIZE")
      (simp_all add: spi_block_erase_def c_def n_def spi_at_write_addr [OF w] del: samples.simps)
  have "chip_act delay (samples SPI_PROTO_STR c @ on_wires SPI_PROTO_STR (addr_bytes n a)) ch =
      chip_done delay (erase_block (unat blk) (unat a) (ch_mem ch)) ch"
    using assms(2,3) c n b by (simp add: chip_act_def command_of_samples drop_command Let_def del: samples.simps)
  moreover have "erase_block (unat blk) (unat a) (ch_mem ch) = fill_range (unat a) (unat blk) (ch_mem ch)"
    using assms(5,6) by (intro erase_block_range) (auto simp: SPI_SECTOR_SIZE_def SPI_SUBSECTOR_SIZE_def)
  ultimately have "spi_idle fdev delay ch0 (chip_done delay (fill_range (unat a) (unat blk) (ch_mem ch)) ch)
      (spi_flash_deselect fdev (spi_block_erase fdev blk a s))"
    using spi_at_deselect [OF at] by (auto split: if_splits)
  from spi_wait_ends [OF this] show ?thesis by (auto simp: chip_done_def chip_same(2) [OF assms(2)])
qed

lemma spi_erase_fills:
  assumes "spi_idle fdev delay ch0 ch s" "ch_busy ch = 0" "unat a + unat len \<le> 2 ^ 32"
    "unat a mod 4096 = 0" "unat len mod 4096 = 0"
  shows "\<exists>s'. spi_flash_erase fdev a len s = Some (0, s') \<and>
    spi_idle fdev delay ch0 (ch\<lparr>ch_mem := fill_range (unat a) (unat len) (ch_mem ch), ch_wel := ch_wel ch \<and> len = 0\<rparr>) s'"
  using assms
proof (induction "unat len" arbitrary: a len ch s rule: less_induct)
  case less
  show ?case
  proof (cases "len = 0")
    case True
    then show ?thesis using spi_at_deselect [OF less.prems(1)]
      by (subst spi_flash_erase.simps) simp
  next
    case False
    define blk where "blk = spi_erase_size a len"
    note b = erase_size_ok [OF less.prems(4,5) False, folded blk_def]
    then have b0: "blk \<noteq> 0" "unat blk \<le> unat len" "0 < unat blk" "unat blk mod 4096 = 0"
      by (auto simp: SPI_SECTOR_SIZE_def SPI_SUBSECTOR_SIZE_def word_le_nat_alt)
    obtain v s1 where e: "spi_flash_read_status_register fdev SPI_PROTO_STR (spi_flash_write_enable fdev SPI_PROTO_STR s) = (v, s1)"
      "v AND 0x02 \<noteq> 0" "spi_idle fdev delay ch0 (ch\<lparr>ch_wel := True\<rparr>) s1"
      using spi_enable_ok [OF less.prems(1,2)] by metis
    have "unat a < 2 ^ 32" using less.prems(3) b0 by linarith
    from spi_block_erases [OF e(3) _ _ this, of blk] b less.prems(2) obtain s2 where
      w: "spi_wait fdev (spi_flash_deselect fdev (spi_block_erase fdev blk a s1)) = Some s2"
      and i: "spi_idle fdev delay ch0 (ch\<lparr>ch_mem := fill_range (unat a) (unat blk) (ch_mem ch), ch_wel := False\<rparr>) s2"
      by auto
    show ?thesis
    proof (cases "len \<le> blk")
      case True
      then have "len = blk" using b0(2) by (simp add: word_le_nat_alt word_unat_eq_iff)
      moreover have "spi_idle fdev delay ch0 (ch\<lparr>ch_mem := fill_range (unat a) (unat blk) (ch_mem ch), ch_wel := False\<rparr>) (spi_flash_deselect fdev s2)"
        using spi_at_deselect [OF i] by simp
      ultimately show ?thesis using False e w b0(1) by (subst spi_flash_erase.simps) (simp add: Let_def blk_def)
    next
      case l: False
      have u: "unat (len - blk) = unat len - unat blk" "unat (a + blk) = unat a + unat blk"
        using b0(2) less.prems(3) by (simp_all add: unat_sub_le unat_word_ariths)
      have "\<exists>s'. spi_flash_erase fdev (a + blk) (len - blk) s2 = Some (0, s') \<and>
          spi_idle fdev delay ch0 (ch\<lparr>ch_mem := fill_range (unat (a + blk)) (unat (len - blk))
            (fill_range (unat a) (unat blk) (ch_mem ch)), ch_wel := False\<rparr>) s'"
        using less.hyps [OF _ i, of "len - blk" "a + blk"] u b0 less.prems
        by (simp add: mod_eq_0_iff_dvd dvd_diff_nat)
      then show ?thesis using False e w b0(1,2) l by (subst spi_flash_erase.simps) (auto simp: Let_def u fill_range_append simp flip: blk_def)
    qed
  qed
qed

section \<open>Reading\<close>

lemma spi_at_dummies:
  "spi_at fdev delay ch0 l ch s \<Longrightarrow> spi_at fdev delay ch0 (l @ replicate n FLASH_CLK) ch ((spi_dummy_cycle fdev ^^ n) s)"
proof (induction n arbitrary: l s)
  case (Suc n)
  have "spi_at fdev delay ch0 (l @ [FLASH_CLK]) ch (spi_dummy_cycle fdev s)"
    using Suc.prems attached_cong [of "spi_dummy_cycle fdev s" s]
    by (simp add: spi_dummy_cycle_def spi_at_def Let_def wire_step_def FLASH_CLK_def FLASH_CS_N_def)
  from Suc.IH [OF this] show ?case by (simp add: funpow_swap1)
qed simp

lemma spi_read_loop_value:
  assumes "spi_at fdev delay ch0 l ch s" "chip_output ch l = Some (p, n, g)" "length l = n + i * (8 div proto_bits p)"
    "spi_read_loop fdev p len s = (bs, s')"
  shows "bs = map g [i..<i + len] \<and> (\<exists>x. spi_at fdev delay ch0 (l @ x) ch s')"
  using assms
proof (induction len arbitrary: l s i bs)
  case 0
  then show ?case using exI [of "\<lambda>x. spi_at fdev delay ch0 (l @ x) ch s" "[]"] by simp
next
  case (Suc len)
  note o = chip_output_prefix [OF Suc.prems(2)]
  from Suc.prems(4) obtain bs1 where r: "spi_read_loop fdev p len (snd (spi_flash_read_byte fdev p s)) = (bs1, s')"
    "bs = fst (spi_flash_read_byte fdev p s) # bs1"
    by (auto simp: split_beta prod_eq_iff)
  have "bs1 = map g [Suc i..<Suc i + len] \<and> (\<exists>x. spi_at fdev delay ch0 ((l @ replicate (8 div proto_bits p) FLASH_CLK) @ x) ch s')"
    by (rule Suc.IH [OF spi_at_read_byte [OF Suc.prems(1)] _ _ r(1)]) (use o Suc.prems(3) in auto)
  moreover have "fst (spi_flash_read_byte fdev p s) = g i" by (rule spi_read_value [OF Suc.prems(1-3)])
  moreover have "[i..<i + Suc len] = i # [Suc i..<Suc i + len]" by (simp add: upt_conv_Cons del: upt_Suc)
  ultimately show ?case using r(2) by (auto simp del: upt_Suc)
qed

lemma spi_read_memory:
  assumes "spi_idle fdev delay ch0 ch s" "ch_busy ch = 0"
    "unat a < 2 ^ 32" "unat a + len \<le> (if a > 0xffffff then 2 ^ 32 else 2 ^ 24)"
    "fl_data_width fdev = 4 \<longrightarrow> fl_read_dummy_cycles fdev = 10" "spi_flash_read fdev a len s = (r, dest, s')"
  shows "r = 0 \<and> dest = map (ch_mem ch) [unat a..<unat a + len] \<and> spi_idle fdev delay ch0 ch s'"
proof -
  let ?p = "spi_protocol fdev"
  define c where "c = (if a > 0xffffff then if ?p = SPI_PROTO_QUAD_STR then SPI_CMD_4B_FAST_READ_QUAD_IO else SPI_CMD_4B_READ
    else if ?p = SPI_PROTO_QUAD_STR then SPI_CMD_FAST_READ_QUAD_IO else SPI_CMD_READ)"
  define n where "n = (if a > 0xffffff then 4 else 3 :: nat)"
  define d where "d = (if ?p = SPI_PROTO_STR then 0 else fl_read_dummy_cycles fdev)"
  have p: "?p = SPI_PROTO_STR \<or> ?p = SPI_PROTO_QUAD_STR" by (simp add: spi_protocol_def)
  have c: "read_cmd c = Some (?p, n, d)" "program_cmd c = None" "erase_cmd c = None" "c \<noteq> 5" "c \<noteq> 6" "c \<noteq> 4" "c \<noteq> 0x9f"
    using assms(5) by (auto simp: c_def n_def d_def read_cmd_def program_cmd_def erase_cmd_def spi_cmds spi_protocol_def)
  have n: "addr_of (addr_bytes n a) = unat a" "length (addr_bytes n a) = n" "unat a + len \<le> 256 ^ n"
    using addr_of_bytes [of a] assms(3,4) by (auto simp: n_def word_less_nat_alt not_less addr_bytes_def split: if_splits)
  let ?a = "on_wires ?p (addr_bytes n a)" and ?z = "replicate d FLASH_CLK"
  note at = spi_at_command [OF assms(1), of a ?p SPI_CMD_4B_FAST_READ_QUAD_IO SPI_CMD_4B_READ
      SPI_CMD_FAST_READ_QUAD_IO SPI_CMD_READ, folded c_def n_def]
  define s1 where "s1 = spi_command fdev SPI_CMD_4B_FAST_READ_QUAD_IO SPI_CMD_4B_READ SPI_CMD_FAST_READ_QUAD_IO SPI_CMD_READ ?p a s"
  define s2 where "s2 = (if ?p \<noteq> SPI_PROTO_STR then (spi_dummy_cycle fdev ^^ fl_read_dummy_cycles fdev) s1 else s1)"
  have at2: "spi_at fdev delay ch0 ((samples SPI_PROTO_STR c @ ?a) @ ?z) ch s2"
    using spi_at_dummies [OF at, of d] at by (cases "?p = SPI_PROTO_STR") (simp_all add: s2_def d_def s1_def del: samples.simps)
  obtain s3 where l: "spi_read_loop fdev ?p len s2 = (dest, s3)" "r = 0" "s' = spi_flash_deselect fdev s3"
    using assms(6) by (auto simp: spi_flash_read_def Let_def s1_def s2_def split_beta prod_eq_iff)
  have pb: "proto_bits ?p \<noteq> 0" using p by auto
  have la: "length ?a = n * (8 div proto_bits ?p)" using length_on_wires [OF pb] n(2) by simp
  have o: "chip_output ch ((samples SPI_PROTO_STR c @ ?a) @ ?z) =
      Some (?p, 8 + n * (8 div proto_bits ?p) + d, \<lambda>j. ch_mem ch ((unat a + j) mod 256 ^ n))"
    using assms(2) c la n(1) bytes_of_wires [OF pb]
    by (simp add: chip_output_def command_of_samples drop_command Let_def del: samples.simps)
  have len: "length ((samples SPI_PROTO_STR c @ ?a) @ ?z) = 8 + n * (8 div proto_bits ?p) + d + 0 * (8 div proto_bits ?p)"
    using la drop_command(2) by (simp del: samples.simps)
  from spi_read_loop_value [OF at2 o len l(1)] obtain x where
    v: "dest = map (\<lambda>j. ch_mem ch ((unat a + j) mod 256 ^ n)) [0..<len]"
    and e: "spi_at fdev delay ch0 (((samples SPI_PROTO_STR c @ ?a) @ ?z) @ x) ch s3" by auto
  have "chip_act delay (((samples SPI_PROTO_STR c @ ?a) @ ?z) @ x) ch = ch"
    using assms(2) c by (simp add: chip_act_def command_of_samples del: samples.simps)
  with spi_at_deselect [OF e] l(3) have "spi_idle fdev delay ch0 ch s'" by (auto split: if_splits)
  moreover have "dest = map (ch_mem ch) [unat a..<unat a + len]"
    using v n(3) by (auto simp: list_eq_iff_nth_eq)
  ultimately show ?thesis using l(2) by simp
qed

section \<open>Properties\<close>

text \<open>C9: programming any bytes at any address combines them with the memory of the flash, page by page,
  and returns 0 with the flash idle again, however long it stays busy after each page.\<close>

theorem spi_write_refines:
  assumes "spi_idle fdev delay ch0 ch s" "ch_busy ch = 0" "unat a + length src \<le> 2 ^ 32"
  shows "\<exists>s'. spi_flash_write fdev a src s = Some (0, s') \<and>
    spi_idle fdev delay ch0 (ch\<lparr>ch_mem := and_range (unat a) src (ch_mem ch), ch_wel := ch_wel ch \<and> src = []\<rparr>) s'"
  using spi_write_loop_programs [OF assms, of "spi_protocol fdev"] by (simp add: spi_flash_write_def spi_protocol_def)

text \<open>C10: erasing whole subsectors sets exactly the requested range to ones, in sectors where it can.\<close>

theorem spi_erase_refines:
  assumes "spi_idle fdev delay ch0 ch s" "ch_busy ch = 0" "unat a + unat len \<le> 2 ^ 32"
    "unat a mod 4096 = 0" "unat len mod 4096 = 0"
  shows "\<exists>s'. spi_flash_erase fdev a len s = Some (0, s') \<and>
    spi_idle fdev delay ch0 (ch\<lparr>ch_mem := fill_range (unat a) (unat len) (ch_mem ch), ch_wel := ch_wel ch \<and> len = 0\<rparr>) s'"
  by (rule spi_erase_fills [OF assms])

text \<open>What is erased, programmed and read back is the data, on one line or four, with three or four
  address bytes.\<close>

lemma spi_store_roundtrip:
  assumes "spi_idle fdev delay ch0 ch s" "ch_busy ch = 0" "unat a mod 4096 = 0" "unat len mod 4096 = 0"
    "unat a < 2 ^ 32" "unat a + unat len \<le> (if a > 0xffffff then 2 ^ 32 else 2 ^ 24)" "length data \<le> unat len"
    "fl_data_width fdev = 4 \<longrightarrow> fl_read_dummy_cycles fdev = 10"
  shows "\<exists>s1 s2 s3. spi_flash_erase fdev a len s = Some (0, s1) \<and> spi_flash_write fdev a data s1 = Some (0, s2) \<and>
    spi_flash_read fdev a (length data) s2 = (0, data, s3)"
proof -
  have l: "unat a + unat len \<le> 2 ^ 32" using assms(6) by (simp split: if_splits)
  from spi_erase_fills [OF assms(1,2) l assms(3,4)] obtain s1 where
    e: "spi_flash_erase fdev a len s = Some (0, s1)" and
    i: "spi_idle fdev delay ch0 (ch\<lparr>ch_mem := fill_range (unat a) (unat len) (ch_mem ch), ch_wel := ch_wel ch \<and> len = 0\<rparr>) s1"
    by blast
  let ?m = "and_range (unat a) data (fill_range (unat a) (unat len) (ch_mem ch))"
  have "spi_protocol fdev = SPI_PROTO_STR \<or> spi_protocol fdev = SPI_PROTO_QUAD_STR" by (simp add: spi_protocol_def)
  from spi_write_loop_programs [OF i _ _ this, of a data] assms(2,7) l obtain s2 w where
    p: "spi_flash_write fdev a data s1 = Some (0, s2)" and
    j: "spi_idle fdev delay ch0 (ch\<lparr>ch_mem := ?m, ch_wel := w\<rparr>) s2"
    by (auto simp: spi_flash_write_def)
  obtain r dest s3 where r: "spi_flash_read fdev a (length data) s2 = (r, dest, s3)" by (metis surj_pair)
  have "unat a + length data \<le> (if a > 0xffffff then 2 ^ 32 else 2 ^ 24)" using assms(6,7) by simp
  from spi_read_memory [OF j _ assms(5) this assms(8) r] assms(2)
  have "r = 0" "dest = map ?m [unat a..<unat a + length data]" by simp_all
  moreover have "map ?m [unat a..<unat a + length data] = data"
  proof -
    have "0xff AND b = b" for b :: u8
    proof -
      have "(0xff :: u8) = - 1" by simp
      then show ?thesis by (simp only: and.left_neutral)
    qed
    then show ?thesis using assms(7) by (intro nth_equalityI) (simp_all add: and_range_def fill_range_def)
  qed
  ultimately show ?thesis using e p r by auto
qed

section \<open>A flash to run it on\<close>

definition spi_lines :: "flash_device \<Rightarrow> nat \<Rightarrow> spi_chip \<Rightarrow> event list \<Rightarrow> u32" where
  "spi_lines fdev delay ch0 t = (let w = wires_at (fl_ctrl_reg fdev) (chip_act delay) ch0 t in
     case chip_output (wi_chip w) (wi_cur w) of
       None \<Rightarrow> 0
     | Some (p, n, g) \<Rightarrow> let i = length (wi_cur w) - n; k = 8 div proto_bits p; b = piece (proto_bits p) (g (i div k)) (i mod k)
         in if p = SPI_PROTO_STR then push_bit 1 (ucast b) else ucast b)"

lemma lines_in_out:
  "lines_in SPI_PROTO_STR (push_bit 1 (ucast (piece 1 b j))) = ucast (piece 1 b j)"
  "lines_in SPI_PROTO_QUAD_STR (ucast (piece 4 b j)) = ucast (piece 4 b j)"
proof -
  have "piece 1 b j = 0 \<or> piece 1 b j = 1" by (simp add: piece_def and_one_eq mod_2_eq_odd)
  then show "lines_in SPI_PROTO_STR (push_bit 1 (ucast (piece 1 b j))) = ucast (piece 1 b j)"
    by (auto simp: FLASH_D_1_def)
  have m: "FLASH_D_0123 = mask 4" by (simp add: FLASH_D_0123_def mask_eq_exp_minus_1)
  show "lines_in SPI_PROTO_QUAD_STR (ucast (piece 4 b j)) = ucast (piece 4 b j)"
    unfolding lines_in.simps m piece_def by (rule bit_word_eqI) (auto simp: bit_simps)
qed

definition flash_world :: "flash_device \<Rightarrow> nat \<Rightarrow> spi_chip \<Rightarrow> sys" where
  "flash_world fdev delay ch0 = quiet_world\<lparr>w_ioread := \<lambda>t _. spi_lines fdev delay ch0 t\<rparr>"

lemma flash_world_idle: "spi_idle fdev delay ch0 ch0 (flash_world fdev delay ch0)"
proof -
  have "spi_attached fdev delay ch0 (flash_world fdev delay ch0)"
    unfolding spi_attached_def
  proof (intro allI)
    fix t
    let ?w = "wires_at (fl_ctrl_reg fdev) (chip_act delay) ch0 t"
    show "let w = ?w in case chip_output (wi_chip w) (wi_cur w) of None \<Rightarrow> True
      | Some (p, n, g) \<Rightarrow> let i = length (wi_cur w) - n; k = 8 div proto_bits p in
         lines_in p (w_ioread (flash_world fdev delay ch0) t (fl_ctrl_reg fdev)) = ucast (piece (proto_bits p) (g (i div k)) (i mod k))"
    proof (cases "chip_output (wi_chip ?w) (wi_cur ?w)")
      case (Some x)
      obtain p n g where x: "x = (p, n, g)" by (metis surj_pair)
      with Some have "p = SPI_PROTO_STR \<or> p = SPI_PROTO_QUAD_STR"
        by (auto simp: chip_output_def read_cmd_def Let_def split: if_splits option.splits)
      with Some x show ?thesis
        using lines_in_out by (auto simp: flash_world_def spi_lines_def Let_def simp del: lines_in.simps)
    qed simp
  qed
  then show ?thesis by (simp add: spi_at_def flash_world_def quiet_world_def)
qed

definition demo_spi :: flash_device where
  "demo_spi = \<lparr>fl_driver = Spi_flash_driver, fl_ops = None, fl_ctrl_reg = 0x100, fl_addr_reg = 0, fl_data_reg = 0,
     fl_size = 2 ^ 25, fl_data_width = 4, fl_write_buffer_size = SPI_PAGE_SIZE, fl_erase_block_size = SPI_SUBSECTOR_SIZE,
     fl_protocol = proto_num SPI_PROTO_STR, fl_bulk_protocol = proto_num SPI_PROTO_QUAD_STR, fl_read_dummy_cycles = 10,
     fl_erase_region_count = 0, fl_erase_region = []\<rparr>"

definition demo_chip :: spi_chip where
  "demo_chip = \<lparr>ch_id = (\<lambda>i. if i = 2 then 0x19 else 0xba), ch_mem = \<lambda>_. 0x5a, ch_wel = False, ch_busy = 0\<rparr>"

theorem spi_write_refines_witness:
  "\<exists>s'. spi_flash_write demo_spi 0xfe [1, 2, 3] (flash_world demo_spi 2 demo_chip) = Some (0, s') \<and>
    spi_idle demo_spi 2 demo_chip (demo_chip\<lparr>ch_mem := and_range 0xfe [1, 2, 3] (\<lambda>_. 0x5a)\<rparr>) s'"
  using spi_write_refines [OF flash_world_idle [of demo_spi 2 demo_chip], of "0xfe" "[1, 2, 3]"] by (simp add: demo_chip_def)

theorem spi_erase_refines_witness:
  "\<exists>s'. spi_flash_erase demo_spi 0xf000 0x12000 (flash_world demo_spi 2 demo_chip) = Some (0, s') \<and>
    spi_idle demo_spi 2 demo_chip (demo_chip\<lparr>ch_mem := fill_range 0xf000 0x12000 (\<lambda>_. 0x5a)\<rparr>) s'"
  using spi_erase_refines [OF flash_world_idle [of demo_spi 2 demo_chip], of "0xf000" "0x12000"] by (simp add: demo_chip_def)

end
