(* ===== verification/FlashBpi.thy ===== *)
theory FlashBpi
  imports SpiBus
begin

text \<open>
  The parallel flash driver (\<open>utils/flash_bpi.c\<close>): bus cycles, the Intel, AMD and Micron command sets,
  identification by CFI query, reading, programming by write buffers and erasing by regions.
\<close>

section \<open>Bus cycles\<close>

definition BPI_CE_N :: u32 where "BPI_CE_N = 0x1"
definition BPI_OE_N :: u32 where "BPI_OE_N = 0x2"
definition BPI_WE_N :: u32 where "BPI_WE_N = 0x4"
definition BPI_ADV_N :: u32 where "BPI_ADV_N = 0x8"
definition BPI_DQ_OE :: u32 where "BPI_DQ_OE = 0x100"
definition BPI_REGION_OE :: u32 where "BPI_REGION_OE = 0x10000"

lemmas bpi_line_defs = BPI_CE_N_def BPI_OE_N_def BPI_WE_N_def BPI_ADV_N_def BPI_DQ_OE_def BPI_REGION_OE_def

definition CFI_QUERY_ADDR :: u64 where "CFI_QUERY_ADDR = 0x55"
definition CFI_QUERY_DATA :: u16 where "CFI_QUERY_DATA = 0x98"
definition CFI_READ_ARRAY :: u16 where "CFI_READ_ARRAY = 0xFF"

definition bpi_flash_set_addr :: "flash_device \<Rightarrow> u64 \<Rightarrow> sys \<Rightarrow> sys" where
  "bpi_flash_set_addr fdev a s = iowrite32 (ucast a) (fl_addr_reg fdev) s"

definition bpi_flash_read_cur :: "flash_device \<Rightarrow> sys \<Rightarrow> u16 \<times> sys" where
  "bpi_flash_read_cur fdev s =
    (let s = iowrite32 (BPI_REGION_OE OR BPI_WE_N) (fl_ctrl_reg fdev) s;
         (_, s) = ioread32 (fl_data_reg fdev) s;
         (v, s) = ioread32 (fl_data_reg fdev) s
     in (ucast v, iowrite32 (BPI_OE_N OR BPI_WE_N OR BPI_ADV_N) (fl_ctrl_reg fdev) s))"

definition bpi_flash_read_word :: "flash_device \<Rightarrow> u64 \<Rightarrow> sys \<Rightarrow> u16 \<times> sys" where
  "bpi_flash_read_word fdev a s = bpi_flash_read_cur fdev (bpi_flash_set_addr fdev a s)"

definition bpi_flash_write_cur :: "flash_device \<Rightarrow> u16 \<Rightarrow> sys \<Rightarrow> sys" where
  "bpi_flash_write_cur fdev data s =
    (let s = iowrite32 (ucast data) (fl_data_reg fdev) s;
         s = iowrite32 (BPI_REGION_OE OR BPI_DQ_OE OR BPI_OE_N) (fl_ctrl_reg fdev) s;
         (_, s) = ioread32 (fl_data_reg fdev) s
     in iowrite32 (BPI_OE_N OR BPI_WE_N OR BPI_ADV_N) (fl_ctrl_reg fdev) s)"

definition bpi_flash_write_word :: "flash_device \<Rightarrow> u64 \<Rightarrow> u16 \<Rightarrow> sys \<Rightarrow> sys" where
  "bpi_flash_write_word fdev a data s = bpi_flash_write_cur fdev data (bpi_flash_set_addr fdev a s)"

definition bpi_flash_deselect :: "flash_device \<Rightarrow> sys \<Rightarrow> sys" where
  "bpi_flash_deselect fdev s =
    iowrite32 (BPI_CE_N OR BPI_OE_N OR BPI_WE_N OR BPI_ADV_N) (fl_ctrl_reg fdev)
      (bpi_flash_write_word fdev 0 CFI_READ_ARRAY s)"

text \<open>Polling until a bit of what is read is set; it may never be.\<close>

partial_function (option) bpi_poll :: "(sys \<Rightarrow> u16 \<times> sys) \<Rightarrow> u16 \<Rightarrow> sys \<Rightarrow> sys option" where
  [code]: "bpi_poll rd m s = (case rd s of (v, s) \<Rightarrow> if v AND m = 0 then bpi_poll rd m s else Some s)"

text \<open>The words of a write buffer; reading past the source is a fault.\<close>

definition src_word :: "u8 list \<Rightarrow> nat \<Rightarrow> u16" where
  "src_word src i = ucast (src ! (2 * i)) OR push_bit 8 (ucast (src ! (2 * i + 1)))"

definition bpi_buffer_words :: "flash_device \<Rightarrow> u64 \<Rightarrow> nat \<Rightarrow> u8 list \<Rightarrow> sys \<Rightarrow> sys option" where
  "bpi_buffer_words fdev a len src s =
    (if length src < 2 * len then None
     else Some (fold (\<lambda>i. bpi_flash_write_word fdev (a + word_of_nat i) (src_word src i)) [0..<len] s))"

section \<open>Intel command set\<close>

definition BPI_INTEL_READ_STATUS_REG :: u16 where "BPI_INTEL_READ_STATUS_REG = 0x70"
definition BPI_INTEL_CLEAR_STATUS_REG :: u16 where "BPI_INTEL_CLEAR_STATUS_REG = 0x50"
definition BPI_INTEL_READ_CONFIG_REG_SETUP :: u16 where "BPI_INTEL_READ_CONFIG_REG_SETUP = 0x60"
definition BPI_INTEL_SET_READ_CONFIG_REG :: u16 where "BPI_INTEL_SET_READ_CONFIG_REG = 0x03"
definition BPI_INTEL_BLOCK_LOCK_SETUP :: u16 where "BPI_INTEL_BLOCK_LOCK_SETUP = 0x60"
definition BPI_INTEL_BLOCK_UNLOCK :: u16 where "BPI_INTEL_BLOCK_UNLOCK = 0xD0"
definition BPI_INTEL_BLOCK_ERASE_SETUP :: u16 where "BPI_INTEL_BLOCK_ERASE_SETUP = 0x20"
definition BPI_INTEL_BLOCK_ERASE_CONFIRM :: u16 where "BPI_INTEL_BLOCK_ERASE_CONFIRM = 0xD0"
definition BPI_INTEL_BUFFERED_PROGRAM_SETUP :: u16 where "BPI_INTEL_BUFFERED_PROGRAM_SETUP = 0xE8"
definition BPI_INTEL_BUFFERED_PROGRAM_CONFIRM :: u16 where "BPI_INTEL_BUFFERED_PROGRAM_CONFIRM = 0xD0"

definition bpi_flash_intel_read_status_register :: "flash_device \<Rightarrow> sys \<Rightarrow> u16 \<times> sys" where
  "bpi_flash_intel_read_status_register fdev s =
    bpi_flash_read_cur fdev (bpi_flash_write_cur fdev BPI_INTEL_READ_STATUS_REG s)"

definition bpi_flash_intel_clear_status_register :: "flash_device \<Rightarrow> sys \<Rightarrow> sys" where
  "bpi_flash_intel_clear_status_register fdev s = bpi_flash_write_cur fdev BPI_INTEL_CLEAR_STATUS_REG s"

definition bpi_flash_intel_init :: "flash_device \<Rightarrow> sys \<Rightarrow> sys" where
  "bpi_flash_intel_init fdev s = bpi_flash_intel_clear_status_register fdev s"

definition bpi_flash_intel_sector_erase :: "flash_device \<Rightarrow> u64 \<Rightarrow> sys \<Rightarrow> (int \<times> sys) option" where
  "bpi_flash_intel_sector_erase fdev a s =
    (let s = bpi_flash_set_addr fdev a s;
         s = bpi_flash_write_cur fdev BPI_INTEL_BLOCK_LOCK_SETUP s;
         s = bpi_flash_write_cur fdev BPI_INTEL_BLOCK_UNLOCK s;
         (v, s) = bpi_flash_intel_read_status_register fdev s
     in if v AND 0x30 \<noteq> 0 then Some (- 1, s)
        else let s = bpi_flash_write_cur fdev BPI_INTEL_BLOCK_ERASE_SETUP s;
                 s = bpi_flash_write_cur fdev BPI_INTEL_BLOCK_ERASE_CONFIRM s
        in do {
          s \<leftarrow> bpi_poll (bpi_flash_intel_read_status_register fdev) 0x80 s;
          let (v, s) = bpi_flash_intel_read_status_register fdev s;
          Some (if v AND 0x30 \<noteq> 0 then - 1 else 0, s) })"

definition bpi_flash_intel_buffered_program :: "flash_device \<Rightarrow> u64 \<Rightarrow> u64 \<Rightarrow> u8 list \<Rightarrow> sys \<Rightarrow> (int \<times> sys) option" where
  "bpi_flash_intel_buffered_program fdev a len src s =
    (let s = bpi_flash_set_addr fdev a s;
         s = bpi_flash_write_cur fdev BPI_INTEL_BUFFERED_PROGRAM_SETUP s;
         s = bpi_flash_write_cur fdev (ucast (len - 1)) s
     in do {
       s \<leftarrow> bpi_buffer_words fdev a (unat len) src s;
       let s = bpi_flash_set_addr fdev a s;
       let s = bpi_flash_write_cur fdev BPI_INTEL_BUFFERED_PROGRAM_CONFIRM s;
       s \<leftarrow> bpi_poll (bpi_flash_intel_read_status_register fdev) 0x80 s;
       let (v, s) = bpi_flash_intel_read_status_register fdev s;
       Some (if v AND 0x30 \<noteq> 0 then - 1 else 0, s) })"

section \<open>AMD command set\<close>

definition BPI_AMD_UNLOCK_ADDR_1 :: u64 where "BPI_AMD_UNLOCK_ADDR_1 = 0x555"
definition BPI_AMD_UNLOCK_DATA_1 :: u16 where "BPI_AMD_UNLOCK_DATA_1 = 0xAA"
definition BPI_AMD_UNLOCK_ADDR_2 :: u64 where "BPI_AMD_UNLOCK_ADDR_2 = 0x2AA"
definition BPI_AMD_UNLOCK_DATA_2 :: u16 where "BPI_AMD_UNLOCK_DATA_2 = 0x55"
definition BPI_AMD_BLOCK_ERASE_SETUP :: u16 where "BPI_AMD_BLOCK_ERASE_SETUP = 0x80"
definition BPI_AMD_BLOCK_ERASE_CONFIRM :: u16 where "BPI_AMD_BLOCK_ERASE_CONFIRM = 0x30"
definition BPI_AMD_BUFFERED_PROGRAM_SETUP :: u16 where "BPI_AMD_BUFFERED_PROGRAM_SETUP = 0x25"
definition BPI_AMD_BUFFERED_PROGRAM_CONFIRM :: u16 where "BPI_AMD_BUFFERED_PROGRAM_CONFIRM = 0x29"
definition BPI_AMD_READ_ARRAY :: u16 where "BPI_AMD_READ_ARRAY = 0xF0"

definition bpi_flash_amd_unlock :: "flash_device \<Rightarrow> sys \<Rightarrow> sys" where
  "bpi_flash_amd_unlock fdev s =
    bpi_flash_write_word fdev BPI_AMD_UNLOCK_ADDR_2 BPI_AMD_UNLOCK_DATA_2
      (bpi_flash_write_word fdev BPI_AMD_UNLOCK_ADDR_1 BPI_AMD_UNLOCK_DATA_1 s)"

definition bpi_flash_amd_write_buffer_abort_reset :: "flash_device \<Rightarrow> sys \<Rightarrow> sys" where
  "bpi_flash_amd_write_buffer_abort_reset fdev s =
    bpi_flash_write_word fdev BPI_AMD_UNLOCK_ADDR_1 BPI_AMD_READ_ARRAY (bpi_flash_amd_unlock fdev s)"

definition bpi_flash_amd_init :: "flash_device \<Rightarrow> sys \<Rightarrow> sys" where
  "bpi_flash_amd_init fdev s = bpi_flash_amd_write_buffer_abort_reset fdev s"

partial_function (option) bpi_flash_amd_wait_for_operation :: "flash_device \<Rightarrow> u16 \<Rightarrow> sys \<Rightarrow> (u16 \<times> sys) option" where
  [code]: "bpi_flash_amd_wait_for_operation fdev stop_mask s =
    (case bpi_flash_read_cur fdev s of (read_1, s) \<Rightarrow>
     case bpi_flash_read_cur fdev s of (read_2, s) \<Rightarrow>
     case bpi_flash_read_cur fdev s of (read_3, s) \<Rightarrow>
     if (read_1 XOR read_2) AND (read_2 XOR read_3) AND 0x40 \<noteq> 0
     then (if read_1 AND stop_mask \<noteq> 0 then Some (read_1, s)
           else bpi_flash_amd_wait_for_operation fdev stop_mask s)
     else Some (0, s))"

definition bpi_flash_amd_sector_erase :: "flash_device \<Rightarrow> u64 \<Rightarrow> sys \<Rightarrow> (int \<times> sys) option" where
  "bpi_flash_amd_sector_erase fdev a s =
    (let s = bpi_flash_amd_unlock fdev s;
         s = bpi_flash_write_word fdev BPI_AMD_UNLOCK_ADDR_1 BPI_AMD_BLOCK_ERASE_SETUP s;
         s = bpi_flash_amd_unlock fdev s;
         s = bpi_flash_write_word fdev a BPI_AMD_BLOCK_ERASE_CONFIRM s
     in do {
       s \<leftarrow> bpi_poll (bpi_flash_read_cur fdev) 0x08 s;
       (v, s) \<leftarrow> bpi_flash_amd_wait_for_operation fdev 0x20 s;
       Some (if v AND 0x20 \<noteq> 0 then (- 1, bpi_flash_amd_write_buffer_abort_reset fdev s) else (0, s)) })"

definition bpi_flash_amd_buffered_program :: "flash_device \<Rightarrow> u64 \<Rightarrow> u64 \<Rightarrow> u8 list \<Rightarrow> sys \<Rightarrow> (int \<times> sys) option" where
  "bpi_flash_amd_buffered_program fdev a len src s =
    (let s = bpi_flash_amd_unlock fdev s;
         s = bpi_flash_write_word fdev a BPI_AMD_BUFFERED_PROGRAM_SETUP s;
         s = bpi_flash_write_cur fdev (ucast (len - 1)) s
     in do {
       s \<leftarrow> bpi_buffer_words fdev a (unat len) src s;
       let s = bpi_flash_set_addr fdev a s;
       let s = bpi_flash_write_cur fdev BPI_AMD_BUFFERED_PROGRAM_CONFIRM s;
       (v, s) \<leftarrow> bpi_flash_amd_wait_for_operation fdev 0x22 s;
       Some (if v AND 0x22 \<noteq> 0 then (- 1, bpi_flash_amd_write_buffer_abort_reset fdev s) else (0, s)) })"

section \<open>Micron command set\<close>

definition BPI_MICRON_READ_STATUS_REG :: u16 where "BPI_MICRON_READ_STATUS_REG = 0x70"
definition BPI_MICRON_CLEAR_STATUS_REG :: u16 where "BPI_MICRON_CLEAR_STATUS_REG = 0x50"
definition BPI_MICRON_BLOCK_LOCK_SETUP :: u16 where "BPI_MICRON_BLOCK_LOCK_SETUP = 0x60"
definition BPI_MICRON_BLOCK_UNLOCK :: u16 where "BPI_MICRON_BLOCK_UNLOCK = 0xD0"
definition BPI_MICRON_BLOCK_ERASE_SETUP :: u16 where "BPI_MICRON_BLOCK_ERASE_SETUP = 0x20"
definition BPI_MICRON_BLOCK_ERASE_CONFIRM :: u16 where "BPI_MICRON_BLOCK_ERASE_CONFIRM = 0xD0"
definition BPI_MICRON_BUFFERED_PROGRAM_SETUP :: u16 where "BPI_MICRON_BUFFERED_PROGRAM_SETUP = 0xE9"
definition BPI_MICRON_BUFFERED_PROGRAM_CONFIRM :: u16 where "BPI_MICRON_BUFFERED_PROGRAM_CONFIRM = 0xD0"

definition bpi_flash_micron_read_status_register :: "flash_device \<Rightarrow> sys \<Rightarrow> u16 \<times> sys" where
  "bpi_flash_micron_read_status_register fdev s =
    bpi_flash_read_cur fdev (bpi_flash_write_cur fdev BPI_MICRON_READ_STATUS_REG s)"

definition bpi_flash_micron_clear_status_register :: "flash_device \<Rightarrow> sys \<Rightarrow> sys" where
  "bpi_flash_micron_clear_status_register fdev s = bpi_flash_write_cur fdev BPI_MICRON_CLEAR_STATUS_REG s"

definition bpi_flash_micron_init :: "flash_device \<Rightarrow> sys \<Rightarrow> sys" where
  "bpi_flash_micron_init fdev s = bpi_flash_micron_clear_status_register fdev s"

definition bpi_flash_micron_sector_erase :: "flash_device \<Rightarrow> u64 \<Rightarrow> sys \<Rightarrow> (int \<times> sys) option" where
  "bpi_flash_micron_sector_erase fdev a s =
    (let s = bpi_flash_set_addr fdev a s;
         s = bpi_flash_write_cur fdev BPI_MICRON_BLOCK_LOCK_SETUP s;
         s = bpi_flash_write_cur fdev BPI_MICRON_BLOCK_UNLOCK s;
         (v, s) = bpi_flash_micron_read_status_register fdev s
     in if v AND 0x30 \<noteq> 0 then Some (- 1, bpi_flash_write_cur fdev CFI_READ_ARRAY s)
        else let s = bpi_flash_write_cur fdev BPI_MICRON_BLOCK_ERASE_SETUP s;
                 s = bpi_flash_write_cur fdev BPI_MICRON_BLOCK_ERASE_CONFIRM s
        in do {
          s \<leftarrow> bpi_poll (bpi_flash_micron_read_status_register fdev) 0x80 s;
          let (v, s) = bpi_flash_micron_read_status_register fdev s;
          Some (if v AND 0x30 \<noteq> 0 then - 1 else 0, bpi_flash_write_cur fdev CFI_READ_ARRAY s) })"

definition bpi_flash_micron_buffered_program :: "flash_device \<Rightarrow> u64 \<Rightarrow> u64 \<Rightarrow> u8 list \<Rightarrow> sys \<Rightarrow> (int \<times> sys) option" where
  "bpi_flash_micron_buffered_program fdev a len src s =
    (let s = bpi_flash_set_addr fdev a s;
         s = bpi_flash_write_cur fdev BPI_MICRON_BUFFERED_PROGRAM_SETUP s;
         s = bpi_flash_write_cur fdev (ucast (len - 1)) s
     in do {
       s \<leftarrow> bpi_buffer_words fdev a (unat len) src s;
       let s = bpi_flash_set_addr fdev a s;
       let s = bpi_flash_write_cur fdev BPI_MICRON_BUFFERED_PROGRAM_CONFIRM s;
       s \<leftarrow> bpi_poll (bpi_flash_micron_read_status_register fdev) 0x80 s;
       let (v, s) = bpi_flash_micron_read_status_register fdev s;
       Some (if v AND 0x30 \<noteq> 0 then - 1 else 0, bpi_flash_write_cur fdev CFI_READ_ARRAY s) })"

section \<open>Operations\<close>

text \<open>The table of operations; calling through a null table is a fault.\<close>

definition ops_init :: "flash_device \<Rightarrow> sys \<Rightarrow> sys option" where
  "ops_init fdev s = (case fl_ops fdev of
     None \<Rightarrow> None
   | Some Bpi_intel_flash_ops \<Rightarrow> Some (bpi_flash_intel_init fdev s)
   | Some Bpi_amd_flash_ops \<Rightarrow> Some (bpi_flash_amd_init fdev s)
   | Some Bpi_micron_flash_ops \<Rightarrow> Some (bpi_flash_micron_init fdev s))"

definition ops_sector_erase :: "flash_device \<Rightarrow> u64 \<Rightarrow> sys \<Rightarrow> (int \<times> sys) option" where
  "ops_sector_erase fdev a s = (case fl_ops fdev of
     None \<Rightarrow> None
   | Some Bpi_intel_flash_ops \<Rightarrow> bpi_flash_intel_sector_erase fdev a s
   | Some Bpi_amd_flash_ops \<Rightarrow> bpi_flash_amd_sector_erase fdev a s
   | Some Bpi_micron_flash_ops \<Rightarrow> bpi_flash_micron_sector_erase fdev a s)"

definition ops_buffered_program :: "flash_device \<Rightarrow> u64 \<Rightarrow> u64 \<Rightarrow> u8 list \<Rightarrow> sys \<Rightarrow> (int \<times> sys) option" where
  "ops_buffered_program fdev a len src s = (case fl_ops fdev of
     None \<Rightarrow> None
   | Some Bpi_intel_flash_ops \<Rightarrow> bpi_flash_intel_buffered_program fdev a len src s
   | Some Bpi_amd_flash_ops \<Rightarrow> bpi_flash_amd_buffered_program fdev a len src s
   | Some Bpi_micron_flash_ops \<Rightarrow> bpi_flash_micron_buffered_program fdev a len src s)"

definition bpi_flash_release :: "flash_device \<Rightarrow> sys \<Rightarrow> sys" where
  "bpi_flash_release fdev s = bpi_flash_deselect fdev s"

section \<open>Identification\<close>

definition CFI_ID_0 :: u64 where "CFI_ID_0 = 0x10"
definition CFI_ID_1 :: u64 where "CFI_ID_1 = 0x11"
definition CFI_ID_2 :: u64 where "CFI_ID_2 = 0x12"
definition CFI_PRI_CMD_SET_0 :: u64 where "CFI_PRI_CMD_SET_0 = 0x13"
definition CFI_PRI_CMD_SET_1 :: u64 where "CFI_PRI_CMD_SET_1 = 0x14"
definition CFI_DEVICE_SIZE :: u64 where "CFI_DEVICE_SIZE = 0x27"
definition CFI_WRITE_BUFFER_SIZE_0 :: u64 where "CFI_WRITE_BUFFER_SIZE_0 = 0x2A"
definition CFI_WRITE_BUFFER_SIZE_1 :: u64 where "CFI_WRITE_BUFFER_SIZE_1 = 0x2B"
definition CFI_ERASE_REGION_COUNT :: u64 where "CFI_ERASE_REGION_COUNT = 0x2C"
definition CFI_ERASE_REGION_1_INFO_0 :: u64 where "CFI_ERASE_REGION_1_INFO_0 = 0x2D"
definition CFI_ERASE_REGION_1_INFO_1 :: u64 where "CFI_ERASE_REGION_1_INFO_1 = 0x2E"
definition CFI_ERASE_REGION_1_INFO_2 :: u64 where "CFI_ERASE_REGION_1_INFO_2 = 0x2F"
definition CFI_ERASE_REGION_1_INFO_3 :: u64 where "CFI_ERASE_REGION_1_INFO_3 = 0x30"
definition CFI_ERASE_REGION_2_INFO_0 :: u64 where "CFI_ERASE_REGION_2_INFO_0 = 0x31"
definition CFI_ERASE_REGION_2_INFO_1 :: u64 where "CFI_ERASE_REGION_2_INFO_1 = 0x32"
definition CFI_ERASE_REGION_2_INFO_2 :: u64 where "CFI_ERASE_REGION_2_INFO_2 = 0x33"
definition CFI_ERASE_REGION_2_INFO_3 :: u64 where "CFI_ERASE_REGION_2_INFO_3 = 0x34"

text \<open>Operands that both read are evaluated from left to right.\<close>

definition cfi_pair :: "flash_device \<Rightarrow> u64 \<Rightarrow> u64 \<Rightarrow> sys \<Rightarrow> int \<times> sys" where
  "cfi_pair fdev lo hi s = (case bpi_flash_read_word fdev lo s of (v, s) \<Rightarrow>
     case bpi_flash_read_word fdev hi s of (w, s) \<Rightarrow> (uint v OR push_bit 8 (uint w), s))"

text \<open>Is the flash there: with a switch to asynchronous reads and a buffer abort reset tried in between.\<close>

definition cfi_async :: "flash_device \<Rightarrow> sys \<Rightarrow> sys" where
  "cfi_async fdev s = (case bpi_flash_read_word fdev CFI_ID_0 s of (v, s) \<Rightarrow>
     if v \<noteq> 0x51
     then bpi_flash_write_word fdev CFI_QUERY_ADDR CFI_QUERY_DATA
       (bpi_flash_write_word fdev 0xf94f BPI_INTEL_SET_READ_CONFIG_REG
         (bpi_flash_write_word fdev 0xf94f BPI_INTEL_READ_CONFIG_REG_SETUP s))
     else s)"

definition cfi_unabort :: "flash_device \<Rightarrow> sys \<Rightarrow> sys" where
  "cfi_unabort fdev s = (case bpi_flash_read_word fdev CFI_ID_0 s of (v, s) \<Rightarrow>
     if v = 0x51 then s
     else case bpi_flash_read_cur fdev s of (x, s) \<Rightarrow> case bpi_flash_read_cur fdev s of (y, s) \<Rightarrow>
       if (x XOR y) AND 0x44 \<noteq> 0
       then bpi_flash_write_word fdev CFI_QUERY_ADDR CFI_QUERY_DATA (bpi_flash_amd_write_buffer_abort_reset fdev s)
       else s)"

definition cfi_present :: "flash_device \<Rightarrow> sys \<Rightarrow> bool \<times> sys" where
  "cfi_present fdev s = (case bpi_flash_read_word fdev CFI_ID_0 s of (v, s) \<Rightarrow>
     if v \<noteq> 0x51 then (False, s)
     else case bpi_flash_read_word fdev CFI_ID_1 s of (v, s) \<Rightarrow>
       if v \<noteq> 0x52 then (False, s)
       else case bpi_flash_read_word fdev CFI_ID_2 s of (v, s) \<Rightarrow> (v = 0x59, s))"

definition command_set :: "int \<Rightarrow> bpi_ops option" where
  "command_set n = (if n = 0x0001 then Some Bpi_intel_flash_ops else if n = 0x0002 then Some Bpi_amd_flash_ops
     else if n = 0x0200 then Some Bpi_micron_flash_ops else None)"

text \<open>A block size of 2 GiB or more overflows, a fault.\<close>

definition cfi_region :: "flash_device \<Rightarrow> u64 \<Rightarrow> u64 \<Rightarrow> u64 \<Rightarrow> u64 \<Rightarrow> u64 \<Rightarrow> sys \<Rightarrow> (flash_erase_region_info \<times> sys) option" where
  "cfi_region fdev start i0 i1 i2 i3 s = (case cfi_pair fdev i0 i1 s of (n, s) \<Rightarrow> case cfi_pair fdev i2 i3 s of (b, s) \<Rightarrow>
     if b * 256 \<ge> 2 ^ 31 then None
     else let blocks = word_of_int (n + 1); blk = word_of_int (b * 256) in
       Some (\<lparr>er_block_count = blocks, er_block_size = blk, er_region_start = start, er_region_end = start + blocks * blk\<rparr>, s))"

text \<open>The sizes are shifts, which are undefined from 64 on.\<close>

definition cfi_sizes :: "flash_device \<Rightarrow> sys \<Rightarrow> (flash_device \<times> sys) option" where
  "cfi_sizes fdev s = (case bpi_flash_read_word fdev CFI_DEVICE_SIZE s of (v, s) \<Rightarrow>
     let flash_size = unat (ucast v :: u8) in
     case cfi_pair fdev CFI_WRITE_BUFFER_SIZE_0 CFI_WRITE_BUFFER_SIZE_1 s of (w, s) \<Rightarrow>
     let buffer_size = unat (word_of_int w :: u16) in
     if flash_size \<ge> 64 \<or> buffer_size \<ge> 64 then None
     else Some (fdev\<lparr>fl_size := 2 ^ flash_size, fl_write_buffer_size := 2 ^ buffer_size\<rparr>, s))"

definition cfi_regions :: "flash_device \<Rightarrow> sys \<Rightarrow> (int \<times> flash_device \<times> sys) option" where
  "cfi_regions fdev s = (case bpi_flash_read_word fdev CFI_ERASE_REGION_COUNT s of (v, s) \<Rightarrow>
     let fdev = fdev\<lparr>fl_erase_region_count := unat v\<rparr> in
     if v = 0 then Some (- 1, fdev, s)
     else do {
       (r, s) \<leftarrow> cfi_region fdev 0 CFI_ERASE_REGION_1_INFO_0 CFI_ERASE_REGION_1_INFO_1
         CFI_ERASE_REGION_1_INFO_2 CFI_ERASE_REGION_1_INFO_3 s;
       let fdev = fdev\<lparr>fl_erase_region := (fl_erase_region fdev)[0 := r], fl_erase_block_size := er_block_size r\<rparr>;
       (if unat v > 1 then do {
          (r1, s) \<leftarrow> cfi_region fdev (er_region_end r) CFI_ERASE_REGION_2_INFO_0 CFI_ERASE_REGION_2_INFO_1
            CFI_ERASE_REGION_2_INFO_2 CFI_ERASE_REGION_2_INFO_3 s;
          Some (0, fdev\<lparr>fl_erase_region := (fl_erase_region fdev)[1 := r1],
                  fl_erase_block_size := max (er_block_size r1) (er_block_size r)\<rparr>, s) }
        else Some (0, fdev, s)) })"

definition bpi_flash_init :: "flash_device \<Rightarrow> sys \<Rightarrow> (int \<times> flash_device \<times> sys) option" where
  "bpi_flash_init fdev s =
    (let s = bpi_flash_write_word fdev CFI_QUERY_ADDR CFI_QUERY_DATA s;
         (present, s) = cfi_present fdev (cfi_unabort fdev (cfi_async fdev s))
     in if \<not> present then Some (- 1, fdev, bpi_flash_release fdev s)
        else case cfi_pair fdev CFI_PRI_CMD_SET_0 CFI_PRI_CMD_SET_1 s of (n, s) \<Rightarrow>
          let fdev = fdev\<lparr>fl_protocol := n\<rparr> in
          (case command_set n of
             None \<Rightarrow> Some (- 1, fdev, bpi_flash_release fdev s)
           | Some ops \<Rightarrow> do {
               (fdev, s) \<leftarrow> cfi_sizes (fdev\<lparr>fl_ops := Some ops\<rparr>) s;
               (e, fdev, s) \<leftarrow> cfi_regions fdev s;
               (if e \<noteq> 0 then Some (e, fdev, bpi_flash_release fdev s)
                else do { s \<leftarrow> ops_init fdev s; Some (0, fdev, bpi_flash_release fdev s) }) }))"

section \<open>Reading\<close>

text \<open>
  The words of a read, and a byte of a word before and after them. Reading from an odd address a length of
  zero makes the length wrap round; the destination is then overrun, a fault.
\<close>

primrec bpi_read_words :: "flash_device \<Rightarrow> u64 \<Rightarrow> nat \<Rightarrow> sys \<Rightarrow> u8 list \<times> sys" where
  "bpi_read_words fdev a 0 s = ([], s)"
| "bpi_read_words fdev a (Suc n) s = (case bpi_flash_read_word fdev (drop_bit 1 a) s of (v, s) \<Rightarrow>
     case bpi_read_words fdev (a + 2) n s of (bs, s) \<Rightarrow> (ucast v # ucast (drop_bit 8 v) # bs, s))"

definition bpi_read_even :: "flash_device \<Rightarrow> u64 \<Rightarrow> nat \<Rightarrow> sys \<Rightarrow> u8 list \<times> sys" where
  "bpi_read_even fdev a len s = (case bpi_read_words fdev a (len div 2) s of (bs, s) \<Rightarrow>
     if odd len then (case bpi_flash_read_word fdev (drop_bit 1 (a + 2 * word_of_nat (len div 2))) s of (v, s) \<Rightarrow>
       (bs @ [ucast v], s))
     else (bs, s))"

definition bpi_flash_read :: "flash_device \<Rightarrow> u64 \<Rightarrow> nat \<Rightarrow> sys \<Rightarrow> (int \<times> u8 list \<times> sys) option" where
  "bpi_flash_read fdev a len s =
    (let s = bpi_flash_write_word fdev 0 CFI_READ_ARRAY s in
     if a AND 1 \<noteq> 0 then
       if len = 0 then None
       else case bpi_flash_read_word fdev (drop_bit 1 a) s of (v, s) \<Rightarrow>
         case bpi_read_even fdev (a + 1) (len - 1) s of (bs, s) \<Rightarrow>
           Some (0, ucast (drop_bit 8 v) # bs, bpi_flash_deselect fdev s)
     else case bpi_read_even fdev a len s of (bs, s) \<Rightarrow> Some (0, bs, bpi_flash_deselect fdev s))"

section \<open>Programming and erasing\<close>

definition bpi_segment :: "flash_device \<Rightarrow> u64 \<Rightarrow> u64 \<Rightarrow> u64" where
  "bpi_segment fdev a len =
    (let room = fl_write_buffer_size fdev - (a AND (fl_write_buffer_size fdev - 1))
     in if len > room then room else len)"

partial_function (option) bpi_flash_write :: "flash_device \<Rightarrow> u64 \<Rightarrow> u64 \<Rightarrow> u8 list \<Rightarrow> sys \<Rightarrow> (int \<times> sys) option" where
  [code]: "bpi_flash_write fdev a len src s =
    (if len = 0 then Some (0, bpi_flash_deselect fdev s)
     else let seg = bpi_segment fdev a len in
       Option.bind (ops_buffered_program fdev (drop_bit 1 a) (drop_bit 1 seg) src s) (\<lambda>(e, s).
         if e \<noteq> 0 then Some (- 1, bpi_flash_deselect fdev s)
         else bpi_flash_write fdev (a + seg) (len - seg) (drop (unat seg) src) s))"

text \<open>The block size at an address; the loop leaves the array of regions when more are counted than it holds.\<close>

definition in_region :: "u64 \<Rightarrow> flash_erase_region_info \<Rightarrow> bool" where
  "in_region a r \<longleftrightarrow> a \<ge> er_region_start r \<and> a < er_region_end r"

fun region_block_size :: "flash_erase_region_info list \<Rightarrow> nat \<Rightarrow> u64 \<Rightarrow> u64 option" where
  "region_block_size rs 0 a = Some 0"
| "region_block_size [] (Suc n) a = None"
| "region_block_size (r # rs) (Suc n) a = (if in_region a r then Some (er_block_size r) else region_block_size rs n a)"

partial_function (option) bpi_flash_erase :: "flash_device \<Rightarrow> u64 \<Rightarrow> u64 \<Rightarrow> sys \<Rightarrow> (int \<times> sys) option" where
  [code]: "bpi_flash_erase fdev a len s =
    (if len = 0 then Some (0, bpi_flash_deselect fdev s)
     else Option.bind (region_block_size (fl_erase_region fdev) (fl_erase_region_count fdev) a) (\<lambda>blk.
       if blk = 0 then Some (- 1, bpi_flash_deselect fdev s)
       else if a AND (blk - 1) \<noteq> 0 \<or> len < blk then Some (- 1, bpi_flash_deselect fdev s)
       else Option.bind (ops_sector_erase fdev (drop_bit 1 a) s) (\<lambda>(e, s).
         if e \<noteq> 0 then Some (- 1, bpi_flash_deselect fdev s)
         else if len \<le> blk then Some (0, bpi_flash_deselect fdev s)
         else bpi_flash_erase fdev (a + blk) (len - blk) s)))"

end
