(* ===== verification/BpiRefine.thy ===== *)
theory BpiRefine
  imports FlashBpi
begin

text \<open>
  What the parallel flash driver does on the bus: reading returns the memory of a flash in array mode, a program
  request stays within one write buffer, and requests the code gets wrong.
\<close>

section \<open>The bus\<close>

text \<open>
  The bus as the flash sees it: address, control lines and data of the last register writes, and whether the
  last write cycle, which ends when write enable rises, was the command for array mode.
\<close>

record bus =
  bu_addr :: u32
  bu_ctrl :: u32
  bu_data :: u32
  bu_array :: bool

definition bus_step :: "flash_device \<Rightarrow> addr \<Rightarrow> u32 \<Rightarrow> bus \<Rightarrow> bus" where
  "bus_step fdev a v b =
    (if a = fl_ctrl_reg fdev
     then b\<lparr>bu_ctrl := v,
        bu_array := (if bu_ctrl b AND BPI_WE_N = 0 \<and> v AND BPI_WE_N \<noteq> 0 then bu_data b = 0xff else bu_array b)\<rparr>
     else if a = fl_addr_reg fdev then b\<lparr>bu_addr := v\<rparr>
     else if a = fl_data_reg fdev then b\<lparr>bu_data := v\<rparr>
     else b)"

primrec bus_at :: "flash_device \<Rightarrow> event list \<Rightarrow> bus" where
  "bus_at fdev [] = \<lparr>bu_addr = 0, bu_ctrl = BPI_WE_N, bu_data = 0, bu_array = False\<rparr>"
| "bus_at fdev (e # t) = (case e of Iowrite32 a v \<Rightarrow> bus_step fdev a v (bus_at fdev t) | _ \<Rightarrow> bus_at fdev t)"

definition bpi_wired :: "flash_device \<Rightarrow> bool" where
  "bpi_wired fdev \<longleftrightarrow> distinct [fl_ctrl_reg fdev, fl_addr_reg fdev, fl_data_reg fdev]"

text \<open>A flash is attached when, in array mode with output enabled, the data register reads as the word addressed.\<close>

definition bpi_attached :: "flash_device \<Rightarrow> (u32 \<Rightarrow> u16) \<Rightarrow> sys \<Rightarrow> bool" where
  "bpi_attached fdev mem s \<longleftrightarrow> bpi_wired fdev \<and> (\<forall>t. bu_array (bus_at fdev t) \<longrightarrow>
     bu_ctrl (bus_at fdev t) = BPI_REGION_OE OR BPI_WE_N \<longrightarrow>
     ucast (w_ioread s t (fl_data_reg fdev)) = mem (bu_addr (bus_at fdev t)))"

lemma bus_iowrite [simp]: "bus_at fdev (trace (iowrite32 v a s)) = bus_step fdev a v (bus_at fdev (trace s))"
  by simp

lemma bus_ioread [simp]: "bus_at fdev (trace (snd (ioread32 a s))) = bus_at fdev (trace s)"
  by (simp add: ioread32_def Let_def)

lemma world_bpi [simp]:
  "w_ioread (bpi_flash_set_addr fdev a s) = w_ioread s" "w_ioread (snd (bpi_flash_read_cur fdev s)) = w_ioread s"
  "w_ioread (bpi_flash_write_cur fdev d s) = w_ioread s"
  by (simp_all add: bpi_flash_set_addr_def bpi_flash_read_cur_def bpi_flash_write_cur_def Let_def split_beta)

text \<open>In array mode with write enable high.\<close>

definition bpi_reading :: "flash_device \<Rightarrow> (u32 \<Rightarrow> u16) \<Rightarrow> sys \<Rightarrow> bool" where
  "bpi_reading fdev mem s \<longleftrightarrow> bpi_attached fdev mem s \<and> bu_array (bus_at fdev (trace s)) \<and>
     bu_ctrl (bus_at fdev (trace s)) AND BPI_WE_N \<noteq> 0"

lemma bpi_array_command:
  "bpi_attached fdev mem s \<Longrightarrow> bpi_reading fdev mem (bpi_flash_write_word fdev a CFI_READ_ARRAY s)"
  by (auto simp: bpi_reading_def bpi_attached_def bpi_wired_def bpi_flash_write_word_def bpi_flash_write_cur_def
      bpi_flash_set_addr_def bus_step_def Let_def split_beta bpi_line_defs CFI_READ_ARRAY_def)

lemma bpi_word_value:
  assumes "bpi_reading fdev mem s" "bpi_flash_read_word fdev a s = (v, s')"
  shows "v = mem (ucast a) \<and> bpi_reading fdev mem s'"
proof -
  let ?s = "iowrite32 (BPI_REGION_OE OR BPI_WE_N) (fl_ctrl_reg fdev) (bpi_flash_set_addr fdev a s)"
  let ?t = "trace (snd (ioread32 (fl_data_reg fdev) ?s))"
  have d: "fl_ctrl_reg fdev \<noteq> fl_addr_reg fdev" "fl_ctrl_reg fdev \<noteq> fl_data_reg fdev" "fl_addr_reg fdev \<noteq> fl_data_reg fdev"
    using assms(1) by (auto simp: bpi_reading_def bpi_attached_def bpi_wired_def)
  have b: "bus_at fdev ?t = (bus_at fdev (trace s))\<lparr>bu_addr := ucast a, bu_ctrl := BPI_REGION_OE OR BPI_WE_N\<rparr>"
    using assms(1) d by (simp add: bpi_flash_set_addr_def bus_step_def bpi_reading_def)
  with assms(1) have "ucast (w_ioread s ?t (fl_data_reg fdev)) = mem (ucast a)"
    by (simp add: bpi_reading_def bpi_attached_def)
  then have "v = mem (ucast a)"
    using assms(2) by (simp add: bpi_flash_read_word_def bpi_flash_read_cur_def bpi_flash_set_addr_def ioread32_def Let_def prod_eq_iff)
  moreover have "bpi_reading fdev mem s'"
    using assms d by (auto simp: bpi_flash_read_word_def bpi_flash_read_cur_def bpi_flash_set_addr_def Let_def split_beta
        bpi_reading_def bpi_attached_def bus_step_def bpi_line_defs)
  ultimately show ?thesis by blast
qed

text \<open>Bytes of the words, the low one first.\<close>

definition flash_byte :: "(u32 \<Rightarrow> u16) \<Rightarrow> nat \<Rightarrow> u8" where
  "flash_byte mem x = (if even x then ucast (mem (word_of_nat (x div 2))) else ucast (drop_bit 8 (mem (word_of_nat (x div 2)))))"

lemma ucast_word: "ucast (drop_bit 1 (a :: u64)) = (word_of_nat (unat a div 2) :: u32)"
proof -
  have "ucast (drop_bit 1 a) = (word_of_nat (unat (drop_bit 1 a)) :: u32)" by (rule of_nat_unat [symmetric])
  then show ?thesis by (simp only: unat_drop_bit power_one_right)
qed

lemma bpi_words_value:
  assumes "bpi_reading fdev mem s" "even (unat a)" "unat a + 2 * n < 2 ^ 64" "bpi_read_words fdev a n s = (bs, s')"
  shows "bs = map (flash_byte mem) [unat a..<unat a + 2 * n] \<and> bpi_reading fdev mem s'"
  using assms
proof (induction n arbitrary: a s bs s')
  case (Suc n)
  obtain v s1 where v: "bpi_flash_read_word fdev (drop_bit 1 a) s = (v, s1)" by force
  obtain cs s2 where c: "bpi_read_words fdev (a + 2) n s1 = (cs, s2)" by force
  note w = bpi_word_value [OF Suc.prems(1) v]
  have a: "unat (a + 2) = unat a + 2" using Suc.prems(3) by (simp add: unat_word_ariths)
  then have "cs = map (flash_byte mem) [unat a + 2..<unat a + 2 + 2 * n] \<and> bpi_reading fdev mem s2"
    using Suc.IH [OF conjunct2 [OF w] _ _ c] Suc.prems(2,3) by simp
  moreover have "bs = ucast v # ucast (drop_bit 8 v) # cs" "s' = s2" using Suc.prems(4) v c by simp_all
  moreover have "[unat a..<unat a + 2 * Suc n] = unat a # (unat a + 1) # [unat a + 2..<unat a + 2 + 2 * n]"
    by (simp add: upt_conv_Cons del: upt_Suc)
  moreover have "Suc (unat a) div 2 = unat a div 2" using Suc.prems(2) by simp
  moreover have "flash_byte mem (unat a) = ucast v" "flash_byte mem (unat a + 1) = ucast (drop_bit 8 v)"
    using w Suc.prems(2) unfolding ucast_word by (simp_all add: flash_byte_def)
  ultimately show ?case by (simp del: upt_Suc)
qed simp

lemma bpi_even_value:
  assumes "bpi_reading fdev mem s" "even (unat a)" "unat a + len < 2 ^ 64" "bpi_read_even fdev a len s = (bs, s')"
  shows "bs = map (flash_byte mem) [unat a..<unat a + len] \<and> bpi_reading fdev mem s'"
proof -
  obtain cs s1 where c: "bpi_read_words fdev a (len div 2) s = (cs, s1)" by force
  have l: "unat a + 2 * (len div 2) < 2 ^ 64" using assms(3) by simp
  note w = bpi_words_value [OF assms(1,2) l c]
  show ?thesis
  proof (cases "odd len")
    case False
    then show ?thesis using assms(4) c w by (simp add: bpi_read_even_def)
  next
    case True
    let ?a = "a + 2 * word_of_nat (len div 2)"
    obtain v s2 where v: "bpi_flash_read_word fdev (drop_bit 1 ?a) s1 = (v, s2)" by force
    have e: "2 * word_of_nat (len div 2) = (word_of_nat (2 * (len div 2)) :: u64)" by simp
    have u: "unat ?a = unat a + 2 * (len div 2)"
      unfolding e using l by (simp only: unat_word_ariths unat_of_nat) (simp add: take_bit_nat_eq_self)
    have "len = Suc (2 * (len div 2))" using True by presburger
    then have m: "[unat a..<unat a + len] = [unat a..<unat a + 2 * (len div 2)] @ [unat a + 2 * (len div 2)]"
      by (metis add_Suc_right le_add1 upt_Suc_append)
    have b: "bs = cs @ [ucast v]" "s' = s2" using assms(4) True c v by (simp_all add: bpi_read_even_def)
    have x: "v = mem (ucast (drop_bit 1 ?a))" "bpi_reading fdev mem s2"
      using bpi_word_value [OF conjunct2 [OF w] v] by simp_all
    have "ucast v = flash_byte mem (unat ?a)"
      unfolding x(1) ucast_word using assms(2) by (simp add: flash_byte_def u)
    with b w x(2) show ?thesis unfolding m by (simp add: u)
  qed
qed

section \<open>Properties\<close>

text \<open>C34: reading any range at any address, even or odd, returns the bytes of the flash.\<close>

theorem bpi_read_memory:
  assumes "bpi_attached fdev mem s" "unat a + len < 2 ^ 64" "odd (unat a) \<longrightarrow> len \<noteq> 0"
  shows "\<exists>s'. bpi_flash_read fdev a len s = Some (0, map (flash_byte mem) [unat a..<unat a + len], s')"
proof -
  let ?s = "bpi_flash_write_word fdev 0 CFI_READ_ARRAY s"
  note r = bpi_array_command [OF assms(1), of 0]
  have o: "a AND 1 \<noteq> 0 \<longleftrightarrow> odd (unat a)"
    using mask_mod [of a 1] by (simp add: unat_eq_0 [symmetric] odd_iff_mod_2_eq_one even_iff_mod_2_eq_zero)
  show ?thesis
  proof (cases "odd (unat a)")
    case False
    obtain bs s1 where b: "bpi_read_even fdev a len ?s = (bs, s1)" by force
    from bpi_even_value [OF r _ assms(2) b] False o b show ?thesis by (simp add: bpi_flash_read_def Let_def)
  next
    case True
    obtain v s1 where v: "bpi_flash_read_word fdev (drop_bit 1 a) ?s = (v, s1)" by force
    obtain bs s2 where b: "bpi_read_even fdev (a + 1) (len - 1) s1 = (bs, s2)" by force
    note w = bpi_word_value [OF r v]
    have u: "unat (a + 1) = unat a + 1" using assms(2,3) True by (simp add: unat_word_ariths)
    moreover have "unat a + 1 + (len - 1) = unat a + len" using assms(3) True by simp
    ultimately have "bs = map (flash_byte mem) [unat a + 1..<unat a + len]"
      using bpi_even_value [OF conjunct2 [OF w] _ _ b] assms(2) True by (simp only: even_add odd_one)
    moreover have "ucast (drop_bit 8 v) = flash_byte mem (unat a)"
      using w True unfolding ucast_word by (simp add: flash_byte_def)
    moreover have "[unat a..<unat a + len] = unat a # [unat a + 1..<unat a + len]"
      using assms(3) True by (simp add: upt_conv_Cons)
    ultimately show ?thesis using True o assms(3) v b by (simp add: bpi_flash_read_def Let_def)
  qed
qed

text \<open>A program request is not empty, not longer than what is left, and stays within one write buffer.\<close>

lemma bpi_segment_bounds:
  assumes "fl_write_buffer_size fdev = 2 ^ k" "k < 64" "len \<noteq> 0"
  shows "bpi_segment fdev a len \<noteq> 0 \<and> bpi_segment fdev a len \<le> len \<and>
    unat a mod 2 ^ k + unat (bpi_segment fdev a len) \<le> 2 ^ k"
proof -
  let ?r = "fl_write_buffer_size fdev - (a AND (fl_write_buffer_size fdev - 1))"
  have m: "unat (a AND (2 ^ k - 1)) = unat a mod 2 ^ k" using mask_mod [of a k] by (simp add: mask_eq_exp_minus_1)
  have p: "unat ((2 :: u64) ^ k) = 2 ^ k" using assms(2) by (simp add: unat_2p)
  have "unat a mod 2 ^ k < 2 ^ k" by simp
  then have r: "unat ?r = 2 ^ k - unat a mod 2 ^ k" "unat a mod 2 ^ k \<le> 2 ^ k"
    using unat_sub_le [of "a AND (2 ^ k - 1)" "2 ^ k"] m p assms(1) by simp_all
  then have "0 < unat ?r" by simp
  then have "?r \<noteq> 0" by (metis unat_0 less_irrefl)
  moreover have "unat a mod 2 ^ k + unat ?r = 2 ^ k" unfolding r(1) using r(2) by (rule le_add_diff_inverse)
  ultimately show ?thesis using assms(3)
    by (cases "len > ?r") (simp_all add: bpi_segment_def Let_def word_le_nat_alt word_less_nat_alt not_less)
qed

text \<open>A flash that reports more than two erase regions makes the driver leave its array of two: the
  identification keeps the count, and erasing at an address beyond the regions it recorded is a fault.\<close>

theorem bpi_region_overrun:
  assumes "cfi_regions fdev s = Some (0, fdev', s')" "length (fl_erase_region fdev) = 2" "fl_erase_region_count fdev' > 2"
    and "\<forall>r \<in> set (fl_erase_region fdev'). \<not> in_region a r" "len \<noteq> 0"
  shows "bpi_flash_erase fdev' a len t = None"
proof -
  have "length (fl_erase_region fdev') = 2"
    using assms(1,2) by (auto simp: cfi_regions_def Let_def split: if_splits prod.splits Option.bind_splits)
  then obtain r1 r2 where l: "fl_erase_region fdev' = [r1, r2]" by (auto simp: numeral_2_eq_2 length_Suc_conv)
  obtain n where n: "fl_erase_region_count fdev' = Suc (Suc (Suc n))"
    using assms(3) by (metis Suc_diff_Suc add_2_eq_Suc' less_imp_Suc_add add.commute numeral_2_eq_2 add_Suc_right)
  show ?thesis using assms(4,5) by (subst bpi_flash_erase.simps) (simp add: l n)
qed

section \<open>A flash to run it on\<close>

definition demo_bpi :: flash_device where
  "demo_bpi = \<lparr>fl_driver = Bpi_flash_driver, fl_ops = None, fl_ctrl_reg = 0x100, fl_addr_reg = 0x104, fl_data_reg = 0x108,
     fl_size = 0, fl_data_width = 16, fl_write_buffer_size = 0, fl_erase_block_size = 0, fl_protocol = 0,
     fl_bulk_protocol = 0, fl_read_dummy_cycles = 0, fl_erase_region_count = 0,
     fl_erase_region = replicate 2 \<lparr>er_block_count = 0, er_block_size = 0, er_region_start = 0, er_region_end = 0\<rparr>\<rparr>"

definition array_world :: "(u32 \<Rightarrow> u16) \<Rightarrow> sys" where
  "array_world mem = quiet_world\<lparr>w_ioread := \<lambda>t _. ucast (mem (bu_addr (bus_at demo_bpi t)))\<rparr>"

theorem bpi_read_memory_witness:
  "\<exists>s'. bpi_flash_read demo_bpi 3 4 (array_world ucast) = Some (0, [0, 2, 0, 3], s')"
proof -
  have "ucast (ucast x :: u32) = x" for x :: u16
    by (rule bit_word_eqI) (simp add: bit_simps)
  then have "bpi_attached demo_bpi ucast (array_world ucast)"
    by (simp add: bpi_attached_def array_world_def) (simp add: bpi_wired_def demo_bpi_def)
  from bpi_read_memory [OF this, of 3 4] show ?thesis
    by (simp add: flash_byte_def upt_rec)
qed

definition three_regions :: sys where
  "three_regions = quiet_world\<lparr>w_ioread := \<lambda>t _. 3\<rparr>"

lemma const_reads:
  assumes "w_ioread s = (\<lambda>t _. 3)"
  obtains s' where "bpi_flash_read_word fdev a s = (3, s')" "w_ioread s' = (\<lambda>t _. 3)"
proof
  show "bpi_flash_read_word fdev a s = (3, snd (bpi_flash_read_word fdev a s))"
    using assms by (simp add: bpi_flash_read_word_def bpi_flash_read_cur_def bpi_flash_set_addr_def ioread32_def Let_def)
  show "w_ioread (snd (bpi_flash_read_word fdev a s)) = (\<lambda>t _. 3)"
    using assms by (simp add: bpi_flash_read_word_def)
qed

lemma const_region:
  assumes "w_ioread s = (\<lambda>t _. 3)"
  obtains s' where "cfi_region fdev start a b c d s = Some (\<lparr>er_block_count = 772, er_block_size = 197376,
    er_region_start = start, er_region_end = start + 152374272\<rparr>, s')" "w_ioread s' = (\<lambda>t _. 3)"
proof -
  obtain s1 where 1: "bpi_flash_read_word fdev a s = (3, s1)" "w_ioread s1 = (\<lambda>t _. 3)" by (rule const_reads [OF assms])
  obtain s2 where 2: "bpi_flash_read_word fdev b s1 = (3, s2)" "w_ioread s2 = (\<lambda>t _. 3)" by (rule const_reads [OF 1(2)])
  obtain s3 where 3: "bpi_flash_read_word fdev c s2 = (3, s3)" "w_ioread s3 = (\<lambda>t _. 3)" by (rule const_reads [OF 2(2)])
  obtain s4 where 4: "bpi_flash_read_word fdev d s3 = (3, s4)" "w_ioread s4 = (\<lambda>t _. 3)" by (rule const_reads [OF 3(2)])
  show thesis by (rule that [of s4]) (simp_all add: cfi_region_def cfi_pair_def 1(1) 2(1) 3(1) 4 Let_def)
qed

theorem bpi_region_overrun_witness:
  "\<exists>fdev s'. cfi_regions demo_bpi three_regions = Some (0, fdev, s') \<and> bpi_flash_erase fdev 0x40000000 0x1000 s' = None"
proof -
  have w: "w_ioread three_regions = (\<lambda>t _. 3)" by (simp add: three_regions_def)
  let ?r = "\<lambda>start. \<lparr>er_block_count = 772, er_block_size = 197376, er_region_start = start, er_region_end = start + 152374272\<rparr>"
  obtain s1 where 1: "bpi_flash_read_word demo_bpi CFI_ERASE_REGION_COUNT three_regions = (3, s1)" "w_ioread s1 = (\<lambda>t _. 3)"
    by (rule const_reads [OF w])
  obtain e where d: "fl_erase_region demo_bpi = [e, e]" by (simp add: demo_bpi_def numeral_2_eq_2)
  let ?f = "demo_bpi\<lparr>fl_erase_region_count := 3\<rparr>"
  obtain s2 where 2: "cfi_region ?f 0 CFI_ERASE_REGION_1_INFO_0 CFI_ERASE_REGION_1_INFO_1
      CFI_ERASE_REGION_1_INFO_2 CFI_ERASE_REGION_1_INFO_3 s1 = Some (?r 0, s2)" "w_ioread s2 = (\<lambda>t _. 3)"
    by (rule const_region [OF 1(2)])
  let ?g = "?f\<lparr>fl_erase_region := [?r 0, e], fl_erase_block_size := 197376\<rparr>"
  obtain s3 where 3: "cfi_region ?g 152374272 CFI_ERASE_REGION_2_INFO_0 CFI_ERASE_REGION_2_INFO_1
      CFI_ERASE_REGION_2_INFO_2 CFI_ERASE_REGION_2_INFO_3 s2 = Some (?r 152374272, s3)"
    by (rule const_region [OF 2(2)])
  let ?h = "?g\<lparr>fl_erase_region := [?r 0, ?r 152374272], fl_erase_block_size := 197376\<rparr>"
  have "cfi_regions demo_bpi three_regions = Some (0, ?h, s3)"
    using 1(1) 2(1) 3 by (simp add: cfi_regions_def Let_def d)
  moreover have "bpi_flash_erase ?h 0x40000000 0x1000 s3 = None"
    by (rule bpi_region_overrun [OF \<open>cfi_regions demo_bpi three_regions = Some (0, ?h, s3)\<close>])
      (simp_all add: in_region_def, simp add: demo_bpi_def)
  ultimately show ?thesis by blast
qed

end
