(* ===== verification/FlashDev.thy ===== *)
theory FlashDev
  imports SpiRefine BpiRefine
begin

text \<open>
  Flash devices (\<open>utils/flash.c\<close>): opening one with its driver, and the calls through the driver table. A
  register address of zero is a null pointer; so is a device that is \<open>None\<close>.
\<close>

definition driver_init :: "flash_device \<Rightarrow> sys \<Rightarrow> (int \<times> flash_device \<times> sys) option" where
  "driver_init fdev s = (case fl_driver fdev of
     Spi_flash_driver \<Rightarrow> spi_flash_init fdev s | Bpi_flash_driver \<Rightarrow> bpi_flash_init fdev s)"

definition driver_release :: "flash_device \<Rightarrow> sys \<Rightarrow> sys" where
  "driver_release fdev s = (case fl_driver fdev of
     Spi_flash_driver \<Rightarrow> spi_flash_release fdev s | Bpi_flash_driver \<Rightarrow> bpi_flash_release fdev s)"

definition flash_release :: "flash_device option \<Rightarrow> sys \<Rightarrow> sys" where
  "flash_release fdev s = (case fdev of None \<Rightarrow> s | Some f \<Rightarrow> kvoid ''free'' [] (driver_release f s))"

definition zero_region :: flash_erase_region_info where
  "zero_region = \<lparr>er_block_count = 0, er_block_size = 0, er_region_start = 0, er_region_end = 0\<rparr>"

definition zero_flash :: "flash_driver \<Rightarrow> int \<Rightarrow> addr \<Rightarrow> addr \<Rightarrow> addr \<Rightarrow> flash_device" where
  "zero_flash driver data_width ctrl_reg addr_reg data_reg =
    \<lparr>fl_driver = driver, fl_ops = None, fl_ctrl_reg = ctrl_reg, fl_addr_reg = addr_reg, fl_data_reg = data_reg,
     fl_size = 0, fl_data_width = data_width, fl_write_buffer_size = 0, fl_erase_block_size = 0, fl_protocol = 0,
     fl_bulk_protocol = 0, fl_read_dummy_cycles = 0, fl_erase_region_count = 0, fl_erase_region = replicate 2 zero_region\<rparr>"

definition open_driver :: "flash_device \<Rightarrow> sys \<Rightarrow> (flash_device option \<times> sys) option" where
  "open_driver fdev s = (case kcall ''calloc'' [] s of (p, s) \<Rightarrow>
     if p = 0 then Some (None, s)
     else do {
       (e, fdev, s) \<leftarrow> driver_init fdev s;
       Some (if e \<noteq> 0 then (None, flash_release (Some fdev) s) else (Some fdev, s)) })"

definition flash_open_spi :: "int \<Rightarrow> addr \<Rightarrow> sys \<Rightarrow> (flash_device option \<times> sys) option" where
  "flash_open_spi data_width ctrl_reg s =
    (if ctrl_reg = 0 then Some (None, s)
     else open_driver (zero_flash Spi_flash_driver data_width ctrl_reg 0 0) s)"

definition flash_open_bpi :: "int \<Rightarrow> addr \<Rightarrow> addr \<Rightarrow> addr \<Rightarrow> sys \<Rightarrow> (flash_device option \<times> sys) option" where
  "flash_open_bpi data_width ctrl_reg addr_reg data_reg s =
    (if ctrl_reg = 0 \<or> addr_reg = 0 \<or> data_reg = 0 then Some (None, s)
     else open_driver (zero_flash Bpi_flash_driver data_width ctrl_reg addr_reg data_reg) s)"

definition flash_read :: "flash_device option \<Rightarrow> u64 \<Rightarrow> nat \<Rightarrow> sys \<Rightarrow> (int \<times> u8 list \<times> sys) option" where
  "flash_read fdev a len s = (case fdev of
     None \<Rightarrow> Some (- 1, [], s)
   | Some f \<Rightarrow> (case fl_driver f of
       Spi_flash_driver \<Rightarrow> Some (spi_flash_read f a len s)
     | Bpi_flash_driver \<Rightarrow> bpi_flash_read f a len s))"

definition flash_write :: "flash_device option \<Rightarrow> u64 \<Rightarrow> u8 list \<Rightarrow> sys \<Rightarrow> (int \<times> sys) option" where
  "flash_write fdev a src s = (case fdev of
     None \<Rightarrow> Some (- 1, s)
   | Some f \<Rightarrow> (case fl_driver f of
       Spi_flash_driver \<Rightarrow> spi_flash_write f a src s
     | Bpi_flash_driver \<Rightarrow> bpi_flash_write f a (word_of_nat (length src)) src s))"

definition flash_erase :: "flash_device option \<Rightarrow> u64 \<Rightarrow> u64 \<Rightarrow> sys \<Rightarrow> (int \<times> sys) option" where
  "flash_erase fdev a len s = (case fdev of
     None \<Rightarrow> Some (- 1, s)
   | Some f \<Rightarrow> (case fl_driver f of
       Spi_flash_driver \<Rightarrow> spi_flash_erase f a len s
     | Bpi_flash_driver \<Rightarrow> bpi_flash_erase f a len s))"

section \<open>Opening a serial flash\<close>

text \<open>The state of the wires depends on the control register alone.\<close>

lemma spi_at_cong:
  assumes "fl_ctrl_reg f = fl_ctrl_reg fdev"
  shows "spi_at f delay ch0 l ch s = spi_at fdev delay ch0 l ch s"
  unfolding spi_at_def spi_attached_def assms ..

lemma spi_at_dummy_read: "spi_at fdev delay ch0 l ch s \<Longrightarrow> spi_at fdev delay ch0 l ch (dummy_read fdev s)"
  using attached_cong [of "dummy_read fdev s" s] by (simp add: dummy_read_def spi_at_def)

lemma spi_idle_kcall: "spi_idle fdev delay ch0 ch s \<Longrightarrow> spi_idle fdev delay ch0 ch (snd (kcall f x s))"
  using attached_cong [of "snd (kcall f x s)" s] by (simp add: kcall_def spi_at_def)

lemma spi_ignored:
  assumes "spi_idle fdev delay ch0 ch s" "ch_busy ch = 0" "c \<noteq> 6" "c \<noteq> 4" "program_cmd c = None" "erase_cmd c = None"
  shows "spi_idle fdev delay ch0 ch (spi_flash_deselect fdev (spi_flash_write_byte fdev c SPI_PROTO_STR s))"
    "spi_idle fdev delay ch0 ch (spi_flash_deselect fdev (spi_flash_write_byte fdev b SPI_PROTO_STR (spi_flash_write_byte fdev c SPI_PROTO_STR s)))"
proof -
  have w: "spi_at fdev delay ch0 (samples SPI_PROTO_STR c) ch (spi_flash_write_byte fdev c SPI_PROTO_STR s)"
    using spi_at_write_byte [OF assms(1), of SPI_PROTO_STR c] by (simp only: append_Nil)
  have "chip_act delay (samples SPI_PROTO_STR c) ch = ch" "chip_act delay (samples SPI_PROTO_STR c @ x) ch = ch" for x
    using assms(2-6) by (simp_all add: chip_act_def command_of_samples del: samples.simps)
  with spi_at_deselect [OF w] spi_at_deselect [OF spi_at_write_byte [OF w]]
  show "spi_idle fdev delay ch0 ch (spi_flash_deselect fdev (spi_flash_write_byte fdev c SPI_PROTO_STR s))"
    "spi_idle fdev delay ch0 ch (spi_flash_deselect fdev (spi_flash_write_byte fdev b SPI_PROTO_STR (spi_flash_write_byte fdev c SPI_PROTO_STR s)))"
    by (auto split: if_splits)
qed

lemma spi_reset_idle:
  "spi_idle fdev delay ch0 ch s \<Longrightarrow> ch_busy ch = 0 \<Longrightarrow> spi_idle fdev delay ch0 ch (spi_flash_reset fdev SPI_PROTO_STR s)"
  unfolding spi_flash_reset_def Let_def
  by (intro spi_at_dummy_read spi_ignored(1)) (use spi_at_deselect [of fdev delay ch0 "[]" ch s] in
      \<open>simp_all add: SPI_CMD_RESET_ENABLE_def SPI_CMD_RESET_MEMORY_def program_cmd_def erase_cmd_def\<close>)

text \<open>The identification reads the three bytes of the flash.\<close>

lemma spi_id_read:
  assumes "spi_idle fdev delay ch0 ch s" "ch_busy ch = 0"
  obtains s1 s2 s3 where
    "spi_flash_read_byte fdev SPI_PROTO_STR (spi_flash_write_byte fdev SPI_CMD_READ_ID SPI_PROTO_STR s) = (ch_id ch 0, s1)"
    "spi_flash_read_byte fdev SPI_PROTO_STR s1 = (ch_id ch 1, s2)"
    "spi_flash_read_byte fdev SPI_PROTO_STR s2 = (ch_id ch 2, s3)"
    "spi_idle fdev delay ch0 ch (spi_flash_deselect fdev s3)"
proof -
  let ?l = "samples SPI_PROTO_STR SPI_CMD_READ_ID" and ?s = "spi_flash_write_byte fdev SPI_CMD_READ_ID SPI_PROTO_STR s"
  obtain b1 s1 where 1: "spi_flash_read_byte fdev SPI_PROTO_STR ?s = (b1, s1)" by force
  obtain b2 s2 where 2: "spi_flash_read_byte fdev SPI_PROTO_STR s1 = (b2, s2)" by force
  obtain b3 s3 where 3: "spi_flash_read_byte fdev SPI_PROTO_STR s2 = (b3, s3)" by force
  have w: "spi_at fdev delay ch0 ?l ch ?s"
    using spi_at_write_byte [OF assms(1), of SPI_PROTO_STR SPI_CMD_READ_ID] by (simp only: append_Nil)
  have o: "chip_output ch ?l = Some (SPI_PROTO_STR, 8, ch_id ch)"
    using drop_command(2) by (simp add: chip_output_def command_of_samples SPI_CMD_READ_ID_def del: samples.simps)
  have "spi_read_loop fdev SPI_PROTO_STR 3 ?s = ([b1, b2, b3], s3)"
    by (simp add: numeral_3_eq_3 1 2 3)
  from spi_read_loop_value [OF w o _ this, of 0] drop_command(2) obtain x where
    b: "[b1, b2, b3] = map (ch_id ch) [0..<3]" and e: "spi_at fdev delay ch0 (?l @ x) ch s3"
    by (auto simp del: samples.simps)
  have "chip_act delay (?l @ x) ch = ch"
    using assms(2) by (simp add: chip_act_def command_of_samples SPI_CMD_READ_ID_def program_cmd_def erase_cmd_def del: samples.simps)
  with spi_at_deselect [OF e] have "spi_idle fdev delay ch0 ch (spi_flash_deselect fdev s3)" by (auto split: if_splits)
  with that 1 2 3 b show thesis by (simp add: upt_rec numeral_2_eq_2)
qed

lemma spi_init_ok:
  assumes "spi_idle fdev delay ch0 ch s" "ch_busy ch = 0" "spi_capacity (ch_id ch 2) < 58"
  obtains f s' where "spi_flash_init fdev s = Some (0, f, s')" "spi_idle f delay ch0 ch s'"
    "fl_driver f = fl_driver fdev" "fl_size f = 2 ^ (spi_capacity (ch_id ch 2) + 6)"
    "fl_data_width f = 4 \<longrightarrow> fl_read_dummy_cycles f = 10"
proof -
  obtain s1 s2 s3 where r:
    "spi_flash_read_byte fdev SPI_PROTO_STR (spi_flash_write_byte fdev SPI_CMD_READ_ID SPI_PROTO_STR (spi_flash_reset fdev SPI_PROTO_STR s)) = (ch_id ch 0, s1)"
    "spi_flash_read_byte fdev SPI_PROTO_STR s1 = (ch_id ch 1, s2)"
    "spi_flash_read_byte fdev SPI_PROTO_STR s2 = (ch_id ch 2, s3)"
    "spi_idle fdev delay ch0 ch (spi_flash_deselect fdev s3)"
    using spi_id_read [OF spi_reset_idle [OF assms(1,2)] assms(2)] by metis
  define f0 where "f0 = fdev\<lparr>fl_size := 2 ^ (spi_capacity (ch_id ch 2) + 6), fl_protocol := proto_num SPI_PROTO_STR,
    fl_bulk_protocol := proto_num SPI_PROTO_STR, fl_read_dummy_cycles := 0, fl_write_buffer_size := SPI_PAGE_SIZE,
    fl_erase_block_size := SPI_SUBSECTOR_SIZE\<rparr>"
  define f where "f = (if fl_data_width fdev = 4 then f0\<lparr>fl_bulk_protocol := proto_num SPI_PROTO_QUAD_STR, fl_read_dummy_cycles := 10\<rparr> else f0)"
  define t where "t = (if fl_data_width fdev = 4 then spi_flash_write_volatile_config_register f0 0xFB SPI_PROTO_STR (spi_flash_deselect fdev s3)
    else spi_flash_deselect fdev s3)"
  have c: "fl_ctrl_reg f0 = fl_ctrl_reg fdev" "fl_ctrl_reg f = fl_ctrl_reg fdev" by (simp_all add: f0_def f_def)
  have "spi_idle f0 delay ch0 ch (spi_flash_deselect fdev s3)" using r(4) spi_at_cong [OF c(1)] by simp
  then have "spi_idle f0 delay ch0 ch t"
    using spi_ignored(2) [of f0 delay ch0 ch _ SPI_CMD_WRITE_V_CONFIG_REG "0xFB"] assms(2)
    by (simp add: t_def spi_flash_write_volatile_config_register_def SPI_CMD_WRITE_V_CONFIG_REG_def program_cmd_def erase_cmd_def)
  then have "spi_idle f delay ch0 ch (spi_flash_release f t)"
    using spi_at_deselect [of f delay ch0 "[]" ch t] spi_at_cong [of f f0] c by (simp add: spi_flash_release_def)
  moreover have "spi_flash_init fdev s = Some (0, f, spi_flash_release f t)"
    using assms(3) by (simp add: spi_flash_init_def Let_def r f_def t_def f0_def)
  ultimately show thesis using that [of f "spi_flash_release f t"] by (simp add: f_def f0_def)
qed

section \<open>Properties\<close>

text \<open>C7: opening a serial flash of any supported capacity finds its size, and what is then erased, programmed
  and read back through the driver table is the data, on one line or four, with three or four address bytes.\<close>

theorem flash_open_store:
  assumes "spi_idle (zero_flash Spi_flash_driver w ctrl 0 0) delay ch0 ch s" "ch_busy ch = 0" "ctrl \<noteq> 0"
    "spi_capacity (ch_id ch 2) < 58" "w_kcall s (trace s) ''calloc'' [] \<noteq> 0"
    "unat a mod 4096 = 0" "unat len mod 4096 = 0" "unat a < 2 ^ 32"
    "unat a + unat len \<le> (if a > 0xffffff then 2 ^ 32 else 2 ^ 24)" "length data \<le> unat len"
  shows "\<exists>fdev s0 s1 s2 s3. flash_open_spi w ctrl s = Some (Some fdev, s0) \<and>
    fl_size fdev = 2 ^ (spi_capacity (ch_id ch 2) + 6) \<and>
    flash_erase (Some fdev) a len s0 = Some (0, s1) \<and> flash_write (Some fdev) a data s1 = Some (0, s2) \<and>
    flash_read (Some fdev) a (length data) s2 = Some (0, data, s3)"
proof -
  let ?z = "zero_flash Spi_flash_driver w ctrl 0 0"
  obtain p s' where k: "kcall ''calloc'' [] s = (p, s')" by force
  then have p: "p \<noteq> 0" "spi_idle ?z delay ch0 ch s'"
    using assms(5) spi_idle_kcall [OF assms(1), of "''calloc''" "[]"] by (auto simp: kcall_def)
  obtain f s0 where i: "spi_flash_init ?z s' = Some (0, f, s0)" "spi_idle f delay ch0 ch s0"
    "fl_driver f = fl_driver ?z" "fl_size f = 2 ^ (spi_capacity (ch_id ch 2) + 6)"
    "fl_data_width f = 4 \<longrightarrow> fl_read_dummy_cycles f = 10"
    using spi_init_ok [OF p(2) assms(2,4)] by metis
  have d: "fl_driver f = Spi_flash_driver" using i(3) by (simp add: zero_flash_def)
  have o: "flash_open_spi w ctrl s = Some (Some f, s0)"
    using assms(3) k p(1) i(1) by (simp add: flash_open_spi_def open_driver_def driver_init_def) (simp add: zero_flash_def)
  from spi_store_roundtrip [OF i(2) assms(2,6,7,8,9,10) i(5)] show ?thesis
    using o i(4) d by (auto simp: flash_erase_def flash_write_def flash_read_def)
qed

theorem flash_open_store_witness:
  "\<exists>fdev s0 s1 s2 s3. flash_open_spi 4 0x100 (flash_world (zero_flash Spi_flash_driver 4 0x100 0 0) 2 demo_chip\<lparr>w_kcall := \<lambda>_ _ _. 1\<rparr>) = Some (Some fdev, s0) \<and>
    fl_size fdev = 0x2000000 \<and>
    flash_erase (Some fdev) 0x1000000 0x1000 s0 = Some (0, s1) \<and> flash_write (Some fdev) 0x1000000 [1, 2, 3] s1 = Some (0, s2) \<and>
    flash_read (Some fdev) 0x1000000 3 s2 = Some (0, [1, 2, 3], s3)"
proof -
  let ?z = "zero_flash Spi_flash_driver 4 0x100 0 0" and ?w = "\<lambda>s. s\<lparr>w_kcall := \<lambda>_ _ _. 1\<rparr>"
  have "spi_idle ?z 2 demo_chip demo_chip (?w (flash_world ?z 2 demo_chip))"
    using flash_world_idle [of ?z 2 demo_chip] attached_cong [of "?w (flash_world ?z 2 demo_chip)" "flash_world ?z 2 demo_chip"]
    by (simp add: spi_at_def)
  moreover have "spi_capacity (ch_id demo_chip 2) = 19" by (simp add: demo_chip_def spi_capacity_def)
  ultimately show ?thesis
    using flash_open_store [of 4 "0x100" 2 demo_chip demo_chip "?w (flash_world ?z 2 demo_chip)" "0x1000000" "0x1000" "[1, 2, 3]"]
    by (simp add: demo_chip_def numeral_3_eq_3)
qed

end
