(* ===== verification/FpgaId.thy ===== *)
theory FpgaId
  imports Prelude
begin

text \<open>
  Naming the FPGA from its JTAG identifier (\<open>utils/fpga_id.c\<close>, \<open>utils/fpga_id.h\<close>). The table has the
  identifiers that the header defines; a Xilinx one carries the version of the part in its upper four bits.
\<close>

definition FPGA_ID_MASK_FULL :: u32 where "FPGA_ID_MASK_FULL = 0xFFFFFFFF"
definition FPGA_ID_MASK_NOVER :: u32 where "FPGA_ID_MASK_NOVER = 0x0FFFFFFF"

record fpga_id =
  fi_id :: u32
  fi_mask :: u32
  fi_part :: string

definition fpga_entry :: "u32 \<Rightarrow> u32 \<times> string \<Rightarrow> fpga_id" where
  "fpga_entry m e = \<lparr>fi_id = fst e, fi_mask = m, fi_part = snd e\<rparr>"

definition xilinx_ids :: "(u32 \<times> string) list" where
  "xilinx_ids = [
    (0x3622093, ''XC7S6''), (0x3620093, ''XC7S15''), (0x37c4093, ''XC7S25''), (0x362f093, ''XC7S50''),
    (0x37c8093, ''XC7S75''), (0x37c7093, ''XC7S100''), (0x362d093, ''XC7A15T''), (0x362d093, ''XC7A35T''),
    (0x362c093, ''XC7A50T''), (0x3632093, ''XC7A75T''), (0x3631093, ''XC7A100T''), (0x3636093, ''XC7A200T''),
    (0x3647093, ''XC7K70T''), (0x364c093, ''XC7K160T''), (0x3651093, ''XC7K325T''), (0x3747093, ''XC7K355T''),
    (0x3656093, ''XC7K410T''), (0x3752093, ''XC7K420T''), (0x3751093, ''XC7K480T''), (0x3671093, ''XC7V585T''),
    (0x36b3093, ''XC7V2000T''), (0x3667093, ''XC7VX330T''), (0x3682093, ''XC7VX415T''),
    (0x3687093, ''XC7VX485T''), (0x3692093, ''XC7VX550T''), (0x3691093, ''XC7VX690T''),
    (0x3696093, ''XC7VX980T''), (0x36d5093, ''XC7VX1140T''), (0x36d9093, ''XC7VH580T''),
    (0x36db093, ''XC7VH870T''), (0x3723093, ''XC7Z007''), (0x3722093, ''XC7Z010''), (0x373c093, ''XC7Z012''),
    (0x3728093, ''XC7Z014''), (0x373b093, ''XC7Z015''), (0x3727093, ''XC7Z020''), (0x372c093, ''XC7Z030''),
    (0x3732093, ''XC7Z035''), (0x3731093, ''XC7Z045''), (0x3736093, ''XC7Z100''), (0x3824093, ''XCKU025''),
    (0x3823093, ''XCKU035''), (0x3822093, ''XCKU040''), (0x3919093, ''XCKU060''), (0x380f093, ''XCKU085''),
    (0x3844093, ''XCKU095''), (0x390d093, ''XCKU115''), (0x3939093, ''XCVU065''), (0x3843093, ''XCVU080''),
    (0x3842093, ''XCVU095''), (0x392d093, ''XCVU125''), (0x3933093, ''XCVU160''), (0x3931093, ''XCVU190''),
    (0x396d093, ''XCVU440''), (0x4ac5093, ''XCAU10P''), (0x4ac4093, ''XCAU15P''), (0x4a65093, ''XCAU20P''),
    (0x4a64093, ''XCAU25P''), (0x4a63093, ''XCKU3P''), (0x4a62093, ''XCKU5P''), (0x484a093, ''XCKU9P''),
    (0x4a4e093, ''XCKU11P''), (0x4a52093, ''XCKU13P''), (0x4a56093, ''XCKU15P''), (0x4b39093, ''XCVU3P''),
    (0x4b2b093, ''XCVU5P''), (0x4b29093, ''XCVU7P''), (0x4b31093, ''XCVU9P''), (0x4b49093, ''XCVU11P''),
    (0x4b51093, ''XCVU13P''), (0x4ba1093, ''XCVU19P''), (0x4ace093, ''XCVU23P''), (0x4b43093, ''XCVU27P''),
    (0x4b41093, ''XCVU29P''), (0x4b6b093, ''XCVU31P''), (0x4b69093, ''XCVU33P''), (0x4b71093, ''XCVU35P''),
    (0x4b79093, ''XCVU37P''), (0x4b73093, ''XCVU45P''), (0x4b7b093, ''XCVU47P''), (0x4b61093, ''XCVU57P''),
    (0x4711093, ''XCZU2''), (0x4710093, ''XCZU3''), (0x4721093, ''XCZU4''), (0x4720093, ''XCZU5''),
    (0x4739093, ''XCZU6''), (0x4730093, ''XCZU7''), (0x4738093, ''XCZU9''), (0x4740093, ''XCZU11''),
    (0x4750093, ''XCZU15''), (0x4759093, ''XCZU17''), (0x4758093, ''XCZU19''), (0x47e1093, ''XCZU21''),
    (0x47e5093, ''XCZU25''), (0x47e4093, ''XCZU27''), (0x47e0093, ''XCZU28''), (0x47e2093, ''XCZU29''),
    (0x47e6093, ''XCZU39''), (0x47fd093, ''XCZU43''), (0x47f8093, ''XCZU46''), (0x47ff093, ''XCZU47''),
    (0x47fb093, ''XCZU48''), (0x47fe093, ''XCZU49''), (0x4b77093, ''XCU50''), (0x4b37093, ''XCU200''),
    (0x4b57093, ''XCU250''), (0x4b7d093, ''XCU280'')]"

definition intel_ids :: "(u32 \<times> string) list" where
  "intel_ids = [
    (0x032270dd, ''1SG10MH_U1''), (0x0322f0dd, ''1SG10MH_U2''), (0x032200dd, ''1SG040H''),
    (0x032a00dd, ''1SG040H(NL)''), (0x032210dd, ''1SG065H''), (0x032a10dd, ''1SG065H(NL)''),
    (0x132220dd, ''1SG085H''), (0x032220dd, ''1SG110H''), (0x032a20dd, ''1SG110H(NL)''),
    (0xf32250dd, ''1SG165H''), (0x532240dd, ''1SG166H''), (0x5322c0dd, ''1SG166H(NL)''),
    (0xe32250dd, ''1SG210H''), (0x232250dd, ''1SG210H(ES1)''), (0x432240dd, ''1SG211H''),
    (0xd32150dd, ''1SG250L''), (0xd32250dd, ''1SG250H''), (0xc32150dd, ''1SG280L''),
    (0xc32950dd, ''1SG280L(NL)''), (0x032150dd, ''1SG280L(ES1)''), (0x032250dd, ''1SG280L(ES2)''),
    (0xc32150dd, ''1SG280L(ES3)''), (0xc32250dd, ''1SG280H''), (0xc32a50dd, ''1SG280H(NL)''),
    (0x032250dd, ''1SG280H(ES1)''), (0xc32150dd, ''1SG280H(ES2)''), (0xc32250dd, ''1SG280H(ES3)''),
    (0x032280dd, ''1SX040H''), (0x032290dd, ''1SX065H''), (0x1322a0dd, ''1SX085H''), (0x0322a0dd, ''1SX110H''),
    (0xf322d0dd, ''1SX165H''), (0xe322d0dd, ''1SX210H''), (0xd321d0dd, ''1SX250L''), (0xd322d0dd, ''1SX250H''),
    (0xc321d0dd, ''1SX280L''), (0x4321d0dd, ''1SX280L(ES1)''), (0x4321d0dd, ''1SX280L(ES2)''),
    (0xc322d0dd, ''1SX280H''), (0x4322d0dd, ''1SX280H(ES1)''), (0xc322d0dd, ''1SX280H(ES2)''),
    (0x032380dd, ''1ST040E''), (0x032b00dd, ''1ST040E(NL)''), (0x1323a0dd, ''1ST085E''),
    (0x0323a0dd, ''1ST110E''), (0x032b20dd, ''1ST110E(NL)''), (0x532340dd, ''1ST165E''),
    (0x432340dd, ''1ST210E''), (0x032340dd, ''1ST210E(ES1)''), (0xd323d0dd, ''1ST250E''),
    (0xc323d0dd, ''1ST280E''), (0xc323d0dd, ''1ST280E(ES1)''), (0x732bc0dd, ''1SM16BE''),
    (0x732bc0dd, ''1SM16BE(ES1)''), (0x732ac0dd, ''1SM16BH''), (0x332ac0dd, ''1SM16BH(ES1)''),
    (0x532ac0dd, ''1SM16CH''), (0x132ac0dd, ''1SM16CH(ES1)''), (0x632bc0dd, ''1SM21BE''),
    (0x632bc0dd, ''1SM21BE(ES1)''), (0x632ac0dd, ''1SM21BH''), (0x232ac0dd, ''1SM21BH(ES1)''),
    (0x432ac0dd, ''1SM21CH''), (0x032ac0dd, ''1SM21CH(ES1)''), (0x0324a0dd, ''1SD110P''),
    (0x032c20dd, ''1SD110P(NL)''), (0x632cc0dd, ''1SD21BP''), (0xc32450dd, ''1SD280P'')]"

definition fpga_id_list :: "fpga_id list" where
  "fpga_id_list = map (fpga_entry FPGA_ID_MASK_NOVER) xilinx_ids @ map (fpga_entry FPGA_ID_MASK_FULL) intel_ids @
     [\<lparr>fi_id = 0, fi_mask = 0, fi_part = ''''\<rparr>]"

text \<open>The search stops at a match or at the entry with identifier zero.\<close>

primrec find_part :: "fpga_id list \<Rightarrow> u32 \<Rightarrow> string option" where
  "find_part [] i = None"
| "find_part (e # es) i = (if fi_id e \<noteq> 0 \<and> (fi_id e XOR i) AND fi_mask e \<noteq> 0 then find_part es i else Some (fi_part e))"

definition get_fpga_part :: "u32 \<Rightarrow> string option" where
  "get_fpga_part i = find_part fpga_id_list i"

section \<open>Entries that repeat an identifier\<close>

fun repeats :: "nat list \<Rightarrow> (nat \<times> string) list \<Rightarrow> string list" where
  "repeats seen [] = []"
| "repeats seen ((i, p) # es) = (if i \<in> set seen then p # repeats seen es else repeats (i # seen) es)"

lemma repeats_first:
  "(i, p) \<in> set es \<Longrightarrow> p \<notin> set (repeats seen es) \<Longrightarrow> i \<notin> set seen \<and> (\<exists>ys zs. es = ys @ (i, p) # zs \<and> i \<notin> fst ` set ys)"
proof (induction seen es rule: repeats.induct)
  case (2 seen j q es)
  show ?case
  proof (cases "(i, p) = (j, q)")
    case True
    with "2.prems" show ?thesis by (fastforce split: if_splits)
  next
    case False
    with "2.prems"(1) have "(i, p) \<in> set es" by auto
    with "2.IH" "2.prems"(2) have "i \<notin> set seen \<and> (j \<in> set seen \<or> i \<noteq> j) \<and> (\<exists>ys zs. es = ys @ (i, p) # zs \<and> i \<notin> fst ` set ys)"
      by (auto split: if_splits)
    then obtain ys zs where "i \<notin> set seen" "i \<noteq> j" "es = ys @ (i, p) # zs" "i \<notin> fst ` set ys" by auto
    then show ?thesis by (intro conjI exI [of _ "(j, q) # ys"] exI [of _ zs]) auto
  qed
qed simp

abbreviation keyed :: "(u32 \<times> string) list \<Rightarrow> (nat \<times> string) list" where
  "keyed es \<equiv> map (\<lambda>e. (unat (fst e), snd e)) es"

lemma xilinx_keys: "keyed xilinx_ids = [
    (56762515, ''XC7S6''), (56754323, ''XC7S15''), (58474643, ''XC7S25''), (56815763, ''XC7S50''),
    (58491027, ''XC7S75''), (58486931, ''XC7S100''), (56807571, ''XC7A15T''), (56807571, ''XC7A35T''),
    (56803475, ''XC7A50T''), (56828051, ''XC7A75T''), (56823955, ''XC7A100T''), (56844435, ''XC7A200T''),
    (56914067, ''XC7K70T''), (56934547, ''XC7K160T''), (56955027, ''XC7K325T''), (57962643, ''XC7K355T''),
    (56975507, ''XC7K410T''), (58007699, ''XC7K420T''), (58003603, ''XC7K480T''), (57086099, ''XC7V585T''),
    (57356435, ''XC7V2000T''), (57045139, ''XC7VX330T''), (57155731, ''XC7VX415T''), (57176211, ''XC7VX485T''),
    (57221267, ''XC7VX550T''), (57217171, ''XC7VX690T''), (57237651, ''XC7VX980T''), (57495699, ''XC7VX1140T''),
    (57512083, ''XC7VH580T''), (57520275, ''XC7VH870T''), (57815187, ''XC7Z007''), (57811091, ''XC7Z010''),
    (57917587, ''XC7Z012''), (57835667, ''XC7Z014''), (57913491, ''XC7Z015''), (57831571, ''XC7Z020''),
    (57852051, ''XC7Z030''), (57876627, ''XC7Z035''), (57872531, ''XC7Z045''), (57893011, ''XC7Z100''),
    (58867859, ''XCKU025''), (58863763, ''XCKU035''), (58859667, ''XCKU040''), (59871379, ''XCKU060''),
    (58781843, ''XCKU085''), (58998931, ''XCKU095''), (59822227, ''XCKU115''), (60002451, ''XCVU065''),
    (58994835, ''XCVU080''), (58990739, ''XCVU095''), (59953299, ''XCVU125''), (59977875, ''XCVU160''),
    (59969683, ''XCVU190''), (60215443, ''XCVU440''), (78401683, ''XCAU10P''), (78397587, ''XCAU15P''),
    (78008467, ''XCAU20P''), (78004371, ''XCAU25P''), (78000275, ''XCKU3P''), (77996179, ''XCKU5P''),
    (75800723, ''XCKU9P''), (77914259, ''XCKU11P''), (77930643, ''XCKU13P''), (77947027, ''XCKU15P''),
    (78876819, ''XCVU3P''), (78819475, ''XCVU5P''), (78811283, ''XCVU7P''), (78844051, ''XCVU9P''),
    (78942355, ''XCVU11P''), (78975123, ''XCVU13P''), (79302803, ''XCVU19P''), (78438547, ''XCVU23P''),
    (78917779, ''XCVU27P''), (78909587, ''XCVU29P''), (79081619, ''XCVU31P''), (79073427, ''XCVU33P''),
    (79106195, ''XCVU35P''), (79138963, ''XCVU37P''), (79114387, ''XCVU45P''), (79147155, ''XCVU47P''),
    (79040659, ''XCVU57P''), (74518675, ''XCZU2''), (74514579, ''XCZU3''), (74584211, ''XCZU4''),
    (74580115, ''XCZU5''), (74682515, ''XCZU6''), (74645651, ''XCZU7''), (74678419, ''XCZU9''),
    (74711187, ''XCZU11''), (74776723, ''XCZU15''), (74813587, ''XCZU17''), (74809491, ''XCZU19''),
    (75370643, ''XCZU21''), (75387027, ''XCZU25''), (75382931, ''XCZU27''), (75366547, ''XCZU28''),
    (75374739, ''XCZU29''), (75391123, ''XCZU39''), (75485331, ''XCZU43''), (75464851, ''XCZU46''),
    (75493523, ''XCZU47''), (75477139, ''XCZU48''), (75489427, ''XCZU49''), (79130771, ''XCU50''),
    (78868627, ''XCU200''), (78999699, ''XCU250''), (79155347, ''XCU280'')]"
  by (simp add: xilinx_ids_def)

lemma intel_keys: "keyed intel_ids = [
    (52588765, ''1SG10MH_U1''), (52621533, ''1SG10MH_U2''), (52560093, ''1SG040H''),
    (53084381, ''1SG040H(NL)''), (52564189, ''1SG065H''), (53088477, ''1SG065H(NL)''), (321003741, ''1SG085H''),
    (52568285, ''1SG110H''), (53092573, ''1SG110H(NL)''), (4079112413, ''1SG165H''), (1394753757, ''1SG166H''),
    (1394786525, ''1SG166H(NL)''), (3810676957, ''1SG210H''), (589451485, ''1SG210H(ES1)''),
    (1126318301, ''1SG211H''), (3542175965, ''1SG250L''), (3542241501, ''1SG250H''), (3273740509, ''1SG280L''),
    (3274264797, ''1SG280L(NL)''), (52515037, ''1SG280L(ES1)''), (52580573, ''1SG280L(ES2)''),
    (3273740509, ''1SG280L(ES3)''), (3273806045, ''1SG280H''), (3274330333, ''1SG280H(NL)''),
    (52580573, ''1SG280H(ES1)''), (3273740509, ''1SG280H(ES2)''), (3273806045, ''1SG280H(ES3)''),
    (52592861, ''1SX040H''), (52596957, ''1SX065H''), (321036509, ''1SX085H''), (52601053, ''1SX110H''),
    (4079145181, ''1SX165H''), (3810709725, ''1SX210H''), (3542208733, ''1SX250L''), (3542274269, ''1SX250H''),
    (3273773277, ''1SX280L''), (1126289629, ''1SX280L(ES1)''), (1126289629, ''1SX280L(ES2)''),
    (3273838813, ''1SX280H''), (1126355165, ''1SX280H(ES1)''), (3273838813, ''1SX280H(ES2)''),
    (52658397, ''1ST040E''), (53149917, ''1ST040E(NL)''), (321102045, ''1ST085E''), (52666589, ''1ST110E''),
    (53158109, ''1ST110E(NL)''), (1394819293, ''1ST165E''), (1126383837, ''1ST210E''),
    (52642013, ''1ST210E(ES1)''), (3542339805, ''1ST250E''), (3273904349, ''1ST280E''),
    (3273904349, ''1ST280E(ES1)''), (1932247261, ''1SM16BE''), (1932247261, ''1SM16BE(ES1)''),
    (1932181725, ''1SM16BH''), (858439901, ''1SM16BH(ES1)''), (1395310813, ''1SM16CH''),
    (321568989, ''1SM16CH(ES1)''), (1663811805, ''1SM21BE''), (1663811805, ''1SM21BE(ES1)''),
    (1663746269, ''1SM21BH''), (590004445, ''1SM21BH(ES1)''), (1126875357, ''1SM21CH''),
    (53133533, ''1SM21CH(ES1)''), (52732125, ''1SD110P''), (53223645, ''1SD110P(NL)''),
    (1663877341, ''1SD21BP''), (3273937117, ''1SD280P'')]"
  by (simp add: intel_ids_def)

definition shadowed_parts :: "string list" where
  "shadowed_parts = [''XC7A35T'', ''1SG280L(ES3)'', ''1SG280H(ES1)'', ''1SG280H(ES2)'', ''1SG280H(ES3)'', ''1SX280L(ES2)'', ''1SX280H(ES2)'', ''1ST280E(ES1)'', ''1SM16BE(ES1)'', ''1SM21BE(ES1)'']"

lemma xilinx_repeats: "repeats [] (keyed xilinx_ids) = [''XC7A35T'']"
  unfolding xilinx_keys by simp

lemma intel_repeats: "repeats [] (keyed intel_ids) = [''1SG280L(ES3)'', ''1SG280H(ES1)'', ''1SG280H(ES2)'', ''1SG280H(ES3)'', ''1SX280L(ES2)'', ''1SX280H(ES2)'', ''1ST280E(ES1)'', ''1SM16BE(ES1)'', ''1SM21BE(ES1)'']"
  unfolding intel_keys by simp

section \<open>Matching\<close>

definition hits :: "fpga_id \<Rightarrow> u32 \<Rightarrow> bool" where
  "hits e i \<longleftrightarrow> (i XOR fi_id e) AND fi_mask e = 0"

lemma find_part_first:
  "hits e i \<Longrightarrow> \<forall>e'\<in>set ys. fi_id e' \<noteq> 0 \<and> \<not> hits e' i \<Longrightarrow> find_part (ys @ e # zs) i = Some (fi_part e)"
  by (induction ys) (auto simp: hits_def xor.commute)

lemma masked_eq: "(i XOR k) AND m = 0 \<longleftrightarrow> i AND m = k AND (m :: 'a :: len word)"
proof -
  have "(i XOR k) AND m = (i AND m) XOR (k AND m)" by (simp add: bit_eq_iff bit_simps) blast
  then show ?thesis by (metis bit.xor_self bit.xor_left_self xor.right_neutral)
qed

lemma full_ones: "FPGA_ID_MASK_FULL = - 1"
  by (simp add: FPGA_ID_MASK_FULL_def)

lemma entry_hits: "hits (fpga_entry m e) i \<longleftrightarrow> i AND m = fst e AND m"
  by (simp add: hits_def fpga_entry_def masked_eq)

lemma xilinx_ok: "list_all (\<lambda>e. fst e AND FPGA_ID_MASK_NOVER = fst e \<and> fst e AND 0xFFF = 0x93) xilinx_ids"
  by (simp add: xilinx_ids_def FPGA_ID_MASK_NOVER_def)

lemma intel_ok: "list_all (\<lambda>e. fst e AND 0xFFF = 0xDD) intel_ids"
  by (simp add: intel_ids_def)

lemma first_entry:
  assumes "(k, p) \<in> set es" "p \<notin> set (repeats [] (keyed es))"
  obtains ys zs where "es = ys @ (k, p) # zs" "\<forall>e\<in>set ys. fst e \<noteq> k"
proof -
  have "(unat k, p) \<in> set (keyed es)" using assms(1) by force
  from repeats_first [OF this assms(2)] obtain ys zs where y: "keyed es = ys @ (unat k, p) # zs" "unat k \<notin> fst ` set ys" by blast
  from y(1) obtain us e vs where e: "es = us @ e # vs" "keyed us = ys" "(unat (fst e), snd e) = (unat k, p)"
    by (auto simp: map_eq_append_conv map_eq_Cons_conv)
  from e(3) have "e = (k, p)" by (cases e) (simp add: word_unat_eq_iff)
  with e y that [of us vs] show thesis by force
qed

text \<open>An identifier that agrees with an entry of the table, for a Xilinx part whatever its version, is given the name
  of that entry, unless the entry repeats the identifier of an earlier one.\<close>

theorem fpga_part_found:
  assumes "e \<in> set fpga_id_list" "fi_id e \<noteq> 0" "fi_part e \<notin> set shadowed_parts" "hits e i"
  shows "get_fpga_part i = Some (fi_part e)"
proof -
  let ?x = "map (fpga_entry FPGA_ID_MASK_NOVER) xilinx_ids" and ?y = "map (fpga_entry FPGA_ID_MASK_FULL) intel_ids"
  have f: "fst a AND FPGA_ID_MASK_FULL = fst a" for a :: "u32 \<times> string"
    by (simp add: full_ones)
  have nzx: "fi_id (fpga_entry m a) \<noteq> 0" if "a \<in> set xilinx_ids" for m a
    using that xilinx_ok by (auto simp: list_all_iff fpga_entry_def)
  have nzy: "fi_id (fpga_entry m a) \<noteq> 0" if "a \<in> set intel_ids" for m a
    using that intel_ok by (auto simp: list_all_iff fpga_entry_def)
  consider (x) k p where "(k, p) \<in> set xilinx_ids" "e = fpga_entry FPGA_ID_MASK_NOVER (k, p)"
    | (y) k p where "(k, p) \<in> set intel_ids" "e = fpga_entry FPGA_ID_MASK_FULL (k, p)"
    using assms(1,2) by (auto simp: fpga_id_list_def)
  then show ?thesis
  proof cases
    case x
    then have "p \<notin> set (repeats [] (keyed xilinx_ids))" using assms(3) by (simp add: xilinx_repeats shadowed_parts_def fpga_entry_def)
    from first_entry [OF x(1) this] obtain ys zs where l: "xilinx_ids = ys @ (k, p) # zs" "\<forall>a\<in>set ys. fst a \<noteq> k" by blast
    have n1: "\<not> hits (fpga_entry FPGA_ID_MASK_NOVER a) i" if "a \<in> set ys" for a
    proof -
      have m: "fst b AND FPGA_ID_MASK_NOVER = fst b" if "b \<in> set xilinx_ids" for b using xilinx_ok that by (simp add: list_all_iff)
      have "a \<in> set xilinx_ids" using that by (simp add: l(1))
      note m [OF this] m [OF x(1)]
      with that l(2) assms(4) show ?thesis by (auto simp: x(2) entry_hits)
    qed
    have "find_part (map (fpga_entry FPGA_ID_MASK_NOVER) ys @ e # (map (fpga_entry FPGA_ID_MASK_NOVER) zs @ ?y @ [\<lparr>fi_id = 0, fi_mask = 0, fi_part = ''''\<rparr>])) i = Some (fi_part e)"
    proof (intro find_part_first [OF assms(4)] ballI)
      fix e' assume "e' \<in> set (map (fpga_entry FPGA_ID_MASK_NOVER) ys)"
      then obtain a where a: "a \<in> set ys" "e' = fpga_entry FPGA_ID_MASK_NOVER a" by auto
      then have "a \<in> set xilinx_ids" by (simp add: l(1))
      with a nzx n1 show "fi_id e' \<noteq> 0 \<and> \<not> hits e' i" by blast
    qed
    then show ?thesis using x(2) by (simp add: get_fpga_part_def fpga_id_list_def l(1))
  next
    case y
    then have i: "i AND FPGA_ID_MASK_FULL = k" using assms(4) f [of "(k, p)"] by (simp add: entry_hits)
    then have ik: "i = k" by (simp add: full_ones)
    have "p \<notin> set (repeats [] (keyed intel_ids))" using y assms(3) by (simp add: intel_repeats shadowed_parts_def fpga_entry_def)
    from first_entry [OF y(1) this] obtain ys zs where l: "intel_ids = ys @ (k, p) # zs" "\<forall>a\<in>set ys. fst a \<noteq> k" by blast
    have n1: "\<not> hits (fpga_entry FPGA_ID_MASK_FULL a) i" if "a \<in> set ys" for a
      using that l i f by (auto simp: entry_hits)
    have n2: "\<not> hits (fpga_entry FPGA_ID_MASK_NOVER a) i" if "a \<in> set xilinx_ids" for a
    proof
      assume "hits (fpga_entry FPGA_ID_MASK_NOVER a) i"
      then have "(i AND FPGA_ID_MASK_NOVER) AND 0xFFF = (fst a AND FPGA_ID_MASK_NOVER) AND 0xFFF"
        unfolding entry_hits by (simp only:)
      moreover have "(j AND FPGA_ID_MASK_NOVER) AND 0xFFF = j AND 0xFFF" for j :: u32
        by (simp add: FPGA_ID_MASK_NOVER_def and.assoc)
      ultimately have "k AND 0xFFF = fst a AND 0xFFF" using ik by simp
      with xilinx_ok intel_ok that y(1) show False by (auto simp: list_all_iff)
    qed
    have "find_part ((?x @ map (fpga_entry FPGA_ID_MASK_FULL) ys) @ e # (map (fpga_entry FPGA_ID_MASK_FULL) zs @ [\<lparr>fi_id = 0, fi_mask = 0, fi_part = ''''\<rparr>])) i = Some (fi_part e)"
    proof (intro find_part_first [OF assms(4)] ballI)
      fix e' assume "e' \<in> set (?x @ map (fpga_entry FPGA_ID_MASK_FULL) ys)"
      then consider a where "a \<in> set xilinx_ids" "e' = fpga_entry FPGA_ID_MASK_NOVER a"
        | a where "a \<in> set ys" "a \<in> set intel_ids" "e' = fpga_entry FPGA_ID_MASK_FULL a"
        by (auto simp: l(1))
      then show "fi_id e' \<noteq> 0 \<and> \<not> hits e' i" using nzx nzy n1 n2 by cases blast+
    qed
    then show ?thesis using y(2) by (simp add: get_fpga_part_def fpga_id_list_def l(1))
  qed
qed

theorem fpga_part_found_witness: "get_fpga_part 0x24B37093 = Some ''XCU200''"
  using fpga_part_found [of "fpga_entry FPGA_ID_MASK_NOVER (0x4b37093, ''XCU200'')" "0x24B37093"]
  by (simp add: fpga_id_list_def xilinx_ids_def shadowed_parts_def fpga_entry_def hits_def FPGA_ID_MASK_NOVER_def)

text \<open>The second entry of an identifier is never the answer: an XC7A35T is called XC7A15T.\<close>

lemma shadowed_example: "get_fpga_part 0x362D093 = Some ''XC7A15T''"
  by (simp add: get_fpga_part_def fpga_id_list_def xilinx_ids_def fpga_entry_def FPGA_ID_MASK_NOVER_def)

end
