(* ===== verification/Bitfile.thy ===== *)
theory Bitfile
  imports Kernel
begin

text \<open>
  Reading Xilinx bit files (\<open>utils/bitfile.c\<close>). A pointer into the buffer is an offset, a null pointer
  \<open>None\<close>; reading outside the buffer is a fault.
\<close>

record bitfile =
  bf_header :: nat
  bf_name :: "nat option"
  bf_part :: "nat option"
  bf_date :: "nat option"
  bf_time :: "nat option"
  bf_data_len :: nat
  bf_data :: "nat option"

definition zero_bitfile :: bitfile where
  "zero_bitfile = \<lparr>bf_header = 0, bf_name = None, bf_part = None, bf_date = None, bf_time = None,
     bf_data_len = 0, bf_data = None\<rparr>"

text \<open>Big-endian numbers at an offset.\<close>

definition be_num :: "u8 list \<Rightarrow> nat" where
  "be_num bs = foldl (\<lambda>n b. 256 * n + unat b) 0 bs"

definition be_at :: "nat \<Rightarrow> u8 list \<Rightarrow> nat \<Rightarrow> nat option" where
  "be_at n buf p = (if p + n \<le> length buf then Some (be_num (take n (drop p buf))) else None)"

definition set_field :: "u8 \<Rightarrow> nat \<Rightarrow> bitfile \<Rightarrow> bitfile option" where
  "set_field t p bf = (if t = 0x61 then Some (bf\<lparr>bf_name := Some p\<rparr>)
     else if t = 0x62 then Some (bf\<lparr>bf_part := Some p\<rparr>)
     else if t = 0x63 then Some (bf\<lparr>bf_date := Some p\<rparr>)
     else if t = 0x64 then Some (bf\<lparr>bf_time := Some p\<rparr>)
     else None)"

text \<open>The fields up to the data; every round takes at least three bytes.\<close>

function parse_fields :: "u8 list \<Rightarrow> nat \<Rightarrow> bitfile \<Rightarrow> (int \<times> bitfile) option" where
  "parse_fields buf p bf =
    (if p \<ge> length buf then None
     else let t = buf ! p in
       if t = 0x65 then (case be_at 4 buf (p + 1) of
           None \<Rightarrow> None
         | Some l \<Rightarrow> Some (0, bf\<lparr>bf_data_len := l, bf_data := Some (p + 5)\<rparr>))
       else (case be_at 2 buf (p + 1) of
           None \<Rightarrow> None
         | Some l \<Rightarrow> (case set_field t (p + 3) bf of
               None \<Rightarrow> Some (- 1, bf)
             | Some bf \<Rightarrow> parse_fields buf (p + 3 + l) bf)))"
  by pat_completeness auto
termination by (relation "measure (\<lambda>(buf, p, bf). length buf - p)") auto

declare parse_fields.simps [simp del]

text \<open>The length that is passed is not looked at.\<close>

definition bitfile_parse :: "bitfile \<Rightarrow> u8 list \<Rightarrow> nat \<Rightarrow> (int \<times> bitfile) option" where
  "bitfile_parse bf buf len = (case be_at 2 buf 0 of
     None \<Rightarrow> None
   | Some l \<Rightarrow> parse_fields buf (2 + l + 2) (bf\<lparr>bf_header := 0\<rparr>))"

definition bitfile_create_from_buffer :: "u8 list \<Rightarrow> nat \<Rightarrow> sys \<Rightarrow> (bitfile option \<times> sys) option" where
  "bitfile_create_from_buffer buf len s = (case kcall ''calloc'' [1] s of (p, s) \<Rightarrow>
     if p = 0 then Some (None, s)
     else do {
       (e, bf) \<leftarrow> bitfile_parse zero_bitfile buf len;
       Some (if e \<noteq> 0 then (None, kvoid ''free'' [p] s) else (Some bf, s)) })"

definition bitfile_close :: "bitfile option \<Rightarrow> sys \<Rightarrow> sys" where
  "bitfile_close bf s = (case bf of None \<Rightarrow> s | Some _ \<Rightarrow> kvoid ''free'' [] s)"

text \<open>The contents of the file are an argument; the file functions answer from the history.\<close>

definition bitfile_create_from_file :: "u8 list \<Rightarrow> sys \<Rightarrow> (bitfile option \<times> sys) option" where
  "bitfile_create_from_file contents s = (case kcall ''fopen'' [] s of (fp, s) \<Rightarrow>
     if fp = 0 then Some (None, s)
     else
       let s = kvoid ''rewind'' [fp] (kvoid ''ftell'' [fp] (kvoid ''fseek'' [fp] s));
           len = length contents;
           (buffer, s) = kcall ''calloc'' [int len] s
       in if buffer = 0 then Some (None, kvoid ''fclose'' [fp] s)
          else case kcall ''fread'' [int len, fp] s of (n, s) \<Rightarrow>
            if n < int len then Some (None, kvoid ''fclose'' [fp] (kvoid ''free'' [buffer] s))
            else let s = kvoid ''fclose'' [fp] s in do {
              (e, bf) \<leftarrow> bitfile_parse zero_bitfile contents len;
              Some (if e \<noteq> 0 then (None, kvoid ''fclose'' [fp] (kvoid ''free'' [buffer] s)) else (Some bf, s)) })"

section \<open>Files as they are written\<close>

definition be_bytes :: "nat \<Rightarrow> nat \<Rightarrow> u8 list" where
  "be_bytes n x = map (\<lambda>i. word_of_nat (x div 256 ^ i)) (rev [0..<n])"

definition bit_field :: "u8 \<times> u8 list \<Rightarrow> u8 list" where
  "bit_field f = fst f # be_bytes 2 (length (snd f)) @ snd f"

text \<open>\<open>n\<close> is the length the file declares for its data.\<close>

definition bit_file :: "u8 list \<Rightarrow> u8 list \<Rightarrow> (u8 \<times> u8 list) list \<Rightarrow> nat \<Rightarrow> u8 list \<Rightarrow> u8 list" where
  "bit_file hdr unknown fs n data = be_bytes 2 (length hdr) @ hdr @ unknown @ concat (map bit_field fs) @
     0x65 # be_bytes 4 n @ data"

text \<open>The bytes an offset points at.\<close>

definition points_at :: "u8 list \<Rightarrow> nat option \<Rightarrow> u8 list \<Rightarrow> bool" where
  "points_at buf p bs \<longleftrightarrow> (case p of None \<Rightarrow> False | Some p \<Rightarrow> take (length bs) (drop p buf) = bs)"

lemma be_num_append: "be_num (bs @ [b]) = 256 * be_num bs + unat b"
  by (simp add: be_num_def)

lemma be_num_bytes: "x < 256 ^ n \<Longrightarrow> be_num (be_bytes n x) = x"
proof (induction n arbitrary: x)
  case 0
  then show ?case by (simp add: be_num_def be_bytes_def)
next
  case (Suc n)
  have "be_bytes (Suc n) x = be_bytes n (x div 256) @ [word_of_nat x]"
  proof -
    have "rev [0..<Suc n] = map Suc (rev [0..<n]) @ [0]"
      by (simp add: upt_conv_Cons map_Suc_upt flip: rev_map del: upt_Suc)
    then show ?thesis by (simp add: be_bytes_def comp_def div_mult2_eq del: upt_Suc)
  qed
  moreover have "unat (word_of_nat x :: u8) = x mod 256" by (simp add: unat_of_nat)
  moreover have "x div 256 < 256 ^ n" using Suc.prems by (simp add: less_mult_imp_div_less mult.commute)
  ultimately show ?case using Suc.IH [of "x div 256"] by (simp add: be_num_append)
qed

lemma length_be_bytes [simp]: "length (be_bytes n x) = n"
  by (simp add: be_bytes_def)

lemma be_at_bytes: "x < 256 ^ n \<Longrightarrow> be_at n (pre @ be_bytes n x @ post) (length pre) = Some x"
  by (simp add: be_at_def be_num_bytes)

lemma set_field_simps [simp]:
  "set_field 0x61 p bf = Some (bf\<lparr>bf_name := Some p\<rparr>)" "set_field 0x62 p bf = Some (bf\<lparr>bf_part := Some p\<rparr>)"
  "set_field 0x63 p bf = Some (bf\<lparr>bf_date := Some p\<rparr>)" "set_field 0x64 p bf = Some (bf\<lparr>bf_time := Some p\<rparr>)"
  by (simp_all add: set_field_def)

text \<open>One field after the other.\<close>

fun read_fields :: "nat \<Rightarrow> (u8 \<times> u8 list) list \<Rightarrow> bitfile \<Rightarrow> bitfile option" where
  "read_fields p [] bf = Some bf"
| "read_fields p ((t, bs) # fs) bf = (case set_field t (p + 3) bf of
     None \<Rightarrow> None | Some bf \<Rightarrow> read_fields (p + 3 + length bs) fs bf)"

lemma parse_fields_read:
  assumes "read_fields (length pre) fs bf = Some bf'" "\<forall>f \<in> set fs. length (snd f) < 65536" "n < 2 ^ 32"
  shows "parse_fields (pre @ concat (map bit_field fs) @ 0x65 # be_bytes 4 n @ data) (length pre) bf =
    Some (0, bf'\<lparr>bf_data_len := n, bf_data := Some (length pre + length (concat (map bit_field fs)) + 5)\<rparr>)"
  using assms
proof (induction fs arbitrary: pre bf)
  case Nil
  have "be_at 4 ((pre @ [0x65]) @ be_bytes 4 n @ data) (length (pre @ [0x65])) = Some n"
    by (rule be_at_bytes) (use Nil.prems(3) in simp)
  then show ?case using Nil.prems(1) by (subst parse_fields.simps) (simp add: Let_def nth_append)
next
  case (Cons f fs)
  obtain t bs where f: "f = (t, bs)" by force
  let ?rest = "concat (map bit_field fs) @ 0x65 # be_bytes 4 n @ data"
  let ?buf = "pre @ concat (map bit_field (f # fs)) @ 0x65 # be_bytes 4 n @ data"
  have b: "?buf = (pre @ bit_field f) @ ?rest" by simp
  obtain bf1 where s: "set_field t (length pre + 3) bf = Some bf1" "read_fields (length pre + 3 + length bs) fs bf1 = Some bf'"
    using Cons.prems(1) f by (auto split: option.splits)
  then have t: "t \<noteq> 0x65" by (auto simp: set_field_def split: if_splits)
  have l: "length (pre @ bit_field f) = length pre + 3 + length bs" by (simp add: bit_field_def f)
  have "be_at 2 ((pre @ [t]) @ be_bytes 2 (length bs) @ bs @ ?rest) (length (pre @ [t])) = Some (length bs)"
    by (rule be_at_bytes) (use Cons.prems(2) f in simp)
  then have e: "be_at 2 ?buf (length pre + 1) = Some (length bs)" by (simp add: bit_field_def f)
  have "parse_fields ?buf (length pre) bf = parse_fields ?buf (length pre + 3 + length bs) bf1"
    using e s(1) t by (subst parse_fields.simps) (simp add: Let_def nth_append bit_field_def f)
  also have "\<dots> = Some (0, bf'\<lparr>bf_data_len := n,
      bf_data := Some (length (pre @ bit_field f) + length (concat (map bit_field fs)) + 5)\<rparr>)"
    unfolding b l [symmetric] by (rule Cons.IH) (simp only: l s(2), use Cons.prems(2,3) in simp_all)
  finally show ?case by (simp add: add.assoc)
qed

lemma bitfile_parse_file:
  assumes "read_fields (length hdr + 4) fs (bf\<lparr>bf_header := 0\<rparr>) = Some bf'" "length hdr < 65536" "length unknown = 2"
    "\<forall>f \<in> set fs. length (snd f) < 65536" "n < 2 ^ 32"
  shows "bitfile_parse bf (bit_file hdr unknown fs n data) len =
    Some (0, bf'\<lparr>bf_data_len := n, bf_data := Some (length hdr + 9 + length (concat (map bit_field fs)))\<rparr>)"
proof -
  let ?pre = "be_bytes 2 (length hdr) @ hdr @ unknown"
  have l: "length ?pre = length hdr + 4" using assms(3) by simp
  have "be_at 2 ([] @ be_bytes 2 (length hdr) @ hdr @ unknown @ concat (map bit_field fs) @ 0x65 # be_bytes 4 n @ data) (length ([] :: u8 list)) = Some (length hdr)"
    by (rule be_at_bytes) (use assms(2) in simp)
  then have h: "be_at 2 (bit_file hdr unknown fs n data) 0 = Some (length hdr)" by (simp add: bit_file_def)
  have "parse_fields (?pre @ concat (map bit_field fs) @ 0x65 # be_bytes 4 n @ data) (length ?pre) (bf\<lparr>bf_header := 0\<rparr>) =
    Some (0, bf'\<lparr>bf_data_len := n, bf_data := Some (length ?pre + length (concat (map bit_field fs)) + 5)\<rparr>)"
    by (rule parse_fields_read) (use assms(1,4,5) in \<open>simp_all only: l\<close>)
  then have "parse_fields (bit_file hdr unknown fs n data) (length hdr + 4) (bf\<lparr>bf_header := 0\<rparr>) =
    Some (0, bf'\<lparr>bf_data_len := n, bf_data := Some (length hdr + 9 + length (concat (map bit_field fs)))\<rparr>)"
    unfolding l by (simp add: bit_file_def)
  moreover have p: "2 + length hdr + 2 = length hdr + 4" by simp
  have "bitfile_parse bf (bit_file hdr unknown fs n data) len =
    parse_fields (bit_file hdr unknown fs n data) (length hdr + 4) (bf\<lparr>bf_header := 0\<rparr>)"
    by (simp only: bitfile_parse_def h option.case) (simp only: p)
  ultimately show ?thesis by simp
qed

section \<open>Properties\<close>

text \<open>C12: parsing a file written with a name, part, date, time and data finds each of them.\<close>

theorem bitfile_roundtrip:
  assumes "length hdr < 65536" "length unknown = 2" "length name < 65536" "length part < 65536" "length date < 65536"
    "length time < 65536" "length data < 2 ^ 32"
  defines "buf \<equiv> bit_file hdr unknown [(0x61, name), (0x62, part), (0x63, date), (0x64, time)] (length data) data"
  shows "\<exists>bf. bitfile_parse bf0 buf len = Some (0, bf) \<and> points_at buf (bf_name bf) name \<and> points_at buf (bf_part bf) part \<and>
    points_at buf (bf_date bf) date \<and> points_at buf (bf_time bf) time \<and>
    bf_data_len bf = length data \<and> points_at buf (bf_data bf) data"
proof -
  let ?fs = "[(0x61, name), (0x62, part), (0x63, date), (0x64, time)] :: (u8 \<times> u8 list) list"
  let ?h = "length hdr + 4"
  define bf where "bf = bf0\<lparr>bf_header := 0, bf_name := Some (?h + 3), bf_part := Some (?h + 6 + length name),
    bf_date := Some (?h + 9 + length name + length part), bf_time := Some (?h + 12 + length name + length part + length date)\<rparr>"
  have r: "read_fields ?h ?fs (bf0\<lparr>bf_header := 0\<rparr>) = Some bf"
    by (simp add: bf_def algebra_simps)
  have "bitfile_parse bf0 buf len = Some (0, bf\<lparr>bf_data_len := length data,
      bf_data := Some (length hdr + 9 + length (concat (map bit_field ?fs)))\<rparr>)"
    unfolding buf_def by (rule bitfile_parse_file [OF r]) (use assms in auto)
  moreover have "points_at buf (Some (?h + 3)) name"
    "points_at buf (Some (?h + 6 + length name)) part"
    "points_at buf (Some (?h + 9 + length name + length part)) date"
    "points_at buf (Some (?h + 12 + length name + length part + length date)) time"
    "points_at buf (Some (length hdr + 9 + length (concat (map bit_field ?fs)))) data"
    using assms(2) by (simp_all add: points_at_def buf_def bit_file_def bit_field_def drop_Cons')
  ultimately show ?thesis by (simp add: bf_def)
qed

text \<open>The declared length of the data is trusted: a file cut off anywhere in its data parses just as well.\<close>

lemma bitfile_length_trusted:
  assumes "length hdr < 65536" "length unknown = 2" "\<forall>f \<in> set fs. length (snd f) < 65536"
    "read_fields (length hdr + 4) fs zero_bitfile = Some bf" "n < 2 ^ 32"
  shows "\<exists>bf'. bitfile_parse zero_bitfile (bit_file hdr unknown fs n data) len = Some (0, bf') \<and> bf_data_len bf' = n"
  using bitfile_parse_file [of hdr fs zero_bitfile bf unknown n data len] assms by (simp add: zero_bitfile_def)

text \<open>A file that does not parse is closed twice.\<close>

lemma bitfile_double_close:
  assumes "bitfile_parse zero_bitfile contents (length contents) = Some (e, bf)" "e \<noteq> 0"
    "\<And>h f a. w_kcall s h f a = (if f = ''fread'' then hd a else 1)"
  shows "\<exists>s' t. bitfile_create_from_file contents s = Some (None, s') \<and>
    trace s' = KCall ''fclose'' [1] # KCall ''free'' [1] # KCall ''fclose'' [1] # t"
  using assms by (simp add: bitfile_create_from_file_def Let_def kcall_def kvoid_def split: if_splits)

theorem bitfile_roundtrip_witness:
  "\<exists>bf. bitfile_parse zero_bitfile (bit_file [9] [0, 1] [(0x61, [65, 0]), (0x62, [66, 0]), (0x63, [67, 0]), (0x64, [68, 0])] 3 [1, 2, 3]) 37 =
    Some (0, bf) \<and> bf_data_len bf = 3"
  using bitfile_roundtrip [of "[9]" "[0, 1]" "[65, 0]" "[66, 0]" "[67, 0]" "[68, 0]" "[1, 2, 3]" zero_bitfile 37]
  by (auto simp: numeral_3_eq_3)

end
