(* ===== verification/UtilMqnic.thy ===== *)
theory UtilMqnic
  imports MainDrv DevFile
begin

text \<open>
  Opening a device from user space (\<open>utils/mqnic.c\<close>): the device, its interfaces, their ports and the
  schedulers of those. A structure is its memory and its fields; the pointers back to the structures that
  contain it are arguments. A null pointer is \<open>None\<close>, and an index outside an array is a fault. Register
  addresses are 64 bits wide; the files and the mapping belong to the system.
\<close>

definition MAX_SCHED :: nat where "MAX_SCHED = 8"
definition REG_PHC_STRIDE :: addr where "REG_PHC_STRIDE = 0x0018"
definition PORT_REG_TDMA_TIMESLOT_COUNT :: addr where "PORT_REG_TDMA_TIMESLOT_COUNT = 0x1008"

record u_sched =
  us_mem :: nat
  us_index :: nat
  us_regs_size :: u64
  us_regs :: addr

record u_port =
  up_mem :: nat
  up_index :: nat
  up_regs_size :: u64
  up_regs :: addr
  up_port_id :: u32
  up_port_features :: u32
  up_port_mtu :: u32
  up_sched_count :: u32
  up_sched_offset :: u32
  up_sched_stride :: u32
  up_sched_type :: u32
  up_tdma_timeslot_count :: u32
  up_sched :: "nat \<Rightarrow> u_sched option"

record u_if =
  ui_mem :: nat
  ui_index :: nat
  ui_regs_size :: u64
  ui_regs :: addr
  ui_csr_regs :: addr
  ui_if_id :: u32
  ui_if_features :: u32
  ui_event_queue_count :: u32
  ui_event_queue_offset :: u32
  ui_tx_queue_count :: u32
  ui_tx_queue_offset :: u32
  ui_tx_cpl_queue_count :: u32
  ui_tx_cpl_queue_offset :: u32
  ui_rx_queue_count :: u32
  ui_rx_queue_offset :: u32
  ui_rx_cpl_queue_count :: u32
  ui_rx_cpl_queue_offset :: u32
  ui_port_count :: u32
  ui_port_offset :: u32
  ui_port_stride :: u32
  ui_ports :: "nat \<Rightarrow> u_port option"

record u_dev =
  ud_mem :: nat
  ud_fd :: int
  ud_regs_size :: u64
  ud_regs :: addr
  ud_phc_regs :: addr
  ud_fw_id :: u32
  ud_fw_ver :: u32
  ud_board_id :: u32
  ud_board_ver :: u32
  ud_phc_count :: u32
  ud_phc_offset :: u32
  ud_phc_stride :: u32
  ud_if_count :: u32
  ud_if_stride :: u32
  ud_if_csr_offset :: u32
  ud_interfaces :: "nat \<Rightarrow> u_if option"

section \<open>Arrays of parts\<close>

text \<open>
  Opening the parts one after the other into an array of \<open>bound\<close> entries, until one cannot be opened, and
  closing those that are there.
\<close>

fun open_parts :: "nat \<Rightarrow> (nat \<Rightarrow> sys \<Rightarrow> ('a option \<times> sys) option) \<Rightarrow> nat list \<Rightarrow>
    (nat \<Rightarrow> 'a option) \<times> sys \<Rightarrow> (bool \<times> (nat \<Rightarrow> 'a option) \<times> sys) option" where
  "open_parts bound f [] (m, s) = Some (True, m, s)"
| "open_parts bound f (k # ks) (m, s) = do {
     (p, s) \<leftarrow> f k s;
     (case p of None \<Rightarrow> Some (False, m, s)
      | Some x \<Rightarrow> if k < bound then open_parts bound f ks (m(k \<mapsto> x), s) else None) }"

fun close_parts :: "nat \<Rightarrow> ('a \<Rightarrow> sys \<Rightarrow> sys option) \<Rightarrow> nat list \<Rightarrow> (nat \<Rightarrow> 'a option) \<Rightarrow> sys \<Rightarrow> sys option" where
  "close_parts bound g [] m s = Some s"
| "close_parts bound g (k # ks) m s =
     (if k < bound then do {
        s \<leftarrow> (case m k of None \<Rightarrow> Some s | Some x \<Rightarrow> g x s);
        close_parts bound g ks (m(k := None)) s }
      else None)"

section \<open>Schedulers\<close>

definition u_free :: "nat \<Rightarrow> sys \<Rightarrow> sys" where
  "u_free m s = emit (Kfree m) s"

definition mqnic_sched_close :: "u_sched \<Rightarrow> sys \<Rightarrow> sys" where
  "mqnic_sched_close sched s = u_free (us_mem sched) s"

text \<open>The end of the registers of the interface bounds those of its schedulers.\<close>

definition mqnic_sched_open :: "addr \<Rightarrow> u32 \<Rightarrow> nat \<Rightarrow> addr \<Rightarrow> sys \<Rightarrow> u_sched option \<times> sys" where
  "mqnic_sched_open if_end stride k regs s = (case kzalloc s of
       (None, s) \<Rightarrow> (None, s)
     | (Some m, s) \<Rightarrow>
         let sched = \<lparr>us_mem = m, us_index = k, us_regs_size = ucast stride, us_regs = regs\<rparr>
         in if us_regs sched \<ge> if_end then (None, mqnic_sched_close sched s) else (Some sched, s))"

section \<open>Ports\<close>

definition mqnic_port_close :: "u_port \<Rightarrow> sys \<Rightarrow> sys option" where
  "mqnic_port_close port s = do {
     s \<leftarrow> close_parts MAX_SCHED (\<lambda>sched s. Some (mqnic_sched_close sched s)) [0..<unat (up_sched_count port)] (up_sched port) s;
     Some (u_free (up_mem port) s) }"

definition empty_port :: "nat \<Rightarrow> nat \<Rightarrow> u32 \<Rightarrow> addr \<Rightarrow> u_port" where
  "empty_port m k stride regs = \<lparr>up_mem = m, up_index = k, up_regs_size = ucast stride, up_regs = regs,
     up_port_id = 0, up_port_features = 0, up_port_mtu = 0, up_sched_count = 0, up_sched_offset = 0, up_sched_stride = 0,
     up_sched_type = 0, up_tdma_timeslot_count = 0, up_sched = Map.empty\<rparr>"

definition read_port_regs :: "u_port \<Rightarrow> sys \<Rightarrow> u_port \<times> sys" where
  "read_port_regs port s = (let r = up_regs port;
     (vs, s) = ioreads [r + PORT_REG_PORT_ID, r + PORT_REG_PORT_FEATURES, r + PORT_REG_PORT_MTU, r + PORT_REG_SCHED_COUNT,
       r + PORT_REG_SCHED_OFFSET, r + PORT_REG_SCHED_STRIDE, r + PORT_REG_SCHED_TYPE, r + PORT_REG_TDMA_TIMESLOT_COUNT] s
     in (port\<lparr>up_port_id := vs ! 0, up_port_features := vs ! 1, up_port_mtu := vs ! 2, up_sched_count := vs ! 3,
       up_sched_offset := vs ! 4, up_sched_stride := vs ! 5, up_sched_type := vs ! 6, up_tdma_timeslot_count := vs ! 7\<rparr>, s))"

definition sched_regs :: "u_port \<Rightarrow> nat \<Rightarrow> addr" where
  "sched_regs port k = up_regs port + ucast (up_sched_offset port) + ucast (word_of_nat k * up_sched_stride port)"

definition mqnic_port_open :: "addr \<Rightarrow> u32 \<Rightarrow> nat \<Rightarrow> addr \<Rightarrow> sys \<Rightarrow> (u_port option \<times> sys) option" where
  "mqnic_port_open if_end stride k regs s = (case kzalloc s of
       (None, s) \<Rightarrow> Some (None, s)
     | (Some m, s) \<Rightarrow>
         let port = empty_port m k stride regs
         in if up_regs port \<ge> if_end then do { s \<leftarrow> mqnic_port_close port s; Some (None, s) }
            else case read_port_regs port s of (port, s) \<Rightarrow> do {
              (ok, scheds, s) \<leftarrow> open_parts MAX_SCHED
                (\<lambda>k s. Some (mqnic_sched_open if_end (up_sched_stride port) k (sched_regs port k) s))
                [0..<unat (up_sched_count port)] (Map.empty, s);
              let port = port\<lparr>up_sched := scheds\<rparr>;
              if ok then Some (Some port, s) else do { s \<leftarrow> mqnic_port_close port s; Some (None, s) } })"

section \<open>Interfaces\<close>

definition mqnic_if_close :: "u_if \<Rightarrow> sys \<Rightarrow> sys option" where
  "mqnic_if_close i s = do {
     s \<leftarrow> close_parts MAX_PORTS mqnic_port_close [0..<unat (ui_port_count i)] (ui_ports i) s;
     Some (u_free (ui_mem i) s) }"

definition empty_if :: "nat \<Rightarrow> nat \<Rightarrow> u_dev \<Rightarrow> addr \<Rightarrow> u_if" where
  "empty_if m k dev regs = \<lparr>ui_mem = m, ui_index = k, ui_regs_size = ucast (ud_if_stride dev), ui_regs = regs,
     ui_csr_regs = regs + ucast (ud_if_csr_offset dev), ui_if_id = 0, ui_if_features = 0, ui_event_queue_count = 0,
     ui_event_queue_offset = 0, ui_tx_queue_count = 0, ui_tx_queue_offset = 0, ui_tx_cpl_queue_count = 0,
     ui_tx_cpl_queue_offset = 0, ui_rx_queue_count = 0, ui_rx_queue_offset = 0, ui_rx_cpl_queue_count = 0,
     ui_rx_cpl_queue_offset = 0, ui_port_count = 0, ui_port_offset = 0, ui_port_stride = 0, ui_ports = Map.empty\<rparr>"

definition read_if_regs :: "u_if \<Rightarrow> sys \<Rightarrow> u_if \<times> sys" where
  "read_if_regs i s = (let r = ui_csr_regs i;
     (vs, s) = ioreads [r + IF_REG_IF_ID, r + IF_REG_IF_FEATURES, r + IF_REG_EVENT_QUEUE_COUNT, r + IF_REG_EVENT_QUEUE_OFFSET,
       r + IF_REG_TX_QUEUE_COUNT, r + IF_REG_TX_QUEUE_OFFSET, r + IF_REG_TX_CPL_QUEUE_COUNT, r + IF_REG_TX_CPL_QUEUE_OFFSET,
       r + IF_REG_RX_QUEUE_COUNT, r + IF_REG_RX_QUEUE_OFFSET, r + IF_REG_RX_CPL_QUEUE_COUNT, r + IF_REG_RX_CPL_QUEUE_OFFSET,
       r + IF_REG_PORT_COUNT, r + IF_REG_PORT_OFFSET, r + IF_REG_PORT_STRIDE] s
     in (i\<lparr>ui_if_id := vs ! 0, ui_if_features := vs ! 1, ui_event_queue_count := min (vs ! 2) (word_of_nat MAX_EVENT_RINGS),
       ui_event_queue_offset := vs ! 3, ui_tx_queue_count := min (vs ! 4) (word_of_nat MAX_TX_RINGS), ui_tx_queue_offset := vs ! 5,
       ui_tx_cpl_queue_count := min (vs ! 6) (word_of_nat MAX_TX_CPL_RINGS), ui_tx_cpl_queue_offset := vs ! 7,
       ui_rx_queue_count := min (vs ! 8) (word_of_nat MAX_RX_RINGS), ui_rx_queue_offset := vs ! 9,
       ui_rx_cpl_queue_count := min (vs ! 10) (word_of_nat MAX_RX_CPL_RINGS), ui_rx_cpl_queue_offset := vs ! 11,
       ui_port_count := min (vs ! 12) (word_of_nat MAX_PORTS), ui_port_offset := vs ! 13, ui_port_stride := vs ! 14\<rparr>, s))"

definition regs_end :: "u_dev \<Rightarrow> addr" where
  "regs_end dev = ud_regs dev + ud_regs_size dev"

definition mqnic_if_open :: "u_dev \<Rightarrow> nat \<Rightarrow> addr \<Rightarrow> sys \<Rightarrow> (u_if option \<times> sys) option" where
  "mqnic_if_open dev k regs s = (case kzalloc s of
       (None, s) \<Rightarrow> Some (None, s)
     | (Some m, s) \<Rightarrow>
         let i = empty_if m k dev regs
         in if ui_regs i \<ge> regs_end dev \<or> ui_csr_regs i \<ge> regs_end dev then do { s \<leftarrow> mqnic_if_close i s; Some (None, s) }
            else case read_if_regs i s of (i, s) \<Rightarrow> do {
              (ok, ports, s) \<leftarrow> open_parts MAX_PORTS
                (\<lambda>k. mqnic_port_open (ui_regs i + ui_regs_size i) (ui_port_stride i) k
                  (ui_regs i + ucast (ui_port_offset i) + ucast (word_of_nat k * ui_port_stride i)))
                [0..<unat (ui_port_count i)] (Map.empty, s);
              let i = i\<lparr>ui_ports := ports\<rparr>;
              if ok then Some (Some i, s) else do { s \<leftarrow> mqnic_if_close i s; Some (None, s) } })"

section \<open>Devices\<close>

definition u_close_file :: "int \<Rightarrow> sys \<Rightarrow> sys" where
  "u_close_file fd s = kput ''close'' [fd] (OpenFile fd) s"

definition u_munmap :: "u_dev \<Rightarrow> sys \<Rightarrow> sys" where
  "u_munmap dev s = kput ''munmap'' [uint (ud_regs dev), uint (ud_regs_size dev)] (IoMap (uint (ud_regs dev))) s"

definition util_close :: "u_dev option \<Rightarrow> sys \<Rightarrow> sys option" where
  "util_close p s = (case p of
       None \<Rightarrow> Some s
     | Some dev \<Rightarrow> do {
         s \<leftarrow> close_parts MAX_IF mqnic_if_close [0..<unat (ud_if_count dev)] (ud_interfaces dev) s;
         Some (u_free (ud_mem dev) (u_close_file (ud_fd dev) (u_munmap dev s))) })"

definition codes :: "string \<Rightarrow> int list" where
  "codes cs = map (\<lambda>c. int (of_char c)) cs"

text \<open>The file \<open>enable\<close> beside the one that was named; a name without a directory stays as it is.\<close>

definition enable_path :: "string \<Rightarrow> string" where
  "enable_path name = (if CHR ''/'' \<in> set name
     then rev (dropWhile (\<lambda>c. c \<noteq> CHR ''/'') (rev name)) @ ''enable'' else name)"

definition enable_device :: "nat \<Rightarrow> string \<Rightarrow> sys \<Rightarrow> sys option" where
  "enable_device path_max name s =
    (if length name < path_max + 32 \<and> length (enable_path name) < path_max + 32 then
       case kcall ''access'' (codes (enable_path name)) s of (r, s) \<Rightarrow>
       if r \<noteq> - 1 then
         case kcall ''fopen'' (codes (enable_path name)) s of (fp, s) \<Rightarrow>
           Some (if fp \<noteq> 0 then kvoid ''fclose'' [fp] (kvoid ''fputc'' [49, fp] s) else s)
       else Some s
     else None)"

definition empty_dev :: "nat \<Rightarrow> int \<Rightarrow> u64 \<Rightarrow> addr \<Rightarrow> u_dev" where
  "empty_dev m fd sz regs = \<lparr>ud_mem = m, ud_fd = fd, ud_regs_size = sz, ud_regs = regs, ud_phc_regs = 0, ud_fw_id = 0,
     ud_fw_ver = 0, ud_board_id = 0, ud_board_ver = 0, ud_phc_count = 0, ud_phc_offset = 0, ud_phc_stride = 0,
     ud_if_count = 0, ud_if_stride = 0, ud_if_csr_offset = 0, ud_interfaces = Map.empty\<rparr>"

text \<open>The size of the registers: that of the file, or else what the driver says.\<close>

definition regs_size_of :: "int \<Rightarrow> sys \<Rightarrow> u64 option \<times> sys" where
  "regs_size_of fd s = (case kcall ''fstat'' [fd] s of (r, s) \<Rightarrow>
     if r = - 1 then (None, s)
     else case kcall ''st_size'' [fd] s of (n, s) \<Rightarrow>
       if (word_of_int n :: u64) \<noteq> 0 then (Some (word_of_int n), s)
       else case kcall ''ioctl'' [fd, uint IOCTL_INFO] s of (r, s) \<Rightarrow>
         if r \<noteq> 0 then (None, s)
         else case kcall ''info.regs_size'' [fd] s of (n, s) \<Rightarrow> (Some (word_of_int n), s))"

definition read_dev_regs :: "u_dev \<Rightarrow> sys \<Rightarrow> u_dev \<times> sys" where
  "read_dev_regs dev s = (let r = ud_regs dev;
     (vs, s) = ioreads [r + REG_FW_ID, r + REG_FW_VER, r + REG_BOARD_ID, r + REG_BOARD_VER, r + REG_PHC_COUNT,
       r + REG_PHC_OFFSET, r + REG_PHC_STRIDE, r + REG_IF_COUNT, r + REG_IF_STRIDE, r + REG_IF_CSR_OFFSET] s
     in (dev\<lparr>ud_fw_id := vs ! 0, ud_fw_ver := vs ! 1, ud_board_id := vs ! 2, ud_board_ver := vs ! 3,
       ud_phc_count := vs ! 4, ud_phc_offset := vs ! 5, ud_phc_stride := vs ! 6,
       ud_phc_regs := (if vs ! 4 \<noteq> 0 then r + ucast (vs ! 5) else 0),
       ud_if_count := min (vs ! 7) (word_of_nat MAX_IF), ud_if_stride := vs ! 8, ud_if_csr_offset := vs ! 9\<rparr>, s))"

definition open_mapped :: "nat \<Rightarrow> string \<Rightarrow> u_dev \<Rightarrow> sys \<Rightarrow> (u_dev option \<times> sys) option" where
  "open_mapped path_max name dev s = (case ioread32 (ud_regs dev + REG_FW_ID) s of (v, s) \<Rightarrow> do {
     s \<leftarrow> (if v = 0xffffffff then enable_device path_max name s else Some s);
     (case ioread32 (ud_regs dev + REG_FW_ID) s of (v, s) \<Rightarrow>
       if v = 0xffffffff then do { s \<leftarrow> util_close (Some dev) s; Some (None, s) }
       else case read_dev_regs dev s of (dev, s) \<Rightarrow> do {
         (ok, ifs, s) \<leftarrow> open_parts MAX_IF
           (\<lambda>k. mqnic_if_open dev k (ud_regs dev + ucast (word_of_nat k * ud_if_stride dev)))
           [0..<unat (ud_if_count dev)] (Map.empty, s);
         let dev = dev\<lparr>ud_interfaces := ifs\<rparr>;
         if ok then Some (Some dev, s) else do { s \<leftarrow> util_close (Some dev) s; Some (None, s) } }) })"

definition util_open :: "nat \<Rightarrow> string \<Rightarrow> sys \<Rightarrow> (u_dev option \<times> sys) option" where
  "util_open path_max name s = (case kzalloc s of
       (None, s) \<Rightarrow> Some (None, s)
     | (Some m, s) \<Rightarrow>
         case kget ''open'' (codes name) (\<lambda>v. 0 \<le> v) OpenFile s of (fd, s) \<Rightarrow>
         if fd < 0 then Some (None, u_free m s)
         else case regs_size_of fd s of
           (None, s) \<Rightarrow> Some (None, u_free m (u_close_file fd s))
         | (Some sz, s) \<Rightarrow>
             case kget ''mmap'' [uint sz, fd] (\<lambda>v. (word_of_int v :: addr) \<noteq> - 1) (\<lambda>v. IoMap (uint (word_of_int v :: addr))) s of (v, s) \<Rightarrow>
             if (word_of_int v :: addr) = - 1 then Some (None, u_free m (u_close_file fd s))
             else open_mapped path_max name (empty_dev m fd sz (word_of_int v)) s)"

section \<open>What opened parts hold\<close>

text \<open>
  A kind of part: what opening one adds to what is held, and that one that was opened can be closed, which
  gives it back.
\<close>

locale parts =
  fixes f :: "nat \<Rightarrow> sys \<Rightarrow> ('a option \<times> sys) option"
    and g :: "'a \<Rightarrow> sys \<Rightarrow> sys option"
    and own :: "res \<Rightarrow> 'a \<Rightarrow> int"
    and good :: "'a \<Rightarrow> bool"
  assumes opened: "f k s = Some (p, s') \<Longrightarrow>
      bal (trace s') x = bal (trace s) x + (case p of None \<Rightarrow> 0 | Some y \<Rightarrow> own x y) \<and> (\<forall>y. p = Some y \<longrightarrow> good y)"
    and closed: "good y \<Longrightarrow> \<exists>s'. g y s = Some s' \<and> bal (trace s') x = bal (trace s) x - own x y"
begin

lemma open_parts_holds:
  assumes "open_parts b f ks (m, s) = Some (ok, m', s')" "distinct ks" "\<forall>k\<in>set ks. m k = None" "\<forall>k y. m k = Some y \<longrightarrow> good y"
  shows "bal (trace s') x = bal (trace s) x + owns (own x) b m' - owns (own x) b m \<and> (\<forall>k y. m' k = Some y \<longrightarrow> good y) \<and>
    (\<forall>k. m' k \<noteq> None \<longrightarrow> m k \<noteq> None \<or> (k \<in> set ks \<and> k < b)) \<and> (ok \<longrightarrow> (\<forall>k\<in>set ks. k < b))"
  using assms
proof (induction ks arbitrary: m s)
  case (Cons k ks)
  obtain p s1 where f1: "f k s = Some (p, s1)" using Cons.prems(1) by (auto split: Option.bind_splits)
  note o = opened [OF f1, of x]
  show ?case
  proof (cases p)
    case None
    with Cons.prems f1 o show ?thesis by auto
  next
    case (Some y)
    with Cons.prems(1) f1 have k: "k < b" and r: "open_parts b f ks (m(k \<mapsto> y), s1) = Some (ok, m', s')"
      by (auto split: if_splits)
    have "owns (own x) b (m(k \<mapsto> y)) = owns (own x) b m + own x y" using k Cons.prems(3) by (simp add: owns_upd)
    moreover have "\<forall>j z. (m(k \<mapsto> y)) j = Some z \<longrightarrow> good z" using o Some Cons.prems(4) by auto
    ultimately show ?thesis using Cons.IH [OF r] Cons.prems(2,3) o Some k by (fastforce split: if_splits)
  qed
qed auto

lemma close_parts_gives_back:
  assumes "\<forall>k y. m k = Some y \<longrightarrow> good y" "close_parts b g ks m s = Some s'"
  shows "bal (trace s') x = bal (trace s) x - (owns (own x) b m - owns (own x) b (\<lambda>k. if k \<in> set ks then None else m k))"
  using assms
proof (induction ks arbitrary: m s)
  case (Cons k ks)
  obtain s1 where k: "k < b" and s1: "(case m k of None \<Rightarrow> Some s | Some y \<Rightarrow> g y s) = Some s1"
    and r: "close_parts b g ks (m(k := None)) s1 = Some s'"
    using Cons.prems(2) by (auto split: Option.bind_splits if_splits)
  have b: "bal (trace s1) x = bal (trace s) x - (case m k of None \<Rightarrow> 0 | Some y \<Rightarrow> own x y)"
    using s1 Cons.prems(1) closed [of "the (m k)" s x] by (cases "m k") force+
  have "(\<lambda>j. if j \<in> set ks then None else (m(k := None)) j) = (\<lambda>j. if j \<in> set (k # ks) then None else m j)" by auto
  moreover have "\<forall>j y. (m(k := None)) j = Some y \<longrightarrow> good y" using Cons.prems(1) by simp
  note Cons.IH [OF this r]
  moreover have "owns (own x) b (m(k := None)) = owns (own x) b m - (case m k of None \<Rightarrow> 0 | Some y \<Rightarrow> own x y)"
    using owns_upd [OF k, of "own x" m None] by simp
  ultimately show ?case using b by (simp only:)
qed simp

lemma close_parts_total:
  "(\<forall>k y. m k = Some y \<longrightarrow> good y) \<Longrightarrow> (\<forall>k\<in>set ks. k < b) \<Longrightarrow> \<exists>s'. close_parts b g ks m s = Some s'"
proof (induction ks arbitrary: m s)
  case (Cons k ks)
  obtain s1 where s1: "(case m k of None \<Rightarrow> Some s | Some y \<Rightarrow> g y s) = Some s1"
    using Cons.prems(1) closed by (cases "m k") force+
  have "\<exists>s'. close_parts b g ks (m(k := None)) s1 = Some s'"
    by (rule Cons.IH) (use Cons.prems in auto)
  with s1 Cons.prems(2) show ?case by auto
qed simp

text \<open>Closing everything that was opened.\<close>

lemma close_all:
  assumes "\<forall>k y. m k = Some y \<longrightarrow> good y" "\<forall>k. m k \<noteq> None \<longrightarrow> k < n" "close_parts b g [0..<n] m s = Some s'"
  shows "bal (trace s') x = bal (trace s) x - owns (own x) b m"
proof -
  have "(\<lambda>k. if k \<in> set [0..<n] then None else m k) = Map.empty" by (rule ext) (use assms(2) in force)
  with close_parts_gives_back [OF assms(1,3), of x] show ?thesis by (simp only: owns_empty)
qed

end

section \<open>Schedulers, ports and interfaces as parts\<close>

definition own_sched :: "res \<Rightarrow> u_sched \<Rightarrow> int" where
  "own_sched x y = of_bool (x = Mem (us_mem y))"

definition own_uport :: "res \<Rightarrow> u_port \<Rightarrow> int" where
  "own_uport x p = of_bool (x = Mem (up_mem p)) + owns (own_sched x) MAX_SCHED (up_sched p)"

definition own_uif :: "res \<Rightarrow> u_if \<Rightarrow> int" where
  "own_uif x i = of_bool (x = Mem (ui_mem i)) + owns (own_uport x) MAX_PORTS (ui_ports i)"

definition good_port :: "u_port \<Rightarrow> bool" where
  "good_port p \<longleftrightarrow> unat (up_sched_count p) \<le> MAX_SCHED \<and> (\<forall>k. up_sched p k \<noteq> None \<longrightarrow> k < unat (up_sched_count p))"

definition good_uif :: "u_if \<Rightarrow> bool" where
  "good_uif i \<longleftrightarrow> unat (ui_port_count i) \<le> MAX_PORTS \<and> (\<forall>k p. ui_ports i k = Some p \<longrightarrow> good_port p \<and> k < unat (ui_port_count i))"

lemma u_free_bal [simp]: "bal (trace (u_free m s)) x = bal (trace s) x - of_bool (x = Mem m)"
  by (simp add: u_free_def)

lemma all_below: "(\<forall>k\<in>set [0..<n]. k < (b :: nat)) \<Longrightarrow> n \<le> b"
  by (cases n) auto

interpretation scheds: parts "\<lambda>k s. Some (mqnic_sched_open if_end stride k (a k) s)" "\<lambda>y s. Some (mqnic_sched_close y s)"
  own_sched "\<lambda>_. True" for if_end stride a
proof
  fix k s p s' x
  assume o: "Some (mqnic_sched_open if_end stride k (a k) s) = Some (p, s')"
  obtain m t where kz: "kzalloc s = (m, t)" by force
  with o bal_kzalloc [OF kz, of x]
  show "bal (trace s') x = bal (trace s) x + (case p of None \<Rightarrow> 0 | Some y \<Rightarrow> own_sched x y) \<and> (\<forall>y. p = Some y \<longrightarrow> True)"
    by (cases m) (auto simp: mqnic_sched_open_def mqnic_sched_close_def own_sched_def Let_def split: if_splits)
qed (simp add: mqnic_sched_close_def own_sched_def)

lemma bal_ioreads_eq: "ioreads as s = (vs, t) \<Longrightarrow> bal (trace t) x = bal (trace s) x"
  by (metis bal_ioreads snd_conv)

lemma bal_read_port: "read_port_regs p s = (p', s') \<Longrightarrow> bal (trace s') x = bal (trace s) x \<and>
    up_mem p' = up_mem p \<and> up_sched p' = up_sched p"
  by (auto simp: read_port_regs_def Let_def simp del: ioreads.simps split: prod.splits dest: bal_ioreads_eq)

lemma port_close_holds:
  assumes "\<forall>k. up_sched p k \<noteq> None \<longrightarrow> k < unat (up_sched_count p)"
  shows "mqnic_port_close p s = Some s' \<Longrightarrow> bal (trace s') x = bal (trace s) x - own_uport x p"
    and "unat (up_sched_count p) \<le> MAX_SCHED \<Longrightarrow> \<exists>s'. mqnic_port_close p s = Some s'"
proof -
  assume "mqnic_port_close p s = Some s'"
  then obtain t where "close_parts MAX_SCHED (\<lambda>sched s. Some (mqnic_sched_close sched s)) [0..<unat (up_sched_count p)] (up_sched p) s = Some t"
    "s' = u_free (up_mem p) t"
    by (auto simp: mqnic_port_close_def split: Option.bind_splits)
  with scheds.close_all [OF _ assms this(1), of x] show "bal (trace s') x = bal (trace s) x - own_uport x p"
    by (simp add: own_uport_def)
next
  assume "unat (up_sched_count p) \<le> MAX_SCHED"
  then have "\<forall>k\<in>set [0..<unat (up_sched_count p)]. k < MAX_SCHED" by auto
  from scheds.close_parts_total [OF _ this, of "up_sched p" s] show "\<exists>s'. mqnic_port_close p s = Some s'"
    by (auto simp: mqnic_port_close_def)
qed

lemma port_open_holds:
  assumes "mqnic_port_open if_end stride k r s = Some (p, s')"
  shows "bal (trace s') x = bal (trace s) x + (case p of None \<Rightarrow> 0 | Some y \<Rightarrow> own_uport x y) \<and> (\<forall>y. p = Some y \<longrightarrow> good_port y)"
proof -
  obtain q t where kz: "kzalloc s = (q, t)" by force
  note b1 = bal_kzalloc [OF kz, of x]
  show ?thesis
  proof (cases q)
    case None
    with assms kz b1 show ?thesis by (auto simp: mqnic_port_open_def)
  next
    case (Some m)
    let ?e = "empty_port m k stride r"
    have e: "own_uport x ?e = of_bool (x = Mem m)" "up_sched ?e = Map.empty" "up_sched_count ?e = 0"
      by (simp_all add: empty_port_def own_uport_def)
    show ?thesis
    proof (cases "up_regs ?e \<ge> if_end")
      case True
      with assms kz Some obtain s1 where "mqnic_port_close ?e t = Some s1" "p = None" "s' = s1"
        by (auto simp: mqnic_port_open_def Let_def split: Option.bind_splits)
      with port_close_holds(1) [OF _ this(1), of x] e b1 Some show ?thesis by simp
    next
      case False
      obtain port u where rp: "read_port_regs ?e t = (port, u)" by force
      note r1 = bal_read_port [OF rp, of x]
      from assms kz Some False rp obtain ok m' v where o: "open_parts MAX_SCHED
          (\<lambda>k s. Some (mqnic_sched_open if_end (up_sched_stride port) k (sched_regs port k) s))
          [0..<unat (up_sched_count port)] (Map.empty, u) = Some (ok, m', v)"
        and c: "(if ok then Some (Some (port\<lparr>up_sched := m'\<rparr>), v)
          else do { s \<leftarrow> mqnic_port_close (port\<lparr>up_sched := m'\<rparr>) v; Some (None, s) }) = Some (p, s')"
        by (auto simp: mqnic_port_open_def Let_def split: Option.bind_splits prod.splits)
      note h = scheds.open_parts_holds [OF o, of x]
      have s: "\<forall>k. m' k \<noteq> None \<longrightarrow> k < unat (up_sched_count port)" using h by auto
      have w: "own_uport x (port\<lparr>up_sched := m'\<rparr>) = of_bool (x = Mem m) + owns (own_sched x) MAX_SCHED m'"
        using r1 by (simp add: own_uport_def empty_port_def)
      show ?thesis
      proof (cases ok)
        case True
        with h all_below [of "unat (up_sched_count port)" MAX_SCHED] have "unat (up_sched_count port) \<le> MAX_SCHED" by simp
        with True c h b1 r1 Some w s show ?thesis by (auto simp: good_port_def)
      next
        case False
        with c obtain s1 where "mqnic_port_close (port\<lparr>up_sched := m'\<rparr>) v = Some s1" "p = None" "s' = s1"
          by (auto split: Option.bind_splits)
        with port_close_holds(1) [OF _ this(1), of x] s h b1 r1 Some w show ?thesis by simp
      qed
    qed
  qed
qed

interpretation ports: parts "\<lambda>k. mqnic_port_open if_end stride k (a k)" mqnic_port_close own_uport good_port for if_end stride a
proof
  fix y s x
  assume g: "good_port y"
  then have s: "\<forall>k. up_sched y k \<noteq> None \<longrightarrow> k < unat (up_sched_count y)" and c: "unat (up_sched_count y) \<le> MAX_SCHED"
    by (simp_all add: good_port_def)
  from port_close_holds(2) [OF s c] port_close_holds(1) [OF s]
  show "\<exists>s'. mqnic_port_close y s = Some s' \<and> bal (trace s') x = bal (trace s) x - own_uport x y" by blast
qed (rule port_open_holds)

lemma bal_read_if: "read_if_regs i s = (i', s') \<Longrightarrow> bal (trace s') x = bal (trace s) x \<and>
    ui_mem i' = ui_mem i \<and> ui_ports i' = ui_ports i \<and> unat (ui_port_count i') \<le> MAX_PORTS"
  by (auto simp: read_if_regs_def Let_def MAX_PORTS_def min_def word_le_nat_alt simp del: ioreads.simps
      split: prod.splits dest: bal_ioreads_eq)

lemma if_close_holds:
  assumes "good_uif i"
  shows "\<exists>s'. mqnic_if_close i s = Some s' \<and> bal (trace s') x = bal (trace s) x - own_uif x i"
proof -
  have g: "\<forall>k y. ui_ports i k = Some y \<longrightarrow> good_port y" "\<forall>k. ui_ports i k \<noteq> None \<longrightarrow> k < unat (ui_port_count i)"
    using assms by (auto simp: good_uif_def)
  have "\<forall>k\<in>set [0..<unat (ui_port_count i)]. k < MAX_PORTS" using assms by (auto simp: good_uif_def)
  from ports.close_parts_total [OF g(1) this] obtain t where
    t: "close_parts MAX_PORTS mqnic_port_close [0..<unat (ui_port_count i)] (ui_ports i) s = Some t" by blast
  from ports.close_all [OF g t, of x] show ?thesis by (simp add: mqnic_if_close_def t own_uif_def)
qed

lemma if_open_holds:
  assumes "mqnic_if_open dev k r s = Some (p, s')"
  shows "bal (trace s') x = bal (trace s) x + (case p of None \<Rightarrow> 0 | Some y \<Rightarrow> own_uif x y) \<and> (\<forall>y. p = Some y \<longrightarrow> good_uif y)"
proof -
  obtain q t where kz: "kzalloc s = (q, t)" by force
  note b1 = bal_kzalloc [OF kz, of x]
  show ?thesis
  proof (cases q)
    case None
    with assms kz b1 show ?thesis by (auto simp: mqnic_if_open_def)
  next
    case (Some m)
    let ?e = "empty_if m k dev r"
    have e: "own_uif x ?e = of_bool (x = Mem m)" "good_uif ?e" "ui_mem ?e = m"
      by (simp_all add: empty_if_def own_uif_def good_uif_def)
    show ?thesis
    proof (cases "ui_regs ?e \<ge> regs_end dev \<or> ui_csr_regs ?e \<ge> regs_end dev")
      case True
      with assms kz Some obtain s1 where "mqnic_if_close ?e t = Some s1" "p = None" "s' = s1"
        by (auto simp: mqnic_if_open_def Let_def split: Option.bind_splits)
      with if_close_holds [OF e(2), of t x] e b1 Some show ?thesis by auto
    next
      case False
      obtain i u where rp: "read_if_regs ?e t = (i, u)" by force
      note r1 = bal_read_if [OF rp, of x]
      from assms kz Some False rp obtain ok m' v where o: "open_parts MAX_PORTS
          (\<lambda>k. mqnic_port_open (ui_regs i + ui_regs_size i) (ui_port_stride i) k
            (ui_regs i + ucast (ui_port_offset i) + ucast (word_of_nat k * ui_port_stride i)))
          [0..<unat (ui_port_count i)] (Map.empty, u) = Some (ok, m', v)"
        and c: "(if ok then Some (Some (i\<lparr>ui_ports := m'\<rparr>), v)
          else do { s \<leftarrow> mqnic_if_close (i\<lparr>ui_ports := m'\<rparr>) v; Some (None, s) }) = Some (p, s')"
        by (auto simp: mqnic_if_open_def Let_def split: Option.bind_splits prod.splits)
      note h = ports.open_parts_holds [OF o, of x]
      have g: "good_uif (i\<lparr>ui_ports := m'\<rparr>)" using h r1 by (auto simp: good_uif_def)
      have w: "own_uif x (i\<lparr>ui_ports := m'\<rparr>) = of_bool (x = Mem m) + owns (own_uport x) MAX_PORTS m'"
        using r1 e(3) by (simp add: own_uif_def)
      from if_close_holds [OF g, of v x] c h b1 r1 Some w g show ?thesis by (auto split: if_splits)
    qed
  qed
qed

interpretation ifs: parts "\<lambda>k. mqnic_if_open dev k (a k)" mqnic_if_close own_uif good_uif for dev a
  by unfold_locales (rule if_open_holds if_close_holds, assumption)+

section \<open>Devices\<close>

definition own_udev :: "res \<Rightarrow> u_dev \<Rightarrow> int" where
  "own_udev x d = of_bool (x = Mem (ud_mem d)) + of_bool (x = Held (OpenFile (ud_fd d))) + of_bool (x = Held (IoMap (uint (ud_regs d)))) +
     owns (own_uif x) MAX_IF (ud_interfaces d)"

definition good_udev :: "u_dev \<Rightarrow> bool" where
  "good_udev d \<longleftrightarrow> unat (ud_if_count d) \<le> MAX_IF \<and> (\<forall>k i. ud_interfaces d k = Some i \<longrightarrow> good_uif i \<and> k < unat (ud_if_count d))"

lemma util_close_holds:
  assumes "good_udev d"
  shows "\<exists>s'. util_close (Some d) s = Some s' \<and> bal (trace s') x = bal (trace s) x - own_udev x d"
proof -
  have g: "\<forall>k y. ud_interfaces d k = Some y \<longrightarrow> good_uif y" "\<forall>k. ud_interfaces d k \<noteq> None \<longrightarrow> k < unat (ud_if_count d)"
    using assms by (auto simp: good_udev_def)
  have "\<forall>k\<in>set [0..<unat (ud_if_count d)]. k < MAX_IF" using assms by (auto simp: good_udev_def)
  from ifs.close_parts_total [OF g(1) this] obtain t where
    t: "close_parts MAX_IF mqnic_if_close [0..<unat (ud_if_count d)] (ud_interfaces d) s = Some t" by blast
  from ifs.close_all [OF g t, of x] show ?thesis
    by (simp add: util_close_def t own_udev_def u_close_file_def u_munmap_def)
qed

lemma bal_regs_size: "regs_size_of fd s = (r, s') \<Longrightarrow> bal (trace s') x = bal (trace s) x"
  by (auto simp: regs_size_of_def kcall_def split: if_splits)

lemma bal_enable: "enable_device path_max name s = Some s' \<Longrightarrow> bal (trace s') x = bal (trace s) x"
  by (auto simp: enable_device_def kcall_def kvoid_def split: if_splits)

lemma bal_read_dev: "read_dev_regs d s = (d', s') \<Longrightarrow> bal (trace s') x = bal (trace s) x \<and>
    ud_mem d' = ud_mem d \<and> ud_fd d' = ud_fd d \<and> ud_regs d' = ud_regs d \<and> unat (ud_if_count d') \<le> MAX_IF"
  by (auto simp: read_dev_regs_def Let_def MAX_IF_def min_def word_le_nat_alt simp del: ioreads.simps
      split: prod.splits dest: bal_ioreads_eq)

lemma open_mapped_holds:
  assumes "open_mapped path_max name d s = Some (r, s')" "ud_interfaces d = Map.empty" "ud_if_count d = 0"
    "bal (trace s) x = c + own_udev x d"
  shows "case r of None \<Rightarrow> bal (trace s') x = c | Some d' \<Rightarrow> good_udev d' \<and> bal (trace s') x = c + own_udev x d'"
proof -
  have gd: "good_udev d" using assms(2,3) by (simp add: good_udev_def)
  obtain v1 s1 where i1: "ioread32 (ud_regs d + REG_FW_ID) s = (v1, s1)" by force
  from assms(1) i1 obtain s2 where e: "(if v1 = 0xffffffff then enable_device path_max name s1 else Some s1) = Some s2"
    by (auto simp: open_mapped_def split: Option.bind_splits)
  have b2: "bal (trace s2) x = bal (trace s) x"
    using bal_ioread32 [OF i1, of x] e by (auto split: if_splits dest: bal_enable [of _ _ _ _ x])
  obtain v3 s3 where i3: "ioread32 (ud_regs d + REG_FW_ID) s2 = (v3, s3)" by force
  note b3 = bal_ioread32 [OF i3, of x]
  show ?thesis
  proof (cases "v3 = 0xffffffff")
    case True
    from util_close_holds [OF gd, of s3 x] obtain t where "util_close (Some d) s3 = Some t" "bal (trace t) x = bal (trace s3) x - own_udev x d"
      by blast
    with assms(1,4) i1 e i3 True b2 b3 show ?thesis by (auto simp: open_mapped_def split: if_splits)
  next
    case False
    obtain d1 s4 where rd: "read_dev_regs d s3 = (d1, s4)" by force
    note r4 = bal_read_dev [OF rd, of x]
    from assms(1) i1 e i3 False rd obtain ok m' v where o: "open_parts MAX_IF
        (\<lambda>k. mqnic_if_open d1 k (ud_regs d1 + ucast (word_of_nat k * ud_if_stride d1))) [0..<unat (ud_if_count d1)] (Map.empty, s4) = Some (ok, m', v)"
      and c: "(if ok then Some (Some (d1\<lparr>ud_interfaces := m'\<rparr>), v)
        else do { s \<leftarrow> util_close (Some (d1\<lparr>ud_interfaces := m'\<rparr>)) v; Some (None, s) }) = Some (r, s')"
      by (auto simp: open_mapped_def Let_def split: Option.bind_splits prod.splits if_splits)
    note h = ifs.open_parts_holds [OF o, of x]
    have g: "good_udev (d1\<lparr>ud_interfaces := m'\<rparr>)" using h r4 by (auto simp: good_udev_def)
    have w: "own_udev x (d1\<lparr>ud_interfaces := m'\<rparr>) = own_udev x d + owns (own_uif x) MAX_IF m'"
      using r4 assms(2) by (simp add: own_udev_def)
    from util_close_holds [OF g, of v x] c h b2 b3 r4 assms(4) w g show ?thesis by (auto split: if_splits)
  qed
qed

text \<open>C14: a device that cannot be opened leaves no memory, file or mapping behind; one that was opened can be closed,
  and closing it gives back everything that opening it took.\<close>

theorem util_open_close:
  assumes "util_open path_max name s = Some (r, s')"
  shows "case r of None \<Rightarrow> bal (trace s') x = bal (trace s) x
    | Some d \<Rightarrow> \<exists>s''. util_close (Some d) s' = Some s'' \<and> bal (trace s'') x = bal (trace s) x"
proof -
  obtain q t where kz: "kzalloc s = (q, t)" by force
  note b1 = bal_kzalloc [OF kz, of x]
  show ?thesis
  proof (cases q)
    case None
    with assms kz b1 show ?thesis by (auto simp: util_open_def)
  next
    case (Some m)
    obtain fd s2 where k2: "kget ''open'' (codes name) (\<lambda>v. 0 \<le> v) OpenFile t = (fd, s2)" by force
    note b2 = bal_kget [OF k2, of x]
    obtain z s3 where k3: "regs_size_of fd s2 = (z, s3)" by force
    note b3 = bal_regs_size [OF k3, of x]
    show ?thesis
    proof (cases "fd < 0 \<or> z = None")
      case True
      with assms kz Some k2 k3 b1 b2 b3 show ?thesis by (auto simp: util_open_def u_close_file_def split: if_splits option.splits)
    next
      case False
      then obtain sz where z: "z = Some sz" by blast
      let ?a = "\<lambda>v. word_of_int v :: addr"
      obtain v s4 where k4: "kget ''mmap'' [uint sz, fd] (\<lambda>v. ?a v \<noteq> - 1) (\<lambda>v. IoMap (uint (?a v))) s3 = (v, s4)" by force
      note b4 = bal_kget [OF k4, of x]
      show ?thesis
      proof (cases "?a v = - 1")
        case True
        with assms kz Some k2 k3 z False k4 b1 b2 b3 b4 show ?thesis
          by (auto simp: util_open_def u_close_file_def)
      next
        case n: False
        let ?d = "empty_dev m fd sz (?a v)"
        from assms kz Some k2 k3 z False k4 n have o: "open_mapped path_max name ?d s4 = Some (r, s')"
          by (simp add: util_open_def)
        have "bal (trace s4) x = bal (trace s) x + own_udev x ?d"
          using b1 b2 b3 b4 Some False n by (simp add: own_udev_def empty_dev_def)
        from open_mapped_holds [OF o _ _ this] have h: "case r of None \<Rightarrow> bal (trace s') x = bal (trace s) x
            | Some d' \<Rightarrow> good_udev d' \<and> bal (trace s') x = bal (trace s) x + own_udev x d'"
          by (simp add: empty_dev_def)
        then show ?thesis using util_close_holds [of "the r" s' x] by (cases r) auto
      qed
    qed
  qed
qed

text \<open>
  The number of schedulers a port reports is not limited: with more than eight the array of a port is left,
  provided that the first nine can be opened.
\<close>

lemma open_parts_overrun:
  assumes "\<And>k s. k \<le> b \<Longrightarrow> I s \<Longrightarrow> \<exists>y s'. f k s = Some (Some y, s') \<and> I s'" "j \<le> b" "b < n" "I s"
  shows "open_parts b f [j..<n] (m, s) = None"
  using assms(2,4)
proof (induction "b - j" arbitrary: j m s)
  case 0
  then have "j = b" by simp
  with assms(1) [of b s] assms(3) 0 show ?case by (auto simp: upt_conv_Cons)
next
  case (Suc l)
  obtain y s' where f: "f j s = Some (Some y, s')" "I s'" using assms(1) [OF Suc.prems] by blast
  moreover have "open_parts b f [Suc j..<n] (m(j \<mapsto> y), s') = None"
    by (rule Suc.hyps(1)) (use Suc.hyps(2) f in auto)
  ultimately show ?case using Suc.hyps(2) assms(3) by (simp add: upt_conv_Cons)
qed

lemma sched_count_overrun:
  fixes s :: sys
  assumes "\<forall>h. w_kalloc s h \<noteq> None" "\<And>k. k \<le> MAX_SCHED \<Longrightarrow> sched_regs port k < if_end" "MAX_SCHED < unat (up_sched_count port)"
  shows "open_parts MAX_SCHED (\<lambda>k s. Some (mqnic_sched_open if_end (up_sched_stride port) k (sched_regs port k) s))
    [0..<unat (up_sched_count port)] (Map.empty, s) = None"
proof (rule open_parts_overrun [where I = "\<lambda>s :: sys. \<forall>h. w_kalloc s h \<noteq> None"])
  fix k and s :: sys
  assume k: "k \<le> MAX_SCHED" and "\<forall>h. w_kalloc s h \<noteq> None"
  then obtain m where "w_kalloc s (trace s) = Some m" by auto
  then have "kzalloc s = (Some m, emit (Kalloc m) s)" by (simp add: kzalloc_def)
  with assms(2) [OF k] \<open>\<forall>h. w_kalloc s h \<noteq> None\<close>
  show "\<exists>y s'. Some (mqnic_sched_open if_end (up_sched_stride port) k (sched_regs port k) s) = Some (Some y, s') \<and>
      (\<forall>h. w_kalloc s' h \<noteq> None)"
    by (simp add: mqnic_sched_open_def Let_def flip: not_less)
qed (use assms in simp_all)

section \<open>A machine\<close>

definition util_regs :: "addr \<Rightarrow> u32" where
  "util_regs a = (if a = 0x1000001C then 1 else if a = 0x10000020 then 1 else if a = 0x10000024 then 0x80000
     else if a = 0x1000002C then 0x40000 else if a = 0x10040040 then 1 else if a = 0x10040044 then 0x1000
     else if a = 0x10001010 then 1 else 0)"

definition util_answers :: "string \<Rightarrow> int" where
  "util_answers f = (if f = ''open'' then 3 else if f = ''st_size'' then 0x100000 else if f = ''mmap'' then 0x10000000 else 0)"

definition util_world :: sys where
  "util_world = quiet_world\<lparr>w_ioread := (\<lambda>_. util_regs), w_kcall := (\<lambda>_ f _. util_answers f)\<rparr>"

definition on_util :: "sys \<Rightarrow> bool" where
  "on_util s \<longleftrightarrow> w_ioread s = (\<lambda>_. util_regs) \<and> w_kcall s = (\<lambda>_ f _. util_answers f) \<and> (\<forall>h. w_kalloc s h \<noteq> None)"

lemma on_util_emit [simp]: "on_util (emit e s) = on_util s"
  by (simp add: on_util_def)

lemma on_util_kzalloc: "on_util s \<Longrightarrow> \<exists>m. kzalloc s = (Some m, emit (Kalloc m) s)"
  by (auto simp: on_util_def kzalloc_def split: option.splits)

lemma on_util_ioread: "on_util s \<Longrightarrow> ioread32 a s = (util_regs a, emit (Ioread32 a (util_regs a)) s)"
  by (simp add: on_util_def ioread32_def Let_def)

lemma on_util_ioreads: "on_util s \<Longrightarrow> \<exists>s'. ioreads as s = (map util_regs as, s') \<and> on_util s'"
proof (induction as arbitrary: s)
  case (Cons a as)
  obtain s' where "ioreads as (emit (Ioread32 a (util_regs a)) s) = (map util_regs as, s')" "on_util s'"
    using Cons.IH [of "emit (Ioread32 a (util_regs a)) s"] Cons.prems by auto
  then show ?case by (simp add: on_util_ioread [OF Cons.prems])
qed simp

lemma on_util_port:
  assumes "on_util s"
  shows "\<exists>p s'. mqnic_port_open 0x10080000 0 0 0x10001000 s = Some (Some p, s') \<and> on_util s'"
proof -
  obtain m where m: "kzalloc s = (Some m, emit (Kalloc m) s)" "on_util (emit (Kalloc m) s)" using on_util_kzalloc [OF assms] assms by auto
  let ?e = "empty_port m 0 0 0x10001000" and ?r = "0x10001000 :: addr"
  have r: "up_regs ?e = ?r" by (simp add: empty_port_def)
  obtain s1 where s1: "ioreads [?r + PORT_REG_PORT_ID, ?r + PORT_REG_PORT_FEATURES, ?r + PORT_REG_PORT_MTU, ?r + PORT_REG_SCHED_COUNT,
       ?r + PORT_REG_SCHED_OFFSET, ?r + PORT_REG_SCHED_STRIDE, ?r + PORT_REG_SCHED_TYPE, ?r + PORT_REG_TDMA_TIMESLOT_COUNT] (emit (Kalloc m) s) =
      ([0, 0, 0, 1, 0, 0, 0, 0], s1)" "on_util s1"
    using on_util_ioreads [OF m(2), of "[?r + PORT_REG_PORT_ID, ?r + PORT_REG_PORT_FEATURES, ?r + PORT_REG_PORT_MTU, ?r + PORT_REG_SCHED_COUNT,
       ?r + PORT_REG_SCHED_OFFSET, ?r + PORT_REG_SCHED_STRIDE, ?r + PORT_REG_SCHED_TYPE, ?r + PORT_REG_TDMA_TIMESLOT_COUNT]"]
    by (auto simp: util_regs_def PORT_REG_PORT_ID_def PORT_REG_PORT_FEATURES_def PORT_REG_PORT_MTU_def PORT_REG_SCHED_COUNT_def
        PORT_REG_SCHED_OFFSET_def PORT_REG_SCHED_STRIDE_def PORT_REG_SCHED_TYPE_def PORT_REG_TDMA_TIMESLOT_COUNT_def simp del: ioreads.simps)
  obtain p where p: "read_port_regs ?e (emit (Kalloc m) s) = (p, s1)" "up_sched_count p = 1" "up_sched_offset p = 0" "up_sched_stride p = 0" "up_regs p = ?r"
    unfolding read_port_regs_def r Let_def s1(1) prod.case by (simp add: empty_port_def)
  obtain m2 where m2: "kzalloc s1 = (Some m2, emit (Kalloc m2) s1)" using on_util_kzalloc [OF s1(2)] by blast
  then have "mqnic_sched_open 0x10080000 0 0 ?r s1 = (Some \<lparr>us_mem = m2, us_index = 0, us_regs_size = 0, us_regs = ?r\<rparr>, emit (Kalloc m2) s1)"
    by (simp add: mqnic_sched_open_def)
  moreover have "sched_regs p 0 = ?r" by (simp add: sched_regs_def p)
  ultimately show ?thesis
    using s1(2) by (simp add: mqnic_port_open_def m(1) r p MAX_SCHED_def)
qed

lemma on_util_if:
  assumes "on_util s" "ud_regs d = 0x10000000" "ud_regs_size d = 0x100000" "ud_if_stride d = 0x80000" "ud_if_csr_offset d = 0x40000"
  shows "\<exists>i s'. mqnic_if_open d 0 0x10000000 s = Some (Some i, s') \<and> on_util s'"
proof -
  obtain m where m: "kzalloc s = (Some m, emit (Kalloc m) s)" "on_util (emit (Kalloc m) s)" using on_util_kzalloc [OF assms(1)] assms(1) by auto
  let ?e = "empty_if m 0 d 0x10000000" and ?r = "0x10040000 :: addr"
  have r: "ui_csr_regs ?e = ?r" "ui_regs ?e = 0x10000000" "regs_end d = 0x10100000"
    by (simp_all add: empty_if_def assms regs_end_def)
  let ?as = "[?r + IF_REG_IF_ID, ?r + IF_REG_IF_FEATURES, ?r + IF_REG_EVENT_QUEUE_COUNT, ?r + IF_REG_EVENT_QUEUE_OFFSET,
       ?r + IF_REG_TX_QUEUE_COUNT, ?r + IF_REG_TX_QUEUE_OFFSET, ?r + IF_REG_TX_CPL_QUEUE_COUNT, ?r + IF_REG_TX_CPL_QUEUE_OFFSET,
       ?r + IF_REG_RX_QUEUE_COUNT, ?r + IF_REG_RX_QUEUE_OFFSET, ?r + IF_REG_RX_CPL_QUEUE_COUNT, ?r + IF_REG_RX_CPL_QUEUE_OFFSET,
       ?r + IF_REG_PORT_COUNT, ?r + IF_REG_PORT_OFFSET, ?r + IF_REG_PORT_STRIDE]"
  have v: "map util_regs ?as = [0, 0, 0, 0, 0, 0, 0, 0, 0, 0, 0, 0, 1, 0x1000, 0]"
    by (simp add: util_regs_def IF_REG_IF_ID_def IF_REG_IF_FEATURES_def IF_REG_EVENT_QUEUE_COUNT_def IF_REG_EVENT_QUEUE_OFFSET_def
        IF_REG_TX_QUEUE_COUNT_def IF_REG_TX_QUEUE_OFFSET_def IF_REG_TX_CPL_QUEUE_COUNT_def IF_REG_TX_CPL_QUEUE_OFFSET_def
        IF_REG_RX_QUEUE_COUNT_def IF_REG_RX_QUEUE_OFFSET_def IF_REG_RX_CPL_QUEUE_COUNT_def IF_REG_RX_CPL_QUEUE_OFFSET_def
        IF_REG_PORT_COUNT_def IF_REG_PORT_OFFSET_def IF_REG_PORT_STRIDE_def)
  obtain s1 where s1: "ioreads ?as (emit (Kalloc m) s) = ([0, 0, 0, 0, 0, 0, 0, 0, 0, 0, 0, 0, 1, 0x1000, 0], s1)" "on_util s1"
    using on_util_ioreads [OF m(2), of ?as] unfolding v by blast
  obtain i where i: "read_if_regs ?e (emit (Kalloc m) s) = (i, s1)" "ui_port_count i = 1" "ui_port_offset i = 0x1000" "ui_port_stride i = 0"
    "ui_regs i = 0x10000000" "ui_regs_size i = 0x80000"
    unfolding read_if_regs_def r Let_def s1(1) prod.case by (simp add: empty_if_def assms MAX_PORTS_def)
  obtain p s2 where "mqnic_port_open 0x10080000 0 0 0x10001000 s1 = Some (Some p, s2)" "on_util s2"
    using on_util_port [OF s1(2)] by blast
  then show ?thesis by (simp add: mqnic_if_open_def m(1) r i MAX_PORTS_def)
qed

lemma util_world_open: "\<exists>d s. util_open 4096 ''/dev/mqnic0'' util_world = Some (Some d, s) \<and> ud_if_count d = 1"
proof -
  have on: "on_util util_world" by (simp add: on_util_def util_world_def quiet_world_def)
  then obtain m where m: "kzalloc util_world = (Some m, emit (Kalloc m) util_world)" using on_util_kzalloc by blast
  let ?w = "emit (KGet (IoMap 0x10000000)) (emit (KCall ''mmap'' [0x100000, 3]) (emit (KCall ''st_size'' [3]) (emit (KCall ''fstat'' [3])
    (emit (KGet (OpenFile 3)) (emit (KCall ''open'' (codes ''/dev/mqnic0'')) (emit (Kalloc m) util_world))))))"
  let ?d = "empty_dev m 3 0x100000 0x10000000"
  have "w_kcall util_world = (\<lambda>_ f _. util_answers f)" by (simp add: util_world_def)
  then have o: "util_open 4096 ''/dev/mqnic0'' util_world = open_mapped 4096 ''/dev/mqnic0'' ?d ?w"
    by (simp add: util_open_def m kget_def regs_size_of_def kcall_def Let_def util_answers_def)
  have w: "on_util ?w" using on by simp
  have fw: "util_regs (ud_regs ?d + REG_FW_ID) = 0" by (simp add: empty_dev_def REG_FW_ID_def util_regs_def)
  let ?w2 = "emit (Ioread32 (ud_regs ?d + REG_FW_ID) 0) (emit (Ioread32 (ud_regs ?d + REG_FW_ID) 0) ?w)" and ?r = "0x10000000 :: addr"
  let ?as = "[?r + REG_FW_ID, ?r + REG_FW_VER, ?r + REG_BOARD_ID, ?r + REG_BOARD_VER, ?r + REG_PHC_COUNT,
       ?r + REG_PHC_OFFSET, ?r + REG_PHC_STRIDE, ?r + REG_IF_COUNT, ?r + REG_IF_STRIDE, ?r + REG_IF_CSR_OFFSET]"
  have v: "map util_regs ?as = [0, 0, 0, 0, 0, 0, 0, 1, 0x80000, 0x40000]"
    by (simp add: util_regs_def REG_FW_ID_def REG_FW_VER_def REG_BOARD_ID_def REG_BOARD_VER_def REG_PHC_COUNT_def
        REG_PHC_OFFSET_def REG_PHC_STRIDE_def REG_IF_COUNT_def REG_IF_STRIDE_def REG_IF_CSR_OFFSET_def)
  obtain s1 where s1: "ioreads ?as ?w2 = ([0, 0, 0, 0, 0, 0, 0, 1, 0x80000, 0x40000], s1)" "on_util s1"
    using on_util_ioreads [of ?w2 ?as] w unfolding v by auto
  have r: "ud_regs ?d = ?r" by (simp add: empty_dev_def)
  obtain d where d: "read_dev_regs ?d ?w2 = (d, s1)" "ud_regs d = ?r" "ud_regs_size d = 0x100000" "ud_if_stride d = 0x80000"
    "ud_if_csr_offset d = 0x40000" "ud_if_count d = 1"
    using s1(1) unfolding read_dev_regs_def r Let_def by (simp add: empty_dev_def MAX_IF_def)
  obtain i s2 where "mqnic_if_open d 0 ?r s1 = Some (Some i, s2)" using on_util_if [OF s1(2) d(2-5)] by blast
  with d have "open_mapped 4096 ''/dev/mqnic0'' ?d ?w = Some (Some (d\<lparr>ud_interfaces := [0 \<mapsto> i]\<rparr>), s2)"
    using on_util_ioread [of ?w "ud_regs ?d + REG_FW_ID"] on_util_ioread [of "emit (Ioread32 (ud_regs ?d + REG_FW_ID) 0) ?w" "ud_regs ?d + REG_FW_ID"] w
    by (simp add: open_mapped_def fw MAX_IF_def)
  with o d(6) show ?thesis by simp
qed

theorem util_open_close_witness:
  "\<exists>d s s'. util_open 4096 ''/dev/mqnic0'' util_world = Some (Some d, s) \<and> util_close (Some d) s = Some s' \<and>
    bal (trace s') (Held (OpenFile 3)) = 0"
proof -
  obtain d s where o: "util_open 4096 ''/dev/mqnic0'' util_world = Some (Some d, s)" using util_world_open by blast
  from util_open_close [OF o, of "Held (OpenFile 3)"] o show ?thesis by (auto simp: util_world_def quiet_world_def)
qed

end
