(* ===== verification/FwTool.thy ===== *)
theory FwTool
  imports FlashDev FpgaId Bitfile UtilMqnic "HOL-Library.While_Combinator"
begin

text \<open>
  The firmware tool (\<open>utils/mqnic-fw.c\<close>): it reads and writes the FPGA's configuration flash and restarts the
  board. Sizes are 64 bits wide; a buffer is the list of its bytes and reading or writing outside of it is a
  fault (\<open>None\<close>), as is a null pointer that is followed. Messages and the progress display are left out. What is
  under \<open>/sys\<close> and in the named files, and the bytes an uninitialised buffer happens to hold, are parameters.
\<close>

section \<open>Bits\<close>

definition reverse_bits_32 :: "u32 \<Rightarrow> u32" where
  "reverse_bits_32 x =
    (let x = push_bit 1 (x AND 0x55555555) OR drop_bit 1 (x AND 0xAAAAAAAA);
         x = push_bit 2 (x AND 0x33333333) OR drop_bit 2 (x AND 0xCCCCCCCC);
         x = push_bit 4 (x AND 0x0F0F0F0F) OR drop_bit 4 (x AND 0xF0F0F0F0);
         x = push_bit 8 (x AND 0x00FF00FF) OR drop_bit 8 (x AND 0xFF00FF00)
     in push_bit 16 (x AND 0x0000FFFF) OR drop_bit 16 (x AND 0xFFFF0000))"

definition reverse_bits_16 :: "u16 \<Rightarrow> u16" where
  "reverse_bits_16 x =
    (let x = push_bit 1 (x AND 0x5555) OR drop_bit 1 (x AND 0xAAAA);
         x = push_bit 2 (x AND 0x3333) OR drop_bit 2 (x AND 0xCCCC);
         x = push_bit 4 (x AND 0x0F0F) OR drop_bit 4 (x AND 0xF0F0)
     in push_bit 8 (x AND 0x00FF) OR drop_bit 8 (x AND 0xFF00))"

definition reverse_bits_8 :: "u8 \<Rightarrow> u8" where
  "reverse_bits_8 x =
    (let x = push_bit 1 (x AND 0x55) OR drop_bit 1 (x AND 0xAA);
         x = push_bit 2 (x AND 0x33) OR drop_bit 2 (x AND 0xCC)
     in push_bit 4 (x AND 0x0F) OR drop_bit 4 (x AND 0xF0))"

text \<open>The buffer as little-endian 16 bit words; of a last odd byte the other half would be outside of it.\<close>

fun swap_words :: "u8 list \<Rightarrow> u8 list option" where
  "swap_words [] = Some []"
| "swap_words [b] = None"
| "swap_words (b # c # bs) = do {
     rest \<leftarrow> swap_words bs;
     let w = reverse_bits_16 (ucast b OR push_bit 8 (ucast c));
     Some (ucast w # ucast (drop_bit 8 w) # rest) }"

definition swap_bits :: "nat \<Rightarrow> u8 list \<Rightarrow> u8 list option" where
  "swap_bits word_size bs = (if word_size = 16 then swap_words bs else Some (map reverse_bits_8 bs))"

section \<open>Strings\<close>

definition tolower :: "char \<Rightarrow> char" where
  "tolower c = (if 65 \<le> (of_char c :: nat) \<and> (of_char c :: nat) \<le> 90 then char_of (of_char c + 32 :: nat) else c)"

text \<open>
  The search. A pointer is an offset into its string, whose end is the terminating zero; \<open>r\<close> is the start of
  the match under way, if there is one. A step takes a character of the match or moves its start.
\<close>

definition char_at :: "string \<Rightarrow> nat \<Rightarrow> char" where
  "char_at s i = (if i < length s then tolower (s ! i) else CHR 0x00)"

definition stristr_step :: "string \<Rightarrow> string \<Rightarrow> nat \<times> nat \<times> nat option \<Rightarrow> nat \<times> nat \<times> nat option" where
  "stristr_step s t = (\<lambda>(p1, p2, r).
     if char_at s p1 = char_at t p2 then (p1 + 1, p2 + 1, case r of None \<Rightarrow> Some p1 | Some q \<Rightarrow> Some q)
     else let p1 = (case r of None \<Rightarrow> p1 | Some q \<Rightarrow> q + 1)
       in if char_at s p1 = char_at t 0 then (p1 + 1, 1, Some p1) else (p1 + 1, 0, None))"

definition stristr_end :: "string \<Rightarrow> string \<Rightarrow> nat \<times> nat \<times> nat option \<Rightarrow> bool" where
  "stristr_end s t = (\<lambda>(p1, p2, r). length s \<le> p1 \<or> length t \<le> p2)"

definition stristr :: "string \<Rightarrow> string \<Rightarrow> nat option option" where
  "stristr s t = do {
     (p1, p2, r) \<leftarrow> while_option (\<lambda>x. \<not> stristr_end s t x) (stristr_step s t) (0, 0, if t = '''' then Some 0 else None);
     Some (if length t \<le> p2 then r else None) }"

text \<open>The parts of a string before and after the last occurrence of a character (\<open>strrchr\<close>).\<close>

definition split_last :: "char \<Rightarrow> string \<Rightarrow> (string \<times> string) option" where
  "split_last c s = (if c \<in> set s then
     Some (rev (tl (dropWhile (\<lambda>x. x \<noteq> c) (rev s))), rev (takeWhile (\<lambda>x. x \<noteq> c) (rev s))) else None)"

definition before_last :: "char \<Rightarrow> string \<Rightarrow> string" where
  "before_last c s = (case split_last c s of None \<Rightarrow> s | Some (a, b) \<Rightarrow> a)"

definition after_last :: "char \<Rightarrow> string \<Rightarrow> string" where
  "after_last c s = (case split_last c s of None \<Rightarrow> s | Some (a, b) \<Rightarrow> b)"

datatype file_type = FILE_TYPE_BIN | FILE_TYPE_HEX | FILE_TYPE_BIT

text \<open>\<open>junk\<close> is what the 32 bytes of the buffer hold at first: nothing is stored for an empty extension.\<close>

definition file_type_from_ext :: "string \<Rightarrow> string \<Rightarrow> file_type" where
  "file_type_from_ext junk file_name = (case split_last CHR ''.'' file_name of
     None \<Rightarrow> FILE_TYPE_BIN
   | Some (_, ext) \<Rightarrow>
       let buffer = (if ext = '''' then takeWhile (\<lambda>c. c \<noteq> CHR 0x00) junk else take 31 (map tolower ext))
       in if buffer = ''hex'' \<or> buffer = ''mcs'' then FILE_TYPE_HEX
          else if buffer = ''bit'' then FILE_TYPE_BIT
          else FILE_TYPE_BIN)"

section \<open>Flash in pieces\<close>

text \<open>
  The steps are \<open>int\<close>s made from 64 bit sizes. A long range is cut so that the pieces after the first start at
  a multiple of the step.
\<close>

definition fw_step :: "u64 \<Rightarrow> u64" where
  "fw_step sz = (if sz > 0x10000 then scast (ucast sz :: u32) else 0x10000)"

definition fw_seg :: "u64 \<Rightarrow> u64 \<Rightarrow> u64 \<Rightarrow> u64" where
  "fw_seg step addr remain =
    (if remain > step then
       if (addr + step) AND (step - 1) \<noteq> 0 then step - ((addr + step) AND (step - 1)) else step
     else remain)"

partial_function (option) flash_read_pieces ::
    "flash_device \<Rightarrow> u64 \<Rightarrow> u64 \<Rightarrow> u8 list \<Rightarrow> sys \<Rightarrow> (int \<times> u8 list \<times> sys) option" where
  "flash_read_pieces fdev addr remain dest s =
    (if remain = 0 then Some (0, dest, s)
     else let seg = fw_seg 0x10000 addr remain in do {
       (ret, bs, s) \<leftarrow> flash_read (Some fdev) addr (unat seg) s;
       if ret \<noteq> 0 then Some (ret, dest @ bs, s)
       else flash_read_pieces fdev (addr + seg) (remain - seg) (dest @ bs) s })"

definition flash_read_progress :: "flash_device \<Rightarrow> u64 \<Rightarrow> u64 \<Rightarrow> sys \<Rightarrow> (int \<times> u8 list \<times> sys) option" where
  "flash_read_progress fdev addr len s = flash_read_pieces fdev addr len [] s"

partial_function (option) flash_write_pieces ::
    "u64 \<Rightarrow> flash_device \<Rightarrow> u64 \<Rightarrow> u64 \<Rightarrow> u8 list \<Rightarrow> sys \<Rightarrow> (int \<times> sys) option" where
  "flash_write_pieces step fdev addr remain src s =
    (if remain = 0 then Some (0, s)
     else let seg = fw_seg step addr remain in
       if length src < unat seg then None
       else do {
         (ret, s) \<leftarrow> flash_write (Some fdev) addr (take (unat seg) src) s;
         if ret \<noteq> 0 then Some (ret, s)
         else flash_write_pieces step fdev (addr + seg) (remain - seg) (drop (unat seg) src) s })"

definition flash_write_progress :: "flash_device \<Rightarrow> u64 \<Rightarrow> u64 \<Rightarrow> u8 list \<Rightarrow> sys \<Rightarrow> (int \<times> sys) option" where
  "flash_write_progress fdev addr len src s = flash_write_pieces (fw_step (fl_write_buffer_size fdev)) fdev addr len src s"

partial_function (option) flash_erase_pieces ::
    "u64 \<Rightarrow> flash_device \<Rightarrow> u64 \<Rightarrow> u64 \<Rightarrow> sys \<Rightarrow> (int \<times> sys) option" where
  "flash_erase_pieces step fdev addr remain s =
    (if remain = 0 then Some (0, s)
     else let seg = fw_seg step addr remain in do {
       (ret, s) \<leftarrow> flash_erase (Some fdev) addr seg s;
       if ret \<noteq> 0 then Some (ret, s)
       else flash_erase_pieces step fdev (addr + seg) (remain - seg) s })"

definition flash_erase_progress :: "flash_device \<Rightarrow> u64 \<Rightarrow> u64 \<Rightarrow> sys \<Rightarrow> (int \<times> sys) option" where
  "flash_erase_progress fdev addr len s = flash_erase_pieces (fw_step (fl_erase_block_size fdev)) fdev addr len s"

section \<open>Programming\<close>

text \<open>A buffer from the heap, which the tool does not check for null before it fills it.\<close>

definition fw_alloc :: "u64 \<Rightarrow> sys \<Rightarrow> (int \<times> sys) option" where
  "fw_alloc n s = (case kcall ''calloc'' [uint n, 1] s of (p, s) \<Rightarrow> if p = 0 then None else Some (p, s))"

definition fw_free :: "int \<Rightarrow> sys \<Rightarrow> sys" where
  "fw_free p s = kvoid ''free'' [p] s"

text \<open>What is read into a buffer of \<open>n\<close> bytes that were set to \<open>x\<close>.\<close>

definition into_buffer :: "u8 \<Rightarrow> u64 \<Rightarrow> u8 list \<Rightarrow> u8 list option" where
  "into_buffer x n bs = (if length bs \<le> unat n then Some (bs @ replicate (unat n - length bs) x) else None)"

definition round_to_block :: "flash_device \<Rightarrow> u64 \<Rightarrow> u64 \<Rightarrow> u64" where
  "round_to_block fdev start len =
    (if (start + len) AND (fl_erase_block_size fdev - 1) \<noteq> 0
     then len + (fl_erase_block_size fdev - ((start + len) AND (fl_erase_block_size fdev - 1))) else len)"

text \<open>Comparing a range with what was read back; outside of the buffers it is a fault.\<close>

definition mem_differs :: "u8 list \<Rightarrow> u8 list \<Rightarrow> nat \<Rightarrow> bool option" where
  "mem_differs a b n = (if n \<le> length a \<and> n \<le> length b then Some (take n a \<noteq> take n b) else None)"

text \<open>\<open>Inl\<close>: the tool stops with this result; \<open>Inr\<close>: it goes on.\<close>

definition program_single :: "flash_device \<Rightarrow> u64 \<Rightarrow> u64 \<Rightarrow> u8 list \<Rightarrow> u64 \<Rightarrow> sys \<Rightarrow> ((int + int) \<times> sys) option" where
  "program_single fdev segment_offset segment_size segment len s = (let len = round_to_block fdev segment_offset len in do {
     (r, s) \<leftarrow> flash_erase_progress fdev segment_offset len s;
     if r \<noteq> 0 then Some (Inl (- 1), s)
     else do {
       (r, s) \<leftarrow> flash_write_progress fdev segment_offset len segment s;
       if r \<noteq> 0 then Some (Inl (- 1), s)
       else do {
         (p, s) \<leftarrow> fw_alloc segment_size s;
         (_, bs, s) \<leftarrow> flash_read_progress fdev segment_offset len s;
         check_buf \<leftarrow> into_buffer 0xff segment_size bs;
         differs \<leftarrow> mem_differs segment check_buf (unat len);
         Some (Inr (if differs then - 1 else 0), fw_free p s) } } })"

text \<open>
  Two serial flashes side by side: the first \<open>0x68\<close> bytes go to the first flash alone, and of each two bytes after
  them the low nibbles go to the first flash and the high nibbles to the second.
\<close>

definition dual_offset :: nat where "dual_offset = 0x68"

definition pri_nibbles :: "u8 \<Rightarrow> u8 \<Rightarrow> u8" where
  "pri_nibbles x y = (y AND 0x0f) OR (push_bit 4 x AND 0xf0)"

definition sec_nibbles :: "u8 \<Rightarrow> u8 \<Rightarrow> u8" where
  "sec_nibbles x y = (drop_bit 4 y AND 0x0f) OR (x AND 0xf0)"

definition first_byte :: "u8 \<Rightarrow> u8 \<Rightarrow> u8" where
  "first_byte c1 c2 = (drop_bit 4 c1 AND 0x0f) OR (c2 AND 0xf0)"

definition second_byte :: "u8 \<Rightarrow> u8 \<Rightarrow> u8" where
  "second_byte c1 c2 = (c1 AND 0x0f) OR (push_bit 4 c2 AND 0xf0)"

text \<open>The rounds of \<open>for (k = offset; k < segment_size - offset; k += 2)\<close>, and that what they touch is in the buffers.\<close>

definition dual_rounds :: "u64 \<Rightarrow> nat" where
  "dual_rounds segment_size =
    (unat (segment_size - word_of_nat dual_offset) - dual_offset + 1) div 2"

definition dual_in_bounds :: "u64 \<Rightarrow> bool" where
  "dual_in_bounds segment_size \<longleftrightarrow> dual_offset + dual_rounds segment_size \<le> unat (segment_size div 2) \<and>
     dual_offset + 2 * dual_rounds segment_size \<le> unat segment_size"

definition dual_split :: "u64 \<Rightarrow> u8 list \<Rightarrow> (u8 list \<times> u8 list) option" where
  "dual_split segment_size segment =
    (if dual_in_bounds segment_size then
       let n = dual_rounds segment_size;
           rest = replicate (unat (segment_size div 2) - (dual_offset + n)) 0xff;
           xy = (\<lambda>f. map (\<lambda>i. f (segment ! (dual_offset + 2 * i)) (segment ! (dual_offset + 2 * i + 1))) [0..<n])
       in Some (take dual_offset segment @ xy pri_nibbles @ rest, replicate dual_offset 0xff @ xy sec_nibbles @ rest)
     else None)"

definition dual_merge :: "u64 \<Rightarrow> u8 list \<Rightarrow> u8 list \<Rightarrow> u8 list option" where
  "dual_merge segment_size pri_buf sec_buf =
    (if dual_in_bounds segment_size then
       let n = dual_rounds segment_size
       in Some (take dual_offset pri_buf @
         concat (map (\<lambda>i. [first_byte (pri_buf ! (dual_offset + i)) (sec_buf ! (dual_offset + i)),
           second_byte (pri_buf ! (dual_offset + i)) (sec_buf ! (dual_offset + i))]) [0..<n]) @
         replicate (unat segment_size - (dual_offset + 2 * n)) 0xff)
     else None)"

definition dual_len :: "u64 \<Rightarrow> u64 \<Rightarrow> u64" where
  "dual_len segment_size len = (let l = (len - word_of_nat dual_offset) div 2 + word_of_nat dual_offset
     in if l > segment_size div 2 then segment_size div 2 else l)"

definition SYNC_WORD :: "u8 list" where "SYNC_WORD = [0xAA, 0x99, 0x55, 0x66]"

definition sync_at :: "u8 list \<Rightarrow> nat \<Rightarrow> bool option" where
  "sync_at segment p = (if p + 4 \<le> length segment then Some (take 4 (drop p segment) = SYNC_WORD) else None)"

text \<open>Steps that stop the tool with \<open>-1\<close> when they fail.\<close>

definition then_ok :: "(int \<times> sys) option \<Rightarrow> (sys \<Rightarrow> (int \<times> sys) option) \<Rightarrow> (int \<times> sys) option" where
  "then_ok m f = do { (r, s) \<leftarrow> m; if r \<noteq> 0 then Some (- 1, s) else f s }"

text \<open>
  When the verification fails, the differences are listed for as many bytes as the image has, which is more
  than the buffers may hold.
\<close>

definition program_dual ::
    "flash_device \<Rightarrow> flash_device \<Rightarrow> u64 \<Rightarrow> u64 \<Rightarrow> u8 list \<Rightarrow> u64 \<Rightarrow> sys \<Rightarrow> ((int + int) \<times> sys) option" where
  "program_dual pri sec segment_offset segment_size segment len s = do {
     ok \<leftarrow> sync_at segment 0x70;
     if \<not> ok then Some (Inl (- 1), s)
     else do {
       (p1, s) \<leftarrow> fw_alloc (segment_size div 2) s;
       (p2, s) \<leftarrow> fw_alloc (segment_size div 2) s;
       (pri_buf, sec_buf) \<leftarrow> dual_split segment_size segment;
       let off = segment_offset div 2;
       let n = round_to_block pri off (dual_len segment_size len);
       (r, s) \<leftarrow> then_ok (flash_erase_progress pri off n s) (\<lambda>s.
                  then_ok (flash_erase_progress sec off n s) (\<lambda>s.
                  then_ok (flash_write_progress pri off n pri_buf s) (flash_write_progress sec off n sec_buf)));
       if r \<noteq> 0 then Some (Inl (- 1), fw_free p2 (fw_free p1 s))
       else do {
         (c1, s) \<leftarrow> fw_alloc (segment_size div 2) s;
         (c2, s) \<leftarrow> fw_alloc (segment_size div 2) s;
         (_, bs, s) \<leftarrow> flash_read_progress pri off n s;
         pri_check \<leftarrow> into_buffer 0xff (segment_size div 2) bs;
         (_, bs, s) \<leftarrow> flash_read_progress sec off n s;
         sec_check \<leftarrow> into_buffer 0xff (segment_size div 2) bs;
         d1 \<leftarrow> mem_differs pri_buf pri_check (unat n);
         d2 \<leftarrow> mem_differs sec_buf sec_check (unat n);
         if (d1 \<or> d2) \<and> unat len > unat (segment_size div 2) then None
         else Some (Inr (if d1 \<or> d2 then - 1 else 0), fw_free p2 (fw_free p1 (fw_free c2 (fw_free c1 s)))) } } }"

end
