(* ===== verification/FwMain.thy ===== *)
theory FwMain
  imports FwTool
begin

text \<open>
  The firmware tool's main function (\<open>utils/mqnic-fw.c\<close>): the image that is programmed, the flash and its
  segments, and restarting the board through the files of its PCIe device.
\<close>

text \<open>
  What the tool finds in the system: the paths that \<open>realpath\<close> resolves, the files it is given, the bytes its
  uninitialised buffers hold and \<open>PATH_MAX\<close>.
\<close>

record fw_env =
  fe_realpath :: "string \<Rightarrow> string option"
  fe_file :: "string \<Rightarrow> u8 list"
  fe_junk :: string
  fe_pci_junk :: "u8 list"
  fe_path_max :: nat

section \<open>The image\<close>

text \<open>A string in a buffer, up to its zero.\<close>

definition c_string :: "u8 list \<Rightarrow> nat \<Rightarrow> string option" where
  "c_string buf p = (if 0 \<in> set (drop p buf)
     then Some (map (\<lambda>b. char_of (unat b)) (takeWhile (\<lambda>b. b \<noteq> 0) (drop p buf))) else None)"

text \<open>The whole segment with the image at its start, and the length of the image; \<open>None\<close> inside: an error.\<close>

definition load_bin :: "u8 list \<Rightarrow> u64 \<Rightarrow> sys \<Rightarrow> ((u8 list \<times> u64) option \<times> sys) option" where
  "load_bin contents segment_size s = (case kcall ''fopen'' [] s of (fp, s) \<Rightarrow>
     if fp = 0 then Some (None, s)
     else
       let s = kvoid ''rewind'' [fp] (kvoid ''ftell'' [fp] (kvoid ''fseek'' [fp] s));
           len = word_of_nat (length contents)
       in if len > segment_size then Some (None, kvoid ''fclose'' [fp] s)
          else case kcall ''fread'' [uint len, fp] s of (n, s) \<Rightarrow>
            if n < uint len then Some (None, kvoid ''fclose'' [fp] s)
            else do {
              segment \<leftarrow> into_buffer 0xff segment_size (take (unat len) contents);
              Some (Some (segment, len), kvoid ''fclose'' [fp] s) })"

definition load_bit :: "u8 list \<Rightarrow> string \<Rightarrow> u64 \<Rightarrow> sys \<Rightarrow> ((u8 list \<times> u64) option \<times> sys) option" where
  "load_bit contents fpga_part segment_size s = do {
     (b, s) \<leftarrow> bitfile_create_from_file contents s;
     (case b of
        None \<Rightarrow> Some (None, s)
      | Some bf \<Rightarrow> do {
          p \<leftarrow> bf_part bf;
          part \<leftarrow> c_string contents p;
          found \<leftarrow> stristr part fpga_part;
          if found \<noteq> Some 0 then Some (None, bitfile_close b s)
          else if bf_data_len bf > unat segment_size then Some (None, bitfile_close b s)
          else do {
            d \<leftarrow> bf_data bf;
            if d + bf_data_len bf > length contents then None
            else do {
              segment \<leftarrow> into_buffer 0xff segment_size (take (bf_data_len bf) (drop d contents));
              Some (Some (segment, word_of_nat (bf_data_len bf)), bitfile_close b s) } } }) }"

definition load_image :: "fw_env \<Rightarrow> string \<Rightarrow> string \<Rightarrow> u64 \<Rightarrow> sys \<Rightarrow> ((u8 list \<times> u64) option \<times> sys) option" where
  "load_image env name fpga_part segment_size s = (case file_type_from_ext (fe_junk env) name of
     FILE_TYPE_BIN \<Rightarrow> load_bin (fe_file env name) segment_size s
   | FILE_TYPE_BIT \<Rightarrow> load_bit (fe_file env name) fpga_part segment_size s
   | FILE_TYPE_HEX \<Rightarrow> Some (None, s))"

section \<open>The flash and its segments\<close>

record fw_flash =
  ff_pri :: "flash_device option"
  ff_sec :: "flash_device option"
  ff_bitswap :: bool
  ff_word_size :: nat
  ff_dual :: bool
  ff_size :: u64

definition no_flash :: fw_flash where
  "no_flash = \<lparr>ff_pri = None, ff_sec = None, ff_bitswap = False, ff_word_size = 8, ff_dual = False, ff_size = 0\<rparr>"

definition REG_FPGA_ID :: addr where "REG_FPGA_ID = 0x0040"
definition REG_FLASH_ID :: addr where "REG_FLASH_ID = 0x0140"
definition REG_FLASH_BPI_ADDR :: addr where "REG_FLASH_BPI_ADDR = 0x0144"
definition REG_FLASH_BPI_DATA :: addr where "REG_FLASH_BPI_DATA = 0x0148"
definition REG_FLASH_BPI_CTRL :: addr where "REG_FLASH_BPI_CTRL = 0x014c"
definition REG_FLASH_SPI_0_CTRL :: addr where "REG_FLASH_SPI_0_CTRL = 0x0144"
definition REG_FLASH_SPI_1_CTRL :: addr where "REG_FLASH_SPI_1_CTRL = 0x0148"

definition fw_open_spi :: "u8 \<Rightarrow> addr \<Rightarrow> sys \<Rightarrow> (bool \<times> fw_flash \<times> sys) option" where
  "fw_open_spi data_width regs s =
    (if data_width > 4 then do {
       (pri, s) \<leftarrow> flash_open_spi 4 (regs + REG_FLASH_SPI_0_CTRL) s;
       (sec, s) \<leftarrow> flash_open_spi 4 (regs + REG_FLASH_SPI_1_CTRL) s;
       let fl = no_flash\<lparr>ff_pri := pri, ff_sec := sec, ff_dual := True\<rparr>;
       Some (case (pri, sec) of
           (Some p, Some q) \<Rightarrow> (True, fl\<lparr>ff_size := fl_size p + fl_size q\<rparr>, s)
         | _ \<Rightarrow> (False, fl, s)) }
     else do {
       (pri, s) \<leftarrow> flash_open_spi (uint data_width) (regs + REG_FLASH_SPI_0_CTRL) s;
       Some (case pri of
           Some p \<Rightarrow> (True, no_flash\<lparr>ff_pri := pri, ff_size := fl_size p\<rparr>, s)
         | None \<Rightarrow> (False, no_flash, s)) })"

definition fw_open_bpi :: "u8 \<Rightarrow> addr \<Rightarrow> sys \<Rightarrow> (bool \<times> fw_flash \<times> sys) option" where
  "fw_open_bpi data_width regs s = do {
     (pri, s) \<leftarrow> flash_open_bpi (uint data_width) (regs + REG_FLASH_BPI_CTRL) (regs + REG_FLASH_BPI_ADDR) (regs + REG_FLASH_BPI_DATA) s;
     let fl = no_flash\<lparr>ff_bitswap := True, ff_word_size := (if data_width = 16 then 16 else 8)\<rparr>;
     Some (case pri of
         Some p \<Rightarrow> (True, fl\<lparr>ff_pri := pri, ff_size := fl_size p\<rparr>, s)
       | None \<Rightarrow> (False, fl, s)) }"

definition fw_open_flash :: "u32 \<Rightarrow> addr \<Rightarrow> sys \<Rightarrow> (bool \<times> fw_flash \<times> sys) option" where
  "fw_open_flash flash_id regs s = (let flash_type = ucast flash_id :: u8; data_width = ucast (drop_bit 16 flash_id) :: u8
     in if flash_type = 0 \<or> flash_type = 2 then fw_open_spi data_width regs s
        else if flash_type = 1 then fw_open_bpi data_width regs s
        else Some (False, no_flash, s))"

text \<open>Start and length of each segment; \<open>None\<close> for a configuration that is not known or does not fit.\<close>

fun equal_segments :: "nat \<Rightarrow> u64 \<Rightarrow> u64 \<Rightarrow> (u64 \<times> u64) list" where
  "equal_segments 0 start len = []"
| "equal_segments (Suc n) start len = (start, len) # equal_segments n (start + len) len"

definition flash_segments :: "u8 \<Rightarrow> u64 \<Rightarrow> (u64 \<times> u64) list option" where
  "flash_segments configuration flash_size =
    (if configuration = 0 \<or> configuration = 1 then Some [(0, flash_size)]
     else if configuration = 2 then Some (equal_segments 2 0 (drop_bit 1 flash_size))
     else if configuration = 4 then Some (equal_segments 4 0 (drop_bit 2 flash_size))
     else if configuration = 8 then Some (equal_segments 8 0 (drop_bit 3 flash_size))
     else if configuration = 0x81 then
       (if flash_size < 0x01002000 then None
        else Some [(0, 0x01002000), (0x01002000, flash_size - 0x01002000)])
     else None)"

definition choose_slot :: "int \<Rightarrow> nat \<Rightarrow> int" where
  "choose_slot slot n = (if slot < 0 then if n > 1 then 1 else 0 else slot)"

section \<open>Writing and reading a segment\<close>

definition fw_write :: "fw_env \<Rightarrow> string \<Rightarrow> string \<Rightarrow> fw_flash \<Rightarrow> u64 \<Rightarrow> u64 \<Rightarrow> sys \<Rightarrow> ((int + int) \<times> sys) option" where
  "fw_write env name fpga_part fl segment_offset segment_size s = do {
     (seg, s) \<leftarrow> fw_alloc segment_size s;
     (img, s) \<leftarrow> load_image env name fpga_part segment_size s;
     (case img of
        None \<Rightarrow> Some (Inl (- 1), fw_free seg s)
      | Some (segment, len) \<Rightarrow> do {
          ok \<leftarrow> sync_at segment 0x50;
          if \<not> ok then Some (Inl (- 1), fw_free seg s)
          else do {
            segment \<leftarrow> (if ff_bitswap fl then swap_bits (ff_word_size fl) segment else Some segment);
            pri \<leftarrow> ff_pri fl;
            if ff_dual fl then do {
              sec \<leftarrow> ff_sec fl;
              (r, s) \<leftarrow> program_dual pri sec segment_offset segment_size segment len s;
              Some (r, fw_free seg s) }
            else do {
              (r, s) \<leftarrow> program_single pri segment_offset segment_size segment len s;
              Some (r, fw_free seg s) } } }) }"

text \<open>What reading returns is not checked, nor is whether the output file could be opened.\<close>

definition fw_read_segment :: "fw_flash \<Rightarrow> u64 \<Rightarrow> u64 \<Rightarrow> sys \<Rightarrow> (u8 list \<times> sys) option" where
  "fw_read_segment fl segment_offset segment_size s = do {
     pri \<leftarrow> ff_pri fl;
     (segment, s) \<leftarrow> (if ff_dual fl then do {
         sec \<leftarrow> ff_sec fl;
         (p1, s) \<leftarrow> fw_alloc (segment_size div 2) s;
         (p2, s) \<leftarrow> fw_alloc (segment_size div 2) s;
         (_, bs, s) \<leftarrow> flash_read_progress pri (segment_offset div 2) (segment_size div 2) s;
         pri_buf \<leftarrow> into_buffer 0 (segment_size div 2) bs;
         (_, bs, s) \<leftarrow> flash_read_progress sec (segment_offset div 2) (segment_size div 2) s;
         sec_buf \<leftarrow> into_buffer 0 (segment_size div 2) bs;
         segment \<leftarrow> dual_merge segment_size pri_buf sec_buf;
         Some (segment, fw_free p2 (fw_free p1 s)) }
       else do {
         (_, bs, s) \<leftarrow> flash_read_progress pri segment_offset segment_size s;
         segment \<leftarrow> into_buffer 0xff segment_size bs;
         Some (segment, s) });
     segment \<leftarrow> (if ff_bitswap fl then swap_bits (ff_word_size fl) segment else Some segment);
     Some (segment, s) }"

definition fw_read :: "fw_env \<Rightarrow> string \<Rightarrow> fw_flash \<Rightarrow> u64 \<Rightarrow> u64 \<Rightarrow> sys \<Rightarrow> ((int + unit) \<times> sys) option" where
  "fw_read env name fl segment_offset segment_size s = do {
     (seg, s) \<leftarrow> fw_alloc segment_size s;
     (segment, s) \<leftarrow> fw_read_segment fl segment_offset segment_size s;
     if file_type_from_ext (fe_junk env) name = FILE_TYPE_BIN then
       (case kcall ''fopen'' (codes name) s of (fp, s) \<Rightarrow>
          if fp = 0 then None
          else Some (Inr (), fw_free seg (kvoid ''fclose'' [fp] (kvoid ''fwrite'' (fp # map uint segment) s))))
     else Some (Inl (- 1), fw_free seg s) }"

section \<open>Configuration space\<close>

text \<open>
  A positioned read of a file fills the start of the buffer unless it fails; the bytes are those of the answer,
  lowest first. A positioned write hands over the bytes after the descriptor and the offset.
\<close>

definition int_bytes :: "nat \<Rightarrow> int \<Rightarrow> u8 list" where
  "int_bytes n v = map (\<lambda>i. word_of_int (v div 256 ^ i)) [0..<n]"

definition pread :: "u8 list \<Rightarrow> int \<Rightarrow> nat \<Rightarrow> int \<Rightarrow> sys \<Rightarrow> u8 list \<times> sys" where
  "pread buf fd n offset s = (case kcall ''pread'' [fd, int n, offset] s of (v, s) \<Rightarrow>
     (if v < 0 then buf else int_bytes n v @ drop n buf, s))"

definition pwrite :: "int \<Rightarrow> u8 list \<Rightarrow> int \<Rightarrow> sys \<Rightarrow> sys" where
  "pwrite fd bs offset s = kvoid ''pwrite'' (fd # offset # map uint bs) s"

abbreviation (input) PCI_COMMAND :: int where "PCI_COMMAND \<equiv> 0x04"
abbreviation (input) PCI_COMMAND_SERR :: u16 where "PCI_COMMAND_SERR \<equiv> 0x100"
abbreviation (input) PCI_CAPABILITY_LIST :: int where "PCI_CAPABILITY_LIST \<equiv> 0x34"
abbreviation (input) PCI_CAP_ID_EXP :: u8 where "PCI_CAP_ID_EXP \<equiv> 0x10"
abbreviation (input) PCI_EXP_DEVCTL :: int where "PCI_EXP_DEVCTL \<equiv> 8"
abbreviation (input) PCI_EXP_DEVCTL_FERE :: u8 where "PCI_EXP_DEVCTL_FERE \<equiv> 4"
abbreviation (input) PCI_BRIDGE_CONTROL :: int where "PCI_BRIDGE_CONTROL \<equiv> 0x3e"
abbreviation (input) PCI_BRIDGE_CTL_BUS_RESET :: u8 where "PCI_BRIDGE_CTL_BUS_RESET \<equiv> 0x40"

text \<open>An open that fails gives a negative descriptor, which is not the zero the code looks for.\<close>

definition pcie_hot_reset :: "u8 list \<Rightarrow> string \<Rightarrow> sys \<Rightarrow> int \<times> sys" where
  "pcie_hot_reset buf port_path s = (case kcall ''open'' (codes (port_path @ ''/config'')) s of (fd, s) \<Rightarrow>
     if fd = 0 then (- 1, s)
     else case pread buf fd 2 PCI_BRIDGE_CONTROL s of (buf, s) \<Rightarrow>
       let s = pwrite fd [buf ! 0 OR PCI_BRIDGE_CTL_BUS_RESET, buf ! 1] PCI_BRIDGE_CONTROL s;
           s = kvoid ''usleep'' [10000] s;
           s = pwrite fd [buf ! 0, buf ! 1] PCI_BRIDGE_CONTROL s
       in (0, kvoid ''close'' [fd] s))"

text \<open>The search of the capability list does not end when the list is circular.\<close>

partial_function (option) find_cap :: "u8 list \<Rightarrow> int \<Rightarrow> u8 \<Rightarrow> sys \<Rightarrow> (u8 \<times> u8 list \<times> sys) option" where
  "find_cap buf fd offset s =
    (if offset = 0 then Some (offset, buf, s)
     else case pread buf fd 2 (uint offset) s of (buf, s) \<Rightarrow>
       if buf ! 0 = PCI_CAP_ID_EXP then Some (offset, buf, s)
       else find_cap buf fd (buf ! 1 AND 0xfc) s)"

definition pcie_disable_fatal_err :: "u8 list \<Rightarrow> string \<Rightarrow> sys \<Rightarrow> (int \<times> sys) option" where
  "pcie_disable_fatal_err buf port_path s = (case kcall ''open'' (codes (port_path @ ''/config'')) s of (fd, s) \<Rightarrow>
     if fd = 0 then Some (- 1, s)
     else case pread buf fd 2 PCI_COMMAND s of (buf, s) \<Rightarrow>
       let buf = buf[1 := buf ! 1 AND NOT (ucast (drop_bit 8 PCI_COMMAND_SERR))];
           s = pwrite fd [buf ! 0, buf ! 1] PCI_COMMAND s
       in case pread buf fd 1 PCI_CAPABILITY_LIST s of (buf, s) \<Rightarrow> do {
         (offset, buf, s) \<leftarrow> find_cap buf fd (buf ! 0 AND 0xfc) s;
         let s = (if offset = 0 then s
                  else case pread buf fd 2 (uint offset + PCI_EXP_DEVCTL) s of (buf, s) \<Rightarrow>
                    pwrite fd [buf ! 0 AND NOT PCI_EXP_DEVCTL_FERE, buf ! 1] (uint offset + PCI_EXP_DEVCTL) s);
         Some (0, kvoid ''close'' [fd] s) })"

section \<open>Restarting the board\<close>

definition write_str_to_file :: "string \<Rightarrow> string \<Rightarrow> sys \<Rightarrow> int \<times> sys" where
  "write_str_to_file file_name str s = (case kcall ''fopen'' (codes file_name) s of (fp, s) \<Rightarrow>
     if fp = 0 then (- 1, s)
     else case kcall ''fputs'' (fp # codes str) s of (r, s) \<Rightarrow>
       (if r = - 1 then - 1 else 0, kvoid ''fclose'' [fp] s))"

definition write_1_to_file :: "string \<Rightarrow> sys \<Rightarrow> int \<times> sys" where
  "write_1_to_file file_name s = write_str_to_file file_name ''1'' s"

definition accessible :: "string \<Rightarrow> sys \<Rightarrow> bool \<times> sys" where
  "accessible path s = (case kcall ''access'' (codes path) s of (r, s) \<Rightarrow> (r \<noteq> - 1, s))"

text \<open>The loop counts down from five, and looks for \<open>tries > 0\<close> in its body.\<close>

fun reset_loop :: "fw_env \<Rightarrow> string \<Rightarrow> string \<Rightarrow> nat \<Rightarrow> sys \<Rightarrow> int \<times> sys" where
  "reset_loop env device_path port_path 0 s = (0, s)"
| "reset_loop env device_path port_path (Suc n) s = (case pcie_hot_reset (fe_pci_junk env) port_path s of (_, s) \<Rightarrow>
     case write_1_to_file (port_path @ ''/rescan'') (kvoid ''sleep'' [2] s) of (r, s) \<Rightarrow>
     if r \<noteq> 0 then (- 1, s)
     else case accessible (device_path @ ''/config'') s of (online, s) \<Rightarrow>
       if online then (0, s)
       else if Suc n > 0 then reset_loop env device_path port_path n s
       else (- 1, s))"

definition fw_unbind :: "string \<Rightarrow> sys \<Rightarrow> sys" where
  "fw_unbind device_path s = (case split_last CHR ''/'' device_path of
     None \<Rightarrow> s
   | Some (_, name) \<Rightarrow> (case accessible (device_path @ ''/driver/unbind'') s of (bound, s) \<Rightarrow>
       if bound then snd (write_str_to_file (device_path @ ''/driver/unbind'') name s) else s))"

text \<open>Loading the FPGA from its flash: the device is opened once more, through its PCIe resource.\<close>

definition fw_iprog :: "fw_env \<Rightarrow> string \<Rightarrow> sys \<Rightarrow> (int \<times> sys) option" where
  "fw_iprog env device_path s = do {
     (dev, s) \<leftarrow> util_open (fe_path_max env) (device_path @ ''/resource0'') s;
     (case dev of
        None \<Rightarrow> Some (- 1, s)
      | Some d \<Rightarrow> do {
          s \<leftarrow> util_close dev (iowrite32 0xFEE1DEAD (ud_regs d + REG_FPGA_ID) s);
          Some (0, s) }) }"

definition fw_restart :: "fw_env \<Rightarrow> bool \<Rightarrow> string \<Rightarrow> string \<Rightarrow> sys \<Rightarrow> (int \<times> sys) option" where
  "fw_restart env boot device_path port_path s =
    then_ok (if boot then fw_iprog env device_path (kvoid ''sleep'' [1] (fw_unbind device_path s))
             else Some (0, kvoid ''sleep'' [1] (fw_unbind device_path s))) (\<lambda>s.
    case write_1_to_file (device_path @ ''/remove'') s of (r, s) \<Rightarrow>
      if r \<noteq> 0 then Some (- 1, s)
      else let s = (if boot then kvoid ''sleep'' [4] s else s)
        in Some (reset_loop env device_path port_path 5 (kvoid ''sleep'' [1] s)))"

section \<open>The command\<close>

record fw_opts =
  fo_device :: "string option"
  fo_slot :: int
  fo_read :: "string option"
  fo_write :: "string option"
  fo_boot :: bool
  fo_reset :: bool

definition no_opts :: fw_opts where
  "no_opts = \<lparr>fo_device = None, fo_slot = - 1, fo_read = None, fo_write = None, fo_boot = False, fo_reset = False\<rparr>"

text \<open>The number a string starts with (\<open>atoi\<close>).\<close>

definition is_digit :: "char \<Rightarrow> bool" where
  "is_digit c \<longleftrightarrow> 48 \<le> (of_char c :: nat) \<and> (of_char c :: nat) \<le> 57"

definition digits_value :: "string \<Rightarrow> int" where
  "digits_value s = foldl (\<lambda>n c. 10 * n + (of_char c - 48)) 0 (takeWhile is_digit s)"

definition atoi :: "string \<Rightarrow> int" where
  "atoi s = (case dropWhile (\<lambda>c. c = CHR '' '' \<or> 9 \<le> (of_char c :: nat) \<and> (of_char c :: nat) \<le> 13) s of
     [] \<Rightarrow> 0
   | c # cs \<Rightarrow> if c = CHR ''-'' then - digits_value cs
       else if c = CHR ''+'' then digits_value cs else digits_value (c # cs))"

text \<open>The options \<open>getopt\<close> finds, in order; \<open>Inl\<close> is the result of a command that ends here.\<close>

fun parse_opts :: "(char \<times> string) list \<Rightarrow> fw_opts \<Rightarrow> int + fw_opts" where
  "parse_opts [] opts = Inr opts"
| "parse_opts ((c, arg) # xs) opts =
    (if c = CHR ''d'' then parse_opts xs (opts\<lparr>fo_device := Some arg\<rparr>)
     else if c = CHR ''s'' then parse_opts xs (opts\<lparr>fo_slot := atoi arg\<rparr>)
     else if c = CHR ''r'' then parse_opts xs (opts\<lparr>fo_read := Some arg\<rparr>)
     else if c = CHR ''w'' then parse_opts xs (opts\<lparr>fo_write := Some arg\<rparr>)
     else if c = CHR ''b'' then parse_opts xs (opts\<lparr>fo_boot := True, fo_reset := True\<rparr>)
     else if c = CHR ''t'' then parse_opts xs (opts\<lparr>fo_reset := True\<rparr>)
     else if c = CHR ''h'' \<or> c = CHR ''?'' then Inl 0
     else Inl (- 1))"

text \<open>The device's directory under \<open>/sys\<close>: that of its misc device, or else the one the named file is in.\<close>

definition find_device :: "fw_env \<Rightarrow> string \<Rightarrow> sys \<Rightarrow> (string option \<times> sys) option" where
  "find_device env device s = do {
     let size_max = fe_path_max env + 32;
     d \<leftarrow> (case fe_realpath env (take (size_max - 1) (''/sys/class/misc/'' @ after_last CHR ''/'' device @ ''/device'')) of
         Some p \<Rightarrow> Some (Some p)
       | None \<Rightarrow> if size_max \<le> length device then None
                 else Some (fe_realpath env (before_last CHR ''/'' device)));
     (case d of
        None \<Rightarrow> Some (None, s)
      | Some p \<Rightarrow> (case accessible (p @ ''/config'') s of (ok, s) \<Rightarrow> Some (if ok then Some p else None, s))) }"

text \<open>Reading and writing the chosen segment. A slot that the table does not have is read from it all the same.\<close>

definition fw_actions :: "fw_env \<Rightarrow> fw_opts \<Rightarrow> string \<Rightarrow> fw_flash \<Rightarrow> (u64 \<times> u64) list \<Rightarrow> sys \<Rightarrow> ((int + int) \<times> sys) option" where
  "fw_actions env opts fpga_part fl segments s = (let slot = choose_slot (fo_slot opts) (length segments)
     in if (fo_read opts \<noteq> None \<or> fo_write opts \<noteq> None) \<and> (slot < 0 \<or> int (length segments) \<le> slot) then Some (Inl (- 1), s)
        else if int (length segments) \<le> slot then None
        else do {
          let (segment_offset, segment_size) = segments ! nat slot;
          (r, s) \<leftarrow> (case fo_write opts of None \<Rightarrow> Some (Inr 0, s)
                     | Some name \<Rightarrow> fw_write env name fpga_part fl segment_offset segment_size s);
          (case r of
             Inl e \<Rightarrow> Some (Inl e, s)
           | Inr e \<Rightarrow> (case fo_read opts of
               None \<Rightarrow> Some (Inr e, s)
             | Some name \<Rightarrow> do {
                 (r, s) \<leftarrow> fw_read env name fl segment_offset segment_size s;
                 Some (case r of Inl e \<Rightarrow> Inl e | Inr _ \<Rightarrow> Inr e, s) })) })"

text \<open>What concerns the flash, up to the label \<open>skip_flash\<close>; \<open>Inl\<close> jumps behind the restart.\<close>

definition fw_flash_part :: "fw_env \<Rightarrow> fw_opts \<Rightarrow> u_dev \<Rightarrow> sys \<Rightarrow> ((int + int) \<times> fw_flash \<times> sys) option" where
  "fw_flash_part env opts dev s =
    (case ioread32 (ud_regs dev + REG_FLASH_ID) s of (flash_id, s) \<Rightarrow>
     case ioread32 (ud_regs dev + REG_FPGA_ID) s of (fpga_id, s) \<Rightarrow> do {
       fpga_part \<leftarrow> get_fpga_part fpga_id;
       if flash_id = 0 \<or> flash_id = 0xffffffff \<or> fpga_id = 0 \<or> fpga_id = 0xffffffff then Some (Inr (- 1), no_flash, s)
       else do {
         (ok, fl, s) \<leftarrow> fw_open_flash flash_id (ud_regs dev) s;
         if \<not> ok then Some (Inr (- 1), fl, s)
         else (case flash_segments (ucast (drop_bit 8 flash_id)) (ff_size fl) of
             None \<Rightarrow> Some (Inr (- 1), fl, s)
           | Some segments \<Rightarrow> do {
               (r, s) \<leftarrow> fw_actions env opts fpga_part fl segments s;
               Some (r, fl, s) }) } })"

definition fw_release :: "fw_flash \<Rightarrow> sys \<Rightarrow> sys" where
  "fw_release fl s = flash_release (ff_sec fl) (flash_release (ff_pri fl) s)"

definition fw_skip_flash :: "fw_env \<Rightarrow> fw_opts \<Rightarrow> string \<Rightarrow> u_dev \<Rightarrow> int \<Rightarrow> fw_flash \<Rightarrow> sys \<Rightarrow> (int \<times> sys) option" where
  "fw_skip_flash env opts device_path dev ret fl s =
    (let s = fw_release fl s; port_path = before_last CHR ''/'' device_path
     in if ret \<noteq> 0 \<and> (fo_read opts \<noteq> None \<or> fo_write opts \<noteq> None) then do { s \<leftarrow> util_close (Some dev) s; Some (ret, s) }
        else if fo_boot opts \<or> fo_reset opts then do {
          (_, s) \<leftarrow> pcie_disable_fatal_err (fe_pci_junk env) port_path s;
          s \<leftarrow> util_close (Some dev) s;
          fw_restart env (fo_boot opts) device_path port_path s }
        else do { s \<leftarrow> util_close (Some dev) s; Some (0, s) })"

definition fw_main :: "fw_env \<Rightarrow> (char \<times> string) list \<Rightarrow> sys \<Rightarrow> (int \<times> sys) option" where
  "fw_main env args s = (case parse_opts args no_opts of
     Inl r \<Rightarrow> Some (r, s)
   | Inr opts \<Rightarrow> (case fo_device opts of
       None \<Rightarrow> Some (- 1, s)
     | Some device \<Rightarrow> do {
         (dev, s) \<leftarrow> util_open (fe_path_max env) device s;
         (case dev of
            None \<Rightarrow> Some (- 1, s)
          | Some d \<Rightarrow> do {
              (path, s) \<leftarrow> find_device env device s;
              (case path of
                 None \<Rightarrow> do { s \<leftarrow> util_close dev s; Some (- 1, s) }
               | Some device_path \<Rightarrow> do {
                   (r, fl, s) \<leftarrow> fw_flash_part env opts d s;
                   (case r of
                      Inl e \<Rightarrow> do { s \<leftarrow> util_close dev (fw_release fl s); Some (e, s) }
                    | Inr ret \<Rightarrow> fw_skip_flash env opts device_path d ret fl s) }) }) }))"

end
