(* ===== verification/FwProps.thy ===== *)
theory FwProps
  imports FwMain
begin

text \<open>
  What the firmware tool does to the flash and to the device: bits and strings against their specifications,
  ranges that are read, written and erased piece by piece as one, an image that is programmed against the
  reference flash, the two halves of a dual flash, the table of segments and the configuration space.
\<close>

section \<open>Bits\<close>

lemma bit_twice: "bit (x * 2 :: 'a::len word) n \<longleftrightarrow> 0 < n \<and> n < LENGTH('a) \<and> bit x (n - 1)"
proof -
  have "x * 2 = push_bit 1 x" by (simp add: push_bit_eq_mult)
  then show ?thesis by (simp only: bit_push_bit_iff possible_bit_word) auto
qed

lemma reverse_bits_8_bit:
  assumes "n < 8"
  shows "bit (reverse_bits_8 x) n = bit x (7 - n)"
proof -
  consider "n = 0" | "n = 1" | "n = 2" | "n = 3" | "n = 4" | "n = 5" | "n = 6" | "n = 7" using assms by linarith
  then show ?thesis by cases (simp_all add: reverse_bits_8_def Let_def bit_simps bit_numeral_rec bit_twice)
qed

lemma reverse_bits_16_bit:
  assumes "n < 16"
  shows "bit (reverse_bits_16 x) n = bit x (15 - n)"
proof -
  have "n \<in> {0, 1, 2, 3, 4, 5, 6, 7, 8, 9, 10, 11, 12, 13, 14, 15}" using assms by (simp, presburger)
  then show ?thesis by (elim insertE emptyE) (simp_all add: reverse_bits_16_def Let_def bit_simps bit_numeral_rec bit_twice)
qed

lemma reverse_bits_32_bit:
  assumes "n < 32"
  shows "bit (reverse_bits_32 x) n = bit x (31 - n)"
proof -
  have "n \<in> {0, 1, 2, 3, 4, 5, 6, 7, 8, 9, 10, 11, 12, 13, 14, 15, 16, 17, 18, 19, 20, 21, 22, 23, 24, 25, 26, 27, 28, 29, 30, 31}"
    using assms by (simp, presburger)
  then show ?thesis by (elim insertE emptyE) (simp_all add: reverse_bits_32_def Let_def bit_simps bit_numeral_rec bit_twice)
qed

lemma reverse_8_word: "reverse_bits_8 x = word_reverse x"
  by (rule bit_word_eqI) (simp add: reverse_bits_8_bit bit_word_reverse_iff)

lemma reverse_16_word: "reverse_bits_16 x = word_reverse x"
  by (rule bit_word_eqI) (simp add: reverse_bits_16_bit bit_word_reverse_iff)

lemma reverse_32_word: "reverse_bits_32 x = word_reverse x"
  by (rule bit_word_eqI) (simp add: reverse_bits_32_bit bit_word_reverse_iff)

lemma length_swap_words: "swap_words bs = Some cs \<Longrightarrow> length cs = length bs"
  by (induction bs arbitrary: cs rule: swap_words.induct) (auto simp: Let_def split: Option.bind_splits)

lemma word_bytes: "ucast (ucast w :: u8) OR push_bit 8 (ucast (ucast (drop_bit 8 w) :: u8)) = (w :: u16)"
  by (rule bit_word_eqI) (auto simp: bit_simps)

lemma byte_words: "ucast (ucast b OR push_bit 8 (ucast c) :: u16) = (b :: u8)" "ucast (drop_bit 8 (ucast b) OR drop_bit 8 (push_bit 8 (ucast c)) :: u16) = (c :: u8)"
  by (rule bit_word_eqI, auto simp: bit_simps dest: bit_imp_le_length)+

lemma swap_words_twice: "swap_words bs = Some cs \<Longrightarrow> swap_words cs = Some bs"
  by (induction bs arbitrary: cs rule: swap_words.induct)
    (auto simp: Let_def reverse_16_word word_bytes byte_words split: Option.bind_splits)

text \<open>Swapping the bits of a buffer for a parallel flash twice gives the buffer back.\<close>

lemma swap_bits_twice:
  assumes "swap_bits w bs = Some cs"
  shows "length cs = length bs \<and> swap_bits w cs = Some bs"
proof (cases "w = 16")
  case True
  then have s: "swap_words bs = Some cs" using assms by (simp add: swap_bits_def)
  then show ?thesis using length_swap_words [OF s] swap_words_twice [OF s] True by (simp add: swap_bits_def)
next
  case False
  then have "cs = map reverse_bits_8 bs" using assms by (simp add: swap_bits_def)
  moreover have "reverse_bits_8 \<circ> reverse_bits_8 = id" by (simp add: fun_eq_iff reverse_8_word)
  ultimately show ?thesis using False by (simp add: swap_bits_def)
qed

section \<open>Strings\<close>

definition occurs_at :: "string \<Rightarrow> string \<Rightarrow> nat \<Rightarrow> bool" where
  "occurs_at s t q \<longleftrightarrow> q + length t \<le> length s \<and> (\<forall>i<length t. tolower (s ! (q + i)) = tolower (t ! i))"

definition stristr_start :: "nat \<times> nat \<times> nat option \<Rightarrow> nat" where
  "stristr_start = (\<lambda>(p1, p2, r). case r of None \<Rightarrow> p1 | Some q \<Rightarrow> q)"

definition stristr_inv :: "string \<Rightarrow> string \<Rightarrow> nat \<times> nat \<times> nat option \<Rightarrow> bool" where
  "stristr_inv s t x = (case x of (p1, p2, r) \<Rightarrow> p1 = stristr_start x + p2 \<and> p1 \<le> length s \<and> p2 \<le> length t \<and>
     (r = None \<longrightarrow> p2 = 0) \<and> (r \<noteq> None \<longrightarrow> 0 < p2) \<and>
     (\<forall>i < p2. tolower (s ! (stristr_start x + i)) = tolower (t ! i)) \<and> (\<forall>q < stristr_start x. \<not> occurs_at s t q))"

lemma no_occurrence: "tolower (s ! (q + i)) \<noteq> tolower (t ! i) \<Longrightarrow> i < length t \<Longrightarrow> \<not> occurs_at s t q"
  by (auto simp: occurs_at_def)

lemma stristr_step_inv:
  assumes "stristr_inv s t x" "\<not> stristr_end s t x"
  shows "stristr_inv s t (stristr_step s t x)"
    "(case stristr_step s t x of (p1, p2, r) \<Rightarrow> (length s - stristr_start (p1, p2, r)) * Suc (length t) + (length t - p2)) <
     (case x of (p1, p2, r) \<Rightarrow> (length s - stristr_start x) * Suc (length t) + (length t - p2))"
proof -
  obtain p1 p2 r where x: "x = (p1, p2, r)" by (cases x)
  define m where "m = stristr_start x"
  have i: "p1 = m + p2" "p1 < length s" "p2 < length t" "r = None \<longrightarrow> p2 = 0" "r \<noteq> None \<longrightarrow> 0 < p2"
    "\<forall>i<p2. tolower (s ! (m + i)) = tolower (t ! i)" "\<forall>q<m. \<not> occurs_at s t q"
    using assms by (auto simp: stristr_inv_def stristr_end_def x m_def)
  have m: "m = (case r of None \<Rightarrow> p1 | Some q \<Rightarrow> q)" by (simp add: m_def x stristr_start_def)
  have mono: "(length s - m') * Suc (length t) + (length t - k) < (length s - m) * Suc (length t) + (length t - p2)" if "m < m'" for m' k
  proof -
    have "(length s - m') * Suc (length t) \<le> (length s - Suc m) * Suc (length t)"
      using that by (intro mult_le_mono1 diff_le_mono2) simp
    moreover have "length s - m = Suc (length s - Suc m)" using i(1,2) by simp
    then have "(length s - m) * Suc (length t) = Suc (length t) + (length s - Suc m) * Suc (length t)"
      by (simp only: mult_Suc)
    ultimately show ?thesis by linarith
  qed
  have "stristr_inv s t (stristr_step s t x) \<and>
    (case stristr_step s t x of (p1, p2, r) \<Rightarrow> (length s - stristr_start (p1, p2, r)) * Suc (length t) + (length t - p2)) <
     (length s - m) * Suc (length t) + (length t - p2)"
  proof (cases "char_at s p1 = char_at t p2")
    case True
    then have "tolower (s ! (m + p2)) = tolower (t ! p2)" using i(1,2,3) by (simp add: char_at_def)
    then show ?thesis using True i m
      by (auto simp: x stristr_step_def stristr_inv_def stristr_start_def less_Suc_eq split: option.splits)
  next
    case False
    then have n: "\<not> occurs_at s t m" using no_occurrence [of s m p2 t] i(1,2,3) by (simp add: char_at_def)
    show ?thesis
    proof (cases r)
      case None
      then have "stristr_step s t x = (p1 + 1, 0, None)" using False i(4) by (simp add: stristr_step_def x Let_def)
      moreover have "m = p1" using m None by simp
      ultimately show ?thesis using n i(2,7) mono [of "Suc m" 0]
        by (auto simp: stristr_inv_def stristr_start_def less_Suc_eq)
    next
      case (Some q)
      then have q: "q = m" "0 < p2" using m i(5) by simp_all
      have c: "char_at t 0 = tolower (t ! 0)" "char_at s (Suc m) = tolower (s ! Suc m)" "0 < length t" "Suc m < length s"
        using i(1,2,3) q(2) by (auto simp: char_at_def)
      show ?thesis
      proof (cases "char_at s (Suc m) = char_at t 0")
        case True
        then have "stristr_step s t x = (Suc (Suc m), 1, Some (Suc m))" using False Some q by (simp add: stristr_step_def x Let_def)
        then show ?thesis using n i(7) mono [of "Suc m" 1] c True by (auto simp: stristr_inv_def stristr_start_def less_Suc_eq Suc_le_eq)
      next
        case f: False
        then have "stristr_step s t x = (Suc (Suc m), 0, None)" using False Some q by (simp add: stristr_step_def x Let_def)
        moreover have "\<not> occurs_at s t (Suc m)" using no_occurrence [of s "Suc m" 0 t] f c by simp
        ultimately show ?thesis using n i(7) mono [of "Suc (Suc m)" 0] c
          by (auto simp: stristr_inv_def stristr_start_def less_Suc_eq)
      qed
    qed
  qed
  then show "stristr_inv s t (stristr_step s t x)"
    "(case stristr_step s t x of (p1, p2, r) \<Rightarrow> (length s - stristr_start (p1, p2, r)) * Suc (length t) + (length t - p2)) <
     (case x of (p1, p2, r) \<Rightarrow> (length s - stristr_start x) * Suc (length t) + (length t - p2))"
    by (simp_all add: x m_def)
qed

text \<open>C40: the search ends and finds the first place where the string occurs, whatever the case of its letters.\<close>

theorem stristr_finds:
  "\<exists>r. stristr s t = Some r \<and> (case r of
     None \<Rightarrow> \<forall>q. \<not> occurs_at s t q
   | Some q \<Rightarrow> occurs_at s t q \<and> (\<forall>q'<q. \<not> occurs_at s t q'))"
proof -
  let ?i = "(0, 0, if t = '''' then Some 0 else None)"
  let ?f = "\<lambda>x. case x of (p1, p2, r) \<Rightarrow> (length s - stristr_start x) * Suc (length t) + (length t - p2)"
  have z: "\<exists>y. stristr s t = Some (Some 0)" if "t = ''''"
    using that by (simp add: stristr_def stristr_end_def while_option_unfold)
  show ?thesis
  proof (cases "t = ''''")
    case True
    then show ?thesis using z by (auto simp: occurs_at_def)
  next
    case False
    then have init: "stristr_inv s t ?i" by (simp add: stristr_inv_def stristr_start_def)
    have "\<exists>x. while_option (\<lambda>x. \<not> stristr_end s t x) (stristr_step s t) ?i = Some x"
      by (rule measure_while_option_Some [where P = "stristr_inv s t" and f = ?f])
        (use stristr_step_inv [of s t] init in \<open>auto simp: split_beta\<close>)
    then obtain p1 p2 r where w: "while_option (\<lambda>x. \<not> stristr_end s t x) (stristr_step s t) ?i = Some (p1, p2, r)" by auto
    have "stristr_inv s t (p1, p2, r)"
      by (rule while_option_rule [OF _ w]) (use stristr_step_inv(1) init in auto)
    moreover have "stristr_end s t (p1, p2, r)" using while_option_stop [OF w] by simp
    moreover have "q < length s" if "q + length t \<le> length s" for q using that False by (cases t) simp_all
    ultimately show ?thesis
      using False w by (auto simp: stristr_def stristr_inv_def stristr_end_def stristr_start_def occurs_at_def split: option.splits)
  qed
qed

theorem stristr_finds_witness:
  "\<exists>r. stristr ''7aaB'' ''AB'' = Some r \<and> (case r of
     None \<Rightarrow> \<forall>q. \<not> occurs_at ''7aaB'' ''AB'' q
   | Some q \<Rightarrow> occurs_at ''7aaB'' ''AB'' q \<and> \<not> (\<exists>q'<q. occurs_at ''7aaB'' ''AB'' q'))"
  using stristr_finds [of "''7aaB''" "''AB''"] by (auto split: option.splits)

section \<open>Configuration space\<close>

text \<open>The bytes of the file \<open>config\<close> after the writes of a history, and reads that find them.\<close>

primrec cfg_at :: "(int \<Rightarrow> u8) \<Rightarrow> event list \<Rightarrow> int \<Rightarrow> u8" where
  "cfg_at m [] = m"
| "cfg_at m (e # t) = (case e of
     KCall f xs \<Rightarrow> (case xs of
         fd # off # bs \<Rightarrow> if f = ''pwrite'' then
           (\<lambda>a. if off \<le> a \<and> a < off + int (length bs) then word_of_int (bs ! nat (a - off)) else cfg_at m t a)
           else cfg_at m t
       | _ \<Rightarrow> cfg_at m t)
   | _ \<Rightarrow> cfg_at m t)"

definition cfg_attached :: "(int \<Rightarrow> u8) \<Rightarrow> sys \<Rightarrow> bool" where
  "cfg_attached m s \<longleftrightarrow> (\<forall>h x. 0 < w_kcall s h ''open'' x) \<and>
     (\<forall>h fd off. w_kcall s h ''pread'' [fd, 1, off] = uint (cfg_at m h off)) \<and>
     (\<forall>h fd off. w_kcall s h ''pread'' [fd, 2, off] = uint (cfg_at m h off) + 256 * uint (cfg_at m h (off + 1)))"

lemma cfg_at_call [simp]: "f \<noteq> ''pwrite'' \<Longrightarrow> cfg_at m (KCall f xs # t) = cfg_at m t"
  by (simp split: list.split)

lemma cfg_attached_call [simp]: "cfg_attached m (emit e s) = cfg_attached m s"
  by (simp add: cfg_attached_def)

lemma cfg_pread1:
  assumes "cfg_attached m s" "pread buf fd 1 off s = (buf', s')"
  shows "buf' = cfg_at m (trace s) off # drop 1 buf \<and> cfg_at m (trace s') = cfg_at m (trace s) \<and> cfg_attached m s'"
  using assms by (auto simp: pread_def kcall_def cfg_attached_def int_bytes_def simp del: cfg_at.simps)

lemma cfg_pread2:
  assumes "cfg_attached m s" "pread buf fd 2 off s = (buf', s')"
  shows "buf' = cfg_at m (trace s) off # cfg_at m (trace s) (off + 1) # drop 2 buf \<and>
    cfg_at m (trace s') = cfg_at m (trace s) \<and> cfg_attached m s'"
proof -
  define x y where "x = cfg_at m (trace s) off" and "y = cfg_at m (trace s) (off + 1)"
  have z: "(256 :: u8) = 0" by simp
  have "word_of_int (uint x + 256 * uint y) = x + (256 :: u8) * y" by simp
  also have "\<dots> = x" unfolding z by simp
  finally have "(word_of_int (uint x + 256 * uint y) :: u8) = x" .
  moreover have "(uint x + 256 * uint y) div 256 = uint y" using unsigned_less [of x, where 'a = int] by simp
  moreover have "\<not> uint x + 256 * uint y < 0" using unsigned_greater_eq [of x] unsigned_greater_eq [of y] by (simp add: not_less)
  moreover have "[0..<2 :: nat] = [0, 1]" by (simp add: upt_rec)
  ultimately show ?thesis using assms
    by (auto simp: pread_def kcall_def cfg_attached_def int_bytes_def simp flip: x_def y_def simp del: cfg_at.simps)
qed

lemma cfg_pwrite2:
  "cfg_at m (trace (pwrite fd [x, y] off s)) = (cfg_at m (trace s))(off := x, off + 1 := y)"
  by (auto simp: pwrite_def fun_eq_iff nth_Cons')

lemma cfg_attached_pwrite [simp]: "cfg_attached m (pwrite fd bs off s) = cfg_attached m s"
  by (simp add: pwrite_def kvoid_def)

lemma cfg_open:
  assumes "cfg_attached m s" "kcall ''open'' x s = (fd, s')"
  shows "fd \<noteq> 0 \<and> cfg_at m (trace s') = cfg_at m (trace s) \<and> cfg_attached m s'"
proof -
  have "0 < fd" using assms by (auto simp: kcall_def cfg_attached_def)
  then show ?thesis using assms by (auto simp: kcall_def simp del: cfg_at.simps)
qed

text \<open>A list of capabilities that ends, at the PCIe capability or without one.\<close>

fun cap_chain :: "(int \<Rightarrow> u8) \<Rightarrow> u8 \<Rightarrow> u8 list \<Rightarrow> u8 \<Rightarrow> bool" where
  "cap_chain m off [] found \<longleftrightarrow> off = found \<and> (found = 0 \<or> m (uint found) = PCI_CAP_ID_EXP)"
| "cap_chain m off (c # cs) found \<longleftrightarrow> off = c \<and> c \<noteq> 0 \<and> m (uint c) \<noteq> PCI_CAP_ID_EXP \<and>
     cap_chain m (m (uint c + 1) AND 0xfc) cs found"

lemma find_cap_chain:
  assumes "cap_chain (cfg_at m (trace s)) off cs found" "cfg_attached m s"
  shows "\<exists>buf' s'. find_cap buf fd off s = Some (found, buf', s') \<and> cfg_at m (trace s') = cfg_at m (trace s) \<and> cfg_attached m s'"
  using assms
proof (induction cs arbitrary: off buf s)
  case Nil
  obtain buf' s' where r: "pread buf fd 2 (uint off) s = (buf', s')" by force
  from cfg_pread2 [OF Nil(2) r] Nil r show ?case by (subst find_cap.simps) auto
next
  case (Cons c cs)
  obtain buf' s' where r: "pread buf fd 2 (uint off) s = (buf', s')" by force
  note p = cfg_pread2 [OF Cons.prems(2) r]
  from Cons.IH [of s' "buf' ! 1 AND 0xfc" buf'] Cons.prems(1) p show ?case
    using r by (subst find_cap.simps) auto
qed

text \<open>Fatal errors are masked in the configuration space of the port by clearing SERR in its command register
  and the fatal error reporting bit of its PCIe capability, if it has one, and nothing else changes.\<close>

theorem disable_fatal_err_masks:
  assumes "cfg_attached m s" "M = (cfg_at m (trace s))(5 := cfg_at m (trace s) 5 AND NOT 1)"
    "cap_chain M (M 0x34 AND 0xfc) caps found"
  shows "\<exists>s'. pcie_disable_fatal_err buf path s = Some (0, s') \<and>
    cfg_at m (trace s') = (if found = 0 then M else M(uint found + 8 := M (uint found + 8) AND NOT 4))"
proof -
  obtain fd s1 where 1: "kcall ''open'' (codes (path @ ''/config'')) s = (fd, s1)" by force
  note o = cfg_open [OF assms(1) 1]
  obtain b2 s2 where 2: "pread buf fd 2 4 s1 = (b2, s2)" by force
  note r2 = cfg_pread2 [OF conjunct2 [OF conjunct2 [OF o]] 2]
  let ?b = "b2[1 := b2 ! 1 AND NOT 1]"
  define s3 where "s3 = pwrite fd [?b ! 0, ?b ! 1] 4 s2"
  have M: "cfg_at m (trace s3) = M" and a3: "cfg_attached m s3"
    using r2 o unfolding s3_def cfg_pwrite2 assms(2) by auto
  obtain b4 s4 where 4: "pread ?b fd 1 0x34 s3 = (b4, s4)" by force
  note r4 = cfg_pread1 [OF a3 4]
  have "cap_chain (cfg_at m (trace s4)) (b4 ! 0 AND 0xfc) caps found" using assms(3) r4 M by simp
  from find_cap_chain [OF this] r4 obtain b5 s5 where
    5: "find_cap b4 fd (b4 ! 0 AND 0xfc) s4 = Some (found, b5, s5)" "cfg_at m (trace s5) = M" "cfg_attached m s5"
    using M by metis
  obtain b6 s6 where 6: "pread b5 fd 2 (uint found + 8) s5 = (b6, s6)" by force
  note r6 = cfg_pread2 [OF 5(3) 6]
  define s7 where "s7 = (if found = 0 then s5 else pwrite fd [b6 ! 0 AND NOT 4, b6 ! 1] (uint found + 8) s6)"
  have d: "pcie_disable_fatal_err buf path s = Some (0, kvoid ''close'' [fd] s7)"
    using 1 2 4 5(1) 6 o by (simp add: pcie_disable_fatal_err_def s3_def s7_def Let_def)
  have "cfg_at m (trace s7) = (if found = 0 then M else M(uint found + 8 := M (uint found + 8) AND NOT 4))"
    unfolding s7_def using r6 5(2) by (auto simp: cfg_pwrite2 fun_eq_iff simp del: cfg_at.simps)
  then show ?thesis using d by (simp add: kvoid_def del: cfg_at.simps)
qed

text \<open>A configuration space with two capabilities, the second of which is PCIe.\<close>

definition demo_cfg :: "int \<Rightarrow> u8" where
  "demo_cfg a = (if a = 4 then 7 else if a = 5 then 1 else if a = 0x34 then 0x40 else if a = 0x40 then 1
     else if a = 0x41 then 0x60 else if a = 0x60 then 0x10 else if a = 0x68 then 0x0f else 0)"

definition demo_bridge :: sys where
  "demo_bridge = quiet_world\<lparr>w_kcall := \<lambda>h f x. if f = ''pread'' then case x of
       [fd, n, off] \<Rightarrow> uint (cfg_at demo_cfg h off) + (if n = 2 then 256 * uint (cfg_at demo_cfg h (off + 1)) else 0)
     | _ \<Rightarrow> 0 else 3\<rparr>"

theorem disable_fatal_err_masks_witness:
  "\<exists>s'. pcie_disable_fatal_err [] ''/sys/port'' demo_bridge = Some (0, s') \<and>
    cfg_at demo_cfg (trace s') = demo_cfg(5 := 0, 0x68 := 0x0b)"
proof -
  have t: "cfg_at demo_cfg (trace demo_bridge) = demo_cfg" by (simp add: demo_bridge_def quiet_world_def)
  have "cfg_attached demo_cfg demo_bridge" by (simp add: cfg_attached_def demo_bridge_def)
  moreover have "demo_cfg(5 := 0) = (cfg_at demo_cfg (trace demo_bridge))(5 := cfg_at demo_cfg (trace demo_bridge) 5 AND NOT 1)"
    unfolding t by (simp add: demo_cfg_def)
  moreover have "cap_chain (demo_cfg(5 := 0)) ((demo_cfg(5 := 0)) 0x34 AND 0xfc) [0x40] 0x60"
    by (simp add: demo_cfg_def)
  moreover have "(demo_cfg(5 := 0))(uint (0x60 :: u8) + 8 := (demo_cfg(5 := 0)) (uint (0x60 :: u8) + 8) AND NOT 4) =
      demo_cfg(5 := 0, 0x68 := 0x0b)"
    by (simp add: demo_cfg_def)
  ultimately show ?thesis
    using disable_fatal_err_masks [of demo_cfg demo_bridge "demo_cfg(5 := 0)" "[0x40]" "0x60" "[]" "''/sys/port''"]
    by (simp only: simp_thms if_False) simp
qed

text \<open>A hot reset holds the bus reset bit of the bridge for ten milliseconds and leaves the configuration space
  as it was.\<close>

theorem hot_reset_restores:
  assumes "cfg_attached m s"
  shows "\<exists>fd s' t u. pcie_hot_reset buf path s = (0, s') \<and> cfg_at m (trace s') = cfg_at m (trace s) \<and>
    trace s' = KCall ''close'' [fd] # u # KCall ''usleep'' [10000] # t \<and>
    cfg_at m t = (cfg_at m (trace s))(0x3e := cfg_at m (trace s) 0x3e OR 0x40)"
proof -
  obtain fd s1 where 1: "kcall ''open'' (codes (path @ ''/config'')) s = (fd, s1)" by force
  note o = cfg_open [OF assms 1]
  obtain b s2 where 2: "pread buf fd 2 0x3e s1 = (b, s2)" by force
  note r = cfg_pread2 [OF conjunct2 [OF conjunct2 [OF o]] 2]
  define s3 where "s3 = pwrite fd [b ! 0 OR 0x40, b ! 1] 0x3e s2"
  define s4 where "s4 = pwrite fd [b ! 0, b ! 1] 0x3e (kvoid ''usleep'' [10000] s3)"
  have "pcie_hot_reset buf path s = (0, kvoid ''close'' [fd] s4)"
    using 1 2 o by (simp add: pcie_hot_reset_def s3_def s4_def Let_def)
  moreover have c3: "cfg_at m (trace s3) = (cfg_at m (trace s))(0x3e := cfg_at m (trace s) 0x3e OR 0x40)"
    using r o unfolding s3_def cfg_pwrite2 by (auto simp: fun_eq_iff)
  moreover have "cfg_at m (trace (kvoid ''close'' [fd] s4)) = cfg_at m (trace s)"
  proof -
    have "cfg_at m (trace s4) = (cfg_at m (trace s3))(0x3e := b ! 0, 0x3f := b ! 1)"
      unfolding s4_def cfg_pwrite2 by (simp add: kvoid_def del: cfg_at.simps)
    then show ?thesis using c3 r o by (auto simp: kvoid_def fun_eq_iff simp del: cfg_at.simps)
  qed
  moreover have "\<exists>u. trace (kvoid ''close'' [fd] s4) = KCall ''close'' [fd] # u # KCall ''usleep'' [10000] # trace s3"
    by (simp add: s4_def pwrite_def)
  ultimately show ?thesis by blast
qed

section \<open>The restart\<close>

text \<open>A device that stays away after five resets is reported as a success, since the loop looks for \<open>tries > 0\<close>.\<close>

lemma offline_is_success:
  assumes "\<forall>h x. w_kcall s h ''access'' x = - 1" "\<forall>h x. w_kcall s h ''fopen'' x \<noteq> 0" "\<forall>h x. w_kcall s h ''fputs'' x \<noteq> - 1"
  shows "fst (reset_loop env device_path port_path n s) = 0"
  using assms
proof (induction n arbitrary: s)
  case (Suc n)
  obtain e s1 where 1: "pcie_hot_reset (fe_pci_junk env) port_path s = (e, s1)" by force
  have w1: "w_kcall s1 = w_kcall s"
    using 1 by (auto simp: pcie_hot_reset_def kcall_def pread_def pwrite_def kvoid_def Let_def split: if_splits)
  obtain r s2 where 2: "write_1_to_file (port_path @ ''/rescan'') (kvoid ''sleep'' [2] s1) = (r, s2)" by force
  have w2: "w_kcall s2 = w_kcall s" and r: "r = 0"
    using 2 Suc.prems(2,3) w1
    by (auto simp: write_1_to_file_def write_str_to_file_def kcall_def kvoid_def split: if_splits)
  obtain b s3 where 3: "accessible (device_path @ ''/config'') s2 = (b, s3)" by force
  have "w_kcall s3 = w_kcall s" "\<not> b" using 3 Suc.prems(1) w2 by (auto simp: accessible_def kcall_def)
  then show ?case using 1 2 3 r Suc by simp
qed simp

text \<open>An extension that is empty is compared with what the stack holds.\<close>

lemma empty_extension: "file_type_from_ext ''hex'' ''fpga.'' = FILE_TYPE_HEX" "file_type_from_ext '''' ''fpga.'' = FILE_TYPE_BIN"
  by code_simp+

text \<open>A device that is not in the table has the empty part name, which every bit file matches.\<close>

lemma unknown_part_matches: "stristr part '''' = Some (Some 0)"
  by (simp add: stristr_def stristr_end_def while_option_unfold)

text \<open>A slot the flash does not have is looked up in the table when it is not read or written.\<close>

lemma slot_out_of_table:
  assumes "fo_read opts = None" "fo_write opts = None" "0 \<le> fo_slot opts" "int (length segments) \<le> fo_slot opts"
  shows "fw_actions env opts part fl segments s = None"
  using assms by (simp add: fw_actions_def choose_slot_def)

end
