(* ===== verification/FlashKeep.thy ===== *)
theory FlashKeep
  imports FlashSpi
begin

text \<open>
  The driver of the serial flash only adds to the history: what the machine and the system answer stays what it
  was. Each function is shown to extend the history it starts from.
\<close>

named_theorems keeps

lemma extends_keep [keeps]:
  "extends r s \<Longrightarrow> extends r (emit e s)"
  "extends r s \<Longrightarrow> extends r (iowrite32 v a s)"
  "extends r s \<Longrightarrow> extends r (snd (ioread32 a s))"
  "extends r s \<Longrightarrow> extends r (kvoid f args s)"
  "extends r s \<Longrightarrow> extends r (snd (kcall f args s))"
  by (simp_all add: extends_emit extends_iowrite32 ioread32_def Let_def kvoid_def kcall_def)

lemma extends_clock [keeps]:
  "extends r s \<Longrightarrow> extends r (clock_out c v s)"
  "extends r s \<Longrightarrow> extends r (snd (clock_in c s))"
  by (simp_all add: clock_out_def clock_in_def split_beta extends_keep)

lemma extends_fold [keeps]: "(\<And>i r s. extends r s \<Longrightarrow> extends r (f i s)) \<Longrightarrow> extends r s \<Longrightarrow> extends r (fold f is s)"
  by (induction "is" arbitrary: s) simp_all

lemma extends_read_bits [keeps]: "extends r s \<Longrightarrow> extends r (snd (read_bits c f is v s))"
  by (induction "is" arbitrary: s v) (simp_all add: split_beta extends_clock)

lemma extends_byte [keeps]:
  "extends r s \<Longrightarrow> extends r (spi_flash_write_byte fdev b p s)"
  "extends r s \<Longrightarrow> extends r (snd (spi_flash_read_byte fdev p s))"
  "extends r s \<Longrightarrow> extends r (spi_flash_deselect fdev s)"
proof -
  show "extends r s \<Longrightarrow> extends r (spi_flash_write_byte fdev b p s)"
    by (cases p) (auto simp only: spi_flash_write_byte_def Let_def spi_proto.case intro!: keeps)
  show "extends r s \<Longrightarrow> extends r (snd (spi_flash_read_byte fdev p s))"
    by (cases p) (auto simp only: spi_flash_read_byte_def Let_def spi_proto.case split_beta snd_conv intro!: keeps)
qed (simp add: spi_flash_deselect_def extends_keep)

lemma extends_command [keeps]:
  "extends r s \<Longrightarrow> extends r (spi_flash_write_enable fdev p s)"
  "extends r s \<Longrightarrow> extends r (snd (spi_flash_read_status_register fdev p s))"
  "extends r s \<Longrightarrow> extends r (spi_command fdev q4 s4 q3 s3 p a s)"
  "extends r s \<Longrightarrow> extends r (spi_block_erase fdev blk a s)"
  "extends r s \<Longrightarrow> extends r ((spi_dummy_cycle fdev ^^ n) s)"
proof -
  show "extends r s \<Longrightarrow> extends r ((spi_dummy_cycle fdev ^^ n) s)"
    by (induction n arbitrary: s) (simp_all add: spi_dummy_cycle_def keeps)
qed (auto simp: spi_flash_write_enable_def spi_flash_read_status_register_def spi_command_def spi_block_erase_def
    spi_flash_write_addr_def spi_flash_write_addr_4b_def split_beta intro!: keeps)

lemma extends_read_loop [keeps]: "extends r s \<Longrightarrow> extends r (snd (spi_read_loop fdev p n s))"
  by (induction n arbitrary: s) (simp_all add: split_beta extends_byte)

lemma extends_write_page [keeps]: "extends r s \<Longrightarrow> extends r (snd (snd (spi_write_page fdev p a bs s)))"
  by (induction fdev p a bs s rule: spi_write_page.induct) (auto simp: Let_def extends_byte)

lemma extends_status:
  assumes "spi_flash_read_status_register fdev p s = (v, t)" "extends r s"
  shows "extends r t"
  using extends_command(2) [OF assms(2), of fdev p] assms(1) by simp

lemma extends_wait:
  assumes "spi_wait fdev s = Some s'" "extends r s"
  shows "extends r s'"
proof -
  have "spi_wait fdev s = Some s' \<Longrightarrow> extends r s \<longrightarrow> extends r s'" for s s'
    by (rule spi_wait.raw_induct [rotated]) (auto split: if_splits prod.splits dest: extends_status)
  then show ?thesis using assms by blast
qed

lemma extends_read: "spi_flash_read fdev a n s = (e, bs, s') \<Longrightarrow> extends s s'"
  by (auto simp: spi_flash_read_def Let_def split_beta intro!: keeps)

lemma extends_enabled:
  assumes "spi_flash_read_status_register fdev p (spi_flash_write_enable fdev p s) = (v, t)" "extends r s"
  shows "extends r t"
  by (rule extends_status [OF assms(1) extends_command(1) [OF assms(2)]])

lemma extends_write:
  assumes "spi_write_loop fdev p a src s = Some (e, s')" "extends r s"
  shows "extends r s'"
proof -
  have "spi_write_loop fdev p a src s = Some x \<Longrightarrow> extends r s \<longrightarrow> extends r (snd x)" for a src s x
  proof (rule spi_write_loop.raw_induct [rotated], assumption, intro impI)
    fix f fdev p a src s y
    assume h: "\<And>fdev p a src s y. f fdev p a src s = Some y \<Longrightarrow> extends r s \<longrightarrow> extends r (snd y)" and s: "extends r s"
      and y: "(if src = [] then Some (0, spi_flash_deselect fdev s)
       else case spi_flash_read_status_register fdev SPI_PROTO_STR (spi_flash_write_enable fdev SPI_PROTO_STR s) of (v, s) \<Rightarrow>
         if v AND 0x02 = 0 then Some (- 1, spi_flash_deselect fdev s)
         else
           case spi_write_page fdev p a src
             (spi_command fdev SPI_CMD_4B_PAGE_PROGRAM_QUAD_IN_EXT SPI_CMD_4B_PAGE_PROGRAM
                SPI_CMD_PAGE_PROGRAM_QUAD_IN_EXT SPI_CMD_PAGE_PROGRAM p a s) of (a, src, s) \<Rightarrow>
           Option.bind (spi_wait fdev (spi_flash_deselect fdev s)) (\<lambda>s. f fdev p a src s)) = Some y"
    show "extends r (snd y)"
    proof (cases "src = []")
      case True
      then show ?thesis using y s by (auto intro: keeps)
    next
      case False
      obtain v t where t: "spi_flash_read_status_register fdev SPI_PROTO_STR (spi_flash_write_enable fdev SPI_PROTO_STR s) = (v, t)" by force
      note e = extends_enabled [OF t s]
      let ?c = "spi_command fdev SPI_CMD_4B_PAGE_PROGRAM_QUAD_IN_EXT SPI_CMD_4B_PAGE_PROGRAM
                SPI_CMD_PAGE_PROGRAM_QUAD_IN_EXT SPI_CMD_PAGE_PROGRAM p a t"
      obtain b bs u where u: "spi_write_page fdev p a src ?c = (b, bs, u)" by (metis surj_pair)
      have "extends r u" using extends_write_page [OF extends_command(3) [OF e]] u by (metis snd_conv)
      then have "extends r u'" if "spi_wait fdev (spi_flash_deselect fdev u) = Some u'" for u'
        using extends_wait [OF that] extends_byte(3) by blast
      then show ?thesis using y False t u e h
        by (auto split: if_splits Option.bind_splits intro: extends_byte(3))
    qed
  qed
  then show ?thesis using assms by force
qed

lemma extends_erase:
  assumes "spi_flash_erase fdev a len s = Some (e, s')" "extends r s"
  shows "extends r s'"
proof -
  have "spi_flash_erase fdev a len s = Some x \<Longrightarrow> extends r s \<longrightarrow> extends r (snd x)" for a len s x
  proof (rule spi_flash_erase.raw_induct [rotated], assumption, intro impI)
    fix f fdev a len s y
    assume h: "\<And>fdev a len s y. f fdev a len s = Some y \<Longrightarrow> extends r s \<longrightarrow> extends r (snd y)" and s: "extends r s"
      and y: "(if len = 0 then Some (0, spi_flash_deselect fdev s)
       else let blk = spi_erase_size a len in
         if blk = 0 then Some (- 1, spi_flash_deselect fdev s)
         else case spi_flash_read_status_register fdev SPI_PROTO_STR (spi_flash_write_enable fdev SPI_PROTO_STR s) of (v, s) \<Rightarrow>
           if v AND 0x02 = 0 then Some (- 1, spi_flash_deselect fdev s)
           else Option.bind (spi_wait fdev (spi_flash_deselect fdev (spi_block_erase fdev blk a s))) (\<lambda>s.
             if len \<le> blk then Some (0, spi_flash_deselect fdev s)
             else f fdev (a + blk) (len - blk) s)) = Some y"
    obtain v t where t: "spi_flash_read_status_register fdev SPI_PROTO_STR (spi_flash_write_enable fdev SPI_PROTO_STR s) = (v, t)" by force
    note e = extends_enabled [OF t s]
    have "extends r u'" if "spi_wait fdev (spi_flash_deselect fdev (spi_block_erase fdev b a t)) = Some u'" for b u'
      using extends_wait [OF that] extends_byte(3) extends_command(4) e by blast
    then show "extends r (snd y)" using y s t e h
      by (auto simp: Let_def split: if_splits Option.bind_splits intro!: extends_byte(3))
  qed
  then show ?thesis using assms by force
qed

end
