(* ===== verification/FwFlash.thy ===== *)
theory FwFlash
  imports FwMain FlashKeep
begin

text \<open>
  What the firmware tool does to a flash: ranges that are read, written and erased piece by piece as one, and an
  image that is programmed, against the reference flash; the two halves of a dual flash; the table of segments.
\<close>

section \<open>Pieces\<close>

lemma fw_step_small: "unat n \<le> 65536 \<Longrightarrow> fw_step n = 0x10000"
  by (simp add: fw_step_def word_less_nat_alt)

lemma unat_mask_16: "unat ((a :: u64) AND 0xffff) = unat a mod 65536"
proof -
  have "a AND 0xffff = take_bit 16 a" by (simp add: take_bit_eq_mask mask_eq_exp_minus_1)
  then show ?thesis by (simp only: unsigned_take_bit_eq) (simp add: take_bit_eq_mod)
qed

lemma next_multiple: "x + (65536 - x mod 65536) = (x div 65536 + 1) * 65536" for x :: nat
proof -
  define q m where "q = x div 65536" and "m = x mod 65536"
  have x: "x = q * 65536 + m" and "m < 65536" by (simp_all add: q_def m_def)
  then have "m + (65536 - m) = 65536" by simp
  then have "x + (65536 - m) = (q + 1) * 65536" unfolding x by simp
  then show ?thesis unfolding q_def m_def .
qed

lemma fw_seg_value:
  "unat (fw_seg 0x10000 a r) = (if 65536 < unat r then 65536 - unat a mod 65536 else unat r)"
proof -
  have m: "unat ((a + 0x10000) AND 0xffff) = unat a mod 65536"
    unfolding unat_mask_16 by (simp add: unat_word_ariths mod_mod_cancel)
  have "(a + 0x10000) AND 0xffff \<le> (0x10000 :: u64)"
    unfolding word_le_nat_alt m by (simp add: less_imp_le)
  then have "unat (0x10000 - ((a + 0x10000) AND 0xffff)) = 65536 - unat a mod 65536"
    by (simp add: unat_sub m)
  moreover have "(a + 0x10000) AND 0xffff = 0 \<longleftrightarrow> unat a mod 65536 = 0" by (simp flip: m add: unat_eq_0)
  ultimately show ?thesis by (simp add: fw_seg_def word_less_nat_alt)
qed

text \<open>One piece of a range, and what is left of it.\<close>

lemma fw_piece:
  assumes "unat a + unat r \<le> 2 ^ 32" "r \<noteq> 0"
  shows "0 < unat (fw_seg 0x10000 a r)" "unat (fw_seg 0x10000 a r) \<le> unat r"
    "unat (r - fw_seg 0x10000 a r) = unat r - unat (fw_seg 0x10000 a r)"
    "unat (a + fw_seg 0x10000 a r) = unat a + unat (fw_seg 0x10000 a r)"
    "r - fw_seg 0x10000 a r = 0 \<or> unat (a + fw_seg 0x10000 a r) mod 65536 = 0"
proof -
  let ?n = "unat (fw_seg 0x10000 a r)"
  have "0 < unat r" using assms(2) by (simp add: unat_gt_0)
  moreover have "unat a mod 65536 < 65536" by simp
  ultimately show n: "0 < ?n" "?n \<le> unat r" unfolding fw_seg_value by (auto split: if_splits)
  then show d: "unat (r - fw_seg 0x10000 a r) = unat r - ?n" by (simp add: unat_sub word_le_nat_alt)
  show u: "unat (a + fw_seg 0x10000 a r) = unat a + ?n" using n assms(1) by (simp add: unat_word_ariths)
  show "r - fw_seg 0x10000 a r = 0 \<or> unat (a + fw_seg 0x10000 a r) mod 65536 = 0"
  proof (cases "65536 < unat r")
    case True
    then have "unat a + ?n = (unat a div 65536 + 1) * 65536" by (simp only: fw_seg_value next_multiple if_True)
    then show ?thesis unfolding u by (simp only: mod_mult_self2_is_0 simp_thms)
  next
    case False
    then show ?thesis using d by (simp add: fw_seg_value unat_eq_zero)
  qed
qed

text \<open>
  A read that uses three address bytes must end below \<open>2 ^ 24\<close>: a piece does, unless the range is shorter than
  a step and does not start at a multiple of one.
\<close>

definition no_crossing :: "u64 \<Rightarrow> u64 \<Rightarrow> bool" where
  "no_crossing a r \<longleftrightarrow> unat a mod 65536 = 0 \<or> 65536 < unat r \<or> unat a + unat r \<le> 2 ^ 24 \<or> 2 ^ 24 \<le> unat a"

lemma fw_piece_crossing:
  assumes "unat a + unat r \<le> 2 ^ 32" "r \<noteq> 0" "no_crossing a r"
  shows "unat a + unat (fw_seg 0x10000 a r) \<le> (if a > 0xffffff then 2 ^ 32 else 2 ^ 24)"
    "no_crossing (a + fw_seg 0x10000 a r) (r - fw_seg 0x10000 a r)"
proof -
  note p = fw_piece [OF assms(1,2)]
  show "unat a + unat (fw_seg 0x10000 a r) \<le> (if a > 0xffffff then 2 ^ 32 else 2 ^ 24)"
  proof (cases "a > 0xffffff")
    case True
    then show ?thesis using p(2) assms(1) by simp
  next
    case False
    then have l: "unat a < 2 ^ 24" by (simp add: word_less_nat_alt)
    have "(unat a div 65536 + 1) * 65536 \<le> 256 * 65536" using l by (intro mult_le_mono1) simp
    then have "unat a + (65536 - unat a mod 65536) \<le> 2 ^ 24" unfolding next_multiple by simp
    then show ?thesis using False l assms(3) by (auto simp: fw_seg_value no_crossing_def)
  qed
  show "no_crossing (a + fw_seg 0x10000 a r) (r - fw_seg 0x10000 a r)"
    using p(5) by (auto simp: no_crossing_def p(4) fw_seg_value)
qed

lemma spi_protocol_cases: "spi_protocol fdev = SPI_PROTO_STR \<or> spi_protocol fdev = SPI_PROTO_QUAD_STR"
  by (simp add: spi_protocol_def)

text \<open>The pieces of a range as one range.\<close>

definition spi_ready :: "flash_device \<Rightarrow> bool" where
  "spi_ready fdev \<longleftrightarrow> fl_driver fdev = Spi_flash_driver \<and> unat (fl_write_buffer_size fdev) \<le> 65536 \<and>
     fl_erase_block_size fdev = 0x1000 \<and> (fl_data_width fdev = 4 \<longrightarrow> fl_read_dummy_cycles fdev = 10)"

lemma read_pieces_memory:
  assumes "spi_idle fdev delay ch0 ch s" "ch_busy ch = 0" "spi_ready fdev" "unat a + unat r \<le> 2 ^ 32" "no_crossing a r"
  shows "\<exists>s'. flash_read_pieces fdev a r dest s = Some (0, dest @ map (ch_mem ch) [unat a..<unat a + unat r], s') \<and>
    spi_idle fdev delay ch0 ch s' \<and> extends s s'"
  using assms
proof (induction "unat r" arbitrary: a r dest s rule: less_induct)
  case less
  show ?case
  proof (cases "r = 0")
    case True
    then show ?thesis using less.prems(1) by (subst flash_read_pieces.simps) simp
  next
    case False
    let ?n = "fw_seg 0x10000 a r"
    note p = fw_piece [OF less.prems(4) False] and c = fw_piece_crossing [OF less.prems(4) False less.prems(5)]
    obtain e bs s1 where r: "spi_flash_read fdev a (unat ?n) s = (e, bs, s1)" by (metis surj_pair)
    have "unat a < 2 ^ 32" using p(1,2) less.prems(4) by linarith
    from spi_read_memory [OF less.prems(1,2) this c(1) _ r] less.prems(3)
    have v: "e = 0" "bs = map (ch_mem ch) [unat a..<unat a + unat ?n]" "spi_idle fdev delay ch0 ch s1"
      by (simp_all add: spi_ready_def)
    have "unat (r - ?n) < unat r" "unat (a + ?n) + unat (r - ?n) \<le> 2 ^ 32" using p less.prems(4) by simp_all
    from less.hyps [OF this(1) v(3) less.prems(2,3) this(2) c(2), of "dest @ bs"] obtain s' where
      s': "flash_read_pieces fdev (a + ?n) (r - ?n) (dest @ bs) s1 =
        Some (0, (dest @ bs) @ map (ch_mem ch) [unat (a + ?n)..<unat (a + ?n) + unat (r - ?n)], s')" "spi_idle fdev delay ch0 ch s'" "extends s1 s'"
      by blast
    have "bs @ map (ch_mem ch) [unat (a + ?n)..<unat (a + ?n) + unat (r - ?n)] = map (ch_mem ch) [unat a..<unat a + unat r]"
      using upt_add_eq_append [of "unat a" "unat a + unat ?n" "unat r - unat ?n"] p by (simp add: v(2))
    then show ?thesis using s' r v(1) False less.prems(3) extends_trans [OF extends_read [OF r] s'(3)]
      by (subst flash_read_pieces.simps) (simp add: flash_read_def spi_ready_def Let_def)
  qed
qed

lemma write_pieces_program:
  assumes "spi_idle fdev delay ch0 ch s" "ch_busy ch = 0" "spi_ready fdev" "unat a + unat r \<le> 2 ^ 32" "unat r \<le> length src"
  shows "\<exists>w s'. flash_write_pieces 0x10000 fdev a r src s = Some (0, s') \<and>
    spi_idle fdev delay ch0 (ch\<lparr>ch_mem := and_range (unat a) (take (unat r) src) (ch_mem ch), ch_wel := w\<rparr>) s' \<and> extends s s'"
  using assms
proof (induction "unat r" arbitrary: a r src ch s rule: less_induct)
  case less
  show ?case
  proof (cases "r = 0")
    case True
    have "ch = ch\<lparr>ch_mem := ch_mem ch, ch_wel := ch_wel ch\<rparr>" by simp
    then show ?thesis using True less.prems(1) by (subst flash_write_pieces.simps) (auto intro!: exI [of _ "ch_wel ch"])
  next
    case False
    let ?n = "fw_seg 0x10000 a r"
    note p = fw_piece [OF less.prems(4) False]
    let ?b = "take (unat ?n) src"
    have n: "length ?b = unat ?n" using p(2) less.prems(5) by simp
    then have "unat a + length ?b \<le> 2 ^ 32" using p(2) less.prems(4) by simp
    from spi_write_loop_programs [OF less.prems(1,2) this spi_protocol_cases [of fdev]] obtain w s1 where
      w: "spi_flash_write fdev a ?b s = Some (0, s1)"
        "spi_idle fdev delay ch0 (ch\<lparr>ch_mem := and_range (unat a) ?b (ch_mem ch), ch_wel := w\<rparr>) s1"
      by (auto simp: spi_flash_write_def)
    have q: "unat (r - ?n) < unat r" "unat (a + ?n) + unat (r - ?n) \<le> 2 ^ 32" "unat (r - ?n) \<le> length (drop (unat ?n) src)"
      using p less.prems(4,5) by simp_all
    from less.hyps [OF q(1) w(2) _ less.prems(3) q(2,3)] less.prems(2) obtain w' s' where
      s': "flash_write_pieces 0x10000 fdev (a + ?n) (r - ?n) (drop (unat ?n) src) s1 = Some (0, s')"
        "spi_idle fdev delay ch0 (ch\<lparr>ch_mem := and_range (unat (a + ?n)) (take (unat (r - ?n)) (drop (unat ?n) src))
          (and_range (unat a) ?b (ch_mem ch)), ch_wel := w'\<rparr>) s'" "extends s1 s'" by auto
    have "?b @ take (unat (r - ?n)) (drop (unat ?n) src) = take (unat r) src"
      using take_add [of "unat ?n" "unat r - unat ?n" src] p by simp
    then have "and_range (unat (a + ?n)) (take (unat (r - ?n)) (drop (unat ?n) src)) (and_range (unat a) ?b (ch_mem ch)) =
        and_range (unat a) (take (unat r) src) (ch_mem ch)"
      using and_range_append [of "unat a" ?b "take (unat (r - ?n)) (drop (unat ?n) src)" "ch_mem ch"] n p(4) by simp
    then show ?thesis using s' w(1) False less.prems(3,5) p(2)
      extends_trans [OF extends_write [OF w(1) [unfolded spi_flash_write_def] extends_refl] s'(3)]
      by (subst flash_write_pieces.simps) (auto simp: flash_write_def spi_ready_def Let_def)
  qed
qed

lemma erase_pieces_fill:
  assumes "spi_idle fdev delay ch0 ch s" "ch_busy ch = 0" "spi_ready fdev" "unat a + unat r \<le> 2 ^ 32"
    "unat a mod 4096 = 0" "unat r mod 4096 = 0"
  shows "\<exists>w s'. flash_erase_pieces 0x10000 fdev a r s = Some (0, s') \<and>
    spi_idle fdev delay ch0 (ch\<lparr>ch_mem := fill_range (unat a) (unat r) (ch_mem ch), ch_wel := w\<rparr>) s' \<and> extends s s'"
  using assms
proof (induction "unat r" arbitrary: a r ch s rule: less_induct)
  case less
  show ?case
  proof (cases "r = 0")
    case True
    have "ch = ch\<lparr>ch_mem := ch_mem ch, ch_wel := ch_wel ch\<rparr>" by simp
    then show ?thesis using True less.prems(1) by (subst flash_erase_pieces.simps) (auto intro!: exI [of _ "ch_wel ch"])
  next
    case False
    let ?n = "fw_seg 0x10000 a r"
    note p = fw_piece [OF less.prems(4) False]
    have m: "unat ?n mod 4096 = 0"
    proof (cases "65536 < unat r")
      case True
      have "unat a mod 65536 mod 4096 = 0" using less.prems(5) by (simp add: mod_mod_cancel)
      then show ?thesis using True by (auto simp: fw_seg_value mod_eq_0_iff_dvd intro!: dvd_diff_nat)
    next
      case f: False
      then show ?thesis using less.prems(6) by (simp add: fw_seg_value)
    qed
    have "unat a + unat ?n \<le> 2 ^ 32" using p(2) less.prems(4) by simp
    from spi_erase_fills [OF less.prems(1,2) this less.prems(5) m] obtain w s1 where
      w: "spi_flash_erase fdev a ?n s = Some (0, s1)"
        "spi_idle fdev delay ch0 (ch\<lparr>ch_mem := fill_range (unat a) (unat ?n) (ch_mem ch), ch_wel := w\<rparr>) s1" by auto
    have q: "unat (r - ?n) < unat r" "unat (a + ?n) + unat (r - ?n) \<le> 2 ^ 32" "unat (a + ?n) mod 4096 = 0" "unat (r - ?n) mod 4096 = 0"
      using p less.prems(4,5,6) m by (auto simp: mod_eq_0_iff_dvd)
    from less.hyps [OF q(1) w(2) _ less.prems(3) q(2,3,4)] less.prems(2) obtain w' s' where
      s': "flash_erase_pieces 0x10000 fdev (a + ?n) (r - ?n) s1 = Some (0, s')"
        "spi_idle fdev delay ch0 (ch\<lparr>ch_mem := fill_range (unat (a + ?n)) (unat (r - ?n))
          (fill_range (unat a) (unat ?n) (ch_mem ch)), ch_wel := w'\<rparr>) s'" "extends s1 s'" by auto
    have "fill_range (unat (a + ?n)) (unat (r - ?n)) (fill_range (unat a) (unat ?n) (ch_mem ch)) =
        fill_range (unat a) (unat r) (ch_mem ch)"
      using fill_range_append [of "unat a" "unat ?n" "unat (r - ?n)" "ch_mem ch"] p by simp
    then show ?thesis using s' w(1) False less.prems(3) extends_trans [OF extends_erase [OF w(1) extends_refl] s'(3)]
      by (subst flash_erase_pieces.simps) (auto simp: flash_erase_def spi_ready_def Let_def)
  qed
qed

section \<open>Programming\<close>

lemma round_to_block_bounds:
  assumes "fl_erase_block_size fdev = 0x1000" "unat a mod 4096 = 0" "unat sz mod 4096 = 0"
    "unat a + unat sz \<le> 2 ^ 32" "unat len \<le> unat sz"
  shows "unat len \<le> unat (round_to_block fdev a len)" "unat (round_to_block fdev a len) \<le> unat sz"
    "unat (round_to_block fdev a len) mod 4096 = 0"
proof -
  have m: "unat ((a + len) AND 0xfff) = unat len mod 4096"
  proof -
    have "(a + len) AND 0xfff = take_bit 12 (a + len)" by (simp add: take_bit_eq_mask mask_eq_exp_minus_1)
    then have "unat ((a + len) AND 0xfff) = unat (a + len) mod 4096"
      by (simp only: unsigned_take_bit_eq) (simp add: take_bit_eq_mod)
    also have "\<dots> = (unat a + unat len) mod 4096" by (simp add: unat_word_ariths mod_mod_cancel)
    finally show ?thesis using assms(2) by (metis mod_add_left_eq add_0)
  qed
  have "(a + len) AND 0xfff \<le> (0x1000 :: u64)" unfolding word_le_nat_alt m by (simp add: less_imp_le)
  then have d: "unat (0x1000 - ((a + len) AND 0xfff)) = 4096 - unat len mod 4096" by (simp add: unat_sub m)
  obtain q where q: "unat sz = 4096 * q" using assms(3) by auto
  define k j where "k = unat len div 4096" and "j = unat len mod 4096"
  have kj: "unat len = 4096 * k + j" "j < 4096" by (simp_all add: k_def j_def)
  have r: "unat (round_to_block fdev a len) = (if j = 0 then unat len else 4096 * (k + 1))"
  proof (cases "j = 0")
    case True
    then have "(a + len) AND 0xfff = 0" using m by (simp add: unat_eq_0 j_def)
    then show ?thesis using True by (simp add: round_to_block_def assms(1))
  next
    case False
    then have "(a + len) AND 0xfff \<noteq> 0" using m by (auto simp: j_def)
    moreover have "unat (len + (0x1000 - ((a + len) AND 0xfff))) = unat len + (4096 - j)"
    proof -
      have "unat len + unat (0x1000 - ((a + len) AND 0xfff)) < 2 ^ LENGTH(64)"
        using d assms(4,5) by (simp flip: j_def)
      then have "unat (len + (0x1000 - ((a + len) AND 0xfff))) = unat len + unat (0x1000 - ((a + len) AND 0xfff))"
        by (simp only: unat_add_lem)
      then show ?thesis by (simp only: d j_def)
    qed
    ultimately show ?thesis using False kj by (simp add: round_to_block_def assms(1))
  qed
  have "4096 * k + j \<le> 4096 * q" using assms(5) kj(1) q by simp
  then have kq: "j \<noteq> 0 \<Longrightarrow> k < q" by (cases "k < q") simp_all
  show "unat len \<le> unat (round_to_block fdev a len)" unfolding r using kj by simp
  show "unat (round_to_block fdev a len) mod 4096 = 0" unfolding r using j_def by simp
  show "unat (round_to_block fdev a len) \<le> unat sz"
  proof (cases "j = 0")
    case False
    then have "4096 * (k + 1) \<le> 4096 * q" using kq by (intro mult_le_mono2) simp
    then show ?thesis unfolding r q using False by simp
  qed (simp add: r assms(5))
qed

lemma ones_and: "(0xff :: u8) AND b = b"
proof -
  have "(0xff :: u8) = - 1" by simp
  then show ?thesis by (simp only: and.left_neutral)
qed

lemma programmed_range:
  assumes "n \<le> length bs" "i < n"
  shows "and_range a (take n bs) (fill_range a n m) (a + i) = bs ! i"
  using assms by (simp add: and_range_def fill_range_def ones_and)

lemma extends_answers: "extends s t \<Longrightarrow> w_kcall t = w_kcall s"
  unfolding extends_def same_world_def by (cases s; cases t) simp

text \<open>What is programmed is what is read back.\<close>

lemma program_single_ok:
  assumes "spi_idle fdev delay ch0 ch s" "ch_busy ch = 0" "spi_ready fdev"
    "unat off mod 4096 = 0" "unat sz mod 4096 = 0" "unat off + unat sz \<le> 2 ^ 32"
    "unat off mod 65536 = 0 \<or> 2 ^ 24 \<le> unat off" "length segment = unat sz" "unat len \<le> unat sz"
    "\<forall>h x. w_kcall s h ''calloc'' x \<noteq> 0"
  shows "\<exists>w m s'. program_single fdev off sz segment len s = Some (Inr 0, s') \<and>
    spi_idle fdev delay ch0 (ch\<lparr>ch_mem := m, ch_wel := w\<rparr>) s' \<and>
    (\<forall>i<unat len. m (unat off + i) = segment ! i) \<and> (\<forall>x. x < unat off \<or> unat off + unat sz \<le> x \<longrightarrow> m x = ch_mem ch x)"
proof -
  define L where "L = round_to_block fdev off len"
  have b: "fl_erase_block_size fdev = 0x1000" "fw_step (fl_write_buffer_size fdev) = 0x10000"
    using assms(3) by (simp_all add: spi_ready_def fw_step_small)
  note l = round_to_block_bounds [OF b(1) assms(4,5,6,9), folded L_def]
  have e: "unat off + unat L \<le> 2 ^ 32" using l(2) assms(6) by simp
  from erase_pieces_fill [OF assms(1,2,3) e assms(4) l(3)] obtain w1 s1 where
    s1: "flash_erase_pieces 0x10000 fdev off L s = Some (0, s1)" "extends s s1"
      "spi_idle fdev delay ch0 (ch\<lparr>ch_mem := fill_range (unat off) (unat L) (ch_mem ch), ch_wel := w1\<rparr>) s1" by blast
  define m where "m = and_range (unat off) (take (unat L) segment) (fill_range (unat off) (unat L) (ch_mem ch))"
  have sl: "unat L \<le> length segment" using l(2) assms(8) by simp
  from write_pieces_program [OF s1(3) _ assms(3) e sl] assms(2) obtain w2 s2 where
    s2: "flash_write_pieces 0x10000 fdev off L segment s1 = Some (0, s2)" "extends s1 s2"
      "spi_idle fdev delay ch0 (ch\<lparr>ch_mem := m, ch_wel := w2\<rparr>) s2" by (auto simp: m_def)
  obtain p s3 where s3: "fw_alloc sz s2 = Some (p, s3)" "spi_idle fdev delay ch0 (ch\<lparr>ch_mem := m, ch_wel := w2\<rparr>) s3"
  proof -
    obtain p t where k: "kcall ''calloc'' [uint sz, 1] s2 = (p, t)" by force
    have "w_kcall s2 = w_kcall s" using extends_answers s1(2) s2(2) by simp
    then have "p \<noteq> 0" using assms(10) k by (auto simp: kcall_def)
    then show thesis using that [of p t] k spi_idle_kcall [OF s2(3), of "''calloc''" "[uint sz, 1]"]
      by (simp add: fw_alloc_def)
  qed
  have c: "no_crossing off L" using assms(7) by (auto simp: no_crossing_def)
  from read_pieces_memory [OF s3(2) _ assms(3) e c, of "[]"] assms(2) obtain s4 where
    s4: "flash_read_pieces fdev off L [] s3 = Some (0, map m [unat off..<unat off + unat L], s4)"
      "spi_idle fdev delay ch0 (ch\<lparr>ch_mem := m, ch_wel := w2\<rparr>) s4" by auto
  have v: "m (unat off + i) = segment ! i" if "i < unat L" for i
    using programmed_range [OF sl that] by (simp add: m_def)
  then have eq: "map m [unat off..<unat off + unat L] = take (unat L) segment"
    using sl by (intro nth_equalityI) simp_all
  have "program_single fdev off sz segment len s = Some (Inr 0, fw_free p s4)"
    using s1(1) s2(1) s3(1) s4(1) b l(2) sl assms(8)
    by (simp add: program_single_def Let_def flash_erase_progress_def flash_write_progress_def flash_read_progress_def
        fw_step_small into_buffer_def mem_differs_def eq flip: L_def)
  moreover have "spi_idle fdev delay ch0 (ch\<lparr>ch_mem := m, ch_wel := w2\<rparr>) (fw_free p s4)"
    using s4(2) attached_cong [of "fw_free p s4" s4] by (simp add: spi_at_def fw_free_def kvoid_def)
  moreover have "m x = ch_mem ch x" if "x < unat off \<or> unat off + unat sz \<le> x" for x
    using that l(2) sl by (auto simp: m_def and_range_def fill_range_def)
  ultimately show ?thesis using v l(1) by (meson less_le_trans)
qed

section \<open>An image from a file\<close>

text \<open>What the allocator and the file functions answer when they succeed.\<close>

definition files_ok :: "sys \<Rightarrow> bool" where
  "files_ok s \<longleftrightarrow> (\<forall>h x. w_kcall s h ''calloc'' x \<noteq> 0) \<and> (\<forall>h x. w_kcall s h ''fopen'' x \<noteq> 0) \<and>
     (\<forall>h n fp. w_kcall s h ''fread'' [n, fp] = n)"

lemma files_ok_kcall [simp]: "files_ok (snd (kcall f x s)) = files_ok s" "files_ok (kvoid f x s) = files_ok s"
  by (simp_all add: files_ok_def kcall_def kvoid_def)

lemma spi_idle_kvoid: "spi_idle fdev delay ch0 ch s \<Longrightarrow> spi_idle fdev delay ch0 ch (kvoid f x s)"
  using attached_cong [of "kvoid f x s" s] by (simp add: kvoid_def spi_at_def)

lemma fw_alloc_ok:
  assumes "files_ok s" "spi_idle fdev delay ch0 ch s"
  obtains p s' where "fw_alloc n s = Some (p, s')" "files_ok s'" "spi_idle fdev delay ch0 ch s'"
proof -
  obtain p t where k: "kcall ''calloc'' [uint n, 1] s = (p, t)" by force
  then have "p \<noteq> 0" using assms(1) by (auto simp: kcall_def files_ok_def)
  then show thesis using that [of p t] k spi_idle_kcall [OF assms(2), of "''calloc''" "[uint n, 1]"]
      files_ok_kcall(1) [of "''calloc''" "[uint n, 1]" s] assms(1) by (simp add: fw_alloc_def)
qed

lemma load_bin_ok:
  assumes "files_ok s" "spi_idle fdev delay ch0 ch s" "length contents \<le> unat sz"
  obtains s' where "load_bin contents sz s = Some (Some (contents @ replicate (unat sz - length contents) 0xff, word_of_nat (length contents)), s')"
    "files_ok s'" "spi_idle fdev delay ch0 ch s'"
proof -
  obtain fp s1 where k: "kcall ''fopen'' [] s = (fp, s1)" by force
  then have 1: "fp \<noteq> 0" "files_ok s1" "spi_idle fdev delay ch0 ch s1"
    using files_ok_kcall(1) [of "''fopen''" "[]" s] spi_idle_kcall [OF assms(2), of "''fopen''" "[]"] assms(1)
    by (auto simp: kcall_def files_ok_def)
  define s2 where "s2 = kvoid ''rewind'' [fp] (kvoid ''ftell'' [fp] (kvoid ''fseek'' [fp] s1))"
  have 2: "files_ok s2" "spi_idle fdev delay ch0 ch s2" using 1 by (simp_all add: s2_def spi_idle_kvoid)
  have u: "unat (word_of_nat (length contents) :: u64) = length contents"
    using assms(3) unsigned_less [of sz, where 'a = nat] by (simp add: unat_of_nat take_bit_nat_eq_self)
  then have n: "\<not> (word_of_nat (length contents) :: u64) > sz" using assms(3) by (simp add: word_less_nat_alt)
  let ?x = "[uint (word_of_nat (length contents) :: u64), fp]"
  obtain r s3 where r: "kcall ''fread'' ?x s2 = (r, s3)" by force
  then have 3: "r = uint (word_of_nat (length contents) :: u64)" "files_ok s3" "spi_idle fdev delay ch0 ch s3"
    using files_ok_kcall(1) [of "''fread''" ?x s2] spi_idle_kcall [OF 2(2), of "''fread''" ?x] 2(1)
    by (auto simp: kcall_def files_ok_def)
  show thesis using that [of "kvoid ''fclose'' [fp] s3"] k 1(1) n r 3 u assms(3)
    by (simp add: load_bin_def into_buffer_def spi_idle_kvoid flip: s2_def)
qed

text \<open>C8: a binary image that is written to a segment of a serial flash is what reading the segment then finds,
  whatever was in the flash, also across the addresses that need a fourth byte.\<close>

theorem fw_write_read:
  assumes "spi_idle fdev delay ch0 ch s" "ch_busy ch = 0" "spi_ready fdev" "files_ok s"
    "unat off mod 4096 = 0" "unat sz mod 4096 = 0" "unat off + unat sz \<le> 2 ^ 32" "unat off mod 65536 = 0 \<or> 2 ^ 24 \<le> unat off"
    "ff_pri fl = Some fdev" "\<not> ff_dual fl" "\<not> ff_bitswap fl" "file_type_from_ext (fe_junk env) name = FILE_TYPE_BIN"
    "length (fe_file env name) \<le> unat sz" "take 4 (drop 0x50 (fe_file env name)) = SYNC_WORD"
  shows "\<exists>s1 seg s2. fw_write env name part fl off sz s = Some (Inr 0, s1) \<and>
    fw_read_segment fl off sz s1 = Some (seg, s2) \<and> length seg = unat sz \<and>
    take (length (fe_file env name)) seg = fe_file env name"
proof -
  let ?c = "fe_file env name" and ?n = "word_of_nat (length (fe_file env name)) :: u64"
  define segment where "segment = ?c @ replicate (unat sz - length ?c) 0xff"
  have len: "length segment = unat sz" using assms(13) by (simp add: segment_def)
  have u: "unat ?n = length ?c"
    using assms(13) unsigned_less [of sz, where 'a = nat] by (simp add: unat_of_nat take_bit_nat_eq_self)
  obtain p s1 where 1: "fw_alloc sz s = Some (p, s1)" "files_ok s1" "spi_idle fdev delay ch0 ch s1"
    using fw_alloc_ok [OF assms(4,1)] by metis
  obtain s2 where 2: "load_bin ?c sz s1 = Some (Some (segment, ?n), s2)" "files_ok s2" "spi_idle fdev delay ch0 ch s2"
    using load_bin_ok [OF 1(2,3) assms(13)] unfolding segment_def by metis
  have "length (take 4 (drop 0x50 ?c)) = 4" unfolding assms(14) by (simp add: SYNC_WORD_def)
  then have c: "0x54 \<le> length ?c" by simp
  have sync: "sync_at segment 0x50 = Some True"
    using c len assms(13,14) by (simp add: sync_at_def segment_def)
  have "\<forall>h x. w_kcall s2 h ''calloc'' x \<noteq> 0" using 2(2) by (simp add: files_ok_def)
  from program_single_ok [OF 2(3) assms(2,3,5,6,7,8) len _ this, of ?n] u assms(13) obtain w m s3 where
    3: "program_single fdev off sz segment ?n s2 = Some (Inr 0, s3)"
      "spi_idle fdev delay ch0 (ch\<lparr>ch_mem := m, ch_wel := w\<rparr>) s3" "\<forall>i<length ?c. m (unat off + i) = segment ! i"
    by auto
  have w: "fw_write env name part fl off sz s = Some (Inr 0, fw_free p s3)"
    using 1(1) 2(1) 3(1) sync assms(9-12) by (simp add: fw_write_def load_image_def)
  have "spi_idle fdev delay ch0 (ch\<lparr>ch_mem := m, ch_wel := w\<rparr>) (fw_free p s3)"
    using spi_idle_kvoid [OF 3(2)] by (simp add: fw_free_def)
  moreover have "no_crossing off sz" using assms(8) by (auto simp: no_crossing_def)
  ultimately obtain s4 where
    r: "flash_read_pieces fdev off sz [] (fw_free p s3) = Some (0, map m [unat off..<unat off + unat sz], s4)"
    using read_pieces_memory [OF _ _ assms(3,7), of delay ch0 "ch\<lparr>ch_mem := m, ch_wel := w\<rparr>" "fw_free p s3" "[]"] assms(2) by auto
  have "fw_read_segment fl off sz (fw_free p s3) = Some (map m [unat off..<unat off + unat sz], s4)"
    using r assms(9-11) by (simp add: fw_read_segment_def flash_read_progress_def into_buffer_def)
  moreover have "take (length ?c) (map m [unat off..<unat off + unat sz]) = ?c"
    using 3(3) assms(13) by (intro nth_equalityI) (simp_all add: segment_def nth_append)
  ultimately show ?thesis using w by auto
qed

definition demo_image :: "u8 list" where
  "demo_image = replicate 0x50 0 @ SYNC_WORD @ [1, 2, 3]"

definition demo_fw :: fw_env where
  "demo_fw = \<lparr>fe_realpath = \<lambda>_. None, fe_file = \<lambda>_. demo_image, fe_junk = [], fe_pci_junk = [], fe_path_max = 4096\<rparr>"

definition demo_flash_dev :: flash_device where
  "demo_flash_dev = (zero_flash Spi_flash_driver 4 0x100 0 0)\<lparr>fl_write_buffer_size := 0x100, fl_erase_block_size := 0x1000,
     fl_read_dummy_cycles := 10\<rparr>"

definition demo_files :: "event list \<Rightarrow> string \<Rightarrow> int list \<Rightarrow> int" where
  "demo_files h f x = (if f = ''fread'' then hd x else 1)"

definition demo_fl :: fw_flash where
  "demo_fl = no_flash\<lparr>ff_pri := Some demo_flash_dev\<rparr>"

theorem fw_write_read_witness:
  "\<exists>s1 seg s2. fw_write demo_fw ''fpga.bin'' '''' demo_fl 0x1002000 0x20000
      (flash_world demo_flash_dev 2 demo_chip\<lparr>w_kcall := demo_files\<rparr>) = Some (Inr 0, s1) \<and>
    fw_read_segment demo_fl 0x1002000 0x20000 s1 = Some (seg, s2) \<and> length seg = 0x20000 \<and>
    take (length demo_image) seg = demo_image"
proof -
  let ?s = "flash_world demo_flash_dev 2 demo_chip\<lparr>w_kcall := demo_files\<rparr>"
  have "spi_idle demo_flash_dev 2 demo_chip demo_chip ?s"
    using flash_world_idle [of demo_flash_dev 2 demo_chip] attached_cong [of ?s "flash_world demo_flash_dev 2 demo_chip"]
    by (simp add: spi_at_def)
  moreover have "spi_ready demo_flash_dev" by (simp add: spi_ready_def demo_flash_dev_def zero_flash_def)
  moreover have "files_ok ?s" by (simp add: files_ok_def demo_files_def)
  moreover have "file_type_from_ext [] ''fpga.bin'' = FILE_TYPE_BIN" by code_simp
  ultimately show ?thesis
    using fw_write_read [of demo_flash_dev 2 demo_chip demo_chip ?s "0x1002000" "0x20000" demo_fl demo_fw "''fpga.bin''" "''''"]
    by (simp add: demo_chip_def demo_fl_def no_flash_def demo_fw_def demo_image_def SYNC_WORD_def)
qed

section \<open>Two flashes\<close>

lemma nibbles:
  "first_byte (pri_nibbles x y) (sec_nibbles x y) = x" "second_byte (pri_nibbles x y) (sec_nibbles x y) = y"
proof -
  have "bit (first_byte (pri_nibbles x y) (sec_nibbles x y)) n = bit x n \<and>
      bit (second_byte (pri_nibbles x y) (sec_nibbles x y)) n = bit y n" if "n < 8" for n
  proof -
    have "n \<in> {0, 1, 2, 3, 4, 5, 6, 7}" using that by (simp, presburger)
    then show ?thesis
      by (elim insertE emptyE)
        (simp_all add: first_byte_def second_byte_def pri_nibbles_def sec_nibbles_def bit_simps bit_numeral_rec)
  qed
  then show "first_byte (pri_nibbles x y) (sec_nibbles x y) = x" "second_byte (pri_nibbles x y) (sec_nibbles x y) = y"
    by (auto intro!: bit_word_eqI)
qed

lemma pairs_of_list:
  "p + 2 * n \<le> length xs \<Longrightarrow> concat (map (\<lambda>i. [xs ! (p + 2 * i), xs ! (p + 2 * i + 1)]) [0..<n]) = take (2 * n) (drop p xs)"
proof (induction n)
  case (Suc n)
  then have "take (2 * Suc n) (drop p xs) = take (2 * n) (drop p xs) @ [xs ! (p + 2 * n), xs ! (p + 2 * n + 1)]"
    by (simp add: take_Suc_conv_app_nth)
  with Suc show ?case by simp
qed simp

lemma dual_rounds_even:
  assumes "even (unat ss)" "2 * dual_offset \<le> unat ss"
  shows "dual_offset + dual_rounds ss = unat ss div 2" "dual_offset + 2 * dual_rounds ss = unat ss - dual_offset" "dual_in_bounds ss"
proof -
  obtain k where k: "unat ss = 2 * k" using assms(1) by blast
  have "unat (ss - word_of_nat dual_offset) = unat ss - dual_offset"
    using assms(2) by (simp add: unat_sub word_le_nat_alt dual_offset_def)
  then have r: "dual_rounds ss = k - dual_offset" using assms(2) k by (simp add: dual_rounds_def dual_offset_def)
  then show "dual_offset + dual_rounds ss = unat ss div 2" "dual_offset + 2 * dual_rounds ss = unat ss - dual_offset"
    using assms(2) k by (simp_all add: dual_offset_def)
  then show "dual_in_bounds ss" by (simp add: dual_in_bounds_def unat_div)
qed

text \<open>C38: an image that was split over two flashes is put together again, except for its last \<open>0x68\<close> bytes, which
  neither flash gets.\<close>

theorem dual_split_merge:
  assumes "length segment = unat ss" "even (unat ss)" "0xd0 \<le> unat ss"
  shows "\<exists>pri sec. dual_split ss segment = Some (pri, sec) \<and> length pri = unat ss div 2 \<and> length sec = unat ss div 2 \<and>
    dual_merge ss pri sec = Some (take (unat ss - 0x68) segment @ replicate 0x68 0xff)"
proof -
  have l: "2 * dual_offset \<le> unat ss" using assms(3) by (simp add: dual_offset_def)
  note r = dual_rounds_even [OF assms(2) l]
  define n where "n = dual_rounds ss"
  define xy where "xy = (\<lambda>f :: u8 \<Rightarrow> u8 \<Rightarrow> u8. map (\<lambda>i. f (segment ! (dual_offset + 2 * i)) (segment ! (dual_offset + 2 * i + 1))) [0..<n])"
  let ?p = "take dual_offset segment @ xy pri_nibbles" and ?q = "replicate dual_offset 0xff @ xy sec_nibbles"
  have lx: "length (xy f) = n" for f by (simp add: xy_def)
  have lt: "length (take dual_offset segment) = dual_offset" using assms(1) l by simp
  have s: "dual_split ss segment = Some (?p, ?q)"
    using r by (simp add: dual_split_def unat_div xy_def n_def Let_def)
  have x: "?p ! (dual_offset + i) = pri_nibbles (segment ! (dual_offset + 2 * i)) (segment ! (dual_offset + 2 * i + 1)) \<and>
      ?q ! (dual_offset + i) = sec_nibbles (segment ! (dual_offset + 2 * i)) (segment ! (dual_offset + 2 * i + 1))" if "i < n" for i
    using that lx lt by (simp add: nth_append xy_def)
  have c: "concat (map (\<lambda>i. [first_byte (?p ! (dual_offset + i)) (?q ! (dual_offset + i)),
        second_byte (?p ! (dual_offset + i)) (?q ! (dual_offset + i))]) [0..<n]) =
      concat (map (\<lambda>i. [segment ! (dual_offset + 2 * i), segment ! (dual_offset + 2 * i + 1)]) [0..<n])"
    by (intro arg_cong [of _ _ concat] map_cong refl) (simp only: x nibbles set_upt atLeastLessThan_iff)
  have "take dual_offset ?p = take dual_offset segment" using lt by simp
  moreover have "dual_offset + 2 * n \<le> length segment" using r(2) l assms(1) by (simp add: n_def)
  moreover have "unat ss - (dual_offset + 2 * n) = dual_offset" using r(2) l by (simp add: n_def)
  moreover have "take dual_offset segment @ take (2 * n) (drop dual_offset segment) = take (unat ss - dual_offset) segment"
    using take_add [of dual_offset "2 * n" segment] r(2) by (simp add: n_def)
  ultimately have "dual_merge ss ?p ?q = Some (take (unat ss - dual_offset) segment @ replicate dual_offset 0xff)"
    using r(3) unfolding dual_merge_def Let_def n_def [symmetric] c pairs_of_list [OF \<open>dual_offset + 2 * n \<le> length segment\<close>]
    by (simp only: if_True append_assoc [symmetric])
  moreover have "length ?p = unat ss div 2" "length ?q = unat ss div 2" using r(1) lx lt by (simp_all add: n_def)
  ultimately show ?thesis using s by (simp add: dual_offset_def)
qed

theorem dual_split_merge_witness:
  "\<exists>pri sec. dual_split 0x100 (map word_of_nat [0..<0x100]) = Some (pri, sec) \<and> length pri = 0x80 \<and> length sec = 0x80 \<and>
    dual_merge 0x100 pri sec = Some (map word_of_nat [0..<0x98] @ replicate 0x68 0xff)"
  using dual_split_merge [of "map word_of_nat [0..<0x100]" "0x100"] by (simp add: take_map del: upt_rec_numeral)

section \<open>Segments\<close>

lemma equal_segments_nth:
  "i < k \<Longrightarrow> equal_segments k start len ! i = (start + word_of_nat i * len, len)"
proof (induction k arbitrary: i start)
  case (Suc k)
  then show ?case by (cases i) (simp_all add: algebra_simps)
qed simp

lemma length_equal_segments [simp]: "length (equal_segments k start len) = k"
  by (induction k arbitrary: start) simp_all

lemma equal_segments_table:
  assumes "k * unat len \<le> unat (n :: u64)"
  shows "\<forall>i<k. unat (fst (equal_segments k 0 len ! i)) = (\<Sum>j<i. unat (snd (equal_segments k 0 len ! j)))"
    "(\<Sum>j<k. unat (snd (equal_segments k 0 len ! j))) = k * unat len"
proof -
  show "(\<Sum>j<k. unat (snd (equal_segments k 0 len ! j))) = k * unat len"
    by (simp add: equal_segments_nth)
  show "\<forall>i<k. unat (fst (equal_segments k 0 len ! i)) = (\<Sum>j<i. unat (snd (equal_segments k 0 len ! j)))"
  proof (intro allI impI)
    fix i assume i: "i < k"
    then have "i * unat len \<le> k * unat len" by (intro mult_le_mono1) simp
    moreover have "unat n < 2 ^ 64" using unsigned_less [of n, where 'a = nat] by simp
    ultimately have "i * unat len < 2 ^ 64" using assms by (meson le_less_trans le_trans)
    then have "unat (word_of_nat i * len) = i * unat len"
    proof -
      have "word_of_nat i * len = (word_of_nat (i * unat len) :: u64)" by simp
      then show ?thesis using \<open>i * unat len < 2 ^ 64\<close> by (simp only: unat_of_nat take_bit_nat_eq_self)
          (simp add: take_bit_nat_eq_self)
    qed
    then show "unat (fst (equal_segments k 0 len ! i)) = (\<Sum>j<i. unat (snd (equal_segments k 0 len ! j)))"
      using i by (simp add: equal_segments_nth)
  qed
qed

lemma two_segments:
  assumes "segs = [(0, x), (x, y)]" "unat (x :: u64) + unat (y :: u64) = n"
  shows "segs \<noteq> [] \<and> length segs \<le> 8 \<and> (\<forall>i<length segs. unat (fst (segs ! i)) = (\<Sum>j<i. unat (snd (segs ! j)))) \<and>
    (\<Sum>j<length segs. unat (snd (segs ! j))) = n"
  using assms by (simp add: less_Suc_eq)

lemma equal_segments_fill:
  assumes "k = 2 ^ i" "i \<le> 3" "segs = equal_segments k 0 (drop_bit i n)"
  shows "segs \<noteq> [] \<and> length segs \<le> 8 \<and>
    (\<forall>j<length segs. unat (fst (segs ! j)) = (\<Sum>m<j. unat (snd (segs ! m)))) \<and>
    (\<Sum>j<length segs. unat (snd (segs ! j))) \<le> unat n \<and>
    (8 dvd unat n \<longrightarrow> (\<Sum>j<length segs. unat (snd (segs ! j))) = unat n)"
proof -
  have u: "unat (drop_bit i n) = unat n div k" using assms(1) by (simp add: unat_drop_bit)
  then have le: "k * unat (drop_bit i n) \<le> unat n" by simp
  have "k dvd 8" using assms le_imp_power_dvd [of i 3 "2 :: nat"] by simp
  then have "8 dvd unat n \<Longrightarrow> k * unat (drop_bit i n) = unat n" unfolding u by (meson dvd_mult_div_cancel dvd_trans)
  moreover have "0 < k" "k \<le> 8" using assms \<open>k dvd 8\<close> by (simp_all add: dvd_imp_le)
  moreover from this have "segs \<noteq> []" using length_equal_segments [of k 0 "drop_bit i n"] unfolding assms(3) by force
  ultimately show ?thesis using equal_segments_table [OF le] le unfolding assms(3) by simp
qed

text \<open>C39: the segments of a flash follow each other from its start without a gap, end inside of it, are at most
  eight, and fill it when its size is a multiple of eight.\<close>

theorem flash_segments_table:
  assumes "flash_segments c n = Some segs"
  shows "segs \<noteq> [] \<and> length segs \<le> 8 \<and>
    (\<forall>i<length segs. unat (fst (segs ! i)) = (\<Sum>j<i. unat (snd (segs ! j)))) \<and>
    (\<Sum>j<length segs. unat (snd (segs ! j))) \<le> unat n \<and>
    (8 dvd unat n \<longrightarrow> (\<Sum>j<length segs. unat (snd (segs ! j))) = unat n)"
proof -
  consider "c = 0 \<or> c = 1" | "c = 2" | "c = 4" | "c = 8" | "c = 0x81"
    using assms by (auto simp: flash_segments_def split: if_splits)
  then show ?thesis
  proof cases
    case 1
    then show ?thesis using assms by (auto simp: flash_segments_def)
  next
    case 2
    then have "segs = equal_segments 2 0 (drop_bit 1 n)" using assms by (simp add: flash_segments_def)
    then show ?thesis by (intro equal_segments_fill [of 2 1]) simp_all
  next
    case 3
    then have "segs = equal_segments 4 0 (drop_bit 2 n)" using assms by (simp add: flash_segments_def)
    then show ?thesis by (intro equal_segments_fill [of 4 2]) simp_all
  next
    case 4
    then have "segs = equal_segments 8 0 (drop_bit 3 n)" using assms by (simp add: flash_segments_def)
    then show ?thesis by (intro equal_segments_fill [of 8 3]) simp_all
  next
    case 5
    then have s: "segs = [(0, 0x01002000), (0x01002000, n - 0x01002000)]" "\<not> n < 0x01002000"
      using assms by (auto simp: flash_segments_def split: if_splits)
    then have "unat (n - 0x01002000) = unat n - 0x01002000" "0x01002000 \<le> unat n"
      by (simp_all add: unat_sub word_less_nat_alt word_le_nat_alt not_less)
    moreover have "unat (0x01002000 :: u64) = 0x01002000" by simp
    ultimately have n: "unat (0x01002000 :: u64) + unat (n - 0x01002000) = unat n" by linarith
    show ?thesis using two_segments [OF s(1) n] by simp
  qed
qed

theorem flash_segments_table_witness:
  "\<exists>segs. flash_segments 4 0x2000000 = Some segs \<and> length segs \<le> 8 \<and> (\<Sum>j<length segs. unat (snd (segs ! j))) = 0x2000000"
  using flash_segments_table [of 4 "0x2000000" "equal_segments 4 0 0x800000"]
  by (simp add: flash_segments_def drop_bit_numeral_bit0)

end
