(* ===== verification/Tools.thy ===== *)
theory Tools
  imports FwMain Timespec Board
begin

text \<open>
  The smaller tools: a periodic output (\<open>utils/perout.c\<close>), the time slots of a port (\<open>utils/mqnic-config.c\<close>) and
  the board controller (\<open>utils/mqnic-bmc.c\<close>). Each takes the options \<open>getopt\<close> finds, in order; what a tool
  prints about the device itself is left out, the readings of the controller are a \<open>printf\<close> of the history.
\<close>

text \<open>Numbers are read with \<open>atoll\<close>, which is \<open>atoi\<close> for a wider type.\<close>

abbreviation (input) atoll :: "string \<Rightarrow> int" where "atoll \<equiv> atoi"

section \<open>Periodic output\<close>

record po_opts =
  po_device :: "string option"
  po_start :: int
  po_period :: int

fun po_parse :: "(char \<times> string) list \<Rightarrow> po_opts \<Rightarrow> int + po_opts" where
  "po_parse [] opts = Inr opts"
| "po_parse ((c, arg) # xs) opts =
    (if c = CHR ''d'' then po_parse xs (opts\<lparr>po_device := Some arg\<rparr>)
     else if c = CHR ''s'' then po_parse xs (opts\<lparr>po_start := atoll arg\<rparr>)
     else if c = CHR ''p'' then po_parse xs (opts\<lparr>po_period := atoll arg\<rparr>)
     else if c = CHR ''h'' \<or> c = CHR ''?'' then Inl 0
     else Inl (- 1))"

text \<open>The clock of a file: its complement, shifted by three, with 3 in the low bits. All of it is an \<open>int\<close>.\<close>

definition get_clockid :: "int \<Rightarrow> int" where
  "get_clockid fd = sint (push_bit 3 (NOT (word_of_int fd :: u32)) OR 3)"

text \<open>When the clock cannot be read, the file stays open.\<close>

definition po_request :: "po_opts \<Rightarrow> int \<Rightarrow> int \<Rightarrow> sys \<Rightarrow> (int \<times> sys) option" where
  "po_request opts fd clkid s =
    (if po_period opts > 0 then
       case kcall ''clock_gettime'' [clkid] s of (r, s) \<Rightarrow>
       if r \<noteq> 0 then Some (- 1, s)
       else case kcall ''tv_sec'' [clkid] s of (sec, s) \<Rightarrow>
         case kcall ''tv_nsec'' [clkid] s of (nsec, s) \<Rightarrow> do {
           let ts_period = split_nsec (po_period opts);
           ts_start \<leftarrow> align_start \<lparr>tv_sec = sec, tv_nsec = nsec\<rparr> (split_nsec (po_start opts)) ts_period;
           let s = snd (kcall ''ioctl'' [fd, 0, tv_sec ts_start, tv_nsec ts_start, tv_sec ts_period, tv_nsec ts_period] s);
           Some (0, u_close_file fd s) }
     else Some (0, u_close_file fd s))"

definition perout_main :: "(char \<times> string) list \<Rightarrow> sys \<Rightarrow> (int \<times> sys) option" where
  "perout_main args s = (case po_parse args \<lparr>po_device = None, po_start = 0, po_period = 0\<rparr> of
     Inl r \<Rightarrow> Some (r, s)
   | Inr opts \<Rightarrow> (case po_device opts of
       None \<Rightarrow> Some (- 1, s)
     | Some device \<Rightarrow> (case kget ''open'' (codes device) (\<lambda>v. 0 \<le> v) OpenFile s of (fd, s) \<Rightarrow>
         if fd < 0 then Some (- 1, s)
         else if get_clockid fd = - 1 then Some (- 1, u_close_file fd s)
         else po_request opts fd (get_clockid fd) s)))"

section \<open>Time slots\<close>

record cfg_opts =
  co_device :: "string option"
  co_interface :: int
  co_port :: int
  co_start :: int
  co_period :: int
  co_timeslot_period :: int
  co_active_period :: int

definition no_cfg :: cfg_opts where
  "no_cfg = \<lparr>co_device = None, co_interface = 0, co_port = 0, co_start = 0, co_period = 0, co_timeslot_period = 0,
     co_active_period = 0\<rparr>"

fun cfg_parse :: "(char \<times> string) list \<Rightarrow> cfg_opts \<Rightarrow> int + cfg_opts" where
  "cfg_parse [] opts = Inr opts"
| "cfg_parse ((c, arg) # xs) opts =
    (if c = CHR ''d'' then cfg_parse xs (opts\<lparr>co_device := Some arg\<rparr>)
     else if c = CHR ''i'' then cfg_parse xs (opts\<lparr>co_interface := atoi arg\<rparr>)
     else if c = CHR ''P'' then cfg_parse xs (opts\<lparr>co_port := atoi arg\<rparr>)
     else if c = CHR ''s'' then cfg_parse xs (opts\<lparr>co_start := atoll arg\<rparr>)
     else if c = CHR ''p'' then cfg_parse xs (opts\<lparr>co_period := atoll arg\<rparr>)
     else if c = CHR ''t'' then cfg_parse xs (opts\<lparr>co_timeslot_period := atoll arg\<rparr>)
     else if c = CHR ''a'' then cfg_parse xs (opts\<lparr>co_active_period := atoll arg\<rparr>)
     else if c = CHR ''h'' \<or> c = CHR ''?'' then Inl 0
     else Inl (- 1))"

definition PTP_CUR_NS :: addr where "PTP_CUR_NS = 0x0014"
definition TDMA_CTRL :: addr where "TDMA_CTRL = 0x1000"
definition TDMA_SCHED_START_NS :: addr where "TDMA_SCHED_START_NS = 0x1014"
definition TDMA_SCHED_START_SEC_L :: addr where "TDMA_SCHED_START_SEC_L = 0x1018"
definition TDMA_SCHED_START_SEC_H :: addr where "TDMA_SCHED_START_SEC_H = 0x101C"
definition TDMA_SCHED_PERIOD_NS :: addr where "TDMA_SCHED_PERIOD_NS = 0x1024"
definition TDMA_SCHED_PERIOD_SEC_L :: addr where "TDMA_SCHED_PERIOD_SEC_L = 0x1028"
definition TDMA_SCHED_PERIOD_SEC_H :: addr where "TDMA_SCHED_PERIOD_SEC_H = 0x102C"
definition TDMA_TIMESLOT_PERIOD_NS :: addr where "TDMA_TIMESLOT_PERIOD_NS = 0x1034"
definition TDMA_TIMESLOT_PERIOD_SEC_L :: addr where "TDMA_TIMESLOT_PERIOD_SEC_L = 0x1038"
definition TDMA_TIMESLOT_PERIOD_SEC_H :: addr where "TDMA_TIMESLOT_PERIOD_SEC_H = 0x103C"
definition TDMA_ACTIVE_PERIOD_NS :: addr where "TDMA_ACTIVE_PERIOD_NS = 0x1044"
definition TDMA_ACTIVE_PERIOD_SEC_L :: addr where "TDMA_ACTIVE_PERIOD_SEC_L = 0x1048"
definition TDMA_ACTIVE_PERIOD_SEC_H :: addr where "TDMA_ACTIVE_PERIOD_SEC_H = 0x104C"

lemmas tdma_regs = TDMA_CTRL_def TDMA_SCHED_START_NS_def TDMA_SCHED_START_SEC_L_def TDMA_SCHED_START_SEC_H_def
  TDMA_SCHED_PERIOD_NS_def TDMA_SCHED_PERIOD_SEC_L_def TDMA_SCHED_PERIOD_SEC_H_def TDMA_TIMESLOT_PERIOD_NS_def
  TDMA_TIMESLOT_PERIOD_SEC_L_def TDMA_TIMESLOT_PERIOD_SEC_H_def TDMA_ACTIVE_PERIOD_NS_def TDMA_ACTIVE_PERIOD_SEC_L_def
  TDMA_ACTIVE_PERIOD_SEC_H_def

text \<open>A time as three register writes: nanoseconds, low and high half of the seconds.\<close>

definition time_writes :: "addr \<Rightarrow> addr \<Rightarrow> addr \<Rightarrow> timespec \<Rightarrow> (u32 \<times> addr) list" where
  "time_writes ns_reg sec_l_reg sec_h_reg ts =
    [(word_of_int (tv_nsec ts), ns_reg), (word_of_int (tv_sec ts), sec_l_reg), (word_of_int (tv_sec ts div 2 ^ 32), sec_h_reg)]"

text \<open>The clock of the device; shifting a high word with its top bit set leaves the range of \<open>int64_t\<close>, a fault.\<close>

definition cur_time :: "addr \<Rightarrow> sys \<Rightarrow> (timespec \<times> sys) option" where
  "cur_time phc s = (case ioread32 (phc + PTP_CUR_NS) s of (n, s) \<Rightarrow>
     case ioread32 (phc + PTP_CUR_SEC_L) s of (l, s) \<Rightarrow>
     case ioread32 (phc + PTP_CUR_SEC_H) s of (h, s) \<Rightarrow> do {
       high \<leftarrow> chk_long (uint h * 2 ^ 32);
       sec \<leftarrow> chk_long (uint l + high);
       Some (\<lparr>tv_sec = sec, tv_nsec = uint n\<rparr>, s) })"

definition cfg_schedule :: "cfg_opts \<Rightarrow> u_dev \<Rightarrow> addr \<Rightarrow> sys \<Rightarrow> sys option" where
  "cfg_schedule opts dev regs s =
    (if co_period opts > 0 then do {
       (ts_now, s) \<leftarrow> cur_time (ud_phc_regs dev) s;
       let ts_period = split_nsec (co_period opts);
       ts_start \<leftarrow> align_start ts_now (split_nsec (co_start opts)) ts_period;
       Some (iowrites (time_writes (regs + TDMA_SCHED_START_NS) (regs + TDMA_SCHED_START_SEC_L) (regs + TDMA_SCHED_START_SEC_H) ts_start @
         time_writes (regs + TDMA_SCHED_PERIOD_NS) (regs + TDMA_SCHED_PERIOD_SEC_L) (regs + TDMA_SCHED_PERIOD_SEC_H) ts_period @
         [(1, regs + TDMA_CTRL)]) s) }
     else Some s)"

definition cfg_timeslot :: "cfg_opts \<Rightarrow> addr \<Rightarrow> sys \<Rightarrow> sys" where
  "cfg_timeslot opts regs s =
    (if co_timeslot_period opts > 0
     then iowrites (time_writes (regs + TDMA_TIMESLOT_PERIOD_NS) (regs + TDMA_TIMESLOT_PERIOD_SEC_L)
       (regs + TDMA_TIMESLOT_PERIOD_SEC_H) (split_nsec (co_timeslot_period opts))) s
     else s)"

definition cfg_active :: "cfg_opts \<Rightarrow> addr \<Rightarrow> sys \<Rightarrow> sys" where
  "cfg_active opts regs s =
    (if co_active_period opts > 0
     then iowrites (time_writes (regs + TDMA_ACTIVE_PERIOD_NS) (regs + TDMA_ACTIVE_PERIOD_SEC_L)
       (regs + TDMA_ACTIVE_PERIOD_SEC_H) (split_nsec (co_active_period opts))) s
     else s)"

text \<open>The port that is meant, if there is one.\<close>

definition cfg_port :: "cfg_opts \<Rightarrow> u_dev \<Rightarrow> u_port option" where
  "cfg_port opts dev =
    (if ud_phc_count dev = 0 \<or> co_interface opts < 0 \<or> uint (ud_if_count dev) \<le> co_interface opts then None
     else case ud_interfaces dev (nat (co_interface opts)) of
         None \<Rightarrow> None
       | Some i \<Rightarrow> if co_port opts < 0 \<or> uint (ui_port_count i) \<le> co_port opts then None else ui_ports i (nat (co_port opts)))"

text \<open>The tool returns 0 also when it could not do what it was asked for.\<close>

definition config_main :: "nat \<Rightarrow> (char \<times> string) list \<Rightarrow> sys \<Rightarrow> (int \<times> sys) option" where
  "config_main path_max args s = (case cfg_parse args no_cfg of
     Inl r \<Rightarrow> Some (r, s)
   | Inr opts \<Rightarrow> (case co_device opts of
       None \<Rightarrow> Some (- 1, s)
     | Some device \<Rightarrow> do {
         (dev, s) \<leftarrow> util_open path_max device s;
         (case dev of
            None \<Rightarrow> Some (- 1, s)
          | Some d \<Rightarrow> do {
              s \<leftarrow> (case cfg_port opts d of
                  None \<Rightarrow> Some s
                | Some p \<Rightarrow> do {
                    s \<leftarrow> cfg_schedule opts d (up_regs p) s;
                    Some (cfg_active opts (up_regs p) (cfg_timeslot opts (up_regs p) s)) });
              s \<leftarrow> util_close dev s;
              Some (0, s) }) }))"

section \<open>Board controllers\<close>

definition bmc_alveo_read :: "u_dev \<Rightarrow> u32 \<Rightarrow> sys \<Rightarrow> u32 \<times> sys" where
  "bmc_alveo_read dev reg s =
    (let s = snd (ioread32 (ud_regs dev + 0x0184) (iowrite32 reg (ud_regs dev + 0x0180) s)) in ioread32 (ud_regs dev + 0x0184) s)"

definition bmc_alveo_write :: "u_dev \<Rightarrow> u32 \<Rightarrow> u32 \<Rightarrow> sys \<Rightarrow> sys" where
  "bmc_alveo_write dev reg val s =
    snd (ioread32 (ud_regs dev + 0x0184) (iowrite32 val (ud_regs dev + 0x0184) (iowrite32 reg (ud_regs dev + 0x0180) s)))"

text \<open>Register, name and unit of each sensor; the entry that ends the table is left out.\<close>

definition alveo_bmc_sensors :: "(u32 \<times> string \<times> string) list" where
  "alveo_bmc_sensors = [(0x0020, ''12V_PEX'', ''mV''), (0x002c, ''3V3_PEX'', ''mV''), (0x0038, ''3V3_AUX'', ''mV''),
    (0x0044, ''12V_AUX'', ''mV''), (0x0050, ''DDR4_VPP_BTM'', ''mV''), (0x005c, ''SYS_5V5'', ''mV''),
    (0x0068, ''VCC1V2_TOP'', ''mV''), (0x0074, ''VCC1V8'', ''mV''), (0x0080, ''VCC0V85'', ''mV''),
    (0x008c, ''DDR4_VPP_TOP'', ''mV''), (0x0098, ''MGT0V9AVCC'', ''mV''), (0x00a4, ''12VSW'', ''mV''),
    (0x00b0, ''MGTAVTT'', ''mV''), (0x00bc, ''VCC1V2_BTM'', ''mV''), (0x00c8, ''12VPEX_I_IN'', ''mA''),
    (0x00d4, ''12V_AUX_I_IN'', ''mA''), (0x00e0, ''VCCINT'', ''mV''), (0x00ec, ''VCCINT_I'', ''mA''),
    (0x00f8, ''FPGA_TEMP'', ''C''), (0x0104, ''FAN_TEMP'', ''C''), (0x0110, ''DIMM_TEMP0'', ''C''),
    (0x011c, ''DIMM_TEMP1'', ''C''), (0x0128, ''DIMM_TEMP2'', ''C''), (0x0134, ''DIMM_TEMP3'', ''C''),
    (0x0140, ''SE98_TEMP0'', ''C''), (0x014c, ''SE98_TEMP1'', ''C''), (0x0158, ''SE98_TEMP2'', ''C''),
    (0x0164, ''FAN_SPEED'', ''RPM''), (0x0170, ''CAGE_TEMP0'', ''C''), (0x017c, ''CAGE_TEMP1'', ''C''),
    (0x0188, ''CAGE_TEMP2'', ''C''), (0x0194, ''CAGE_TEMP3'', ''C''), (0x0260, ''HBM_TEMP1'', ''C''),
    (0x026c, ''VCC3V3'', ''mV''), (0x0278, ''3V3_PEX_I_IN'', ''mA''), (0x0284, ''VCC0V85_I'', ''mA''),
    (0x0290, ''HBM_1V2'', ''mV''), (0x029c, ''VPP2V5'', ''mV''), (0x02a8, ''VCCINT_BRAM'', ''mV''),
    (0x02b4, ''HBM_TEMP2'', ''C''), (0x02c0, ''12V_AUX1'', ''mV''), (0x02cc, ''VCCINT_TEMP'', ''C''),
    (0x02d8, ''PEX_12V_POWER'', ''mW''), (0x02e4, ''PEX_3V3_POWER'', ''mW''), (0x02f0, ''AUX_3V3_I'', ''mA''),
    (0x0314, ''VCC1V2_I'', ''mA''), (0x0320, ''V12_IN_I'', ''mA''), (0x032c, ''V12_IN_AUX0_I'', ''mA''),
    (0x0338, ''V12_IN_AUX1_I'', ''mA''), (0x0344, ''VCCAUX'', ''mV''), (0x0350, ''VCCAUX_PMC'', ''mV''),
    (0x035c, ''VCCRAM'', ''mV'')]"

text \<open>At most \<open>timeout\<close> reads of the status.\<close>

primrec bmc_gecko_poll :: "nat \<Rightarrow> u_dev \<Rightarrow> sys \<Rightarrow> int \<times> sys" where
  "bmc_gecko_poll 0 dev s = (- 1, s)"
| "bmc_gecko_poll (Suc timeout) dev s = (case ioread32 (ud_regs dev + 0x0188) s of (val, s) \<Rightarrow>
     if bit val 19 then
       if bit val 18 then (- 2, kvoid ''usleep'' [10000] s) else (uint (val AND 0xffff), s)
     else if timeout = 0 then (- 1, s)
     else bmc_gecko_poll timeout dev (kvoid ''usleep'' [10] s))"

definition bmc_gecko_read :: "u_dev \<Rightarrow> sys \<Rightarrow> int \<times> sys" where
  "bmc_gecko_read dev s = bmc_gecko_poll 20000 dev s"

definition bmc_gecko_write :: "u_dev \<Rightarrow> u16 \<Rightarrow> u32 \<Rightarrow> sys \<Rightarrow> int \<times> sys" where
  "bmc_gecko_write dev cmd data s = (case bmc_gecko_read dev s of (ret, s) \<Rightarrow>
     if ret = - 1 then (ret, s)
     else (0, iowrite32 (push_bit 16 (ucast cmd)) (ud_regs dev + 0x0184) (iowrite32 data (ud_regs dev + 0x0180) s)))"

definition bmc_gecko_query :: "u_dev \<Rightarrow> u16 \<Rightarrow> u32 \<Rightarrow> sys \<Rightarrow> int \<times> sys" where
  "bmc_gecko_query dev cmd data s = (case bmc_gecko_write dev cmd data s of (ret, s) \<Rightarrow>
     if ret \<noteq> 0 then (ret, s) else bmc_gecko_read dev s)"

definition bmc_print :: "u32 list \<Rightarrow> sys \<Rightarrow> sys" where
  "bmc_print vs s = kvoid ''printf'' (map uint vs) s"

text \<open>Maximum, average and instantaneous value of a sensor are three registers.\<close>

definition bmc_sensor :: "u_dev \<Rightarrow> u32 \<times> string \<times> string \<Rightarrow> sys \<Rightarrow> sys" where
  "bmc_sensor dev sensor s = (let reg = 0x028000 + fst sensor;
     (val_max, s) = bmc_alveo_read dev reg s;
     (val_avg, s) = bmc_alveo_read dev (reg + 4) s;
     (val_ins, s) = bmc_alveo_read dev (reg + 8) s
     in bmc_print [val_ins, val_avg, val_max] s)"

definition bmc_alveo_mac :: "u_dev \<Rightarrow> nat \<Rightarrow> sys \<Rightarrow> u8 list \<times> sys" where
  "bmc_alveo_mac dev k s = (let reg = 0x0281a0 + word_of_nat k * 8;
     (v, s) = bmc_alveo_read dev reg s;
     (w, s) = bmc_alveo_read dev (reg + 4) s
     in ([ucast (drop_bit 8 v AND 0xff), ucast (v AND 0xff), ucast (drop_bit 24 w AND 0xff), ucast (drop_bit 16 w AND 0xff),
       ucast (drop_bit 8 w AND 0xff), ucast (w AND 0xff)], s))"

definition print_mac :: "u8 list \<times> sys \<Rightarrow> sys" where
  "print_mac r = bmc_print (map ucast (fst r)) (snd r)"

definition bmc_alveo :: "u_dev \<Rightarrow> sys \<Rightarrow> int \<times> sys" where
  "bmc_alveo dev s = (let
     (v, s) = bmc_alveo_read dev 0x020000 s;
     (dead, s) = (if v = 0 then (True, s) else case bmc_alveo_read dev 0x028000 s of (v, s) \<Rightarrow> (v = 0, s));
     s = (if dead then kvoid ''usleep'' [100000] (bmc_alveo_write dev 0x020000 1 (bmc_alveo_write dev 0x020000 0 s)) else s);
     (v, s) = bmc_alveo_read dev 0x028000 s
     in if v \<noteq> 0x74736574 then (- 1, s)
        else (0, fold (\<lambda>k s. print_mac (bmc_alveo_mac dev k s)) [0..<8] (fold (bmc_sensor dev) alveo_bmc_sensors s)))"

text \<open>The two bytes of an answer; a failed query is cut to 16 bits like any other.\<close>

definition bmc_gecko_pair :: "u_dev \<Rightarrow> nat \<Rightarrow> sys \<Rightarrow> u8 list \<times> sys" where
  "bmc_gecko_pair dev p s = (case bmc_gecko_query dev 0x2003 (word_of_nat p) s of (r, s) \<Rightarrow>
     let val = word_of_int r :: u16 in ([ucast (val AND 0xff), ucast (drop_bit 8 val AND 0xff)], s))"

definition bmc_gecko_mac :: "u_dev \<Rightarrow> nat \<Rightarrow> sys \<Rightarrow> u8 list \<times> sys" where
  "bmc_gecko_mac dev k s = (let
     (a, s) = bmc_gecko_pair dev (k * 6) s;
     (b, s) = bmc_gecko_pair dev (k * 6 + 2) s;
     (c, s) = bmc_gecko_pair dev (k * 6 + 4) s
     in (a @ b @ c, s))"

definition bmc_gecko :: "u_dev \<Rightarrow> sys \<Rightarrow> int \<times> sys" where
  "bmc_gecko dev s = (case bmc_gecko_query dev 0x7006 0 s of (r, s) \<Rightarrow>
     if r \<le> 0 then (- 1, s)
     else case bmc_gecko_query dev 0x7005 0 s of (v_l, s) \<Rightarrow> case bmc_gecko_query dev 0x7006 0 s of (v_h, s) \<Rightarrow>
       let l = word_of_int v_l :: u16; h = word_of_int v_h :: u16;
           s = bmc_print [ucast (drop_bit 8 h AND 0xff), ucast (h AND 0xff), ucast (drop_bit 8 l AND 0xff), ucast (l AND 0xff)] s
       in (0, fold (\<lambda>k s. print_mac (bmc_gecko_mac dev k s)) [0..<8] s))"

fun bmc_parse :: "(char \<times> string) list \<Rightarrow> string option \<Rightarrow> int + string option" where
  "bmc_parse [] device = Inr device"
| "bmc_parse ((c, arg) # xs) device =
    (if c = CHR ''d'' then bmc_parse xs (Some arg)
     else if c = CHR ''h'' \<or> c = CHR ''?'' then Inl 0
     else Inl (- 1))"

definition bmc_main :: "nat \<Rightarrow> (char \<times> string) list \<Rightarrow> sys \<Rightarrow> (int \<times> sys) option" where
  "bmc_main path_max args s = (case bmc_parse args None of
     Inl r \<Rightarrow> Some (r, s)
   | Inr None \<Rightarrow> Some (- 1, s)
   | Inr (Some device) \<Rightarrow> do {
       (dev, s) \<leftarrow> util_open path_max device s;
       (case dev of
          None \<Rightarrow> Some (- 1, s)
        | Some d \<Rightarrow>
            let b = ud_board_id d;
                (r, s) = (if b = BOARD_ID_AU50 \<or> b = BOARD_ID_AU200 \<or> b = BOARD_ID_AU250 \<or> b = BOARD_ID_AU280 then bmc_alveo d s
                  else if b = BOARD_ID_FB2CG_KU15P then bmc_gecko d s
                  else (- 1, s))
            in do { s \<leftarrow> util_close dev s; Some (r, s) }) })"

section \<open>The schedule that is programmed\<close>

text \<open>The time the three registers hold.\<close>

fun written_time :: "(u32 \<times> addr) list \<Rightarrow> int" where
  "written_time [(n, _), (l, _), (h, _)] = (uint l + 2 ^ 32 * uint h) * NSEC_PER_SEC + uint n"
| "written_time ws = 0"

lemma written_canon:
  assumes "0 \<le> v" "v div NSEC_PER_SEC < 2 ^ 64"
  shows "written_time (time_writes a b c (canon v)) = v"
proof -
  let ?s = "v div NSEC_PER_SEC"
  have c: "canon v = \<lparr>tv_sec = ?s, tv_nsec = v mod NSEC_PER_SEC\<rparr>"
    using assms(1) by (simp add: canon_def tdiv_nonneg tmod_nonneg)
  have "0 \<le> v mod NSEC_PER_SEC" "v mod NSEC_PER_SEC < NSEC_PER_SEC" by (simp_all add: NSEC_PER_SEC_def)
  then have n: "uint (word_of_int (v mod NSEC_PER_SEC) :: u32) = v mod NSEC_PER_SEC"
    by (simp add: uint_word_of_int NSEC_PER_SEC_def)
  have s: "0 \<le> ?s" using assms(1) by (simp add: NSEC_PER_SEC_def pos_imp_zdiv_nonneg_iff)
  then have "?s div 2 ^ 32 < 2 ^ 32" using assms(2) by (simp add: div_less_iff_less_mult)
  then have h: "uint (word_of_int (?s div 2 ^ 32) :: u32) = ?s div 2 ^ 32"
    using s by (simp add: uint_word_of_int pos_imp_zdiv_nonneg_iff)
  have l: "uint (word_of_int ?s :: u32) = ?s mod 2 ^ 32" by (simp add: uint_word_of_int)
  have "written_time (time_writes a b c (canon v)) = (?s mod 2 ^ 32 + 2 ^ 32 * (?s div 2 ^ 32)) * NSEC_PER_SEC + v mod NSEC_PER_SEC"
    by (simp only: time_writes_def c timespec.select_convs written_time.simps n h l)
  also have "\<dots> = v" by simp
  finally show ?thesis .
qed

lemma split_small: "in_long v \<Longrightarrow> small_ts (split_nsec v) \<and> ns (split_nsec v) = v"
proof -
  assume "in_long v"
  then have "\<bar>tv_sec (canon v)\<bar> < 2 ^ 61"
    by (cases "0 \<le> v") (simp_all add: canon_def tdiv_nonneg tdiv_neg NSEC_PER_SEC_def long_bounds)
  then show ?thesis by (simp add: split_nsec_canon small_ts_def normalised_canon ns_canon)
qed

text \<open>C25: the configuration tool programs a start time that has the requested phase and, when the requested time
  has passed, is less than a period away from the time of the device; then the period, and at last it enables the
  schedule.\<close>

theorem tdma_schedule_phase:
  assumes "in_long (co_period opts)" "0 < co_period opts" "in_long (co_start opts)" "0 \<le> co_start opts"
    "cur_time (ud_phc_regs dev) s = Some (now, s1)" "small_ts now" "0 \<le> ns now"
  shows "\<exists>ws. cfg_schedule opts dev regs s = Some (iowrites (ws @ time_writes (regs + TDMA_SCHED_PERIOD_NS)
      (regs + TDMA_SCHED_PERIOD_SEC_L) (regs + TDMA_SCHED_PERIOD_SEC_H) (split_nsec (co_period opts)) @ [(1, regs + TDMA_CTRL)]) s1) \<and>
    map snd ws = [regs + TDMA_SCHED_START_NS, regs + TDMA_SCHED_START_SEC_L, regs + TDMA_SCHED_START_SEC_H] \<and>
    written_time ws mod co_period opts = co_start opts mod co_period opts \<and>
    (if ns now \<le> co_start opts then written_time ws = co_start opts
     else ns now - co_period opts < written_time ws \<and> written_time ws < ns now + co_period opts)"
proof -
  note p = split_small [OF assms(1)] and t = split_small [OF assms(3)]
  let ?p = "co_period opts" and ?t = "co_start opts"
  define v where "v = (if ns now \<le> ?t then ?t else ?t mod ?p + (ns now - ns now mod ?p))"
  have al: "align_start now (split_nsec ?t) (split_nsec ?p) = Some (canon v)"
  proof (cases "ns now \<le> ?t")
    case True
    then show ?thesis using t assms(6) by (auto simp: align_start_def small_ts_def timespec_lt_ns v_def split_nsec_canon)
  next
    case False
    then show ?thesis using align_start_past [of now "split_nsec ?t" "split_nsec ?p"] p t assms(2,4,6,7) by (simp add: v_def)
  qed
  have b: "0 \<le> ns now mod ?p" "ns now mod ?p < ?p" "0 \<le> ?t mod ?p" "?t mod ?p < ?p" "ns now mod ?p \<le> ns now"
    using assms(2,7) by (simp_all add: zmod_le_nonneg_dividend)
  have v0: "0 \<le> v" using b assms(4) by (simp add: v_def)
  have "ns now < 2 ^ 61 * NSEC_PER_SEC" using assms(6)
    by (auto simp: small_ts_def normalised_def ns_def NSEC_PER_SEC_def)
  moreover have "v \<le> ?t + ?p + ns now"
  proof (cases "ns now \<le> ?t")
    case False
    then have "v = ?t mod ?p + (ns now - ns now mod ?p)" by (simp add: v_def)
    then show ?thesis using b(1,4) assms(4) by linarith
  qed (use assms(2,7) in \<open>simp add: v_def\<close>)
  ultimately have "v < 2 ^ 64 * NSEC_PER_SEC" using assms(1,3) by (simp add: NSEC_PER_SEC_def long_bounds)
  then have "v div NSEC_PER_SEC < 2 ^ 64" by (simp add: NSEC_PER_SEC_def div_less_iff_less_mult)
  note w = written_canon [OF v0 this]
  have "v mod ?p = ?t mod ?p" by (simp add: v_def minus_mod_eq_mult_div)
  moreover have "ns now - ?p < v \<and> v < ns now + ?p" if "\<not> ns now \<le> ?t"
  proof -
    have "v = ?t mod ?p + (ns now - ns now mod ?p)" using that by (simp add: v_def)
    then show ?thesis using b(1-4) by linarith
  qed
  ultimately show ?thesis using assms(2,5) al w
    by (intro exI [of _ "time_writes (regs + TDMA_SCHED_START_NS) (regs + TDMA_SCHED_START_SEC_L) (regs + TDMA_SCHED_START_SEC_H) (canon v)"])
      (auto simp: cfg_schedule_def Let_def v_def time_writes_def)
qed

definition demo_clock :: sys where
  "demo_clock = quiet_world\<lparr>w_ioread := \<lambda>_ a. if a = 0x814 then 7 else if a = 0x818 then 100 else 0\<rparr>"

theorem tdma_schedule_phase_witness:
  "\<exists>ws s1. cfg_schedule (no_cfg\<lparr>co_start := 3000000005, co_period := 2000000000\<rparr>) (empty_dev 0 0 0 0\<lparr>ud_phc_regs := 0x800\<rparr>) 0x2000 demo_clock =
      Some (iowrites (ws @ time_writes 0x3024 0x3028 0x302C (split_nsec 2000000000) @ [(1, 0x3000)]) s1) \<and>
    map snd ws = [0x3014, 0x3018, 0x301C] \<and> written_time ws mod 2000000000 = 1000000005 \<and> 98000000007 < written_time ws"
proof -
  let ?o = "no_cfg\<lparr>co_start := 3000000005, co_period := 2000000000\<rparr>" and ?d = "empty_dev 0 0 0 0\<lparr>ud_phc_regs := 0x800\<rparr>"
  obtain s1 where c: "cur_time 0x800 demo_clock = Some (\<lparr>tv_sec = 100, tv_nsec = 7\<rparr>, s1)"
    by (auto simp: cur_time_def ioread32_def Let_def demo_clock_def PTP_CUR_NS_def PTP_CUR_SEC_L_def PTP_CUR_SEC_H_def chk_long_def long_bounds)
  have "small_ts \<lparr>tv_sec = 100, tv_nsec = 7\<rparr>" "ns \<lparr>tv_sec = 100, tv_nsec = 7\<rparr> = 100000000007"
    by (simp_all add: small_ts_def normalised_def ns_def NSEC_PER_SEC_def)
  then show ?thesis
    using tdma_schedule_phase [of ?o ?d demo_clock "\<lparr>tv_sec = 100, tv_nsec = 7\<rparr>" s1 "0x2000"] c
    by (auto simp: no_cfg_def empty_dev_def long_bounds tdma_regs)
qed

text \<open>A device that cannot do what is asked for is left alone, and the tool still returns 0.\<close>

lemma config_ignores_missing_port:
  assumes "cfg_parse args no_cfg = Inr opts" "co_device opts = Some device" "util_open path_max device s = Some (Some d, s1)"
    "cfg_port opts d = None" "util_close (Some d) s1 = Some s2"
  shows "config_main path_max args s = Some (0, s2)"
  using assms by (simp add: config_main_def)

text \<open>The file of a clock that cannot be read stays open.\<close>

lemma perout_leaks_file:
  assumes "0 < po_period opts" "\<forall>h x. w_kcall s h ''clock_gettime'' x \<noteq> 0" "po_request opts fd clkid s = Some (r, s')"
  shows "r = - 1 \<and> bal (trace s') x = bal (trace s) x"
  using assms by (auto simp: po_request_def kcall_def split: if_splits)

end
