(* ===== verification/Dump.thy ===== *)
theory Dump
  imports Tools Iface
begin

text \<open>
  The dump tool (\<open>utils/mqnic-dump.c\<close>): it prints the fields of the opened device, reads the registers of the
  clock, of a port, of the queues of an interface and of the schedulers, and prints them. A line with values is a
  \<open>printf\<close> of the history that carries them, in the order of the code; the text around them is left out. Where a
  line reads several registers the order of the reads is C's choice, and the model takes them from left to right.
  The last section relates the tool to the driver: a queue is shown as the driver configured it.
\<close>

section \<open>Queues\<close>

text \<open>A queue as it is shown.\<close>

record queue_info =
  qi_base_addr :: u64
  qi_active :: bool
  qi_log_desc_block_size :: u8
  qi_log_queue_size :: u8
  qi_armed :: bool
  qi_continuous :: bool
  qi_index :: u32
  qi_head_ptr :: u32
  qi_tail_ptr :: u32
  qi_occupancy :: u32

definition CONT_MASK :: u32 where "CONT_MASK = 0x40000000"

definition read_queue :: "addr \<Rightarrow> sys \<Rightarrow> queue_info \<times> sys" where
  "read_queue base s = (let
     (vs, s) = ioreads [base + BASE_ADDR_REG, base + BASE_ADDR_REG + 4, base + ACTIVE_LOG_SIZE_REG, base + ACTIVE_LOG_SIZE_REG,
       base + ACTIVE_LOG_SIZE_REG, base + INDEX_REG, base + HEAD_PTR_REG, base + TAIL_PTR_REG] s
     in (\<lparr>qi_base_addr = ucast (vs ! 0) + push_bit 32 (ucast (vs ! 1)), qi_active = (vs ! 2 AND ACTIVE_MASK \<noteq> 0),
       qi_log_desc_block_size = ucast (drop_bit 8 (vs ! 3) AND 0xff), qi_log_queue_size = ucast (vs ! 4 AND 0xff),
       qi_armed = False, qi_continuous = False, qi_index = vs ! 5, qi_head_ptr = vs ! 6, qi_tail_ptr = vs ! 7,
       qi_occupancy = (vs ! 6 - vs ! 7) AND 0xffff\<rparr>, s))"

definition read_cpl_queue :: "addr \<Rightarrow> sys \<Rightarrow> queue_info \<times> sys" where
  "read_cpl_queue base s = (let
     (vs, s) = ioreads [base + BASE_ADDR_REG, base + BASE_ADDR_REG + 4, base + ACTIVE_LOG_SIZE_REG, base + ACTIVE_LOG_SIZE_REG,
       base + INDEX_REG, base + INDEX_REG, base + INDEX_REG, base + HEAD_PTR_REG, base + TAIL_PTR_REG] s
     in (\<lparr>qi_base_addr = ucast (vs ! 0) + push_bit 32 (ucast (vs ! 1)), qi_active = (vs ! 2 AND ACTIVE_MASK \<noteq> 0),
       qi_log_desc_block_size = 0, qi_log_queue_size = ucast (vs ! 3 AND 0xff),
       qi_armed = (vs ! 4 AND ARM_MASK \<noteq> 0), qi_continuous = (vs ! 5 AND CONT_MASK \<noteq> 0), qi_index = vs ! 6 AND 0xffff,
       qi_head_ptr = vs ! 7, qi_tail_ptr = vs ! 8, qi_occupancy = (vs ! 7 - vs ! 8) AND 0xffff\<rparr>, s))"

definition dump_print :: "int list \<Rightarrow> sys \<Rightarrow> sys" where
  "dump_print vs s = kvoid ''printf'' vs s"

definition print_queue :: "nat \<Rightarrow> queue_info \<times> sys \<Rightarrow> sys" where
  "print_queue k r = (case r of (q, s) \<Rightarrow> dump_print [int k, uint (qi_base_addr q), of_bool (qi_active q),
     uint (qi_log_desc_block_size q), uint (qi_log_queue_size q), uint (qi_index q), uint (qi_head_ptr q),
     uint (qi_tail_ptr q), uint (qi_occupancy q)] s)"

definition print_cpl_queue :: "nat \<Rightarrow> queue_info \<times> sys \<Rightarrow> sys" where
  "print_cpl_queue k r = (case r of (q, s) \<Rightarrow> dump_print [int k, uint (qi_base_addr q), of_bool (qi_active q),
     uint (qi_log_queue_size q), of_bool (qi_armed q), of_bool (qi_continuous q), uint (qi_index q), uint (qi_head_ptr q),
     uint (qi_tail_ptr q), uint (qi_occupancy q)] s)"

definition queue_base :: "u_if \<Rightarrow> u32 \<Rightarrow> nat \<Rightarrow> addr" where
  "queue_base i offset k = ui_regs i + ucast offset + word_of_nat (k * QUEUE_STRIDE)"

definition dump_queues :: "u_if \<Rightarrow> u32 \<Rightarrow> u32 \<Rightarrow> sys \<Rightarrow> sys" where
  "dump_queues i offset n s = fold (\<lambda>k s. print_queue k (read_queue (queue_base i offset k) s)) [0..<unat n] s"

definition dump_cpl_queues :: "u_if \<Rightarrow> u32 \<Rightarrow> u32 \<Rightarrow> sys \<Rightarrow> sys" where
  "dump_cpl_queues i offset n s = fold (\<lambda>k s. print_cpl_queue k (read_cpl_queue (queue_base i offset k) s)) [0..<unat n] s"

text \<open>The completion queues are counted by the transmit and receive queues.\<close>

definition dump_if_queues :: "u_if \<Rightarrow> sys \<Rightarrow> sys" where
  "dump_if_queues i s = (let
     s = dump_queues i (ui_tx_queue_offset i) (ui_tx_queue_count i) s;
     s = dump_cpl_queues i (ui_tx_cpl_queue_offset i) (ui_tx_queue_count i) s;
     s = dump_queues i (ui_rx_queue_offset i) (ui_rx_queue_count i) s;
     s = dump_cpl_queues i (ui_rx_cpl_queue_offset i) (ui_rx_queue_count i) s
     in dump_cpl_queues i (ui_event_queue_offset i) (ui_event_queue_count i) s)"

section \<open>Clock, port and schedulers\<close>

definition PEROUT_STRIDE :: addr where "PEROUT_STRIDE = 0x40"
definition PEROUT_STATUS :: addr where "PEROUT_STATUS = 0x0004"

text \<open>
  A register, and a time in three of them, on a line that starts with the indices \<open>ix\<close>; the seconds wrap like a
  \<open>long\<close>.
\<close>

definition dump_reg :: "int list \<Rightarrow> addr \<Rightarrow> sys \<Rightarrow> sys" where
  "dump_reg ix a s = (case ioread32 a s of (v, s) \<Rightarrow> dump_print (ix @ [uint v]) s)"

definition dump_time :: "int list \<Rightarrow> addr \<Rightarrow> addr \<Rightarrow> addr \<Rightarrow> sys \<Rightarrow> sys" where
  "dump_time ix sec_l sec_h ns_reg s = (case ioreads [sec_l, sec_h, ns_reg] s of (vs, s) \<Rightarrow>
     dump_print (ix @ [sint (ucast (vs ! 0) + push_bit 32 (ucast (vs ! 1)) :: u64), uint (vs ! 2)]) s)"

definition dump_period :: "int list \<Rightarrow> addr \<Rightarrow> addr \<Rightarrow> sys \<Rightarrow> sys" where
  "dump_period ix ns_reg fns_reg s = (case ioreads [ns_reg, fns_reg] s of (vs, s) \<Rightarrow> dump_print (ix @ map uint vs) s)"

definition dump_perout :: "int list \<Rightarrow> addr \<Rightarrow> sys \<Rightarrow> sys" where
  "dump_perout ix base s = (let
     s = dump_reg ix (base + PEROUT_CTRL) s;
     s = dump_reg ix (base + PEROUT_STATUS) s;
     s = dump_time ix (base + PEROUT_START_SEC_L) (base + PEROUT_START_SEC_H) (base + PEROUT_START_NS) s;
     s = dump_time ix (base + PEROUT_PERIOD_SEC_L) (base + PEROUT_PERIOD_SEC_H) (base + PEROUT_PERIOD_NS) s
     in dump_time ix (base + PEROUT_WIDTH_SEC_L) (base + PEROUT_WIDTH_SEC_H) (base + PEROUT_WIDTH_NS) s)"

text \<open>The number of channels is read again for each of them; it is below 256 every time.\<close>

function dump_perouts :: "int \<Rightarrow> addr \<Rightarrow> nat \<Rightarrow> sys \<Rightarrow> sys" where
  "dump_perouts k phc ch s = (case ioread32 (phc + PHC_REG_FEATURES) s of (features, s) \<Rightarrow>
     if ch < unat (features AND 0xff)
     then dump_perouts k phc (ch + 1) (dump_perout [k, int ch] (phc + PEROUT_OFFSET + PEROUT_STRIDE * word_of_nat ch) s)
     else s)"
  by pat_completeness auto

lemma low_byte_less: "unat ((x :: u32) AND 0xff) < 256"
proof -
  have "x AND 0xff \<le> 0xff" by (rule word_and_le1)
  then show ?thesis by (simp add: word_le_nat_alt)
qed

termination dump_perouts
proof (relation "measure (\<lambda>(k, phc, ch, s). 256 - ch)")
  fix k :: int and phc :: addr and ch :: nat and s x y
  assume "ch < unat (x AND (0xff :: u32))"
  then have "ch < 256" using low_byte_less [of x] by linarith
  then show "((k, phc, ch + 1, dump_perout [k, int ch] (phc + PEROUT_OFFSET + PEROUT_STRIDE * word_of_nat ch) y), k, phc, ch, s)
      \<in> measure (\<lambda>(k, phc, ch, s). 256 - ch)" by simp
qed simp

declare dump_perouts.simps [simp del]

definition dump_phc :: "u_dev \<Rightarrow> nat \<Rightarrow> sys \<Rightarrow> sys" where
  "dump_phc dev k s = (let phc = ud_phc_regs dev + ucast (word_of_nat k * ud_phc_stride dev);
     s = dump_reg [int k] (phc + PHC_REG_FEATURES) s;
     s = dump_time [int k] (phc + PTP_CUR_SEC_L) (phc + PTP_CUR_SEC_H) (phc + PTP_CUR_NS) s;
     s = dump_period [int k] (phc + PTP_PERIOD_NS) (phc + PTP_PERIOD_FNS) s;
     s = dump_period [int k] (phc + PTP_NOM_PERIOD_NS) (phc + PTP_NOM_PERIOD_FNS) s
     in dump_perouts (int k) phc 0 s)"

definition PORT_TX_MTU :: addr where "PORT_TX_MTU = 0x0100"
definition PORT_RX_MTU :: addr where "PORT_RX_MTU = 0x0200"
definition TDMA_STATUS :: addr where "TDMA_STATUS = 0x1004"

definition dump_tdma :: "addr \<Rightarrow> u32 \<Rightarrow> sys \<Rightarrow> sys" where
  "dump_tdma regs slots s = (let
     s = dump_reg [] (regs + TDMA_CTRL) s;
     s = dump_reg [] (regs + TDMA_STATUS) s;
     s = dump_print [uint slots] s;
     s = dump_time [] (regs + TDMA_SCHED_START_SEC_L) (regs + TDMA_SCHED_START_SEC_H) (regs + TDMA_SCHED_START_NS) s;
     s = dump_time [] (regs + TDMA_SCHED_PERIOD_SEC_L) (regs + TDMA_SCHED_PERIOD_SEC_H) (regs + TDMA_SCHED_PERIOD_NS) s;
     s = dump_time [] (regs + TDMA_TIMESLOT_PERIOD_SEC_L) (regs + TDMA_TIMESLOT_PERIOD_SEC_H) (regs + TDMA_TIMESLOT_PERIOD_NS) s
     in dump_time [] (regs + TDMA_ACTIVE_PERIOD_SEC_L) (regs + TDMA_ACTIVE_PERIOD_SEC_H) (regs + TDMA_ACTIVE_PERIOD_NS) s)"

text \<open>The fields of the structures.\<close>

definition print_fields :: "u32 list \<Rightarrow> sys \<Rightarrow> sys" where
  "print_fields vs s = fold (\<lambda>v. dump_print [uint v]) vs s"

definition print_version :: "u32 \<Rightarrow> sys \<Rightarrow> sys" where
  "print_version v s = dump_print [uint (drop_bit 16 v), uint (v AND 0xffff)] s"

definition print_dev :: "u_dev \<Rightarrow> sys \<Rightarrow> sys" where
  "print_dev dev s = (let
     s = print_fields [ud_fw_id dev] s;
     s = print_version (ud_fw_ver dev) s;
     s = print_fields [ud_board_id dev] s;
     s = print_version (ud_board_ver dev) s
     in print_fields [ud_phc_count dev, ud_phc_offset dev, ud_phc_stride dev, ud_if_count dev, ud_if_stride dev,
          ud_if_csr_offset dev] s)"

definition print_if :: "u_if \<Rightarrow> sys \<Rightarrow> sys" where
  "print_if i s = print_fields [ui_if_id i, ui_if_features i, ui_event_queue_count i, ui_event_queue_offset i,
     ui_tx_queue_count i, ui_tx_queue_offset i, ui_tx_cpl_queue_count i, ui_tx_cpl_queue_offset i,
     ui_rx_queue_count i, ui_rx_queue_offset i, ui_rx_cpl_queue_count i, ui_rx_cpl_queue_offset i,
     ui_port_count i, ui_port_offset i, ui_port_stride i] s"

definition dump_port :: "u_dev \<Rightarrow> u_port \<Rightarrow> sys \<Rightarrow> sys" where
  "dump_port dev p s = (let
     s = print_fields [up_port_id p, up_port_features p, up_port_mtu p, up_sched_count p, up_sched_offset p,
           up_sched_stride p, up_sched_type p] s;
     s = dump_reg [] (up_regs p + PORT_TX_MTU) s;
     s = dump_reg [] (up_regs p + PORT_RX_MTU) s
     in if ud_phc_count dev > 0 then dump_tdma (up_regs p) (up_tdma_timeslot_count p) s else s)"

text \<open>The state of every transmit queue in every scheduler of the port; the array has \<open>MAX_SCHED\<close> entries.\<close>

fun dump_scheds :: "int \<Rightarrow> u_port \<Rightarrow> u32 \<Rightarrow> nat list \<Rightarrow> sys \<Rightarrow> sys option" where
  "dump_scheds port p queues [] s = Some s"
| "dump_scheds port p queues (k # ks) s = (let s = dump_print [port, int k] s in
     if queues = 0 then dump_scheds port p queues ks s
     else if MAX_SCHED \<le> k then None
     else do {
       sched \<leftarrow> up_sched p k;
       dump_scheds port p queues ks
         (fold (\<lambda>l. dump_reg [int k, int l] (us_regs sched + word_of_nat (l * 4))) [0..<unat queues] s) })"

record dump_opts =
  du_device :: "string option"
  du_interface :: int
  du_port :: int

fun dump_parse :: "(char \<times> string) list \<Rightarrow> dump_opts \<Rightarrow> int + dump_opts" where
  "dump_parse [] opts = Inr opts"
| "dump_parse ((c, arg) # xs) opts =
    (if c = CHR ''d'' then dump_parse xs (opts\<lparr>du_device := Some arg\<rparr>)
     else if c = CHR ''i'' then dump_parse xs (opts\<lparr>du_interface := atoi arg\<rparr>)
     else if c = CHR ''P'' then dump_parse xs (opts\<lparr>du_port := atoi arg\<rparr>)
     else if c = CHR ''h'' \<or> c = CHR ''?'' then Inl 0
     else Inl (- 1))"

definition dump_interface :: "dump_opts \<Rightarrow> u_dev \<Rightarrow> u_if option" where
  "dump_interface opts dev =
    (if du_interface opts < 0 \<or> uint (ud_if_count dev) \<le> du_interface opts then None else ud_interfaces dev (nat (du_interface opts)))"

definition dump_the_port :: "dump_opts \<Rightarrow> u_if \<Rightarrow> u_port option" where
  "dump_the_port opts i =
    (if du_port opts < 0 \<or> uint (ui_port_count i) \<le> du_port opts then None else ui_ports i (nat (du_port opts)))"

definition dump_device :: "dump_opts \<Rightarrow> u_dev \<Rightarrow> sys \<Rightarrow> (int \<times> sys) option" where
  "dump_device opts dev s = (let s = fold (dump_phc dev) [0..<unat (ud_phc_count dev)] (print_dev dev s) in
     case dump_interface opts dev of
       None \<Rightarrow> Some (- 1, s)
     | Some i \<Rightarrow> (let s = print_if i s in case dump_the_port opts i of
         None \<Rightarrow> Some (- 1, s)
       | Some p \<Rightarrow> do {
           s \<leftarrow> dump_scheds (du_port opts) p (ui_tx_queue_count i) [0..<unat (up_sched_count p)] (dump_if_queues i (dump_port dev p s));
           Some (0, s) }))"

definition dump_main :: "nat \<Rightarrow> (char \<times> string) list \<Rightarrow> sys \<Rightarrow> (int \<times> sys) option" where
  "dump_main path_max args s = (case dump_parse args \<lparr>du_device = None, du_interface = 0, du_port = 0\<rparr> of
     Inl r \<Rightarrow> Some (r, s)
   | Inr opts \<Rightarrow> (case du_device opts of
       None \<Rightarrow> Some (- 1, s)
     | Some device \<Rightarrow> do {
         (dev, s) \<leftarrow> util_open path_max device s;
         (case dev of
            None \<Rightarrow> Some (- 1, s)
          | Some d \<Rightarrow> do {
              (r, s) \<leftarrow> dump_device opts d s;
              s \<leftarrow> util_close dev s;
              Some (r, s) }) }))"

section \<open>The driver's queues as they are shown\<close>

text \<open>
  The tool's mapping shows the registers the driver wrote: a queue at \<open>base\<close> for the tool and at \<open>hw\<close> for the
  driver, whose history is \<open>tr\<close>.
\<close>

definition shows_queue :: "addr \<Rightarrow> addr \<Rightarrow> event list \<Rightarrow> sys \<Rightarrow> bool" where
  "shows_queue base hw tr s \<longleftrightarrow>
     (\<forall>r \<in> {BASE_ADDR_REG, BASE_ADDR_REG + 4, ACTIVE_LOG_SIZE_REG, INDEX_REG, HEAD_PTR_REG, TAIL_PTR_REG}.
       \<forall>h v. last_write tr (hw + r) = Some v \<longrightarrow> w_ioread s h (base + r) = v)"

lemma join_halves: "ucast (ucast d :: u32) + push_bit 32 (ucast (ucast (drop_bit 32 d) :: u32)) = (d :: u64)"
  (is "?l + ?h = d")
proof -
  have "?l AND ?h = 0" by (rule bit_word_eqI) (auto simp: bit_simps)
  moreover have "?l + ?h = (?l AND ?h) + (?l OR ?h)" by (rule word_plus_and_or [symmetric])
  ultimately show ?thesis using dma_split [of d] by (simp only: add_0)
qed

lemma config_last_writes:
  assumes "tr = trace (iowrites (config_writes hw dma idx hp tp logsz) s)"
  shows "last_write tr (hw + BASE_ADDR_REG) = Some (ucast dma)"
    "last_write tr (hw + (BASE_ADDR_REG + 4)) = Some (ucast (drop_bit 32 dma))"
    "last_write tr (hw + ACTIVE_LOG_SIZE_REG) = Some logsz" "last_write tr (hw + INDEX_REG) = Some idx"
    "last_write tr (hw + HEAD_PTR_REG) = Some hp" "last_write tr (hw + TAIL_PTR_REG) = Some tp"
  by (simp_all add: assms config_writes_def)

lemma ioreads_world: "w_ioread (snd (ioread32 a s)) = w_ioread s"
  by (simp add: ioread32_def Let_def)

lemma shown_cpl_queue:
  assumes "shows_queue base hw (trace (iowrites (config_writes hw dma idx hp tp logsz) s)) t"
  shows "fst (read_cpl_queue base t) = \<lparr>qi_base_addr = dma, qi_active = (logsz AND ACTIVE_MASK \<noteq> 0), qi_log_desc_block_size = 0,
    qi_log_queue_size = ucast (logsz AND 0xff), qi_armed = (idx AND ARM_MASK \<noteq> 0), qi_continuous = (idx AND CONT_MASK \<noteq> 0),
    qi_index = idx AND 0xffff, qi_head_ptr = hp, qi_tail_ptr = tp, qi_occupancy = (hp - tp) AND 0xffff\<rparr>"
  using assms config_last_writes [OF refl, of hw dma idx hp tp logsz s]
  by (simp add: shows_queue_def read_cpl_queue_def ioread32_def Let_def join_halves add.assoc)

lemma activate_cq_writes:
  assumes "mqnic_activate_cq_ring ring (Some e) s = (0, ring', s')"
  shows "\<exists>s1. w_ilog2 s1 = w_ilog2 s \<and> s' = iowrites (config_writes (cq_hw_addr ring) (cq_buf_dma_addr ring) (word_of_int e)
    (cq_head_ptr ring AND cq_hw_ptr_mask ring) (cq_tail_ptr ring AND cq_hw_ptr_mask ring) (w_ilog2 s (cq_size ring) OR ACTIVE_MASK)) s1"
proof -
  define s1 where "s1 = snd (mqnic_deactivate_cq_ring ring s)"
  have "extends s s1" unfolding s1_def mqnic_deactivate_cq_ring_def snd_conv by (rule extends_iowrites [OF extends_refl])
  then have w: "w_ilog2 s1 = w_ilog2 s" using extends_fields by blast
  moreover have "s' = iowrites (config_writes (cq_hw_addr ring) (cq_buf_dma_addr ring) (word_of_int e)
    (cq_head_ptr ring AND cq_hw_ptr_mask ring) (cq_tail_ptr ring AND cq_hw_ptr_mask ring) (w_ilog2 s1 (cq_size ring) OR ACTIVE_MASK)) s1"
    using assms by (auto simp: mqnic_activate_cq_ring_def mqnic_deactivate_cq_ring_def s1_def Let_def split: option.splits)
  ultimately show ?thesis by auto
qed

lemma masked_difference: "((h AND 0xffff) - (t AND 0xffff)) AND 0xffff = (h - t :: u32) AND 0xffff"
proof -
  have m: "x AND 0xffff = take_bit 16 x" for x :: u32 by (simp add: take_bit_eq_mask mask_eq_exp_minus_1)
  have u: "uint (take_bit 16 (x - y)) = take_bit 16 (uint x - uint y)" for x y :: u32
    unfolding unsigned_take_bit_eq uint_word_ariths by (simp add: take_bit_eq_mod mod_mod_cancel)
  show ?thesis unfolding m by (rule word_uint_eqI, simp only: u, simp only: unsigned_take_bit_eq take_bit_diff)
qed

lemma active_size: "ucast ((word_of_nat k OR ACTIVE_MASK :: u32) AND 0xff) = (word_of_nat k :: u8)"
proof -
  have "(word_of_nat k OR ACTIVE_MASK :: u32) AND 0xff = (word_of_nat k AND 0xff) OR (ACTIVE_MASK AND 0xff)"
    by (rule bit.conj_disj_distrib2)
  also have "\<dots> = take_bit 8 (word_of_nat k)"
    by (simp add: ACTIVE_MASK_def take_bit_eq_mask mask_eq_exp_minus_1)
  finally have "ucast ((word_of_nat k OR ACTIVE_MASK :: u32) AND 0xff) = (ucast (word_of_nat k :: u32) :: u8)"
    by (simp add: bit_word_eqI bit_simps)
  also have "\<dots> = word_of_nat k" by (simp add: word_of_nat_eq_iff unsigned_of_nat)
  finally show ?thesis .
qed

text \<open>C26: the dump tool shows a completion queue the driver has activated as the driver configured it: its buffer,
  its size, the event queue it reports to, and the number of its completions that wait.\<close>

theorem dump_shows_activated_queue:
  assumes "mqnic_activate_cq_ring ring (Some e) s = (0, ring', s')" "shows_queue base (cq_hw_addr ring) (trace s') t"
    "pow2_lib s" "cq_size ring = 2 ^ k" "k < 32" "0 \<le> e" "e < 2 ^ 16" "cq_hw_ptr_mask ring = 0xffff"
  shows "fst (read_cpl_queue base t) = \<lparr>qi_base_addr = cq_buf_dma_addr ring, qi_active = True, qi_log_desc_block_size = 0,
    qi_log_queue_size = word_of_nat k, qi_armed = False, qi_continuous = False, qi_index = word_of_int e,
    qi_head_ptr = cq_head_ptr ring AND 0xffff, qi_tail_ptr = cq_tail_ptr ring AND 0xffff,
    qi_occupancy = (cq_head_ptr ring - cq_tail_ptr ring) AND 0xffff\<rparr>"
proof -
  obtain s1 where s1: "s' = iowrites (config_writes (cq_hw_addr ring) (cq_buf_dma_addr ring) (word_of_int e)
      (cq_head_ptr ring AND 0xffff) (cq_tail_ptr ring AND 0xffff) (w_ilog2 s (cq_size ring) OR ACTIVE_MASK)) s1"
    using activate_cq_writes [OF assms(1)] assms(8) by auto
  have l: "w_ilog2 s (cq_size ring) = word_of_nat k" using pow2_lib_exact [OF assms(3,5)] assms(4) by simp
  have k: "ucast ((word_of_nat k OR ACTIVE_MASK :: u32) AND 0xff) = (word_of_nat k :: u8)" by (rule active_size)
  have a: "(word_of_nat k OR ACTIVE_MASK :: u32) AND ACTIVE_MASK \<noteq> 0"
  proof
    assume "(word_of_nat k OR ACTIVE_MASK :: u32) AND ACTIVE_MASK = 0"
    then have "bit ((word_of_nat k OR ACTIVE_MASK :: u32) AND ACTIVE_MASK) 31 = False" by simp
    then show False by (simp add: bit_and_iff bit_or_iff ACTIVE_MASK_def)
  qed
  have e: "(word_of_int e :: u32) AND 0xffff = word_of_int e"
  proof -
    have "(word_of_int e :: u32) AND 0xffff = take_bit 16 (word_of_int e)" by (simp add: take_bit_eq_mask mask_eq_exp_minus_1)
    also have "\<dots> = word_of_int e"
      using assms(6,7) by (intro word_uint_eqI) (simp add: unsigned_take_bit_eq unsigned_of_int take_bit_int_eq_self)
    finally show ?thesis .
  qed
  have "(word_of_int e :: u32) AND ARM_MASK = ((word_of_int e :: u32) AND 0xffff) AND ARM_MASK"
    "(word_of_int e :: u32) AND CONT_MASK = ((word_of_int e :: u32) AND 0xffff) AND CONT_MASK" by (simp_all only: e)
  then have "(word_of_int e :: u32) AND ARM_MASK = 0" "(word_of_int e :: u32) AND CONT_MASK = 0"
    by (simp_all add: and.assoc ARM_MASK_def CONT_MASK_def)
  then show ?thesis using shown_cpl_queue [OF assms(2) [unfolded s1 l]] k a e masked_difference by simp
qed

text \<open>A view of an active completion queue of eight entries, and what it becomes.\<close>

definition demo_view :: sys where
  "demo_view = quiet_world\<lparr>w_ioread := (\<lambda>h a. if a = 0 then 0x2000 else if a = ACTIVE_LOG_SIZE_REG then 0x80000003
     else if a = INDEX_REG then 3 else 0)\<rparr>"

lemma dump_shows_activated_queue_witness:
  "let q = fst (read_cpl_queue 0 demo_view) in
     qi_base_addr q = 0x2000 \<and> qi_active q \<and> qi_log_queue_size q = 3 \<and> qi_index q = 3 \<and> qi_occupancy q = 0"
proof -
  let ?r = "(demo_cq 5)\<lparr>cq_buf_dma_addr := 0x2000\<rparr>"
  obtain ring' s' where a: "mqnic_activate_cq_ring ?r (Some 3) quiet_world = (0, ring', s')"
    by (simp add: mqnic_activate_cq_ring_def mqnic_deactivate_cq_ring_def demo_cq_def)
  obtain s1 where s1: "w_ilog2 s1 = w_ilog2 quiet_world" "s' = iowrites (config_writes (cq_hw_addr ?r) 0x2000 3 0 0
      (w_ilog2 quiet_world 8 OR ACTIVE_MASK)) s1"
    using activate_cq_writes [OF a] by (auto simp: demo_cq_def)
  have l: "w_ilog2 quiet_world 8 = 3" using pow2_lib_exact [OF quiet_world_pow2_lib, of 3] by simp
  have "shows_queue 0 (cq_hw_addr ?r) (trace s') demo_view"
    using config_last_writes [OF refl, of "cq_hw_addr ?r" "0x2000" 3 0 0 "w_ilog2 quiet_world 8 OR ACTIVE_MASK" s1]
    by (simp add: shows_queue_def s1(2) demo_view_def l ACTIVE_MASK_def)
  from dump_shows_activated_queue [OF a this quiet_world_pow2_lib, of 3]
  show ?thesis by (simp add: demo_cq_def)
qed


end
