(* ===== verification/Spec2Isabelle.thy ===== *)
theory Spec2Isabelle
  imports Timespec FdsmProbe DevFile FdsmProps FwProps FwFlash Tools Dump
begin

text \<open>
  The mqnic network driver of snic-dsm (\<open>src/modules/mqnic\<close>), the messaging layer that was added to it, and
  the utilities (\<open>src/utils\<close>).

  \<^bold>\<open>The program.\<close> A device offers interfaces; an interface has event queues, transmit and
  receive queues with a completion queue each, and ports; a network device drives all queues of its
  interface. A queue is a ring of descriptors in DMA memory with a head and a tail pointer kept in
  registers. Packets are posted to transmit rings, buffers to receive rings; the device writes completions,
  which raise events, which raise interrupts; the interrupt handler reads events and schedules NAPI polling,
  which reads completions, frees what they complete and posts new buffers. The device also has a
  precision clock, I2C buses with optical modules and an EEPROM, and on some boards a management controller
  that knows the MAC addresses. The messaging layer moves messages between two processors through a ring of
  buffers in one area of memory. The utilities open a device from user space; one of them programs the
  flash the FPGA is configured from, over wires it drives one register write at a time.

  \<^bold>\<open>The theories.\<close> Each opens with what it holds.
  \<^item> \<open>Prelude\<close>: word lemmas, checked signed arithmetic, loops that may fault.
  \<^item> \<open>Kernel\<close>: the machine and the kernel. Register reads, device memory, allocators, DMA mapping and
    other kernel or library functions answer from the history of effects, a list of events newest first; \<open>bal\<close>
    reads off it who holds which memory, DMA buffer and other resource.
  \<^item> \<open>HwQueue\<close>, \<open>Ring\<close>: the queue registers, ring pointers and masks, the interface locales every kind of
    queue instantiates.
  \<^item> \<open>CplQueue\<close> (\<open>mqnic_cq.c\<close>), \<open>EventQueue\<close> (\<open>mqnic_eq.c\<close>), \<open>TxRing\<close> (\<open>mqnic_tx.c\<close>), \<open>RxRing\<close>
    (\<open>mqnic_rx.c\<close>), \<open>Port\<close> (\<open>mqnic_port.c\<close>), \<open>Ptp\<close> (\<open>mqnic_ptp.c\<close>): one record and one definition per
    function each.
  \<^item> \<open>Netdev\<close>, \<open>NetdevLife\<close> (\<open>mqnic_netdev.c\<close>): opening, closing, statistics, timestamping requests,
    creating and destroying a network device.
  \<^item> \<open>Iface\<close>, \<open>IfaceLife\<close> (\<open>mqnic_if.c\<close>): creating and destroying an interface.
  \<^item> \<open>Device\<close> (\<open>struct mqnic_dev\<close>), \<open>Irq\<close> (\<open>mqnic_irq.c\<close>), \<open>I2c\<close> (\<open>mqnic_i2c.c\<close>), \<open>Board\<close>
    (\<open>mqnic_board.c\<close>), \<open>Ethtool\<close> (\<open>mqnic_ethtool.c\<close>), \<open>DevFile\<close> (\<open>mqnic_dev.c\<close>).
  \<^item> \<open>MainDrv\<close> (\<open>mqnic_main.c\<close>): numbering devices, bringing a device up from its registers, its boards, its
    clock and its interfaces, and taking it down again.
  \<^item> \<open>Fdsm\<close>, \<open>FdsmProps\<close> (the messaging layer of \<open>mqnic_main_fdsm.c\<close>): the send and receive rings over the
    message area, sending, receiving, pinned slots, and the setup that is never reached.
  \<^item> \<open>FdsmProbe\<close> (the PCI driver of \<open>mqnic_main_fdsm.c\<close>): probe and removal with one more BAR; all else in
    it repeats \<open>mqnic_main.c\<close> and uses its definitions.
  \<^item> \<open>Timespec\<close> (\<open>timespec.c\<close>), \<open>Bitfile\<close> (\<open>bitfile.c\<close>), \<open>FpgaId\<close> (\<open>fpga_id.c\<close>), \<open>UtilMqnic\<close> (\<open>mqnic.c\<close>),
    all of \<open>src/utils\<close>.
  \<^item> \<open>SpiBus\<close>, \<open>FlashSpi\<close> (\<open>flash_spi.c\<close>) with \<open>SpiRefine\<close> and \<open>FlashKeep\<close>; \<open>FlashBpi\<close> (\<open>flash_bpi.c\<close>)
    with \<open>BpiRefine\<close>; \<open>FlashDev\<close> (\<open>flash.c\<close>): the flash drivers, and a serial and a parallel flash as the
    wires show them, which answer the driver's register reads.
  \<^item> \<open>FwTool\<close>, \<open>FwMain\<close> (\<open>mqnic-fw.c\<close>) with \<open>FwProps\<close> and \<open>FwFlash\<close>; \<open>Tools\<close> (\<open>perout.c\<close>, \<open>mqnic-config.c\<close>,
    \<open>mqnic-bmc.c\<close>), \<open>Dump\<close> (\<open>mqnic-dump.c\<close>): the command line tools, each with its \<open>main\<close>.

  \<^bold>\<open>Conventions.\<close> A structure is a record, an array a list or a map from its index, a pointer that
  may be null an option. Registers are words of their width. A negative error number is an \<open>int\<close>. A
  function that can follow a null pointer, leave an array, overflow or divide by zero returns an option,
  \<open>None\<close> being the fault; a property that says the code works says that the result is \<open>Some\<close>. Code outside the
  repository is a field of \<open>sys\<close> or an argument. Loops over a count are folds over the indices; the polling
  loops with a bound recurse on the attempts left, which the code bounds itself. A loop that need not end is a
  partial function into options (waiting for a flash, the search for a device number, a list of PCI
  capabilities, the pieces of a flash), or \<open>while_option\<close>, and a property about it says that it ends: the
  reference flash stays busy for \<open>delay\<close> reads of its status, whatever number that is.

  \<^bold>\<open>What is assumed.\<close> Each as a hypothesis: \<open>pow2_lib\<close>, the documented results of \<open>roundup_pow_of_two\<close> and
  \<open>ilog2\<close>; \<open>fresh_alloc\<close> and its kin, that an allocator hands out what nobody holds; \<open>radix_lib\<close>, that a
  radix tree finds what was inserted; \<open>spi_idle\<close> and its parallel counterpart, that the lines carry what the
  attached flash puts on them; \<open>cfg_attached\<close> and \<open>files_ok\<close>, that a read of a file finds what was written.
  Each is met by a world the witnesses run in.

  \<^bold>\<open>What the lemmas show.\<close> Every ring follows a protocol over any sequence of its operations: the base
  address is written and memory freed only while the queue is inactive. Packets, pages and DMA mappings are
  neither lost nor duplicated by sending, polling, refilling and freeing. Network devices, interfaces, a probe
  and a device opened from user space come up and go down without faults, and give back all they took. The
  flash drivers refine programming, erasing and reading of a memory; on top of that an image that the firmware
  tool writes is what it reads back. The dump tool shows a queue as the driver configured it. Bit files, numbers of nanoseconds and addresses are decoded as they were
  encoded. The error theorems state how the code goes wrong where it does.

  \<^bold>\<open>Not modelled.\<close>
  \<^item> Locks, log messages, progress displays and the ordering of memory accesses: the definitions are
    sequential, and a register access is one event.
  \<^item> What the messaging layer includes from outside the repository (its rings, its DMA engine, its
    macros): arguments of its definitions.
  \<^item> The conversions of \<open>timespec.c\<close> to and from floating point, and its test program.
  \<^item> \<open>apps/Zynq_app/test.c\<close>, which times reads and writes of a mapped file, and the example driver of the PCIe
    library.
  \<^item> Generated code under \<open>src/fpga\<close>: initialisation tables (\<open>psu_init\<close>) and simulation models.
\<close>

end
